(* ===== verification/Prelude.thy ===== *)
theory Prelude
  imports Main "HOL-Library.Word" "HOL-Library.Multiset"
begin

text \<open>
  Shared vocabulary of the development: the C integer types as words of their width, the
  kernel's error numbers, C strings, and the abstract view of the kernel's intrusive lists
  (\<^verbatim>\<open>list_head\<close>) that the modelled drivers use: a list head is the sequence of its
  entries, and a ring without a head is the cyclic sequence of its members as seen from each
  of them. The generic facts about these views are collected in \<open>list_head\<close> and \<open>ring\<close>.
\<close>

unbundle bit_operations_syntax

named_theorems list_head \<open>facts about sequences of list entries\<close>
named_theorems ring \<open>facts about cyclic sequences\<close>
named_theorems cstring \<open>facts about bounded C strings\<close>

subsection \<open>C types and error numbers\<close>

type_synonym u8 = "8 word"
type_synonym u32 = "32 word"
type_synonym s32 = "32 word"
type_synonym u64 = "64 word"
type_synonym ptr = "64 word"

abbreviation (input) INT_MAX :: s32 where "INT_MAX \<equiv> 0x7FFFFFFF"

text \<open>
  A counter of type \<^verbatim>\<open>int\<close> or \<^verbatim>\<open>atomic_t\<close> is an integer between \<open>- 2 ^ 31\<close> and \<open>2 ^ 31 - 1\<close>;
  \<open>c_int\<close> is what it holds after an increment or decrement, which wraps around.
\<close>

definition c_int :: "int \<Rightarrow> int" where
  "c_int x = (x + 2 ^ 31) mod 2 ^ 32 - 2 ^ 31"

lemma c_int_small [simp]: "- (2 ^ 31) \<le> x \<Longrightarrow> x < 2 ^ 31 \<Longrightarrow> c_int x = x"
  by (simp add: c_int_def)

abbreviation (input) ENOENT :: int where "ENOENT \<equiv> 2"
abbreviation (input) EAGAIN :: int where "EAGAIN \<equiv> 11"
abbreviation (input) ENOMEM :: int where "ENOMEM \<equiv> 12"
abbreviation (input) EFAULT :: int where "EFAULT \<equiv> 14"
abbreviation (input) EEXIST :: int where "EEXIST \<equiv> 17"
abbreviation (input) ENODEV :: int where "ENODEV \<equiv> 19"
abbreviation (input) EINVAL :: int where "EINVAL \<equiv> 22"
abbreviation (input) ERANGE :: int where "ERANGE \<equiv> 34"
abbreviation (input) ENODATA :: int where "ENODATA \<equiv> 61"

text \<open>\<^verbatim>\<open>1UL << i\<close>.\<close>

abbreviation BIT :: "nat \<Rightarrow> u64" where "BIT i \<equiv> push_bit i 1"

subsection \<open>Bounded C strings\<close>

text \<open>
  A C string is the list of its characters before the terminating NUL.
  \<open>strlcpy n s\<close> is what a buffer of \<open>n\<close> bytes holds after \<^verbatim>\<open>strlcpy(dst, s, n)\<close>;
  \<open>strncmp_eq n a b\<close> is \<^verbatim>\<open>strncmp(a, b, n) == 0\<close>.
\<close>

definition strlcpy :: "nat \<Rightarrow> string \<Rightarrow> string" where
  "strlcpy n s = take (n - 1) s"

definition strncmp_eq :: "nat \<Rightarrow> string \<Rightarrow> string \<Rightarrow> bool" where
  "strncmp_eq n a b \<longleftrightarrow> take n a = take n b"

lemma strlcpy_short [cstring]: "length s < n \<Longrightarrow> strlcpy n s = s"
  by (simp add: strlcpy_def)

lemma length_strlcpy [cstring]: "0 < n \<Longrightarrow> length (strlcpy n s) < n"
  by (auto simp: strlcpy_def)

lemma strncmp_eq_refl [cstring, simp]: "strncmp_eq n s s"
  by (simp add: strncmp_eq_def)

lemma strncmp_eq_short [cstring]:
  "length a < n \<Longrightarrow> length b < n \<Longrightarrow> strncmp_eq n a b \<longleftrightarrow> a = b"
  by (simp add: strncmp_eq_def)

text \<open>A stored, truncated string never compares equal to a source that did not fit.\<close>

lemma strncmp_eq_long [cstring]:
  assumes "length a < n" and "n \<le> length b"
  shows "\<not> strncmp_eq n a b"
proof
  assume "strncmp_eq n a b"
  then have "length (take n a) = length (take n b)"
    by (simp add: strncmp_eq_def)
  with assms show False by simp
qed

subsection \<open>List heads\<close>

text \<open>
  \<open>insert_before x pos xs\<close> is \<^verbatim>\<open>list_add_tail(x, pos)\<close>: before the entry \<open>pos\<close>,
  or, with \<open>None\<close> for the list head itself, at the end. \<open>succ_in x xs\<close> is the entry after
  \<open>x\<close>, \<open>None\<close> when that is the list head.
\<close>

definition insert_before :: "'a \<Rightarrow> 'a option \<Rightarrow> 'a list \<Rightarrow> 'a list" where
  "insert_before x pos xs =
     (case pos of
        None \<Rightarrow> xs @ [x]
      | Some y \<Rightarrow> takeWhile (\<lambda>z. z \<noteq> y) xs @ x # dropWhile (\<lambda>z. z \<noteq> y) xs)"

definition succ_in :: "'a \<Rightarrow> 'a list \<Rightarrow> 'a option" where
  "succ_in x xs = (case dropWhile (\<lambda>z. z \<noteq> x) xs of _ # y # _ \<Rightarrow> Some y | _ \<Rightarrow> None)"

lemma takeWhile_neq_append [list_head]:
  "y \<notin> set xs \<Longrightarrow> takeWhile (\<lambda>z. z \<noteq> y) (xs @ y # ys) = xs"
  by (induction xs) auto

lemma dropWhile_neq_append [list_head]:
  "y \<notin> set xs \<Longrightarrow> dropWhile (\<lambda>z. z \<noteq> y) (xs @ y # ys) = y # ys"
  by (induction xs) auto

lemma insert_before_None [list_head, simp]: "insert_before x None xs = xs @ [x]"
  by (simp add: insert_before_def)

lemma insert_before_Some [list_head]:
  "y \<notin> set xs \<Longrightarrow> insert_before x (Some y) (xs @ y # ys) = xs @ x # y # ys"
  by (simp add: insert_before_def takeWhile_neq_append dropWhile_neq_append)

lemma succ_in_middle [list_head]:
  "x \<notin> set xs \<Longrightarrow> succ_in x (xs @ x # ys) = (case ys of [] \<Rightarrow> None | y # _ \<Rightarrow> Some y)"
  by (auto simp: succ_in_def dropWhile_neq_append split: list.splits)

lemma mset_insert_before [list_head, simp]:
  "mset (insert_before x pos xs) = add_mset x (mset xs)"
proof (cases pos)
  case (Some y)
  have "mset xs = mset (takeWhile (\<lambda>z. z \<noteq> y) xs @ dropWhile (\<lambda>z. z \<noteq> y) xs)"
    by simp
  then show ?thesis
    using Some by (simp add: insert_before_def del: takeWhile_dropWhile_id)
qed simp

lemma set_insert_before [list_head, simp]: "set (insert_before x pos xs) = insert x (set xs)"
  by (metis mset_insert_before set_mset_add_mset_insert set_mset_mset)

subsection \<open>Rings\<close>

text \<open>
  A ring of entries without a head, written from one of its members on. \<open>rotate_to x r\<close> is
  the same ring written from \<open>x\<close>.
\<close>

definition rotate_to :: "'a \<Rightarrow> 'a list \<Rightarrow> 'a list" where
  "rotate_to x r = dropWhile (\<lambda>z. z \<noteq> x) r @ takeWhile (\<lambda>z. z \<noteq> x) r"

lemma rotate_to_middle [ring]: "x \<notin> set xs \<Longrightarrow> rotate_to x (xs @ x # ys) = x # ys @ xs"
  by (simp add: rotate_to_def takeWhile_neq_append dropWhile_neq_append)

lemma rotate_to_hd [ring, simp]: "rotate_to x (x # ys) = x # ys"
  by (simp add: rotate_to_def)

lemma mset_rotate_to [ring, simp]: "mset (rotate_to x r) = mset r"
  by (simp add: rotate_to_def) (metis add.commute mset_append takeWhile_dropWhile_id)

lemma set_rotate_to [ring, simp]: "set (rotate_to x r) = set r"
  by (metis mset_rotate_to set_mset_mset)

lemma length_rotate_to [ring, simp]: "length (rotate_to x r) = length r"
  by (metis mset_rotate_to size_mset)

lemma distinct_rotate_to [ring, simp]: "distinct (rotate_to x r) \<longleftrightarrow> distinct r"
  by (metis distinct_count_atmost_1 mset_rotate_to set_rotate_to)

text \<open>Written from one of its members, a ring does not depend on where it was cut.\<close>

lemma rotate_to_commute [ring]:
  assumes "distinct (xs @ ys)" and "x \<in> set xs \<union> set ys"
  shows "rotate_to x (ys @ xs) = rotate_to x (xs @ ys)"
proof (cases "x \<in> set xs")
  case True
  then obtain as bs where xs: "xs = as @ x # bs" by (auto dest: split_list)
  with assms(1) have "x \<notin> set (ys @ as)" and "x \<notin> set as" by auto
  then show ?thesis
    using rotate_to_middle [of x "ys @ as" bs] rotate_to_middle [of x as "bs @ ys"]
    by (simp add: xs)
next
  case False
  with assms(2) obtain as bs where ys: "ys = as @ x # bs" by (auto dest: split_list)
  with assms(1) have "x \<notin> set (xs @ as)" and "x \<notin> set as" by auto
  then show ?thesis
    using rotate_to_middle [of x "xs @ as" bs] rotate_to_middle [of x as "bs @ xs"]
    by (simp add: ys)
qed

lemma rotate_to_rotate_to [ring]:
  assumes "distinct r" and "x \<in> set r" and "y \<in> set r"
  shows "rotate_to x (rotate_to y r) = rotate_to x r"
proof -
  from assms(3) obtain as bs where r: "r = as @ y # bs" by (auto dest: split_list)
  with assms(1) have "rotate_to y r = (y # bs) @ as"
    by (simp add: rotate_to_middle)
  then show ?thesis
    using rotate_to_commute [of as "y # bs" x] assms(1,2) by (auto simp: r)
qed

end
