(* ===== verification/Plist.thy ===== *)
theory Plist
  imports Prelude
begin

text \<open>
  The priority-sorted list of \<^verbatim>\<open>drivers/soc/google/exynos_pm_qos.c\<close>: the driver's own
  copies of the kernel's \<^verbatim>\<open>plist_add\<close> and \<^verbatim>\<open>plist_del\<close>. A plist keeps every node on
  \<^verbatim>\<open>node_list\<close>, ordered by priority and first-come within one priority, and links one node
  of each priority on the ring \<^verbatim>\<open>prio_list\<close>, which the insertion walks instead of the
  whole list. The theory models both links and shows that the ring always runs through the
  first node of each priority, that insertion and removal keep the order, and that the two
  ends of the list are the least and the greatest priority.
\<close>

subsection \<open>Nodes and their links\<close>

text \<open>
  A node is named by its address, a \<open>nat\<close>. The store gives each node its priority and the
  ring its \<^verbatim>\<open>prio_list\<close> is on, written from the node itself: \<open>[n]\<close> is a link that points
  to itself, which is what \<^verbatim>\<open>list_empty(&n->prio_list)\<close> tests.
\<close>

record plist_store =
  prio :: "nat \<Rightarrow> s32"
  prio_ring :: "nat \<Rightarrow> nat list"

type_synonym plist = "plist_store \<times> nat list"

definition set_ring :: "nat list \<Rightarrow> plist_store \<Rightarrow> plist_store" where
  "set_ring r s =
     s\<lparr>prio_ring := (\<lambda>m. if m \<in> set r then rotate_to m r else prio_ring s m)\<rparr>"

definition prio_list_empty :: "plist_store \<Rightarrow> nat \<Rightarrow> bool" where
  "prio_list_empty s n \<longleftrightarrow> prio_ring s n = [n]"

definition prio_list_add_tail :: "nat \<Rightarrow> nat \<Rightarrow> plist_store \<Rightarrow> plist_store" where
  "prio_list_add_tail new pos s = set_ring (prio_ring s pos @ [new]) s"

definition prio_list_add :: "nat \<Rightarrow> nat \<Rightarrow> plist_store \<Rightarrow> plist_store" where
  "prio_list_add new pos s = set_ring (pos # new # tl (prio_ring s pos)) s"

definition prio_list_del_init :: "nat \<Rightarrow> plist_store \<Rightarrow> plist_store" where
  "prio_list_del_init n s = set_ring [n] (set_ring (tl (prio_ring s n)) s)"

text \<open>\<^verbatim>\<open>plist_node_init\<close>: the priority, and both links to themselves.\<close>

definition plist_node_init :: "nat \<Rightarrow> s32 \<Rightarrow> plist_store \<Rightarrow> plist_store" where
  "plist_node_init n p s = s\<lparr>prio := (prio s)(n := p), prio_ring := (prio_ring s)(n := [n])\<rparr>"

subsection \<open>exynos\_plist\_add\<close>

text \<open>
  The do-while loop: it visits the ring from \<^verbatim>\<open>first\<close> on and stops at the first node
  with a greater priority, or when it is back at \<^verbatim>\<open>first\<close>. The result is
  \<^verbatim>\<open>(iter, prev, node_next)\<close>, where \<open>None\<close> for \<^verbatim>\<open>node_next\<close> is the list head.
\<close>

fun plist_scan ::
  "(nat \<Rightarrow> s32) \<Rightarrow> s32 \<Rightarrow> nat \<Rightarrow> nat list \<Rightarrow> nat option \<Rightarrow> nat \<times> nat option \<times> nat option"
where
  "plist_scan pr p first [] prev = (first, prev, None)"
| "plist_scan pr p first (iter # rest) prev =
     (if sint p < sint (pr iter) then (iter, prev, Some iter)
      else plist_scan pr p first rest (Some iter))"

definition exynos_plist_add :: "nat \<Rightarrow> plist \<Rightarrow> plist" where
  "exynos_plist_add node q =
     (let (s, head) = q in
      case head of
        [] \<Rightarrow> (s, insert_before node None head)
      | first # _ \<Rightarrow>
          (let (iter, prev, node_next) =
                 plist_scan (prio s) (prio s node) first (prio_ring s first) None;
               s' = (if prev = None \<or> prio s (the prev) \<noteq> prio s node
                     then prio_list_add_tail node iter s else s)
           in (s', insert_before node node_next head)))"

subsection \<open>exynos\_plist\_del\<close>

definition exynos_plist_del :: "nat \<Rightarrow> plist \<Rightarrow> plist" where
  "exynos_plist_del node q =
     (let (s, head) = q;
          s' = (if \<not> prio_list_empty s node then
                  (let s1 = (case succ_in node head of
                               None \<Rightarrow> s
                             | Some next \<Rightarrow>
                                 (if prio_list_empty s next then prio_list_add next node s else s))
                   in prio_list_del_init node s1)
                else s)
      in (s', remove1 node head))"

subsection \<open>The first node of each priority\<close>

text \<open>\<open>firsts f xs\<close> keeps, of every run of equal \<open>f\<close>-values in \<open>xs\<close>, the first element.\<close>

fun firsts :: "('a \<Rightarrow> 'k) \<Rightarrow> 'a list \<Rightarrow> 'a list" where
  "firsts f [] = []"
| "firsts f [x] = [x]"
| "firsts f (x # y # zs) = (if f x = f y then firsts f (x # zs) else x # firsts f (y # zs))"

lemma set_firsts: "set (firsts f xs) \<subseteq> set xs"
  by (induction f xs rule: firsts.induct) auto

lemma firsts_Cons: "\<exists>ys. firsts f (x # xs) = x # ys"
  by (induction xs) auto

lemma hd_firsts [simp]: "hd (firsts f (x # xs)) = x"
  using firsts_Cons [of f x xs] by auto

lemma firsts_eq_Nil [simp]: "firsts f xs = [] \<longleftrightarrow> xs = []"
  by (metis firsts.simps(1) firsts_Cons list.distinct(1) list.exhaust)

lemma distinct_firsts: "distinct xs \<Longrightarrow> distinct (firsts f xs)"
proof (induction f xs rule: firsts.induct)
  case (3 f x y zs)
  have "x \<notin> set (firsts f (y # zs))"
    using set_firsts [of f "y # zs"] 3(3) by auto
  with 3 show ?case by auto
qed auto

lemma firsts_append:
  "xs \<noteq> [] \<Longrightarrow> ys \<noteq> [] \<Longrightarrow> f (last xs) \<noteq> f (hd ys) \<Longrightarrow>
   firsts f (xs @ ys) = firsts f xs @ firsts f ys"
proof (induction f xs rule: firsts.induct)
  case (2 f x)
  then show ?case by (cases ys) auto
next
  case (3 f x y zs)
  then show ?case by (auto split: if_splits)
qed simp

lemma firsts_snoc:
  "firsts f (xs @ [y]) = firsts f xs @ (if xs \<noteq> [] \<and> f (last xs) = f y then [] else [y])"
  by (induction f xs rule: firsts.induct) auto

lemma firsts_run: "(\<And>y. y \<in> set ys \<Longrightarrow> f y = f x) \<Longrightarrow> firsts f (x # ys) = [x]"
  by (induction ys) auto

lemma key_last_firsts: "xs \<noteq> [] \<Longrightarrow> f (last (firsts f xs)) = f (last xs)"
  by (induction f xs rule: firsts.induct) auto

lemma firsts_absorb:
  assumes "xs \<noteq> []" and "f (last xs) = f y"
  shows "firsts f (xs @ y # ys) = firsts f (xs @ ys)"
  using assms by (induction f xs rule: firsts.induct) (auto split: if_splits)


definition ring_ok :: "plist_store \<Rightarrow> nat list \<Rightarrow> bool" where
  "ring_ok s head \<longleftrightarrow>
     (\<forall>n \<in> set head. prio_ring s n =
        (if n \<in> set (firsts (prio s) head) then rotate_to n (firsts (prio s) head) else [n]))"

fun plist_inv :: "plist \<Rightarrow> bool" where
  "plist_inv (s, head) \<longleftrightarrow>
     distinct head \<and> sorted (map (\<lambda>n. sint (prio s n)) head) \<and> ring_ok s head"

lemma ring_ok_rep:
  "ring_ok s head \<Longrightarrow> n \<in> set (firsts (prio s) head) \<Longrightarrow>
   prio_ring s n = rotate_to n (firsts (prio s) head)"
  using set_firsts [of "prio s" head] by (auto simp: ring_ok_def)

lemma ring_ok_first: "ring_ok s (f # rest) \<Longrightarrow> prio_ring s f = firsts (prio s) (f # rest)"
  by (metis firsts_Cons list.set_intros(1) ring_ok_rep rotate_to_hd)

lemma plist_scan_split:
  assumes "\<forall>n \<in> set xs. sint (pr n) \<le> sint p"
    and "\<forall>n \<in> set ys. sint p < sint (pr n)"
  shows "plist_scan pr p first (xs @ ys) prev =
    (let prev' = (if xs = [] then prev else Some (last xs))
     in case ys of [] \<Rightarrow> (first, prev', None) | y # _ \<Rightarrow> (y, prev', Some y))"
  using assms by (induction xs arbitrary: prev) (auto simp: Let_def split: list.splits)

lemma prio_set_ring [simp]: "prio (set_ring r s) = prio s"
  by (simp add: set_ring_def)

lemma prio_ring_set_ring:
  "prio_ring (set_ring r s) n = (if n \<in> set r then rotate_to n r else prio_ring s n)"
  by (simp add: set_ring_def)

lemma prio_ops [simp]:
  "prio (prio_list_add_tail new pos s) = prio s"
  "prio (prio_list_add new pos s) = prio s"
  "prio (prio_list_del_init n s) = prio s"
  by (simp_all add: prio_list_add_tail_def prio_list_add_def prio_list_del_init_def)

lemma prio_exynos_plist_add [simp]: "prio (fst (exynos_plist_add n q)) = prio (fst q)"
  by (auto simp: exynos_plist_add_def Let_def split: prod.splits list.splits)

lemma prio_exynos_plist_del [simp]: "prio (fst (exynos_plist_del n q)) = prio (fst q)"
  by (auto simp: exynos_plist_del_def Let_def split: prod.splits option.splits)

lemma sorted_map_hd: "sorted (map f ys) \<Longrightarrow> n \<in> set ys \<Longrightarrow> f (hd ys) \<le> f n"
  by (cases ys) auto

lemma sorted_map_last: "sorted (map f ys) \<Longrightarrow> n \<in> set ys \<Longrightarrow> f n \<le> f (last ys)"
  by (induction ys rule: rev_induct) (auto simp: sorted_append)

text \<open>The place where a priority belongs cuts the list and its ring at the same node.\<close>

lemma sorted_cut:
  fixes pr :: "nat \<Rightarrow> s32"
  assumes "sorted (map (\<lambda>n. sint (pr n)) head)"
  obtains xs ys where "head = xs @ ys"
    and "\<forall>n \<in> set xs. sint (pr n) \<le> sint p" and "\<forall>n \<in> set ys. sint p < sint (pr n)"
    and "firsts pr head = firsts pr xs @ firsts pr ys"
proof
  let ?P = "\<lambda>n. sint (pr n) \<le> sint p"
  let ?xs = "takeWhile ?P head" and ?ys = "dropWhile ?P head"
  show split: "head = ?xs @ ?ys" by simp
  show low: "\<forall>n \<in> set ?xs. ?P n" by (auto dest: set_takeWhileD)
  have hd_high: "sint p < sint (pr (hd ?ys))" if "?ys \<noteq> []"
    using hd_dropWhile [OF that] by simp
  have sorted_ys: "sorted (map (\<lambda>n. sint (pr n)) ?ys)"
    using assms split by (metis map_append sorted_append)
  show "\<forall>n \<in> set ?ys. sint p < sint (pr n)"
  proof
    fix n assume n: "n \<in> set ?ys"
    then have "?ys \<noteq> []" by (auto simp del: dropWhile_eq_Nil_conv)
    then have "sint p < sint (pr (hd ?ys))" by (rule hd_high)
    also have "\<dots> \<le> sint (pr n)" using sorted_map_hd [OF sorted_ys n] .
    finally show "sint p < sint (pr n)" .
  qed
  have "pr (last ?xs) \<noteq> pr (hd ?ys)" if "?xs \<noteq> []" and "?ys \<noteq> []"
    using low hd_high that last_in_set [OF that(1)] by fastforce
  then show "firsts pr head = firsts pr ?xs @ firsts pr ?ys"
    using firsts_append [of ?xs ?ys pr] split by (cases "?xs = []"; cases "?ys = []") fastforce+
qed


text \<open>
  What an insertion does to the two links: behind every node of its priority on
  \<^verbatim>\<open>node_list\<close>, and on the ring only when its priority is new.
\<close>

lemma exynos_plist_add_cut:
  assumes inv: "plist_inv (s, head)" and new: "n \<notin> set head"
    and cut: "head = xs @ ys"
    and low: "\<forall>m \<in> set xs. sint (prio s m) \<le> sint (prio s n)"
    and high: "\<forall>m \<in> set ys. sint (prio s n) < sint (prio s m)"
    and fst_cut: "firsts (prio s) head = firsts (prio s) xs @ firsts (prio s) ys"
  shows "exynos_plist_add n (s, head) =
     (if head = [] \<or> (xs \<noteq> [] \<and> prio s (last xs) = prio s n) then s
      else prio_list_add_tail n (if ys = [] then hd head else hd ys) s,
      xs @ n # ys)"
proof (cases head)
  case Nil
  with cut show ?thesis by (simp add: exynos_plist_add_def)
next
  case (Cons f rest)
  let ?fx = "firsts (prio s) xs" and ?fy = "firsts (prio s) ys"
  have ring_f: "prio_ring s f = ?fx @ ?fy"
    using inv fst_cut ring_ok_first Cons by auto
  have lowf: "\<forall>m \<in> set ?fx. sint (prio s m) \<le> sint (prio s n)"
    using low set_firsts [of "prio s" xs] by blast
  have highf: "\<forall>m \<in> set ?fy. sint (prio s n) < sint (prio s m)"
    using high set_firsts [of "prio s" ys] by blast
  have "?fy = (case ys of [] \<Rightarrow> [] | y # ys' \<Rightarrow> y # tl ?fy)"
    by (cases ys) (simp_all, metis firsts_Cons list.sel(3))
  then have scan: "plist_scan (prio s) (prio s n) f (prio_ring s f) None =
    (let prev = (if xs = [] then None else Some (last ?fx))
     in if ys = [] then (f, prev, None) else (hd ys, prev, Some (hd ys)))"
    unfolding ring_f plist_scan_split [OF lowf highf]
    by (cases ys) (auto simp: Let_def split: list.splits)
  have place: "insert_before n (if ys = [] then None else Some (hd ys)) head = xs @ n # ys"
    using inv cut by (cases ys) (auto simp: insert_before_Some)
  show ?thesis
    using Cons scan place key_last_firsts [of xs "prio s"]
    by (auto simp: exynos_plist_add_def Let_def split: if_splits)
qed


lemma firsts_place:
  assumes low: "\<forall>m \<in> set xs. sint (pr m) \<le> sint (pr n)"
    and high: "\<forall>m \<in> set ys. sint (pr n) < sint (pr m)"
  shows "firsts pr (xs @ n # ys) =
    firsts pr xs @ (if xs \<noteq> [] \<and> pr (last xs) = pr n then [] else [n]) @ firsts pr ys"
proof (cases ys)
  case Nil
  then show ?thesis by (simp add: firsts_snoc)
next
  case (Cons y ys')
  then have "pr n \<noteq> pr y" using high by auto
  then show ?thesis
    using firsts_append [of "xs @ [n]" ys pr] by (simp add: firsts_snoc Cons)
qed

text \<open>The ring of the list with a node of a new priority in its place.\<close>

lemma ring_ok_grow:
  assumes ok: "ring_ok s (xs @ ys)" and dist: "distinct (xs @ n # ys)"
    and old: "firsts (prio s) (xs @ ys) = fx @ fy"
    and new: "firsts (prio s) (xs @ n # ys) = fx @ n # fy"
    and at: "iter \<in> set (fx @ fy)" "rotate_to iter (fx @ fy) = fy @ fx"
  shows "ring_ok (prio_list_add_tail n iter s) (xs @ n # ys)"
proof -
  have d: "distinct (fx @ n # fy)" using distinct_firsts [OF dist] new by metis
  have ring: "prio_ring s iter = fy @ fx"
    using ring_ok_rep [OF ok] at old by simp
  have rot: "rotate_to m (fy @ fx @ [n]) = rotate_to m (fx @ n # fy)" if "m \<in> set (fx @ n # fy)" for m
    using rotate_to_commute [of "fx @ [n]" fy m] d that by auto
  show ?thesis
    using ok rot
    by (auto simp: ring_ok_def prio_list_add_tail_def prio_ring_set_ring ring new old)
qed

lemma ring_cut:
  assumes "distinct (xs @ ys)" and "xs @ ys \<noteq> []"
  defines "iter \<equiv> if ys = [] then hd (xs @ ys) else hd ys"
  shows "iter \<in> set (firsts f xs @ firsts f ys)"
    and "rotate_to iter (firsts f xs @ firsts f ys) = firsts f ys @ firsts f xs"
proof -
  let ?fx = "firsts f xs" and ?fy = "firsts f ys"
  have "distinct ?fx" "distinct ?fy" "set ?fx \<inter> set ?fy = {}"
    using assms(1) set_firsts [of f xs] set_firsts [of f ys] by (auto simp: distinct_firsts)
  moreover have "?fy = (if ys = [] then [] else hd ys # tl ?fy)"
    by (cases ys) (simp_all, metis firsts_Cons list.sel(3))
  moreover have "?fx = (if xs = [] then [] else hd xs # tl ?fx)"
    by (cases xs) (simp_all, metis firsts_Cons list.sel(3))
  ultimately show "iter \<in> set (?fx @ ?fy)" and "rotate_to iter (?fx @ ?fy) = ?fy @ ?fx"
    using rotate_to_middle [of iter ?fx "tl ?fy"] assms(2) unfolding iter_def
    by (auto split: if_splits) (metis disjoint_iff list.set_intros(1) append_Cons rotate_to_hd append_Nil2)+
qed

lemma plist_inv_add:
  assumes inv: "plist_inv (s, head)" and fresh: "n \<notin> set head" "prio_ring s n = [n]"
  shows "plist_inv (exynos_plist_add n (s, head))"
proof -
  obtain xs ys where cut: "head = xs @ ys"
    and low: "\<forall>m \<in> set xs. sint (prio s m) \<le> sint (prio s n)"
    and high: "\<forall>m \<in> set ys. sint (prio s n) < sint (prio s m)"
    and fc: "firsts (prio s) head = firsts (prio s) xs @ firsts (prio s) ys"
    using inv sorted_cut [of "prio s" head "prio s n"] by auto
  note add = exynos_plist_add_cut [OF inv fresh(1) cut low high fc]
  note place = firsts_place [OF low high]
  have dist: "distinct (xs @ n # ys)" using inv fresh cut by auto
  have "sorted (map (\<lambda>m. sint (prio s m)) (xs @ n # ys))"
    using inv low high by (auto simp: cut sorted_append less_imp_le)
  moreover have "ring_ok (fst (exynos_plist_add n (s, head))) (xs @ n # ys)"
  proof (cases "head = [] \<or> (xs \<noteq> [] \<and> prio s (last xs) = prio s n)")
    case True
    then have "firsts (prio s) (xs @ n # ys) = (if head = [] then [n] else firsts (prio s) head)"
      using place fc cut by auto
    with True inv fresh cut add show ?thesis
      using set_firsts [of "prio s" head] by (auto simp: ring_ok_def split: if_splits)
  next
    case False
    let ?iter = "if ys = [] then hd head else hd ys"
    have "?iter \<in> set (firsts (prio s) xs @ firsts (prio s) ys) \<and>
      rotate_to ?iter (firsts (prio s) xs @ firsts (prio s) ys) = firsts (prio s) ys @ firsts (prio s) xs"
      using ring_cut [of xs ys "prio s"] dist cut False by auto
    then have "ring_ok (prio_list_add_tail n ?iter s) (xs @ n # ys)"
      using ring_ok_grow [of s xs ys n "firsts (prio s) xs" "firsts (prio s) ys" ?iter]
        inv dist fc place False cut by auto
    with False add show ?thesis by auto
  qed
  ultimately show ?thesis
    using add dist by (auto simp: exynos_plist_add_def split: prod.splits)
qed


lemma firsts_swap: "f x = f y \<Longrightarrow> firsts f (x # zs) = x # tl (firsts f (y # zs))"
  by (induction zs) auto

text \<open>
  Removing a node that does not stand for its priority leaves the ring's sequence as it is;
  removing one that does hands its place to the next node of the same priority, if any.
\<close>

lemma firsts_remove_other:
  assumes "xs \<noteq> []" and "f (last xs) = f n" and "n \<notin> set (xs @ ys)"
  shows "firsts f (xs @ ys) = firsts f (xs @ n # ys) \<and> n \<notin> set (firsts f (xs @ n # ys))"
  using firsts_absorb [OF assms(1,2), of ys] set_firsts [of f "xs @ ys"] assms(3) by auto

lemma firsts_remove_rep:
  fixes pr :: "nat \<Rightarrow> s32"
  assumes srt: "sorted (map (\<lambda>m. sint (pr m)) (xs @ n # ys))"
    and rep: "xs = [] \<or> pr (last xs) \<noteq> pr n"
  obtains t where "firsts pr (xs @ n # ys) = firsts pr xs @ n # t"
    and "firsts pr (xs @ ys) =
      firsts pr xs @ (if ys \<noteq> [] \<and> pr (hd ys) = pr n then hd ys # t else t)"
proof
  let ?t = "tl (firsts pr (n # ys))"
  have n: "firsts pr (n # ys) = n # ?t" by (metis firsts_Cons list.sel(3))
  show "firsts pr (xs @ n # ys) = firsts pr xs @ n # ?t"
    using firsts_append [of xs "n # ys" pr] rep n by (cases "xs = []") auto
  have split: "firsts pr (xs @ ys) = firsts pr xs @ firsts pr ys"
  proof (cases "xs = [] \<or> ys = []")
    case False
    then have "sint (pr (last xs)) \<le> sint (pr n)" "sint (pr n) \<le> sint (pr (hd ys))"
      using srt by (auto simp: sorted_append)
    with rep False have "pr (last xs) \<noteq> pr (hd ys)"
      by (metis antisym signed_word_eqI)
    with False show ?thesis using firsts_append by metis
  qed auto
  show "firsts pr (xs @ ys) =
      firsts pr xs @ (if ys \<noteq> [] \<and> pr (hd ys) = pr n then hd ys # ?t else ?t)"
  proof (cases ys)
    case (Cons y zs)
    show ?thesis
    proof (cases "pr y = pr n")
      case True
      then have "firsts pr (y # zs) = y # ?t"
        using firsts_swap [of pr n y zs] Cons by (simp, metis firsts_swap list.sel(3))
      with split Cons True show ?thesis by simp
    qed (use split Cons in auto)
  qed (use split in simp)
qed

lemma ring_ok_shrink:
  assumes ok: "ring_ok s head" and sub: "set head' \<subseteq> set head - {n}"
    and rest: "\<And>m. m \<notin> set r \<Longrightarrow> m \<noteq> n \<Longrightarrow> prio_ring s1 m = prio_ring s m"
    and pr: "prio s1 = prio s"
    and r: "n \<notin> set r" "set r = set (firsts (prio s) head')"
       "\<And>m. m \<in> set r \<Longrightarrow> rotate_to m r = rotate_to m (firsts (prio s) head')"
    and gone: "set (firsts (prio s) head) \<subseteq> insert n (set r)"
  shows "ring_ok (set_ring [n] (set_ring r s1)) head'"
  unfolding ring_ok_def
proof
  fix m assume m: "m \<in> set head'"
  have "m \<noteq> n" and "m \<in> set head" using m sub by auto
  then show "prio_ring (set_ring [n] (set_ring r s1)) m =
    (if m \<in> set (firsts (prio (set_ring [n] (set_ring r s1))) head')
     then rotate_to m (firsts (prio (set_ring [n] (set_ring r s1))) head') else [m])"
    using ok rest r gone pr by (auto simp: prio_ring_set_ring ring_ok_def)
qed

lemma firsts_cong:
  "(\<And>x. x \<in> set xs \<Longrightarrow> f x = g x) \<Longrightarrow> firsts f xs = firsts g xs"
  by (induction f xs rule: firsts.induct) auto

lemma ring_ok_del_rep:
  assumes ok: "ring_ok s (xs @ n # ys)" and d: "distinct (xs @ n # ys)"
    and old: "firsts (prio s) (xs @ n # ys) = fx @ n # t"
    and new: "firsts (prio s) (xs @ ys) =
       fx @ (if ys \<noteq> [] \<and> prio s (hd ys) = prio s n then hd ys # t else t)"
    and handed: "ys \<noteq> [] \<Longrightarrow> hd ys \<in> set (fx @ n # t) \<longleftrightarrow> prio s (hd ys) \<noteq> prio s n"
  shows "ring_ok (fst (exynos_plist_del n (s, xs @ n # ys))) (xs @ ys)"
proof -
  let ?g = "firsts (prio s) (xs @ ys)"
  have df: "distinct (fx @ n # t)" using distinct_firsts [OF d] old by metis
  have dg: "distinct ?g" using distinct_firsts [of "xs @ ys"] d by auto
  have ring_n: "prio_ring s n = n # t @ fx"
    using ring_ok_rep [OF ok] old df by (simp add: rotate_to_middle)
  have nn: "n \<notin> set xs" using d by simp
  note del = exynos_plist_del_def Let_def prio_list_empty_def prio_list_del_init_def prio_list_add_def
  show ?thesis
  proof (cases "t @ fx = []")
    case True
    then have alone: "fst (exynos_plist_del n (s, xs @ n # ys)) = s"
      using ring_n by (simp add: del)
    have "?g = (if ys = [] then [] else [hd ys])"
    proof (cases ys)
      case (Cons y zs)
      then have "prio s y = prio s n" using handed True d by auto
      with new True Cons show ?thesis by simp
    qed (use new True in simp)
    moreover have "prio_ring s m = [m]" if "m \<in> set (xs @ ys)" for m
      using ok old True that d by (auto simp: ring_ok_def)
    ultimately show ?thesis
      unfolding alone ring_ok_def by (auto split: if_splits)
  next
    case False
    define r where "r = (if ys \<noteq> [] \<and> prio s (hd ys) = prio s n then hd ys # t @ fx else t @ fx)"
    obtain fxg tg where g: "?g = fxg @ tg" "r = tg @ fxg"
      using new unfolding r_def by (cases "ys \<noteq> [] \<and> prio s (hd ys) = prio s n") auto
    have rot: "rotate_to m r = rotate_to m ?g" if "m \<in> set r" for m
      using rotate_to_commute [of fxg tg m] dg that g by auto
    have del_eq: "fst (exynos_plist_del n (s, xs @ n # ys)) =
      set_ring [n] (set_ring r (if ys \<noteq> [] \<and> prio s (hd ys) = prio s n then set_ring (n # r) s else s))"
    proof (cases ys)
      case Nil
      with nn False ring_n show ?thesis by (simp add: del succ_in_middle r_def)
    next
      case (Cons y zs)
      have "prio_ring s y = [y] \<longleftrightarrow> prio s y = prio s n"
      proof (cases "y \<in> set (fx @ n # t)")
        case True
        then have "length (prio_ring s y) = length (fx @ n # t)"
          using ring_ok_rep [OF ok] old by (metis length_rotate_to)
        then show ?thesis using True handed Cons False by auto
      next
        case out: False
        then show ?thesis using ok old handed Cons by (auto simp: ring_ok_def)
      qed
      with nn False ring_n Cons show ?thesis
        by (auto simp: del succ_in_middle r_def prio_ring_set_ring)
    qed
    have set_r: "set r = set ?g" using g by auto
    moreover have "n \<notin> set r" using set_r set_firsts [of "prio s" "xs @ ys"] d by auto
    moreover have "set (firsts (prio s) (xs @ n # ys)) \<subseteq> insert n (set r)"
      unfolding old r_def by auto
    ultimately show ?thesis
      unfolding del_eq
      by (intro ring_ok_shrink [OF ok]) (use d rot in \<open>auto simp: prio_ring_set_ring\<close>)
  qed
qed


lemma plist_inv_del:
  assumes inv: "plist_inv (s, head)" and n: "n \<in> set head"
  shows "plist_inv (exynos_plist_del n (s, head))"
proof -
  obtain xs ys where head: "head = xs @ n # ys" "n \<notin> set xs"
    using split_list_first [OF n] by blast
  have d: "distinct (xs @ n # ys)" and srt: "sorted (map (\<lambda>m. sint (prio s m)) (xs @ n # ys))"
    and ok: "ring_ok s (xs @ n # ys)" using inv head by auto
  have "ring_ok (fst (exynos_plist_del n (s, head))) (xs @ ys)"
  proof (cases "xs = [] \<or> prio s (last xs) \<noteq> prio s n")
    case True
    obtain t where t: "firsts (prio s) (xs @ n # ys) = firsts (prio s) xs @ n # t"
      "firsts (prio s) (xs @ ys) =
        firsts (prio s) xs @ (if ys \<noteq> [] \<and> prio s (hd ys) = prio s n then hd ys # t else t)"
      by (rule firsts_remove_rep [OF srt True])
    have "hd ys \<in> set (firsts (prio s) xs @ n # t) \<longleftrightarrow> prio s (hd ys) \<noteq> prio s n" if "ys \<noteq> []"
    proof (cases "prio s (hd ys) = prio s n")
      case True
      then have "distinct (firsts (prio s) xs @ hd ys # t)"
        using distinct_firsts [of "xs @ ys" "prio s"] d t(2) that by auto
      moreover have "hd ys \<noteq> n" using d that by (cases ys) auto
      ultimately show ?thesis using True by auto
    next
      case False
      have "hd ys \<in> set (firsts (prio s) (n # ys))"
        using False that firsts_Cons [of "prio s" "hd ys" "tl ys"] by (cases ys) auto
      moreover have "firsts (prio s) (n # ys) = n # t"
        using t(1) True firsts_append [of xs "n # ys" "prio s"] by (cases "xs = []") auto
      ultimately show ?thesis using False by auto
    qed
    from ring_ok_del_rep [OF ok d t this] show ?thesis by (simp add: head)
  next
    case False
    then have f: "firsts (prio s) (xs @ ys) = firsts (prio s) (xs @ n # ys)"
        "n \<notin> set (firsts (prio s) (xs @ n # ys))"
      using firsts_remove_other [of xs "prio s" n ys] d by auto
    then have "prio_ring s n = [n]" using ok by (auto simp: ring_ok_def)
    then have "fst (exynos_plist_del n (s, head)) = s"
      by (simp add: exynos_plist_del_def prio_list_empty_def)
    with f ok show ?thesis by (simp add: ring_ok_def)
  qed
  moreover have "exynos_plist_del n (s, head) = (fst (exynos_plist_del n (s, head)), xs @ ys)"
    using head by (simp add: exynos_plist_del_def Let_def remove1_append)
  moreover have "distinct (xs @ ys) \<and> sorted (map (\<lambda>m. sint (prio s m)) (xs @ ys))"
    using d srt by (simp add: sorted_append)
  ultimately show ?thesis
    by (metis fst_conv plist_inv.simps prio_exynos_plist_del)
qed

text \<open>The list after an insertion, whatever the ring looks like on the way.\<close>

lemma exynos_plist_add_place:
  assumes inv: "plist_inv (s, head)" and new: "n \<notin> set head"
  shows "snd (exynos_plist_add n (s, head)) =
    takeWhile (\<lambda>m. sint (prio s m) \<le> sint (prio s n)) head @
    n # dropWhile (\<lambda>m. sint (prio s m) \<le> sint (prio s n)) head"
proof -
  obtain xs ys where cut: "head = xs @ ys"
    and low: "\<forall>m \<in> set xs. sint (prio s m) \<le> sint (prio s n)"
    and high: "\<forall>m \<in> set ys. sint (prio s n) < sint (prio s m)"
    and fc: "firsts (prio s) head = firsts (prio s) xs @ firsts (prio s) ys"
    using inv sorted_cut [of "prio s" head "prio s n"] by auto
  have "takeWhile (\<lambda>m. sint (prio s m) \<le> sint (prio s n)) head = xs"
    and "dropWhile (\<lambda>m. sint (prio s m) \<le> sint (prio s n)) head = ys"
    using low high by (cases ys; auto simp: cut)+
  with exynos_plist_add_cut [OF inv new cut low high fc] show ?thesis by simp
qed

text \<open>Nodes off the list keep their links.\<close>

lemma set_prio_ring:
  "ring_ok s head \<Longrightarrow> m \<in> set head \<Longrightarrow> set (prio_ring s m) \<subseteq> set head"
  using set_firsts [of "prio s" head] by (auto simp: ring_ok_def)

lemma prio_ring_add_frame:
  assumes inv: "plist_inv (s, head)" and new: "n \<notin> set head" and m: "m \<notin> set head" "m \<noteq> n"
  shows "prio_ring (fst (exynos_plist_add n (s, head))) m = prio_ring s m"
proof -
  obtain xs ys where cut: "head = xs @ ys"
    and low: "\<forall>m \<in> set xs. sint (prio s m) \<le> sint (prio s n)"
    and high: "\<forall>m \<in> set ys. sint (prio s n) < sint (prio s m)"
    and fc: "firsts (prio s) head = firsts (prio s) xs @ firsts (prio s) ys"
    using inv sorted_cut [of "prio s" head "prio s n"] by auto
  define iter where "iter = (if ys = [] then hd head else hd ys)"
  have "m \<notin> set (prio_ring s iter)" if "head \<noteq> []"
  proof -
    have "iter \<in> set head" using that cut by (auto simp: iter_def)
    then show ?thesis using set_prio_ring [of s head iter] inv m by auto
  qed
  then show ?thesis
    unfolding exynos_plist_add_cut [OF inv new cut low high fc, folded iter_def] using m
    by (auto simp: prio_list_add_tail_def prio_ring_set_ring)
qed

lemma succ_in_set: "succ_in n xs = Some y \<Longrightarrow> y \<in> set xs"
  by (auto simp: succ_in_def split: list.splits)
    (metis list.set_intros(1) list.set_intros(2) set_dropWhileD)

lemma prio_ring_del_frame:
  assumes inv: "plist_inv (s, head)" and n: "n \<in> set head" and m: "m \<notin> set head"
  shows "prio_ring (fst (exynos_plist_del n (s, head))) m = prio_ring s m"
proof -
  have "m \<notin> set (prio_ring s n)" "m \<noteq> n"
    using set_prio_ring [of s head n] inv n m by auto
  then have "m \<notin> set (tl (prio_ring s n))" by (cases "prio_ring s n") auto
  with \<open>m \<noteq> n\<close> m show ?thesis
    by (auto simp: exynos_plist_del_def Let_def prio_list_del_init_def prio_list_add_def
        prio_ring_set_ring rotate_to_def split: option.splits dest: succ_in_set)
qed

lemma prio_ring_del_self:
  "prio_ring (fst (exynos_plist_del n (s, head))) n = [n]"
  by (auto simp: exynos_plist_del_def Let_def prio_list_del_init_def prio_list_empty_def
      prio_ring_set_ring rotate_to_def)


subsection \<open>The interface of a priority list\<close>

text \<open>
  What a client of the list relies on: entries sorted by key, an insertion that adds one
  entry and a removal that takes one out, and a re-initialisation that changes the key of an
  entry that is not on the list. \<open>fresh q n\<close> says that \<open>n\<close> is off the list with its links
  to themselves, which is the state \<^verbatim>\<open>plist_node_init\<close> and a removal leave behind.
\<close>

locale prio_list =
  fixes add del :: "nat \<Rightarrow> 'q \<Rightarrow> 'q" and init :: "nat \<Rightarrow> s32 \<Rightarrow> 'q \<Rightarrow> 'q"
    and entries :: "'q \<Rightarrow> nat list" and key :: "'q \<Rightarrow> nat \<Rightarrow> s32"
    and invar :: "'q \<Rightarrow> bool" and fresh :: "'q \<Rightarrow> nat \<Rightarrow> bool"
  assumes distinct_entries: "invar q \<Longrightarrow> distinct (entries q)"
    and sorted_entries: "invar q \<Longrightarrow> sorted (map (\<lambda>n. sint (key q n)) (entries q))"
    and mset_add: "invar q \<Longrightarrow> fresh q n \<Longrightarrow> mset (entries (add n q)) = add_mset n (mset (entries q))"
    and invar_add: "invar q \<Longrightarrow> fresh q n \<Longrightarrow> invar (add n q)"
    and key_add: "key (add n q) = key q"
    and entries_del: "entries (del n q) = remove1 n (entries q)"
    and invar_del: "invar q \<Longrightarrow> n \<in> set (entries q) \<Longrightarrow> invar (del n q)"
    and key_del: "key (del n q) = key q"
    and invar_init: "invar q \<Longrightarrow> n \<notin> set (entries q) \<Longrightarrow> invar (init n p q)"
    and fresh_init: "n \<notin> set (entries q) \<Longrightarrow> fresh (init n p q) n"
    and entries_init: "entries (init n p q) = entries q"
    and key_init: "key (init n p q) = (key q)(n := p)"
begin

lemma set_add: "invar q \<Longrightarrow> fresh q n \<Longrightarrow> set (entries (add n q)) = insert n (set (entries q))"
  by (metis mset_add set_mset_add_mset_insert set_mset_mset)

lemma set_del: "invar q \<Longrightarrow> set (entries (del n q)) = set (entries q) - {n}"
  by (simp add: entries_del distinct_entries)

lemma first_least:
  "invar q \<Longrightarrow> n \<in> set (entries q) \<Longrightarrow> sint (key q (hd (entries q))) \<le> sint (key q n)"
  using sorted_map_hd [OF sorted_entries] by blast

lemma last_greatest:
  "invar q \<Longrightarrow> n \<in> set (entries q) \<Longrightarrow> sint (key q n) \<le> sint (key q (last (entries q)))"
  using sorted_map_last [OF sorted_entries] by blast

lemma first_Min:
  assumes "invar q" and "entries q \<noteq> []"
  shows "sint (key q (hd (entries q))) = Min ((\<lambda>n. sint (key q n)) ` set (entries q))"
  by (rule Min_eqI [symmetric]) (use assms first_least in auto)

lemma last_Max:
  assumes "invar q" and "entries q \<noteq> []"
  shows "sint (key q (last (entries q))) = Max ((\<lambda>n. sint (key q n)) ` set (entries q))"
  by (rule Max_eqI [symmetric]) (use assms last_greatest in auto)

text \<open>Removing an entry, giving it a new key and inserting it again.\<close>

lemma move:
  assumes "invar q" and "n \<in> set (entries q)"
  shows "invar (add n (init n p (del n q)))"
    and "set (entries (add n (init n p (del n q)))) = set (entries q)"
    and "key (add n (init n p (del n q))) = (key q)(n := p)"
proof -
  have del: "invar (del n q)" "n \<notin> set (entries (del n q))"
    using assms by (simp_all add: invar_del set_del)
  then have init: "invar (init n p (del n q))" "fresh (init n p (del n q)) n"
    by (simp_all add: invar_init fresh_init)
  then show "invar (add n (init n p (del n q)))" by (rule invar_add)
  show "set (entries (add n (init n p (del n q)))) = set (entries q)"
    using set_add [OF init] set_del [OF assms(1)] assms(2) by (auto simp: entries_init)
  show "key (add n (init n p (del n q))) = (key q)(n := p)"
    by (simp add: key_add key_init key_del)
qed

end

text \<open>The driver's plist provides the interface.\<close>

definition plist_fresh :: "plist \<Rightarrow> nat \<Rightarrow> bool" where
  "plist_fresh q n \<longleftrightarrow> n \<notin> set (snd q) \<and> prio_ring (fst q) n = [n]"

lemma plist_inv_node_init:
  assumes "plist_inv (s, head)" and "n \<notin> set head"
  shows "plist_inv (plist_node_init n p s, head)"
proof -
  have "prio (plist_node_init n p s) m = prio s m" if "m \<in> set head" for m
    using that assms(2) by (auto simp: plist_node_init_def)
  then have f: "firsts (prio (plist_node_init n p s)) head = firsts (prio s) head"
    and "map (\<lambda>m. sint (prio (plist_node_init n p s) m)) head = map (\<lambda>m. sint (prio s m)) head"
    by (auto intro: firsts_cong)
  with assms(1) have "sorted (map (\<lambda>m. sint (prio (plist_node_init n p s) m)) head)"
    by (metis plist_inv.simps)
  moreover have "prio_ring (plist_node_init n p s) m = prio_ring s m" if "m \<in> set head" for m
    using that assms(2) by (auto simp: plist_node_init_def)
  ultimately show ?thesis using assms(1) f by (simp add: ring_ok_def)
qed

lemma mset_exynos_plist_add:
  "mset (snd (exynos_plist_add n (s, head))) = add_mset n (mset head)"
  by (auto simp: exynos_plist_add_def Let_def split: list.splits prod.splits)

interpretation pl: prio_list exynos_plist_add exynos_plist_del
  "\<lambda>n p q. (plist_node_init n p (fst q), snd q)" snd "\<lambda>q. prio (fst q)" plist_inv plist_fresh
proof
  fix q :: plist and n :: nat and p :: s32
  obtain s head where q [simp]: "q = (s, head)" by (cases q)
  show "plist_inv q \<Longrightarrow> distinct (snd q)" by simp
  show "plist_inv q \<Longrightarrow> sorted (map (\<lambda>n. sint (prio (fst q) n)) (snd q))" by simp
  show "plist_inv q \<Longrightarrow> plist_fresh q n \<Longrightarrow>
      mset (snd (exynos_plist_add n q)) = add_mset n (mset (snd q))"
    by (simp add: mset_exynos_plist_add)
  show "plist_inv q \<Longrightarrow> plist_fresh q n \<Longrightarrow> plist_inv (exynos_plist_add n q)"
    using plist_inv_add by (simp add: plist_fresh_def)
  show "prio (fst (exynos_plist_add n q)) = prio (fst q)" by simp
  show "snd (exynos_plist_del n q) = remove1 n (snd q)"
    by (simp add: exynos_plist_del_def Let_def)
  show "plist_inv q \<Longrightarrow> n \<in> set (snd q) \<Longrightarrow> plist_inv (exynos_plist_del n q)"
    using plist_inv_del by simp
  show "prio (fst (exynos_plist_del n q)) = prio (fst q)" by simp
  show "plist_inv q \<Longrightarrow> n \<notin> set (snd q) \<Longrightarrow> plist_inv (plist_node_init n p (fst q), snd q)"
    using plist_inv_node_init by simp
  show "n \<notin> set (snd q) \<Longrightarrow> plist_fresh (plist_node_init n p (fst q), snd q) n"
    by (simp add: plist_fresh_def plist_node_init_def)
  show "snd (plist_node_init n p (fst q), snd q) = snd q" by simp
  show "prio (fst (plist_node_init n p (fst q), snd q)) = (prio (fst q))(n := p)"
    by (simp add: plist_node_init_def)
qed

end
