(* ===== verification/PmQos.thy ===== *)
theory PmQos
  imports Plist
begin

text \<open>
  The PM QoS aggregation of \<^verbatim>\<open>drivers/soc/google/exynos_pm_qos.c\<close> and
  \<^verbatim>\<open>include/soc/google/exynos_pm_qos.h\<close>: per class a list of requests, an aggregate
  (largest, smallest or sum) kept in \<^verbatim>\<open>target_value\<close>, and notifier chains called when the
  aggregate changes; requests that fall back to the default after a timeout; sets of flags.

  Requests are named by their address, a \<open>nat\<close>; a NULL argument is \<open>None\<close>. The state holds
  the request handles, the plist nodes embedded in them and the static array of objects.
  \<open>None\<close> as the result of an operation is a fault of the C code: an access through
  \<^verbatim>\<open>exynos_pm_qos_array\<close> out of range, or through the NULL constraints of the reserved
  class. An update of a class happens under its lock, so it is one step; whether the watchers
  are to be called, and with which value, is decided there too, but the call itself comes after
  the lock is released. The state has the calls in the order in which they were decided;
  \<open>PmQosNotify\<close> treats when they reach the watchers.
\<close>

subsection \<open>Data\<close>

datatype exynos_pm_qos_type =
  EXYNOS_PM_QOS_UNINITIALIZED | EXYNOS_PM_QOS_MAX | EXYNOS_PM_QOS_MIN | EXYNOS_PM_QOS_SUM

datatype exynos_pm_qos_req_action =
  EXYNOS_PM_QOS_ADD_REQ | EXYNOS_PM_QOS_UPDATE_REQ | EXYNOS_PM_QOS_REMOVE_REQ

abbreviation (input) EXYNOS_PM_QOS_DEFAULT_VALUE :: s32 where "EXYNOS_PM_QOS_DEFAULT_VALUE \<equiv> -1"
abbreviation (input) EXYNOS_PM_QOS_NUM_CLASSES :: nat where "EXYNOS_PM_QOS_NUM_CLASSES \<equiv> 25"

abbreviation (input) PM_QOS_DEVICE_THROUGHPUT_DEFAULT_VALUE :: s32 where "PM_QOS_DEVICE_THROUGHPUT_DEFAULT_VALUE \<equiv> 0"
abbreviation (input) PM_QOS_INTCAM_THROUGHPUT_DEFAULT_VALUE :: s32 where "PM_QOS_INTCAM_THROUGHPUT_DEFAULT_VALUE \<equiv> 0"
abbreviation (input) PM_QOS_DEVICE_THROUGHPUT_MAX_DEFAULT_VALUE :: s32 where "PM_QOS_DEVICE_THROUGHPUT_MAX_DEFAULT_VALUE \<equiv> INT_MAX"
abbreviation (input) PM_QOS_INTCAM_THROUGHPUT_MAX_DEFAULT_VALUE :: s32 where "PM_QOS_INTCAM_THROUGHPUT_MAX_DEFAULT_VALUE \<equiv> INT_MAX"
abbreviation (input) PM_QOS_BUS_THROUGHPUT_DEFAULT_VALUE :: s32 where "PM_QOS_BUS_THROUGHPUT_DEFAULT_VALUE \<equiv> 0"
abbreviation (input) PM_QOS_BUS_THROUGHPUT_MAX_DEFAULT_VALUE :: s32 where "PM_QOS_BUS_THROUGHPUT_MAX_DEFAULT_VALUE \<equiv> INT_MAX"
abbreviation (input) PM_QOS_DISPLAY_THROUGHPUT_DEFAULT_VALUE :: s32 where "PM_QOS_DISPLAY_THROUGHPUT_DEFAULT_VALUE \<equiv> 0"
abbreviation (input) PM_QOS_DISPLAY_THROUGHPUT_MAX_DEFAULT_VALUE :: s32 where "PM_QOS_DISPLAY_THROUGHPUT_MAX_DEFAULT_VALUE \<equiv> INT_MAX"
abbreviation (input) PM_QOS_CAM_THROUGHPUT_DEFAULT_VALUE :: s32 where "PM_QOS_CAM_THROUGHPUT_DEFAULT_VALUE \<equiv> 0"
abbreviation (input) PM_QOS_CAM_THROUGHPUT_MAX_DEFAULT_VALUE :: s32 where "PM_QOS_CAM_THROUGHPUT_MAX_DEFAULT_VALUE \<equiv> INT_MAX"
abbreviation (input) PM_QOS_MFC_THROUGHPUT_DEFAULT_VALUE :: s32 where "PM_QOS_MFC_THROUGHPUT_DEFAULT_VALUE \<equiv> 0"
abbreviation (input) PM_QOS_MFC_THROUGHPUT_MAX_DEFAULT_VALUE :: s32 where "PM_QOS_MFC_THROUGHPUT_MAX_DEFAULT_VALUE \<equiv> INT_MAX"
abbreviation (input) PM_QOS_TNR_THROUGHPUT_DEFAULT_VALUE :: s32 where "PM_QOS_TNR_THROUGHPUT_DEFAULT_VALUE \<equiv> 0"
abbreviation (input) PM_QOS_TNR_THROUGHPUT_MAX_DEFAULT_VALUE :: s32 where "PM_QOS_TNR_THROUGHPUT_MAX_DEFAULT_VALUE \<equiv> INT_MAX"
abbreviation (input) PM_QOS_BO_THROUGHPUT_DEFAULT_VALUE :: s32 where "PM_QOS_BO_THROUGHPUT_DEFAULT_VALUE \<equiv> 0"
abbreviation (input) PM_QOS_BO_THROUGHPUT_MAX_DEFAULT_VALUE :: s32 where "PM_QOS_BO_THROUGHPUT_MAX_DEFAULT_VALUE \<equiv> INT_MAX"
abbreviation (input) PM_QOS_CLUSTER0_FREQ_MIN_DEFAULT_VALUE :: s32 where "PM_QOS_CLUSTER0_FREQ_MIN_DEFAULT_VALUE \<equiv> 0"
abbreviation (input) PM_QOS_CLUSTER0_FREQ_MAX_DEFAULT_VALUE :: s32 where "PM_QOS_CLUSTER0_FREQ_MAX_DEFAULT_VALUE \<equiv> INT_MAX"
abbreviation (input) PM_QOS_CLUSTER1_FREQ_MIN_DEFAULT_VALUE :: s32 where "PM_QOS_CLUSTER1_FREQ_MIN_DEFAULT_VALUE \<equiv> 0"
abbreviation (input) PM_QOS_CLUSTER1_FREQ_MAX_DEFAULT_VALUE :: s32 where "PM_QOS_CLUSTER1_FREQ_MAX_DEFAULT_VALUE \<equiv> INT_MAX"
abbreviation (input) PM_QOS_CLUSTER2_FREQ_MIN_DEFAULT_VALUE :: s32 where "PM_QOS_CLUSTER2_FREQ_MIN_DEFAULT_VALUE \<equiv> 0"
abbreviation (input) PM_QOS_CLUSTER2_FREQ_MAX_DEFAULT_VALUE :: s32 where "PM_QOS_CLUSTER2_FREQ_MAX_DEFAULT_VALUE \<equiv> INT_MAX"
abbreviation (input) PM_QOS_GPU_FREQ_MIN_DEFAULT_VALUE :: s32 where "PM_QOS_GPU_FREQ_MIN_DEFAULT_VALUE \<equiv> 0"
abbreviation (input) PM_QOS_GPU_FREQ_MAX_DEFAULT_VALUE :: s32 where "PM_QOS_GPU_FREQ_MAX_DEFAULT_VALUE \<equiv> INT_MAX"

text \<open>
  \<^verbatim>\<open>req_work\<close> is the pending timeout of the delayed work, in microseconds; the embedded
  \<^verbatim>\<open>node\<close> lives in the plist store under the request's address.
\<close>

record exynos_pm_qos_request =
  exynos_pm_qos_class :: int
  req_work :: "u64 option"
  req_func :: string
  req_line :: u32

record exynos_pm_qos_constraints =
  c_list :: "nat list"
  target_value :: s32
  default_value :: s32
  no_constraint_value :: s32
  c_type :: exynos_pm_qos_type
  notifiers :: "nat list option"

record exynos_pm_qos_object =
  constraints :: "exynos_pm_qos_constraints option"
  obj_name :: string

record pm_qos =
  qos_nodes :: plist_store
  qos_reqs :: "nat \<Rightarrow> exynos_pm_qos_request"
  qos_array :: "exynos_pm_qos_object list"
  decided :: "(nat \<times> s32) list"

subsection \<open>The static objects\<close>

text \<open>
  The designated initialisers leave \<^verbatim>\<open>no_constraint_value\<close> out, so it is 0 in every object.
\<close>

definition null_exynos_pm_qos :: exynos_pm_qos_object where
  "null_exynos_pm_qos = \<lparr>constraints = None, obj_name = []\<rparr>"

definition device_tput_constraints :: exynos_pm_qos_constraints where
  "device_tput_constraints =
     \<lparr>c_list = [], target_value = PM_QOS_DEVICE_THROUGHPUT_DEFAULT_VALUE,
      default_value = PM_QOS_DEVICE_THROUGHPUT_DEFAULT_VALUE, no_constraint_value = 0,
      c_type = EXYNOS_PM_QOS_MAX, notifiers = Some []\<rparr>"

definition device_throughput_pm_qos :: exynos_pm_qos_object where
  "device_throughput_pm_qos = \<lparr>constraints = Some device_tput_constraints, obj_name = ''device_throughput''\<rparr>"

definition device_tput_max_constraints :: exynos_pm_qos_constraints where
  "device_tput_max_constraints =
     \<lparr>c_list = [], target_value = PM_QOS_DEVICE_THROUGHPUT_MAX_DEFAULT_VALUE,
      default_value = PM_QOS_DEVICE_THROUGHPUT_MAX_DEFAULT_VALUE, no_constraint_value = 0,
      c_type = EXYNOS_PM_QOS_MIN, notifiers = Some []\<rparr>"

definition device_throughput_max_pm_qos :: exynos_pm_qos_object where
  "device_throughput_max_pm_qos = \<lparr>constraints = Some device_tput_max_constraints, obj_name = ''device_throughput_max''\<rparr>"

definition intcam_tput_constraints :: exynos_pm_qos_constraints where
  "intcam_tput_constraints =
     \<lparr>c_list = [], target_value = PM_QOS_INTCAM_THROUGHPUT_DEFAULT_VALUE,
      default_value = PM_QOS_INTCAM_THROUGHPUT_DEFAULT_VALUE, no_constraint_value = 0,
      c_type = EXYNOS_PM_QOS_MAX, notifiers = Some []\<rparr>"

definition intcam_throughput_pm_qos :: exynos_pm_qos_object where
  "intcam_throughput_pm_qos = \<lparr>constraints = Some intcam_tput_constraints, obj_name = ''intcam_throughput''\<rparr>"

definition intcam_tput_max_constraints :: exynos_pm_qos_constraints where
  "intcam_tput_max_constraints =
     \<lparr>c_list = [], target_value = PM_QOS_INTCAM_THROUGHPUT_MAX_DEFAULT_VALUE,
      default_value = PM_QOS_INTCAM_THROUGHPUT_MAX_DEFAULT_VALUE, no_constraint_value = 0,
      c_type = EXYNOS_PM_QOS_MIN, notifiers = Some []\<rparr>"

definition intcam_throughput_max_pm_qos :: exynos_pm_qos_object where
  "intcam_throughput_max_pm_qos = \<lparr>constraints = Some intcam_tput_max_constraints, obj_name = ''intcam_throughput_max''\<rparr>"

definition bus_tput_constraints :: exynos_pm_qos_constraints where
  "bus_tput_constraints =
     \<lparr>c_list = [], target_value = PM_QOS_BUS_THROUGHPUT_DEFAULT_VALUE,
      default_value = PM_QOS_BUS_THROUGHPUT_DEFAULT_VALUE, no_constraint_value = 0,
      c_type = EXYNOS_PM_QOS_MAX, notifiers = Some []\<rparr>"

definition bus_throughput_pm_qos :: exynos_pm_qos_object where
  "bus_throughput_pm_qos = \<lparr>constraints = Some bus_tput_constraints, obj_name = ''bus_throughput''\<rparr>"

definition bus_tput_max_constraints :: exynos_pm_qos_constraints where
  "bus_tput_max_constraints =
     \<lparr>c_list = [], target_value = PM_QOS_BUS_THROUGHPUT_MAX_DEFAULT_VALUE,
      default_value = PM_QOS_BUS_THROUGHPUT_MAX_DEFAULT_VALUE, no_constraint_value = 0,
      c_type = EXYNOS_PM_QOS_MIN, notifiers = Some []\<rparr>"

definition bus_throughput_max_pm_qos :: exynos_pm_qos_object where
  "bus_throughput_max_pm_qos = \<lparr>constraints = Some bus_tput_max_constraints, obj_name = ''bus_throughput_max''\<rparr>"

definition cluster2_freq_min_constraints :: exynos_pm_qos_constraints where
  "cluster2_freq_min_constraints =
     \<lparr>c_list = [], target_value = PM_QOS_CLUSTER2_FREQ_MIN_DEFAULT_VALUE,
      default_value = PM_QOS_CLUSTER2_FREQ_MIN_DEFAULT_VALUE, no_constraint_value = 0,
      c_type = EXYNOS_PM_QOS_MAX, notifiers = Some []\<rparr>"

definition cluster2_freq_min_pm_qos :: exynos_pm_qos_object where
  "cluster2_freq_min_pm_qos = \<lparr>constraints = Some cluster2_freq_min_constraints, obj_name = ''cluster2_freq_min''\<rparr>"

definition cluster2_freq_max_constraints :: exynos_pm_qos_constraints where
  "cluster2_freq_max_constraints =
     \<lparr>c_list = [], target_value = PM_QOS_CLUSTER2_FREQ_MAX_DEFAULT_VALUE,
      default_value = PM_QOS_CLUSTER2_FREQ_MAX_DEFAULT_VALUE, no_constraint_value = 0,
      c_type = EXYNOS_PM_QOS_MIN, notifiers = Some []\<rparr>"

definition cluster2_freq_max_pm_qos :: exynos_pm_qos_object where
  "cluster2_freq_max_pm_qos = \<lparr>constraints = Some cluster2_freq_max_constraints, obj_name = ''cluster2_freq_max''\<rparr>"

definition cluster1_freq_min_constraints :: exynos_pm_qos_constraints where
  "cluster1_freq_min_constraints =
     \<lparr>c_list = [], target_value = PM_QOS_CLUSTER1_FREQ_MIN_DEFAULT_VALUE,
      default_value = PM_QOS_CLUSTER1_FREQ_MIN_DEFAULT_VALUE, no_constraint_value = 0,
      c_type = EXYNOS_PM_QOS_MAX, notifiers = Some []\<rparr>"

definition cluster1_freq_min_pm_qos :: exynos_pm_qos_object where
  "cluster1_freq_min_pm_qos = \<lparr>constraints = Some cluster1_freq_min_constraints, obj_name = ''cluster1_freq_min''\<rparr>"

definition cluster1_freq_max_constraints :: exynos_pm_qos_constraints where
  "cluster1_freq_max_constraints =
     \<lparr>c_list = [], target_value = PM_QOS_CLUSTER1_FREQ_MAX_DEFAULT_VALUE,
      default_value = PM_QOS_CLUSTER1_FREQ_MAX_DEFAULT_VALUE, no_constraint_value = 0,
      c_type = EXYNOS_PM_QOS_MIN, notifiers = Some []\<rparr>"

definition cluster1_freq_max_pm_qos :: exynos_pm_qos_object where
  "cluster1_freq_max_pm_qos = \<lparr>constraints = Some cluster1_freq_max_constraints, obj_name = ''cluster1_freq_max''\<rparr>"

definition cluster0_freq_min_constraints :: exynos_pm_qos_constraints where
  "cluster0_freq_min_constraints =
     \<lparr>c_list = [], target_value = PM_QOS_CLUSTER0_FREQ_MIN_DEFAULT_VALUE,
      default_value = PM_QOS_CLUSTER0_FREQ_MIN_DEFAULT_VALUE, no_constraint_value = 0,
      c_type = EXYNOS_PM_QOS_MAX, notifiers = Some []\<rparr>"

definition cluster0_freq_min_pm_qos :: exynos_pm_qos_object where
  "cluster0_freq_min_pm_qos = \<lparr>constraints = Some cluster0_freq_min_constraints, obj_name = ''cluster0_freq_min''\<rparr>"

definition cluster0_freq_max_constraints :: exynos_pm_qos_constraints where
  "cluster0_freq_max_constraints =
     \<lparr>c_list = [], target_value = PM_QOS_CLUSTER0_FREQ_MAX_DEFAULT_VALUE,
      default_value = PM_QOS_CLUSTER0_FREQ_MAX_DEFAULT_VALUE, no_constraint_value = 0,
      c_type = EXYNOS_PM_QOS_MIN, notifiers = Some []\<rparr>"

definition cluster0_freq_max_pm_qos :: exynos_pm_qos_object where
  "cluster0_freq_max_pm_qos = \<lparr>constraints = Some cluster0_freq_max_constraints, obj_name = ''cluster0_freq_max''\<rparr>"

definition display_tput_constraints :: exynos_pm_qos_constraints where
  "display_tput_constraints =
     \<lparr>c_list = [], target_value = PM_QOS_DISPLAY_THROUGHPUT_DEFAULT_VALUE,
      default_value = PM_QOS_DISPLAY_THROUGHPUT_DEFAULT_VALUE, no_constraint_value = 0,
      c_type = EXYNOS_PM_QOS_MAX, notifiers = Some []\<rparr>"

definition display_throughput_pm_qos :: exynos_pm_qos_object where
  "display_throughput_pm_qos = \<lparr>constraints = Some display_tput_constraints, obj_name = ''display_throughput''\<rparr>"

definition display_tput_max_constraints :: exynos_pm_qos_constraints where
  "display_tput_max_constraints =
     \<lparr>c_list = [], target_value = PM_QOS_DISPLAY_THROUGHPUT_MAX_DEFAULT_VALUE,
      default_value = PM_QOS_DISPLAY_THROUGHPUT_MAX_DEFAULT_VALUE, no_constraint_value = 0,
      c_type = EXYNOS_PM_QOS_MIN, notifiers = Some []\<rparr>"

definition display_throughput_max_pm_qos :: exynos_pm_qos_object where
  "display_throughput_max_pm_qos = \<lparr>constraints = Some display_tput_max_constraints, obj_name = ''display_throughput_max''\<rparr>"

definition cam_tput_constraints :: exynos_pm_qos_constraints where
  "cam_tput_constraints =
     \<lparr>c_list = [], target_value = PM_QOS_CAM_THROUGHPUT_DEFAULT_VALUE,
      default_value = PM_QOS_CAM_THROUGHPUT_DEFAULT_VALUE, no_constraint_value = 0,
      c_type = EXYNOS_PM_QOS_MAX, notifiers = Some []\<rparr>"

definition cam_throughput_pm_qos :: exynos_pm_qos_object where
  "cam_throughput_pm_qos = \<lparr>constraints = Some cam_tput_constraints, obj_name = ''cam_throughput''\<rparr>"

definition cam_tput_max_constraints :: exynos_pm_qos_constraints where
  "cam_tput_max_constraints =
     \<lparr>c_list = [], target_value = PM_QOS_CAM_THROUGHPUT_MAX_DEFAULT_VALUE,
      default_value = PM_QOS_CAM_THROUGHPUT_MAX_DEFAULT_VALUE, no_constraint_value = 0,
      c_type = EXYNOS_PM_QOS_MIN, notifiers = Some []\<rparr>"

definition cam_throughput_max_pm_qos :: exynos_pm_qos_object where
  "cam_throughput_max_pm_qos = \<lparr>constraints = Some cam_tput_max_constraints, obj_name = ''cam_throughput_max''\<rparr>"

definition mfc_tput_constraints :: exynos_pm_qos_constraints where
  "mfc_tput_constraints =
     \<lparr>c_list = [], target_value = PM_QOS_MFC_THROUGHPUT_DEFAULT_VALUE,
      default_value = PM_QOS_MFC_THROUGHPUT_DEFAULT_VALUE, no_constraint_value = 0,
      c_type = EXYNOS_PM_QOS_MAX, notifiers = Some []\<rparr>"

definition mfc_throughput_pm_qos :: exynos_pm_qos_object where
  "mfc_throughput_pm_qos = \<lparr>constraints = Some mfc_tput_constraints, obj_name = ''mfc_throughput''\<rparr>"

definition gpu_freq_min_constraints :: exynos_pm_qos_constraints where
  "gpu_freq_min_constraints =
     \<lparr>c_list = [], target_value = PM_QOS_GPU_FREQ_MIN_DEFAULT_VALUE,
      default_value = PM_QOS_GPU_FREQ_MIN_DEFAULT_VALUE, no_constraint_value = 0,
      c_type = EXYNOS_PM_QOS_MAX, notifiers = Some []\<rparr>"

definition gpu_freq_min_pm_qos :: exynos_pm_qos_object where
  "gpu_freq_min_pm_qos = \<lparr>constraints = Some gpu_freq_min_constraints, obj_name = ''gpu_freq_min''\<rparr>"

definition gpu_freq_max_constraints :: exynos_pm_qos_constraints where
  "gpu_freq_max_constraints =
     \<lparr>c_list = [], target_value = PM_QOS_GPU_FREQ_MAX_DEFAULT_VALUE,
      default_value = PM_QOS_GPU_FREQ_MAX_DEFAULT_VALUE, no_constraint_value = 0,
      c_type = EXYNOS_PM_QOS_MIN, notifiers = Some []\<rparr>"

definition gpu_freq_max_pm_qos :: exynos_pm_qos_object where
  "gpu_freq_max_pm_qos = \<lparr>constraints = Some gpu_freq_max_constraints, obj_name = ''gpu_freq_max''\<rparr>"

definition mfc_tput_max_constraints :: exynos_pm_qos_constraints where
  "mfc_tput_max_constraints =
     \<lparr>c_list = [], target_value = PM_QOS_MFC_THROUGHPUT_MAX_DEFAULT_VALUE,
      default_value = PM_QOS_MFC_THROUGHPUT_MAX_DEFAULT_VALUE, no_constraint_value = 0,
      c_type = EXYNOS_PM_QOS_MIN, notifiers = Some []\<rparr>"

definition mfc_throughput_max_pm_qos :: exynos_pm_qos_object where
  "mfc_throughput_max_pm_qos = \<lparr>constraints = Some mfc_tput_max_constraints, obj_name = ''mfc_throughput_max''\<rparr>"

definition tnr_tput_constraints :: exynos_pm_qos_constraints where
  "tnr_tput_constraints =
     \<lparr>c_list = [], target_value = PM_QOS_TNR_THROUGHPUT_DEFAULT_VALUE,
      default_value = PM_QOS_TNR_THROUGHPUT_DEFAULT_VALUE, no_constraint_value = 0,
      c_type = EXYNOS_PM_QOS_MAX, notifiers = Some []\<rparr>"

definition tnr_throughput_pm_qos :: exynos_pm_qos_object where
  "tnr_throughput_pm_qos = \<lparr>constraints = Some tnr_tput_constraints, obj_name = ''tnr_throughput''\<rparr>"

definition tnr_tput_max_constraints :: exynos_pm_qos_constraints where
  "tnr_tput_max_constraints =
     \<lparr>c_list = [], target_value = PM_QOS_TNR_THROUGHPUT_MAX_DEFAULT_VALUE,
      default_value = PM_QOS_TNR_THROUGHPUT_MAX_DEFAULT_VALUE, no_constraint_value = 0,
      c_type = EXYNOS_PM_QOS_MIN, notifiers = Some []\<rparr>"

definition tnr_throughput_max_pm_qos :: exynos_pm_qos_object where
  "tnr_throughput_max_pm_qos = \<lparr>constraints = Some tnr_tput_max_constraints, obj_name = ''tnr_throughput_max''\<rparr>"

definition bo_tput_constraints :: exynos_pm_qos_constraints where
  "bo_tput_constraints =
     \<lparr>c_list = [], target_value = PM_QOS_BO_THROUGHPUT_DEFAULT_VALUE,
      default_value = PM_QOS_BO_THROUGHPUT_DEFAULT_VALUE, no_constraint_value = 0,
      c_type = EXYNOS_PM_QOS_MAX, notifiers = Some []\<rparr>"

definition bo_throughput_pm_qos :: exynos_pm_qos_object where
  "bo_throughput_pm_qos = \<lparr>constraints = Some bo_tput_constraints, obj_name = ''bo_throughput''\<rparr>"

definition bo_tput_max_constraints :: exynos_pm_qos_constraints where
  "bo_tput_max_constraints =
     \<lparr>c_list = [], target_value = PM_QOS_BO_THROUGHPUT_MAX_DEFAULT_VALUE,
      default_value = PM_QOS_BO_THROUGHPUT_MAX_DEFAULT_VALUE, no_constraint_value = 0,
      c_type = EXYNOS_PM_QOS_MIN, notifiers = Some []\<rparr>"

definition bo_throughput_max_pm_qos :: exynos_pm_qos_object where
  "bo_throughput_max_pm_qos = \<lparr>constraints = Some bo_tput_max_constraints, obj_name = ''bo_throughput_max''\<rparr>"

definition exynos_pm_qos_array :: "exynos_pm_qos_object list" where
  "exynos_pm_qos_array =
     [null_exynos_pm_qos,
      cluster0_freq_min_pm_qos,
      cluster0_freq_max_pm_qos,
      cluster1_freq_min_pm_qos,
      cluster1_freq_max_pm_qos,
      cluster2_freq_min_pm_qos,
      cluster2_freq_max_pm_qos,
      device_throughput_pm_qos,
      intcam_throughput_pm_qos,
      device_throughput_max_pm_qos,
      intcam_throughput_max_pm_qos,
      bus_throughput_pm_qos,
      bus_throughput_max_pm_qos,
      display_throughput_pm_qos,
      display_throughput_max_pm_qos,
      cam_throughput_pm_qos,
      cam_throughput_max_pm_qos,
      mfc_throughput_pm_qos,
      mfc_throughput_max_pm_qos,
      tnr_throughput_pm_qos,
      tnr_throughput_max_pm_qos,
      bo_throughput_pm_qos,
      bo_throughput_max_pm_qos,
      gpu_freq_min_pm_qos,
      gpu_freq_max_pm_qos]"

lemmas pm_qos_objects =
  null_exynos_pm_qos_def
  device_tput_constraints_def device_throughput_pm_qos_def device_tput_max_constraints_def
  device_throughput_max_pm_qos_def intcam_tput_constraints_def intcam_throughput_pm_qos_def
  intcam_tput_max_constraints_def intcam_throughput_max_pm_qos_def bus_tput_constraints_def
  bus_throughput_pm_qos_def bus_tput_max_constraints_def bus_throughput_max_pm_qos_def
  cluster2_freq_min_constraints_def cluster2_freq_min_pm_qos_def
  cluster2_freq_max_constraints_def cluster2_freq_max_pm_qos_def
  cluster1_freq_min_constraints_def cluster1_freq_min_pm_qos_def
  cluster1_freq_max_constraints_def cluster1_freq_max_pm_qos_def
  cluster0_freq_min_constraints_def cluster0_freq_min_pm_qos_def
  cluster0_freq_max_constraints_def cluster0_freq_max_pm_qos_def display_tput_constraints_def
  display_throughput_pm_qos_def display_tput_max_constraints_def
  display_throughput_max_pm_qos_def cam_tput_constraints_def cam_throughput_pm_qos_def
  cam_tput_max_constraints_def cam_throughput_max_pm_qos_def mfc_tput_constraints_def
  mfc_throughput_pm_qos_def gpu_freq_min_constraints_def gpu_freq_min_pm_qos_def
  gpu_freq_max_constraints_def gpu_freq_max_pm_qos_def mfc_tput_max_constraints_def
  mfc_throughput_max_pm_qos_def tnr_tput_constraints_def tnr_throughput_pm_qos_def
  tnr_tput_max_constraints_def tnr_throughput_max_pm_qos_def bo_tput_constraints_def
  bo_throughput_pm_qos_def bo_tput_max_constraints_def bo_throughput_max_pm_qos_def

subsection \<open>Aggregation\<close>

definition exynos_pm_qos_get_value :: "plist_store \<Rightarrow> exynos_pm_qos_constraints \<Rightarrow> s32" where
  "exynos_pm_qos_get_value s c =
     (case c_list c of
        [] \<Rightarrow> no_constraint_value c
      | first # _ \<Rightarrow>
          (case c_type c of
             EXYNOS_PM_QOS_MIN \<Rightarrow> prio s first
           | EXYNOS_PM_QOS_MAX \<Rightarrow> prio s (last (c_list c))
           | EXYNOS_PM_QOS_SUM \<Rightarrow> foldl (\<lambda>total node. total + prio s node) 0 (c_list c)
           | EXYNOS_PM_QOS_UNINITIALIZED \<Rightarrow> EXYNOS_PM_QOS_DEFAULT_VALUE))"

definition exynos_pm_qos_read_value :: "exynos_pm_qos_constraints \<Rightarrow> s32" where
  "exynos_pm_qos_read_value c = target_value c"

definition exynos_pm_qos_set_value ::
  "exynos_pm_qos_constraints \<Rightarrow> s32 \<Rightarrow> exynos_pm_qos_constraints" where
  "exynos_pm_qos_set_value c value = c\<lparr>target_value := value\<rparr>"

text \<open>
  The result is the return value, the value for the notifier chain if it is to be called, the
  constraints and the plist nodes.
\<close>

definition exynos_pm_qos_update_target ::
  "exynos_pm_qos_constraints \<Rightarrow> nat \<Rightarrow> exynos_pm_qos_req_action \<Rightarrow> s32 \<Rightarrow> plist_store
   \<Rightarrow> int \<times> s32 option \<times> exynos_pm_qos_constraints \<times> plist_store" where
  "exynos_pm_qos_update_target c node action val s =
     (let prev_value = exynos_pm_qos_get_value s c;
          new_value = (if val = EXYNOS_PM_QOS_DEFAULT_VALUE then default_value c else val);
          q = (case action of
                 EXYNOS_PM_QOS_REMOVE_REQ \<Rightarrow> exynos_plist_del node (s, c_list c)
               | EXYNOS_PM_QOS_UPDATE_REQ \<Rightarrow>
                   (let q1 = exynos_plist_del node (s, c_list c)
                    in exynos_plist_add node (plist_node_init node new_value (fst q1), snd q1))
               | EXYNOS_PM_QOS_ADD_REQ \<Rightarrow>
                   exynos_plist_add node (plist_node_init node new_value s, c_list c));
          c' = c\<lparr>c_list := snd q\<rparr>;
          curr_value = exynos_pm_qos_get_value (fst q) c';
          c'' = exynos_pm_qos_set_value c' curr_value
      in if prev_value \<noteq> curr_value
         then (1, if notifiers c'' = None then None else Some curr_value, c'', fst q)
         else (0, None, c'', fst q))"

subsection \<open>Requests\<close>

text \<open>\<^verbatim>\<open>exynos_pm_qos_array[class]->constraints\<close>, and a call of
  \<^verbatim>\<open>exynos_pm_qos_update_target\<close> on it.\<close>

definition class_constraints :: "pm_qos \<Rightarrow> int \<Rightarrow> exynos_pm_qos_constraints option" where
  "class_constraints st cls =
     (if 0 \<le> cls \<and> nat cls < length (qos_array st) then constraints (qos_array st ! nat cls) else None)"

definition class_update_target ::
  "int \<Rightarrow> nat \<Rightarrow> exynos_pm_qos_req_action \<Rightarrow> s32 \<Rightarrow> pm_qos \<Rightarrow> pm_qos option" where
  "class_update_target cls node action val st =
     (case class_constraints st cls of
        None \<Rightarrow> None
      | Some c \<Rightarrow>
          (let (_, note, c', s') = exynos_pm_qos_update_target c node action val (qos_nodes st)
           in Some (st\<lparr>qos_nodes := s',
                 qos_array := (qos_array st)[nat cls := (qos_array st ! nat cls)\<lparr>constraints := Some c'\<rparr>],
                 decided := decided st @ (case note of None \<Rightarrow> [] | Some v \<Rightarrow> [(nat cls, v)])\<rparr>)))"

definition exynos_pm_qos_read_req_value :: "int \<Rightarrow> nat \<Rightarrow> pm_qos \<Rightarrow> int option" where
  "exynos_pm_qos_read_req_value cls req st =
     (case class_constraints st cls of
        None \<Rightarrow> None
      | Some c \<Rightarrow>
          (case find (\<lambda>p. p = req) (c_list c) of
             Some p \<Rightarrow> Some (sint (prio (qos_nodes st) p))
           | None \<Rightarrow> Some (- ENODATA)))"

text \<open>\<open>exynos_pm_qos_request_value\<close> is the C function \<^verbatim>\<open>exynos_pm_qos_request\<close>, whose name the
  record of request handles has.\<close>

definition exynos_pm_qos_request_value :: "int \<Rightarrow> pm_qos \<Rightarrow> s32 option" where
  "exynos_pm_qos_request_value cls st =
     (case class_constraints st cls of
        None \<Rightarrow> None
      | Some c \<Rightarrow> Some (exynos_pm_qos_read_value c))"

definition exynos_pm_qos_request_active :: "exynos_pm_qos_request \<Rightarrow> bool" where
  "exynos_pm_qos_request_active r \<longleftrightarrow> exynos_pm_qos_class r \<noteq> 0"

text \<open>
  The closing \<^verbatim>\<open>trace_clock_set_rate\<close> of the operations reads the class's target value, so
  it faults where the constraints are missing.
\<close>

definition trace_clock :: "int \<Rightarrow> pm_qos \<Rightarrow> pm_qos option" where
  "trace_clock cls st =
     (case exynos_pm_qos_request_value cls st of None \<Rightarrow> None | Some _ \<Rightarrow> Some st)"

definition exynos_pm_qos_update_request_int :: "nat option \<Rightarrow> s32 \<Rightarrow> pm_qos \<Rightarrow> pm_qos option" where
  "exynos_pm_qos_update_request_int req new_value st =
     (case req of
        None \<Rightarrow> Some st
      | Some r \<Rightarrow>
          (let cls = exynos_pm_qos_class (qos_reqs st r) in
           case (if new_value \<noteq> prio (qos_nodes st) r
                 then class_update_target cls r EXYNOS_PM_QOS_UPDATE_REQ new_value st else Some st) of
             None \<Rightarrow> None
           | Some st' \<Rightarrow> trace_clock cls st'))"

definition exynos_pm_qos_work_fn :: "nat \<Rightarrow> pm_qos \<Rightarrow> pm_qos option" where
  "exynos_pm_qos_work_fn req st =
     exynos_pm_qos_update_request_int (Some req) EXYNOS_PM_QOS_DEFAULT_VALUE st"

definition set_req :: "nat \<Rightarrow> exynos_pm_qos_request \<Rightarrow> pm_qos \<Rightarrow> pm_qos" where
  "set_req r h st = st\<lparr>qos_reqs := (qos_reqs st)(r := h)\<rparr>"

definition exynos_pm_qos_add_request_trace ::
  "string \<Rightarrow> u32 \<Rightarrow> nat option \<Rightarrow> int \<Rightarrow> s32 \<Rightarrow> pm_qos \<Rightarrow> pm_qos option" where
  "exynos_pm_qos_add_request_trace func line req cls val st =
     (case req of
        None \<Rightarrow> Some st
      | Some r \<Rightarrow>
          (if exynos_pm_qos_request_active (qos_reqs st r) then Some st
           else
             (let h = (qos_reqs st r)\<lparr>exynos_pm_qos_class := cls, req_func := func,
                        req_line := line, req_work := None\<rparr>
              in case class_update_target cls r EXYNOS_PM_QOS_ADD_REQ val (set_req r h st) of
                   None \<Rightarrow> None
                 | Some st' \<Rightarrow> trace_clock cls st')))"

definition cancel_delayed_work_sync :: "nat \<Rightarrow> pm_qos \<Rightarrow> pm_qos" where
  "cancel_delayed_work_sync r st = set_req r ((qos_reqs st r)\<lparr>req_work := None\<rparr>) st"

definition exynos_pm_qos_update_request :: "nat option \<Rightarrow> s32 \<Rightarrow> pm_qos \<Rightarrow> pm_qos option" where
  "exynos_pm_qos_update_request req new_value st =
     (case req of
        None \<Rightarrow> Some st
      | Some r \<Rightarrow>
          (if \<not> exynos_pm_qos_request_active (qos_reqs st r) then Some st
           else exynos_pm_qos_update_request_int (Some r) new_value (cancel_delayed_work_sync r st)))"

definition exynos_pm_qos_update_request_timeout ::
  "nat option \<Rightarrow> s32 \<Rightarrow> u64 \<Rightarrow> pm_qos \<Rightarrow> pm_qos option" where
  "exynos_pm_qos_update_request_timeout req new_value timeout_us st =
     (case req of
        None \<Rightarrow> Some st
      | Some r \<Rightarrow>
          (if \<not> exynos_pm_qos_request_active (qos_reqs st r) then Some st
           else
             (let st1 = cancel_delayed_work_sync r st;
                  cls = exynos_pm_qos_class (qos_reqs st1 r)
              in case (if new_value \<noteq> prio (qos_nodes st1) r
                       then class_update_target cls r EXYNOS_PM_QOS_UPDATE_REQ new_value st1
                       else Some st1) of
                   None \<Rightarrow> None
                 | Some st2 \<Rightarrow>
                     trace_clock cls
                       (set_req r ((qos_reqs st2 r)\<lparr>req_work := Some timeout_us\<rparr>) st2))))"

text \<open>
  \<^verbatim>\<open>memset(req, 0, sizeof(*req))\<close>: the handle and the embedded node, whose links become NULL;
  the empty ring stands for them.
\<close>

definition clear_request :: "nat \<Rightarrow> pm_qos \<Rightarrow> pm_qos" where
  "clear_request r st =
     (set_req r \<lparr>exynos_pm_qos_class = 0, req_work = None, req_func = [], req_line = 0\<rparr> st)
       \<lparr>qos_nodes := (qos_nodes st)\<lparr>prio := (prio (qos_nodes st))(r := 0),
                                   prio_ring := (prio_ring (qos_nodes st))(r := [])\<rparr>\<rparr>"

definition exynos_pm_qos_remove_request :: "nat option \<Rightarrow> pm_qos \<Rightarrow> pm_qos option" where
  "exynos_pm_qos_remove_request req st =
     (case req of
        None \<Rightarrow> Some st
      | Some r \<Rightarrow>
          (if \<not> exynos_pm_qos_request_active (qos_reqs st r) then Some st
           else
             (let st1 = cancel_delayed_work_sync r st;
                  cls = exynos_pm_qos_class (qos_reqs st1 r)
              in case class_update_target cls r EXYNOS_PM_QOS_REMOVE_REQ
                        EXYNOS_PM_QOS_DEFAULT_VALUE st1 of
                   None \<Rightarrow> None
                 | Some st2 \<Rightarrow> trace_clock cls (clear_request r st2))))"

subsection \<open>Notifiers\<close>

text \<open>
  \<open>register\<close> and \<open>unregister\<close> stand for the kernel's \<^verbatim>\<open>blocking_notifier_chain_register\<close> and
  \<^verbatim>\<open>blocking_notifier_chain_unregister\<close>: the return value and the chain they leave.
\<close>

definition class_notifiers ::
  "(nat list \<Rightarrow> nat \<Rightarrow> int \<times> nat list) \<Rightarrow> int \<Rightarrow> nat \<Rightarrow> pm_qos \<Rightarrow> (int \<times> pm_qos) option" where
  "class_notifiers f cls nb st =
     (case class_constraints st cls of
        None \<Rightarrow> None
      | Some c \<Rightarrow>
          (case notifiers c of
             None \<Rightarrow> None
           | Some chain \<Rightarrow>
               (let (retval, chain') = f chain nb
                in Some (retval, st\<lparr>qos_array := (qos_array st)[nat cls :=
                     (qos_array st ! nat cls)\<lparr>constraints := Some (c\<lparr>notifiers := Some chain'\<rparr>)\<rparr>]\<rparr>))))"

definition exynos_pm_qos_add_notifier ::
  "(nat list \<Rightarrow> nat \<Rightarrow> int \<times> nat list) \<Rightarrow> int \<Rightarrow> nat \<Rightarrow> pm_qos \<Rightarrow> (int \<times> pm_qos) option" where
  "exynos_pm_qos_add_notifier register cls nb st = class_notifiers register cls nb st"

definition exynos_pm_qos_remove_notifier ::
  "(nat list \<Rightarrow> nat \<Rightarrow> int \<times> nat list) \<Rightarrow> int \<Rightarrow> nat \<Rightarrow> pm_qos \<Rightarrow> (int \<times> pm_qos) option" where
  "exynos_pm_qos_remove_notifier unregister cls nb st = class_notifiers unregister cls nb st"

subsection \<open>Flags\<close>

text \<open>The flags of each request are in a map from its address.\<close>

record exynos_pm_qos_flags =
  fl_list :: "nat list"
  effective_flags :: s32

definition exynos_pm_qos_flags_remove_req ::
  "(nat \<Rightarrow> s32) \<Rightarrow> nat \<Rightarrow> exynos_pm_qos_flags \<Rightarrow> exynos_pm_qos_flags" where
  "exynos_pm_qos_flags_remove_req flags req pqf =
     (let l = remove1 req (fl_list pqf)
      in pqf\<lparr>fl_list := l, effective_flags := foldl (\<lambda>val r. val OR flags r) 0 l\<rparr>)"

definition exynos_pm_qos_update_flags ::
  "exynos_pm_qos_flags \<Rightarrow> nat \<Rightarrow> exynos_pm_qos_req_action \<Rightarrow> s32 \<Rightarrow> (nat \<Rightarrow> s32)
   \<Rightarrow> bool \<times> exynos_pm_qos_flags \<times> (nat \<Rightarrow> s32)" where
  "exynos_pm_qos_update_flags pqf req action val flags =
     (let prev_value = (if fl_list pqf = [] then 0 else effective_flags pqf);
          add = (\<lambda>p. p\<lparr>fl_list := fl_list p @ [req], effective_flags := effective_flags p OR val\<rparr>);
          pqf' = (case action of
                    EXYNOS_PM_QOS_REMOVE_REQ \<Rightarrow> exynos_pm_qos_flags_remove_req flags req pqf
                  | EXYNOS_PM_QOS_UPDATE_REQ \<Rightarrow> add (exynos_pm_qos_flags_remove_req flags req pqf)
                  | EXYNOS_PM_QOS_ADD_REQ \<Rightarrow> add pqf);
          flags' = (if action = EXYNOS_PM_QOS_REMOVE_REQ then flags else flags(req := val));
          curr_value = (if fl_list pqf' = [] then 0 else effective_flags pqf')
      in (prev_value \<noteq> curr_value, pqf', flags'))"

subsection \<open>The debugfs report\<close>

text \<open>
  The lines \<^verbatim>\<open>exynos_pm_qos_debug_show\<close> prints for one object: a running number, the
  value, whether it is active and where it was requested, and the closing summary.
\<close>

datatype debug_line =
  Debug_Empty
| Debug_Request nat int string string u32
| Debug_Summary string int nat nat

fun debug_requests ::
  "pm_qos \<Rightarrow> s32 \<Rightarrow> nat list \<Rightarrow> nat \<Rightarrow> nat \<Rightarrow> debug_line list \<times> nat \<times> nat" where
  "debug_requests st dflt [] tot active = ([], active, tot)"
| "debug_requests st dflt (r # rs) tot active =
     (let isact = prio (qos_nodes st) r \<noteq> dflt;
          (lines, a, t) = debug_requests st dflt rs (Suc tot) (if isact then Suc active else active)
      in (Debug_Request (Suc tot) (sint (prio (qos_nodes st) r))
            (if isact then ''Active'' else ''Default'')
            (req_func (qos_reqs st r)) (req_line (qos_reqs st r)) # lines, a, t))"

definition exynos_pm_qos_debug_show ::
  "exynos_pm_qos_object option \<Rightarrow> pm_qos \<Rightarrow> int \<times> debug_line list" where
  "exynos_pm_qos_debug_show qos st =
     (case qos of
        None \<Rightarrow> (- EINVAL, [])
      | Some obj \<Rightarrow>
          (case constraints obj of
             None \<Rightarrow> (- EINVAL, [])
           | Some c \<Rightarrow>
               (if c_list c = [] then (0, [Debug_Empty])
                else
                  (let ty = (case c_type c of
                               EXYNOS_PM_QOS_MIN \<Rightarrow> ''Minimum''
                             | EXYNOS_PM_QOS_MAX \<Rightarrow> ''Maximum''
                             | EXYNOS_PM_QOS_SUM \<Rightarrow> ''Sum''
                             | EXYNOS_PM_QOS_UNINITIALIZED \<Rightarrow> ''Unknown'');
                       (lines, active, tot) = debug_requests st (default_value c) (c_list c) 0 0
                   in (0, lines @ [Debug_Summary ty
                             (sint (exynos_pm_qos_get_value (qos_nodes st) c)) active tot])))))"

subsection \<open>Runs\<close>

text \<open>
  The initial state: no request is active and the handles are zeroed. A run interleaves calls
  of the interface, with classes the header defines, and expiries of a pending timeout, where
  the workqueue clears the pending state and calls the handler.
\<close>

definition init_pm_qos :: pm_qos where
  "init_pm_qos =
     \<lparr>qos_nodes = \<lparr>prio = (\<lambda>_. 0), prio_ring = (\<lambda>_. [])\<rparr>,
      qos_reqs = (\<lambda>_. \<lparr>exynos_pm_qos_class = 0, req_work = None, req_func = [], req_line = 0\<rparr>),
      qos_array = exynos_pm_qos_array, decided = []\<rparr>"

definition valid_class :: "int \<Rightarrow> bool" where
  "valid_class cls \<longleftrightarrow> 0 < cls \<and> cls < int EXYNOS_PM_QOS_NUM_CLASSES"

inductive qos_step :: "pm_qos \<Rightarrow> pm_qos \<Rightarrow> bool" where
  qos_add: "valid_class cls \<Longrightarrow> exynos_pm_qos_add_request_trace f l req cls v st = Some st'
     \<Longrightarrow> qos_step st st'"
| qos_update: "exynos_pm_qos_update_request req v st = Some st' \<Longrightarrow> qos_step st st'"
| qos_update_timeout:
    "exynos_pm_qos_update_request_timeout req v t st = Some st' \<Longrightarrow> qos_step st st'"
| qos_remove: "exynos_pm_qos_remove_request req st = Some st' \<Longrightarrow> qos_step st st'"
| qos_timeout: "req_work (qos_reqs st r) \<noteq> None \<Longrightarrow>
     exynos_pm_qos_work_fn r (cancel_delayed_work_sync r st) = Some st' \<Longrightarrow> qos_step st st'"

inductive qos_reachable :: "pm_qos \<Rightarrow> bool" where
  qos_init: "qos_reachable init_pm_qos"
| qos_next: "qos_reachable st \<Longrightarrow> qos_step st st' \<Longrightarrow> qos_reachable st'"

end
