(* ===== verification/PmQosInv.thy ===== *)
theory PmQosInv
  imports PmQos
begin

text \<open>
  The invariant of the PM QoS state and that every operation keeps it: the list of a class
  holds exactly the requests whose handle names the class, sorted; the target value of a
  class with requests is their aggregate; the static part of the objects never changes.
\<close>

subsection \<open>One class\<close>

lemma get_value_cong:
  "(\<And>m. m \<in> set (c_list c) \<Longrightarrow> prio s' m = prio s m) \<Longrightarrow>
   exynos_pm_qos_get_value s' c = exynos_pm_qos_get_value s c"
  by (auto simp: exynos_pm_qos_get_value_def split: list.splits exynos_pm_qos_type.splits
      intro!: foldl_cong)

lemma plist_inv_cong:
  assumes "\<And>m. m \<in> set head \<Longrightarrow> prio s' m = prio s m \<and> prio_ring s' m = prio_ring s m"
    and "plist_inv (s, head)"
  shows "plist_inv (s', head)"
proof -
  have "firsts (prio s') head = firsts (prio s) head"
    and "map (\<lambda>m. sint (prio s' m)) head = map (\<lambda>m. sint (prio s m)) head"
    using assms(1) by (auto intro: firsts_cong)
  then show ?thesis using assms by (metis plist_inv.simps ring_ok_def)
qed

text \<open>
  What an update of the target does to its class, for a node that is off the list when it is
  added and on it otherwise.
\<close>

definition new_prio :: "exynos_pm_qos_constraints \<Rightarrow> s32 \<Rightarrow> s32" where
  "new_prio c val = (if val = EXYNOS_PM_QOS_DEFAULT_VALUE then default_value c else val)"

definition plist_step :: "exynos_pm_qos_req_action \<Rightarrow> nat \<Rightarrow> s32 \<Rightarrow> plist \<Rightarrow> plist" where
  "plist_step action node p q =
     (case action of
        EXYNOS_PM_QOS_REMOVE_REQ \<Rightarrow> exynos_plist_del node q
      | EXYNOS_PM_QOS_UPDATE_REQ \<Rightarrow>
          (let q1 = exynos_plist_del node q
           in exynos_plist_add node (plist_node_init node p (fst q1), snd q1))
      | EXYNOS_PM_QOS_ADD_REQ \<Rightarrow> exynos_plist_add node (plist_node_init node p (fst q), snd q))"

lemma plist_step_spec:
  assumes inv: "plist_inv q" and on: "node \<in> set (snd q) \<longleftrightarrow> action \<noteq> EXYNOS_PM_QOS_ADD_REQ"
  shows "plist_inv (plist_step action node p q)"
    and "set (snd (plist_step action node p q)) =
      (if action = EXYNOS_PM_QOS_REMOVE_REQ then set (snd q) - {node} else insert node (set (snd q)))"
    and "prio (fst (plist_step action node p q)) =
      (if action = EXYNOS_PM_QOS_REMOVE_REQ then prio (fst q) else (prio (fst q))(node := p))"
proof -
  have "plist_inv (plist_step action node p q) \<and>
    set (snd (plist_step action node p q)) =
      (if action = EXYNOS_PM_QOS_REMOVE_REQ then set (snd q) - {node} else insert node (set (snd q))) \<and>
    prio (fst (plist_step action node p q)) =
      (if action = EXYNOS_PM_QOS_REMOVE_REQ then prio (fst q) else (prio (fst q))(node := p))"
  proof (cases action)
    case EXYNOS_PM_QOS_ADD_REQ
    let ?q = "(plist_node_init node p (fst q), snd q)"
    have "plist_inv ?q" "plist_fresh ?q node"
      using pl.invar_init [OF inv] pl.fresh_init on EXYNOS_PM_QOS_ADD_REQ by auto
    then show ?thesis
      using EXYNOS_PM_QOS_ADD_REQ pl.invar_add pl.set_add pl.key_add pl.key_init
      by (simp add: plist_step_def)
  next
    case EXYNOS_PM_QOS_UPDATE_REQ
    then show ?thesis
      using on pl.move [OF inv, of node p] by (auto simp: plist_step_def Let_def)
  next
    case EXYNOS_PM_QOS_REMOVE_REQ
    then show ?thesis
      using on pl.invar_del [OF inv] pl.set_del [OF inv] by (simp add: plist_step_def)
  qed
  then show "plist_inv (plist_step action node p q)"
    and "set (snd (plist_step action node p q)) =
      (if action = EXYNOS_PM_QOS_REMOVE_REQ then set (snd q) - {node} else insert node (set (snd q)))"
    and "prio (fst (plist_step action node p q)) =
      (if action = EXYNOS_PM_QOS_REMOVE_REQ then prio (fst q) else (prio (fst q))(node := p))"
    by blast+
qed

lemma plist_step_frame:
  assumes inv: "plist_inv q" and on: "node \<in> set (snd q) \<longleftrightarrow> action \<noteq> EXYNOS_PM_QOS_ADD_REQ"
    and m: "m \<notin> set (snd q)" "m \<noteq> node"
  shows "prio_ring (fst (plist_step action node p q)) m = prio_ring (fst q) m"
proof -
  obtain s head where q: "q = (s, head)" by (cases q)
  have init: "prio_ring (plist_node_init node p t) m = prio_ring t m" for t
    using m by (simp add: plist_node_init_def)
  have add: "prio_ring (fst (exynos_plist_add node (plist_node_init node p t, h))) m = prio_ring t m"
    if "plist_inv (t, h)" "node \<notin> set h" "m \<notin> set h" for t h
    using prio_ring_add_frame [OF plist_inv_node_init [OF that(1,2)] that(2,3) m(2)] init by simp
  show ?thesis
  proof (cases action)
    case EXYNOS_PM_QOS_ADD_REQ
    then show ?thesis using add [of s head] inv on m q by (simp add: plist_step_def)
  next
    case EXYNOS_PM_QOS_UPDATE_REQ
    obtain s1 h1 where del: "exynos_plist_del node (s, head) = (s1, h1)" by fastforce
    have on': "node \<in> set head" "m \<notin> set head" using on m EXYNOS_PM_QOS_UPDATE_REQ q by auto
    have inv': "plist_inv (s1, h1)" using pl.invar_del [OF inv, of node] on' del q by simp
    have "set h1 = set head - {node}" using pl.set_del [OF inv, of node] del q by simp
    moreover have "prio_ring s1 m = prio_ring s m"
      using prio_ring_del_frame [of s head node m] inv on' del q by simp
    moreover note inv' on'
    ultimately have "prio_ring (fst (exynos_plist_add node (plist_node_init node p s1, h1))) m =
      prio_ring s m" using add [of s1 h1] by simp
    then show ?thesis using EXYNOS_PM_QOS_UPDATE_REQ del q by (simp add: plist_step_def)
  next
    case EXYNOS_PM_QOS_REMOVE_REQ
    then show ?thesis
      using prio_ring_del_frame [of s head node m] inv on m q by (simp add: plist_step_def)
  qed
qed

lemma update_target_eq:
  "exynos_pm_qos_update_target c node action val s =
     (let q = plist_step action node (new_prio c val) (s, c_list c);
          c' = c\<lparr>c_list := snd q, target_value := exynos_pm_qos_get_value (fst q) (c\<lparr>c_list := snd q\<rparr>)\<rparr>;
          changed = exynos_pm_qos_get_value s c \<noteq> target_value c'
      in (if changed then 1 else 0,
          if changed \<and> notifiers c \<noteq> None then Some (target_value c') else None, c', fst q))"
  by (auto simp: exynos_pm_qos_update_target_def plist_step_def new_prio_def Let_def
      exynos_pm_qos_set_value_def split: exynos_pm_qos_req_action.splits)

lemma get_value_target [simp]:
  "exynos_pm_qos_get_value s (c\<lparr>target_value := v\<rparr>) = exynos_pm_qos_get_value s c"
  by (simp add: exynos_pm_qos_get_value_def split: list.splits exynos_pm_qos_type.splits)

subsection \<open>All classes\<close>

definition static_objects ::
  "exynos_pm_qos_object list \<Rightarrow> (string \<times> (exynos_pm_qos_type \<times> s32 \<times> s32) option) list" where
  "static_objects = map (\<lambda>obj. (obj_name obj,
     map_option (\<lambda>c. (c_type c, default_value c, no_constraint_value c)) (constraints obj)))"

definition class_ok :: "(nat \<Rightarrow> int) \<Rightarrow> plist_store \<Rightarrow> nat \<Rightarrow> exynos_pm_qos_constraints \<Rightarrow> bool" where
  "class_ok cl s i c \<longleftrightarrow>
     plist_inv (s, c_list c) \<and>
     (c_list c \<noteq> [] \<longrightarrow> target_value c = exynos_pm_qos_get_value s c) \<and>
     set (c_list c) = {n. cl n = int i}"

text \<open>The value the watchers of a class were told last; before any call it is the 0 of an
  empty class.\<close>

definition seen :: "(nat \<times> s32) list \<Rightarrow> nat \<Rightarrow> s32" where
  "seen log i = (case filter (\<lambda>e. fst e = i) log of [] \<Rightarrow> 0 | es \<Rightarrow> snd (last es))"

lemma seen_append [simp]:
  "seen (log @ [(j, v)]) i = (if i = j then v else seen log i)"
  by (cases "filter (\<lambda>e. fst e = i) log") (auto simp: seen_def)

text \<open>\<open>cl\<close> gives the class whose list a request is on, 0 for none.\<close>

definition lists_ok :: "(nat \<Rightarrow> int) \<Rightarrow> pm_qos \<Rightarrow> bool" where
  "lists_ok cl st \<longleftrightarrow>
     static_objects (qos_array st) = static_objects exynos_pm_qos_array \<and>
     (\<forall>i c. i < length (qos_array st) \<longrightarrow> constraints (qos_array st ! i) = Some c \<longrightarrow>
        class_ok cl (qos_nodes st) i c \<and> notifiers c \<noteq> None \<and>
        seen (decided st) i = exynos_pm_qos_get_value (qos_nodes st) c)"

definition req_class :: "pm_qos \<Rightarrow> nat \<Rightarrow> int" where
  "req_class st n = exynos_pm_qos_class (qos_reqs st n)"

definition qos_inv :: "pm_qos \<Rightarrow> bool" where
  "qos_inv st \<longleftrightarrow>
     lists_ok (req_class st) st \<and>
     (\<forall>n. req_class st n \<noteq> 0 \<longrightarrow> valid_class (req_class st n)) \<and>
     (\<forall>n. req_work (qos_reqs st n) \<noteq> None \<longrightarrow> req_class st n \<noteq> 0) \<and>
     (\<forall>n. req_class st n \<noteq> 0 \<longrightarrow> prio (qos_nodes st) n \<noteq> EXYNOS_PM_QOS_DEFAULT_VALUE)"

lemma length_static_objects [simp]: "length (static_objects xs) = length xs"
  by (simp add: static_objects_def)

lemma static_table:
  "length exynos_pm_qos_array = EXYNOS_PM_QOS_NUM_CLASSES"
  "\<forall>e \<in> set (tl (static_objects exynos_pm_qos_array)). snd e \<noteq> None"
  "snd (hd (static_objects exynos_pm_qos_array)) = None"
  by (simp_all add: static_objects_def exynos_pm_qos_array_def pm_qos_objects)

lemma static_values:
  "\<forall>e \<in> set (static_objects exynos_pm_qos_array). \<forall>t d n. snd e = Some (t, d, n) \<longrightarrow>
     (t = EXYNOS_PM_QOS_MAX \<and> d = 0 \<or> t = EXYNOS_PM_QOS_MIN \<and> d = INT_MAX) \<and> n = 0"
  by (simp add: static_objects_def exynos_pm_qos_array_def pm_qos_objects)

lemma class_values:
  assumes "lists_ok cl st" and "class_constraints st cls = Some c"
  shows "c_type c = EXYNOS_PM_QOS_MAX \<and> default_value c = 0 \<or>
      c_type c = EXYNOS_PM_QOS_MIN \<and> default_value c = INT_MAX"
    and "no_constraint_value c = 0"
proof -
  have i: "nat cls < length (qos_array st)" "constraints (qos_array st ! nat cls) = Some c"
    using assms(2) by (auto simp: class_constraints_def split: if_splits)
  then have "static_objects (qos_array st) ! nat cls \<in> set (static_objects (qos_array st))"
    by simp
  moreover have "snd (static_objects (qos_array st) ! nat cls) =
      Some (c_type c, default_value c, no_constraint_value c)"
    using i by (simp add: static_objects_def)
  ultimately show "c_type c = EXYNOS_PM_QOS_MAX \<and> default_value c = 0 \<or>
      c_type c = EXYNOS_PM_QOS_MIN \<and> default_value c = INT_MAX"
    and "no_constraint_value c = 0"
    using assms(1) static_values by (metis lists_ok_def)+
qed

lemma new_prio_not_default:
  "lists_ok cl st \<Longrightarrow> class_constraints st cls = Some c \<Longrightarrow>
   new_prio c v \<noteq> EXYNOS_PM_QOS_DEFAULT_VALUE"
  using class_values(1) [of cl st cls c] by (auto simp: new_prio_def)

lemma lists_ok_class:
  assumes ok: "lists_ok cl st" and valid: "valid_class cls"
  obtains c where "class_constraints st cls = Some c" and "class_ok cl (qos_nodes st) (nat cls) c"
    and "nat cls < length (qos_array st)" and "constraints (qos_array st ! nat cls) = Some c"
proof -
  have st: "static_objects (qos_array st) = static_objects exynos_pm_qos_array"
    using ok by (simp add: lists_ok_def)
  have len: "length (qos_array st) = EXYNOS_PM_QOS_NUM_CLASSES"
    using arg_cong [OF st, of length] static_table(1) by simp
  let ?i = "nat cls"
  have i: "0 < ?i" "?i < length (qos_array st)" using valid len by (auto simp: valid_class_def)
  have "static_objects (qos_array st) ! ?i \<in> set (tl (static_objects exynos_pm_qos_array))"
    using i len st static_table(1) nth_mem [of "?i - 1" "tl (static_objects exynos_pm_qos_array)"]
    by (simp add: nth_tl)
  then have "snd (static_objects (qos_array st) ! ?i) \<noteq> None" using static_table(2) by blast
  then obtain c where c: "constraints (qos_array st ! ?i) = Some c"
    using i by (auto simp: static_objects_def)
  with i ok have "class_ok cl (qos_nodes st) ?i c" by (auto simp: lists_ok_def)
  moreover have "class_constraints st cls = Some c"
    using c i valid by (auto simp: class_constraints_def valid_class_def)
  ultimately show thesis using that c i by blast
qed


lemma lists_ok_pos:
  assumes "lists_ok cl st" and "j < length (qos_array st)" and "constraints (qos_array st ! j) = Some d"
  shows "0 < j"
proof (rule ccontr)
  assume "\<not> 0 < j"
  then have "snd (hd (static_objects (qos_array st))) \<noteq> None"
    using assms(2,3) by (cases "qos_array st") (auto simp: static_objects_def)
  then show False using assms(1) static_table(3) by (simp add: lists_ok_def)
qed

lemma static_objects_update:
  "constraints (xs ! i) = Some c \<Longrightarrow> c_type c' = c_type c \<Longrightarrow> default_value c' = default_value c \<Longrightarrow>
   no_constraint_value c' = no_constraint_value c \<Longrightarrow>
   static_objects (xs[i := (xs ! i)\<lparr>constraints := Some c'\<rparr>]) = static_objects xs"
proof (rule nth_equalityI)
  fix k
  assume "constraints (xs ! i) = Some c" "c_type c' = c_type c" "default_value c' = default_value c"
    "no_constraint_value c' = no_constraint_value c"
    and "k < length (static_objects (xs[i := (xs ! i)\<lparr>constraints := Some c'\<rparr>]))"
  then show "static_objects (xs[i := (xs ! i)\<lparr>constraints := Some c'\<rparr>]) ! k = static_objects xs ! k"
    by (cases "k = i") (auto simp: static_objects_def)
qed simp

text \<open>
  One call of \<^verbatim>\<open>exynos_pm_qos_update_target\<close> on a class of the array. It never faults on a
  defined class, and only the list of that class changes.
\<close>

lemma class_update_target_ok:
  assumes ok: "lists_ok cl st" and valid: "valid_class cls"
    and cl: "cl r = (if action = EXYNOS_PM_QOS_ADD_REQ then 0 else cls)"
  obtains c st' where "class_update_target cls r action val st = Some st'"
    and "class_constraints st cls = Some c"
    and "lists_ok (cl(r := if action = EXYNOS_PM_QOS_REMOVE_REQ then 0 else cls)) st'"
    and "qos_reqs st' = qos_reqs st"
    and "prio (qos_nodes st') = (if action = EXYNOS_PM_QOS_REMOVE_REQ then prio (qos_nodes st)
       else (prio (qos_nodes st))(r := new_prio c val))"
proof -
  obtain c where c: "class_constraints st cls = Some c" "class_ok cl (qos_nodes st) (nat cls) c"
    and i: "nat cls < length (qos_array st)" and ci: "constraints (qos_array st ! nat cls) = Some c"
    using lists_ok_class [OF ok valid] .
  let ?s = "qos_nodes st" and ?i = "nat cls"
  let ?cl = "cl(r := if action = EXYNOS_PM_QOS_REMOVE_REQ then 0 else cls)"
  define q where "q = plist_step action r (new_prio c val) (?s, c_list c)"
  define c' where "c' = c\<lparr>c_list := snd q, target_value := exynos_pm_qos_get_value (fst q) (c\<lparr>c_list := snd q\<rparr>)\<rparr>"
  define log where "log = decided st @ (if exynos_pm_qos_get_value ?s c \<noteq> target_value c' \<and>
    notifiers c \<noteq> None then [(?i, target_value c')] else [])"
  have run: "class_update_target cls r action val st =
    Some (st\<lparr>qos_nodes := fst q,
       qos_array := (qos_array st)[?i := (qos_array st ! ?i)\<lparr>constraints := Some c'\<rparr>],
       decided := log\<rparr>)" (is "_ = Some ?st'")
    using c unfolding log_def class_update_target_def update_target_eq q_def c'_def
    by (simp add: Let_def del: exynos_pm_qos_constraints.update_convs)
  have inv: "plist_inv (?s, c_list c)" and mem: "set (c_list c) = {n. cl n = int ?i}"
    using c(2) by (auto simp: class_ok_def)
  have icls: "int ?i = cls" and pos: "0 < cls" using valid by (auto simp: valid_class_def)
  have on: "r \<in> set (c_list c) \<longleftrightarrow> action \<noteq> EXYNOS_PM_QOS_ADD_REQ"
    using mem cl icls pos by auto
  note spec = plist_step_spec [of "(?s, c_list c)" r action "new_prio c val", folded q_def, simplified,
      OF _ on]
  note frame = plist_step_frame [of "(?s, c_list c)" r action _ "new_prio c val", folded q_def,
      simplified, OF _ on]
  have "plist_inv q" using spec(1) inv by simp
  then have inv': "plist_inv (fst q, snd q)" by simp
  have mem': "set (snd q) = {n. ?cl n = int ?i}"
    using spec(2) inv mem icls pos on by auto
  have here: "class_ok ?cl (fst q) ?i c'"
    using inv' mem' unfolding class_ok_def c'_def
    by (simp add: exynos_pm_qos_get_value_def split: list.splits exynos_pm_qos_type.splits)
  have told: "notifiers c \<noteq> None" "seen (decided st) ?i = exynos_pm_qos_get_value ?s c"
    using ok i ci by (auto simp: lists_ok_def)
  have target': "target_value c' = exynos_pm_qos_get_value (fst q) c'"
    unfolding c'_def
    by (simp add: exynos_pm_qos_get_value_def split: list.splits exynos_pm_qos_type.splits)
  have here_told: "notifiers c' \<noteq> None \<and> seen log ?i = exynos_pm_qos_get_value (fst q) c'"
    using told target' by (auto simp: log_def c'_def)
  have there: "class_ok ?cl (fst q) j d \<and> notifiers d \<noteq> None \<and>
      seen log j = exynos_pm_qos_get_value (fst q) d"
    if j: "j < length (qos_array st)" "constraints (qos_array st ! j) = Some d" "j \<noteq> ?i" for j d
  proof -
    have dok: "class_ok cl ?s j d" and dtold: "notifiers d \<noteq> None"
      "seen log j = exynos_pm_qos_get_value ?s d"
      using ok j by (auto simp: lists_ok_def log_def)
    have r_off: "r \<notin> set (c_list d)"
      using dok cl icls j lists_ok_pos [OF ok j(1,2)] by (auto simp: class_ok_def split: if_splits)
    have off: "m \<notin> set (c_list c)" if "m \<in> set (c_list d)" for m
      using that dok mem j(3) by (auto simp: class_ok_def)
    have same: "prio (fst q) m = prio ?s m \<and> prio_ring (fst q) m = prio_ring ?s m"
      if "m \<in> set (c_list d)" for m
      using spec(3) frame [of m] inv that off r_off by auto
    then have "plist_inv (fst q, c_list d)"
      and "exynos_pm_qos_get_value (fst q) d = exynos_pm_qos_get_value ?s d"
      using dok plist_inv_cong [of "c_list d" "fst q" ?s] get_value_cong [of d "fst q" ?s]
      by (auto simp: class_ok_def simp del: plist_inv.simps)
    moreover have "{n. ?cl n = int j} = {n. cl n = int j}"
    proof -
      have "cl r \<noteq> int j" using r_off dok unfolding class_ok_def by blast
      moreover have "cls \<noteq> int j" "int j \<noteq> 0"
        using icls j(3) lists_ok_pos [OF ok j(1,2)] by auto
      ultimately show ?thesis by simp (metis fun_upd_apply)
    qed
    ultimately show ?thesis using dok dtold unfolding class_ok_def by simp
  qed
  have "static_objects (qos_array ?st') = static_objects exynos_pm_qos_array"
    using ok static_objects_update [OF ci, of c'] by (simp add: lists_ok_def c'_def)
  moreover have "class_ok ?cl (fst q) j d \<and> notifiers d \<noteq> None \<and>
      seen log j = exynos_pm_qos_get_value (fst q) d"
    if "j < length (qos_array st)" "constraints (qos_array ?st' ! j) = Some d" for j d
    using that here here_told there [of j d] i by (cases "j = ?i") auto
  ultimately have "lists_ok ?cl ?st'" by (auto simp: lists_ok_def)
  with run c(1) spec(3) inv show thesis
    by (intro that [of ?st' c]) simp_all
qed


lemma class_update_target_value:
  assumes "class_update_target cls r action val st = Some st'"
  obtains c c' where "class_constraints st cls = Some c" and "class_constraints st' cls = Some c'"
    and "target_value c' = exynos_pm_qos_get_value (qos_nodes st') c'"
    and "no_constraint_value c' = no_constraint_value c"
proof -
  obtain c where c: "class_constraints st cls = Some c"
    using assms by (auto simp: class_update_target_def split: option.splits)
  define q where "q = plist_step action r (new_prio c val) (qos_nodes st, c_list c)"
  define c' where "c' = c\<lparr>c_list := snd q, target_value := exynos_pm_qos_get_value (fst q) (c\<lparr>c_list := snd q\<rparr>)\<rparr>"
  have nodes: "qos_nodes st' = fst q" and arr: "qos_array st' =
      (qos_array st)[nat cls := (qos_array st ! nat cls)\<lparr>constraints := Some c'\<rparr>]"
    using assms c unfolding class_update_target_def update_target_eq q_def c'_def
    by (auto simp: Let_def simp del: exynos_pm_qos_constraints.update_convs)
  have "class_constraints st' cls = Some c'"
    using c arr by (auto simp: class_constraints_def split: if_splits)
  moreover have "target_value c' = exynos_pm_qos_get_value (qos_nodes st') c'"
    unfolding nodes c'_def
    by (simp add: exynos_pm_qos_get_value_def split: list.splits exynos_pm_qos_type.splits)
  ultimately show thesis using c that [of c c'] by (simp add: c'_def)
qed

lemmas update_target_add = class_update_target_ok [where action = EXYNOS_PM_QOS_ADD_REQ, simplified]
lemmas update_target_update = class_update_target_ok [where action = EXYNOS_PM_QOS_UPDATE_REQ, simplified]
lemmas update_target_remove = class_update_target_ok [where action = EXYNOS_PM_QOS_REMOVE_REQ, simplified]

lemma lists_ok_set_req [simp]: "lists_ok cl (set_req r h st) \<longleftrightarrow> lists_ok cl st"
  by (simp add: lists_ok_def set_req_def)

lemma qos_reqs_set_req [simp]: "qos_reqs (set_req r h st) = (qos_reqs st)(r := h)"
  by (simp add: set_req_def)

lemma qos_nodes_set_req [simp]: "qos_nodes (set_req r h st) = qos_nodes st"
  by (simp add: set_req_def)

lemma class_constraints_set_req [simp]: "class_constraints (set_req r h st) cls = class_constraints st cls"
  by (simp add: set_req_def class_constraints_def)

lemma trace_clock_ok: "lists_ok cl st \<Longrightarrow> valid_class cls \<Longrightarrow> trace_clock cls st = Some st"
  using lists_ok_class [of cl st cls] by (fastforce simp: trace_clock_def exynos_pm_qos_request_value_def)

lemma req_class_set_req [simp]:
  "req_class (set_req r h st) = (req_class st)(r := exynos_pm_qos_class h)"
  by (auto simp: req_class_def)

lemma req_class_cong: "qos_reqs st' = qos_reqs st \<Longrightarrow> req_class st' = req_class st"
  by (auto simp: req_class_def)

lemma active_iff: "exynos_pm_qos_request_active (qos_reqs st r) \<longleftrightarrow> req_class st r \<noteq> 0"
  by (simp add: exynos_pm_qos_request_active_def req_class_def)

lemma class_of_req [simp]: "exynos_pm_qos_class (qos_reqs st r) = req_class st r"
  by (simp add: req_class_def)

lemma qos_invD:
  assumes "qos_inv st"
  shows "lists_ok (req_class st) st"
    and "req_class st r \<noteq> 0 \<Longrightarrow> valid_class (req_class st r)"
    and "req_work (qos_reqs st r) \<noteq> None \<Longrightarrow> req_class st r \<noteq> 0"
    and "req_class st r \<noteq> 0 \<Longrightarrow> prio (qos_nodes st) r \<noteq> EXYNOS_PM_QOS_DEFAULT_VALUE"
  using assms by (auto simp: qos_inv_def)

lemma qos_invI:
  assumes "lists_ok (req_class st) st" and "\<And>r. req_class st r \<noteq> 0 \<Longrightarrow> valid_class (req_class st r)"
    and "\<And>r. req_work (qos_reqs st r) \<noteq> None \<Longrightarrow> req_class st r \<noteq> 0"
    and "\<And>r. req_class st r \<noteq> 0 \<Longrightarrow> prio (qos_nodes st) r \<noteq> EXYNOS_PM_QOS_DEFAULT_VALUE"
  shows "qos_inv st"
  using assms by (auto simp: qos_inv_def)

text \<open>Changing a handle without changing its class.\<close>

lemma qos_inv_set_work:
  assumes "qos_inv st" and "w \<noteq> None \<Longrightarrow> req_class st r \<noteq> 0"
  shows "qos_inv (set_req r ((qos_reqs st r)\<lparr>req_work := w\<rparr>) st)"
proof -
  have "req_class (set_req r ((qos_reqs st r)\<lparr>req_work := w\<rparr>) st) = req_class st" by simp
  then show ?thesis using assms qos_invD [OF assms(1)] by (intro qos_invI) (auto split: if_splits)
qed

lemma qos_inv_cancel: "qos_inv st \<Longrightarrow> qos_inv (cancel_delayed_work_sync r st)"
  using qos_inv_set_work [of st None] by (simp add: cancel_delayed_work_sync_def)

lemma valid_class_nonzero: "valid_class cls \<Longrightarrow> cls \<noteq> 0"
  by (simp add: valid_class_def)

subsection \<open>The operations\<close>

text \<open>
  Each operation, called with the state it is meant for, returns and keeps the invariant; the
  value of the request it is about is the one asked for, and no other request's changes.
\<close>

lemma update_step:
  assumes inv: "qos_inv st" and act: "req_class st r \<noteq> 0"
  obtains c st' where "class_constraints st (req_class st r) = Some c"
    and "class_update_target (req_class st r) r EXYNOS_PM_QOS_UPDATE_REQ v st = Some st'"
    and "qos_inv st'" and "qos_reqs st' = qos_reqs st"
    and "prio (qos_nodes st') = (prio (qos_nodes st))(r := new_prio c v)"
proof -
  note valid = qos_invD(2) [OF inv act]
  obtain c st' where run: "class_update_target (req_class st r) r EXYNOS_PM_QOS_UPDATE_REQ v st = Some st'"
    "class_constraints st (req_class st r) = Some c"
    "lists_ok ((req_class st)(r := req_class st r)) st'"
    "qos_reqs st' = qos_reqs st"
    "prio (qos_nodes st') = (prio (qos_nodes st))(r := new_prio c v)"
    by (rule update_target_update [OF qos_invD(1) [OF inv] valid, of r v]) simp_all
  have "lists_ok (req_class st') st'" using run(3) req_class_cong [OF run(4)] by simp
  then have "qos_inv st'"
    using qos_invD [OF inv] run(4,5) req_class_cong [OF run(4)]
      new_prio_not_default [OF qos_invD(1) [OF inv] run(2)]
    by (intro qos_invI) (auto split: if_splits)
  with run that show thesis by blast
qed

lemma update_request_int_ok:
  assumes inv: "qos_inv st" and act: "req_class st r \<noteq> 0"
  obtains c st' where "class_constraints st (req_class st r) = Some c"
    and "exynos_pm_qos_update_request_int (Some r) v st = Some st'"
    and "qos_inv st'" and "qos_reqs st' = qos_reqs st"
    and "prio (qos_nodes st') = (prio (qos_nodes st))
       (r := if v = prio (qos_nodes st) r then v else new_prio c v)"
proof (cases "v = prio (qos_nodes st) r")
  case True
  note valid = qos_invD(2) [OF inv act]
  obtain c where "class_constraints st (req_class st r) = Some c"
    using lists_ok_class [OF qos_invD(1) [OF inv] valid] .
  moreover have "exynos_pm_qos_update_request_int (Some r) v st = Some st"
    using True trace_clock_ok [OF qos_invD(1) [OF inv] valid]
    by (simp add: exynos_pm_qos_update_request_int_def)
  ultimately show thesis using True inv that [of c st] by simp
next
  case False
  obtain c st' where run: "class_constraints st (req_class st r) = Some c"
    "class_update_target (req_class st r) r EXYNOS_PM_QOS_UPDATE_REQ v st = Some st'"
    "qos_inv st'" "qos_reqs st' = qos_reqs st"
    "prio (qos_nodes st') = (prio (qos_nodes st))(r := new_prio c v)"
    using update_step [OF inv act] .
  moreover have "trace_clock (req_class st r) st' = Some st'"
    using trace_clock_ok [OF qos_invD(1) [OF run(3)]] qos_invD(2) [OF inv act] req_class_cong [OF run(4)] by simp
  ultimately show thesis
    using False that [of c st'] by (simp add: exynos_pm_qos_update_request_int_def)
qed

lemma add_request_ok:
  assumes inv: "qos_inv st" and idle: "req_class st r = 0" and valid: "valid_class cls"
  obtains c st' where "class_constraints st cls = Some c"
    and "exynos_pm_qos_add_request_trace f l (Some r) cls v st = Some st'"
    and "qos_inv st'" and "req_class st' = (req_class st)(r := cls)"
    and "prio (qos_nodes st') = (prio (qos_nodes st))(r := new_prio c v)"
proof -
  let ?h = "(qos_reqs st r)\<lparr>exynos_pm_qos_class := cls, req_func := f, req_line := l, req_work := None\<rparr>"
  obtain c st' where run: "class_update_target cls r EXYNOS_PM_QOS_ADD_REQ v (set_req r ?h st) = Some st'"
    "class_constraints st cls = Some c" "lists_ok ((req_class st)(r := cls)) st'"
    "qos_reqs st' = (qos_reqs st)(r := ?h)"
    "prio (qos_nodes st') = (prio (qos_nodes st))(r := new_prio c v)"
    by (rule update_target_add [of "req_class st" "set_req r ?h st" cls r v])
      (use qos_invD(1) [OF inv] valid idle in auto)
  have cls: "req_class st' = (req_class st)(r := cls)"
    using req_class_cong [of st' "set_req r ?h st"] run(4) by simp
  have "qos_inv st'"
    using run(3,4,5) cls qos_invD [OF inv] valid new_prio_not_default [OF qos_invD(1) [OF inv] run(2)]
    by (intro qos_invI) (auto split: if_splits)
  moreover have "exynos_pm_qos_add_request_trace f l (Some r) cls v st = Some st'"
    using run(1,3) idle trace_clock_ok [OF run(3) valid]
    by (simp add: exynos_pm_qos_add_request_trace_def active_iff Let_def)
  ultimately show thesis using that run cls by blast
qed


lemma update_timeout_ok:
  assumes inv: "qos_inv st" and act: "req_class st r \<noteq> 0"
  obtains c st' where "class_constraints st (req_class st r) = Some c"
    and "exynos_pm_qos_update_request_timeout (Some r) v t st = Some st'"
    and "qos_inv st'" and "qos_reqs st' = (qos_reqs st)(r := (qos_reqs st r)\<lparr>req_work := Some t\<rparr>)"
    and "prio (qos_nodes st') = (prio (qos_nodes st))
       (r := if v = prio (qos_nodes st) r then v else new_prio c v)"
proof -
  define st1 where "st1 = cancel_delayed_work_sync r st"
  have inv1: "qos_inv st1" and same: "req_class st1 r = req_class st r"
    "class_constraints st1 (req_class st r) = class_constraints st (req_class st r)"
    "qos_nodes st1 = qos_nodes st"
    using qos_inv_cancel [OF inv] by (simp_all add: st1_def cancel_delayed_work_sync_def)
  have reqs: "(qos_reqs st1)(r := (qos_reqs st1 r)\<lparr>req_work := Some t\<rparr>) =
    (qos_reqs st)(r := (qos_reqs st r)\<lparr>req_work := Some t\<rparr>)"
    by (simp add: st1_def cancel_delayed_work_sync_def)
  obtain c st2 where run: "class_constraints st1 (req_class st1 r) = Some c"
    "(if v \<noteq> prio (qos_nodes st1) r
      then class_update_target (req_class st1 r) r EXYNOS_PM_QOS_UPDATE_REQ v st1 else Some st1) = Some st2"
    "qos_inv st2" "qos_reqs st2 = qos_reqs st1"
    "prio (qos_nodes st2) = (prio (qos_nodes st1))
       (r := if v = prio (qos_nodes st1) r then v else new_prio c v)"
  proof (cases "v = prio (qos_nodes st1) r")
    case True
    have "valid_class (req_class st1 r)" using qos_invD(2) [OF inv1, of r] act same(1) by simp
    then obtain c where "class_constraints st1 (req_class st1 r) = Some c"
      using lists_ok_class [OF qos_invD(1) [OF inv1]] by metis
    then show thesis using True inv1 that [of c st1] by simp
  next
    case False
    have "req_class st1 r \<noteq> 0" using act same(1) by simp
    then obtain c st2 where "class_constraints st1 (req_class st1 r) = Some c"
      "class_update_target (req_class st1 r) r EXYNOS_PM_QOS_UPDATE_REQ v st1 = Some st2"
      "qos_inv st2" "qos_reqs st2 = qos_reqs st1"
      "prio (qos_nodes st2) = (prio (qos_nodes st1))(r := new_prio c v)"
      using update_step [OF inv1] by metis
    then show thesis using False that [of c st2] by simp
  qed
  define st3 where "st3 = set_req r ((qos_reqs st2 r)\<lparr>req_work := Some t\<rparr>) st2"
  have inv3: "qos_inv st3"
    using qos_inv_set_work [OF run(3), of "Some t" r] req_class_cong [OF run(4)] act same(1)
    by (simp add: st3_def)
  have valid: "valid_class (req_class st r)" by (rule qos_invD(2) [OF inv act])
  have "exynos_pm_qos_update_request_timeout (Some r) v t st = Some st3"
    using run(2,4) act trace_clock_ok [OF qos_invD(1) [OF inv3] valid] same(1)
    by (simp add: exynos_pm_qos_update_request_timeout_def active_iff
        Let_def st3_def flip: st1_def)
  moreover have "qos_reqs st3 = (qos_reqs st)(r := (qos_reqs st r)\<lparr>req_work := Some t\<rparr>)"
    using run(4) reqs by (simp add: st3_def)
  moreover have "prio (qos_nodes st3) = (prio (qos_nodes st))
       (r := if v = prio (qos_nodes st) r then v else new_prio c v)"
    using run(5) same(3) by (simp add: st3_def)
  ultimately show thesis using that run(1) same inv3 by metis
qed

lemma req_class_clear [simp]: "req_class (clear_request r st) = (req_class st)(r := 0)"
  by (auto simp: clear_request_def req_class_def set_req_def simp del: class_of_req)

lemma lists_ok_clear:
  assumes "lists_ok cl st" and "cl r = 0"
  shows "lists_ok cl (clear_request r st)"
proof -
  have "class_ok cl (qos_nodes (clear_request r st)) i c \<and> notifiers c \<noteq> None \<and>
      seen (decided st) i = exynos_pm_qos_get_value (qos_nodes (clear_request r st)) c"
    if i: "i < length (qos_array st)" "constraints (qos_array st ! i) = Some c" for i c
  proof -
    have ok: "class_ok cl (qos_nodes st) i c" and told: "notifiers c \<noteq> None"
      "seen (decided st) i = exynos_pm_qos_get_value (qos_nodes st) c"
      using assms(1) i by (auto simp: lists_ok_def)
    from ok have "r \<notin> set (c_list c)"
      using assms(2) lists_ok_pos [OF assms(1) i] by (auto simp: class_ok_def)
    then have "prio (qos_nodes (clear_request r st)) m = prio (qos_nodes st) m \<and>
      prio_ring (qos_nodes (clear_request r st)) m = prio_ring (qos_nodes st) m"
      if "m \<in> set (c_list c)" for m
      using that by (auto simp: clear_request_def)
    then show ?thesis
      using ok told plist_inv_cong [of "c_list c" "qos_nodes (clear_request r st)" "qos_nodes st"]
        get_value_cong [of c "qos_nodes (clear_request r st)" "qos_nodes st"]
      unfolding class_ok_def by (simp del: plist_inv.simps)
  qed
  then show ?thesis using assms(1) by (auto simp: lists_ok_def clear_request_def set_req_def)
qed

lemma remove_request_ok:
  assumes inv: "qos_inv st" and act: "req_class st r \<noteq> 0"
  obtains st' where "exynos_pm_qos_remove_request (Some r) st = Some st'"
    and "qos_inv st'" and "req_class st' = (req_class st)(r := 0)"
    and "prio (qos_nodes st') = (prio (qos_nodes st))(r := 0)"
proof -
  define st1 where "st1 = cancel_delayed_work_sync r st"
  have inv1: "qos_inv st1" and same: "req_class st1 = req_class st" "qos_nodes st1 = qos_nodes st"
    using qos_inv_cancel [OF inv] by (auto simp: st1_def cancel_delayed_work_sync_def)
  have valid: "valid_class (req_class st r)" by (rule qos_invD(2) [OF inv act])
  obtain c st2 where run:
    "class_update_target (req_class st r) r EXYNOS_PM_QOS_REMOVE_REQ EXYNOS_PM_QOS_DEFAULT_VALUE st1 = Some st2"
    "lists_ok ((req_class st)(r := 0)) st2" "qos_reqs st2 = qos_reqs st1"
    "prio (qos_nodes st2) = prio (qos_nodes st1)"
    by (rule update_target_remove [OF qos_invD(1) [OF inv1], of "req_class st r" r
          EXYNOS_PM_QOS_DEFAULT_VALUE]) (use valid same in auto)
  let ?st3 = "clear_request r st2"
  have ok3: "lists_ok ((req_class st)(r := 0)) ?st3" using lists_ok_clear [OF run(2)] by simp
  have cls3: "req_class ?st3 = (req_class st)(r := 0)"
    using req_class_cong [OF run(3)] same(1) by simp
  have "qos_inv ?st3"
    using ok3 cls3 qos_invD [OF inv1] run(3,4) same
    by (intro qos_invI) (auto simp: clear_request_def split: if_splits)
  moreover have "exynos_pm_qos_remove_request (Some r) st = Some ?st3"
    using run(1) act trace_clock_ok [OF ok3 valid] same
    by (simp add: exynos_pm_qos_remove_request_def active_iff Let_def
        flip: st1_def)
  moreover have "prio (qos_nodes ?st3) = (prio (qos_nodes st))(r := 0)"
    using run(4) same by (simp add: clear_request_def)
  ultimately show thesis using that cls3 by blast
qed


subsection \<open>Runs\<close>

lemma qos_inv_init: "qos_inv init_pm_qos"
proof (rule qos_invI)
  have "class_ok (req_class init_pm_qos) (qos_nodes init_pm_qos) i c \<and> notifiers c \<noteq> None \<and>
      seen (decided init_pm_qos) i = exynos_pm_qos_get_value (qos_nodes init_pm_qos) c"
    if "i < length exynos_pm_qos_array" "constraints (exynos_pm_qos_array ! i) = Some c" for i c
  proof -
    have "c_list c = [] \<and> notifiers c \<noteq> None \<and> no_constraint_value c = 0"
    proof -
      have "\<forall>obj \<in> set exynos_pm_qos_array. \<forall>c. constraints obj = Some c \<longrightarrow>
          c_list c = [] \<and> notifiers c \<noteq> None \<and> no_constraint_value c = 0"
        by (simp add: exynos_pm_qos_array_def pm_qos_objects)
      then show ?thesis using that by (metis nth_mem)
    qed
    moreover have "0 < i"
      using that by (cases i) (auto simp: exynos_pm_qos_array_def null_exynos_pm_qos_def)
    ultimately show ?thesis
      by (simp add: class_ok_def ring_ok_def req_class_def init_pm_qos_def seen_def
          exynos_pm_qos_get_value_def del: class_of_req)
  qed
  then show "lists_ok (req_class init_pm_qos) init_pm_qos"
    by (simp add: lists_ok_def init_pm_qos_def)
qed (auto simp: init_pm_qos_def req_class_def simp del: class_of_req)

lemma update_request_ok:
  assumes inv: "qos_inv st" and act: "req_class st r \<noteq> 0"
  obtains c st' where "class_constraints st (req_class st r) = Some c"
    and "exynos_pm_qos_update_request (Some r) v st = Some st'"
    and "qos_inv st'" and "req_class st' = req_class st"
    and "qos_reqs st' = (qos_reqs st)(r := (qos_reqs st r)\<lparr>req_work := None\<rparr>)"
    and "prio (qos_nodes st') = (prio (qos_nodes st))
       (r := if v = prio (qos_nodes st) r then v else new_prio c v)"
proof -
  let ?st1 = "cancel_delayed_work_sync r st"
  have same: "req_class ?st1 = req_class st" "qos_nodes ?st1 = qos_nodes st"
    "\<And>cls. class_constraints ?st1 cls = class_constraints st cls"
    by (simp_all add: cancel_delayed_work_sync_def)
  have act1: "req_class ?st1 r \<noteq> 0" using act same by simp
  obtain c st' where run: "class_constraints ?st1 (req_class ?st1 r) = Some c"
    "exynos_pm_qos_update_request_int (Some r) v ?st1 = Some st'"
    "qos_inv st'" "qos_reqs st' = qos_reqs ?st1"
    "prio (qos_nodes st') = (prio (qos_nodes ?st1))
       (r := if v = prio (qos_nodes ?st1) r then v else new_prio c v)"
    using update_request_int_ok [OF qos_inv_cancel [OF inv] act1] .
  then show thesis
    using that [of c st'] same act req_class_cong [OF run(4)]
    by (simp add: exynos_pm_qos_update_request_def active_iff cancel_delayed_work_sync_def)
qed

lemma work_fn_ok:
  assumes inv: "qos_inv st" and pending: "req_work (qos_reqs st r) \<noteq> None"
  obtains c st' where "class_constraints st (req_class st r) = Some c"
    and "exynos_pm_qos_work_fn r (cancel_delayed_work_sync r st) = Some st'"
    and "qos_inv st'" and "req_class st' = req_class st"
    and "qos_reqs st' = (qos_reqs st)(r := (qos_reqs st r)\<lparr>req_work := None\<rparr>)"
    and "prio (qos_nodes st') = (prio (qos_nodes st))(r := default_value c)"
proof -
  have act: "req_class st r \<noteq> 0" using qos_invD(3) [OF inv pending] .
  obtain c st' where run: "class_constraints st (req_class st r) = Some c"
    "exynos_pm_qos_update_request (Some r) EXYNOS_PM_QOS_DEFAULT_VALUE st = Some st'"
    "qos_inv st'" "req_class st' = req_class st"
    "qos_reqs st' = (qos_reqs st)(r := (qos_reqs st r)\<lparr>req_work := None\<rparr>)"
    "prio (qos_nodes st') = (prio (qos_nodes st))
       (r := if EXYNOS_PM_QOS_DEFAULT_VALUE = prio (qos_nodes st) r then EXYNOS_PM_QOS_DEFAULT_VALUE
             else new_prio c EXYNOS_PM_QOS_DEFAULT_VALUE)"
    using update_request_ok [OF inv act] .
  show thesis
    by (rule that [OF run(1) _ run(3,4,5)])
      (use run(2,6) act qos_invD(4) [OF inv act] in \<open>auto simp: exynos_pm_qos_work_fn_def exynos_pm_qos_update_request_def
        active_iff new_prio_def split: if_splits\<close>)
qed

inductive_cases qos_stepE: "qos_step st st'"

lemma qos_inv_step:
  assumes step: "qos_step st st'" and inv: "qos_inv st"
  shows "qos_inv st'"
  using step
proof (cases rule: qos_step.cases)
  case (qos_add cls f l req v)
  then show ?thesis
    using add_request_ok [OF inv _ qos_add(1), of _ f l v] inv
    by (cases req) (fastforce simp: exynos_pm_qos_add_request_trace_def active_iff split: if_splits)+
next
  case (qos_update req v)
  then show ?thesis
    using update_request_ok [OF inv, of _ v] inv
    by (cases req) (fastforce simp: exynos_pm_qos_update_request_def active_iff split: if_splits)+
next
  case (qos_update_timeout req v t)
  then show ?thesis
    using update_timeout_ok [OF inv, of _ v t] inv
    by (cases req) (fastforce simp: exynos_pm_qos_update_request_timeout_def active_iff split: if_splits)+
next
  case (qos_remove req)
  then show ?thesis
    using remove_request_ok [OF inv] inv
    by (cases req) (fastforce simp: exynos_pm_qos_remove_request_def active_iff split: if_splits)+
next
  case (qos_timeout r)
  then show ?thesis using work_fn_ok [OF inv] by (metis option.inject)
qed

lemma qos_inv_reachable: "qos_reachable st \<Longrightarrow> qos_inv st"
  by (induction rule: qos_reachable.induct) (auto intro: qos_inv_init qos_inv_step)

end
