(* ===== verification/PmQosProps.thy ===== *)
theory PmQosProps
  imports PmQosInv
begin

text \<open>
  What the PM QoS component promises, over every run of its interface: targets are aggregates
  of the active requests, timeouts fall back to the default,
  no operation faults on a defined class; and the one place where the aggregate is not what
  the classes' defaults say, the removal of the last request.
\<close>

subsection \<open>Concrete runs\<close>

text \<open>One request of 100 on class 2 (\<^verbatim>\<open>PM_QOS_CLUSTER0_FREQ_MAX\<close>), and with a timeout.\<close>

definition qos_sample :: pm_qos where
  "qos_sample = the (exynos_pm_qos_add_request_trace ''acme'' 1 (Some 7) 2 100 init_pm_qos)"

definition qos_sample_timeout :: pm_qos where
  "qos_sample_timeout = the (exynos_pm_qos_update_request_timeout (Some 7) 50 1000 qos_sample)"

lemma init_idle: "req_class init_pm_qos = (\<lambda>_. 0)" "prio (qos_nodes init_pm_qos) = (\<lambda>_. 0)"
  by (auto simp: req_class_def init_pm_qos_def simp del: class_of_req)

lemma qos_sample_exists:
  "exynos_pm_qos_add_request_trace ''acme'' 1 (Some 7) 2 100 init_pm_qos = Some qos_sample \<and>
   req_class qos_sample = (\<lambda>n. if n = 7 then 2 else 0) \<and>
   prio (qos_nodes qos_sample) = (\<lambda>n. if n = 7 then 100 else 0)"
proof -
  have idle: "req_class init_pm_qos 7 = 0" and valid: "valid_class 2"
    by (simp_all add: init_idle valid_class_def)
  obtain c st' where
    run: "exynos_pm_qos_add_request_trace ''acme'' 1 (Some 7) 2 100 init_pm_qos = Some st'"
    and st': "req_class st' = (req_class init_pm_qos)(7 := 2)"
    "prio (qos_nodes st') = (prio (qos_nodes init_pm_qos))(7 := new_prio c 100)"
    by (rule add_request_ok [OF qos_inv_init idle valid, of "''acme''" 1 100])
  then have "qos_sample = st'" by (simp add: qos_sample_def)
  with run st' show ?thesis by (simp add: init_idle new_prio_def fun_eq_iff)
qed

lemmas qos_sample_run = conjunct1 [OF qos_sample_exists]
lemmas qos_sample_state = conjunct1 [OF conjunct2 [OF qos_sample_exists]]
  conjunct2 [OF conjunct2 [OF qos_sample_exists]]

lemma qos_sample_reachable: "qos_reachable qos_sample"
  by (rule qos_next [OF qos_init qos_add [OF _ qos_sample_run]]) (simp add: valid_class_def)

lemma qos_sample_timeout_exists:
  "exynos_pm_qos_update_request_timeout (Some 7) 50 1000 qos_sample = Some qos_sample_timeout \<and>
   req_work (qos_reqs qos_sample_timeout 7) = Some 1000 \<and> req_class qos_sample_timeout 7 = 2"
proof -
  have act: "req_class qos_sample 7 \<noteq> 0" by (simp add: qos_sample_state)
  obtain c st' where
    run: "exynos_pm_qos_update_request_timeout (Some 7) 50 1000 qos_sample = Some st'"
    and st': "qos_reqs st' = (qos_reqs qos_sample)(7 := (qos_reqs qos_sample 7)\<lparr>req_work := Some 1000\<rparr>)"
    by (rule update_timeout_ok [OF qos_inv_reachable [OF qos_sample_reachable] act, of 50 1000])
  then have "qos_sample_timeout = st'" by (simp add: qos_sample_timeout_def)
  moreover have "req_class st' 7 = req_class qos_sample 7"
    using st' by (simp add: req_class_def del: class_of_req)
  ultimately show ?thesis using run st' by (simp add: qos_sample_state)
qed

lemmas qos_sample_timeout_run = conjunct1 [OF qos_sample_timeout_exists]
lemmas qos_sample_timeout_state = conjunct2 [OF qos_sample_timeout_exists]

lemma qos_sample_timeout_reachable: "qos_reachable qos_sample_timeout"
  by (rule qos_next [OF qos_sample_reachable qos_update_timeout [OF qos_sample_timeout_run]])

subsection \<open>Targets\<close>

lemma class_lookup:
  assumes "qos_inv st" and "class_constraints st cls = Some c"
  shows "class_ok (req_class st) (qos_nodes st) (nat cls) c" and "int (nat cls) = cls" and "0 < cls"
    and "seen (decided st) (nat cls) = exynos_pm_qos_get_value (qos_nodes st) c"
proof -
  note ok = qos_invD(1) [OF assms(1)]
  have i: "nat cls < length (qos_array st)" "constraints (qos_array st ! nat cls) = Some c" "0 \<le> cls"
    using assms(2) by (auto simp: class_constraints_def split: if_splits)
  show "int (nat cls) = cls" "0 < cls" using lists_ok_pos [OF ok i(1,2)] i(3) by auto
  show "class_ok (req_class st) (qos_nodes st) (nat cls) c"
    "seen (decided st) (nat cls) = exynos_pm_qos_get_value (qos_nodes st) c"
    using ok i by (auto simp: lists_ok_def)
qed

lemma class_aggregate:
  assumes inv: "qos_inv st" and c: "class_constraints st cls = Some c" and r: "req_class st r = cls"
  shows "sint (target_value c) =
    (if c_type c = EXYNOS_PM_QOS_MAX then Max else Min)
      ((\<lambda>n. sint (prio (qos_nodes st) n)) ` {n. req_class st n = cls})"
proof -
  note look = class_lookup [OF inv c]
  have ne: "c_list c \<noteq> []" and mem: "set (c_list c) = {n. req_class st n = cls}"
    and pinv: "plist_inv (qos_nodes st, c_list c)"
    and target: "target_value c = exynos_pm_qos_get_value (qos_nodes st) c"
    using look(1,2) r by (auto simp: class_ok_def simp del: plist_inv.simps)
  have "sint (prio (qos_nodes st) (last (c_list c))) =
      Max ((\<lambda>n. sint (prio (qos_nodes st) n)) ` {n. req_class st n = cls})"
    "sint (prio (qos_nodes st) (hd (c_list c))) =
      Min ((\<lambda>n. sint (prio (qos_nodes st) n)) ` {n. req_class st n = cls})"
    using pl.last_Max [OF pinv] pl.first_Min [OF pinv] ne mem by auto
  then show ?thesis
    using target ne class_values(1) [OF qos_invD(1) [OF inv] c]
    by (auto simp: exynos_pm_qos_get_value_def split: list.splits)
qed

text \<open>
  C1. In every reachable state, the value \<^verbatim>\<open>exynos_pm_qos_request\<close> returns for a class with
  an active request is the largest of the active requests' values for a class of type MAX and
  the smallest otherwise (every class of the table is of type MAX or MIN).
\<close>

theorem qos_target_is_aggregate:
  assumes "qos_reachable st" and "class_constraints st cls = Some c"
    and "exynos_pm_qos_class (qos_reqs st r) = cls"
  shows "\<exists>v. exynos_pm_qos_request_value cls st = Some v \<and>
    sint v = (if c_type c = EXYNOS_PM_QOS_MAX then Max else Min)
      ((\<lambda>n. sint (prio (qos_nodes st) n)) ` {n. exynos_pm_qos_class (qos_reqs st n) = cls})"
  using class_aggregate [OF qos_inv_reachable [OF assms(1)] assms(2), of r] assms
  by (simp add: exynos_pm_qos_request_value_def exynos_pm_qos_read_value_def)


theorem qos_target_is_aggregate_witness:
  "\<exists>v. exynos_pm_qos_request_value 2 qos_sample = Some v \<and> sint v = 100"
proof -
  obtain c where c: "class_constraints qos_sample 2 = Some c"
    using lists_ok_class [OF qos_invD(1) [OF qos_inv_reachable [OF qos_sample_reachable]], of 2]
    by (auto simp: valid_class_def)
  have "{n. exynos_pm_qos_class (qos_reqs qos_sample n) = 2} = {7}"
    by (simp add: qos_sample_state)
  then show ?thesis
    using qos_target_is_aggregate [OF qos_sample_reachable c, of 7]
    by (simp add: qos_sample_state split: if_splits)
qed

text \<open>Calls on a handle in the wrong state return at once; the others are covered above.\<close>

lemma add_returns:
  assumes inv: "qos_inv st" and valid: "valid_class cls"
  shows "exynos_pm_qos_add_request_trace f l req cls v st \<noteq> None"
proof (cases "\<exists>n. req = Some n \<and> req_class st n = 0")
  case True
  then obtain n where n: "req = Some n" "req_class st n = 0" by blast
  obtain c st' where "exynos_pm_qos_add_request_trace f l (Some n) cls v st = Some st'"
    by (rule add_request_ok [OF inv n(2) valid, of f l v])
  then show ?thesis using n by simp
qed (auto simp: exynos_pm_qos_add_request_trace_def active_iff split: option.splits)

lemma update_returns:
  assumes inv: "qos_inv st"
  shows "exynos_pm_qos_update_request req v st \<noteq> None"
proof (cases "\<exists>n. req = Some n \<and> req_class st n \<noteq> 0")
  case True
  then obtain n where n: "req = Some n" "req_class st n \<noteq> 0" by blast
  obtain c st' where "exynos_pm_qos_update_request (Some n) v st = Some st'"
    by (rule update_request_ok [OF inv n(2), of v])
  then show ?thesis using n by simp
qed (auto simp: exynos_pm_qos_update_request_def active_iff split: option.splits)

lemma update_timeout_returns:
  assumes inv: "qos_inv st"
  shows "exynos_pm_qos_update_request_timeout req v t st \<noteq> None"
proof (cases "\<exists>n. req = Some n \<and> req_class st n \<noteq> 0")
  case True
  then obtain n where n: "req = Some n" "req_class st n \<noteq> 0" by blast
  obtain c st' where "exynos_pm_qos_update_request_timeout (Some n) v t st = Some st'"
    by (rule update_timeout_ok [OF inv n(2), of v t])
  then show ?thesis using n by simp
qed (auto simp: exynos_pm_qos_update_request_timeout_def active_iff split: option.splits)

lemma remove_returns:
  assumes inv: "qos_inv st"
  shows "exynos_pm_qos_remove_request req st \<noteq> None"
proof (cases "\<exists>n. req = Some n \<and> req_class st n \<noteq> 0")
  case True
  then obtain n where n: "req = Some n" "req_class st n \<noteq> 0" by blast
  obtain st' where "exynos_pm_qos_remove_request (Some n) st = Some st'"
    by (rule remove_request_ok [OF inv n(2)])
  then show ?thesis using n by simp
qed (auto simp: exynos_pm_qos_remove_request_def active_iff split: option.splits)

text \<open>
  C4. No operation faults on the classes the header defines: from every reachable state,
  adding, updating (with or without timeout), removing and the expiry of a pending timeout all
  return, for any request handle, NULL included, and the target of every class can be read.
\<close>

theorem qos_operations_return:
  assumes "qos_reachable st" and "valid_class cls"
  shows "exynos_pm_qos_add_request_trace f l req cls v st \<noteq> None \<and>
    exynos_pm_qos_update_request req v st \<noteq> None \<and>
    exynos_pm_qos_update_request_timeout req v t st \<noteq> None \<and>
    exynos_pm_qos_remove_request req st \<noteq> None \<and>
    (req_work (qos_reqs st r) \<noteq> None \<longrightarrow>
      exynos_pm_qos_work_fn r (cancel_delayed_work_sync r st) \<noteq> None) \<and>
    exynos_pm_qos_request_value cls st \<noteq> None"
proof -
  note inv = qos_inv_reachable [OF assms(1)]
  have "exynos_pm_qos_work_fn r (cancel_delayed_work_sync r st) \<noteq> None"
    if "req_work (qos_reqs st r) \<noteq> None"
    using work_fn_ok [OF inv that] by (metis option.distinct(1))
  moreover have "exynos_pm_qos_request_value cls st \<noteq> None"
    using lists_ok_class [OF qos_invD(1) [OF inv] assms(2)]
    by (metis exynos_pm_qos_request_value_def option.case(2) option.distinct(1))
  ultimately show ?thesis
    using add_returns [OF inv assms(2)] update_returns [OF inv] update_timeout_returns [OF inv]
      remove_returns [OF inv] by blast
qed

theorem qos_operations_return_witness:
  "exynos_pm_qos_remove_request (Some 7) qos_sample_timeout \<noteq> None \<and>
   exynos_pm_qos_work_fn 7 (cancel_delayed_work_sync 7 qos_sample_timeout) \<noteq> None"
  using qos_operations_return [OF qos_sample_timeout_reachable, of 2 _ _ _ _ _ 7] qos_sample_timeout_state
  by (simp add: valid_class_def)

text \<open>
  A timed request falls back: when the timeout pending on a request expires, the request
  has the default value of its class, every other request keeps its value, and no timeout is
  pending on it any more.
\<close>

theorem qos_timeout_restores_default:
  assumes "qos_reachable st" and "req_work (qos_reqs st r) \<noteq> None"
    and "class_constraints st (exynos_pm_qos_class (qos_reqs st r)) = Some c"
  shows "\<exists>st'. exynos_pm_qos_work_fn r (cancel_delayed_work_sync r st) = Some st' \<and>
    prio (qos_nodes st') = (prio (qos_nodes st))(r := default_value c) \<and>
    req_work (qos_reqs st' r) = None"
proof -
  obtain c' st' where "class_constraints st (req_class st r) = Some c'"
    "exynos_pm_qos_work_fn r (cancel_delayed_work_sync r st) = Some st'"
    "qos_reqs st' = (qos_reqs st)(r := (qos_reqs st r)\<lparr>req_work := None\<rparr>)"
    "prio (qos_nodes st') = (prio (qos_nodes st))(r := default_value c')"
    by (rule work_fn_ok [OF qos_inv_reachable [OF assms(1)] assms(2)])
  then show ?thesis using assms(3) by simp
qed

theorem qos_timeout_restores_default_witness:
  "\<exists>st' c. class_constraints qos_sample_timeout 2 = Some c \<and>
     exynos_pm_qos_work_fn 7 (cancel_delayed_work_sync 7 qos_sample_timeout) = Some st' \<and>
     prio (qos_nodes st') 7 = default_value c"
proof -
  obtain c where c: "class_constraints qos_sample_timeout 2 = Some c"
    using lists_ok_class [OF qos_invD(1) [OF qos_inv_reachable [OF qos_sample_timeout_reachable]], of 2]
    by (auto simp: valid_class_def)
  then show ?thesis
    using qos_timeout_restores_default [OF qos_sample_timeout_reachable, of 7 c] qos_sample_timeout_state
    by (metis class_of_req fun_upd_same option.distinct(1))
qed

text \<open>
  Removing the last request of a class leaves the target at 0, for every class of the
  table: the static objects never set \<^verbatim>\<open>no_constraint_value\<close>. For the classes that are
  ceilings (type MIN, default \<^verbatim>\<open>INT_MAX\<close>) this is the tightest limit, not the absence of one.
\<close>

theorem qos_last_removal_leaves_zero:
  assumes "qos_reachable st" and "exynos_pm_qos_class (qos_reqs st r) = cls" and "cls \<noteq> 0"
    and "\<And>n. exynos_pm_qos_class (qos_reqs st n) = cls \<Longrightarrow> n = r"
  shows "\<exists>st'. exynos_pm_qos_remove_request (Some r) st = Some st' \<and>
    exynos_pm_qos_request_value cls st' = Some 0"
proof -
  note inv = qos_inv_reachable [OF assms(1)]
  have act: "req_class st r \<noteq> 0" using assms(2,3) by simp
  obtain st' where run: "exynos_pm_qos_remove_request (Some r) st = Some st'" and inv': "qos_inv st'"
    and cls': "req_class st' = (req_class st)(r := 0)"
    by (rule remove_request_ok [OF inv act])
  obtain st2 where upd: "class_update_target cls r EXYNOS_PM_QOS_REMOVE_REQ EXYNOS_PM_QOS_DEFAULT_VALUE
      (cancel_delayed_work_sync r st) = Some st2" and st': "st' = clear_request r st2"
    using run act assms(2)
    by (auto simp: exynos_pm_qos_remove_request_def active_iff trace_clock_def Let_def
        cancel_delayed_work_sync_def split: option.splits)
  obtain c c' where c': "class_constraints st2 cls = Some c'"
    "target_value c' = exynos_pm_qos_get_value (qos_nodes st2) c'"
    by (rule class_update_target_value [OF upd])
  have look: "class_constraints st' cls = Some c'"
    using c' by (simp add: st' clear_request_def class_constraints_def set_req_def split: if_splits)
  have "set (c_list c') = {n. req_class st' n = cls}"
    using class_lookup(1,2) [OF inv' look] by (simp add: class_ok_def)
  moreover have "{n. req_class st' n = cls} = {}" using cls' assms(3,4) by auto
  ultimately have "c_list c' = []" by simp
  then have "target_value c' = 0"
    using c'(2) class_values(2) [OF qos_invD(1) [OF inv'] look]
    by (simp add: exynos_pm_qos_get_value_def)
  with look run show ?thesis
    by (simp add: exynos_pm_qos_request_value_def exynos_pm_qos_read_value_def)
qed

theorem qos_last_removal_leaves_zero_witness:
  "\<exists>st'. exynos_pm_qos_remove_request (Some 7) qos_sample = Some st' \<and>
     exynos_pm_qos_request_value 2 st' = Some 0"
  by (rule qos_last_removal_leaves_zero [OF qos_sample_reachable])
    (simp_all add: qos_sample_state split: if_splits)

lemma find_self: "r \<in> set xs \<Longrightarrow> find (\<lambda>p. p = r) xs = Some r"
  by (induction xs) auto

text \<open>
  Adding a request and reading it back: from every reachable state, an idle handle added
  to a defined class with any value but the default marker reads back as that value, and no
  other request's value changes.
\<close>

theorem qos_add_then_read:
  assumes "qos_reachable st" and "\<not> exynos_pm_qos_request_active (qos_reqs st r)"
    and "valid_class cls" and "v \<noteq> EXYNOS_PM_QOS_DEFAULT_VALUE"
  shows "\<exists>st'. exynos_pm_qos_add_request_trace f l (Some r) cls v st = Some st' \<and>
    exynos_pm_qos_read_req_value cls r st' = Some (sint v) \<and>
    (\<forall>n. n \<noteq> r \<longrightarrow> prio (qos_nodes st') n = prio (qos_nodes st) n)"
proof -
  have idle: "req_class st r = 0" using assms(2) by (simp add: active_iff)
  obtain c st' where run: "exynos_pm_qos_add_request_trace f l (Some r) cls v st = Some st'"
    "qos_inv st'" "req_class st' = (req_class st)(r := cls)"
    "prio (qos_nodes st') = (prio (qos_nodes st))(r := new_prio c v)"
    by (rule add_request_ok [OF qos_inv_reachable [OF assms(1)] idle assms(3), of f l v])
  obtain c' where c': "class_constraints st' cls = Some c'"
    by (rule lists_ok_class [OF qos_invD(1) [OF run(2)] assms(3)])
  have "r \<in> set (c_list c')"
    using class_lookup(1,2) [OF run(2) c'] run(3) by (simp add: class_ok_def)
  then have "find (\<lambda>p. p = r) (c_list c') = Some r" by (rule find_self)
  then have "exynos_pm_qos_read_req_value cls r st' = Some (sint v)"
    using c' run(4) assms(4) by (simp add: exynos_pm_qos_read_req_value_def new_prio_def)
  with run(1,4) show ?thesis by simp
qed


theorem qos_add_then_read_witness:
  "\<exists>st'. exynos_pm_qos_add_request_trace ''x'' 2 (Some 8) 2 60 qos_sample = Some st' \<and>
     exynos_pm_qos_read_req_value 2 8 st' = Some 60 \<and> prio (qos_nodes st') 7 = 100"
  using qos_add_then_read [OF qos_sample_reachable, of 8 2 60 "''x''" 2]
  by (auto simp: active_iff qos_sample_state valid_class_def)

subsection \<open>Flags\<close>

definition all_flags :: "(nat \<Rightarrow> s32) \<Rightarrow> nat list \<Rightarrow> s32" where
  "all_flags flags l = foldr (\<lambda>r val. flags r OR val) l 0"

lemma all_flags_Nil [simp]: "all_flags flags [] = 0"
  by (simp add: all_flags_def)

lemma foldl_or: "foldl (\<lambda>val r. val OR flags r) a l = a OR all_flags flags l"
  by (induction l arbitrary: a) (auto simp: all_flags_def or.assoc)

lemma all_flags_append: "all_flags flags (xs @ ys) = all_flags flags xs OR all_flags flags ys"
  by (induction xs) (auto simp: all_flags_def or.assoc)

lemma all_flags_cong: "(\<And>r. r \<in> set l \<Longrightarrow> f r = g r) \<Longrightarrow> all_flags f l = all_flags g l"
  by (induction l) (auto simp: all_flags_def)

text \<open>
  The effective flags of a set are the bitwise or of the flags of its requests: adding a
  request that is not in the set, and updating or removing one of it, keep this, and the
  return value says exactly whether the effective flags changed. The removal recomputes the
  or; clearing bits of the removed request alone would be wrong where requests share bits.
\<close>

theorem qos_flags_effective:
  assumes "effective_flags pqf = all_flags flags (fl_list pqf)" and "distinct (fl_list pqf)"
    and "req \<in> set (fl_list pqf) \<longleftrightarrow> action \<noteq> EXYNOS_PM_QOS_ADD_REQ"
    and "exynos_pm_qos_update_flags pqf req action val flags = (changed, pqf', flags')"
  shows "effective_flags pqf' = all_flags flags' (fl_list pqf') \<and> distinct (fl_list pqf') \<and>
    set (fl_list pqf') = (if action = EXYNOS_PM_QOS_REMOVE_REQ then set (fl_list pqf) - {req}
      else insert req (set (fl_list pqf))) \<and>
    (changed \<longleftrightarrow> effective_flags pqf' \<noteq> effective_flags pqf)"
proof -
  have single: "all_flags f [r] = f r" for f r by (simp add: all_flags_def)
  have same: "all_flags (flags(req := val)) l = all_flags flags l" if "req \<notin> set l" for l
    by (rule all_flags_cong) (use that in auto)
  have empty: "fl_list p = [] \<Longrightarrow> all_flags f (fl_list p) = 0" for p f
    by (simp add: all_flags_def)
  have only: "x = req" if "remove1 req (fl_list pqf) = []" "x \<in> set (fl_list pqf)" for x
    using that by (metis in_set_remove1 empty_iff list.set(1))
  show ?thesis
    using assms
    by (cases action)
      (auto simp: exynos_pm_qos_update_flags_def exynos_pm_qos_flags_remove_req_def Let_def
        foldl_or all_flags_append single same empty split: if_splits dest: only)
qed

theorem qos_flags_effective_witness:
  "effective_flags (fst (snd (exynos_pm_qos_update_flags \<lparr>fl_list = [1, 2], effective_flags = 7\<rparr>
     1 EXYNOS_PM_QOS_REMOVE_REQ 0 (\<lambda>n. if n = 1 then 3 else 6)))) = 6"
proof -
  let ?flags = "\<lambda>n::nat. if n = 1 then 3 else 6 :: s32"
  let ?pqf = "\<lparr>fl_list = [1, 2], effective_flags = 7\<rparr>"
  obtain ch pqf' flags' where run:
    "exynos_pm_qos_update_flags ?pqf 1 EXYNOS_PM_QOS_REMOVE_REQ 0 ?flags = (ch, pqf', flags')"
    by (cases "exynos_pm_qos_update_flags ?pqf 1 EXYNOS_PM_QOS_REMOVE_REQ 0 ?flags") auto
  have "effective_flags pqf' = all_flags flags' (fl_list pqf')"
    by (rule conjunct1 [OF qos_flags_effective [OF _ _ _ run]]) (simp_all add: all_flags_def)
  moreover have "flags' = ?flags" "fl_list pqf' = [2]"
    using run by (auto simp: exynos_pm_qos_update_flags_def exynos_pm_qos_flags_remove_req_def Let_def)
  ultimately show ?thesis using run by (simp add: all_flags_def)
qed

subsection \<open>The debugfs report\<close>

lemma debug_requests_counts:
  "length (fst (debug_requests st d rs tot active)) = length rs"
  "snd (snd (debug_requests st d rs tot active)) = tot + length rs"
  "fst (snd (debug_requests st d rs tot active)) =
     active + length (filter (\<lambda>r. prio (qos_nodes st) r \<noteq> d) rs)"
  by (induction rs arbitrary: tot active) (simp_all add: Let_def split_beta)

text \<open>
  The report of a class with requests lists one line per request and closes with the
  aggregate, the number of requests that differ from the default and the number of requests.
\<close>

theorem qos_debug_show_counts:
  assumes "constraints obj = Some c" and "c_list c \<noteq> []"
  shows "\<exists>lines ty. exynos_pm_qos_debug_show (Some obj) st =
      (0, lines @ [Debug_Summary ty (sint (exynos_pm_qos_get_value (qos_nodes st) c))
         (length (filter (\<lambda>r. prio (qos_nodes st) r \<noteq> default_value c) (c_list c)))
         (length (c_list c))]) \<and>
    length lines = length (c_list c)"
proof -
  obtain lines a t where run: "debug_requests st (default_value c) (c_list c) 0 0 = (lines, a, t)"
    by (cases "debug_requests st (default_value c) (c_list c) 0 0") auto
  then show ?thesis
    using assms debug_requests_counts [of st "default_value c" "c_list c" 0 0]
    by (simp add: exynos_pm_qos_debug_show_def Let_def)
qed

theorem qos_debug_show_counts_witness:
  "\<exists>lines ty. exynos_pm_qos_debug_show
     (Some \<lparr>constraints = Some (cluster0_freq_max_constraints\<lparr>c_list := [7]\<rparr>), obj_name = ''x''\<rparr>) qos_sample =
       (0, lines @ [Debug_Summary ty 100 1 1])"
  using qos_debug_show_counts [of "\<lparr>constraints = Some (cluster0_freq_max_constraints\<lparr>c_list := [7]\<rparr>),
      obj_name = ''x''\<rparr>" "cluster0_freq_max_constraints\<lparr>c_list := [7]\<rparr>" qos_sample]
  by (auto simp: cluster0_freq_max_constraints_def exynos_pm_qos_get_value_def qos_sample_state)

subsection \<open>The priority list\<close>

text \<open>
  C5. The insertion that walks the ring of distinct priorities is the plain stable insertion:
  on a well-formed list the new node is placed behind every node whose priority is at most its
  own and before all others, and the list and its ring are well-formed again.
\<close>

theorem plist_add_is_stable_insertion:
  assumes "plist_inv (s, head)" and "n \<notin> set head" and "prio_ring s n = [n]"
  shows "plist_inv (exynos_plist_add n (s, head)) \<and>
    snd (exynos_plist_add n (s, head)) =
      takeWhile (\<lambda>m. sint (prio s m) \<le> sint (prio s n)) head @
      n # dropWhile (\<lambda>m. sint (prio s m) \<le> sint (prio s n)) head"
  using plist_inv_add [OF assms] exynos_plist_add_place [OF assms(1,2)] by simp

theorem plist_add_is_stable_insertion_witness:
  "snd (exynos_plist_add 3 (\<lparr>prio = (\<lambda>n. if n = 2 then 9 else 5),
      prio_ring = (\<lambda>n. if n = 1 then [1, 2] else if n = 2 then [2, 1] else [n])\<rparr>, [1, 2])) = [1, 3, 2]"
proof -
  let ?s = "\<lparr>prio = (\<lambda>n::nat. if n = 2 then 9 else 5 :: s32),
      prio_ring = (\<lambda>n. if n = 1 then [1, 2] else if n = 2 then [2, 1] else [n])\<rparr>"
  have inv: "plist_inv (?s, [1, 2])" by (simp add: ring_ok_def rotate_to_def)
  show ?thesis using plist_add_is_stable_insertion [OF inv, of 3] by simp
qed

text \<open>
  The removal keeps a list well-formed, takes out the node and nothing else, and leaves
  the node's ring link pointing to itself; where the node stood for its priority, the next
  node of the same priority takes its place on the ring.
\<close>

theorem plist_del_keeps_list:
  assumes "plist_inv (s, head)" and "n \<in> set head"
  shows "plist_inv (exynos_plist_del n (s, head)) \<and>
    snd (exynos_plist_del n (s, head)) = remove1 n head \<and>
    prio_ring (fst (exynos_plist_del n (s, head))) n = [n]"
  using plist_inv_del [OF assms] prio_ring_del_self pl.entries_del [of n "(s, head)"] by simp

theorem plist_del_keeps_list_witness:
  "plist_inv (exynos_plist_del 1 (\<lparr>prio = (\<lambda>n. if n = 2 then 9 else 5),
      prio_ring = (\<lambda>n. if n = 1 then [1, 2] else if n = 2 then [2, 1] else [n])\<rparr>, [1, 3, 2]))"
proof -
  let ?s = "\<lparr>prio = (\<lambda>n::nat. if n = 2 then 9 else 5 :: s32),
      prio_ring = (\<lambda>n. if n = 1 then [1, 2] else if n = 2 then [2, 1] else [n])\<rparr>"
  have inv: "plist_inv (?s, [1, 3, 2])" by (simp add: ring_ok_def rotate_to_def)
  show ?thesis using plist_del_keeps_list [OF inv, of 1] by simp
qed

end
