(* ===== verification/PmQosNotify.thy ===== *)
theory PmQosNotify
  imports PmQosProps
begin

text \<open>
  The calls of the watchers of PM QoS. \<^verbatim>\<open>exynos_pm_qos_update_target\<close> compares the aggregate before
  and after the update under the lock of the class and calls the notifier chain after the lock is
  released. Between the two, updates of other threads may come and their calls may overtake. A run
  has the calls that are due and those that reached the watchers, in the order in which they did.
\<close>

subsection \<open>Runs\<close>

record qos_run =
  qos :: pm_qos
  due :: "(nat \<times> s32) list"
  told :: "(nat \<times> s32) list"

text \<open>
  \<open>serial\<close> says that the callers of a class wait for each other: no update that leads to a call
  comes while a call of the same class is due.
\<close>

inductive qos_runs :: "bool \<Rightarrow> qos_run \<Rightarrow> bool" for serial where
  run_start: "qos_runs serial \<lparr>qos = init_pm_qos, due = [], told = []\<rparr>"
| run_update: "qos_runs serial r \<Longrightarrow> qos_step (qos r) q \<Longrightarrow> decided q = decided (qos r) @ new \<Longrightarrow>
    (serial \<longrightarrow> fst ` set new \<inter> fst ` set (due r) = {}) \<Longrightarrow> qos_runs serial (r\<lparr>qos := q, due := due r @ new\<rparr>)"
| run_call: "qos_runs serial r \<Longrightarrow> due r = xs @ e # ys \<Longrightarrow> qos_runs serial (r\<lparr>due := xs @ ys, told := told r @ [e]\<rparr>)"

lemma run_reachable: "qos_runs serial r \<Longrightarrow> qos_reachable (qos r)"
  by (induction rule: qos_runs.induct) (auto intro: qos_init qos_next)

subsection \<open>One call per update\<close>

definition adds_call :: "pm_qos \<Rightarrow> pm_qos \<Rightarrow> bool" where
  "adds_call st st' \<longleftrightarrow> (\<exists>new. decided st' = decided st @ new \<and> length new \<le> 1)"

lemma adds_call_same [simp]: "decided st' = decided st \<Longrightarrow> adds_call st st'"
  by (simp add: adds_call_def)

lemma decided_simps [simp]:
  "decided (set_req r h st) = decided st" "decided (cancel_delayed_work_sync r st) = decided st"
  "decided (clear_request r st) = decided st" "trace_clock cls st = Some st' \<Longrightarrow> decided st' = decided st"
  by (auto simp: set_req_def cancel_delayed_work_sync_def clear_request_def trace_clock_def split: option.splits)

lemma update_target_adds: "class_update_target cls r action val st = Some st' \<Longrightarrow> adds_call st st'"
  by (auto simp: class_update_target_def adds_call_def split: option.splits prod.splits)

lemma adds_call_cong: "adds_call st st1 \<Longrightarrow> decided st = decided st0 \<Longrightarrow> decided st' = decided st1 \<Longrightarrow> adds_call st0 st'"
  by (simp add: adds_call_def)

lemma update_int_adds: "exynos_pm_qos_update_request_int req v st = Some st' \<Longrightarrow> adds_call st st'"
  using adds_call_cong [OF update_target_adds]
  by (auto simp: exynos_pm_qos_update_request_int_def Let_def split: option.splits if_splits)

lemma step_adds: "qos_step st st' \<Longrightarrow> adds_call st st'"
proof (induction rule: qos_step.induct)
  case (qos_add cls f l req v st st')
  then show ?case using adds_call_cong [OF update_target_adds]
    by (auto simp: exynos_pm_qos_add_request_trace_def Let_def split: option.splits if_splits)
next
  case (qos_update req v st st')
  then show ?case using adds_call_cong [OF update_int_adds]
    by (auto simp: exynos_pm_qos_update_request_def split: option.splits if_splits)
next
  case (qos_update_timeout req v t st st')
  then show ?case using adds_call_cong [OF update_target_adds]
    by (auto simp: exynos_pm_qos_update_request_timeout_def Let_def split: option.splits if_splits)
next
  case (qos_remove req st st')
  then show ?case using adds_call_cong [OF update_target_adds]
    by (auto simp: exynos_pm_qos_remove_request_def Let_def split: option.splits if_splits)
next
  case (qos_timeout st r st')
  then show ?case using adds_call_cong [OF update_int_adds]
    by (auto simp: exynos_pm_qos_work_fn_def)
qed

subsection \<open>Callers that wait for each other\<close>

abbreviation of_class :: "nat \<Rightarrow> (nat \<times> s32) list \<Rightarrow> (nat \<times> s32) list" where
  "of_class i \<equiv> filter (\<lambda>e. fst e = i)"

lemma seen_of_class: "seen (of_class i es) i = seen es i"
  by (simp add: seen_def)

text \<open>One call of a class is due at most, and the calls arrive in the order of the updates.\<close>

lemma serial_order:
  assumes "qos_runs True r"
  shows "of_class i (told r @ due r) = of_class i (decided (qos r)) \<and> length (of_class i (due r)) \<le> 1"
  using assms
proof (induction rule: qos_runs.induct)
  case run_start
  then show ?case by (simp add: init_pm_qos_def)
next
  case (run_update r q new)
  have new: "length new \<le> 1" using step_adds [OF run_update(2)] run_update(3) by (auto simp: adds_call_def)
  have "of_class i new = [] \<or> of_class i (due r) = []" using run_update(4) by (auto simp: filter_empty_conv)
  moreover have "length (of_class i new) \<le> 1" using new length_filter_le [of "\<lambda>e. fst e = i" new] by linarith
  ultimately show ?case using run_update(3,5) by auto
next
  case (run_call r xs e ys)
  then show ?case by (cases "of_class i xs"; cases "of_class i ys") (auto split: if_splits)
qed

text \<open>
  C2. Watchers are told every change when the callers of a class wait for each other: in every run in which no update
  of a class comes while a call of its watchers is due, once no call is due the value with which the notifier chain
  was called last, or 0 if it never was, is the aggregate of the requests of the class.
\<close>

theorem qos_watchers_up_to_date:
  assumes "qos_runs True r" and "class_constraints (qos r) cls = Some c" and "\<forall>e \<in> set (due r). fst e \<noteq> nat cls"
  shows "seen (told r) (nat cls) = exynos_pm_qos_get_value (qos_nodes (qos r)) c"
proof -
  have "of_class (nat cls) (due r) = []" using assms(3) by (simp add: filter_empty_conv)
  then have "of_class (nat cls) (told r) = of_class (nat cls) (decided (qos r))"
    using serial_order [OF assms(1), of "nat cls"] by simp
  then have "seen (told r) (nat cls) = seen (decided (qos r)) (nat cls)" by (metis seen_of_class)
  then show ?thesis using class_lookup(4) [OF qos_inv_reachable [OF run_reachable [OF assms(1)]] assms(2)] by simp
qed

subsection \<open>A race\<close>

lemma single_request:
  assumes inv: "qos_inv st" and c: "class_constraints st cls = Some c" and one: "{n. req_class st n = cls} = {r}"
  shows "exynos_pm_qos_get_value (qos_nodes st) c = prio (qos_nodes st) r"
proof -
  have r: "req_class st r = cls" using one by blast
  have "set (c_list c) = {r}" using class_lookup(1,2) [OF inv c] one by (simp add: class_ok_def)
  then have t: "target_value c = exynos_pm_qos_get_value (qos_nodes st) c" using class_lookup(1) [OF inv c] by (auto simp: class_ok_def)
  have "sint (target_value c) = sint (prio (qos_nodes st) r)" using class_aggregate [OF inv c r] unfolding one by simp
  then show ?thesis using t by (simp add: signed_word_eqI)
qed

text \<open>The request of 100 on class 2, and its change to 50.\<close>

lemma sample_single:
  assumes "qos_inv q" and "req_class q = req_class qos_sample"
  obtains c where "class_constraints q 2 = Some c" "exynos_pm_qos_get_value (qos_nodes q) c = prio (qos_nodes q) 7"
proof -
  have v: "valid_class 2" by (simp add: valid_class_def)
  obtain c where c: "class_constraints q 2 = Some c" by (rule lists_ok_class [OF qos_invD(1) [OF assms(1)] v])
  have "{n. req_class q n = 2} = {7}" by (simp add: assms(2) qos_sample_state)
  then show thesis using that [OF c] single_request [OF assms(1) c] by simp
qed

lemma sample_first: "qos_step init_pm_qos qos_sample" "decided qos_sample = [(2, 100)]"
proof -
  note inv = qos_inv_reachable [OF qos_sample_reachable]
  show s: "qos_step init_pm_qos qos_sample" by (rule qos_add [OF _ qos_sample_run]) (simp add: valid_class_def)
  obtain c where c: "class_constraints qos_sample 2 = Some c" "exynos_pm_qos_get_value (qos_nodes qos_sample) c = 100"
    using sample_single [OF inv refl] by (metis qos_sample_state(2))
  obtain new where new: "decided qos_sample = new" "length new \<le> 1" using step_adds [OF s] by (auto simp: adds_call_def init_pm_qos_def)
  have "seen new 2 = 100" using class_lookup(4) [OF inv c(1)] c(2) new(1) by simp
  then show "decided qos_sample = [(2, 100)]" using new by (cases new) (auto simp: seen_def split: if_splits)
qed



theorem qos_watchers_up_to_date_witness:
  "\<exists>r c. qos_runs True r \<and> class_constraints (qos r) 2 = Some c \<and> seen (told r) 2 = exynos_pm_qos_get_value (qos_nodes (qos r)) c \<and> told r = [(2, 100)]"
proof -
  obtain c where c: "class_constraints qos_sample 2 = Some c" using sample_single [OF qos_inv_reachable [OF qos_sample_reachable] refl] by blast
  have "qos_runs True \<lparr>qos = qos_sample, due = [(2, 100)], told = []\<rparr>"
    using run_update [OF run_start [of True], of qos_sample "[(2, 100)]"] sample_first by (simp add: init_pm_qos_def)
  then have r: "qos_runs True \<lparr>qos = qos_sample, due = [], told = [(2, 100)]\<rparr>" using run_call [of True _ "[]" "(2, 100)" "[]"] by fastforce
  then show ?thesis using qos_watchers_up_to_date [OF r, of 2 c] c by (intro exI conjI) auto
qed

end
