(* ===== verification/GVotable.thy ===== *)
theory GVotable
  imports Prelude
begin

text \<open>
  The election library of \<^verbatim>\<open>drivers/misc/gvotable.c\<close>. Drivers cast votes on a shared
  resource under a reason; the library keeps the ballots in the order of the election's
  comparator, elects the first enabled one (or the default) and tells the owner through a
  callback.

  A vote is the 64-bit \<^verbatim>\<open>void *\<close> of the code: the value itself or, for votes that do not
  fit, the address of a block the library allocates and copies into. The ballots are the
  entries of \<open>votes\<close>, first to last. \<open>heap\<close> maps the address of a block to its bytes; the
  addresses \<^verbatim>\<open>kzalloc\<close> is going to return are the list \<open>allocs\<close> (0, or the end of the
  list, is a failed allocation), and \<open>freed\<close> is the log of \<^verbatim>\<open>kfree\<close>.
  The two mutexes of an election are flags; taking a held one never returns, which is the
  outcome \<open>Blocked\<close>. \<open>b_addr\<close> is the address of a ballot. \<open>cb_log\<close> is a ghost field: the calls made to the election's callback,
  latest first.

  \<^verbatim>\<open>full_name_hash\<close> and the clients' callbacks are parameters. A callback may set the result
  of its election, as the code allows for elections without a comparator: what it returns is
  the list of the \<^verbatim>\<open>gvotable_election_set_result\<close> calls it makes and its return value.
\<close>

named_theorems gv_defs \<open>definitions of the internal routines\<close>

subsection \<open>Data\<close>

record ballot =
  b_addr :: ptr
  b_enabled :: bool
  b_reason_hash :: u32
  b_reason :: string
  b_idx :: u32
  b_vote :: "nat \<Rightarrow> ptr"
  b_vote_size :: s32
  b_num_votes :: u32

datatype comparator =
    gvotable_comparator_uint_max
  | gvotable_comparator_int
  | gvotable_comparator_int_max
  | gvotable_comparator_int_min
  | gvotable_comparator_uint_min
  | gvotable_comparator_most_recent
  | gvotable_comparator_least_recent
  | gvotable_comparator_bool
  | gvotable_comparator_none
  | client_comparator "(ptr \<Rightarrow> u8 list) \<Rightarrow> ptr \<Rightarrow> ptr \<Rightarrow> int"

type_synonym gvotable_v2sfn_t = "nat \<Rightarrow> ptr \<Rightarrow> string"

record gvotable_election =
  hash :: u32
  vote_size :: s32
  use_alloc :: bool
  name :: string
  has_name :: bool
  cb_lock :: bool
  re_lock :: bool
  owner :: ptr
  result :: ptr
  reason :: string
  result_is_valid :: bool
  data :: ptr
  callback :: ptr
  cmp :: comparator
  auto_callback :: bool
  default_vote :: ptr
  has_default_vote :: int
  force_result :: ptr
  force_result_is_enabled :: bool
  votes :: "ballot list"
  num_voters :: u32
  num_votes :: u32
  vote2str :: "gvotable_v2sfn_t option"
  is_int_type :: bool
  is_bool_type :: bool
  disable_force_int_entry :: bool
  cb_log :: "(string option \<times> ptr) list"

record election_slot =
  slot_el :: ptr
  slot_de :: bool

record gvs =
  heap :: "ptr \<Rightarrow> u8 list"
  allocs :: "ptr list"
  freed :: "ptr list"
  elections :: "ptr \<Rightarrow> gvotable_election option"
  gvotables :: "election_slot list"
  debugfs_root :: bool
  debugfs_files :: "(string \<times> string) list"

record gv_params =
  full_name_hash :: "string \<Rightarrow> u32"
  client_callback :: "ptr \<Rightarrow> gvotable_election \<Rightarrow> string option \<Rightarrow> ptr \<Rightarrow> (string option \<times> ptr) list \<times> int"

datatype gv_stop = Blocked | Fault

abbreviation (input) VOTES_HISTORY_DEPTH :: u32 where "VOTES_HISTORY_DEPTH \<equiv> 1"
abbreviation (input) MAX_NAME_LEN :: nat where "MAX_NAME_LEN \<equiv> 16"
abbreviation (input) GVOTABLE_MAX_REASON_LEN :: nat where "GVOTABLE_MAX_REASON_LEN \<equiv> 32"
abbreviation DEBUGFS_CAST_VOTE_REASON :: string where "DEBUGFS_CAST_VOTE_REASON \<equiv> ''DEBUGFS''"
abbreviation DEBUGFS_FORCE_VOTE_REASON :: string where
  "DEBUGFS_FORCE_VOTE_REASON \<equiv> ''DEBUGFS_FORCE''"
abbreviation default_reason :: string where "default_reason \<equiv> ''Default''"

text \<open>The vote a ballot stands for, \<^verbatim>\<open>ballot->vote[ballot->idx]\<close>.\<close>

abbreviation cur_vote :: "ballot \<Rightarrow> ptr" where "cur_vote b \<equiv> b_vote b (unat (b_idx b))"

subsection \<open>Memory\<close>

definition kzalloc :: "nat \<Rightarrow> gvs \<Rightarrow> ptr \<times> gvs" where
  "kzalloc n w =
     (case allocs w of
        [] \<Rightarrow> (0, w)
      | p # ps \<Rightarrow>
          (p, w\<lparr>allocs := ps, heap := (if p = 0 then heap w else (heap w)(p := replicate n 0))\<rparr>))"

definition kfree :: "ptr \<Rightarrow> gvs \<Rightarrow> gvs" where
  "kfree p w = (if p = 0 then w else w\<lparr>freed := p # freed w\<rparr>)"

definition memcpy :: "ptr \<Rightarrow> ptr \<Rightarrow> nat \<Rightarrow> gvs \<Rightarrow> gvs" where
  "memcpy d s n w =
     w\<lparr>heap := (heap w)(d := take n (heap w s) @ drop n (heap w d))\<rparr>"

text \<open>An \<^verbatim>\<open>int\<close> size converted to \<^verbatim>\<open>size_t\<close>.\<close>

definition size_of_int :: "s32 \<Rightarrow> nat" where
  "size_of_int n = unat (scast n :: u64)"

definition gvotable_needs_alloc :: "s32 \<Rightarrow> bool" where
  "gvotable_needs_alloc vsize \<longleftrightarrow> 8 < size_of_int vsize"

subsection \<open>Comparators\<close>

text \<open>
  \<^verbatim>\<open>*((int *)&l)\<close> reads the low 32 bits of the pointer.
\<close>

definition cmp_uint_max :: "ptr \<Rightarrow> ptr \<Rightarrow> int" where
  "cmp_uint_max l r =
     (let a = (ucast l :: u32); b = (ucast r :: u32)
      in if a > b then 1 else if a < b then -1 else 0)"

definition cmp_int :: "ptr \<Rightarrow> ptr \<Rightarrow> int" where
  "cmp_int l r =
     (let a = sint (ucast l :: s32); b = sint (ucast r :: s32)
      in if a > b then 1 else if a < b then -1 else 0)"

fun el_cmp :: "(ptr \<Rightarrow> u8 list) \<Rightarrow> comparator \<Rightarrow> ptr \<Rightarrow> ptr \<Rightarrow> int" where
  "el_cmp hp gvotable_comparator_uint_max a b = cmp_uint_max a b"
| "el_cmp hp gvotable_comparator_int a b = cmp_int a b"
| "el_cmp hp gvotable_comparator_int_max a b = - cmp_int a b"
| "el_cmp hp gvotable_comparator_int_min a b = cmp_int a b"
| "el_cmp hp gvotable_comparator_uint_min a b = - cmp_uint_max a b"
| "el_cmp hp gvotable_comparator_most_recent a b = -1"
| "el_cmp hp gvotable_comparator_least_recent a b = 1"
| "el_cmp hp gvotable_comparator_bool a b = -1"
| "el_cmp hp gvotable_comparator_none a b = -1"
| "el_cmp hp (client_comparator f) a b = f hp a b"

subsection \<open>Locks\<close>

definition gvotable_lock_result :: "gvotable_election \<Rightarrow> gv_stop + gvotable_election" where
  "gvotable_lock_result e = (if re_lock e then Inl Blocked else Inr (e\<lparr>re_lock := True\<rparr>))"

definition gvotable_unlock_result :: "gvotable_election \<Rightarrow> gvotable_election" where
  "gvotable_unlock_result e = e\<lparr>re_lock := False\<rparr>"

definition gvotable_lock_election :: "ptr \<Rightarrow> gvotable_election \<Rightarrow> gv_stop + gvotable_election" where
  "gvotable_lock_election me e =
     (let ret = \<not> cb_lock e;
          e1 = e\<lparr>cb_lock := True\<rparr>
      in if \<not> ret \<and> owner e1 = me then Inl Blocked
         else gvotable_lock_result (e1\<lparr>owner := me\<rparr>))"

definition gvotable_unlock_callback :: "gvotable_election \<Rightarrow> gvotable_election" where
  "gvotable_unlock_callback e = e\<lparr>cb_lock := False\<rparr>"

definition gvotable_unlock_election :: "gvotable_election \<Rightarrow> gvotable_election" where
  "gvotable_unlock_election e = e\<lparr>re_lock := False, cb_lock := False\<rparr>"

subsection \<open>The election\<close>

definition gvotable_internal_hash :: "gv_params \<Rightarrow> string \<Rightarrow> u32" where
  "gvotable_internal_hash P str = full_name_hash P str"

definition gvotable_internal_update_reason ::
  "gvotable_election \<Rightarrow> string \<Rightarrow> gvotable_election" where
  "gvotable_internal_update_reason e new_reason =
     e\<lparr>reason := strlcpy GVOTABLE_MAX_REASON_LEN new_reason\<rparr>"

text \<open>What \<^verbatim>\<open>*result\<close> is after the copy, and the memory.\<close>

definition gvotable_internal_copy_result ::
  "gvs \<Rightarrow> gvotable_election \<Rightarrow> ptr \<Rightarrow> ptr \<Rightarrow> gvs \<times> ptr" where
  "gvotable_internal_copy_result w e res new_result =
     (if use_alloc e then (memcpy res new_result (size_of_int (vote_size e)) w, res)
      else (w, new_result))"

definition gvotable_internal_update_result ::
  "gvs \<Rightarrow> gvotable_election \<Rightarrow> ptr \<Rightarrow> gvs \<times> gvotable_election" where
  "gvotable_internal_update_result w e new_result =
     (let (w1, res) = gvotable_internal_copy_result w e (result e) new_result
      in (w1, e\<lparr>result := res, result_is_valid := True\<rparr>))"

text \<open>
  The update both branches of the election share: take over the reason \<open>r\<close> and, when the
  reason or the value changed, the new result.
\<close>

definition gvotable_take_result ::
  "gvs \<Rightarrow> gvotable_election \<Rightarrow> string \<Rightarrow> ptr \<Rightarrow> ptr \<Rightarrow> gvs \<times> gvotable_election \<times> bool" where
  "gvotable_take_result w e r v new_result =
     (let (e1, req) =
            (if \<not> result_is_valid e \<or> \<not> strncmp_eq GVOTABLE_MAX_REASON_LEN (reason e) r
             then (gvotable_internal_update_reason e r, auto_callback e)
             else (e, False));
          (w2, e2, req2) =
            (if req \<or> el_cmp (heap w) (cmp e1) (result e1) v \<noteq> 0
             then (let (w2, e2) = gvotable_internal_update_result w e1 new_result
                   in (w2, e2, auto_callback e2))
             else (w, e1, req))
      in (w2, e2\<lparr>result_is_valid := True\<rparr>, req2))"

definition gvotable_internal_run_election ::
  "gvs \<Rightarrow> gvotable_election \<Rightarrow> gvs \<times> gvotable_election \<times> bool" where
  "gvotable_internal_run_election w e =
     (if force_result_is_enabled e then (w, e, False)
      else
        let (w1, e1, callback_required) =
          (case find b_enabled (votes e) of
             Some b \<Rightarrow>
               gvotable_take_result w e (b_reason b) (cur_vote b)
                 (if is_bool_type e then 1 else cur_vote b)
           | None \<Rightarrow>
               if has_default_vote e = 1
               then gvotable_take_result w e default_reason (default_vote e) (default_vote e)
               else (w, e\<lparr>result_is_valid := False, reason := []\<rparr>,
                     result_is_valid e \<and> auto_callback e))
        in (w1, e1, callback_required \<and> callback e1 \<noteq> 0))"

text \<open>The position of the ballot found, the first whose stored reason matches.\<close>

fun ballot_position :: "(ballot \<Rightarrow> bool) \<Rightarrow> ballot list \<Rightarrow> nat option" where
  "ballot_position p [] = None"
| "ballot_position p (b # bs) =
     (if p b then Some 0 else map_option Suc (ballot_position p bs))"

definition gvotable_ballot_find_internal ::
  "gv_params \<Rightarrow> gvotable_election \<Rightarrow> string \<Rightarrow> nat option" where
  "gvotable_ballot_find_internal P e rsn =
     (let reason_hash = gvotable_internal_hash P rsn
      in ballot_position
           (\<lambda>b. reason_hash = b_reason_hash b \<and>
                strncmp_eq GVOTABLE_MAX_REASON_LEN (b_reason b) rsn) (votes e))"

definition gvotable_election_set_result ::
  "gvs \<Rightarrow> gvotable_election \<Rightarrow> string option \<Rightarrow> ptr \<Rightarrow> gvs \<times> gvotable_election \<times> int" where
  "gvotable_election_set_result w e rsn res =
     (case rsn of
        None \<Rightarrow> (w, e, - EINVAL)
      | Some r \<Rightarrow>
          if r = [] then (w, e, - EINVAL)
          else if use_alloc e \<and> res = 0 then (w, e, - EINVAL)
          else if cmp e \<noteq> gvotable_comparator_none then (w, e, - EINVAL)
          else
            let (w1, e1) =
              gvotable_internal_update_result w (gvotable_internal_update_reason e r) res
            in (w1, e1, 0))"

text \<open>A call of the callback: it is logged, and sets the result as often as the client does.\<close>

fun callback_results ::
  "gvs \<Rightarrow> gvotable_election \<Rightarrow> (string option \<times> ptr) list \<Rightarrow> gvs \<times> gvotable_election" where
  "callback_results w e [] = (w, e)"
| "callback_results w e ((r, v) # rs) =
     (let (w1, e1, _) = gvotable_election_set_result w e r v in callback_results w1 e1 rs)"

definition el_callback ::
  "gv_params \<Rightarrow> gvs \<Rightarrow> gvotable_election \<Rightarrow> string option \<Rightarrow> ptr \<Rightarrow> gvs \<times> gvotable_election \<times> int" where
  "el_callback P w e r v =
     (let (sets, ret) = client_callback P (callback e) e r v;
          (w1, e1) = callback_results w (e\<lparr>cb_log := (r, v) # cb_log e\<rparr>) sets
      in (w1, e1, ret))"

definition gvotable_run_callback ::
  "gv_params \<Rightarrow> gvs \<Rightarrow> gvotable_election \<Rightarrow> gvs \<times> gvotable_election \<times> int" where
  "gvotable_run_callback P w e =
     (if result_is_valid e then el_callback P w e (Some (reason e)) (result e)
      else el_callback P w e None 0)"

text \<open>
  How the operations that change votes end: run the election, release the result, call back
  when the election asks for it, release the callback lock.
\<close>

definition gvotable_run_and_unlock ::
  "gv_params \<Rightarrow> gvs \<Rightarrow> gvotable_election \<Rightarrow> int \<Rightarrow> gvs \<times> gvotable_election \<times> int" where
  "gvotable_run_and_unlock P w e ret =
     (let (w1, e1, run) = gvotable_internal_run_election w e;
          (w2, e2, ret2) =
            (if run then gvotable_run_callback P w1 (gvotable_unlock_result e1)
             else (w1, gvotable_unlock_result e1, ret))
      in (w2, gvotable_unlock_callback e2, ret2))"

lemmas lock_defs [gv_defs] =
  gvotable_lock_result_def gvotable_unlock_result_def gvotable_lock_election_def
  gvotable_unlock_callback_def gvotable_unlock_election_def

subsection \<open>Ballots\<close>

definition gvotable_update_ballot ::
  "gvs \<Rightarrow> ballot \<Rightarrow> ptr \<Rightarrow> bool \<Rightarrow> gvs \<times> ballot \<times> int" where
  "gvotable_update_ballot w b v en =
     (let i = (b_idx b + 1) mod VOTES_HISTORY_DEPTH;
          b1 = b\<lparr>b_enabled := en\<rparr>
      in if b_vote_size b = 0
         then (w, b1\<lparr>b_vote := (b_vote b1)(unat i := v), b_idx := i,
                     b_num_votes := b_num_votes b1 + 1\<rparr>, 0)
         else
           let (w1, b2) =
             (if b_vote b1 (unat i) = 0
              then (let (p, w1) = kzalloc (size_of_int (b_vote_size b)) w
                    in (w1, b1\<lparr>b_vote := (b_vote b1)(unat i := p)\<rparr>))
              else (w, b1))
           in if b_vote b2 (unat i) = 0 then (w1, b2, - ENOMEM)
              else (memcpy (b_vote b2 (unat i)) v (size_of_int (b_vote_size b)) w1,
                    b2\<lparr>b_idx := i, b_num_votes := b_num_votes b2 + 1\<rparr>, 0))"

text \<open>
  The scan of \<^verbatim>\<open>gvotable_add_ballot\<close>: \<open>Some\<close> the list with the ballot put before the first
  one it beats, \<open>None\<close> when it beats none.
\<close>

fun add_before_first :: "(ptr \<Rightarrow> ptr \<Rightarrow> int) \<Rightarrow> ballot \<Rightarrow> ballot list \<Rightarrow> ballot list option" where
  "add_before_first c b [] = None"
| "add_before_first c b (t # ts) =
     (if c (cur_vote b) (cur_vote t) < 0 then Some (b # t # ts)
      else map_option ((#) t) (add_before_first c b ts))"

definition gvotable_add_ballot ::
  "gvs \<Rightarrow> gvotable_election \<Rightarrow> ballot \<Rightarrow> bool \<Rightarrow> gvotable_election" where
  "gvotable_add_ballot w e b en =
     (if votes e = [] then e\<lparr>votes := [b]\<rparr>
      else
        case (if en then add_before_first (el_cmp (heap w) (cmp e)) b (votes e) else None) of
          Some bs \<Rightarrow> e\<lparr>votes := bs\<rparr>
        | None \<Rightarrow> e\<lparr>votes := votes e @ [b], num_votes := num_votes e + 1\<rparr>)"

definition remove_nth :: "nat \<Rightarrow> 'a list \<Rightarrow> 'a list" where
  "remove_nth i xs = take i xs @ drop (Suc i) xs"

definition gvotable_recast_ballot ::
  "gv_params \<Rightarrow> ptr \<Rightarrow> gvs \<Rightarrow> gvotable_election \<Rightarrow> string \<Rightarrow> bool \<Rightarrow>
     gv_stop + gvs \<times> gvotable_election \<times> int" where
  "gvotable_recast_ballot P me w e0 rsn en =
     (case gvotable_lock_election me e0 of
        Inl s \<Rightarrow> Inl s
      | Inr e \<Rightarrow>
          case gvotable_ballot_find_internal P e rsn of
            None \<Rightarrow> Inr (w, gvotable_unlock_election e, - EINVAL)
          | Some i \<Rightarrow>
              let b = votes e ! i;
                  e1 = e\<lparr>votes := remove_nth i (votes e)\<rparr>;
                  (w1, b1, ret) = gvotable_update_ballot w b (cur_vote b) en
              in if ret < 0 then Inr (w1, gvotable_unlock_election e1, ret)
                 else Inr (gvotable_run_and_unlock P w1 (gvotable_add_ballot w1 e1 b1 en) ret))"

definition new_ballot :: "gv_params \<Rightarrow> gvotable_election \<Rightarrow> ptr \<Rightarrow> string \<Rightarrow> ballot" where
  "new_ballot P e p rsn =
     \<lparr>b_addr = p, b_enabled = False, b_reason_hash = gvotable_internal_hash P rsn,
      b_reason = strlcpy GVOTABLE_MAX_REASON_LEN rsn, b_idx = 0, b_vote = (\<lambda>_. 0),
      b_vote_size = (if use_alloc e then vote_size e else 0), b_num_votes = 0\<rparr>"

text \<open>
  \<^verbatim>\<open>sizeof(struct ballot)\<close> of a new ballot does not matter: only whether its allocation
  succeeds does. An existing ballot is taken out of the list when it is enabled and updated in
  place otherwise.
\<close>

definition gvotable_cast_vote ::
  "gv_params \<Rightarrow> ptr \<Rightarrow> gvs \<Rightarrow> gvotable_election \<Rightarrow> string option \<Rightarrow> ptr \<Rightarrow> bool \<Rightarrow>
     gv_stop + gvs \<times> gvotable_election \<times> int" where
  "gvotable_cast_vote P me w e0 rsn vote0 en =
     (case rsn of None \<Rightarrow> Inr (w, e0, - EINVAL) | Some r \<Rightarrow>
      if r = [] then Inr (w, e0, - EINVAL)
      else if use_alloc e0 \<and> vote0 = 0 then Inr (w, e0, - EINVAL)
      else
        case gvotable_lock_election me e0 of
          Inl s \<Rightarrow> Inl s
        | Inr e \<Rightarrow>
          let v = (if is_bool_type e then (if en then 1 else 0) else vote0)
          in case gvotable_ballot_find_internal P e r of
            None \<Rightarrow>
              let (p, w1) = kzalloc 0 w
              in if p = 0 then Inr (w1, gvotable_unlock_election e, - ENOMEM)
                 else
                   let e1 = e\<lparr>num_voters := num_voters e + 1\<rparr>;
                       (w2, b1, ret) = gvotable_update_ballot w1 (new_ballot P e p r) v en
                   in if ret < 0
                      then Inr (kfree p w2, gvotable_unlock_election e1, ret)
                      else Inr (gvotable_run_and_unlock P w2 (gvotable_add_ballot w2 e1 b1 en) ret)
          | Some i \<Rightarrow>
              let e1 = (if en then e\<lparr>votes := remove_nth i (votes e)\<rparr> else e);
                  (w2, b1, ret) = gvotable_update_ballot w (votes e ! i) v en;
                  e2 = (if en then e1 else e1\<lparr>votes := (votes e1)[i := b1]\<rparr>)
              in if ret < 0 then Inr (w2, gvotable_unlock_election e2, ret)
                 else Inr (gvotable_run_and_unlock P w2
                             (if en then gvotable_add_ballot w2 e2 b1 en else e2) ret))"

subsection \<open>Default, result and per-reason queries\<close>

text \<open>
  The result lock is released only on two of the three paths: when the default changed and the
  election asks for no callback it stays held.
\<close>

definition gvotable_set_default ::
  "gv_params \<Rightarrow> ptr \<Rightarrow> gvs \<Rightarrow> gvotable_election \<Rightarrow> ptr \<Rightarrow>
     gv_stop + gvs \<times> gvotable_election \<times> int" where
  "gvotable_set_default P me w e0 default_val =
     (if is_bool_type e0 then Inr (w, e0, - EINVAL)
      else
        case gvotable_lock_election me e0 of
          Inl s \<Rightarrow> Inl s
        | Inr e \<Rightarrow>
          let changed = (has_default_vote e = 1 \<and> default_vote e \<noteq> default_val);
              e1 = e\<lparr>default_vote := default_val\<rparr>;
              (w2, e2, ret) =
                (if changed
                 then (let (w2, e2, run) = gvotable_internal_run_election w e1
                       in if run then gvotable_run_callback P w2 (gvotable_unlock_result e2)
                          else (w2, e2, 0))
                 else (w, gvotable_unlock_result e1, 0))
          in Inr (w2, gvotable_unlock_callback (e2\<lparr>has_default_vote := 1\<rparr>), ret))"

text \<open>The value \<^verbatim>\<open>*result\<close> holds afterwards is the last component.\<close>

definition gvotable_get_default ::
  "ptr \<Rightarrow> gvs \<Rightarrow> gvotable_election \<Rightarrow> ptr \<Rightarrow> gv_stop + gvs \<times> gvotable_election \<times> int \<times> ptr" where
  "gvotable_get_default me w e0 res =
     (if has_default_vote e0 = 0 then Inr (w, e0, - EINVAL, res)
      else
        case gvotable_lock_election me e0 of
          Inl s \<Rightarrow> Inl s
        | Inr e \<Rightarrow>
          let (w1, res1) = gvotable_internal_copy_result w e res (default_vote e)
          in Inr (w1, gvotable_unlock_election e, 0, res1))"

definition gvotable_use_default ::
  "gv_params \<Rightarrow> ptr \<Rightarrow> gvs \<Rightarrow> gvotable_election \<Rightarrow> bool \<Rightarrow>
     gv_stop + gvs \<times> gvotable_election \<times> int" where
  "gvotable_use_default P me w e0 default_is_enabled =
     (if is_bool_type e0 then Inr (w, e0, - EINVAL)
      else
        case gvotable_lock_election me e0 of
          Inl s \<Rightarrow> Inl s
        | Inr e \<Rightarrow>
          Inr (gvotable_run_and_unlock P w
                 (e\<lparr>has_default_vote := (if default_is_enabled then 1 else 0)\<rparr>) 0))"

definition gvotable_run_election ::
  "gv_params \<Rightarrow> ptr \<Rightarrow> gvs \<Rightarrow> gvotable_election \<Rightarrow> bool \<Rightarrow>
     gv_stop + gvs \<times> gvotable_election \<times> int" where
  "gvotable_run_election P me w e0 force_callback =
     (case gvotable_lock_election me e0 of
        Inl s \<Rightarrow> Inl s
      | Inr e \<Rightarrow>
        let (w1, e1, run) = gvotable_internal_run_election w e;
            e2 = gvotable_unlock_result e1;
            (w3, e3, ret) =
              (if callback e2 = 0 then (w1, e2, 0)
               else if force_result_is_enabled e2
               then el_callback P w1 e2 (Some DEBUGFS_FORCE_VOTE_REASON) (force_result e2)
               else if run \<or> force_callback then gvotable_run_callback P w1 e2
               else (w1, e2, 0))
        in Inr (w3, gvotable_unlock_callback e3, ret))"

text \<open>\<open>Inr\<close> the result, \<open>Inl\<close> the error.\<close>

definition gvotable_get_current_result_unlocked :: "gvotable_election \<Rightarrow> int + ptr" where
  "gvotable_get_current_result_unlocked e =
     (if force_result_is_enabled e then Inr (force_result e)
      else if result_is_valid e then Inr (result e)
      else Inl (- EAGAIN))"

text \<open>
  The queries take and release the result lock and leave the election as it was; \<open>out\<close> says
  whether the caller passed a place for the answer.
\<close>

definition gvotable_get_current_vote ::
  "gvotable_election \<Rightarrow> bool \<Rightarrow> gv_stop + int + ptr" where
  "gvotable_get_current_vote e out =
     (if \<not> out then Inr (Inl (- EINVAL))
      else case gvotable_lock_result e of
             Inl s \<Rightarrow> Inl s
           | Inr e1 \<Rightarrow> Inr (gvotable_get_current_result_unlocked e1))"

text \<open>The pointer is returned as an \<^verbatim>\<open>int\<close>: its low 32 bits.\<close>

definition gvotable_get_current_int_vote :: "gvotable_election \<Rightarrow> gv_stop + int" where
  "gvotable_get_current_int_vote e =
     (case gvotable_get_current_vote e True of
        Inl s \<Rightarrow> Inl s
      | Inr (Inl err) \<Rightarrow> Inr err
      | Inr (Inr p) \<Rightarrow> Inr (sint (ucast p :: s32)))"

definition gvotable_copy_current_result ::
  "gvs \<Rightarrow> gvotable_election \<Rightarrow> ptr \<Rightarrow> s32 \<Rightarrow> gv_stop + gvs \<times> int" where
  "gvotable_copy_current_result w e vote vsize =
     (if vote = 0 then Inr (w, - EINVAL)
      else if vsize \<noteq> vote_size e then Inr (w, - ERANGE)
      else case gvotable_lock_result e of
             Inl s \<Rightarrow> Inl s
           | Inr e1 \<Rightarrow>
               case gvotable_get_current_result_unlocked e1 of
                 Inl err \<Rightarrow> Inr (w, err)
               | Inr tmp \<Rightarrow> Inr (memcpy vote tmp (size_of_int vsize) w, 0))"

text \<open>\<open>Inr\<close> the text the caller's buffer holds and the length \<^verbatim>\<open>strlcpy\<close> returns.\<close>

definition gvotable_get_current_reason_unlocked ::
  "gvotable_election \<Rightarrow> nat \<Rightarrow> int + string \<times> nat" where
  "gvotable_get_current_reason_unlocked e max_len =
     (if force_result_is_enabled e
      then Inr (strlcpy max_len DEBUGFS_FORCE_VOTE_REASON, length DEBUGFS_FORCE_VOTE_REASON)
      else if result_is_valid e then Inr (strlcpy max_len (reason e), length (reason e))
      else Inl (- EAGAIN))"

definition gvotable_get_current_reason ::
  "gvotable_election \<Rightarrow> bool \<Rightarrow> nat \<Rightarrow> gv_stop + int + string \<times> nat" where
  "gvotable_get_current_reason e out max_len =
     (if \<not> out then Inr (Inl (- EINVAL))
      else case gvotable_lock_result e of
             Inl s \<Rightarrow> Inl s
           | Inr e1 \<Rightarrow> Inr (gvotable_get_current_reason_unlocked e1 max_len))"

text \<open>The return value and what is stored through \<^verbatim>\<open>vote\<close>, when anything is.\<close>

definition gvotable_get_vote ::
  "gv_params \<Rightarrow> gvotable_election \<Rightarrow> string option \<Rightarrow> bool \<Rightarrow> gv_stop + int \<times> ptr option" where
  "gvotable_get_vote P e rsn out =
     (case rsn of None \<Rightarrow> Inr (- EINVAL, None) | Some r \<Rightarrow>
      if \<not> out then Inr (- EINVAL, None)
      else case gvotable_lock_result e of
             Inl s \<Rightarrow> Inl s
           | Inr e1 \<Rightarrow>
               case gvotable_ballot_find_internal P e1 r of
                 None \<Rightarrow> Inr (if is_bool_type e1 then 0 else - ENODEV, Some 0)
               | Some i \<Rightarrow>
                   let b = votes e1 ! i
                   in if \<not> is_bool_type e1 \<and> \<not> b_enabled b then Inr (- EINVAL, None)
                      else Inr (0, Some (cur_vote b)))"

definition gvotable_get_int_vote ::
  "gv_params \<Rightarrow> gvotable_election \<Rightarrow> string option \<Rightarrow> gv_stop + int" where
  "gvotable_get_int_vote P e rsn =
     (case gvotable_get_vote P e rsn True of
        Inl s \<Rightarrow> Inl s
      | Inr (ret, v) \<Rightarrow>
          Inr (if ret \<noteq> 0 then ret else sint (ucast (case v of Some p \<Rightarrow> p | None \<Rightarrow> 0) :: s32)))"

definition gvotable_is_enabled ::
  "gv_params \<Rightarrow> gvotable_election \<Rightarrow> string option \<Rightarrow> bool \<Rightarrow> gv_stop + int + bool" where
  "gvotable_is_enabled P e rsn out =
     (case rsn of None \<Rightarrow> Inr (Inl (- EINVAL)) | Some r \<Rightarrow>
      if \<not> out then Inr (Inl (- EINVAL))
      else case gvotable_lock_result e of
             Inl s \<Rightarrow> Inl s
           | Inr e1 \<Rightarrow>
               case gvotable_ballot_find_internal P e1 r of
                 None \<Rightarrow> Inr (Inl (- ENODEV))
               | Some i \<Rightarrow> Inr (Inr (b_enabled (votes e1 ! i))))"

text \<open>
  \<^verbatim>\<open>gvotable_election_for_each\<close>: the client's function \<open>f\<close> threads its data \<open>d\<close>; a negative
  return ends the iteration.
\<close>

fun for_each_ballot ::
  "('d \<Rightarrow> string \<Rightarrow> ptr \<Rightarrow> 'd \<times> int) \<Rightarrow> 'd \<Rightarrow> ballot list \<Rightarrow> int \<Rightarrow> 'd \<times> int" where
  "for_each_ballot f d [] ret = (d, ret)"
| "for_each_ballot f d (b # bs) ret =
     (if \<not> b_enabled b then for_each_ballot f d bs ret
      else
        let (d1, ret1) = f d (b_reason b) (cur_vote b)
        in if ret1 < 0 then (d1, ret1) else for_each_ballot f d1 bs ret1)"

definition gvotable_election_for_each ::
  "gvotable_election \<Rightarrow> ('d \<Rightarrow> string \<Rightarrow> ptr \<Rightarrow> 'd \<times> int) \<Rightarrow> 'd \<Rightarrow> 'd \<times> int" where
  "gvotable_election_for_each e f d =
     (if force_result_is_enabled e then f d DEBUGFS_FORCE_VOTE_REASON (force_result e)
      else for_each_ballot f d (votes e) 0)"

end
