(* ===== verification/GVotableReg.thy ===== *)
theory GVotableReg
  imports GVotable
begin

text \<open>
  The global side of the election library: the list of elections and their names, creation and
  destruction, and the debugfs files (\<^verbatim>\<open>drivers/misc/gvotable.c\<close>). An election is named by its
  address; \<open>elections\<close> maps the live ones. \<open>gvotables\<close> is the list of slots, first to last.
  \<^verbatim>\<open>gvotable_lock\<close> is taken and released by each of these operations and is not nested, so
  they are atomic here.
\<close>

subsection \<open>Slots\<close>

text \<open>A slot's election, \<^verbatim>\<open>slot->el->has_name\<close> and so on of a live election.\<close>

definition slot_named :: "gv_params \<Rightarrow> gvs \<Rightarrow> string \<Rightarrow> election_slot \<Rightarrow> bool" where
  "slot_named P w nm s =
     (case elections w (slot_el s) of
        None \<Rightarrow> False
      | Some e \<Rightarrow> gvotable_internal_hash P nm = hash e \<and> has_name e \<and>
                  strncmp_eq MAX_NAME_LEN (name e) nm)"

definition gvotable_find_internal ::
  "gv_params \<Rightarrow> gvs \<Rightarrow> string option \<Rightarrow> election_slot option" where
  "gvotable_find_internal P w nm =
     (case nm of None \<Rightarrow> None | Some n \<Rightarrow> find (slot_named P w n) (gvotables w))"

definition gvotable_find_internal_ptr :: "gvs \<Rightarrow> ptr \<Rightarrow> election_slot option" where
  "gvotable_find_internal_ptr w el = find (\<lambda>s. slot_el s = el) (gvotables w)"

definition gvotable_add_internal :: "election_slot \<Rightarrow> gvs \<Rightarrow> gvs" where
  "gvotable_add_internal s w = w\<lparr>gvotables := s # gvotables w\<rparr>"

text \<open>Slots are told apart by their election: no two slots share one.\<close>

definition gvotable_delete_internal :: "election_slot \<Rightarrow> gvs \<Rightarrow> gvs" where
  "gvotable_delete_internal s w = w\<lparr>gvotables := remove1 s (gvotables w)\<rparr>"

subsection \<open>debugfs entries\<close>

text \<open>
  The files of an election's debugfs directory, as pairs of directory and file;
  \<^verbatim>\<open>debugfs_create_dir\<close> always succeeds.
\<close>

definition gvotable_debugfs_create_el_int :: "election_slot \<Rightarrow> gvs \<Rightarrow> gvs \<times> int" where
  "gvotable_debugfs_create_el_int s w =
     (case elections w (slot_el s) of
        None \<Rightarrow> (w, - ENOENT)
      | Some e \<Rightarrow>
          if \<not> slot_de s then (w, - ENOENT)
          else
            let fs = (name e, ''cast_int_vote'') #
                     (if disable_force_int_entry e then []
                      else [(name e, ''force_int_value''), (name e, ''force_int_active'')])
            in (w\<lparr>debugfs_files := debugfs_files w @ fs\<rparr>, 0))"

definition gvotable_debugfs_create_el :: "election_slot \<Rightarrow> gvs \<Rightarrow> gvs \<times> election_slot" where
  "gvotable_debugfs_create_el s w =
     (case elections w (slot_el s) of
        None \<Rightarrow> (w, s)
      | Some e \<Rightarrow>
          if \<not> has_name e then (w, s)
          else
            let w1 = (if debugfs_root w then w
                      else w\<lparr>debugfs_root := True,
                             debugfs_files := debugfs_files w @ [(''gvotables'', ''elections'')]\<rparr>)
            in (w1\<lparr>debugfs_files := debugfs_files w1 @
                     [(name e, ''status''), (name e, ''enable_vote''), (name e, ''disable_vote'')]\<rparr>,
                s\<lparr>slot_de := True\<rparr>))"

definition gvotable_debugfs_delete_el :: "election_slot \<Rightarrow> gvs \<Rightarrow> gvs" where
  "gvotable_debugfs_delete_el s w =
     (case elections w (slot_el s) of
        None \<Rightarrow> w
      | Some e \<Rightarrow>
          if \<not> slot_de s then w
          else w\<lparr>debugfs_files := filter (\<lambda>f. fst f \<noteq> name e) (debugfs_files w)\<rparr>)"

subsection \<open>Creation and destruction\<close>

definition fresh_election :: "s32 \<Rightarrow> comparator \<Rightarrow> ptr \<Rightarrow> ptr \<Rightarrow> gvotable_election" where
  "fresh_election vsize cmp_fn callback_fn dat =
     \<lparr>hash = 0, vote_size = vsize, use_alloc = gvotable_needs_alloc vsize, name = [],
      has_name = False, cb_lock = False, re_lock = False, owner = 0, result = 0, reason = [],
      result_is_valid = False, data = dat, callback = callback_fn, cmp = cmp_fn,
      auto_callback = True, default_vote = 0, has_default_vote = -1, force_result = 0,
      force_result_is_enabled = False, votes = [], num_voters = 0, num_votes = 0,
      vote2str = None, is_int_type = False, is_bool_type = False,
      disable_force_int_entry = False, cb_log = []\<rparr>"

definition set_election :: "ptr \<Rightarrow> gvotable_election \<Rightarrow> gvs \<Rightarrow> gvs" where
  "set_election h e w = w\<lparr>elections := (elections w)(h \<mapsto> e)\<rparr>"

text \<open>
  Three allocations: the slot, the election, and the result of an election whose votes do not
  fit in a pointer. The address 0 is returned for \<^verbatim>\<open>NULL\<close>.
\<close>

definition gvotable_create_election ::
  "gv_params \<Rightarrow> gvs \<Rightarrow> string option \<Rightarrow> s32 \<Rightarrow> comparator option \<Rightarrow> ptr \<Rightarrow> ptr \<Rightarrow> gvs \<times> ptr" where
  "gvotable_create_election P w nm vsize cmp_fn callback_fn dat =
     (let c = (case cmp_fn of None \<Rightarrow> gvotable_comparator_none | Some c \<Rightarrow> c)
      in if gvotable_find_internal P w nm \<noteq> None then (w, 0)
      else
        let (slot, w1) = kzalloc 0 w
        in if slot = 0 then (w1, 0)
        else
          let (el, w2) = kzalloc 0 w1
          in if el = 0 then (kfree slot w2, 0)
          else
            let e = fresh_election vsize c callback_fn dat;
                (res, w3) = (if use_alloc e then kzalloc (size_of_int vsize) w2 else (0, w2))
            in if use_alloc e \<and> res = 0 then (kfree slot (kfree el w3), 0)
            else
              let e1 = e\<lparr>result := res\<rparr>;
                  s = \<lparr>slot_el = el, slot_de = False\<rparr>;
                  (w4, s4) =
                    (case nm of
                       None \<Rightarrow> (set_election el e1 w3, s)
                     | Some n \<Rightarrow>
                         gvotable_debugfs_create_el s
                           (set_election el
                              (e1\<lparr>has_name := True, hash := gvotable_internal_hash P n,
                                  name := strlcpy MAX_NAME_LEN n\<rparr>) w3))
              in (gvotable_add_internal s4 w4, el))"

definition gvotable_create_int_election ::
  "gv_params \<Rightarrow> gvs \<Rightarrow> string option \<Rightarrow> comparator option \<Rightarrow> ptr \<Rightarrow> ptr \<Rightarrow> gvs \<times> ptr" where
  "gvotable_create_int_election P w nm cmp_fn cb_fn dat =
     (let (w1, el) = gvotable_create_election P w nm 4 cmp_fn cb_fn dat
      in if el = 0 then (w1, 0)
      else
        case elections w1 el of None \<Rightarrow> (w1, 0) | Some e \<Rightarrow>
        let w2 = set_election el (e\<lparr>is_int_type := True\<rparr>) w1
        in case gvotable_find_internal P w2 nm of
             None \<Rightarrow> (w2, el)
           | Some s \<Rightarrow> (fst (gvotable_debugfs_create_el_int s w2), el))"

definition gvotable_create_bool_election ::
  "gv_params \<Rightarrow> ptr \<Rightarrow> gvs \<Rightarrow> string option \<Rightarrow> ptr \<Rightarrow> ptr \<Rightarrow> gv_stop + gvs \<times> ptr" where
  "gvotable_create_bool_election P me w nm cb_fn dat =
     (let (w1, el) =
        gvotable_create_election P w nm 4 (Some gvotable_comparator_bool) cb_fn dat
      in if el = 0 then Inr (w1, 0)
      else
        case elections w1 el of None \<Rightarrow> Inl Fault | Some e \<Rightarrow>
        case gvotable_set_default P me w1 e 0 of
          Inl s \<Rightarrow> Inl s
        | Inr (w2, e2, _) \<Rightarrow>
            let (w3, e3, _) = gvotable_internal_run_election w2 e2
            in Inr (set_election el (e3\<lparr>is_bool_type := True\<rparr>) w3, el))"

text \<open>The blocks freed for one ballot: its votes when they are copies, and itself.\<close>

definition free_ballot :: "ballot \<Rightarrow> gvs \<Rightarrow> gvs" where
  "free_ballot b w = kfree (b_addr b) (if b_vote_size b \<noteq> 0 then kfree (b_vote b 0) w else w)"

fun delete_slots :: "ptr \<Rightarrow> election_slot list \<Rightarrow> gvs \<Rightarrow> gvs" where
  "delete_slots el [] w = w"
| "delete_slots el (s # ss) w =
     (if slot_el s = el
      then delete_slots el ss (gvotable_delete_internal s (gvotable_debugfs_delete_el s w))
      else delete_slots el ss w)"

definition gvotable_destroy_election :: "gvs \<Rightarrow> ptr \<Rightarrow> gv_stop + gvs \<times> int" where
  "gvotable_destroy_election w el =
     (if el = 0 then Inr (w, - EINVAL)
      else
        case elections w el of None \<Rightarrow> Inl Fault | Some e \<Rightarrow>
        case gvotable_lock_result e of
          Inl s \<Rightarrow> Inl s
        | Inr e1 \<Rightarrow>
          let w1 = fold free_ballot (votes e1) w;
              w2 = delete_slots el (gvotables w1) w1;
              w3 = (if use_alloc e then kfree (result e) w2 else w2)
          in Inr (kfree el w3\<lparr>elections := (elections w3)(el := None)\<rparr>, 0))"

definition gvotable_election_get_handle :: "gv_params \<Rightarrow> gvs \<Rightarrow> string option \<Rightarrow> ptr" where
  "gvotable_election_get_handle P w nm =
     (case gvotable_find_internal P w nm of None \<Rightarrow> 0 | Some s \<Rightarrow> slot_el s)"

definition gvotable_disable_force_int_entry :: "gvs \<Rightarrow> ptr \<Rightarrow> gv_stop + gvs \<times> int" where
  "gvotable_disable_force_int_entry w el =
     (if el = 0 then Inr (w, - EINVAL)
      else case elections w el of None \<Rightarrow> Inl Fault | Some e \<Rightarrow>
        if has_name e then Inr (w, - EINVAL)
        else Inr (set_election el (e\<lparr>disable_force_int_entry := True\<rparr>) w, 0))"

definition replace_slot :: "election_slot \<Rightarrow> election_slot \<Rightarrow> gvs \<Rightarrow> gvs" where
  "replace_slot s t w = w\<lparr>gvotables := map (\<lambda>x. if x = s then t else x) (gvotables w)\<rparr>"

definition gvotable_election_set_name ::
  "gv_params \<Rightarrow> gvs \<Rightarrow> ptr \<Rightarrow> string option \<Rightarrow> gv_stop + gvs \<times> int" where
  "gvotable_election_set_name P w el nm =
     (case nm of None \<Rightarrow> Inr (w, - EINVAL) | Some n \<Rightarrow>
      if el = 0 then Inr (w, - EINVAL)
      else case elections w el of None \<Rightarrow> Inl Fault | Some e \<Rightarrow>
        if has_name e \<or> gvotable_find_internal P w nm \<noteq> None then Inr (w, - EEXIST)
        else
          let w1 = set_election el
                     (e\<lparr>has_name := True, hash := gvotable_internal_hash P n,
                        name := strlcpy MAX_NAME_LEN n\<rparr>) w
          in case gvotable_find_internal P w1 nm of
               None \<Rightarrow> Inr (w1, 0)
             | Some s \<Rightarrow>
                 let (w2, s2) = gvotable_debugfs_create_el s w1;
                     w3 = replace_slot s s2 w2
                 in case elections w3 (slot_el s2) of
                      None \<Rightarrow> Inl Fault
                    | Some e2 \<Rightarrow>
                        Inr (if is_int_type e2 then fst (gvotable_debugfs_create_el_int s2 w3)
                             else w3, 0))"

definition gvotable_set_vote2str :: "gvotable_election \<Rightarrow> gvotable_v2sfn_t option \<Rightarrow> gvotable_election" where
  "gvotable_set_vote2str e f = e\<lparr>vote2str := f\<rparr>"

definition gvotable_get_data :: "gvs \<Rightarrow> ptr \<Rightarrow> gv_stop + ptr" where
  "gvotable_get_data w el =
     (if el = 0 then Inr 0
      else case elections w el of None \<Rightarrow> Inl Fault | Some e \<Rightarrow> Inr (data e))"

end
