(* ===== verification/GVotableOps.thy ===== *)
theory GVotableOps
  imports GVotableReg
begin

text \<open>
  The debugfs operations of \<^verbatim>\<open>drivers/misc/gvotable.c\<close>: the text the status files show, the
  writes that recast, cast and force votes; and the operations of the library on an election
  as one datatype with the states they reach.
\<close>

subsection \<open>Text output\<close>

text \<open>
  \<open>scnprintf len s\<close> is what \<^verbatim>\<open>scnprintf(buf, len, ...)\<close> leaves in the buffer when the formatted
  text is \<open>s\<close>; it returns its length. \<open>emit len buf s\<close> is
  \<^verbatim>\<open>count += scnprintf(&buf[count], len - count, ...)\<close>.
\<close>

definition scnprintf :: "nat \<Rightarrow> string \<Rightarrow> string" where
  "scnprintf len s = take (len - 1) s"

definition emit :: "nat \<Rightarrow> string \<Rightarrow> string \<Rightarrow> string" where
  "emit len buf s = buf @ scnprintf (len - length buf) s"

definition digit :: "nat \<Rightarrow> char" where
  "digit d = (if d < 10 then char_of (48 + d) else char_of (87 + d))"

fun base_string :: "nat \<Rightarrow> nat \<Rightarrow> string" where
  "base_string b n =
     (if b < 2 \<or> n < b then [digit n] else base_string b (n div b) @ [digit (n mod b)])"

definition int_string :: "int \<Rightarrow> string" where
  "int_string i = (if i < 0 then ''-'' @ base_string 10 (nat (- i)) else base_string 10 (nat i))"

declare base_string.simps [simp del]

definition gvotable_v2s_int :: gvotable_v2sfn_t where
  "gvotable_v2s_int len v = scnprintf len (int_string (sint v))"

definition gvotable_v2s_uint :: gvotable_v2sfn_t where
  "gvotable_v2s_uint len v = scnprintf len (base_string 10 (unat v))"

definition gvotable_v2s_uint_hex :: gvotable_v2sfn_t where
  "gvotable_v2s_uint_hex len v = scnprintf len (''0x'' @ base_string 16 (unat v))"

definition emit_vote :: "nat \<Rightarrow> string \<Rightarrow> gvotable_v2sfn_t option \<Rightarrow> ptr \<Rightarrow> string" where
  "emit_vote len buf f v =
     (case f of Some g \<Rightarrow> buf @ g (len - length buf) v | None \<Rightarrow> emit len buf ''<>'')"

definition emit_name :: "nat \<Rightarrow> string \<Rightarrow> gvotable_election \<Rightarrow> string" where
  "emit_name len buf e = emit len buf ((if has_name e then name e else '' :'') @ '':'')"

definition gvotable_dump_election :: "nat \<Rightarrow> gvotable_election \<Rightarrow> string" where
  "gvotable_dump_election len e =
     (let b1 = emit_name len [] e;
          b2 = (case gvotable_get_current_reason_unlocked e GVOTABLE_MAX_REASON_LEN of
                  Inl rc \<Rightarrow> emit len b1 ('' <'' @ int_string rc @ ''>'')
                | Inr (rsn, _) \<Rightarrow> emit len b1 ('' current='' @ rsn));
          b3 = (case gvotable_get_current_result_unlocked e of
                  Inl rc \<Rightarrow> emit len b2 ('' <'' @ int_string rc @ ''>'')
                | Inr v \<Rightarrow> emit_vote len (emit len b2 '' v='') (vote2str e) v);
          b4 = (if \<not> is_bool_type e \<and> has_default_vote e = 1
                then emit_vote len (emit len b3 '' d='') (vote2str e) (default_vote e)
                else b3)
      in emit len b4 [CHR 0x0A])"

text \<open>Every election is dumped under its result lock, so a held one blocks the listing.\<close>

fun gvotable_list_elections :: "nat \<Rightarrow> gvs \<Rightarrow> election_slot list \<Rightarrow> string \<Rightarrow> gv_stop + string" where
  "gvotable_list_elections len w [] buf = Inr buf"
| "gvotable_list_elections len w (s # ss) buf =
     (case elections w (slot_el s) of
        None \<Rightarrow> Inl Fault
      | Some e \<Rightarrow>
          case gvotable_lock_result e of
            Inl stp \<Rightarrow> Inl stp
          | Inr e1 \<Rightarrow>
              gvotable_list_elections len w ss
                (buf @ gvotable_dump_election (len - length buf) e1))"

text \<open>The contents of the 4096 byte buffer the file shows.\<close>

definition debugfs_list_elections :: "gvs \<Rightarrow> gv_stop + string" where
  "debugfs_list_elections w =
     (case gvotable_list_elections 4096 w (gvotables w) [] of
        Inl s \<Rightarrow> Inl s
      | Inr buf \<Rightarrow>
          Inr (if buf = [] then scnprintf 4096 (''data not available'' @ [CHR 0x0A]) else buf))"

definition gvotable_dump_ballot :: "nat \<Rightarrow> ballot \<Rightarrow> gvotable_v2sfn_t \<Rightarrow> string" where
  "gvotable_dump_ballot len b f =
     (let b1 = emit len [] ('' '' @ b_reason b);
          b2 = emit len b1 ('' en='' @ (if b_enabled b then ''1'' else ''0'') @ '' val='');
          b3 = b2 @ f (len - length b2) (cur_vote b)
      in emit len b3 ('' #votes='' @ int_string (sint (b_num_votes b))))"

fun dump_ballots ::
  "nat \<Rightarrow> gvotable_election \<Rightarrow> gvotable_v2sfn_t \<Rightarrow> ballot list \<Rightarrow> string \<Rightarrow> string" where
  "dump_ballots len e f [] buf = buf"
| "dump_ballots len e f (b # bs) buf =
     (let b1 = emit_name len buf e;
          b2 = b1 @ gvotable_dump_ballot (len - length b1) b f
      in dump_ballots len e f bs (emit len b2 [CHR 0x0A]))"

definition gvotable_list_ballots ::
  "nat \<Rightarrow> gvotable_election \<Rightarrow> gvotable_v2sfn_t option \<Rightarrow> int + string" where
  "gvotable_list_ballots len e f0 =
     (case (if f0 = None then vote2str e else f0) of
        None \<Rightarrow> Inl (- EINVAL)
      | Some f \<Rightarrow> Inr (dump_ballots len e f (votes e) []))"

definition debugfs_list_ballots :: "gvotable_election \<Rightarrow> gv_stop + string" where
  "debugfs_list_ballots e =
     (case gvotable_lock_result e of
        Inl s \<Rightarrow> Inl s
      | Inr e1 \<Rightarrow>
          case gvotable_list_ballots 4096 e1 None of
            Inl rc \<Rightarrow>
              Inr (scnprintf 4096 (''data not available ('' @ int_string rc @ '')'' @ [CHR 0x0A]))
          | Inr buf \<Rightarrow> Inr (buf @ gvotable_dump_election (4096 - length buf) e1))"

subsection \<open>Writes\<close>

text \<open>
  \<open>wr\<close> is the outcome of \<^verbatim>\<open>simple_write_to_buffer\<close>: an error, or the string the buffer holds.
\<close>

definition debugfs_enable_vote ::
  "gv_params \<Rightarrow> ptr \<Rightarrow> gvs \<Rightarrow> gvotable_election \<Rightarrow> int + string \<Rightarrow> int \<Rightarrow>
     gv_stop + gvs \<times> gvotable_election \<times> int" where
  "debugfs_enable_vote P me w e wr cnt =
     (case wr of
        Inl _ \<Rightarrow> Inr (w, e, - EFAULT)
      | Inr rsn \<Rightarrow>
          case gvotable_recast_ballot P me w e rsn True of
            Inl s \<Rightarrow> Inl s
          | Inr (w1, e1, ret) \<Rightarrow> Inr (w1, e1, if ret < 0 then ret else cnt))"

definition debugfs_disable_vote ::
  "gv_params \<Rightarrow> ptr \<Rightarrow> gvs \<Rightarrow> gvotable_election \<Rightarrow> int + string \<Rightarrow> int \<Rightarrow>
     gv_stop + gvs \<times> gvotable_election \<times> int" where
  "debugfs_disable_vote P me w e wr cnt =
     (case wr of
        Inl _ \<Rightarrow> Inr (w, e, - EFAULT)
      | Inr rsn \<Rightarrow>
          case gvotable_recast_ballot P me w e rsn False of
            Inl s \<Rightarrow> Inl s
          | Inr (w1, e1, ret) \<Rightarrow> Inr (w1, e1, if ret < 0 then ret else cnt))"

definition debugfs_cast_int_vote ::
  "gv_params \<Rightarrow> ptr \<Rightarrow> gvs \<Rightarrow> gvotable_election \<Rightarrow> u64 \<Rightarrow>
     gv_stop + gvs \<times> gvotable_election \<times> int" where
  "debugfs_cast_int_vote P me w e val =
     (case gvotable_is_enabled P e (Some DEBUGFS_CAST_VOTE_REASON) True of
        Inl s \<Rightarrow> Inl s
      | Inr r \<Rightarrow>
          gvotable_cast_vote P me w e (Some DEBUGFS_CAST_VOTE_REASON) val
            (case r of Inl _ \<Rightarrow> False | Inr en \<Rightarrow> en))"

definition debugfs_force_int_value ::
  "gv_params \<Rightarrow> ptr \<Rightarrow> gvs \<Rightarrow> gvotable_election \<Rightarrow> u64 \<Rightarrow>
     gv_stop + gvs \<times> gvotable_election \<times> int" where
  "debugfs_force_int_value P me w e0 val =
     (let pre_val = force_result e0
      in case gvotable_lock_election me e0 of
           Inl s \<Rightarrow> Inl s
         | Inr e \<Rightarrow>
           let e1 = gvotable_unlock_result (e\<lparr>force_result := val\<rparr>);
               (w2, e2, ret) =
                 (if callback e1 = 0 then (w, e1, 0)
                  else if force_result_is_enabled e1 \<and> pre_val \<noteq> val
                  then el_callback P w e1 (Some DEBUGFS_FORCE_VOTE_REASON) (force_result e1)
                  else (w, e1, 0))
           in Inr (w2, gvotable_unlock_callback e2, ret))"

definition debugfs_force_int_active ::
  "gv_params \<Rightarrow> ptr \<Rightarrow> gvs \<Rightarrow> gvotable_election \<Rightarrow> u64 \<Rightarrow>
     gv_stop + gvs \<times> gvotable_election \<times> int" where
  "debugfs_force_int_active P me w e0 val =
     (case gvotable_lock_election me e0 of
        Inl s \<Rightarrow> Inl s
      | Inr e \<Rightarrow>
        let e1 = gvotable_unlock_result (e\<lparr>force_result_is_enabled := (val \<noteq> 0)\<rparr>);
            (w2, e2, ret) =
              (if callback e1 = 0 then (w, e1, 0)
               else if force_result_is_enabled e1
               then el_callback P w e1 (Some DEBUGFS_FORCE_VOTE_REASON) (force_result e1)
               else gvotable_run_callback P w e1)
        in Inr (w2, gvotable_unlock_callback e2, ret))"

subsection \<open>Runs\<close>

text \<open>
  The operations on one election that change it. \<open>el_exec\<close> is the operation itself on a live
  election, \<open>el_run\<close> a sequence of them by one thread; a blocked operation ends the run.
\<close>

datatype el_op =
    Cast "string option" ptr bool
  | Recast string bool
  | SetDefault ptr
  | UseDefault bool
  | RunElection bool
  | SetResult "string option" ptr
  | CastInt u64
  | ForceValue u64
  | ForceActive u64

fun el_exec ::
  "gv_params \<Rightarrow> ptr \<Rightarrow> gvs \<Rightarrow> gvotable_election \<Rightarrow> el_op \<Rightarrow>
     gv_stop + gvs \<times> gvotable_election \<times> int" where
  "el_exec P me w e (Cast r v en) = gvotable_cast_vote P me w e r v en"
| "el_exec P me w e (Recast r en) = gvotable_recast_ballot P me w e r en"
| "el_exec P me w e (SetDefault v) = gvotable_set_default P me w e v"
| "el_exec P me w e (UseDefault b) = gvotable_use_default P me w e b"
| "el_exec P me w e (RunElection b) = gvotable_run_election P me w e b"
| "el_exec P me w e (SetResult r v) = Inr (gvotable_election_set_result w e r v)"
| "el_exec P me w e (CastInt v) = debugfs_cast_int_vote P me w e v"
| "el_exec P me w e (ForceValue v) = debugfs_force_int_value P me w e v"
| "el_exec P me w e (ForceActive v) = debugfs_force_int_active P me w e v"

fun el_run ::
  "gv_params \<Rightarrow> ptr \<Rightarrow> gvs \<Rightarrow> gvotable_election \<Rightarrow> el_op list \<Rightarrow> gv_stop + gvs \<times> gvotable_election" where
  "el_run P me w e [] = Inr (w, e)"
| "el_run P me w e (op # ops) =
     (case el_exec P me w e op of
        Inl s \<Rightarrow> Inl s
      | Inr (w1, e1, _) \<Rightarrow> el_run P me w1 e1 ops)"

end
