(* ===== verification/GVotableInv.thy ===== *)
theory GVotableInv
  imports GVotableOps
begin

text \<open>
  The lemmas about elections: the lists of ballots under a ranking comparator (the locale
  \<open>ranking\<close>, interpreted on the five comparators that compare values), what one run of the
  election does, and the invariants every operation keeps.
\<close>

subsection \<open>Ballots under a ranking comparator\<close>

text \<open>
  A ballot list is ordered when no enabled ballot beats one before it. Disabled ballots stay
  where they are, so nothing is required of them as the later one.
\<close>

definition votes_ordered :: "(ptr \<Rightarrow> int) \<Rightarrow> ballot list \<Rightarrow> bool" where
  "votes_ordered key bs \<longleftrightarrow>
     sorted_wrt (\<lambda>a b. b_enabled b \<longrightarrow> key (cur_vote a) \<le> key (cur_vote b)) bs"

locale ranking =
  fixes c :: comparator and key :: "ptr \<Rightarrow> int"
  assumes cmp_less: "el_cmp hp c a b < 0 \<longleftrightarrow> key a < key b"
    and cmp_zero: "el_cmp hp c a b = 0 \<longleftrightarrow> key a = key b"
begin

lemma add_before_first_ordered:
  assumes "votes_ordered key bs" and "add_before_first (el_cmp hp c) b bs = Some bs'"
  shows "votes_ordered key bs' \<and> set bs' = insert b (set bs)"
  using assms
proof (induction bs arbitrary: bs')
  case (Cons t ts)
  show ?case
  proof (cases "key (cur_vote b) < key (cur_vote t)")
    case True
    with Cons.prems show ?thesis
      by (auto simp: votes_ordered_def cmp_less) (meson le_less_trans less_le_not_le linear)
  next
    case False
    with Cons.prems(2) obtain ts' where ts': "add_before_first (el_cmp hp c) b ts = Some ts'"
      and bs': "bs' = t # ts'"
      by (auto simp: cmp_less)
    with Cons show ?thesis using False
      by (auto simp: votes_ordered_def)
  qed
qed simp

lemma add_before_first_None:
  "add_before_first (el_cmp hp c) b bs = None \<Longrightarrow>
     \<forall>t \<in> set bs. key (cur_vote t) \<le> key (cur_vote b)"
  by (induction bs) (auto simp: cmp_less split: if_splits)

lemma add_ballot_ordered:
  assumes "votes_ordered key (votes e)" and "cmp e = c" and "b_enabled b \<longleftrightarrow> en"
  shows "votes_ordered key (votes (gvotable_add_ballot w e b en))"
proof (cases "votes e = [] \<or> \<not> en")
  case True
  with assms show ?thesis
    by (auto simp: gvotable_add_ballot_def votes_ordered_def sorted_wrt_append)
next
  case False
  show ?thesis
  proof (cases "add_before_first (el_cmp (heap w) c) b (votes e)")
    case None
    with False assms add_before_first_None [OF None] show ?thesis
      by (auto simp: gvotable_add_ballot_def votes_ordered_def sorted_wrt_append)
  next
    case (Some bs)
    with False assms add_before_first_ordered [OF assms(1) Some] show ?thesis
      by (simp add: gvotable_add_ballot_def)
  qed
qed

end

abbreviation int_key :: "ptr \<Rightarrow> int" where "int_key p \<equiv> sint (ucast p :: s32)"
abbreviation uint_key :: "ptr \<Rightarrow> int" where "uint_key p \<equiv> uint (ucast p :: u32)"

lemma votes_ordered_remove:
  assumes "votes_ordered key bs"
  shows "votes_ordered key (remove_nth i bs)"
proof -
  have "votes_ordered key (take i bs @ drop i bs)" using assms by simp
  moreover have "drop (Suc i) bs = tl (drop i bs)" by (simp add: drop_Suc tl_drop)
  ultimately show ?thesis
    by (cases "drop i bs") (auto simp: votes_ordered_def remove_nth_def sorted_wrt_append
        simp del: append_take_drop_id)
qed

lemma set_remove_nth: "set (remove_nth i xs) \<subseteq> set xs"
  by (auto simp: remove_nth_def dest: in_set_takeD in_set_dropD)

lemma votes_ordered_update:
  assumes "votes_ordered key bs" and "i < length bs" and "\<not> b_enabled b"
    and "key (cur_vote b) \<le> key (cur_vote (bs ! i))"
  shows "votes_ordered key (bs[i := b])"
  using assms unfolding votes_ordered_def sorted_wrt_iff_nth_less
  by (auto simp: nth_list_update) (meson order_trans)

lemma first_enabled_best:
  assumes "votes_ordered key bs" and "find b_enabled bs = Some b"
  shows "b \<in> set bs \<and> b_enabled b \<and>
         (\<forall>t \<in> set bs. b_enabled t \<longrightarrow> key (cur_vote b) \<le> key (cur_vote t))"
  using assms by (induction bs) (auto simp: votes_ordered_def split: if_splits)

lemma ballot_position_less: "ballot_position p bs = Some i \<Longrightarrow> i < length bs"
  by (induction bs arbitrary: i) (auto split: if_splits)

lemma find_internal_less: "gvotable_ballot_find_internal P e r = Some i \<Longrightarrow> i < length (votes e)"
  by (auto simp: gvotable_ballot_find_internal_def dest: ballot_position_less)

subsection \<open>Votes held by value\<close>

text \<open>
  Elections whose votes fit in a pointer do not touch memory, and their callbacks cannot set
  the result when the election has a comparator.
\<close>

lemma take_result_plain:
  assumes "\<not> use_alloc e" and "auto_callback e"
  shows "gvotable_take_result w e r v nv =
    (let ch = (\<not> result_is_valid e \<or> \<not> strncmp_eq 32 (reason e) r);
         upd = (ch \<or> el_cmp (heap w) (cmp e) (result e) v \<noteq> 0)
     in (w, e\<lparr>reason := (if ch then strlcpy 32 r else reason e),
              result := (if upd then nv else result e), result_is_valid := True\<rparr>, upd))"
  using assms
  by (auto simp: gvotable_take_result_def gvotable_internal_update_result_def
      gvotable_internal_copy_result_def gvotable_internal_update_reason_def Let_def)

lemma set_result_refused:
  "cmp e \<noteq> gvotable_comparator_none \<Longrightarrow>
     gvotable_election_set_result w e r v = (w, e, - EINVAL)"
  by (auto simp: gvotable_election_set_result_def split: option.splits)

lemma callback_results_refused:
  "cmp e \<noteq> gvotable_comparator_none \<Longrightarrow> callback_results w e sets = (w, e)"
  by (induction sets) (auto simp: set_result_refused)

lemma el_callback_plain:
  "cmp e \<noteq> gvotable_comparator_none \<Longrightarrow>
     \<exists>ret. el_callback P w e r v = (w, e\<lparr>cb_log := (r, v) # cb_log e\<rparr>, ret)"
  by (auto simp: el_callback_def callback_results_refused split: prod.splits)

lemma run_callback_plain:
  assumes "cmp e \<noteq> gvotable_comparator_none"
  shows "\<exists>ret. gvotable_run_callback P w e =
    (w, e\<lparr>cb_log := (if result_is_valid e then (Some (reason e), result e) else (None, 0)) # cb_log e\<rparr>, ret)"
  using assms el_callback_plain [of e P w] by (auto simp: gvotable_run_callback_def)

lemma update_ballot_plain:
  assumes "b_vote_size b = 0"
  obtains b' where "gvotable_update_ballot w b v en = (w, b', 0)"
    and "b_enabled b' = en" and "cur_vote b' = v" and "b_reason b' = b_reason b"
    and "b_reason_hash b' = b_reason_hash b" and "b_vote_size b' = 0"
  using assms by (simp add: gvotable_update_ballot_def)

subsection \<open>Invariant of an election with a ranking comparator\<close>

text \<open>
  \<open>ranked\<close>: the shape of the election and the order of its ballots. \<open>elected\<close>: the result
  is the first enabled ballot, and without one it is the default or invalid. \<open>notified\<close>: the
  latest call of the callback carried the current result (the first result of a bool election,
  0, is set at creation without a call).
\<close>

definition ranked :: "comparator \<Rightarrow> (ptr \<Rightarrow> int) \<Rightarrow> gvotable_election \<Rightarrow> bool" where
  "ranked c key e \<longleftrightarrow>
     cmp e = c \<and> \<not> use_alloc e \<and> \<not> is_bool_type e \<and> auto_callback e \<and>
     \<not> force_result_is_enabled e \<and> length (reason e) < 32 \<and>
     (\<forall>b \<in> set (votes e). b_vote_size b = 0 \<and> length (b_reason b) < 32) \<and>
     votes_ordered key (votes e)"

definition elected :: "(ptr \<Rightarrow> int) \<Rightarrow> gvotable_election \<Rightarrow> bool" where
  "elected key e \<longleftrightarrow>
     (case find b_enabled (votes e) of
        Some b \<Rightarrow> result_is_valid e \<and> reason e = b_reason b \<and> key (result e) = key (cur_vote b)
      | None \<Rightarrow> result_is_valid e \<longrightarrow>
          has_default_vote e = 1 \<and> reason e = default_reason \<and>
          key (result e) = key (default_vote e))"

definition notified :: "gvotable_election \<Rightarrow> bool" where
  "notified e \<longleftrightarrow>
     callback e = 0 \<or>
     (case cb_log e of
        [] \<Rightarrow> \<not> result_is_valid e \<or> is_bool_type e
      | (r, v) # _ \<Rightarrow>
          if result_is_valid e then r = Some (reason e) \<and> v = result e else r = None)"

lemma notified_no_callback: "callback e = 0 \<Longrightarrow> notified e"
  by (simp add: notified_def)

lemma notified_logged [simp]:
  "notified (e\<lparr>cb_log :=
     (if result_is_valid e then (Some (reason e), result e) else (None, 0)) # l\<rparr>)"
  by (simp add: notified_def)

lemmas election_inv_defs = ranked_def elected_def notified_def

text \<open>Locks do not occur in the invariants.\<close>

lemma inv_locks [simp]:
  "ranked c key (e\<lparr>cb_lock := x\<rparr>) = ranked c key e" "ranked c key (e\<lparr>re_lock := y\<rparr>) = ranked c key e"
  "ranked c key (e\<lparr>owner := z\<rparr>) = ranked c key e" "ranked c key (e\<lparr>cb_log := l\<rparr>) = ranked c key e"
  "ranked c key (e\<lparr>num_voters := nv\<rparr>) = ranked c key e"
  "elected key (e\<lparr>cb_lock := x\<rparr>) = elected key e" "elected key (e\<lparr>re_lock := y\<rparr>) = elected key e"
  "elected key (e\<lparr>owner := z\<rparr>) = elected key e" "elected key (e\<lparr>cb_log := l\<rparr>) = elected key e"
  "notified (e\<lparr>cb_lock := x\<rparr>) = notified e" "notified (e\<lparr>re_lock := y\<rparr>) = notified e"
  "notified (e\<lparr>owner := z\<rparr>) = notified e" "notified (e\<lparr>num_voters := nv\<rparr>) = notified e"
  "notified (e\<lparr>votes := bs\<rparr>) = notified e" "notified (e\<lparr>default_vote := d\<rparr>) = notified e"
  "notified (e\<lparr>has_default_vote := h\<rparr>) = notified e"
  "notified (e\<lparr>force_result := v\<rparr>) = notified e"
  "notified (e\<lparr>force_result_is_enabled := fe\<rparr>) = notified e" "notified (e\<lparr>num_votes := nn\<rparr>) = notified e"
  by (simp_all add: election_inv_defs cong: option.case_cong list.case_cong)

text \<open>
  The operations under which the order of the ballots is kept: an existing ballot is withdrawn
  in place, which must be allowed by \<open>W\<close> (the ballot, its new value), and the result is not
  forced.
\<close>

definition withdrawal_ok ::
  "gv_params \<Rightarrow> (ballot \<Rightarrow> ptr \<Rightarrow> bool) \<Rightarrow> gvotable_election \<Rightarrow> string \<Rightarrow> ptr \<Rightarrow> bool" where
  "withdrawal_ok P W e r v \<longleftrightarrow>
     (case gvotable_ballot_find_internal P e r of
        None \<Rightarrow> True
      | Some i \<Rightarrow> W (votes e ! i) v)"

fun orderly :: "gv_params \<Rightarrow> (ballot \<Rightarrow> ptr \<Rightarrow> bool) \<Rightarrow> gvotable_election \<Rightarrow> el_op \<Rightarrow> bool" where
  "orderly P W e (Cast (Some r) v False) = withdrawal_ok P W e r v"
| "orderly P W e (CastInt v) = withdrawal_ok P W e DEBUGFS_CAST_VOTE_REASON v"
| "orderly P W e (ForceActive v) = (v = 0)"
| "orderly P W e _ = True"

fun orderly_run ::
  "gv_params \<Rightarrow> ptr \<Rightarrow> (ballot \<Rightarrow> ptr \<Rightarrow> bool) \<Rightarrow> gvs \<Rightarrow> gvotable_election \<Rightarrow> el_op list \<Rightarrow> bool" where
  "orderly_run P me W w e [] = True"
| "orderly_run P me W w e (op # ops) =
     (orderly P W e op \<and>
      (case el_exec P me w e op of
         Inl s \<Rightarrow> True
       | Inr (w1, e1, _) \<Rightarrow> orderly_run P me W w1 e1 ops))"

lemma lock_election_ok:
  assumes "gvotable_lock_election me e = Inr e'"
  shows "e' = e\<lparr>cb_lock := True, re_lock := True, owner := me\<rparr>"
  using assms by (auto simp: gv_defs Let_def split: if_splits)

lemma add_ballot_notified [simp]: "notified (gvotable_add_ballot w e b en) = notified e"
  by (simp add: gvotable_add_ballot_def split: option.splits)

lemma find_locked [simp]:
  "gvotable_ballot_find_internal P (e\<lparr>cb_lock := x\<rparr>) r = gvotable_ballot_find_internal P e r"
  "gvotable_ballot_find_internal P (e\<lparr>re_lock := y\<rparr>) r = gvotable_ballot_find_internal P e r"
  "gvotable_ballot_find_internal P (e\<lparr>owner := z\<rparr>) r = gvotable_ballot_find_internal P e r"
  by (simp_all add: gvotable_ballot_find_internal_def)

text \<open>
  What an election needs for its result to be right after every operation: a shape \<open>S\<close> kept
  by the changes of the ballot list, and a run of the election that makes the result right
  (\<open>R\<close>) and asks for the callback unless the client knows the result already. An existing
  ballot may be withdrawn in place where \<open>W\<close> allows its new value.
\<close>

locale discipline =
  fixes S :: "gvotable_election \<Rightarrow> bool" and R :: "gvotable_election \<Rightarrow> bool"
    and W :: "ballot \<Rightarrow> ptr \<Rightarrow> bool"
  assumes S_plain: "S e \<Longrightarrow> cmp e \<noteq> gvotable_comparator_none \<and> \<not> use_alloc e \<and>
      \<not> force_result_is_enabled e \<and>
      (\<forall>b \<in> set (votes e). b_vote_size b = 0 \<and> length (b_reason b) < 32)"
    and S_frame [simp]: "S (e\<lparr>cb_lock := x\<rparr>) = S e" "S (e\<lparr>re_lock := x\<rparr>) = S e"
      "S (e\<lparr>owner := z\<rparr>) = S e" "S (e\<lparr>cb_log := l\<rparr>) = S e" "S (e\<lparr>num_voters := n\<rparr>) = S e"
      "S (e\<lparr>force_result := v\<rparr>) = S e"
    and R_frame [simp]: "R (e\<lparr>cb_lock := x\<rparr>) = R e" "R (e\<lparr>re_lock := x\<rparr>) = R e"
      "R (e\<lparr>owner := z\<rparr>) = R e" "R (e\<lparr>cb_log := l\<rparr>) = R e" "R (e\<lparr>num_voters := n\<rparr>) = R e"
      "R (e\<lparr>force_result := v\<rparr>) = R e"
    and S_remove: "S e \<Longrightarrow> S (e\<lparr>votes := remove_nth i (votes e)\<rparr>)"
    and S_add: "S e \<Longrightarrow> b_enabled b = en \<Longrightarrow> b_vote_size b = 0 \<Longrightarrow> length (b_reason b) < 32 \<Longrightarrow>
      S (gvotable_add_ballot w e b en)"
    and S_update: "S e \<Longrightarrow> i < length (votes e) \<Longrightarrow> \<not> b_enabled b \<Longrightarrow> b_vote_size b = 0 \<Longrightarrow>
      length (b_reason b) < 32 \<Longrightarrow> W (votes e ! i) (cur_vote b) \<Longrightarrow>
      S (e\<lparr>votes := (votes e)[i := b]\<rparr>)"
    and W_bool: "S e \<Longrightarrow> is_bool_type e \<Longrightarrow> W b v"
    and run_election_elects: "S e \<Longrightarrow> notified e \<Longrightarrow>
      gvotable_internal_run_election w e = (w', e', q) \<Longrightarrow>
      w' = w \<and> votes e' = votes e \<and> S e' \<and> R e' \<and> callback e' = callback e \<and>
      (\<not> q \<longrightarrow> notified e')"
    and S_default: "S e \<Longrightarrow> \<not> is_bool_type e \<Longrightarrow> S (e\<lparr>default_vote := d\<rparr>)"
    and S_has_default: "S e \<Longrightarrow> \<not> is_bool_type e \<Longrightarrow> S (e\<lparr>has_default_vote := h\<rparr>)"
    and R_default: "S e \<Longrightarrow> R e \<Longrightarrow> \<not> is_bool_type e \<Longrightarrow>
      \<not> (has_default_vote e = 1 \<and> default_vote e \<noteq> d) \<Longrightarrow>
      R (e\<lparr>default_vote := d, has_default_vote := 1\<rparr>)"
begin

lemma run_callback_keeps:
  assumes "S e" and "R e"
  shows "\<exists>ret. gvotable_run_callback P w e =
    (w, e\<lparr>cb_log := (if result_is_valid e then (Some (reason e), result e) else (None, 0)) # cb_log e\<rparr>, ret)"
  using S_plain [OF assms(1)] run_callback_plain [of e P w] by simp

lemma run_and_unlock_ok:
  assumes "S e" and "notified e"
    and "gvotable_run_and_unlock P w e ret = (w', e', ret')"
  shows "w' = w \<and> votes e' = votes e \<and> S e' \<and> R e' \<and> notified e'"
proof -
  obtain w1 e1 run where r: "gvotable_internal_run_election w e = (w1, e1, run)"
    by (metis prod_cases3)
  note ok = run_election_elects [OF assms(1,2) r]
  let ?e = "e1\<lparr>re_lock := False\<rparr>"
  let ?l = "\<lambda>x. (if result_is_valid x then (Some (reason x), result x) else (None, 0)) # cb_log x"
  obtain rc where "gvotable_run_callback P w1 ?e = (w1, ?e\<lparr>cb_log := ?l ?e\<rparr>, rc)"
    using run_callback_keeps [of ?e P w1] ok by auto
  with assms(3) ok r have "w' = w \<and> e' = (if run then ?e\<lparr>cb_log := ?l ?e\<rparr> else ?e)\<lparr>cb_lock := False\<rparr>"
    by (auto simp: gvotable_run_and_unlock_def gv_defs simp del: notified_logged)
  moreover have "notified (?e\<lparr>cb_log := ?l ?e\<rparr>)" by (rule notified_logged)
  ultimately show ?thesis
    using ok by auto
qed

lemma S_find:
  assumes "S e" and "gvotable_ballot_find_internal P e r = Some i"
  shows "i < length (votes e) \<and> b_vote_size (votes e ! i) = 0 \<and> length (b_reason (votes e ! i)) < 32"
  using S_plain [OF assms(1)] find_internal_less [OF assms(2)] by auto

lemma recast_ok:
  assumes e: "S e" and n: "notified e"
    and run: "gvotable_recast_ballot P me w e r en = Inr (w', e', ret)" and l: "R e"
  shows "S e' \<and> R e' \<and> notified e'"
proof -
  let ?e = "e\<lparr>cb_lock := True, re_lock := True, owner := me\<rparr>"
  from run have lk: "gvotable_lock_election me e = Inr ?e"
    by (auto simp: gvotable_recast_ballot_def dest: lock_election_ok split: sum.splits)
  show ?thesis
  proof (cases "gvotable_ballot_find_internal P ?e r")
    case None
    with run lk e n l show ?thesis
      by (auto simp: gvotable_recast_ballot_def gvotable_unlock_election_def)
  next
    case (Some i)
    let ?e1 = "?e\<lparr>votes := remove_nth i (votes e)\<rparr>"
    let ?b = "votes e ! i"
    from S_find [OF _ Some] e have b: "b_vote_size ?b = 0" "length (b_reason ?b) < 32" by auto
    obtain b' where u: "gvotable_update_ballot w ?b (cur_vote ?b) en = (w, b', 0)"
      and b': "b_enabled b' = en" "b_reason b' = b_reason ?b" "b_vote_size b' = 0"
      by (rule update_ballot_plain [OF b(1)])
    have "S ?e1" using S_remove [of ?e i] e by simp
    then have "S (gvotable_add_ballot w ?e1 b' en)"
      using b' b by (intro S_add) auto
    moreover have "notified (gvotable_add_ballot w ?e1 b' en)" using n by simp
    moreover have "gvotable_run_and_unlock P w (gvotable_add_ballot w ?e1 b' en) 0 = (w', e', ret)"
      using run lk Some u by (simp add: gvotable_recast_ballot_def)
    ultimately show ?thesis by (blast dest: run_and_unlock_ok)
  qed
qed

lemma use_default_ok:
  assumes "S e" and "notified e"
    and "gvotable_use_default P me w e b = Inr (w', e', ret)" and "R e"
  shows "S e' \<and> R e' \<and> notified e'"
proof (cases "is_bool_type e")
  case True
  with assms show ?thesis by (simp add: gvotable_use_default_def)
next
  case False
  let ?e = "e\<lparr>cb_lock := True, re_lock := True, owner := me, has_default_vote := if b then 1 else 0\<rparr>"
  from assms False have "gvotable_run_and_unlock P w ?e 0 = (w', e', ret)"
    by (auto simp: gvotable_use_default_def dest!: lock_election_ok split: sum.splits)
  moreover have "S ?e" using assms(1) False S_has_default [of "e\<lparr>cb_lock := True, re_lock := True, owner := me\<rparr>"]
    by simp
  ultimately show ?thesis using assms(2) run_and_unlock_ok [of ?e P w 0] by simp
qed

lemma cast_new_ok:
  assumes e: "S e" and n: "notified e" and l: "R e" and r: "r \<noteq> []"
    and lk: "gvotable_lock_election me e = Inr e1"
    and f: "gvotable_ballot_find_internal P e1 r = None"
    and run: "gvotable_cast_vote P me w e (Some r) v en = Inr (w', e', ret)"
  shows "S e' \<and> R e' \<and> notified e'"
proof -
  have e1: "e1 = e\<lparr>cb_lock := True, re_lock := True, owner := me\<rparr>" by (rule lock_election_ok [OF lk])
  have plain: "\<not> use_alloc e" using S_plain [OF e] by simp
  let ?v = "if is_bool_type e then if en then 1 else 0 else v"
  obtain p w1 where k: "kzalloc 0 w = (p, w1)" by fastforce
  show ?thesis
  proof (cases "p = 0")
    case True
    with run r lk f k plain e n l show ?thesis
      by (auto simp: gvotable_cast_vote_def gvotable_unlock_election_def e1)
  next
    case False
    let ?b = "new_ballot P e1 p r"
    let ?e2 = "e1\<lparr>num_voters := num_voters e1 + 1\<rparr>"
    have "b_vote_size ?b = 0" using plain by (simp add: new_ballot_def e1)
    then obtain b' where u: "gvotable_update_ballot w1 ?b ?v en = (w1, b', 0)"
      and b': "b_enabled b' = en" "b_reason b' = b_reason ?b" "b_vote_size b' = 0"
      by (rule update_ballot_plain)
    have "length (b_reason b') < 32" using b' by (simp add: new_ballot_def length_strlcpy)
    then have "S (gvotable_add_ballot w1 ?e2 b' en)"
      using b' e by (intro S_add) (auto simp: e1)
    moreover have "notified (gvotable_add_ballot w1 ?e2 b' en)" using n by (simp add: e1)
    moreover have "gvotable_run_and_unlock P w1 (gvotable_add_ballot w1 ?e2 b' en) 0 = (w', e', ret)"
      using run r lk f k u plain False by (simp add: gvotable_cast_vote_def e1 Let_def)
    ultimately show ?thesis by (blast dest: run_and_unlock_ok)
  qed
qed

lemma cast_again_ok:
  assumes e: "S e" and n: "notified e" and r: "r \<noteq> []"
    and lk: "gvotable_lock_election me e = Inr e1"
    and f: "gvotable_ballot_find_internal P e1 r = Some i"
    and w: "en \<or> W (votes e ! i) v"
    and run: "gvotable_cast_vote P me w e (Some r) v en = Inr (w', e', ret)"
  shows "S e' \<and> R e' \<and> notified e'"
proof -
  have e1: "e1 = e\<lparr>cb_lock := True, re_lock := True, owner := me\<rparr>" by (rule lock_election_ok [OF lk])
  have e1r: "S e1" using e by (simp add: e1)
  have plain: "\<not> use_alloc e" using S_plain [OF e] by simp
  let ?v = "if is_bool_type e then if en then 1 else 0 else v"
  let ?b = "votes e1 ! i"
  have b: "i < length (votes e1)" "b_vote_size ?b = 0" "length (b_reason ?b) < 32"
    using S_find [OF e1r f] by auto
  obtain b' where u: "gvotable_update_ballot w ?b ?v en = (w, b', 0)"
    and b': "b_enabled b' = en" "cur_vote b' = ?v" "b_reason b' = b_reason ?b" "b_vote_size b' = 0"
    by (rule update_ballot_plain [OF b(2)])
  let ?e2 = "if en then gvotable_add_ballot w (e1\<lparr>votes := remove_nth i (votes e1)\<rparr>) b' en
             else e1\<lparr>votes := (votes e1)[i := b']\<rparr>"
  have "S ?e2"
  proof (cases en)
    case True
    then show ?thesis using b' b S_remove [OF e1r, of i] by (auto intro!: S_add)
  next
    case False
    have "W ?b (cur_vote b')"
      using w False b'(2) W_bool [OF e, of ?b "cur_vote b'"] by (auto simp: e1)
    with False b' b S_update [OF e1r b(1), of b'] show ?thesis by simp
  qed
  moreover have "notified ?e2" using n by (simp add: e1)
  moreover have "gvotable_run_and_unlock P w ?e2 0 = (w', e', ret)"
    using run r lk f u plain by (auto simp: gvotable_cast_vote_def e1 Let_def split: if_splits)
  ultimately show ?thesis by (blast dest: run_and_unlock_ok)
qed

lemma cast_ok:
  assumes e: "S e" and n: "notified e" and l: "R e"
    and o: "en \<or> rsn = None \<or> withdrawal_ok P W e (the rsn) v"
    and run: "gvotable_cast_vote P me w e rsn v en = Inr (w', e', ret)"
  shows "S e' \<and> R e' \<and> notified e'"
proof (cases "rsn = None \<or> rsn = Some []")
  case True
  with run e n l show ?thesis by (auto simp: gvotable_cast_vote_def)
next
  case False
  then obtain r where r: "rsn = Some r" "r \<noteq> []" by auto
  have "\<not> use_alloc e" using S_plain [OF e] by simp
  with run r obtain e1 where lk: "gvotable_lock_election me e = Inr e1"
    by (auto simp: gvotable_cast_vote_def split: sum.splits)
  have e1: "e1 = e\<lparr>cb_lock := True, re_lock := True, owner := me\<rparr>" by (rule lock_election_ok [OF lk])
  show ?thesis
  proof (cases "gvotable_ballot_find_internal P e1 r")
    case None
    with cast_new_ok [OF e n l r(2) lk] run r show ?thesis by blast
  next
    case (Some i)
    have "en \<or> W (votes e ! i) v"
      using o Some r by (auto simp: withdrawal_ok_def e1)
    from cast_again_ok [OF e n r(2) lk Some this] run r show ?thesis by blast
  qed
qed

lemma run_callback_logs:
  assumes "S e" and "R e"
  shows "\<exists>ret l. gvotable_run_callback P w e = (w, e\<lparr>cb_log := l\<rparr>, ret) \<and> notified (e\<lparr>cb_log := l\<rparr>)"
  using run_callback_keeps [OF assms, of P w] notified_logged [of e "cb_log e"] by metis

lemma set_default_ok:
  assumes e: "S e" and n: "notified e" and l: "R e"
    and run: "gvotable_set_default P me w e d = Inr (w', e', ret)"
  shows "S e' \<and> R e' \<and> notified e'"
proof (cases "is_bool_type e")
  case True
  with e n l run show ?thesis by (simp add: gvotable_set_default_def)
next
  case nb: False
  with run obtain e1 where lk: "gvotable_lock_election me e = Inr e1"
    by (auto simp: gvotable_set_default_def split: sum.splits)
  have e1: "e1 = e\<lparr>cb_lock := True, re_lock := True, owner := me\<rparr>" by (rule lock_election_ok [OF lk])
  let ?e2 = "e1\<lparr>default_vote := d\<rparr>"
  show ?thesis
  proof (cases "has_default_vote e = 1 \<and> default_vote e \<noteq> d")
    case False
    let ?e = "e\<lparr>cb_lock := False, re_lock := False, owner := me\<rparr>"
    from False run lk nb have "e' = ?e\<lparr>default_vote := d, has_default_vote := 1\<rparr>"
      by (auto simp: gvotable_set_default_def gv_defs e1)
    with False e n l nb S_default [of ?e d] S_has_default [of "?e\<lparr>default_vote := d\<rparr>" 1]
      R_default [of ?e d] show ?thesis by simp
  next
    case True
    obtain w3 e3 q where r: "gvotable_internal_run_election w ?e2 = (w3, e3, q)"
      by (metis prod_cases3)
    have "S ?e2" using e nb by (intro S_default) (simp_all add: e1)
    moreover have "notified ?e2" using n by (simp add: e1)
    ultimately have ok: "w3 = w" "S e3" "R e3" "\<not> q \<longrightarrow> notified e3"
      using run_election_elects [OF _ _ r] by auto
    have h: "has_default_vote e3 = 1"
      using r True by (auto simp: gvotable_internal_run_election_def gvotable_take_result_def
          gvotable_internal_update_result_def gvotable_internal_update_reason_def e1 Let_def
          split: prod.splits option.splits if_splits)
    obtain rc lg where cb: "gvotable_run_callback P w3 (e3\<lparr>re_lock := False\<rparr>)
        = (w3, e3\<lparr>re_lock := False, cb_log := lg\<rparr>, rc)"
      and nt: "notified (e3\<lparr>re_lock := False, cb_log := lg\<rparr>)"
      using run_callback_logs [of "e3\<lparr>re_lock := False\<rparr>" P w3] ok by auto
    have same: "x\<lparr>has_default_vote := 1\<rparr> = x" if "has_default_vote x = 1" for x :: gvotable_election
      using that by simp
    have "e' = (if q then e3\<lparr>re_lock := False, cb_log := lg\<rparr> else e3)\<lparr>cb_lock := False\<rparr>"
      using run lk nb True r cb ok(1) same [OF h] h
      by (auto simp: gvotable_set_default_def gv_defs e1 same)
    then show ?thesis
      using ok nt by auto
  qed
qed

lemma run_election_ok:
  assumes e: "S e" and n: "notified e"
    and run: "gvotable_run_election P me w e fc = Inr (w', e', ret)"
  shows "S e' \<and> R e' \<and> notified e'"
proof -
  from run obtain e1 where lk: "gvotable_lock_election me e = Inr e1"
    by (auto simp: gvotable_run_election_def split: sum.splits)
  have e1: "e1 = e\<lparr>cb_lock := True, re_lock := True, owner := me\<rparr>" by (rule lock_election_ok [OF lk])
  obtain w3 e3 q where r: "gvotable_internal_run_election w e1 = (w3, e3, q)"
    by (metis prod_cases3)
  have "S e1" "notified e1" using e n by (simp_all add: e1)
  then have ok: "w3 = w" "S e3" "R e3" "\<not> q \<longrightarrow> notified e3"
    using run_election_elects [OF _ _ r] by auto
  let ?e = "e3\<lparr>re_lock := False\<rparr>"
  obtain rc lg where cb: "gvotable_run_callback P w3 ?e = (w3, ?e\<lparr>cb_log := lg\<rparr>, rc)"
    and nt: "notified (?e\<lparr>cb_log := lg\<rparr>)"
    using run_callback_logs [of ?e P w3] ok by auto
  have nf: "\<not> force_result_is_enabled e3" using S_plain [OF ok(2)] by simp
  have "e' = (if callback e3 \<noteq> 0 \<and> (q \<or> fc) then ?e\<lparr>cb_log := lg\<rparr> else ?e)\<lparr>cb_lock := False\<rparr>"
    using run lk r cb nf
    by (auto simp: gvotable_run_election_def gvotable_unlock_result_def
        gvotable_unlock_callback_def Let_def split: if_splits)
  then show ?thesis
    using ok nt by (auto intro: notified_no_callback)
qed

lemma force_value_ok:
  assumes e: "S e" and n: "notified e" and l: "R e"
    and run: "debugfs_force_int_value P me w e v = Inr (w', e', ret)"
  shows "S e' \<and> R e' \<and> notified e'"
proof -
  from run obtain e1 where lk: "gvotable_lock_election me e = Inr e1"
    by (auto simp: debugfs_force_int_value_def Let_def split: sum.splits)
  have e1: "e1 = e\<lparr>cb_lock := True, re_lock := True, owner := me\<rparr>" by (rule lock_election_ok [OF lk])
  have "\<not> force_result_is_enabled e" using S_plain [OF e] by simp
  with run lk have "e' = e\<lparr>cb_lock := False, re_lock := False, owner := me, force_result := v\<rparr>"
    by (auto simp: debugfs_force_int_value_def gv_defs e1 Let_def split: if_splits)
  with e n l show ?thesis by simp
qed

lemma force_off_ok:
  assumes e: "S e" and n: "notified e" and l: "R e"
    and run: "debugfs_force_int_active P me w e 0 = Inr (w', e', ret)"
  shows "S e' \<and> R e' \<and> notified e'"
proof -
  from run obtain e1 where lk: "gvotable_lock_election me e = Inr e1"
    by (auto simp: debugfs_force_int_active_def split: sum.splits)
  have e1: "e1 = e\<lparr>cb_lock := True, re_lock := True, owner := me\<rparr>" by (rule lock_election_ok [OF lk])
  let ?e = "e1\<lparr>force_result_is_enabled := False, re_lock := False\<rparr>"
  have "?e = e1\<lparr>re_lock := False\<rparr>" using S_plain [OF e] by (simp add: e1)
  then have ok: "S ?e" "R ?e" "notified ?e"
    using e n l by (simp_all add: e1)
  obtain rc lg where cb: "gvotable_run_callback P w ?e = (w, ?e\<lparr>cb_log := lg\<rparr>, rc)"
    and nt: "notified (?e\<lparr>cb_log := lg\<rparr>)"
    using run_callback_logs [OF ok(1,2), of P w] by auto
  have "e' = (if callback e1 = 0 then ?e else ?e\<lparr>cb_log := lg\<rparr>)\<lparr>cb_lock := False\<rparr>"
    using run lk cb
    by (auto simp: debugfs_force_int_active_def gvotable_unlock_result_def
        gvotable_unlock_callback_def Let_def split: if_splits)
  then show ?thesis using ok nt by simp
qed

lemma exec_ok:
  assumes "S e" and "notified e" and "R e" and "orderly P W e op"
    and "el_exec P me w e op = Inr (w', e', ret)"
  shows "S e' \<and> R e' \<and> notified e'"
proof (cases op)
  case (Cast r v en)
  have "en \<or> r = None \<or> withdrawal_ok P W e (the r) v"
    using assms(4) Cast by (cases r; cases en) simp_all
  from cast_ok [OF assms(1-3) this] assms(5) Cast show ?thesis by simp
next
  case (CastInt v)
  then have "withdrawal_ok P W e (the (Some DEBUGFS_CAST_VOTE_REASON)) v"
    using assms(4) by simp
  note ok = cast_ok [OF assms(1-3) disjI2 [OF disjI2 [OF this]]]
  from assms(5) CastInt obtain en where
    "gvotable_cast_vote P me w e (Some DEBUGFS_CAST_VOTE_REASON) v en = Inr (w', e', ret)"
    by (auto simp: debugfs_cast_int_vote_def split: sum.splits)
  then show ?thesis by (rule ok)
next
  case (SetResult r v)
  with assms S_plain [OF assms(1)] show ?thesis by (auto simp: set_result_refused)
next
  case (Recast r en)
  with recast_ok [OF assms(1,2) _ assms(3)] assms(5) show ?thesis by simp
next
  case (SetDefault d)
  with set_default_ok [OF assms(1-3)] assms(5) show ?thesis by simp
next
  case (UseDefault b)
  with use_default_ok [OF assms(1,2) _ assms(3)] assms(5) show ?thesis by simp
next
  case (RunElection b)
  with run_election_ok [OF assms(1,2)] assms(5) show ?thesis by simp
next
  case (ForceValue v)
  with force_value_ok [OF assms(1-3)] assms(5) show ?thesis by simp
next
  case (ForceActive v)
  with force_off_ok [OF assms(1-3)] assms(4,5) show ?thesis by simp
qed

lemma run_ok:
  assumes "S e" and "notified e" and "R e" and "orderly_run P me W w e ops"
    and "el_run P me w e ops = Inr (w', e')"
  shows "S e' \<and> R e' \<and> notified e'"
  using assms
proof (induction ops arbitrary: w e)
  case (Cons op ops)
  then obtain w1 e1 r where x: "el_exec P me w e op = Inr (w1, e1, r)"
    by (auto split: sum.splits)
  from Cons.prems have "orderly P W e op" by simp
  from exec_ok [OF Cons.prems(1-3) this x] Cons.prems Cons.IH [of e1 w1] x show ?case
    by simp
qed simp

end

context ranking
begin

lemma not_none: "c \<noteq> gvotable_comparator_none"
  using cmp_zero [of undefined 0 0] by auto

lemma take_result_elects:
  assumes e: "ranked c key e" and n: "notified e" and r: "length r < 32"
    and run: "gvotable_take_result w e r v v = (w', e', req)"
  shows "w' = w \<and> votes e' = votes e \<and> ranked c key e' \<and> result_is_valid e' \<and> reason e' = r \<and>
         key (result e') = key v \<and> has_default_vote e' = has_default_vote e \<and>
         default_vote e' = default_vote e \<and> callback e' = callback e \<and> (\<not> req \<longrightarrow> notified e')"
proof -
  from e have plain: "\<not> use_alloc e" "auto_callback e" "cmp e = c"
    and len: "length (reason e) < 32"
    by (simp_all add: ranked_def)
  let ?ch = "\<not> result_is_valid e \<or> \<not> strncmp_eq 32 (reason e) r"
  let ?upd = "?ch \<or> el_cmp (heap w) (cmp e) (result e) v \<noteq> 0"
  from run have e': "e' = e\<lparr>reason := (if ?ch then strlcpy 32 r else reason e),
      result := (if ?upd then v else result e), result_is_valid := True\<rparr>"
    and w': "w' = w" and req: "req = ?upd"
    by (auto simp: take_result_plain [OF plain(1,2)] Let_def)
  have rsn: "reason e' = r"
    using r len by (simp add: e' strlcpy_short strncmp_eq_short)
  have res: "key (result e') = key v"
    using plain(3) by (simp add: e' cmp_zero)
  have "\<not> req \<longrightarrow> notified e'"
    using n by (auto simp: e' req notified_def split: list.splits)
  moreover have "ranked c key e'"
    using e rsn r by (auto simp: e' ranked_def)
  ultimately show ?thesis
    using rsn res by (simp add: w' e')
qed

lemma ranked_run_elects:
  assumes e: "ranked c key e" and n: "notified e"
    and run: "gvotable_internal_run_election w e = (w', e', req)"
  shows "w' = w \<and> votes e' = votes e \<and> ranked c key e' \<and> elected key e' \<and>
         callback e' = callback e \<and> (\<not> req \<longrightarrow> notified e')"
proof -
  from e have f: "\<not> force_result_is_enabled e" and nb: "\<not> is_bool_type e"
    and short: "\<And>b. b \<in> set (votes e) \<Longrightarrow> length (b_reason b) < 32"
    by (simp_all add: ranked_def)
  show ?thesis
  proof (cases "find b_enabled (votes e)")
    case (Some b)
    obtain w1 e1 q where t: "gvotable_take_result w e (b_reason b) (cur_vote b) (cur_vote b) = (w1, e1, q)"
      by (metis prod_cases3)
    have "b \<in> set (votes e)" using Some by (auto simp: find_Some_iff)
    from take_result_elects [OF e n short [OF this] t] Some t f nb run show ?thesis
      by (auto simp: gvotable_internal_run_election_def elected_def intro: notified_no_callback)
  next
    case None
    show ?thesis
    proof (cases "has_default_vote e = 1")
      case True
      obtain w1 e1 q where t: "gvotable_take_result w e default_reason (default_vote e) (default_vote e) = (w1, e1, q)"
        by (metis prod_cases3)
      have "length default_reason < 32" by simp
      from take_result_elects [OF e n this t] None True t f run show ?thesis
        by (auto simp: gvotable_internal_run_election_def elected_def intro: notified_no_callback)
    next
      case False
      with None f run have e': "e' = e\<lparr>result_is_valid := False, reason := []\<rparr>" "w' = w"
        and q: "req \<longleftrightarrow> result_is_valid e \<and> auto_callback e \<and> callback e \<noteq> 0"
        by (auto simp: gvotable_internal_run_election_def)
      have "\<not> req \<longrightarrow> notified e'"
        using n e q by (auto simp: e' notified_def ranked_def split: list.splits)
      with None e show ?thesis by (simp add: e' ranked_def elected_def)
    qed
  qed
qed

lemma add_ballot_ranked:
  assumes "ranked c key e" and "b_enabled b \<longleftrightarrow> en" and "b_vote_size b = 0"
    and "length (b_reason b) < 32"
  shows "ranked c key (gvotable_add_ballot w e b en)"
proof -
  from assms have "votes_ordered key (votes (gvotable_add_ballot w e b en))"
    by (intro add_ballot_ordered) (simp_all add: ranked_def)
  moreover have "set (votes (gvotable_add_ballot w e b en)) \<subseteq> insert b (set (votes e))"
    using assms(1) add_before_first_ordered [of "votes e" "heap w" b]
    by (auto simp: gvotable_add_ballot_def ranked_def split: option.splits if_splits)
  ultimately show ?thesis
    using assms by (auto simp: ranked_def gvotable_add_ballot_def split: option.splits if_splits)
qed

lemma remove_ranked: "ranked c key e \<Longrightarrow> ranked c key (e\<lparr>votes := remove_nth i (votes e)\<rparr>)"
  using set_remove_nth [of i "votes e"] by (auto simp: ranked_def votes_ordered_remove)

lemma update_ranked:
  assumes "ranked c key e" and "i < length (votes e)" and "\<not> b_enabled b"
    and "b_vote_size b = 0" and "length (b_reason b) < 32"
    and "key (cur_vote b) \<le> key (cur_vote (votes e ! i))"
  shows "ranked c key (e\<lparr>votes := (votes e)[i := b]\<rparr>)"
  using assms set_update_subset_insert [of "votes e" i b]
  by (auto simp: ranked_def votes_ordered_update)

end

lemma elected_force_result [simp]:
  "ranked c key (e\<lparr>force_result := v\<rparr>) = ranked c key e"
  "elected key (e\<lparr>force_result := v\<rparr>) = elected key e"
  "elected key (e\<lparr>num_voters := n\<rparr>) = elected key e"
  by (simp_all add: election_inv_defs cong: option.case_cong)

sublocale ranking \<subseteq> discipline "ranked c key" "elected key" "\<lambda>b v. key v \<le> key (cur_vote b)"
proof
  fix e :: gvotable_election and d :: ptr and h :: int
  assume e: "ranked c key e"
  show "cmp e \<noteq> gvotable_comparator_none \<and> \<not> use_alloc e \<and> \<not> force_result_is_enabled e \<and>
      (\<forall>b \<in> set (votes e). b_vote_size b = 0 \<and> length (b_reason b) < 32)"
    using e not_none by (simp add: ranked_def)
  show "ranked c key (e\<lparr>default_vote := d\<rparr>)" "ranked c key (e\<lparr>has_default_vote := h\<rparr>)"
    using e by (simp_all add: ranked_def)
  show "elected key (e\<lparr>default_vote := d, has_default_vote := 1\<rparr>)"
    if "elected key e" and "\<not> (has_default_vote e = 1 \<and> default_vote e \<noteq> d)"
    using that by (auto simp: elected_def split: option.splits)
qed ((simp; fail) | (simp add: ranked_def; fail)
    | (rule remove_ranked add_ballot_ranked update_ranked ranked_run_elects; assumption))+

interpretation int_cmp: ranking gvotable_comparator_int int_key
  by unfold_locales (auto simp: cmp_int_def Let_def)

interpretation int_min: ranking gvotable_comparator_int_min int_key
  by unfold_locales (auto simp: cmp_int_def Let_def)

interpretation int_max: ranking gvotable_comparator_int_max "\<lambda>p. - int_key p"
  by unfold_locales (auto simp: cmp_int_def Let_def)

interpretation uint_max: ranking gvotable_comparator_uint_max uint_key
  by unfold_locales (auto simp: cmp_uint_max_def Let_def word_less_def)

interpretation uint_min: ranking gvotable_comparator_uint_min "\<lambda>p. - uint_key p"
  by unfold_locales (auto simp: cmp_uint_max_def Let_def word_less_def)


text \<open>The ranking of the comparators that compare values: smaller is better.\<close>

fun rank_key :: "comparator \<Rightarrow> (ptr \<Rightarrow> int) option" where
  "rank_key gvotable_comparator_int = Some int_key"
| "rank_key gvotable_comparator_int_min = Some int_key"
| "rank_key gvotable_comparator_int_max = Some (\<lambda>p. - int_key p)"
| "rank_key gvotable_comparator_uint_max = Some uint_key"
| "rank_key gvotable_comparator_uint_min = Some (\<lambda>p. - uint_key p)"
| "rank_key _ = None"

lemma rank_key_ranking: "rank_key c = Some key \<Longrightarrow> ranking c key"
  by (cases c) (auto intro: int_cmp.ranking_axioms int_min.ranking_axioms int_max.ranking_axioms
      uint_max.ranking_axioms uint_min.ranking_axioms)

subsection \<open>Bool elections\<close>

definition bool_shape :: "gvotable_election \<Rightarrow> bool" where
  "bool_shape e \<longleftrightarrow>
     cmp e = gvotable_comparator_bool \<and> \<not> use_alloc e \<and> is_bool_type e \<and> auto_callback e \<and>
     \<not> force_result_is_enabled e \<and> has_default_vote e = 1 \<and> default_vote e = 0 \<and>
     (\<forall>b \<in> set (votes e). b_vote_size b = 0 \<and> length (b_reason b) < 32)"

definition bool_elected :: "gvotable_election \<Rightarrow> bool" where
  "bool_elected e \<longleftrightarrow>
     result_is_valid e \<and> result e = (if \<exists>b \<in> set (votes e). b_enabled b then 1 else 0)"

lemma set_add_before_first:
  "add_before_first f b bs = Some bs' \<Longrightarrow> set bs' = insert b (set bs)"
  by (induction bs arbitrary: bs') (auto split: if_splits)

lemma bool_run_elects:
  assumes "bool_shape e" and "gvotable_internal_run_election w e = (w', e', q)"
  shows "w' = w \<and> votes e' = votes e \<and> bool_shape e' \<and> bool_elected e' \<and>
         callback e' = callback e \<and> (\<not> q \<longrightarrow> notified e')"
proof (cases "find b_enabled (votes e)")
  case (Some b)
  then have "\<exists>b \<in> set (votes e). b_enabled b" by (auto simp: find_Some_iff)
  with Some assms show ?thesis
    by (auto simp: gvotable_internal_run_election_def bool_shape_def bool_elected_def
        take_result_plain Let_def intro: notified_no_callback)
next
  case None
  then have "\<not> (\<exists>b \<in> set (votes e). b_enabled b)" by (simp add: find_None_iff)
  with None assms show ?thesis
    by (auto simp: gvotable_internal_run_election_def bool_shape_def bool_elected_def
        take_result_plain Let_def intro: notified_no_callback)
qed

interpretation bool_el: discipline bool_shape bool_elected "\<lambda>b v. True"
proof
  fix e :: gvotable_election and i :: nat and b :: ballot and en :: bool and w :: gvs
  assume e: "bool_shape e"
  show "bool_shape (e\<lparr>votes := remove_nth i (votes e)\<rparr>)"
    using e set_remove_nth [of i "votes e"] by (auto simp: bool_shape_def)
  assume b: "b_vote_size b = 0" "length (b_reason b) < 32"
  show "bool_shape (gvotable_add_ballot w e b en)"
    using e b by (auto simp: bool_shape_def gvotable_add_ballot_def dest!: set_add_before_first
        split: option.splits if_splits)
  show "bool_shape (e\<lparr>votes := (votes e)[i := b]\<rparr>)"
    using e b set_update_subset_insert [of "votes e" i b] by (auto simp: bool_shape_def)
qed ((simp add: bool_shape_def bool_elected_def; fail) | (rule bool_run_elects; assumption))+

end
