(* ===== verification/GVotableProps.thy ===== *)
theory GVotableProps
  imports GVotableInv
begin

text \<open>
  The properties of the election library: the result and the callback under the comparators
  that compare values, bool elections, the locks, the votes read back, and names.
\<close>

subsection \<open>Creation\<close>

lemma needs_alloc_int [simp]: "\<not> gvotable_needs_alloc 4"
  by (simp add: gvotable_needs_alloc_def size_of_int_def)

lemma debugfs_create_el_frame:
  "gvotable_debugfs_create_el s w = (w', s') \<Longrightarrow>
     elections w' = elections w \<and> gvotables w' = gvotables w \<and> slot_el s' = slot_el s"
  by (auto simp: gvotable_debugfs_create_el_def Let_def split: option.splits if_splits)

lemma debugfs_create_el_int_elections [simp]:
  "elections (fst (gvotable_debugfs_create_el_int s w)) = elections w"
  "gvotables (fst (gvotable_debugfs_create_el_int s w)) = gvotables w"
  by (simp_all add: gvotable_debugfs_create_el_int_def Let_def split: option.splits)

text \<open>What \<^verbatim>\<open>gvotable_create_election\<close> leaves at the address it returns.\<close>

definition created :: "gv_params \<Rightarrow> string option \<Rightarrow> gvotable_election \<Rightarrow> gvotable_election" where
  "created P nm e =
     (case nm of
        None \<Rightarrow> e
      | Some n \<Rightarrow> e\<lparr>has_name := True, hash := gvotable_internal_hash P n, name := strlcpy 16 n\<rparr>)"

lemma create_election_result:
  assumes "gvotable_create_election P w nm 4 c cb d = (w', el)" and "el \<noteq> 0"
  shows "elections w' = (elections w)(el \<mapsto> created P nm
           (fresh_election 4 (case c of None \<Rightarrow> gvotable_comparator_none | Some c \<Rightarrow> c) cb d)) \<and>
         (\<exists>s. slot_el s = el \<and> gvotables w' = s # gvotables w) \<and>
         gvotable_find_internal P w nm = None"
proof -
  have uf: "use_alloc (fresh_election 4 c cb d) = False" for c
    by (simp add: fresh_election_def)
  have res: "(fresh_election 4 c cb d)\<lparr>result := 0\<rparr> = fresh_election 4 c cb d" for c
    by (simp add: fresh_election_def)
  obtain slot w1 where k1: "kzalloc 0 w = (slot, w1)" by fastforce
  obtain h w2 where k2: "kzalloc 0 w1 = (h, w2)" by fastforce
  have ew: "elections w2 = elections w" "gvotables w2 = gvotables w"
    using k1 k2 by (auto simp: kzalloc_def split: list.splits)
  let ?e = "fresh_election 4 (case c of None \<Rightarrow> gvotable_comparator_none | Some c \<Rightarrow> c) cb d"
  let ?s = "\<lparr>slot_el = h, slot_de = False\<rparr>"
  obtain w4 s4 where w4: "(case nm of None \<Rightarrow> (set_election h ?e w2, ?s)
      | Some n \<Rightarrow> gvotable_debugfs_create_el ?s (set_election h (created P nm ?e) w2)) = (w4, s4)"
    by fastforce
  have f: "elections w4 = (elections w)(h \<mapsto> created P nm ?e)" "gvotables w4 = gvotables w" "slot_el s4 = h"
    using w4 ew
    by (auto simp: set_election_def dest!: debugfs_create_el_frame split: option.splits)
      (auto simp: created_def)
  have "w' = gvotable_add_internal s4 w4" "el = h" "gvotable_find_internal P w nm = None"
    using assms k1 k2 w4
    by (auto simp: gvotable_create_election_def uf res created_def Let_def
        split: if_splits option.splits)
  then show ?thesis
    using f by (auto simp: gvotable_add_internal_def)
qed

lemma create_int_election_result:
  assumes "gvotable_create_int_election P w nm c cb d = (w', el)" and "el \<noteq> 0"
  shows "elections w' = (elections w)(el \<mapsto> (created P nm (fresh_election 4
           (case c of None \<Rightarrow> gvotable_comparator_none | Some c \<Rightarrow> c) cb d))\<lparr>is_int_type := True\<rparr>) \<and>
         (\<exists>s. slot_el s = el \<and> gvotables w' = s # gvotables w) \<and>
         gvotable_find_internal P w nm = None"
proof -
  obtain w1 h where c: "gvotable_create_election P w nm 4 c cb d = (w1, h)" by fastforce
  have h: "h = el"
    using assms c by (auto simp: gvotable_create_int_election_def Let_def split: option.splits if_splits)
  note r = create_election_result [OF c [unfolded h] assms(2)]
  then show ?thesis
    using assms c h by (auto simp: gvotable_create_int_election_def Let_def set_election_def
        split: option.splits if_splits)
qed

lemma created_int_ok:
  assumes "ranking c key"
  shows "ranked c key ((created P nm (fresh_election 4 c cb d))\<lparr>is_int_type := True\<rparr>)"
    and "elected key ((created P nm (fresh_election 4 c cb d))\<lparr>is_int_type := True\<rparr>)"
    and "notified ((created P nm (fresh_election 4 c cb d))\<lparr>is_int_type := True\<rparr>)"
  by (simp_all add: ranked_def elected_def notified_def created_def fresh_election_def
      votes_ordered_def split: option.splits)

lemma int_run_ok:
  assumes "rank_key c = Some key"
    and "gvotable_create_int_election P w nm (Some c) cb d = (w0, el)" and "el \<noteq> 0"
    and "orderly_run P me (\<lambda>b v. key v \<le> key (cur_vote b)) w0 (the (elections w0 el)) ops"
    and "el_run P me w0 (the (elections w0 el)) ops = Inr (w', e)"
  shows "ranked c key e \<and> elected key e \<and> notified e"
proof -
  note e0 = created_int_ok [of c key P nm cb d, OF rank_key_ranking [OF assms(1)]]
  have e: "the (elections w0 el) = (created P nm (fresh_election 4 c cb d))\<lparr>is_int_type := True\<rparr>"
    using create_int_election_result [OF assms(2,3)] by simp
  from assms(1,4,5) e0 show ?thesis
    unfolding e
    by (cases c) (auto dest: int_cmp.run_ok int_min.run_ok int_max.run_ok uint_max.run_ok uint_min.run_ok)
qed

definition wit_params :: gv_params where
  "wit_params = \<lparr>full_name_hash = (\<lambda>s. of_nat (length s)), client_callback = (\<lambda>_ _ _ _. ([], 0))\<rparr>"

definition wit_world :: gvs where
  "wit_world =
     \<lparr>heap = (\<lambda>_. []), allocs = [0x1000, 0x2000, 0x3000, 0x4000, 0x5000], freed = [],
      elections = Map.empty, gvotables = [], debugfs_root = False, debugfs_files = []\<rparr>"

lemmas gv_eval = gvotable_cast_vote_def gvotable_recast_ballot_def gvotable_set_default_def
  gvotable_use_default_def gvotable_run_election_def debugfs_force_int_active_def
  debugfs_force_int_value_def lock_defs gvotable_ballot_find_internal_def
  gvotable_internal_hash_def kzalloc_def new_ballot_def strlcpy_def strncmp_eq_def
  gvotable_update_ballot_def gvotable_add_ballot_def gvotable_run_and_unlock_def
  gvotable_internal_run_election_def gvotable_take_result_def gvotable_internal_update_result_def
  gvotable_internal_copy_result_def gvotable_internal_update_reason_def gvotable_run_callback_def
  el_callback_def gvotable_create_election_def gvotable_create_int_election_def
  gvotable_create_bool_election_def gvotable_find_internal_def slot_named_def
  gvotable_debugfs_create_el_def gvotable_debugfs_create_el_int_def gvotable_add_internal_def
  set_election_def fresh_election_def remove_nth_def cmp_int_def cmp_uint_max_def
  gvotable_election_set_result_def withdrawal_ok_def

subsection \<open>Results\<close>

text \<open>
  C6. Elections over values elect the best enabled ballot. After any sequence of operations on
  an integer election created with one of the comparators that compare values, in which no
  existing ballot is withdrawn with a value that its old value beats and the result is not forced,
  the result is valid as soon as a ballot is enabled; it carries the reason and the value of an
  enabled ballot, and no enabled ballot has a better value. Without an enabled ballot a valid
  result is the default vote.
\<close>

theorem gv_result_is_best:
  assumes "rank_key c = Some key"
    and "gvotable_create_int_election P w nm (Some c) cb d = (w0, el)" and "el \<noteq> 0"
    and "orderly_run P me (\<lambda>b v. key v \<le> key (cur_vote b)) w0 (the (elections w0 el)) ops"
    and "el_run P me w0 (the (elections w0 el)) ops = Inr (w', e)"
  shows "if \<exists>b \<in> set (votes e). b_enabled b
    then result_is_valid e \<and>
      (\<exists>b \<in> set (votes e). b_enabled b \<and> reason e = b_reason b \<and> key (result e) = key (cur_vote b)) \<and>
      (\<forall>b \<in> set (votes e). b_enabled b \<longrightarrow> key (result e) \<le> key (cur_vote b))
    else result_is_valid e \<longrightarrow>
      has_default_vote e = 1 \<and> reason e = default_reason \<and> key (result e) = key (default_vote e)"
proof -
  have ok: "votes_ordered key (votes e)" "elected key e"
    using int_run_ok [OF assms] by (simp_all add: ranked_def)
  show ?thesis
  proof (cases "find b_enabled (votes e)")
    case None
    then have "\<not> (\<exists>b \<in> set (votes e). b_enabled b)" by (simp add: find_None_iff)
    with None ok show ?thesis by (simp add: elected_def)
  next
    case (Some b)
    from first_enabled_best [OF ok(1) Some] ok(2) Some show ?thesis
      by (auto simp: elected_def)
  qed
qed

abbreviation wit_min :: "gvs \<times> ptr" where
  "wit_min \<equiv> gvotable_create_int_election wit_params wit_world (Some ''msc'')
     (Some gvotable_comparator_int_min) 0x900 0"

abbreviation wit_el :: "gvs \<times> ptr \<Rightarrow> gvotable_election" where
  "wit_el c \<equiv> the (elections (fst c) (snd c))"

text \<open>Two clients ask for 5 and 3, the second withdraws: the result is 5.\<close>

theorem gv_result_is_best_witness:
  "\<exists>w' e. el_run wit_params 7 (fst wit_min) (wit_el wit_min)
      [Cast (Some ''A'') 5 True, Cast (Some ''B'') 3 True, Cast (Some ''B'') 3 False] = Inr (w', e) \<and>
     result e = 5 \<and> (\<exists>b \<in> set (votes e). b_enabled b) \<and>
     (\<forall>b \<in> set (votes e). b_enabled b \<longrightarrow> int_key (result e) \<le> int_key (cur_vote b))"
proof -
  let ?ops = "[Cast (Some ''A'') 5 True, Cast (Some ''B'') 3 True, Cast (Some ''B'') 3 False]"
  obtain w' e where run: "el_run wit_params 7 (fst wit_min) (wit_el wit_min) ?ops = Inr (w', e)"
    and r: "result e = 5" and b: "\<exists>b \<in> set (votes e). b_enabled b"
    by (simp add: wit_params_def wit_world_def gv_eval)
  have "orderly_run wit_params 7 (\<lambda>b v. int_key v \<le> int_key (cur_vote b)) (fst wit_min) (wit_el wit_min) ?ops"
    by (simp add: wit_params_def wit_world_def gv_eval)
  moreover have "snd wit_min \<noteq> 0"
    by (simp add: wit_params_def wit_world_def gv_eval)
  ultimately show ?thesis
    using gv_result_is_best [of gvotable_comparator_int_min int_key wit_params wit_world "Some ''msc''"
        "0x900" 0 "fst wit_min" "snd wit_min" 7 ?ops w' e] run r b
    by auto
qed

text \<open>
  C7. The owner of an election knows the result. Under the conditions of the previous property,
  when the election has a callback, the latest call to it carried the current reason and
  result, or no result when there is none; while it was never called there is no result.
\<close>

theorem gv_callback_told_latest:
  assumes "rank_key c = Some key"
    and "gvotable_create_int_election P w nm (Some c) cb d = (w0, el)" and "el \<noteq> 0"
    and "orderly_run P me (\<lambda>b v. key v \<le> key (cur_vote b)) w0 (the (elections w0 el)) ops"
    and "el_run P me w0 (the (elections w0 el)) ops = Inr (w', e)" and "callback e \<noteq> 0"
  shows "case cb_log e of
      [] \<Rightarrow> \<not> result_is_valid e
    | call # _ \<Rightarrow> call = (if result_is_valid e then (Some (reason e), result e) else (None, snd call))"
proof -
  have "notified e" "\<not> is_bool_type e" using int_run_ok [OF assms(1-5)] by (simp_all add: ranked_def)
  with assms(6) show ?thesis by (auto simp: notified_def split: list.splits)
qed

theorem gv_callback_told_latest_witness:
  "\<exists>w' e. el_run wit_params 7 (fst wit_min) (wit_el wit_min)
      [Cast (Some ''A'') 5 True, Cast (Some ''B'') 3 True] = Inr (w', e) \<and>
     (\<exists>l. cb_log e = (Some (reason e), result e) # l) \<and> result e = 3"
proof -
  let ?ops = "[Cast (Some ''A'') 5 True, Cast (Some ''B'') 3 True]"
  obtain w' e where run: "el_run wit_params 7 (fst wit_min) (wit_el wit_min) ?ops = Inr (w', e)"
    and r: "result e = 3" "result_is_valid e" "callback e \<noteq> 0"
    by (simp add: wit_params_def wit_world_def gv_eval)
  have "orderly_run wit_params 7 (\<lambda>b v. int_key v \<le> int_key (cur_vote b)) (fst wit_min) (wit_el wit_min) ?ops"
    by (simp add: wit_params_def wit_world_def gv_eval)
  moreover have "snd wit_min \<noteq> 0"
    by (simp add: wit_params_def wit_world_def gv_eval)
  ultimately show ?thesis
    using gv_callback_told_latest [of gvotable_comparator_int_min int_key wit_params wit_world
        "Some ''msc''" "0x900" 0 "fst wit_min" "snd wit_min" 7 ?ops w' e] run r
    by (auto split: list.splits)
qed

text \<open>
  Bool elections. After any sequence of operations on a bool election in which the result
  is not forced, the result is valid and is 1 when some ballot is enabled, 0 otherwise, and the
  callback, when there is one and it was called, was told that result.
\<close>

definition never_forced :: "el_op list \<Rightarrow> bool" where
  "never_forced ops \<longleftrightarrow> (\<forall>op \<in> set ops. case op of ForceActive v \<Rightarrow> v = 0 | _ \<Rightarrow> True)"

lemma never_forced_orderly:
  "never_forced ops \<Longrightarrow> orderly_run P me (\<lambda>_ _. True) w e ops"
proof (induction ops arbitrary: w e)
  case (Cons op ops)
  have "orderly P (\<lambda>_ _. True) e op"
    using Cons.prems
    by (cases "(P, (\<lambda>(_ :: ballot) (_ :: ptr). True), e, op)" rule: orderly.cases)
      (auto simp: never_forced_def withdrawal_ok_def split: option.splits)
  with Cons show ?case by (auto simp: never_forced_def split: sum.splits)
qed simp

lemma create_bool_election_result:
  assumes "gvotable_create_bool_election P me w nm cb d = Inr (w', el)" and "el \<noteq> 0"
  shows "bool_shape (the (elections w' el)) \<and> bool_elected (the (elections w' el)) \<and>
         notified (the (elections w' el))"
proof -
  obtain w1 h where c: "gvotable_create_election P w nm 4 (Some gvotable_comparator_bool) cb d = (w1, h)"
    by fastforce
  have h: "h = el"
    using assms c by (auto simp: gvotable_create_bool_election_def Let_def
        split: option.splits if_splits sum.splits prod.splits)
  let ?e = "created P nm (fresh_election 4 gvotable_comparator_bool cb d)"
  have "elections w1 el = Some ?e"
    using create_election_result [OF c [unfolded h] assms(2)] by simp
  with assms c h show ?thesis
    by (auto simp: gvotable_create_bool_election_def Let_def gvotable_set_default_def
        gvotable_internal_run_election_def take_result_plain created_def fresh_election_def
        set_election_def lock_defs bool_shape_def bool_elected_def notified_def strncmp_eq_def
        strlcpy_def
        split: option.splits if_splits sum.splits prod.splits)
qed

theorem gv_bool_result:
  assumes "gvotable_create_bool_election P me w nm cb d = Inr (w0, el)" and "el \<noteq> 0"
    and "never_forced ops" and "el_run P me w0 (the (elections w0 el)) ops = Inr (w', e)"
  shows "result_is_valid e \<and> result e = (if \<exists>b \<in> set (votes e). b_enabled b then 1 else 0) \<and>
    (callback e \<noteq> 0 \<and> cb_log e \<noteq> [] \<longrightarrow> hd (cb_log e) = (Some (reason e), result e))"
proof -
  have "bool_elected e \<and> notified e"
    using bool_el.run_ok [OF _ _ _ never_forced_orderly [OF assms(3)] assms(4)]
      create_bool_election_result [OF assms(1,2)] by simp
  then show ?thesis
    by (auto simp: bool_elected_def notified_def split: list.splits if_splits)
qed

abbreviation wit_bool :: "gvs \<times> ptr" where
  "wit_bool \<equiv> projr (gvotable_create_bool_election wit_params 7 wit_world (Some ''en'') 0x900 0)"

theorem gv_bool_result_witness:
  "\<exists>w' e. el_run wit_params 7 (fst wit_bool) (wit_el wit_bool)
      [Cast (Some ''A'') 0 True, Cast (Some ''B'') 9 True, Cast (Some ''A'') 1 False] = Inr (w', e) \<and>
     result_is_valid e \<and> result e = 1 \<and> hd (cb_log e) = (Some (reason e), 1)"
proof -
  let ?ops = "[Cast (Some ''A'') 0 True, Cast (Some ''B'') 9 True, Cast (Some ''A'') 1 False]"
  obtain w' e where run: "el_run wit_params 7 (fst wit_bool) (wit_el wit_bool) ?ops = Inr (w', e)"
    and b: "\<exists>b \<in> set (votes e). b_enabled b" "callback e \<noteq> 0" "cb_log e \<noteq> []"
    by (simp add: wit_params_def wit_world_def gv_eval)
  have "gvotable_create_bool_election wit_params 7 wit_world (Some ''en'') 0x900 0
      = Inr (fst wit_bool, snd wit_bool)" and "snd wit_bool \<noteq> 0"
    by (simp_all add: wit_params_def wit_world_def gv_eval)
  moreover have "never_forced ?ops" by (simp add: never_forced_def)
  ultimately show ?thesis
    using gv_bool_result [of wit_params 7 wit_world "Some ''en''" "0x900" 0 "fst wit_bool"
        "snd wit_bool" ?ops w' e] run b by auto
qed

end
