(* ===== verification/GVotableSafety.thy ===== *)
theory GVotableSafety
  imports GVotableProps
begin

text \<open>
  Locks, votes read back, lookups by name and the debugfs text of the election library, and the
  operations whose effect differs from what their callers rely on.
\<close>

subsection \<open>Locks\<close>

abbreviation locks :: "gvotable_election \<Rightarrow> bool \<times> bool" where
  "locks e \<equiv> (cb_lock e, re_lock e)"

lemma set_result_locks:
  "gvotable_election_set_result w e r v = (w', e', ret) \<Longrightarrow> locks e' = locks e"
  by (auto simp: gvotable_election_set_result_def gvotable_internal_update_result_def
      gvotable_internal_update_reason_def Let_def split: option.splits if_splits prod.splits)

lemma callback_results_locks: "callback_results w e sets = (w', e') \<Longrightarrow> locks e' = locks e"
proof (induction sets arbitrary: w e)
  case (Cons x xs)
  obtain r v where x: "x = (r, v)" by fastforce
  obtain w1 e1 t where s: "gvotable_election_set_result w e r v = (w1, e1, t)"
    by (metis prod_cases3)
  from Cons.prems have "callback_results w1 e1 xs = (w', e')" by (simp add: x s)
  from Cons.IH [OF this] set_result_locks [OF s] show ?case by simp
qed simp

lemma el_callback_locks: "el_callback P w e r v = (w', e', ret) \<Longrightarrow> locks e' = locks e"
  by (auto simp: el_callback_def split: prod.splits dest!: callback_results_locks)

lemma run_callback_locks: "gvotable_run_callback P w e = (w', e', ret) \<Longrightarrow> locks e' = locks e"
  by (auto simp: gvotable_run_callback_def dest!: el_callback_locks split: if_splits)

lemma take_result_locks: "gvotable_take_result w e r v nv = (w', e', q) \<Longrightarrow> locks e' = locks e"
  by (auto simp: gvotable_take_result_def gvotable_internal_update_result_def
      gvotable_internal_update_reason_def Let_def split: if_splits prod.splits)

lemma run_election_locks:
  "gvotable_internal_run_election w e = (w', e', q) \<Longrightarrow> locks e' = locks e"
  by (auto simp: gvotable_internal_run_election_def dest: take_result_locks
      split: if_splits option.splits prod.splits)

lemma run_and_unlock_locks:
  "gvotable_run_and_unlock P w e r = (w', e', ret) \<Longrightarrow> locks e' = (False, False)"
  by (auto simp: gvotable_run_and_unlock_def gvotable_unlock_result_def gvotable_unlock_callback_def
      dest!: run_callback_locks split: if_splits prod.splits)

lemma lock_election_free:
  "locks e = (False, False) \<Longrightarrow>
     gvotable_lock_election me e = Inr (e\<lparr>cb_lock := True, re_lock := True, owner := me\<rparr>)"
  by (simp add: lock_defs)

lemma add_ballot_locks [simp]: "cb_lock (gvotable_add_ballot w e b en) = cb_lock e"
  "re_lock (gvotable_add_ballot w e b en) = re_lock e"
  by (simp_all add: gvotable_add_ballot_def split: option.splits)

text \<open>An outcome that returned with both locks free.\<close>

definition released :: "gv_stop + gvs \<times> gvotable_election \<times> int \<Rightarrow> bool" where
  "released x \<longleftrightarrow> (case x of Inl _ \<Rightarrow> False | Inr (w, e, r) \<Rightarrow> locks e = (False, False))"

lemma released_run_and_unlock [simp]: "released (Inr (gvotable_run_and_unlock P w e r))"
  using run_and_unlock_locks by (cases "gvotable_run_and_unlock P w e r") (fastforce simp: released_def)

lemma released_unlock_election [simp]: "released (Inr (w, gvotable_unlock_election e, r))"
  by (simp add: released_def gvotable_unlock_election_def)

lemma released_unlock_callback:
  "re_lock e = False \<Longrightarrow> released (Inr (w, gvotable_unlock_callback e, r))"
  by (simp add: released_def gvotable_unlock_callback_def)

lemma released_same: "locks e = (False, False) \<Longrightarrow> released (Inr (w, e, r))"
  by (simp add: released_def)

lemma cast_released:
  "locks e = (False, False) \<Longrightarrow> released (gvotable_cast_vote P me w e rsn v en)"
  by (simp add: gvotable_cast_vote_def lock_election_free Let_def released_same
      split: option.split prod.split)

lemma recast_released:
  "locks e = (False, False) \<Longrightarrow> released (gvotable_recast_ballot P me w e rsn en)"
  by (auto simp: gvotable_recast_ballot_def lock_election_free Let_def released_def
      gvotable_unlock_election_def dest!: run_and_unlock_locks
      split: option.splits prod.splits if_splits)

lemma run_election_released:
  "locks e = (False, False) \<Longrightarrow> released (gvotable_run_election P me w e fc)"
  by (auto simp: gvotable_run_election_def lock_election_free Let_def released_def
      gvotable_unlock_result_def gvotable_unlock_callback_def
      dest!: run_callback_locks el_callback_locks run_election_locks
      split: option.splits prod.splits if_splits)

lemma force_released:
  "locks e = (False, False) \<Longrightarrow> released (debugfs_force_int_value P me w e v)"
  "locks e = (False, False) \<Longrightarrow> released (debugfs_force_int_active P me w e v)"
  by (auto simp: debugfs_force_int_value_def debugfs_force_int_active_def lock_election_free
      Let_def released_def gvotable_unlock_result_def gvotable_unlock_callback_def
      dest!: run_callback_locks el_callback_locks
      split: option.splits prod.splits if_splits)

text \<open>
  Every operation on an election but setting the default returns and leaves both locks
  free, whatever the election, its votes, the memory and the callbacks are, when it starts with
  both free.
\<close>

theorem gv_operations_release_locks:
  assumes "locks e = (False, False)" and "\<forall>v. op \<noteq> SetDefault v"
  shows "\<exists>w' e' ret. el_exec P me w e op = Inr (w', e', ret) \<and> locks e' = (False, False)"
proof -
  have "released (el_exec P me w e op)"
  proof (cases op)
    case (UseDefault b)
    with assms show ?thesis
      by (auto simp: gvotable_use_default_def lock_election_free released_def
          dest!: run_and_unlock_locks split: prod.splits)
  next
    case (SetResult r v)
    with assms show ?thesis
      by (auto simp: released_def dest!: set_result_locks split: prod.splits)
  next
    case (CastInt v)
    with assms cast_released [OF assms(1)] show ?thesis
      by (auto simp: debugfs_cast_int_vote_def gvotable_is_enabled_def gvotable_lock_result_def
          split: option.splits sum.splits)
  qed (use assms in \<open>auto intro: cast_released recast_released run_election_released force_released\<close>)
  then show ?thesis
    by (auto simp: released_def split: sum.splits)
qed

theorem gv_operations_release_locks_witness:
  "\<exists>w' e' ret. el_exec wit_params 7 (fst wit_min) (wit_el wit_min) (Cast (Some ''A'') 5 True)
     = Inr (w', e', ret) \<and> locks e' = (False, False)"
  using gv_operations_release_locks [of "wit_el wit_min" "Cast (Some ''A'') 5 True" wit_params 7
      "fst wit_min"]
  by (simp add: wit_params_def wit_world_def gvotable_create_int_election_def
      gvotable_create_election_def gvotable_find_internal_def kzalloc_def fresh_election_def
      gvotable_debugfs_create_el_def set_election_def gvotable_add_internal_def
      gvotable_debugfs_create_el_int_def slot_named_def gvotable_internal_hash_def
      strlcpy_def strncmp_eq_def)

text \<open>
  C8. Changing the default leaks the result lock. When the default of an election with both
  locks free changes and re-running the election asks for no callback (an enabled ballot still
  wins, or there is no callback), \<^verbatim>\<open>gvotable_set_default\<close> returns 0 with the result lock held;
  casting a vote, with any reason, or reading the result then never returns.
\<close>

theorem gv_set_default_leaks_lock:
  assumes "locks e = (False, False)" and "\<not> is_bool_type e" and "has_default_vote e = 1"
    and "default_vote e \<noteq> d"
    and "\<not> snd (snd (gvotable_internal_run_election w
             (e\<lparr>cb_lock := True, re_lock := True, owner := me, default_vote := d\<rparr>)))"
  shows "\<exists>w' e'. gvotable_set_default P me w e d = Inr (w', e', 0) \<and> re_lock e' \<and>
    gvotable_get_current_vote e' True = Inl Blocked \<and>
    (r \<noteq> [] \<and> v \<noteq> 0 \<longrightarrow> gvotable_cast_vote P you w' e' (Some r) v en = Inl Blocked)"
proof -
  let ?e = "e\<lparr>cb_lock := True, re_lock := True, owner := me, default_vote := d\<rparr>"
  obtain w1 e1 q where r: "gvotable_internal_run_election w ?e = (w1, e1, q)"
    by (metis prod_cases3)
  have "locks e1 = (True, True)" using run_election_locks [OF r] by simp
  moreover have "gvotable_set_default P me w e d
      = Inr (w1, e1\<lparr>has_default_vote := 1, cb_lock := False\<rparr>, 0)"
    using assms r lock_election_free [OF assms(1), of me]
    by (simp add: gvotable_set_default_def gvotable_unlock_callback_def)
  ultimately show ?thesis
    by (simp add: gvotable_get_current_vote_def gvotable_cast_vote_def lock_defs)
qed

text \<open>One vote, then the default is set and changed.\<close>

abbreviation wit_default :: "gvs \<times> gvotable_election" where
  "wit_default \<equiv> projr (el_run wit_params 7 (fst wit_min) (wit_el wit_min)
     [Cast (Some ''A'') 5 True, SetDefault 1])"

theorem gv_set_default_leaks_lock_witness:
  "\<exists>w' e'. gvotable_set_default wit_params 7 (fst wit_default) (snd wit_default) 2 = Inr (w', e', 0) \<and>
     re_lock e' \<and> gvotable_get_current_vote e' True = Inl Blocked"
proof -
  have a: "locks (snd wit_default) = (False, False)" "\<not> is_bool_type (snd wit_default)"
    "has_default_vote (snd wit_default) = 1" "default_vote (snd wit_default) \<noteq> 2"
    "\<not> snd (snd (gvotable_internal_run_election (fst wit_default)
       ((snd wit_default)\<lparr>cb_lock := True, re_lock := True, owner := 7, default_vote := 2\<rparr>)))"
    by (simp_all add: wit_params_def wit_world_def gv_eval)
  show ?thesis
    using gv_set_default_leaks_lock [OF a, of wit_params "''A''" 1 0 True] by blast
qed

subsection \<open>Forced results and withdrawn ballots\<close>

text \<open>What the owner of an election sees.\<close>

abbreviation shown :: "gvotable_election \<Rightarrow> ptr \<times> string \<times> bool" where
  "shown e \<equiv> (result e, reason e, result_is_valid e)"

abbreviation forced :: "gvotable_election \<Rightarrow> bool" where
  "forced e \<equiv> force_result_is_enabled e \<and> cmp e \<noteq> gvotable_comparator_none"

lemma forced_run_election:
  "force_result_is_enabled e \<Longrightarrow> gvotable_internal_run_election w e = (w, e, False)"
  by (simp add: gvotable_internal_run_election_def)

lemma forced_run_and_unlock:
  "force_result_is_enabled e \<Longrightarrow> gvotable_run_and_unlock P w e r =
     (w, e\<lparr>re_lock := False, cb_lock := False\<rparr>, r)"
  by (simp add: gvotable_run_and_unlock_def forced_run_election gvotable_unlock_result_def
      gvotable_unlock_callback_def)

lemma add_ballot_shown [simp]:
  "result (gvotable_add_ballot w e b en) = result e" "reason (gvotable_add_ballot w e b en) = reason e"
  "result_is_valid (gvotable_add_ballot w e b en) = result_is_valid e"
  "force_result_is_enabled (gvotable_add_ballot w e b en) = force_result_is_enabled e"
  "cmp (gvotable_add_ballot w e b en) = cmp e"
  "force_result (gvotable_add_ballot w e b en) = force_result e"
  "is_bool_type (gvotable_add_ballot w e b en) = is_bool_type e"
  by (simp_all add: gvotable_add_ballot_def split: option.splits)

text \<open>An outcome that shows what was shown before.\<close>

definition hidden :: "gvotable_election \<Rightarrow> gv_stop + gvs \<times> gvotable_election \<times> int \<Rightarrow> bool" where
  "hidden e x \<longleftrightarrow>
     (case x of Inl _ \<Rightarrow> True
      | Inr (w, e', r) \<Rightarrow> shown e' = shown e \<and> forced e' \<and> force_result e' = force_result e)"

lemma hidden_intros:
  assumes "shown x = shown e" and "forced x" and "force_result x = force_result e"
  shows "hidden e (Inr (w, x, r))" "hidden e (Inr (w, gvotable_unlock_election x, r))"
    "hidden e (Inr (gvotable_run_and_unlock P w x r))"
  using assms by (simp_all add: hidden_def gvotable_unlock_election_def forced_run_and_unlock)

lemma forced_cast_hidden:
  assumes "forced e"
  shows "hidden e (gvotable_cast_vote P me w e r v en)"
proof (cases "gvotable_lock_election me e")
  case (Inl s)
  with assms show ?thesis
    by (simp add: gvotable_cast_vote_def hidden_intros hidden_def split: option.split)
next
  case (Inr e1)
  with assms lock_election_ok [OF Inr] show ?thesis
    by (simp add: gvotable_cast_vote_def Let_def hidden_intros split: option.split prod.split)
qed

lemma forced_cast:
  "forced e \<Longrightarrow> gvotable_cast_vote P me w e r v en = Inr (w', e', ret) \<Longrightarrow>
     shown e' = shown e \<and> forced e' \<and> force_result e' = force_result e"
  using forced_cast_hidden [of e P me w r v en] by (simp add: hidden_def)

lemma forced_recast:
  "forced e \<Longrightarrow> gvotable_recast_ballot P me w e r en = Inr (w', e', ret) \<Longrightarrow>
     shown e' = shown e \<and> forced e' \<and> force_result e' = force_result e"
  by (auto simp: gvotable_recast_ballot_def forced_run_and_unlock Let_def gvotable_unlock_election_def
      dest!: lock_election_ok split: option.splits if_splits sum.splits prod.splits)

lemma forced_run:
  assumes "forced e" and "gvotable_run_election P me w e fc = Inr (w', e', ret)"
  shows "shown e' = shown e \<and> forced e' \<and> force_result e' = force_result e"
proof -
  let ?e = "e\<lparr>cb_lock := True, owner := me, re_lock := False\<rparr>"
  obtain rc where "el_callback P w ?e (Some DEBUGFS_FORCE_VOTE_REASON) (force_result e) =
      (w, ?e\<lparr>cb_log := (Some DEBUGFS_FORCE_VOTE_REASON, force_result e) # cb_log e\<rparr>, rc)"
    using el_callback_plain [of ?e P w] assms(1) by auto
  with assms show ?thesis
    by (auto simp: gvotable_run_election_def forced_run_election gvotable_unlock_result_def
        gvotable_unlock_callback_def Let_def dest!: lock_election_ok split: sum.splits if_splits)
qed

lemma forced_defaults:
  assumes "forced e"
  shows "gvotable_set_default P me w e d = Inr (w', e', ret) \<Longrightarrow>
      shown e' = shown e \<and> forced e' \<and> force_result e' = force_result e"
    and "gvotable_use_default P me w e b = Inr (w', e', ret) \<Longrightarrow>
      shown e' = shown e \<and> forced e' \<and> force_result e' = force_result e"
  using assms
  by (auto simp: gvotable_set_default_def gvotable_use_default_def forced_run_election
      forced_run_and_unlock gvotable_unlock_result_def gvotable_unlock_callback_def Let_def
      dest!: lock_election_ok split: sum.splits if_splits)

text \<open>The operations of clients.\<close>

fun client_op :: "el_op \<Rightarrow> bool" where
  "client_op (ForceValue v) = False"
| "client_op (ForceActive v) = False"
| "client_op _ = True"

lemma forced_exec:
  assumes "forced e" and "client_op op" and "el_exec P me w e op = Inr (w', e', ret)"
  shows "shown e' = shown e \<and> forced e' \<and> force_result e' = force_result e"
proof (cases op)
  case (CastInt v)
  with assms obtain en where
    "gvotable_cast_vote P me w e (Some DEBUGFS_CAST_VOTE_REASON) v en = Inr (w', e', ret)"
    by (auto simp: debugfs_cast_int_vote_def split: sum.splits)
  then show ?thesis by (rule forced_cast [OF assms(1)])
next
  case (Cast r v en)
  then show ?thesis using forced_cast [OF assms(1)] assms(3) by simp
next
  case (Recast r en)
  then show ?thesis using forced_recast [OF assms(1)] assms(3) by simp
next
  case (SetDefault d)
  then show ?thesis using forced_defaults(1) [OF assms(1)] assms(3) by simp
next
  case (UseDefault b)
  then show ?thesis using forced_defaults(2) [OF assms(1)] assms(3) by simp
next
  case (RunElection b)
  then show ?thesis using forced_run [OF assms(1)] assms(3) by simp
next
  case (SetResult r v)
  then show ?thesis using assms set_result_refused [of e w r v] by simp
qed (use assms(2) in simp_all)

lemma forced_run_ops:
  assumes "forced e" and "list_all client_op ops" and "el_run P me w e ops = Inr (w', e')"
  shows "shown e' = shown e \<and> forced e' \<and> force_result e' = force_result e"
  using assms
proof (induction ops arbitrary: w e)
  case (Cons op ops)
  then obtain w1 e1 r where x: "el_exec P me w e op = Inr (w1, e1, r)" by (auto split: sum.splits)
  from forced_exec [OF Cons.prems(1) _ x] Cons.prems Cons.IH [of e1 w1] x show ?case by simp
qed simp

text \<open>
  A forced result hides every vote, and the votes cast meanwhile are not elected when the
  force is released: over any sequence of client operations on a forced election, the value read is
  the forced one; releasing the force shows again, and passes to the callback, exactly the
  reason and result from before, whatever was cast.
\<close>

theorem gv_forced_votes_not_elected:
  assumes "force_result_is_enabled e" and "cmp e \<noteq> gvotable_comparator_none"
    and "list_all client_op ops" and "el_run P me w e ops = Inr (w1, e1)"
    and "debugfs_force_int_active P me w1 e1 0 = Inr (w2, e2, ret)"
  shows "gvotable_get_current_result_unlocked e1 = Inr (force_result e) \<and>
    (result e2, reason e2, result_is_valid e2) = (result e, reason e, result_is_valid e) \<and>
    (callback e1 \<noteq> 0 \<longrightarrow>
       hd (cb_log e2) = (if result_is_valid e then (Some (reason e), result e) else (None, 0)))"
proof -
  have f: "shown e1 = shown e" "forced e1" "force_result e1 = force_result e"
    using forced_run_ops [of e ops] assms by auto
  let ?e = "e1\<lparr>cb_lock := True, owner := me, force_result_is_enabled := False, re_lock := False\<rparr>"
  have "\<exists>rc. gvotable_run_callback P w1 ?e = (w1, ?e\<lparr>cb_log :=
      (if result_is_valid e1 then (Some (reason e1), result e1) else (None, 0)) # cb_log e1\<rparr>, rc)"
    using run_callback_plain [of ?e P w1] f(2) by (auto split: if_splits)
  with assms(5) f show ?thesis
    by (auto simp: debugfs_force_int_active_def gvotable_unlock_result_def Let_def
        gvotable_unlock_callback_def gvotable_get_current_result_unlocked_def
        dest!: lock_election_ok split: sum.splits if_splits)
qed

abbreviation wit_forced :: "gvs \<times> gvotable_election" where
  "wit_forced \<equiv> projr (el_run wit_params 7 (fst wit_min) (wit_el wit_min)
     [Cast (Some ''A'') 5 True, ForceValue 9, ForceActive 1])"

text \<open>A better vote, 3, is cast while 9 is forced; when the force ends the result is 5.\<close>

theorem gv_forced_votes_not_elected_witness:
  "\<exists>w1 e1 w2 e2 ret.
     el_run wit_params 7 (fst wit_forced) (snd wit_forced) [Cast (Some ''B'') 3 True] = Inr (w1, e1) \<and>
     debugfs_force_int_active wit_params 7 w1 e1 0 = Inr (w2, e2, ret) \<and>
     result e2 = 5 \<and> (\<exists>b \<in> set (votes e2). b_enabled b \<and> cur_vote b = 3)"
proof -
  obtain w1 e1 w2 e2 ret where
    a: "el_run wit_params 7 (fst wit_forced) (snd wit_forced) [Cast (Some ''B'') 3 True] = Inr (w1, e1)"
      "debugfs_force_int_active wit_params 7 w1 e1 0 = Inr (w2, e2, ret)"
      "\<exists>b \<in> set (votes e2). b_enabled b \<and> cur_vote b = 3"
    by (simp add: wit_params_def wit_world_def gv_eval)
  have b: "force_result_is_enabled (snd wit_forced)" "result (snd wit_forced) = 5"
    "cmp (snd wit_forced) \<noteq> gvotable_comparator_none"
    by (simp_all add: wit_params_def wit_world_def gv_eval)
  have "list_all client_op [Cast (Some ''B'') 3 True]" by simp
  from gv_forced_votes_not_elected [OF b(1,3) this a(1,2)] a b(2) show ?thesis by auto
qed

text \<open>
  Withdrawing a ballot can hide a better one. In a minimum election with the votes 5 by A
  and 7 by B, A withdraws with the value 100, which changes its ballot in place without moving it;
  the next vote, 50 by C, is then put before both and wins although B still asks for 7.
\<close>

theorem gv_withdrawal_misorders:
  "\<exists>w' e. el_run wit_params 7 (fst wit_min) (wit_el wit_min)
      [Cast (Some ''A'') 5 True, Cast (Some ''B'') 7 True, Cast (Some ''A'') 100 False,
       Cast (Some ''C'') 50 True] = Inr (w', e) \<and>
     gvotable_get_current_int_vote e = Inr 50 \<and>
     gvotable_get_int_vote wit_params e (Some ''B'') = Inr 7 \<and>
     gvotable_is_enabled wit_params e (Some ''B'') True = Inr (Inr True)"
  by (simp add: wit_params_def wit_world_def gv_eval gvotable_get_current_int_vote_def
      gvotable_get_current_vote_def gvotable_get_current_result_unlocked_def
      gvotable_get_int_vote_def gvotable_get_vote_def gvotable_is_enabled_def)

subsection \<open>Votes read back\<close>

text \<open>
  \<open>matches\<close> is the test of \<^verbatim>\<open>gvotable_ballot_find_internal\<close>; an election is unambiguous when no
  two ballots have the same stored reason and hash.
\<close>

abbreviation matches :: "gv_params \<Rightarrow> string \<Rightarrow> ballot \<Rightarrow> bool" where
  "matches P r b \<equiv> gvotable_internal_hash P r = b_reason_hash b \<and> strncmp_eq 32 (b_reason b) r"

definition unambiguous :: "gvotable_election \<Rightarrow> bool" where
  "unambiguous e \<longleftrightarrow> distinct (map (\<lambda>b. (b_reason_hash b, b_reason b)) (votes e)) \<and>
     (\<forall>b \<in> set (votes e). length (b_reason b) < 32)"

lemma position_unique:
  assumes "b \<in> set bs" and "p b" and "\<forall>t \<in> set bs. p t \<longrightarrow> t = b"
  shows "\<exists>i. ballot_position p bs = Some i \<and> bs ! i = b"
  using assms
proof (induction bs)
  case (Cons t ts)
  show ?case
  proof (cases "p t")
    case True
    with Cons.prems(3) have "t = b" by (meson list.set_intros(1))
    with True show ?thesis by simp
  next
    case False
    with Cons.prems(1,2) have "b \<in> set ts" by auto
    then obtain i where "ballot_position p ts = Some i \<and> ts ! i = b"
      using Cons.IH Cons.prems(2,3) by (meson list.set_intros(2))
    with False show ?thesis by simp
  qed
qed simp

lemma position_None: "ballot_position p bs = None \<longleftrightarrow> (\<forall>b \<in> set bs. \<not> p b)"
  by (induction bs) auto

lemma position_Some: "ballot_position p bs = Some i \<Longrightarrow> p (bs ! i)"
  by (induction bs arbitrary: i) (auto split: if_splits)

lemma set_remove_nth_others:
  assumes "distinct (map f xs)" and "i < length xs"
  shows "\<forall>t \<in> set (remove_nth i xs). f t \<noteq> f (xs ! i)"
proof -
  have "map f xs = map f (take i xs) @ f (xs ! i) # map f (drop (Suc i) xs)"
    using assms(2) by (metis id_take_nth_drop map_append list.simps(9))
  with assms(1) have "f (xs ! i) \<notin> f ` set (take i xs) \<union> f ` set (drop (Suc i) xs)"
    by (metis Un_iff distinct_append distinct.simps(2) disjoint_iff list.set_intros(1) set_map)
  then have "\<forall>t \<in> set (take i xs) \<union> set (drop (Suc i) xs). f t \<noteq> f (xs ! i)"
    by (metis Un_iff image_eqI)
  then show ?thesis by (simp add: remove_nth_def)
qed

lemma set_add_ballot:
  "set (votes (gvotable_add_ballot w e b en)) = insert b (set (votes e))"
  by (auto simp: gvotable_add_ballot_def dest: set_add_before_first split: option.splits)

lemma take_result_votes: "gvotable_take_result w e r v nv = (w', e', q) \<Longrightarrow> votes e' = votes e \<and> is_bool_type e' = is_bool_type e"
  by (auto simp: gvotable_take_result_def gvotable_internal_update_result_def
      gvotable_internal_update_reason_def Let_def split: if_splits prod.splits)

lemma run_election_votes:
  "gvotable_internal_run_election w e = (w', e', q) \<Longrightarrow> votes e' = votes e \<and> is_bool_type e' = is_bool_type e"
  by (auto simp: gvotable_internal_run_election_def dest: take_result_votes
      split: if_splits option.splits prod.splits)

lemma callback_results_votes:
  "callback_results w e sets = (w', e') \<Longrightarrow> votes e' = votes e \<and> is_bool_type e' = is_bool_type e"
proof (induction sets arbitrary: w e)
  case (Cons x xs)
  obtain r v where x: "x = (r, v)" by fastforce
  obtain w1 e1 t where s: "gvotable_election_set_result w e r v = (w1, e1, t)"
    by (metis prod_cases3)
  have "votes e1 = votes e \<and> is_bool_type e1 = is_bool_type e"
    using s by (auto simp: gvotable_election_set_result_def gvotable_internal_update_result_def
        gvotable_internal_update_reason_def Let_def split: option.splits if_splits prod.splits)
  moreover from Cons.prems have "callback_results w1 e1 xs = (w', e')" by (simp add: x s)
  ultimately show ?case using Cons.IH [of w1 e1] by simp
qed simp

lemma run_callback_votes:
  "gvotable_run_callback P w e = (w', e', ret) \<Longrightarrow> votes e' = votes e \<and> is_bool_type e' = is_bool_type e"
  by (auto simp: gvotable_run_callback_def el_callback_def dest!: callback_results_votes
      split: if_splits prod.splits)

lemma run_and_unlock_votes:
  "gvotable_run_and_unlock P w e r = (w', e', ret) \<Longrightarrow> votes e' = votes e \<and> is_bool_type e' = is_bool_type e"
  by (auto simp: gvotable_run_and_unlock_def gvotable_unlock_result_def gvotable_unlock_callback_def
      dest!: run_callback_votes run_election_votes split: if_splits prod.splits)

text \<open>The ballots after a cast that succeeded: one ballot carries the reason, the others are as before.\<close>

lemma cast_votes:
  assumes l: "locks e = (False, False)" and u: "unambiguous e" and r: "r \<noteq> []" "length r < 32"
    and na: "\<not> use_alloc e" and sz: "\<forall>b \<in> set (votes e). b_vote_size b = 0"
    and c: "gvotable_cast_vote P me w e (Some r) v en = Inr (w', e', ret)" and ok: "fst (kzalloc 0 w) \<noteq> 0"
  shows "locks e' = (False, False) \<and> is_bool_type e' = is_bool_type e \<and>
    (\<exists>b \<in> set (votes e'). matches P r b \<and> b_enabled b = en \<and>
       cur_vote b = (if is_bool_type e then if en then 1 else 0 else v) \<and>
       (\<forall>t \<in> set (votes e'). matches P r t \<longrightarrow> t = b))"
proof -
  let ?e = "e\<lparr>cb_lock := True, re_lock := True, owner := me\<rparr>"
  let ?v = "if is_bool_type e then if en then 1 else 0 else v"
  have lk: "gvotable_lock_election me e = Inr ?e" by (rule lock_election_free [OF l])
  have lo: "locks e' = (False, False)"
    using cast_released [OF l, of P me w "Some r" v en] c by (simp add: released_def)
  have short: "strncmp_eq 32 (b_reason b) r \<longleftrightarrow> b_reason b = r" if "b \<in> set (votes e)" for b
    using that u r by (simp add: unambiguous_def strncmp_eq_short)
  show ?thesis
  proof (cases "gvotable_ballot_find_internal P ?e r")
    case None
    obtain p w1 where k: "kzalloc 0 w = (p, w1)" "p \<noteq> 0" using ok by (cases "kzalloc 0 w") auto
    obtain b where b: "gvotable_update_ballot w1 (new_ballot P ?e p r) ?v en = (w1, b, 0)"
      "b_enabled b = en" "cur_vote b = ?v" "b_reason b = r"
      "b_reason_hash b = gvotable_internal_hash P r"
      using update_ballot_plain [of "new_ballot P ?e p r" w1 ?v en] na r
      by (auto simp: new_ballot_def strlcpy_short)
    have "votes e' = votes (gvotable_add_ballot w1 (?e\<lparr>num_voters := num_voters e + 1\<rparr>) b en) \<and>
        is_bool_type e' = is_bool_type e"
      using c r na lk None k b(1)
      by (auto simp: gvotable_cast_vote_def Let_def dest!: run_and_unlock_votes)
    moreover have "\<forall>t \<in> set (votes e). \<not> matches P r t"
      using None by (simp add: gvotable_ballot_find_internal_def position_None Let_def)
    ultimately show ?thesis using b lo by (auto simp: set_add_ballot)
  next
    case (Some i)
    have i: "i < length (votes e)" using find_internal_less [OF Some] by simp
    let ?b = "votes e ! i"
    have m: "matches P r ?b"
      using Some by (auto simp: gvotable_ballot_find_internal_def dest: position_Some)
    obtain b where b: "gvotable_update_ballot w ?b ?v en = (w, b, 0)"
      "b_enabled b = en" "cur_vote b = ?v" "b_reason b = b_reason ?b" "b_reason_hash b = b_reason_hash ?b"
      using update_ballot_plain [of ?b w ?v en] sz i by (metis nth_mem)
    let ?bs = "if en then insert b (set (remove_nth i (votes e))) else set ((votes e)[i := b])"
    have e': "set (votes e') = ?bs \<and> is_bool_type e' = is_bool_type e"
      using c r na lk Some b(1)
      by (auto simp: gvotable_cast_vote_def Let_def set_add_ballot dest!: run_and_unlock_votes split: if_splits)
    have "set ((votes e)[i := b]) = insert b (set (remove_nth i (votes e)))"
      using i by (simp add: upd_conv_take_nth_drop remove_nth_def)
    with e' have s: "set (votes e') = insert b (set (remove_nth i (votes e)))" by simp
    have "\<not> matches P r t" if t: "t \<in> set (remove_nth i (votes e))" for t
    proof -
      have "t \<in> set (votes e)" using t set_remove_nth by fastforce
      then show ?thesis
        using set_remove_nth_others [OF _ i, of "\<lambda>b. (b_reason_hash b, b_reason b)"] u t m
          short [of t] short [of ?b] i
        by (auto simp: unambiguous_def)
    qed
    then show ?thesis using s e' b m lo by auto
  qed
qed

text \<open>
  A vote reads back. On an election with free locks, votes held by value and no two ballots
  of one reason, casting a vote under a reason of at most 31 characters (when the ballot can be
  allocated) returns; then the reason is found and enabled as asked, its vote reads back as the
  value cast (1 or 0 in a bool election), except that a disabled vote of an election that is
  not bool is refused.
\<close>

theorem gv_cast_then_read:
  assumes "locks e = (False, False)" and "unambiguous e" and "r \<noteq> []" and "length r < 32"
    and "\<not> use_alloc e" and "\<forall>b \<in> set (votes e). b_vote_size b = 0" and "fst (kzalloc 0 w) \<noteq> 0"
  shows "\<exists>w' e' ret. gvotable_cast_vote P me w e (Some r) v en = Inr (w', e', ret) \<and>
    gvotable_is_enabled P e' (Some r) True = Inr (Inr en) \<and>
    gvotable_get_vote P e' (Some r) True =
      (if is_bool_type e then Inr (0, Some (if en then 1 else 0))
       else if en then Inr (0, Some v) else Inr (- EINVAL, None))"
proof -
  obtain w' e' ret where c: "gvotable_cast_vote P me w e (Some r) v en = Inr (w', e', ret)"
    using cast_released [OF assms(1), of P me w "Some r" v en]
    by (auto simp: released_def split: sum.splits)
  note cv = cast_votes [OF assms(1-6) c assms(7)]
  then have ok: "locks e' = (False, False)" "is_bool_type e' = is_bool_type e" by simp_all
  from cv obtain b where b: "b \<in> set (votes e')" "matches P r b" "b_enabled b = en"
      "cur_vote b = (if is_bool_type e then if en then 1 else 0 else v)"
      "\<forall>t \<in> set (votes e'). matches P r t \<longrightarrow> t = b"
    by blast
  obtain i where "gvotable_ballot_find_internal P e' r = Some i" "votes e' ! i = b"
    using position_unique [of b "votes e'" "matches P r", OF b(1,2,5)]
    unfolding gvotable_ballot_find_internal_def Let_def by blast
  with ok b(3,4) c show ?thesis
    by (auto simp: gvotable_is_enabled_def gvotable_get_vote_def gvotable_lock_result_def)
qed

theorem gv_cast_then_read_witness:
  "\<exists>w' e' ret. gvotable_cast_vote wit_params 7 (fst wit_min) (wit_el wit_min) (Some ''A'') 5 True
      = Inr (w', e', ret) \<and>
    gvotable_is_enabled wit_params e' (Some ''A'') True = Inr (Inr True) \<and>
    gvotable_get_vote wit_params e' (Some ''A'') True = Inr (0, Some 5)"
proof -
  have a: "locks (wit_el wit_min) = (False, False)" "unambiguous (wit_el wit_min)"
    "\<not> use_alloc (wit_el wit_min)" "\<forall>b \<in> set (votes (wit_el wit_min)). b_vote_size b = 0"
    "fst (kzalloc 0 (fst wit_min)) \<noteq> 0" "\<not> is_bool_type (wit_el wit_min)"
    by (simp_all add: unambiguous_def wit_params_def wit_world_def gv_eval)
  show ?thesis
    using gv_cast_then_read [OF a(1,2) _ _ a(3,4,5), of "''A''" wit_params 7 5 True] a(6) by simp
qed

subsection \<open>Names\<close>

lemma find_cong_ext: "(\<And>x. x \<in> set xs \<Longrightarrow> p x = q x) \<Longrightarrow> find p xs = find q xs"
  by (induction xs) auto

lemma gvotables_free_ballots [simp]:
  "gvotables (fold free_ballot bs w) = gvotables w" "elections (fold free_ballot bs w) = elections w"
  by (induction bs arbitrary: w) (simp_all add: free_ballot_def kfree_def)

lemma delete_slots_frame:
  "elections (delete_slots el ss w) = elections w \<and>
   set (gvotables (delete_slots el ss w)) \<subseteq> set (gvotables w)"
proof (induction ss arbitrary: w)
  case (Cons s ss)
  let ?w = "gvotable_delete_internal s (gvotable_debugfs_delete_el s w)"
  have "elections ?w = elections w" "set (gvotables ?w) \<subseteq> set (gvotables w)"
    using set_remove1_subset [of s "gvotables w"]
    by (auto simp: gvotable_delete_internal_def gvotable_debugfs_delete_el_def split: option.splits)
  with Cons.IH [of ?w] Cons.IH [of w] show ?case by auto
qed simp

text \<open>The slots of other elections stay, in their order.\<close>

lemma filter_remove1_other: "\<not> p s \<Longrightarrow> filter p (remove1 s xs) = filter p xs"
  by (induction xs) auto

lemma delete_slots_others:
  "filter (\<lambda>s. slot_el s \<noteq> el) (gvotables (delete_slots el ss w)) =
   filter (\<lambda>s. slot_el s \<noteq> el) (gvotables w)"
  by (induction ss arbitrary: w)
    (auto simp: gvotable_delete_internal_def gvotable_debugfs_delete_el_def
      filter_remove1_other split: option.splits)

lemma delete_slots_gone:
  "mset ss = mset (gvotables w) \<Longrightarrow> \<forall>s \<in> set (gvotables (delete_slots el ss w)). slot_el s \<noteq> el"
proof -
  have "mset (gvotables (delete_slots el ss w)) =
      mset (gvotables w) - mset (filter (\<lambda>s. slot_el s = el) ss)" for w
    by (induction ss arbitrary: w)
      (auto simp: gvotable_delete_internal_def gvotable_debugfs_delete_el_def split: option.splits)
  moreover assume "mset ss = mset (gvotables w)"
  ultimately have "mset (gvotables (delete_slots el ss w)) =
      mset ss - filter_mset (\<lambda>s. slot_el s = el) (mset ss)"
    by simp
  then have "mset (gvotables (delete_slots el ss w)) = filter_mset (\<lambda>s. slot_el s \<noteq> el) (mset ss)"
    by (metis add_diff_cancel_left' multiset_partition)
  then show ?thesis
    by (metis (mono_tags, lifting) mem_Collect_eq set_mset_filter set_mset_mset)
qed

text \<open>
  Names. When a new election gets an address at which no election of the list lives, then
  after its creation under a name of at most 15 characters looking the name up gives the new
  election, and creating another election of that name gives \<^verbatim>\<open>NULL\<close> and changes nothing.
  After its destruction, which succeeds, the name is not found, the election is gone and the
  slots of the other elections are as before.
\<close>

theorem gv_names:
  assumes "gvotable_create_election P w (Some n) 4 c cb d = (w1, el)" and "el \<noteq> 0"
    and "length n < 16" and "\<forall>s \<in> set (gvotables w). slot_el s \<noteq> el"
  shows "gvotable_election_get_handle P w1 (Some n) = el \<and>
    gvotable_create_election P w1 (Some n) vs c' cb' d' = (w1, 0) \<and>
    (\<exists>w2. gvotable_destroy_election w1 el = Inr (w2, 0) \<and>
      gvotable_election_get_handle P w2 (Some n) = 0 \<and> elections w2 el = None \<and>
      gvotables w2 = gvotables w)"
proof -
  let ?e = "created P (Some n) (fresh_election 4 (case c of None \<Rightarrow> gvotable_comparator_none | Some c \<Rightarrow> c) cb d)"
  note r = create_election_result [OF assms(1,2)]
  then obtain s where s: "slot_el s = el" "gvotables w1 = s # gvotables w" by blast
  have e: "elections w1 = (elections w)(el \<mapsto> ?e)" using r by simp
  have nm: "slot_named P w1 n s"
    using assms(3) by (simp add: slot_named_def e s created_def strlcpy_short)
  then have f: "gvotable_find_internal P w1 (Some n) = Some s"
    by (simp add: gvotable_find_internal_def s)
  let ?w = "delete_slots el (gvotables w1) w1"
  have lk: "\<not> re_lock ?e" "votes ?e = []" "\<not> use_alloc ?e"
    by (simp_all add: created_def fresh_election_def)
  let ?w2 = "kfree el ?w\<lparr>elections := (elections ?w)(el := None)\<rparr>"
  have ds: "gvotable_destroy_election w1 el = Inr (?w2, 0)"
    using assms(2) lk by (simp add: gvotable_destroy_election_def e gvotable_lock_result_def Let_def)
  have "gvotables ?w = filter (\<lambda>s. slot_el s \<noteq> el) (gvotables w1)"
    using filter_True [OF delete_slots_gone [of "gvotables w1" w1 el]]
      delete_slots_others [of el "gvotables w1" w1] by simp
  then have g: "gvotables ?w2 = gvotables w"
    using assms(2,4) by (simp add: s kfree_def)
  have el2: "elections ?w2 = (elections w)(el := None)"
    using delete_slots_frame [of el "gvotables w1" w1] by (simp add: kfree_def e)
  have "slot_named P ?w2 n t = slot_named P w n t" if "t \<in> set (gvotables w)" for t
    using that assms(4) by (simp add: slot_named_def el2)
  then have "find (slot_named P ?w2 n) (gvotables w) = find (slot_named P w n) (gvotables w)"
    by (rule find_cong_ext)
  then have "gvotable_find_internal P ?w2 (Some n) = None"
    using r by (simp add: gvotable_find_internal_def g)
  with f s ds g el2 show ?thesis
    by (simp add: gvotable_election_get_handle_def gvotable_create_election_def)
qed

theorem gv_names_witness:
  "\<exists>w1. gvotable_create_election wit_params wit_world (Some ''msc'') 4 None 0x900 0 = (w1, 0x2000) \<and>
     gvotable_election_get_handle wit_params w1 (Some ''msc'') = 0x2000 \<and>
     (\<exists>w2. gvotable_destroy_election w1 0x2000 = Inr (w2, 0) \<and>
        gvotable_election_get_handle wit_params w2 (Some ''msc'') = 0)"
proof -
  obtain w1 where c: "gvotable_create_election wit_params wit_world (Some ''msc'') 4 None 0x900 0
      = (w1, 0x2000)"
    by (simp add: wit_params_def wit_world_def gv_eval)
  have "\<forall>s \<in> set (gvotables wit_world). slot_el s \<noteq> 0x2000" by (simp add: wit_world_def)
  from gv_names [OF c _ _ this, of 4 None 0 0] c show ?thesis by auto
qed

subsection \<open>Text\<close>

text \<open>A \<^verbatim>\<open>vote2str\<close> function that keeps to the length it is given.\<close>

definition fits :: "gvotable_v2sfn_t option \<Rightarrow> bool" where
  "fits f \<longleftrightarrow> (case f of None \<Rightarrow> True | Some g \<Rightarrow> \<forall>n v. length (g n v) \<le> n - 1)"

lemma emit_length: "length buf < n \<Longrightarrow> length (emit n buf s) < n"
  by (simp add: emit_def scnprintf_def)

lemma append_fits:
  "length buf < n \<Longrightarrow> length t \<le> n - length buf - 1 \<Longrightarrow> length (buf @ t) < (n :: nat)"
  by simp

lemma emit_vote_length:
  assumes "fits f" and "length buf < n"
  shows "length (emit_vote n buf f v) < n"
proof (cases f)
  case None
  then show ?thesis using assms by (simp add: emit_vote_def emit_length)
next
  case (Some g)
  then have "length (g (n - length buf) v) \<le> n - length buf - 1"
    using assms(1) unfolding fits_def by simp (metis One_nat_def diff_Suc_eq_diff_pred diff_commute)
  with append_fits [OF assms(2)] Some show ?thesis by (simp add: emit_vote_def)
qed

lemma dump_election_length:
  assumes "fits (vote2str e)" and "0 < n"
  shows "length (gvotable_dump_election n e) < n"
proof -
  have "length (emit_name n [] e) < n" using assms(2) by (simp add: emit_name_def emit_length)
  then show ?thesis
    using assms(1)
    by (auto simp: gvotable_dump_election_def Let_def intro!: emit_length emit_vote_length
        split: sum.splits prod.splits)
qed

lemma dump_ballot_length:
  assumes "fits (Some g)" and "0 < n"
  shows "length (gvotable_dump_ballot n b g) < n"
proof -
  have "emit_vote n buf (Some g) v = buf @ g (n - length buf) v" for buf v
    by (simp add: emit_vote_def)
  then have d: "gvotable_dump_ballot n b g =
    emit n (emit_vote n (emit n (emit n [] ('' '' @ b_reason b))
      ('' en='' @ (if b_enabled b then ''1'' else ''0'') @ '' val='')) (Some g) (cur_vote b))
      ('' #votes='' @ int_string (sint (b_num_votes b)))"
    by (simp add: gvotable_dump_ballot_def Let_def)
  show ?thesis
    unfolding d using assms by (intro emit_length emit_vote_length) auto
qed

lemma dump_ballots_length:
  assumes "fits (Some g)" and "length buf < n"
  shows "length (dump_ballots n e g bs buf) < n"
  using assms(2)
proof (induction bs arbitrary: buf)
  case (Cons b bs)
  let ?b1 = "emit_name n buf e"
  have b1: "length ?b1 < n" using Cons.prems by (simp add: emit_name_def emit_length)
  have "length (gvotable_dump_ballot (n - length ?b1) b g) < n - length ?b1"
    using b1 by (intro dump_ballot_length [OF assms(1)]) simp
  with b1 have "length (?b1 @ gvotable_dump_ballot (n - length ?b1) b g) < n" by simp
  from Cons.IH [OF emit_length [OF this]] show ?case by (simp add: Let_def)
qed simp

text \<open>
  The status file of an election never overruns its buffer: with a vote printer that keeps
  to the length it is given, the text is shorter than the 4096 bytes of the buffer however many
  ballots there are, and reading it fails only when the result lock is held.
\<close>

theorem gv_status_fits:
  assumes "fits (vote2str e)" and "\<not> re_lock e"
  shows "\<exists>t. debugfs_list_ballots e = Inr t \<and> length t < 4096"
proof (cases "vote2str e")
  case None
  then show ?thesis
    using assms(2) by (simp add: debugfs_list_ballots_def gvotable_lock_result_def
        gvotable_list_ballots_def scnprintf_def)
next
  case (Some g)
  let ?e = "e\<lparr>re_lock := True\<rparr>"
  let ?b = "dump_ballots 4096 ?e g (votes e) []"
  have b: "length ?b < 4096" using assms(1) Some by (intro dump_ballots_length) simp_all
  then have "length (gvotable_dump_election (4096 - length ?b) ?e) < 4096 - length ?b"
    using assms(1) by (intro dump_election_length) simp_all
  with b have "length (?b @ gvotable_dump_election (4096 - length ?b) ?e) < 4096" by simp
  then show ?thesis
    using assms(2) Some
    by (simp add: debugfs_list_ballots_def gvotable_lock_result_def gvotable_list_ballots_def)
qed

theorem gv_status_fits_witness:
  "\<exists>t. debugfs_list_ballots ((wit_el wit_min)\<lparr>vote2str := Some gvotable_v2s_uint\<rparr>) = Inr t \<and>
     length t < 4096"
proof -
  have "fits (Some gvotable_v2s_uint)" by (simp add: fits_def gvotable_v2s_uint_def scnprintf_def)
  moreover have "\<not> re_lock (wit_el wit_min)" by (simp add: wit_params_def wit_world_def gv_eval)
  ultimately show ?thesis
    using gv_status_fits [of "(wit_el wit_min)\<lparr>vote2str := Some gvotable_v2s_uint\<rparr>"] by simp
qed

end
