(* ===== verification/MfcQueue.thy ===== *)
theory MfcQueue
  imports Prelude
begin

text \<open>
  The buffer queues of the video codec driver, \<^verbatim>\<open>drivers/media/platform/exynos/mfc/mfc_queue.c\<close>
  and \<^verbatim>\<open>mfc_queue.h\<close>: buffers wait in one queue, move to another while the hardware works on
  them and are given back. Buffers are named by numbers; \<open>bufs\<close> holds their contents and a
  queue is the sequence of the names linked into it with the \<^verbatim>\<open>unsigned int\<close> counter the code
  keeps beside the list. Every function runs under one spinlock from its first to its last
  access, so each is one step. The V4L2 side of a buffer (\<^verbatim>\<open>vb2_buffer\<close>) is the part of it the
  functions read and write; \<open>b_done\<close> says that it was given back with an error.
\<close>

subsection \<open>Data\<close>

record mfc_buf =
  addr :: "nat \<Rightarrow> nat \<Rightarrow> u64"
  paddr :: u64
  dmabufs :: "nat \<Rightarrow> nat \<Rightarrow> ptr"
  attachments :: "nat \<Rightarrow> nat \<Rightarrow> ptr"
  dpb_index :: int
  next_index :: int
  done_index :: int
  used :: int
  num_valid_bufs :: int
  flag :: u32
  vb_index :: nat
  vb_num_planes :: nat
  vb_bytesused :: "nat \<Rightarrow> u32"
  vb_length :: "nat \<Rightarrow> u32"
  vb_fd :: "nat \<Rightarrow> int"
  b_done :: bool

type_synonym bufs = "nat \<Rightarrow> mfc_buf"

record mfc_buf_queue =
  head :: "nat list"
  count :: u32

datatype mfc_queue_used_type = MFC_BUF_NO_TOUCH_USED | MFC_BUF_RESET_USED | MFC_BUF_SET_USED

datatype mfc_queue_top_type = MFC_QUEUE_ADD_BOTTOM | MFC_QUEUE_ADD_TOP

text \<open>\<^verbatim>\<open>if (used is RESET or SET) mfc_buf->used = used\<close>.\<close>

definition touch_used :: "mfc_queue_used_type \<Rightarrow> nat \<Rightarrow> bufs \<Rightarrow> bufs" where
  "touch_used u b bufs =
     (case u of
        MFC_BUF_NO_TOUCH_USED \<Rightarrow> bufs
      | MFC_BUF_RESET_USED \<Rightarrow> bufs(b := (bufs b)\<lparr>used := 0\<rparr>)
      | MFC_BUF_SET_USED \<Rightarrow> bufs(b := (bufs b)\<lparr>used := 1\<rparr>))"

definition set_used :: "nat \<Rightarrow> int \<Rightarrow> bufs \<Rightarrow> bufs" where
  "set_used b v bufs = bufs(b := (bufs b)\<lparr>used := v\<rparr>)"

definition queue_del :: "nat \<Rightarrow> mfc_buf_queue \<Rightarrow> mfc_buf_queue" where
  "queue_del b q = q\<lparr>head := remove1 b (head q), count := count q - 1\<rparr>"

definition queue_add :: "nat \<Rightarrow> mfc_buf_queue \<Rightarrow> mfc_buf_queue" where
  "queue_add b q = q\<lparr>head := b # head q, count := count q + 1\<rparr>"

definition queue_add_tail :: "nat \<Rightarrow> mfc_buf_queue \<Rightarrow> mfc_buf_queue" where
  "queue_add_tail b q = q\<lparr>head := head q @ [b], count := count q + 1\<rparr>"

subsection \<open>Counters\<close>

definition mfc_get_queue_count :: "mfc_buf_queue \<Rightarrow> u32" where
  "mfc_get_queue_count q = count q"

definition mfc_is_queue_count_same :: "mfc_buf_queue \<Rightarrow> u32 \<Rightarrow> bool" where
  "mfc_is_queue_count_same q v \<longleftrightarrow> count q = v"

definition mfc_is_queue_count_greater :: "mfc_buf_queue \<Rightarrow> u32 \<Rightarrow> bool" where
  "mfc_is_queue_count_greater q v \<longleftrightarrow> count q > v"

definition mfc_is_queue_count_smaller :: "mfc_buf_queue \<Rightarrow> u32 \<Rightarrow> bool" where
  "mfc_is_queue_count_smaller q v \<longleftrightarrow> count q < v"

definition mfc_init_queue :: "mfc_buf_queue \<Rightarrow> mfc_buf_queue" where
  "mfc_init_queue q = q\<lparr>head := [], count := 0\<rparr>"

definition mfc_create_queue :: "mfc_buf_queue \<Rightarrow> mfc_buf_queue" where
  "mfc_create_queue q = mfc_init_queue q"

definition mfc_delete_queue :: "mfc_buf_queue \<Rightarrow> mfc_buf_queue" where
  "mfc_delete_queue q = mfc_init_queue q"

subsection \<open>Adding and taking\<close>

definition mfc_add_tail_buf :: "bufs \<Rightarrow> mfc_buf_queue \<Rightarrow> nat option \<Rightarrow> bufs \<times> mfc_buf_queue" where
  "mfc_add_tail_buf bufs q mb =
     (case mb of
        None \<Rightarrow> (bufs, q)
      | Some b \<Rightarrow> (set_used b 0 bufs, queue_add_tail b q))"

definition mfc_get_buf_no_used :: "bufs \<Rightarrow> mfc_buf_queue \<Rightarrow> mfc_queue_used_type \<Rightarrow> bufs \<times> nat option" where
  "mfc_get_buf_no_used bufs q u =
     (case find (\<lambda>b. used (bufs b) = 0) (head q) of
        None \<Rightarrow> (bufs, None)
      | Some b \<Rightarrow> (touch_used u b bufs, Some b))"

definition mfc_get_buf :: "bufs \<Rightarrow> mfc_buf_queue \<Rightarrow> mfc_queue_used_type \<Rightarrow> bufs \<times> nat option" where
  "mfc_get_buf bufs q u =
     (case head q of
        [] \<Rightarrow> (bufs, None)
      | b # _ \<Rightarrow> (touch_used u b bufs, Some b))"

definition mfc_get_del_buf ::
  "bufs \<Rightarrow> mfc_buf_queue \<Rightarrow> mfc_queue_used_type \<Rightarrow> bufs \<times> mfc_buf_queue \<times> nat option" where
  "mfc_get_del_buf bufs q u =
     (case head q of
        [] \<Rightarrow> (bufs, q, None)
      | b # _ \<Rightarrow> (touch_used u b bufs, queue_del b q, Some b))"

text \<open>
  \<^verbatim>\<open>IS_NO_ERROR\<close>: no error, or only the warning that a sync point is missing. The error is an
  \<^verbatim>\<open>int\<close>, shifted arithmetically.
\<close>

definition IS_NO_ERROR :: "s32 \<Rightarrow> bool" where
  "IS_NO_ERROR err \<longleftrightarrow> err = 0 \<or> signed_drop_bit 16 err AND 0xFFFF = 190"

text \<open>The last component of the result is what is stored in \<^verbatim>\<open>*deleted\<close>, if anything.\<close>

definition mfc_get_del_if_consumed ::
  "bufs \<Rightarrow> mfc_buf_queue \<Rightarrow> u64 \<Rightarrow> u64 \<Rightarrow> u32 \<Rightarrow> s32 \<Rightarrow> mfc_buf_queue \<times> nat option \<times> bool option" where
  "mfc_get_del_if_consumed bufs q remained_size consumed min_bytes error =
     (case head q of
        [] \<Rightarrow> (q, None, None)
      | b # _ \<Rightarrow>
          let total = (if remained_size \<noteq> 0 then remained_size else ucast (vb_bytesused (bufs b) 0));
              remained = total - consumed;
              exceed = consumed > total
          in if consumed > 0 \<and> remained > ucast min_bytes \<and> IS_NO_ERROR error \<and> \<not> exceed
             then (q, Some b, Some False)
             else (queue_del b q, Some b, Some True))"

subsection \<open>Moving between queues\<close>

definition mfc_get_move_buf ::
  "mfc_queue_used_type \<Rightarrow> mfc_queue_top_type \<Rightarrow> bufs \<Rightarrow> mfc_buf_queue \<Rightarrow> mfc_buf_queue \<Rightarrow>
     bufs \<times> mfc_buf_queue \<times> mfc_buf_queue \<times> nat option" where
  "mfc_get_move_buf u tp bufs to_queue from_queue =
     (case head from_queue of
        [] \<Rightarrow> (bufs, to_queue, from_queue, None)
      | b # _ \<Rightarrow>
          (touch_used u b bufs,
           (if tp = MFC_QUEUE_ADD_TOP then queue_add b to_queue else queue_add_tail b to_queue),
           queue_del b from_queue, Some b))"

definition mfc_get_move_buf_used ::
  "bufs \<Rightarrow> mfc_buf_queue \<Rightarrow> mfc_buf_queue \<Rightarrow>
     bufs \<times> mfc_buf_queue \<times> mfc_buf_queue \<times> nat option" where
  "mfc_get_move_buf_used bufs to_queue from_queue =
     (case head from_queue of
        [] \<Rightarrow> (bufs, to_queue, from_queue, None)
      | b # _ \<Rightarrow>
          if used (bufs b) \<noteq> 0
          then (bufs, queue_add_tail b to_queue, queue_del b from_queue, Some b)
          else (bufs, to_queue, from_queue, None))"

definition mfc_get_move_buf_addr ::
  "u64 \<Rightarrow> u64 \<Rightarrow> bufs \<Rightarrow> mfc_buf_queue \<Rightarrow> mfc_buf_queue \<Rightarrow>
     bufs \<times> mfc_buf_queue \<times> mfc_buf_queue \<times> nat option" where
  "mfc_get_move_buf_addr a used_flag bufs to_queue from_queue =
     (case find (\<lambda>b. addr (bufs b) 0 0 = a) (head from_queue) of
        None \<Rightarrow> (bufs, to_queue, from_queue, None)
      | Some b \<Rightarrow>
          if used_flag AND BIT (nat (dpb_index (bufs b))) \<noteq> 0
          then (bufs, to_queue, from_queue, None)
          else (bufs, queue_add_tail b to_queue, queue_del b from_queue, Some b))"

definition mfc_get_move_buf_index ::
  "int \<Rightarrow> bufs \<Rightarrow> mfc_buf_queue \<Rightarrow> mfc_buf_queue \<Rightarrow>
     bufs \<times> mfc_buf_queue \<times> mfc_buf_queue \<times> nat option" where
  "mfc_get_move_buf_index index bufs to_queue from_queue =
     (case find (\<lambda>b. dpb_index (bufs b) = index) (head from_queue) of
        None \<Rightarrow> (bufs, to_queue, from_queue, None)
      | Some b \<Rightarrow> (bufs, queue_add_tail b to_queue, queue_del b from_queue, Some b))"

text \<open>
  The loops of \<^verbatim>\<open>mfc_move_buf_all\<close>: from the last entry to the front, or from the first to the
  end.
\<close>

function move_all_top :: "mfc_buf_queue \<Rightarrow> mfc_buf_queue \<Rightarrow> mfc_buf_queue \<times> mfc_buf_queue" where
  "move_all_top to_queue from_queue =
     (if head from_queue = [] then (to_queue, from_queue)
      else
        let b = last (head from_queue)
        in move_all_top (queue_add b to_queue)
             (from_queue\<lparr>head := butlast (head from_queue), count := count from_queue - 1\<rparr>))"
  by pat_completeness auto
termination
  by (relation "measure (\<lambda>(t, f). length (head f))") auto

function move_all_bottom :: "mfc_buf_queue \<Rightarrow> mfc_buf_queue \<Rightarrow> mfc_buf_queue \<times> mfc_buf_queue" where
  "move_all_bottom to_queue from_queue =
     (if head from_queue = [] then (to_queue, from_queue)
      else
        let b = hd (head from_queue)
        in move_all_bottom (queue_add_tail b to_queue)
             (from_queue\<lparr>head := tl (head from_queue), count := count from_queue - 1\<rparr>))"
  by pat_completeness auto
termination
  by (relation "measure (\<lambda>(t, f). length (head f))") auto

declare move_all_top.simps [simp del] move_all_bottom.simps [simp del]

definition mfc_move_buf_all ::
  "mfc_queue_top_type \<Rightarrow> mfc_buf_queue \<Rightarrow> mfc_buf_queue \<Rightarrow> mfc_buf_queue \<times> mfc_buf_queue" where
  "mfc_move_buf_all tp to_queue from_queue =
     (let (t, f) = (if tp = MFC_QUEUE_ADD_TOP then move_all_top to_queue from_queue
                    else move_all_bottom to_queue from_queue)
      in (t, f\<lparr>head := [], count := 0\<rparr>))"

subsection \<open>Finding\<close>

text \<open>
  The test of the find functions: one of the valid buffers of a batch, or the only one, starts at
  the address.
\<close>

definition buf_has_addr :: "mfc_buf \<Rightarrow> u64 \<Rightarrow> bool" where
  "buf_has_addr mb a \<longleftrightarrow>
     (if num_valid_bufs mb > 0
      then list_ex (\<lambda>i. addr mb i 0 = a) [0..<nat (num_valid_bufs mb)]
      else addr mb 0 0 = a)"

definition mfc_find_first_buf :: "bufs \<Rightarrow> mfc_buf_queue \<Rightarrow> u64 \<Rightarrow> nat option" where
  "mfc_find_first_buf bufs q a =
     (case head q of
        [] \<Rightarrow> None
      | b # _ \<Rightarrow> if buf_has_addr (bufs b) a then Some b else None)"

definition mfc_find_buf :: "bufs \<Rightarrow> mfc_buf_queue \<Rightarrow> u64 \<Rightarrow> nat option" where
  "mfc_find_buf bufs q a = find (\<lambda>b. buf_has_addr (bufs b) a) (head q)"

definition mfc_find_del_buf :: "bufs \<Rightarrow> mfc_buf_queue \<Rightarrow> u64 \<Rightarrow> mfc_buf_queue \<times> nat option" where
  "mfc_find_del_buf bufs q a =
     (case find (\<lambda>b. buf_has_addr (bufs b) a) (head q) of
        None \<Rightarrow> (q, None)
      | Some b \<Rightarrow> (queue_del b q, Some b))"

subsection \<open>Giving everything back\<close>

text \<open>A buffer given back: no payload in any plane, state error.\<close>

definition give_back :: "nat \<Rightarrow> bufs \<Rightarrow> bufs" where
  "give_back b bufs =
     bufs(b := (bufs b)\<lparr>vb_bytesused := (\<lambda>i. if i < vb_num_planes (bufs b) then 0
                                              else vb_bytesused (bufs b) i), b_done := True\<rparr>)"

fun cleanup_loop :: "(nat \<Rightarrow> bufs \<Rightarrow> bufs) \<Rightarrow> nat list \<Rightarrow> bufs \<Rightarrow> bufs" where
  "cleanup_loop f [] bufs = bufs"
| "cleanup_loop f (b # bs) bufs = cleanup_loop f bs (f b bufs)"

definition mfc_cleanup_queue :: "bufs \<Rightarrow> mfc_buf_queue \<Rightarrow> bufs \<times> mfc_buf_queue" where
  "mfc_cleanup_queue bufs q =
     (cleanup_loop give_back (head q) bufs, q\<lparr>head := [], count := 0\<rparr>)"

text \<open>
  \<^verbatim>\<open>mfc_bufcon_put_daddr\<close> of \<^verbatim>\<open>mfc_mem.c\<close> for one plane: the references to the batch's buffers
  are dropped and forgotten.
\<close>

definition mfc_bufcon_put_daddr :: "nat \<Rightarrow> mfc_buf \<Rightarrow> mfc_buf" where
  "mfc_bufcon_put_daddr plane mb =
     (let valid = (\<lambda>i. int i < num_valid_bufs mb)
      in mb\<lparr>addr := (\<lambda>i p. if valid i \<and> p = plane then 0 else addr mb i p),
            attachments := (\<lambda>i p. if valid i \<and> p = plane then 0 else attachments mb i p),
            dmabufs := (\<lambda>i p. if valid i \<and> p = plane then 0 else dmabufs mb i p)\<rparr>)"

definition give_back_batch :: "bool \<Rightarrow> nat \<Rightarrow> bufs \<Rightarrow> bufs" where
  "give_back_batch batch b bufs =
     give_back b
       (if batch then bufs(b := fold mfc_bufcon_put_daddr [0..<vb_num_planes (bufs b)] (bufs b))
        else bufs)"

text \<open>The queue of sources of an encoder; its batch mode ends.\<close>

definition mfc_cleanup_enc_src_queue ::
  "bufs \<Rightarrow> mfc_buf_queue \<Rightarrow> int \<Rightarrow> bufs \<times> mfc_buf_queue \<times> int" where
  "mfc_cleanup_enc_src_queue bufs q batch_mode =
     (cleanup_loop (give_back_batch (batch_mode = 1)) (head q) bufs, q\<lparr>head := [], count := 0\<rparr>, 0)"

definition mfc_cleanup_enc_dst_queue :: "bufs \<Rightarrow> mfc_buf_queue \<Rightarrow> bufs \<times> mfc_buf_queue" where
  "mfc_cleanup_enc_dst_queue bufs q =
     (cleanup_loop give_back (head q) bufs, q\<lparr>head := [], count := 0\<rparr>)"

definition mfc_check_mb_flag :: "mfc_buf \<Rightarrow> nat \<Rightarrow> bool" where
  "mfc_check_mb_flag mb f \<longleftrightarrow> flag mb AND push_bit f 1 \<noteq> 0"

definition mfc_check_buf_mb_flag :: "bufs \<Rightarrow> mfc_buf_queue \<Rightarrow> nat \<Rightarrow> int" where
  "mfc_check_buf_mb_flag bufs src_buf_queue f =
     (case head src_buf_queue of
        [] \<Rightarrow> - EINVAL
      | b # _ \<Rightarrow> if mfc_check_mb_flag (bufs b) f then 1 else 0)"

end
