(* ===== verification/MfcDpb.thy ===== *)
theory MfcDpb
  imports MfcQueue
begin

text \<open>
  The decoded picture buffers (DPB) of the video decoder: choosing a destination buffer the
  hardware does not reference, assigning a table index to a queued buffer, mapping it, and giving
  the buffers of the NAL queue back (\<^verbatim>\<open>mfc_queue.c\<close>, \<^verbatim>\<open>mfc_mem.c\<close>, \<^verbatim>\<open>mfc_data_struct.h\<close>). The
  queues, the decoder and the parts of the context these functions use are one state. The
  kernel's \<^verbatim>\<open>dma_buf\<close> functions are parameters; their calls are logged in \<open>dma_log\<close>, latest
  first. \<open>stopped\<close> says that \<^verbatim>\<open>dump_and_stop_debug_mode\<close> was called, which continues outside
  debug mode.
\<close>

subsection \<open>Data\<close>

record dpb_table =
  d_addr :: "nat \<Rightarrow> u64"
  d_paddr :: u64
  d_size :: u64
  d_fd :: "nat \<Rightarrow> int"
  d_new_fd :: int
  d_mapcnt :: int
  d_ref :: int
  d_queued :: int
  d_dmabufs :: "nat \<Rightarrow> ptr"
  d_attach :: "nat \<Rightarrow> ptr"
  d_sgt :: "nat \<Rightarrow> ptr"

datatype dma_event =
    DmaGet ptr
  | DmaAttach ptr ptr
  | DmaMap ptr ptr
  | DmaUnmap ptr ptr
  | DmaDetach ptr ptr
  | DmaPut ptr

record dma_ops =
  dma_buf_get :: "int \<Rightarrow> ptr"
  dma_buf_attach :: "ptr \<Rightarrow> ptr"
  dma_buf_map_attachment :: "ptr \<Rightarrow> ptr"
  sg_dma_address :: "ptr \<Rightarrow> u64"
  sg_phys :: "ptr \<Rightarrow> u64"

text \<open>\<^verbatim>\<open>IS_ERR_VALUE\<close>: the last 4095 addresses are error codes.\<close>

definition IS_ERR :: "ptr \<Rightarrow> bool" where
  "IS_ERR p \<longleftrightarrow> p \<ge> - 4095"

record mfc_dec =
  remained_size :: u64
  is_dpb_full :: int
  queued_dpb :: u64
  dynamic_set :: u64
  dynamic_used :: u64
  dpb :: "nat \<Rightarrow> dpb_table"
  dpb_table_used :: u64
  last_dpb_max_index :: int

record mfc_ctx =
  bufs :: bufs
  dec_priv :: "mfc_dec option"
  two_mode2 :: bool
  dpb_count :: int
  mem_planes :: nat
  num_planes :: nat
  src_buf_ready_queue :: mfc_buf_queue
  dst_buf_queue :: mfc_buf_queue
  src_buf_nal_queue :: mfc_buf_queue
  dst_buf_nal_queue :: mfc_buf_queue
  dst_buf_err_queue :: mfc_buf_queue
  core_src_buf_queue :: mfc_buf_queue
  core_dynamic_set :: u64
  recovered_ctrls :: "nat list"
  dma_log :: "dma_event list"
  stopped :: bool

abbreviation (input) MFC_MAX_DPBS :: nat where "MFC_MAX_DPBS \<equiv> 64"
abbreviation (input) MFC_MAX_PLANES :: nat where "MFC_MAX_PLANES \<equiv> 3"
abbreviation (input) MFC_EXTRA_DPB :: int where "MFC_EXTRA_DPB \<equiv> 5"

text \<open>\<^verbatim>\<open>hweight64\<close> and \<^verbatim>\<open>__ffs\<close> (of a word that is not 0).\<close>

definition hweight64 :: "u64 \<Rightarrow> nat" where
  "hweight64 w = length (filter (bit w) [0..<64])"

definition ffs :: "u64 \<Rightarrow> nat" where
  "ffs w = (case find (bit w) [0..<64] of Some i \<Rightarrow> i | None \<Rightarrow> 0)"

subsection \<open>Mapping of a DPB\<close>

text \<open>
  One plane of \<^verbatim>\<open>mfc_put_iovmm\<close>: what the entry holds is released. The scatter table pointer is
  not cleared.
\<close>

definition put_plane :: "nat \<Rightarrow> dpb_table \<times> dma_event list \<Rightarrow> dpb_table \<times> dma_event list" where
  "put_plane i x =
     (let (d, l) = x;
          l1 = (if d_sgt d i \<noteq> 0 then DmaUnmap (d_attach d i) (d_sgt d i) # l else l);
          l2 = (if d_attach d i \<noteq> 0 then DmaDetach (d_dmabufs d i) (d_attach d i) # l1 else l1);
          l3 = (if d_dmabufs d i \<noteq> 0 then DmaPut (d_dmabufs d i) # l2 else l2)
      in (d\<lparr>d_fd := (d_fd d)(i := -1), d_addr := (d_addr d)(i := 0),
            d_attach := (d_attach d)(i := 0), d_dmabufs := (d_dmabufs d)(i := 0)\<rparr>, l3))"

definition mfc_put_iovmm ::
  "nat \<Rightarrow> dpb_table \<times> dma_event list \<Rightarrow> dpb_table \<times> dma_event list \<times> bool" where
  "mfc_put_iovmm n x =
     (let (d, l) = fold put_plane [0..<n] x;
          d1 = d\<lparr>d_new_fd := -1, d_mapcnt := d_mapcnt d - 1\<rparr>
      in (d1, l, d_mapcnt d1 \<noteq> 0))"

text \<open>
  The loop of \<^verbatim>\<open>mfc_get_iovmm\<close> over the planes from \<open>i\<close>: the last component is the count of
  planes started when a step failed, \<open>None\<close> when all are mapped.
\<close>

function get_planes ::
  "dma_ops \<Rightarrow> (nat \<Rightarrow> int) \<Rightarrow> nat \<Rightarrow> nat \<Rightarrow> dpb_table \<Rightarrow> dma_event list \<Rightarrow>
     dpb_table \<times> dma_event list \<times> nat option" where
  "get_planes D fds n i d l =
     (if i \<ge> n then (d, l, None)
      else
        let d1 = d\<lparr>d_fd := (d_fd d)(i := fds i)\<rparr>;
            db = dma_buf_get D (fds i)
        in if IS_ERR db then (d1\<lparr>d_dmabufs := (d_dmabufs d1)(i := 0)\<rparr>, l, Some (i + 1))
        else
          let d2 = d1\<lparr>d_dmabufs := (d_dmabufs d1)(i := db)\<rparr>; l2 = DmaGet db # l;
              at = dma_buf_attach D db
          in if IS_ERR at then (d2\<lparr>d_attach := (d_attach d2)(i := 0)\<rparr>, l2, Some (i + 1))
          else
            let d3 = d2\<lparr>d_attach := (d_attach d2)(i := at)\<rparr>; l3 = DmaAttach db at # l2;
                sg = dma_buf_map_attachment D at
            in if IS_ERR sg then (d3\<lparr>d_sgt := (d_sgt d3)(i := 0)\<rparr>, l3, Some (i + 1))
            else
              let d4 = d3\<lparr>d_sgt := (d_sgt d3)(i := sg)\<rparr>; l4 = DmaMap at sg # l3;
                  a = sg_dma_address D sg
              in if IS_ERR a then (d4\<lparr>d_addr := (d_addr d4)(i := 0)\<rparr>, l4, Some (i + 1))
              else get_planes D fds n (i + 1) (d4\<lparr>d_addr := (d_addr d4)(i := a)\<rparr>) l4)"
  by pat_completeness auto
termination
  by (relation "measure (\<lambda>(D, fds, n, i, d, l). n - i)") auto

declare get_planes.simps [simp del]

definition mfc_get_iovmm ::
  "dma_ops \<Rightarrow> nat \<Rightarrow> mfc_buf \<Rightarrow> dpb_table \<Rightarrow> dma_event list \<Rightarrow> dpb_table \<times> dma_event list \<times> bool" where
  "mfc_get_iovmm D n mb d l =
     (let stop = d_mapcnt d \<noteq> 0;
          (d1, l1, failed) = get_planes D (vb_fd mb) n 0 d l
      in case failed of
           None \<Rightarrow> (d1\<lparr>d_paddr := sg_phys D (d_sgt d1 0), d_mapcnt := d_mapcnt d1 + 1\<rparr>, l1, stop)
         | Some c \<Rightarrow>
             let (d2, l2, stop2) = mfc_put_iovmm c (d1\<lparr>d_mapcnt := d_mapcnt d1 + 1\<rparr>, l1)
             in (d2, l2, stop \<or> stop2))"

definition init_dpb_entry :: "dpb_table \<Rightarrow> dpb_table" where
  "init_dpb_entry d =
     (let clear = (\<lambda>f z. \<lambda>p. if p < MFC_MAX_PLANES then z else f p)
      in d\<lparr>d_fd := (\<lambda>p. if p < MFC_MAX_PLANES then -1 else d_fd d p),
           d_addr := clear (d_addr d) 0, d_attach := clear (d_attach d) 0,
           d_dmabufs := clear (d_dmabufs d) 0, d_new_fd := -1, d_mapcnt := 0, d_queued := 0\<rparr>)"

definition mfc_init_dpb_table :: "mfc_dec \<Rightarrow> mfc_dec" where
  "mfc_init_dpb_table dec =
     dec\<lparr>dpb := (\<lambda>i. if i < MFC_MAX_DPBS then init_dpb_entry (dpb dec i) else dpb dec i)\<rparr>"

text \<open>One entry of \<^verbatim>\<open>mfc_cleanup_iovmm\<close>.\<close>

definition cleanup_entry ::
  "nat \<Rightarrow> nat \<Rightarrow> mfc_dec \<times> dma_event list \<times> bool \<Rightarrow> mfc_dec \<times> dma_event list \<times> bool" where
  "cleanup_entry n i x =
     (let (dec, l, stop) = x;
          d = (dpb dec i)\<lparr>d_paddr := 0, d_ref := 0\<rparr>
      in if d_mapcnt d = 0 then (dec\<lparr>dpb := (dpb dec)(i := d)\<rparr>, l, stop)
         else if d_mapcnt d = 1 then
           let (d1, l1, s1) = mfc_put_iovmm n (d, l)
           in (dec\<lparr>dpb := (dpb dec)(i := d1)\<rparr>, l1, stop \<or> s1)
         else (dec\<lparr>dpb := (dpb dec)(i := d)\<rparr>, l, True))"

definition mfc_cleanup_iovmm ::
  "nat \<Rightarrow> mfc_dec \<times> dma_event list \<times> bool \<Rightarrow> mfc_dec \<times> dma_event list \<times> bool" where
  "mfc_cleanup_iovmm n x = fold (cleanup_entry n) [0..<MFC_MAX_DPBS] x"

definition cleanup_unused_entry ::
  "nat \<Rightarrow> nat \<Rightarrow> mfc_dec \<times> dma_event list \<times> bool \<Rightarrow> mfc_dec \<times> dma_event list \<times> bool" where
  "cleanup_unused_entry n i x =
     (let (dec, l, stop) = x
      in if dynamic_used dec AND BIT i \<noteq> 0 then x
         else
           let d = (dpb dec i)\<lparr>d_paddr := 0, d_ref := 0\<rparr>
           in if d_mapcnt d = 0 then (dec\<lparr>dpb := (dpb dec)(i := d)\<rparr>, l, stop)
              else if d_mapcnt d = 1 then
                let (d1, l1, s1) = mfc_put_iovmm n (d, l)
                in (dec\<lparr>dpb := (dpb dec)(i := d1),
                        dpb_table_used := dpb_table_used dec AND NOT (BIT i)\<rparr>, l1, stop \<or> s1)
              else (dec\<lparr>dpb := (dpb dec)(i := d)\<rparr>, l, stop))"

definition mfc_cleanup_iovmm_except_used ::
  "nat \<Rightarrow> mfc_dec \<times> dma_event list \<times> bool \<Rightarrow> mfc_dec \<times> dma_event list \<times> bool" where
  "mfc_cleanup_iovmm_except_used n x = fold (cleanup_unused_entry n) [0..<MFC_MAX_DPBS] x"

subsection \<open>Choosing a DPB\<close>

text \<open>
  The test of the search loops: not set for the other core in the two-core mode, and not
  referenced.
\<close>

definition dpb_free :: "mfc_ctx \<Rightarrow> mfc_dec \<Rightarrow> nat \<Rightarrow> bool" where
  "dpb_free ctx dec b \<longleftrightarrow>
     (let m = BIT (nat (dpb_index (bufs ctx b)))
      in \<not> (two_mode2 ctx \<and> dynamic_set dec AND m \<noteq> 0) \<and> dynamic_used dec AND m = 0)"

definition all_referenced :: "mfc_ctx \<Rightarrow> mfc_dec \<Rightarrow> bool" where
  "all_referenced ctx dec \<longleftrightarrow> int (hweight64 (dynamic_used dec)) = dpb_count ctx + MFC_EXTRA_DPB"

definition mfc_check_for_dpb :: "mfc_ctx \<Rightarrow> mfc_dec \<Rightarrow> int" where
  "mfc_check_for_dpb ctx dec =
     (if count (dst_buf_queue ctx) = 0 then 0
      else if list_ex (dpb_free ctx dec) (head (dst_buf_queue ctx)) then 1
      else if all_referenced ctx dec then 1
      else 0)"

definition take_dpb :: "nat \<Rightarrow> mfc_ctx \<Rightarrow> mfc_dec \<Rightarrow> mfc_ctx" where
  "take_dpb b ctx dec =
     (let m = BIT (nat (dpb_index (bufs ctx b)))
      in ctx\<lparr>bufs := set_used b 1 (bufs ctx), dec_priv := Some (dec\<lparr>dynamic_set := m\<rparr>),
             core_dynamic_set := m\<rparr>)"

text \<open>
  \<open>None\<close> is the access through \<^verbatim>\<open>list_entry\<close> of an empty list, which is not a buffer.
\<close>

definition mfc_search_for_dpb :: "mfc_ctx \<Rightarrow> mfc_dec \<Rightarrow> (mfc_ctx \<times> nat option) option" where
  "mfc_search_for_dpb ctx dec =
     (case find (dpb_free ctx dec) (head (dst_buf_queue ctx)) of
        Some b \<Rightarrow> Some (take_dpb b ctx dec, Some b)
      | None \<Rightarrow>
          if all_referenced ctx dec
          then (case head (dst_buf_queue ctx) of
                  [] \<Rightarrow> None
                | b # _ \<Rightarrow> Some (take_dpb b ctx dec, Some b))
          else Some (ctx, None))"

definition mfc_search_move_dpb_nal_q :: "mfc_ctx \<Rightarrow> mfc_dec \<Rightarrow> mfc_ctx \<times> nat option" where
  "mfc_search_move_dpb_nal_q ctx dec =
     (case find (\<lambda>b. dynamic_used dec AND BIT (nat (dpb_index (bufs ctx b))) = 0)
             (head (dst_buf_queue ctx)) of
        Some b \<Rightarrow>
          (ctx\<lparr>bufs := set_used b 1 (bufs ctx), dst_buf_queue := queue_del b (dst_buf_queue ctx),
               dst_buf_nal_queue := queue_add_tail b (dst_buf_nal_queue ctx)\<rparr>, Some b)
      | None \<Rightarrow>
          if all_referenced ctx dec
          then (ctx\<lparr>dec_priv := Some (dec\<lparr>is_dpb_full := 1\<rparr>)\<rparr>, None)
          else (ctx, None))"

subsection \<open>Queueing a DPB\<close>

lemma ffs_bit:
  assumes "w \<noteq> 0"
  shows "bit w (ffs w) \<and> ffs w < 64"
proof -
  obtain j where j: "bit w j" using assms by (auto simp: bit_eq_iff)
  then have "j < 64" using bit_imp_le_length by fastforce
  with j have "find (bit w) [0..<64] \<noteq> None" by (auto simp: find_None_iff simp del: upt_conv_Cons)
  then obtain i where i: "find (bit w) [0..<64] = Some i" by blast
  then have "bit w i \<and> i < 64" by (auto simp: find_Some_iff simp del: upt_conv_Cons)
  with i show ?thesis by (simp add: ffs_def)
qed

lemma bits_cleared_fewer:
  assumes "w \<noteq> 0"
  shows "length (filter (bit (w AND NOT (2 ^ ffs w))) [0..<64]) < length (filter (bit w) [0..<64])"
proof -
  let ?i = "ffs w"
  have b: "bit w ?i" "?i < 64" using ffs_bit [OF assms] by auto
  have "filter (bit (w AND NOT (2 ^ ?i))) [0..<64] = filter (\<lambda>j. j \<noteq> ?i) (filter (bit w) [0..<64])"
    unfolding filter_filter
    by (rule filter_cong) (auto simp: bit_simps dest: bit_imp_le_length)
  moreover have "length (filter (\<lambda>j. j \<noteq> ?i) (filter (bit w) [0..<64])) < length (filter (bit w) [0..<64])"
    by (rule length_filter_less [of ?i]) (use b in auto)
  ultimately show ?thesis by simp
qed

function ref_scan :: "(nat \<Rightarrow> bool) \<Rightarrow> u64 \<Rightarrow> nat option" where
  "ref_scan p w =
     (if w = 0 then None
      else let i = ffs w in if p i then Some i else ref_scan p (w AND NOT (BIT i)))"
  by pat_completeness auto
termination
  by (relation "measure (\<lambda>(p, w). length (filter (bit w) [0..<64]))")
    (auto simp: bits_cleared_fewer)

declare ref_scan.simps [simp del]

text \<open>The index, and whether the table was found full.\<close>

definition mfc_assign_dpb_index :: "mfc_dec \<Rightarrow> mfc_buf \<Rightarrow> nat \<times> bool" where
  "mfc_assign_dpb_index dec mb =
     (if paddr mb = d_paddr (dpb dec (vb_index mb)) then (vb_index mb, False)
      else
        case ref_scan (\<lambda>i. paddr mb = d_paddr (dpb dec i)) (dynamic_used dec) of
          Some i \<Rightarrow> (i, False)
        | None \<Rightarrow>
            if dpb_table_used dec = NOT 0 then (0, True)
            else (ffs (NOT (dpb_table_used dec)), False))"

text \<open>
  One memory plane: each plane keeps its offset to the plane before it.
\<close>

fun shift_planes :: "(nat \<Rightarrow> u64) \<Rightarrow> u64 \<Rightarrow> nat list \<Rightarrow> (nat \<Rightarrow> u64) \<Rightarrow> (nat \<Rightarrow> u64)" where
  "shift_planes base start_raw [] a = a"
| "shift_planes base start_raw (i # is) a =
     (let offset = a i - start_raw
      in shift_planes base (a i) is (a(i := base i + offset)))"

definition mfc_update_base_addr_dpb :: "nat \<Rightarrow> nat \<Rightarrow> dpb_table \<Rightarrow> mfc_buf \<Rightarrow> mfc_buf" where
  "mfc_update_base_addr_dpb memp nump d mb =
     (let a = addr mb 0
      in if memp = 1
         then mb\<lparr>addr := (addr mb)(0 := shift_planes (d_addr d) (a 0) [0..<nump] a)\<rparr>
         else mb\<lparr>addr := (addr mb)(0 := (\<lambda>i. if i < memp then d_addr d i else a i))\<rparr>)"

definition mfc_update_dpb_fd :: "mfc_buf \<Rightarrow> dpb_table \<Rightarrow> dpb_table \<times> int" where
  "mfc_update_dpb_fd mb d =
     (if d_queued d \<noteq> 0 then (d, - EINVAL) else (d\<lparr>d_new_fd := vb_fd mb 0\<rparr>, 0))"

definition planes_length :: "mfc_buf \<Rightarrow> u64" where
  "planes_length mb = fold (\<lambda>p s. s + ucast (vb_length mb p)) [0..<vb_num_planes mb] 0"

definition mfc_store_dpb :: "dma_ops \<Rightarrow> mfc_ctx \<Rightarrow> nat \<Rightarrow> mfc_ctx" where
  "mfc_store_dpb D ctx b =
     (case dec_priv ctx of None \<Rightarrow> ctx | Some dec \<Rightarrow>
      let (index, full) = mfc_assign_dpb_index dec (bufs ctx b);
          mb = (bufs ctx b)\<lparr>used := 0, dpb_index := int index\<rparr>;
          dec1 = dec\<lparr>last_dpb_max_index := max (last_dpb_max_index dec) (int index)\<rparr>;
          d = dpb dec1 index;
          (d1, l1, stop, ret) =
            (if d_mapcnt d = 0
             then (let (d1, l1, s) = mfc_get_iovmm D (mem_planes ctx) mb d (dma_log ctx) in (d1, l1, s, 0))
             else if d_paddr d = paddr mb
             then (let (d1, r) = mfc_update_dpb_fd mb d in (d1, dma_log ctx, False, r))
             else (d, dma_log ctx, True, 0));
          ctx1 = ctx\<lparr>bufs := (bufs ctx)(b := mb),
                     dec_priv := Some (dec1\<lparr>dpb := (dpb dec1)(index := d1)\<rparr>),
                     dma_log := l1, stopped := stopped ctx \<or> full \<or> stop\<rparr>
      in if ret \<noteq> 0
         then ctx1\<lparr>dst_buf_err_queue := queue_add_tail b (dst_buf_err_queue ctx1)\<rparr>
         else
           let mb2 = mfc_update_base_addr_dpb (mem_planes ctx) (num_planes ctx) d1 mb;
               d2 = d1\<lparr>d_size := planes_length mb2, d_queued := 1\<rparr>
           in ctx1\<lparr>bufs := (bufs ctx1)(b := mb2),
                   dec_priv := Some (dec1\<lparr>dpb := (dpb dec1)(index := d2),
                                          dpb_table_used := dpb_table_used dec1 OR BIT index,
                                          queued_dpb := set_bit index (queued_dpb dec1)\<rparr>),
                   dst_buf_queue := queue_add_tail b (dst_buf_queue ctx1)\<rparr>)"

subsection \<open>Leaving the NAL queue\<close>

definition recover_src :: "nat \<Rightarrow> bufs \<Rightarrow> bufs" where
  "recover_src b bs =
     bs(b := (bs b)\<lparr>used := 0, next_index := min (next_index (bs b)) (done_index (bs b))\<rparr>)"

fun nal_src_back :: "nat list \<Rightarrow> mfc_ctx \<Rightarrow> mfc_ctx" where
  "nal_src_back [] ctx = ctx"
| "nal_src_back (b # bs) ctx =
     nal_src_back bs
       (ctx\<lparr>bufs := recover_src b (bufs ctx),
            recovered_ctrls := vb_index (bufs ctx b) # recovered_ctrls ctx,
            src_buf_nal_queue := queue_del b (src_buf_nal_queue ctx),
            core_src_buf_queue := queue_add b (core_src_buf_queue ctx)\<rparr>)"

fun nal_dst_back :: "nat list \<Rightarrow> mfc_ctx \<Rightarrow> mfc_ctx" where
  "nal_dst_back [] ctx = ctx"
| "nal_dst_back (b # bs) ctx =
     nal_dst_back bs
       (ctx\<lparr>bufs := set_used b 0 (bufs ctx),
            dst_buf_nal_queue := queue_del b (dst_buf_nal_queue ctx),
            dst_buf_queue := queue_add b (dst_buf_queue ctx)\<rparr>)"

text \<open>Both queues are emptied from their last entry on.\<close>

definition mfc_cleanup_nal_queue :: "mfc_ctx \<Rightarrow> mfc_ctx" where
  "mfc_cleanup_nal_queue ctx =
     (let ctx1 = nal_src_back (rev (head (src_buf_nal_queue ctx))) ctx
      in nal_dst_back (rev (head (dst_buf_nal_queue ctx1))) ctx1)"

end
