(* ===== verification/MfcProps.thy ===== *)
theory MfcProps
  imports MfcDpb
begin

text \<open>
  The properties of the codec's queues: the counters are exact and no buffer is lost or linked
  twice, whatever the sequence of operations; first in, first out; the order in which queues are
  merged; when a stream buffer is finished with.
\<close>

subsection \<open>Counted queues and transfers\<close>

definition counted :: "mfc_buf_queue \<Rightarrow> bool" where
  "counted q \<longleftrightarrow> count q = of_nat (length (head q))"

lemma counted_add [simp]: "counted q \<Longrightarrow> counted (queue_add b q)"
  "counted q \<Longrightarrow> counted (queue_add_tail b q)"
  by (simp_all add: counted_def queue_add_def queue_add_tail_def)

lemma counted_del [simp]:
  assumes "counted q" and "b \<in> set (head q)"
  shows "counted (queue_del b q)"
proof -
  have "1 \<le> length (head q)" using assms(2) by (cases "head q") auto
  then have "of_nat (length (head q) - 1) = (of_nat (length (head q)) - 1 :: u32)"
    by (simp only: of_nat_diff of_nat_1)
  then show ?thesis using assms by (simp add: counted_def queue_del_def length_remove1)
qed

lemma counted_empty [simp]: "counted (q\<lparr>head := [], count := 0\<rparr>)"
  by (simp add: counted_def)

lemma head_queue_ops [simp]:
  "head (queue_add b q) = b # head q" "head (queue_add_tail b q) = head q @ [b]"
  "head (queue_del b q) = remove1 b (head q)"
  by (simp_all add: queue_add_def queue_add_tail_def queue_del_def)

text \<open>
  The contract of an operation that moves at most one buffer: it is taken out of the one queue
  and linked at an end of the other, and nothing else changes in either.
\<close>

locale transfer =
  fixes op :: "bufs \<Rightarrow> mfc_buf_queue \<Rightarrow> mfc_buf_queue \<Rightarrow> bufs \<times> mfc_buf_queue \<times> mfc_buf_queue \<times> nat option"
  assumes moves: "op bs to fr = (bs', to', fr', r) \<Longrightarrow>
    (case r of
       None \<Rightarrow> to' = to \<and> fr' = fr
     | Some b \<Rightarrow> b \<in> set (head fr) \<and> fr' = queue_del b fr \<and>
         (to' = queue_add b to \<or> to' = queue_add_tail b to))"
begin

lemma keeps_counted:
  assumes "op bs to fr = (bs', to', fr', r)" and "counted to" and "counted fr"
  shows "counted to' \<and> counted fr'"
  using moves [OF assms(1)] assms(2,3) by (auto split: option.splits)

lemma conserves:
  assumes "op bs to fr = (bs', to', fr', r)"
  shows "mset (head to') + mset (head fr') = mset (head to) + mset (head fr)"
  using moves [OF assms] by (auto split: option.splits)

end

interpretation move_first: transfer "mfc_get_move_buf u tp"
  by unfold_locales (auto simp: mfc_get_move_buf_def split: list.splits option.splits if_splits)

interpretation move_used: transfer mfc_get_move_buf_used
  by unfold_locales (auto simp: mfc_get_move_buf_used_def split: list.splits option.splits if_splits)

lemma find_SomeD: "find p xs = Some x \<Longrightarrow> x \<in> set xs \<and> p x"
  by (auto simp: find_Some_iff)

interpretation move_addr: transfer "mfc_get_move_buf_addr a f"
  by unfold_locales (auto simp: mfc_get_move_buf_addr_def dest: find_SomeD
      split: option.splits if_splits)

interpretation move_index: transfer "mfc_get_move_buf_index i"
  by unfold_locales (auto simp: mfc_get_move_buf_index_def dest: find_SomeD split: option.splits)

subsection \<open>All queues of a context\<close>

datatype qid = SrcReady | CoreSrc | Dst | SrcNal | DstNal | DstErr

type_synonym queues = "bufs \<times> (qid \<Rightarrow> mfc_buf_queue)"

text \<open>
  The operations of \<^verbatim>\<open>mfc_queue.c\<close> on the queues of a context; a buffer is added only while it is
  in no queue (the V4L2 framework owns it then).
\<close>

inductive queue_step :: "queues \<Rightarrow> queues \<Rightarrow> bool" where
  add: "\<forall>q. b \<notin> set (head (qs q)) \<Longrightarrow> mfc_add_tail_buf bs (qs q) (Some b) = (bs', q') \<Longrightarrow>
    queue_step (bs, qs) (bs', qs(q := q'))"
| get_del: "mfc_get_del_buf bs (qs q) u = (bs', q', r) \<Longrightarrow> queue_step (bs, qs) (bs', qs(q := q'))"
| consumed: "mfc_get_del_if_consumed bs (qs q) rs c m err = (q', r, d) \<Longrightarrow>
    queue_step (bs, qs) (bs, qs(q := q'))"
| find_del: "mfc_find_del_buf bs (qs q) a = (q', r) \<Longrightarrow> queue_step (bs, qs) (bs, qs(q := q'))"
| cleanup: "mfc_cleanup_queue bs (qs q) = (bs', q') \<Longrightarrow> queue_step (bs, qs) (bs', qs(q := q'))"
| move: "i \<noteq> j \<Longrightarrow> mfc_get_move_buf u tp bs (qs i) (qs j) = (bs', qi, qj, r) \<Longrightarrow>
    queue_step (bs, qs) (bs', qs(i := qi, j := qj))"
| move_used: "i \<noteq> j \<Longrightarrow> mfc_get_move_buf_used bs (qs i) (qs j) = (bs', qi, qj, r) \<Longrightarrow>
    queue_step (bs, qs) (bs', qs(i := qi, j := qj))"
| move_addr: "i \<noteq> j \<Longrightarrow> mfc_get_move_buf_addr a f bs (qs i) (qs j) = (bs', qi, qj, r) \<Longrightarrow>
    queue_step (bs, qs) (bs', qs(i := qi, j := qj))"
| move_index: "i \<noteq> j \<Longrightarrow> mfc_get_move_buf_index x bs (qs i) (qs j) = (bs', qi, qj, r) \<Longrightarrow>
    queue_step (bs, qs) (bs', qs(i := qi, j := qj))"
| move_all: "i \<noteq> j \<Longrightarrow> mfc_move_buf_all tp (qs i) (qs j) = (qi, qj) \<Longrightarrow>
    queue_step (bs, qs) (bs, qs(i := qi, j := qj))"

inductive queue_reachable :: "queues \<Rightarrow> bool" where
  init: "queue_reachable (bs, \<lambda>q. \<lparr>head = [], count = 0\<rparr>)"
| step: "queue_reachable s \<Longrightarrow> queue_step s s' \<Longrightarrow> queue_reachable s'"

definition queues_ok :: "(qid \<Rightarrow> mfc_buf_queue) \<Rightarrow> bool" where
  "queues_ok qs \<longleftrightarrow>
     (\<forall>q. counted (qs q) \<and> distinct (head (qs q))) \<and>
     (\<forall>p q. p \<noteq> q \<longrightarrow> set (head (qs p)) \<inter> set (head (qs q)) = {})"

lemma queues_ok_one:
  assumes "queues_ok qs" and "counted q'" and "distinct (head q')"
    and "set (head q') \<subseteq> set (head (qs q))"
  shows "queues_ok (qs(q := q'))"
  using assms unfolding queues_ok_def by (auto; blast)

lemma queues_ok_two:
  assumes ok: "queues_ok qs" and ij: "i \<noteq> j" and c: "counted qi" "counted qj"
    and m: "mset (head qi) + mset (head qj) = mset (head (qs i)) + mset (head (qs j))"
  shows "queues_ok (qs(i := qi, j := qj))"
proof -
  have "distinct (head (qs i) @ head (qs j))" using ok ij by (auto simp: queues_ok_def)
  then have d: "distinct (head qi @ head qj)"
    using m by (metis mset_append mset_eq_imp_distinct_iff)
  have s: "set (head qi) \<union> set (head qj) = set (head (qs i)) \<union> set (head (qs j))"
    by (metis m mset_append set_append set_mset_mset)
  have "set (head qk) \<inter> set (head (qs q)) = {}" if "qk = qi \<or> qk = qj" and "q \<noteq> i" "q \<noteq> j" for qk q
  proof -
    have "set (head qk) \<subseteq> set (head (qs i)) \<union> set (head (qs j))" using that(1) s by auto
    moreover have "set (head (qs i)) \<inter> set (head (qs q)) = {}" "set (head (qs j)) \<inter> set (head (qs q)) = {}"
      using ok that by (simp_all add: queues_ok_def)
    ultimately show ?thesis by blast
  qed
  then show ?thesis
    using ok ij c d by (auto simp: queues_ok_def)
qed

context transfer
begin

lemma keeps_queues:
  assumes "i \<noteq> j" and "op bs (qs i) (qs j) = (bs', qi, qj, r)" and "queues_ok qs"
  shows "queues_ok (qs(i := qi, j := qj))"
  using queues_ok_two [OF assms(3,1) _ _ conserves [OF assms(2)]] keeps_counted [OF assms(2)] assms(3)
  by (simp add: queues_ok_def)

end

lemma move_all_top_eq:
  "move_all_top to fr = (to\<lparr>head := head fr @ head to, count := count to + of_nat (length (head fr))\<rparr>,
     fr\<lparr>head := [], count := count fr - of_nat (length (head fr))\<rparr>)"
proof (induction "head fr" arbitrary: to fr rule: rev_induct)
  case Nil
  then show ?case by (subst move_all_top.simps) (simp flip: Nil)
next
  case (snoc b bs)
  then have "bs = head (fr\<lparr>head := butlast (head fr), count := count fr - 1\<rparr>)" by (metis butlast_snoc mfc_buf_queue.select_convs(1) mfc_buf_queue.surjective mfc_buf_queue.update_convs(1) mfc_buf_queue.update_convs(2))
  from snoc(1) [OF this] snoc(2) [symmetric] show ?case
    by (subst move_all_top.simps) (simp add: queue_add_def algebra_simps)
qed

lemma move_all_bottom_eq:
  "move_all_bottom to fr = (to\<lparr>head := head to @ head fr, count := count to + of_nat (length (head fr))\<rparr>,
     fr\<lparr>head := [], count := count fr - of_nat (length (head fr))\<rparr>)"
proof (induction "head fr" arbitrary: to fr)
  case Nil
  then show ?case by (subst move_all_bottom.simps) (simp flip: Nil)
next
  case (Cons b bs)
  then have "bs = head (fr\<lparr>head := tl (head fr), count := count fr - 1\<rparr>)" by (metis list.sel(3) mfc_buf_queue.select_convs(1) mfc_buf_queue.surjective mfc_buf_queue.update_convs(1) mfc_buf_queue.update_convs(2))
  from Cons(1) [OF this] Cons(2) [symmetric] show ?case
    by (subst move_all_bottom.simps) (simp add: queue_add_tail_def algebra_simps)
qed

lemma move_all_heads:
  assumes "mfc_move_buf_all tp to fr = (to', fr')"
  shows "head to' = (if tp = MFC_QUEUE_ADD_TOP then head fr @ head to else head to @ head fr) \<and>
    count to' = count to + of_nat (length (head fr)) \<and> head fr' = [] \<and> count fr' = 0"
  using assms by (auto simp: mfc_move_buf_all_def move_all_top_eq move_all_bottom_eq split: if_splits)

lemma remove1_ok:
  "queues_ok qs \<Longrightarrow> b \<in> set (head (qs q)) \<Longrightarrow> queues_ok (qs(q := queue_del b (qs q)))"
  by (rule queues_ok_one) (auto simp: queues_ok_def dest: notin_set_remove1)

lemma queues_same: "qs(q := qs q) = qs"
  by simp

lemma queues_ok_step:
  assumes "queue_step (bs, qs) (bs', qs')" and ok: "queues_ok qs"
  shows "queues_ok qs'"
  using assms(1)
proof cases
  case (add b q q')
  then show ?thesis
    using ok by (auto simp: queues_ok_def mfc_add_tail_buf_def; blast)
next
  case (get_del q u q' r)
  then show ?thesis
    using ok remove1_ok [OF ok]
    by (auto simp: mfc_get_del_buf_def split: list.splits)
next
  case (consumed q rs c m err q' r d)
  then show ?thesis
    using ok remove1_ok [OF ok]
    by (auto simp: mfc_get_del_if_consumed_def Let_def split: list.splits if_splits)
next
  case (find_del q a q' r)
  then show ?thesis
    using ok remove1_ok [OF ok]
    by (auto simp: mfc_find_del_buf_def dest: find_SomeD [OF sym] split: option.splits)
next
  case (cleanup q q')
  then show ?thesis
    using queues_ok_one [OF ok, of q' q] by (auto simp: mfc_cleanup_queue_def counted_def)
next
  case (move i j u tp qi qj r)
  then show ?thesis using move_first.keeps_queues ok by blast
next
  case (move_used i j qi qj r)
  then show ?thesis using move_used.keeps_queues ok by blast
next
  case (move_addr i j a f qi qj r)
  then show ?thesis using move_addr.keeps_queues ok by blast
next
  case (move_index i j x qi qj r)
  then show ?thesis using move_index.keeps_queues ok by blast
next
  case (move_all i j tp qi qj)
  have "counted (qs i)" "counted (qs j)" using ok by (auto simp: queues_ok_def)
  then have "counted qi" "counted qj"
    using move_all_heads [OF move_all(4)] by (auto simp: counted_def)
  moreover have "mset (head qi) + mset (head qj) = mset (head (qs i)) + mset (head (qs j))"
    using move_all_heads [OF move_all(4)] by auto
  ultimately show ?thesis
    using move_all queues_ok_two [OF ok] by auto
qed

lemma queues_ok_reachable: "queue_reachable s \<Longrightarrow> queues_ok (snd s)"
proof (induction rule: queue_reachable.induct)
  case (init bs)
  then show ?case by (simp add: queues_ok_def counted_def)
next
  case (step s s')
  then show ?case using queues_ok_step [of "fst s" "snd s" "fst s'" "snd s'"] by simp
qed

text \<open>
  C9. The queues of a context stay consistent: after any sequence of the queue operations of \<open>queue_step\<close> (not \<^verbatim>\<open>mfc_store_dpb\<close>,
  \<^verbatim>\<open>mfc_search_move_dpb_nal_q\<close> and the cleanups of the NAL queue and of the encoder, which also work on the table) every
  queue's counter is the number of its entries (modulo the width of the counter), no buffer is
  linked twice into a queue and no buffer is in two queues.
\<close>

theorem mfc_queues_consistent:
  assumes "queue_reachable (bs, qs)"
  shows "(\<forall>q. mfc_get_queue_count (qs q) = of_nat (length (head (qs q))) \<and> distinct (head (qs q))) \<and>
    (\<forall>p q. p \<noteq> q \<longrightarrow> set (head (qs p)) \<inter> set (head (qs q)) = {})"
  using queues_ok_reachable [OF assms]
  by (simp add: queues_ok_def counted_def mfc_get_queue_count_def)

abbreviation empty_queue :: mfc_buf_queue where "empty_queue \<equiv> \<lparr>head = [], count = 0\<rparr>"

definition wit_buf :: mfc_buf where
  "wit_buf =
     \<lparr>addr = (\<lambda>_ _. 0), paddr = 0, dmabufs = (\<lambda>_ _. 0), attachments = (\<lambda>_ _. 0), dpb_index = 0,
      next_index = 0, done_index = 0, used = 0, num_valid_bufs = 0, flag = 0, vb_index = 0,
      vb_num_planes = 1, vb_bytesused = (\<lambda>_. 100), vb_length = (\<lambda>_. 4096), vb_fd = (\<lambda>_. 3),
      b_done = False\<rparr>"

text \<open>A buffer is queued as a source and moved to the NAL queue.\<close>

theorem mfc_queues_consistent_witness:
  "\<exists>bs qs. queue_reachable (bs, qs) \<and> head (qs SrcNal) = [7] \<and> mfc_get_queue_count (qs SrcNal) = 1 \<and>
     distinct (head (qs SrcNal)) \<and> set (head (qs SrcNal)) \<inter> set (head (qs CoreSrc)) = {}"
proof -
  let ?q0 = "\<lambda>q :: qid. empty_queue"
  let ?b0 = "\<lambda>_ :: nat. wit_buf"
  let ?q1 = "?q0(CoreSrc := queue_add_tail 7 empty_queue)"
  let ?b1 = "set_used 7 0 ?b0"
  let ?q2 = "?q1(SrcNal := queue_add_tail 7 empty_queue, CoreSrc := queue_del 7 (?q1 CoreSrc))"
  have "queue_step (?b0, ?q0) (?b1, ?q1)"
    by (rule add [where b = 7]) (simp_all add: mfc_add_tail_buf_def)
  moreover have "queue_step (?b1, ?q1) (?b1, ?q2)"
    by (rule move [where r = "Some 7" and u = MFC_BUF_NO_TOUCH_USED and tp = MFC_QUEUE_ADD_BOTTOM])
      (simp_all add: mfc_get_move_buf_def touch_used_def)
  ultimately have r: "queue_reachable (?b1, ?q2)"
    using queue_reachable.init queue_reachable.step by blast
  have h: "head (?q2 SrcNal) = [7]" "SrcNal \<noteq> CoreSrc" by simp_all
  have "mfc_get_queue_count (?q2 SrcNal) = of_nat (length (head (?q2 SrcNal)))"
    "distinct (head (?q2 SrcNal))" "set (head (?q2 SrcNal)) \<inter> set (head (?q2 CoreSrc)) = {}"
    using mfc_queues_consistent [OF r] h(2) by blast+
  with r h show ?thesis
    by (intro exI [of _ ?b1] exI [of _ ?q2] conjI) simp_all
qed

subsection \<open>Order\<close>

fun enqueue_all :: "nat list \<Rightarrow> bufs \<times> mfc_buf_queue \<Rightarrow> bufs \<times> mfc_buf_queue" where
  "enqueue_all [] x = x"
| "enqueue_all (b # bl) (bs, q) = enqueue_all bl (mfc_add_tail_buf bs q (Some b))"

fun dequeue_n :: "nat \<Rightarrow> bufs \<times> mfc_buf_queue \<Rightarrow> nat option list \<times> mfc_buf_queue" where
  "dequeue_n 0 (bs, q) = ([], q)"
| "dequeue_n (Suc n) (bs, q) =
     (let (bs1, q1, r) = mfc_get_del_buf bs q MFC_BUF_NO_TOUCH_USED;
          (rs, q2) = dequeue_n n (bs1, q1)
      in (r # rs, q2))"

lemma enqueue_all_head:
  "counted q \<Longrightarrow> head (snd (enqueue_all bl (bs, q))) = head q @ bl \<and> counted (snd (enqueue_all bl (bs, q)))"
proof (induction bl arbitrary: bs q)
  case (Cons b bl)
  from Cons.IH [of "queue_add_tail b q" "set_used b 0 bs"] Cons.prems show ?case
    by (simp add: mfc_add_tail_buf_def)
qed simp

lemma dequeue_all:
  "dequeue_n (length (head q)) (bs, q) = (map Some (head q), q\<lparr>head := [], count := count q - of_nat (length (head q))\<rparr>)"
proof (induction "head q" arbitrary: q bs)
  case Nil
  then show ?case by (simp flip: Nil)
next
  case (Cons b bl)
  have h: "head q = b # bl" using Cons(2) by simp
  then have "bl = head (queue_del b q)" by simp
  from Cons(1) [OF this, of "touch_used MFC_BUF_NO_TOUCH_USED b bs"] h show ?case
    by (simp add: mfc_get_del_buf_def queue_del_def algebra_simps)
qed

text \<open>
  First in, first out: buffers added one after the other to a queue come out, one by one, after
  those already waiting and in the order they were added; then the queue is empty, its counter
  is 0, and taking from it gives \<^verbatim>\<open>NULL\<close>.
\<close>

theorem mfc_queue_fifo:
  assumes "counted q" and "enqueue_all bl (bs, q) = (bs', q')"
  shows "dequeue_n (length (head q) + length bl) (bs', q') = (map Some (head q @ bl), q\<lparr>head := [], count := 0\<rparr>) \<and>
    snd (snd (mfc_get_del_buf bs' (q\<lparr>head := [], count := 0\<rparr>) u)) = None"
proof -
  have h: "head q' = head q @ bl" "count q' = of_nat (length (head q'))"
    using enqueue_all_head [OF assms(1), of bl bs] assms(2) by (auto simp: counted_def)
  have "q'\<lparr>head := [], count := 0\<rparr> = q\<lparr>head := [], count := 0\<rparr>" by simp
  with dequeue_all [of q' bs'] h show ?thesis by (simp add: mfc_get_del_buf_def)
qed

theorem mfc_queue_fifo_witness:
  "dequeue_n 3 (enqueue_all [4, 9, 2] (\<lambda>_. wit_buf, empty_queue)) = ([Some 4, Some 9, Some 2], empty_queue)"
  using mfc_queue_fifo [of empty_queue "[4, 9, 2]" "\<lambda>_. wit_buf"
      "fst (enqueue_all [4, 9, 2] (\<lambda>_. wit_buf, empty_queue))"
      "snd (enqueue_all [4, 9, 2] (\<lambda>_. wit_buf, empty_queue))"]
  by (simp add: counted_def eval_nat_numeral)

text \<open>
  Moving a whole queue keeps the order on both sides: put on top, the moved buffers come before
  those of the target; put at the bottom, after them. The counters add up and the source is
  empty.
\<close>

theorem mfc_move_all_keeps_order:
  assumes "counted to" and "counted fr" and "mfc_move_buf_all tp to fr = (to', fr')"
  shows "head to' = (case tp of MFC_QUEUE_ADD_TOP \<Rightarrow> head fr @ head to | MFC_QUEUE_ADD_BOTTOM \<Rightarrow> head to @ head fr) \<and>
    counted to' \<and> head fr' = [] \<and> count fr' = 0"
  using move_all_heads [OF assms(3)] assms(1,2)
  by (cases tp) (auto simp: counted_def)

theorem mfc_move_all_keeps_order_witness:
  "head (fst (mfc_move_buf_all MFC_QUEUE_ADD_TOP \<lparr>head = [1, 2], count = 2\<rparr> \<lparr>head = [5, 6, 7], count = 3\<rparr>))
     = [5, 6, 7, 1, 2]"
  using mfc_move_all_keeps_order [of "\<lparr>head = [1, 2], count = 2\<rparr>" "\<lparr>head = [5, 6, 7], count = 3\<rparr>"
      MFC_QUEUE_ADD_TOP
      "fst (mfc_move_buf_all MFC_QUEUE_ADD_TOP \<lparr>head = [1, 2], count = 2\<rparr> \<lparr>head = [5, 6, 7], count = 3\<rparr>)"
      "snd (mfc_move_buf_all MFC_QUEUE_ADD_TOP \<lparr>head = [1, 2], count = 2\<rparr> \<lparr>head = [5, 6, 7], count = 3\<rparr>)"]
  by (simp add: counted_def)

subsection \<open>Stream buffers\<close>

text \<open>
  C10. When a stream buffer is finished: the first buffer stays queued exactly when the decoder
  reported no error (or only a missing sync point), consumed something, did not consume more than
  there was (what remained of the buffer, or its payload), and leaves more than the minimum; the
  subtraction of the sizes does not wrap in that case.
\<close>

theorem mfc_consumed_exact:
  assumes "head q = b # bl"
    and "avail = (if rs \<noteq> 0 then rs else ucast (vb_bytesused (bs b) 0))"
    and "mfc_get_del_if_consumed bs q rs c m err = (q', r, d)"
  shows "r = Some b \<and>
    (if IS_NO_ERROR err \<and> 0 < unat c \<and> unat c + unat m < unat avail
     then q' = q \<and> d = Some False
     else q' = queue_del b q \<and> head q' = bl \<and> d = Some True)"
proof -
  have "unat m < 2 ^ LENGTH(32)" by (rule unsigned_less)
  then have "unat m < 2 ^ 64" by simp
  then have m: "unat (ucast m :: u64) = unat m"
    by (simp add: unsigned_ucast_eq take_bit_nat_eq_self)
  have "(c > 0 \<and> avail - c > ucast m \<and> IS_NO_ERROR err \<and> \<not> c > avail) \<longleftrightarrow>
      (IS_NO_ERROR err \<and> 0 < unat c \<and> unat c + unat m < unat avail)"
    using m by (auto simp: word_less_nat_alt word_le_nat_alt unat_sub not_less unat_gt_0)
  with assms show ?thesis
    by (auto simp: mfc_get_del_if_consumed_def Let_def queue_del_def)
qed

theorem mfc_consumed_exact_witness:
  "mfc_get_del_if_consumed (\<lambda>_. wit_buf) \<lparr>head = [7], count = 1\<rparr> 0 40 4 0
     = (\<lparr>head = [7], count = 1\<rparr>, Some 7, Some False)"
  using mfc_consumed_exact [of "\<lparr>head = [7], count = 1\<rparr>" 7 "[]" 100 0 "\<lambda>_. wit_buf" 40 4 0
      "fst (mfc_get_del_if_consumed (\<lambda>_. wit_buf) \<lparr>head = [7], count = 1\<rparr> 0 40 4 0)"
      "fst (snd (mfc_get_del_if_consumed (\<lambda>_. wit_buf) \<lparr>head = [7], count = 1\<rparr> 0 40 4 0))"
      "snd (snd (mfc_get_del_if_consumed (\<lambda>_. wit_buf) \<lparr>head = [7], count = 1\<rparr> 0 40 4 0))"]
  by (simp add: IS_NO_ERROR_def wit_buf_def prod_eq_iff)

end
