(* ===== verification/MfcDpbProps.thy ===== *)
theory MfcDpbProps
  imports MfcProps
begin

text \<open>
  The properties of the decoded picture buffers: the search and its test agree and give buffers
  the hardware does not reference, table indices are free or belong to the same memory, queueing a
  buffer, leaving the NAL queue, and the mappings of an entry that fail half way.
\<close>

subsection \<open>Search\<close>

lemma and_BIT: "w AND 2 ^ i = 0 \<longleftrightarrow> \<not> bit w i" for w :: u64
proof
  assume "w AND 2 ^ i = 0"
  then have "\<not> bit (w AND 2 ^ i) i" by simp
  moreover have "bit w i \<Longrightarrow> i < 64" using bit_imp_le_length [of w i] by simp
  ultimately show "\<not> bit w i" by (auto simp: bit_simps)
next
  assume "\<not> bit w i"
  then show "w AND 2 ^ i = 0" by (intro bit_word_eqI) (auto simp: bit_simps)
qed

lemma counted_zero:
  assumes "counted q" and "length (head q) < 2 ^ 32"
  shows "count q = 0 \<longleftrightarrow> head q = []"
proof -
  have "unat (count q) = length (head q)"
    using assms by (simp add: counted_def unat_of_nat take_bit_nat_eq_self)
  then show ?thesis by (metis length_0_conv unat_eq_zero)
qed

text \<open>
  C11. The test for an available buffer and the search agree, with the destination queue counted
  and of fewer than 2 to the 32 buffers: the test says yes exactly when the search returns a
  buffer of the queue; that buffer is marked used and set for the hardware, and it is one the
  hardware does not reference unless every buffer it can reference is referenced. The search
  goes wrong only on an empty queue when all are referenced, where the test says no.
\<close>

theorem mfc_check_agrees_with_search:
  assumes "counted (dst_buf_queue ctx)" and "length (head (dst_buf_queue ctx)) < 2 ^ 32"
  shows "(mfc_check_for_dpb ctx dec = 1 \<longleftrightarrow> (\<exists>ctx' b. mfc_search_for_dpb ctx dec = Some (ctx', Some b))) \<and>
    (mfc_search_for_dpb ctx dec = None \<longleftrightarrow> head (dst_buf_queue ctx) = [] \<and> all_referenced ctx dec) \<and>
    (\<forall>ctx' b. mfc_search_for_dpb ctx dec = Some (ctx', Some b) \<longrightarrow>
       b \<in> set (head (dst_buf_queue ctx)) \<and> used (bufs ctx' b) = 1 \<and>
       dec_priv ctx' = Some (dec\<lparr>dynamic_set := BIT (nat (dpb_index (bufs ctx b)))\<rparr>) \<and>
       (\<not> bit (dynamic_used dec) (nat (dpb_index (bufs ctx b))) \<or> all_referenced ctx dec))"
proof (cases "find (dpb_free ctx dec) (head (dst_buf_queue ctx))")
  case (Some b)
  have b: "b \<in> set (head (dst_buf_queue ctx))" "dpb_free ctx dec b" using find_SomeD [OF Some] by auto
  then have "head (dst_buf_queue ctx) \<noteq> []" by auto
  moreover have "list_ex (dpb_free ctx dec) (head (dst_buf_queue ctx))"
    using b by (auto simp: list_ex_iff)
  moreover have "\<not> bit (dynamic_used dec) (nat (dpb_index (bufs ctx b)))"
    using b(2) by (simp add: dpb_free_def and_BIT)
  ultimately show ?thesis
    using Some b(1) counted_zero [OF assms]
    by (simp add: mfc_check_for_dpb_def mfc_search_for_dpb_def take_dpb_def set_used_def Let_def)
next
  case None
  then have "\<not> list_ex (dpb_free ctx dec) (head (dst_buf_queue ctx))"
    by (simp add: list_ex_iff find_None_iff)
  with None counted_zero [OF assms] show ?thesis
    by (auto simp: mfc_check_for_dpb_def mfc_search_for_dpb_def take_dpb_def set_used_def Let_def
        split: list.splits)
qed

definition wit_entry :: dpb_table where
  "wit_entry =
     \<lparr>d_addr = (\<lambda>_. 0), d_paddr = 0, d_size = 0, d_fd = (\<lambda>_. -1), d_new_fd = -1, d_mapcnt = 0,
      d_ref = 0, d_queued = 0, d_dmabufs = (\<lambda>_. 0), d_attach = (\<lambda>_. 0), d_sgt = (\<lambda>_. 0)\<rparr>"

definition wit_dec :: mfc_dec where
  "wit_dec =
     \<lparr>remained_size = 0, is_dpb_full = 0, queued_dpb = 0, dynamic_set = 0, dynamic_used = 1,
      dpb = (\<lambda>_. wit_entry), dpb_table_used = 1, last_dpb_max_index = 0\<rparr>"

definition wit_ctx :: mfc_ctx where
  "wit_ctx =
     \<lparr>bufs = (\<lambda>b. wit_buf\<lparr>dpb_index := int b, paddr := 0x80000000\<rparr>), dec_priv = Some wit_dec,
      two_mode2 = False, dpb_count = 3, mem_planes = 1, num_planes = 2,
      src_buf_ready_queue = empty_queue, dst_buf_queue = \<lparr>head = [0, 2], count = 2\<rparr>,
      src_buf_nal_queue = empty_queue, dst_buf_nal_queue = empty_queue,
      dst_buf_err_queue = empty_queue, core_src_buf_queue = empty_queue, core_dynamic_set = 0,
      recovered_ctrls = [], dma_log = [], stopped = False\<rparr>"

text \<open>Index 0 is referenced, so the second buffer of the queue is chosen.\<close>

theorem mfc_check_agrees_with_search_witness:
  "mfc_check_for_dpb wit_ctx wit_dec = 1 \<and>
   (\<exists>ctx'. mfc_search_for_dpb wit_ctx wit_dec = Some (ctx', Some 2) \<and> used (bufs ctx' 2) = 1)"
proof -
  have "counted (dst_buf_queue wit_ctx)" "length (head (dst_buf_queue wit_ctx)) < 2 ^ 32"
    by (simp_all add: wit_ctx_def counted_def)
  note p = mfc_check_agrees_with_search [OF this, of wit_dec]
  obtain ctx' where s: "mfc_search_for_dpb wit_ctx wit_dec = Some (ctx', Some 2)"
    by (simp add: mfc_search_for_dpb_def dpb_free_def wit_ctx_def wit_dec_def wit_buf_def)
  with p show ?thesis by blast
qed

subsection \<open>Table indices\<close>

lemma ref_scan_Some: "ref_scan p w = Some i \<Longrightarrow> bit w i \<and> p i"
proof (induction p w rule: ref_scan.induct)
  case (1 p w)
  show ?case
  proof (cases "w = 0 \<or> p (ffs w)")
    case True
    with "1.prems" ffs_bit [of w] show ?thesis
      by (subst (asm) (1) ref_scan.simps) (auto simp: Let_def split: if_splits)
  next
    case False
    with "1.prems" have "ref_scan p (w AND NOT (BIT (ffs w))) = Some i"
      by (subst (asm) (1) ref_scan.simps) (simp add: Let_def)
    with 1(1) [of "ffs w"] False show ?thesis by (auto simp: bit_simps)
  qed
qed

lemma ref_scan_None: "ref_scan p w = None \<Longrightarrow> bit w i \<Longrightarrow> \<not> p i"
proof (induction p w rule: ref_scan.induct)
  case (1 p w)
  then have w: "w \<noteq> 0" by auto
  with "1.prems"(1) have np: "\<not> p (ffs w)" and r: "ref_scan p (w AND NOT (BIT (ffs w))) = None"
    by (subst (asm) (1) ref_scan.simps, simp add: Let_def split: if_splits)+
  show ?case
  proof (cases "i = ffs w")
    case False
    then have "bit (w AND NOT (BIT (ffs w))) i"
      using "1.prems"(2) bit_imp_le_length [of w i] by (auto simp: bit_simps)
    with 1(1) [of "ffs w"] w np r show ?thesis by blast
  qed (use np in simp)
qed

text \<open>
  The index a buffer gets in the table is below 64. Unless the table is full (then it is 0 and
  the driver reports it), either the entry at the index is of the same physical memory, and
  then the entry is the buffer's own or the hardware references it, or the index was unused and
  no entry the hardware references is of that memory.
\<close>

theorem mfc_assigned_index:
  assumes "vb_index mb < 32" and "mfc_assign_dpb_index dec mb = (i, full)"
  shows "i < 64 \<and>
    (if full then i = 0 \<and> (\<forall>j < 64. bit (dpb_table_used dec) j)
     else d_paddr (dpb dec i) = paddr mb \<and> (i = vb_index mb \<or> bit (dynamic_used dec) i) \<or>
       \<not> bit (dpb_table_used dec) i \<and>
       (\<forall>j. bit (dynamic_used dec) j \<longrightarrow> d_paddr (dpb dec j) \<noteq> paddr mb))"
proof -
  let ?p = "\<lambda>i. paddr mb = d_paddr (dpb dec i)"
  show ?thesis
  proof (cases "?p (vb_index mb)")
    case True
    with assms show ?thesis by (auto simp: mfc_assign_dpb_index_def)
  next
    case np: False
    show ?thesis
    proof (cases "ref_scan ?p (dynamic_used dec)")
      case (Some j)
      with np assms(2) ref_scan_Some [OF Some] bit_imp_le_length [of "dynamic_used dec" j] show ?thesis
        by (auto simp: mfc_assign_dpb_index_def)
    next
      case None
      have u: "bit (dynamic_used dec) j \<Longrightarrow> d_paddr (dpb dec j) \<noteq> paddr mb" for j
        using ref_scan_None [OF None, of j] by auto
      show ?thesis
      proof (cases "dpb_table_used dec = NOT 0")
        case True
        with np None assms(2) show ?thesis by (auto simp: mfc_assign_dpb_index_def bit_simps)
      next
        case False
        then have "NOT (dpb_table_used dec) \<noteq> 0" by (metis bit.double_compl)
        from ffs_bit [OF this] np None False assms(2) u show ?thesis
          by (auto simp: mfc_assign_dpb_index_def bit_simps)
      qed
    qed
  qed
qed

theorem mfc_assigned_index_witness:
  "mfc_assign_dpb_index wit_dec (bufs wit_ctx 0) = (1, False) \<and> (1 :: nat) < 64 \<and>
     \<not> bit (dpb_table_used wit_dec) 1"
proof -
  have r: "ref_scan (\<lambda>i. paddr (bufs wit_ctx 0) = d_paddr (dpb wit_dec i)) 1 = None"
  proof (rule ccontr)
    assume "ref_scan (\<lambda>i. paddr (bufs wit_ctx 0) = d_paddr (dpb wit_dec i)) 1 \<noteq> None"
    then obtain i where "ref_scan (\<lambda>i. paddr (bufs wit_ctx 0) = d_paddr (dpb wit_dec i)) 1 = Some i"
      by blast
    from ref_scan_Some [OF this] show False by (simp add: wit_ctx_def wit_dec_def wit_entry_def wit_buf_def)
  qed
  have "find (bit (NOT (1 :: u64))) [0..<64] = Some 1"
    by (simp add: upt_conv_Cons bit_simps)
  then have "ffs (NOT 1) = 1" by (simp add: ffs_def)
  with r have a: "mfc_assign_dpb_index wit_dec (bufs wit_ctx 0) = (1, False)"
    by (simp add: mfc_assign_dpb_index_def)
      (simp add: wit_ctx_def wit_dec_def wit_entry_def wit_buf_def)
  have "vb_index (bufs wit_ctx 0) < 32" by (simp add: wit_ctx_def wit_buf_def)
  from mfc_assigned_index [OF this a] a show ?thesis
    by (simp add: wit_ctx_def wit_dec_def wit_entry_def wit_buf_def)
qed

subsection \<open>Queueing\<close>

lemma update_base_frame [simp]:
  "dpb_index (mfc_update_base_addr_dpb n m d mb) = dpb_index mb"
  "used (mfc_update_base_addr_dpb n m d mb) = used mb"
  "planes_length (mfc_update_base_addr_dpb n m d mb) = planes_length mb"
  by (simp_all add: mfc_update_base_addr_dpb_def planes_length_def Let_def)

lemma planes_length_frame [simp]:
  "planes_length (mb\<lparr>used := u, dpb_index := i\<rparr>) = planes_length mb"
  by (simp add: planes_length_def)

text \<open>
  Queueing a destination buffer. The buffer gets its index and is unused; no other buffer and no
  other table entry changes. When the entry is mapped for the same memory and already queued, the
  buffer goes to the end of the error queue and the table stays as it was. Otherwise it goes to
  the end of the destination queue, its entry is queued with the length of the buffer's planes,
  and the bits of the index in use and queued are set.
\<close>

theorem mfc_store_dpb_effect:
  assumes "dec_priv ctx = Some dec" and "mfc_assign_dpb_index dec (bufs ctx b) = (i, full)" and "i < 64"
  shows "\<exists>dec'. dec_priv (mfc_store_dpb D ctx b) = Some dec' \<and>
    dpb_index (bufs (mfc_store_dpb D ctx b) b) = int i \<and> used (bufs (mfc_store_dpb D ctx b) b) = 0 \<and>
    (\<forall>c. c \<noteq> b \<longrightarrow> bufs (mfc_store_dpb D ctx b) c = bufs ctx c) \<and>
    (\<forall>j. j \<noteq> i \<longrightarrow> dpb dec' j = dpb dec j) \<and>
    (if d_mapcnt (dpb dec i) \<noteq> 0 \<and> d_paddr (dpb dec i) = paddr (bufs ctx b) \<and> d_queued (dpb dec i) \<noteq> 0
     then dst_buf_err_queue (mfc_store_dpb D ctx b) = queue_add_tail b (dst_buf_err_queue ctx) \<and>
       dst_buf_queue (mfc_store_dpb D ctx b) = dst_buf_queue ctx \<and> dpb dec' = dpb dec \<and>
       dpb_table_used dec' = dpb_table_used dec \<and> queued_dpb dec' = queued_dpb dec
     else dst_buf_queue (mfc_store_dpb D ctx b) = queue_add_tail b (dst_buf_queue ctx) \<and>
       dst_buf_err_queue (mfc_store_dpb D ctx b) = dst_buf_err_queue ctx \<and>
       d_queued (dpb dec' i) = 1 \<and> d_size (dpb dec' i) = planes_length (bufs ctx b) \<and>
       dpb_table_used dec' = dpb_table_used dec OR BIT i \<and> bit (queued_dpb dec') i)"
  using assms
  by (auto simp: mfc_store_dpb_def mfc_update_dpb_fd_def Let_def bit_simps split: prod.splits)

text \<open>A parameter whose every call succeeds.\<close>

definition wit_dma :: dma_ops where
  "wit_dma =
     \<lparr>dma_buf_get = (\<lambda>_. 0x1000), dma_buf_attach = (\<lambda>_. 0x2000),
      dma_buf_map_attachment = (\<lambda>_. 0x3000), sg_dma_address = (\<lambda>_. 0x40000), sg_phys = (\<lambda>_. 0x80000000)\<rparr>"

theorem mfc_store_dpb_effect_witness:
  "\<exists>dec'. dec_priv (mfc_store_dpb wit_dma (wit_ctx\<lparr>dec_priv := Some (wit_dec\<lparr>dynamic_used := 0, dpb_table_used := 0\<rparr>)\<rparr>) 5)
      = Some dec' \<and> bit (queued_dpb dec') 0 \<and> d_queued (dpb dec' 0) = 1"
proof -
  let ?dec = "wit_dec\<lparr>dynamic_used := 0, dpb_table_used := 0\<rparr>"
  let ?ctx = "wit_ctx\<lparr>dec_priv := Some ?dec\<rparr>"
  have "find (bit (NOT (0 :: u64))) [0..<64] = Some 0" by (simp add: upt_conv_Cons bit_simps)
  then have "ffs (NOT 0) = 0" by (simp add: ffs_def)
  then have "mfc_assign_dpb_index ?dec (bufs ?ctx 5) = (0, False)"
    by (simp add: mfc_assign_dpb_index_def ref_scan.simps wit_ctx_def wit_dec_def wit_entry_def wit_buf_def)
  then show ?thesis
    using mfc_store_dpb_effect [of ?ctx ?dec 5 0 False wit_dma]
    by (auto simp: wit_dec_def wit_entry_def)
qed

subsection \<open>Mappings\<close>

text \<open>
  \<open>net l\<close> counts, for each acquiring call, how often it was made and not undone in the log \<open>l\<close>;
  \<open>plane_held d i\<close> is what plane \<open>i\<close> of an entry stands for.
\<close>

fun net :: "dma_event list \<Rightarrow> dma_event \<Rightarrow> int" where
  "net [] x = 0"
| "net (DmaPut p # l) x = net l x - (if x = DmaGet p then 1 else 0)"
| "net (DmaDetach b a # l) x = net l x - (if x = DmaAttach b a then 1 else 0)"
| "net (DmaUnmap a s # l) x = net l x - (if x = DmaMap a s then 1 else 0)"
| "net (e # l) x = net l x + (if x = e then 1 else 0)"

definition plane_held :: "dpb_table \<Rightarrow> nat \<Rightarrow> dma_event \<Rightarrow> int" where
  "plane_held d i x =
     (if d_dmabufs d i \<noteq> 0 \<and> x = DmaGet (d_dmabufs d i) then 1 else 0) +
     (if d_attach d i \<noteq> 0 \<and> x = DmaAttach (d_dmabufs d i) (d_attach d i) then 1 else 0) +
     (if d_sgt d i \<noteq> 0 \<and> x = DmaMap (d_attach d i) (d_sgt d i) then 1 else 0)"

definition plane_clear :: "dpb_table \<Rightarrow> nat \<Rightarrow> bool" where
  "plane_clear d i \<longleftrightarrow> d_dmabufs d i = 0 \<and> d_attach d i = 0 \<and> d_sgt d i = 0"

lemma net_if: "net (if c then l else l') x = (if c then net l x else net l' x)"
  by simp

lemma put_plane_log: "put_plane i (d, l) = (d', l') \<Longrightarrow> net l' x = net l x - plane_held d i x"
  unfolding put_plane_def plane_held_def by (clarsimp simp: Let_def net_if)

lemma put_plane_entry:
  assumes "put_plane i (d, l) = (d', l')"
  shows "d' = d\<lparr>d_fd := (d_fd d)(i := -1), d_addr := (d_addr d)(i := 0),
    d_attach := (d_attach d)(i := 0), d_dmabufs := (d_dmabufs d)(i := 0)\<rparr>"
  using assms by (simp add: put_plane_def Let_def)

lemma put_plane_net:
  assumes "put_plane i (d, l) = (d', l')"
  shows "net l' x = net l x - plane_held d i x \<and>
     (\<forall>j. j \<noteq> i \<longrightarrow> plane_held d' j = plane_held d j) \<and> d_mapcnt d' = d_mapcnt d \<and>
     d_dmabufs d' i = 0 \<and> d_attach d' i = 0 \<and> d_addr d' i = 0 \<and>
     (\<forall>j. j \<noteq> i \<longrightarrow> d_dmabufs d' j = d_dmabufs d j \<and> d_attach d' j = d_attach d j \<and> d_addr d' j = d_addr d j)"
proof -
  have "\<forall>j. j \<noteq> i \<longrightarrow> plane_held d' j = plane_held d j"
    by (simp add: put_plane_entry [OF assms] plane_held_def fun_eq_iff)
  with put_plane_log [OF assms, of x] show ?thesis
    by (simp add: put_plane_entry [OF assms])
qed

lemma put_planes_net:
  assumes "fold put_plane [0..<n] (d, l) = (d', l')"
  shows "net l' x = net l x - (\<Sum>j<n. plane_held d j x) \<and>
    (\<forall>j \<ge> n. plane_held d' j = plane_held d j) \<and> d_mapcnt d' = d_mapcnt d \<and>
    (\<forall>j < n. d_dmabufs d' j = 0 \<and> d_attach d' j = 0 \<and> d_addr d' j = 0) \<and>
    (\<forall>j \<ge> n. d_dmabufs d' j = d_dmabufs d j \<and> d_attach d' j = d_attach d j)"
  using assms
proof (induction n arbitrary: d' l')
  case (Suc n)
  obtain d1 l1 where f: "fold put_plane [0..<n] (d, l) = (d1, l1)" by fastforce
  with Suc.prems have "put_plane n (d1, l1) = (d', l')" by simp
  from put_plane_net [OF this, of x] Suc.IH [OF f] show ?case
    by (auto simp: less_Suc_eq)
qed simp

text \<open>The \<^verbatim>\<open>dma_buf\<close> functions return an error or an object, never \<^verbatim>\<open>NULL\<close>.\<close>

definition never_null :: "dma_ops \<Rightarrow> bool" where
  "never_null D \<longleftrightarrow>
     (\<forall>f. dma_buf_get D f \<noteq> 0) \<and> (\<forall>b. dma_buf_attach D b \<noteq> 0) \<and> (\<forall>a. dma_buf_map_attachment D a \<noteq> 0)"

text \<open>The planes mapped, the one that failed included.\<close>

definition planes_started :: "nat \<Rightarrow> nat option \<Rightarrow> nat" where
  "planes_started n f = (case f of None \<Rightarrow> n | Some c \<Rightarrow> c)"

text \<open>One plane mapped without an error.\<close>

definition map_plane :: "dma_ops \<Rightarrow> (nat \<Rightarrow> int) \<Rightarrow> nat \<Rightarrow> dpb_table \<Rightarrow> dpb_table" where
  "map_plane D fds i d =
     (let db = dma_buf_get D (fds i); at = dma_buf_attach D db; sg = dma_buf_map_attachment D at
      in d\<lparr>d_fd := (d_fd d)(i := fds i), d_dmabufs := (d_dmabufs d)(i := db),
           d_attach := (d_attach d)(i := at), d_sgt := (d_sgt d)(i := sg),
           d_addr := (d_addr d)(i := sg_dma_address D sg)\<rparr>)"

definition map_log :: "dma_ops \<Rightarrow> int \<Rightarrow> dma_event list \<Rightarrow> dma_event list" where
  "map_log D fd l =
     (let db = dma_buf_get D fd; at = dma_buf_attach D db; sg = dma_buf_map_attachment D at
      in DmaMap at sg # DmaAttach db at # DmaGet db # l)"

lemma get_planes_cases:
  assumes "get_planes D fds n i d l = (d', l', f)" and "i < n" and "never_null D" and "plane_clear d i"
  shows "f = Some (i + 1) \<and> net l' x = net l x + plane_held d' i x \<and> d_mapcnt d' = d_mapcnt d \<and>
       (\<forall>j. j \<noteq> i \<longrightarrow> plane_held d' j = plane_held d j \<and> plane_clear d' j = plane_clear d j) \<or>
     get_planes D fds n (i + 1) (map_plane D fds i d) (map_log D (fds i) l) = (d', l', f)"
proof -
  let ?db = "dma_buf_get D (fds i)" let ?at = "dma_buf_attach D ?db"
  let ?sg = "dma_buf_map_attachment D ?at" let ?a = "sg_dma_address D ?sg"
  have nn: "?db \<noteq> 0" "?at \<noteq> 0" "?sg \<noteq> 0" using assms(3) by (simp_all add: never_null_def)
  note u = assms(1) [unfolded get_planes.simps [of D fds n i d l]]
  consider "IS_ERR ?db" | "\<not> IS_ERR ?db" "IS_ERR ?at" | "\<not> IS_ERR ?db" "\<not> IS_ERR ?at" "IS_ERR ?sg"
    | "\<not> IS_ERR ?db" "\<not> IS_ERR ?at" "\<not> IS_ERR ?sg" "IS_ERR ?a"
    | "\<not> IS_ERR ?db" "\<not> IS_ERR ?at" "\<not> IS_ERR ?sg" "\<not> IS_ERR ?a"
    by blast
  then show ?thesis
  proof cases
    case 1
    then have e: "d' = d\<lparr>d_fd := (d_fd d)(i := fds i), d_dmabufs := (d_dmabufs d)(i := 0)\<rparr>" "l' = l"
      "f = Some (i + 1)"
      using u assms(2) by (simp_all add: Let_def)
    show ?thesis using assms(4) by (simp add: e plane_held_def plane_clear_def fun_eq_iff)
  next
    case 2
    then have e: "d' = d\<lparr>d_fd := (d_fd d)(i := fds i), d_dmabufs := (d_dmabufs d)(i := ?db),
        d_attach := (d_attach d)(i := 0)\<rparr>" "l' = DmaGet ?db # l" "f = Some (i + 1)"
      using u assms(2) by (simp_all add: Let_def)
    show ?thesis using assms(4) nn by (simp add: e plane_held_def plane_clear_def fun_eq_iff)
  next
    case 3
    then have e: "d' = d\<lparr>d_fd := (d_fd d)(i := fds i), d_dmabufs := (d_dmabufs d)(i := ?db),
        d_attach := (d_attach d)(i := ?at), d_sgt := (d_sgt d)(i := 0)\<rparr>"
      "l' = DmaAttach ?db ?at # DmaGet ?db # l" "f = Some (i + 1)"
      using u assms(2) by (simp_all add: Let_def)
    show ?thesis using assms(4) nn by (simp add: e plane_held_def plane_clear_def fun_eq_iff)
  next
    case 4
    then have e: "d' = d\<lparr>d_fd := (d_fd d)(i := fds i), d_dmabufs := (d_dmabufs d)(i := ?db),
        d_attach := (d_attach d)(i := ?at), d_sgt := (d_sgt d)(i := ?sg), d_addr := (d_addr d)(i := 0)\<rparr>"
      "l' = DmaMap ?at ?sg # DmaAttach ?db ?at # DmaGet ?db # l" "f = Some (i + 1)"
      using u assms(2) by (simp_all add: Let_def)
    show ?thesis using assms(4) nn by (simp add: e plane_held_def plane_clear_def fun_eq_iff)
  next
    case 5
    then show ?thesis
      using u assms(2) by (simp add: map_plane_def map_log_def Let_def)
  qed
qed

lemma map_plane_held:
  assumes "never_null D"
  shows "net (map_log D (fds i) l) x = net l x + plane_held (map_plane D fds i d) i x"
  using assms by (simp add: map_log_def map_plane_def plane_held_def never_null_def Let_def)

lemma map_plane_frame:
  "j \<noteq> i \<Longrightarrow> plane_held (map_plane D fds i d) j = plane_held d j \<and>
     plane_clear (map_plane D fds i d) j = plane_clear d j"
  "d_mapcnt (map_plane D fds i d) = d_mapcnt d"
  by (simp_all add: map_plane_def plane_held_def plane_clear_def Let_def fun_eq_iff)

lemma get_planes_net:
  assumes "get_planes D fds n i d l = (d', l', f)" and "i \<le> n" and "never_null D"
    and "\<forall>j. i \<le> j \<and> j < n \<longrightarrow> plane_clear d j"
  shows "net l' x = net l x + (\<Sum>j = i..<planes_started n f. plane_held d' j x) \<and>
    i \<le> planes_started n f \<and> planes_started n f \<le> n \<and> d_mapcnt d' = d_mapcnt d \<and>
    (\<forall>j < i. plane_held d' j = plane_held d j) \<and>
    (\<forall>j. planes_started n f \<le> j \<and> j < n \<longrightarrow> plane_clear d' j)"
  using assms
proof (induction "n - i" arbitrary: i d l)
  case 0
  then have "get_planes D fds n i d l = (d, l, None)"
    by (subst get_planes.simps) simp
  with 0 show ?case by (simp add: planes_started_def)
next
  case (Suc k)
  then have i: "i < n" and c: "plane_clear d i" by auto
  consider (stop) "f = Some (i + 1)" "net l' x = net l x + plane_held d' i x" "d_mapcnt d' = d_mapcnt d"
       "\<forall>j. j \<noteq> i \<longrightarrow> plane_held d' j = plane_held d j \<and> plane_clear d' j = plane_clear d j"
    | (go) "get_planes D fds n (i + 1) (map_plane D fds i d) (map_log D (fds i) l) = (d', l', f)"
    using get_planes_cases [OF Suc.prems(1) i Suc.prems(3) c, of x] by blast
  then show ?case
  proof cases
    case stop
    then show ?thesis using i Suc.prems(4) by (simp add: planes_started_def)
  next
    case go
    have "\<forall>j. i + 1 \<le> j \<and> j < n \<longrightarrow> plane_clear (map_plane D fds i d) j"
      using Suc.prems(4) map_plane_frame(1) by simp
    with Suc(1) [of "i + 1" "map_plane D fds i d" "map_log D (fds i) l"] go Suc(2) Suc.prems(3) i
    have ih: "net l' x = net (map_log D (fds i) l) x + (\<Sum>j = i + 1..<planes_started n f. plane_held d' j x)"
      "i + 1 \<le> planes_started n f" "planes_started n f \<le> n"
      "d_mapcnt d' = d_mapcnt (map_plane D fds i d)"
      "\<forall>j < i + 1. plane_held d' j = plane_held (map_plane D fds i d) j"
      "\<forall>j. planes_started n f \<le> j \<and> j < n \<longrightarrow> plane_clear d' j"
      by simp_all
    then have "(\<Sum>j = i..<planes_started n f. plane_held d' j x) =
        plane_held (map_plane D fds i d) i x + (\<Sum>j = i + 1..<planes_started n f. plane_held d' j x)"
      by (simp add: sum.atLeast_Suc_lessThan)
    with ih map_plane_held [OF Suc.prems(3), of fds i l x d] map_plane_frame show ?thesis by simp
  qed
qed

text \<open>
  Mapping a table entry is all or nothing for the references it takes: on an entry whose planes
  hold nothing, either every plane is mapped and the map count rises by one, or everything taken
  is given back (every \<^verbatim>\<open>dma_buf\<close> put, detached and unmapped as often as it was taken) and the
  map count and the entry's buffers and attachments are as before.
\<close>

theorem mfc_get_iovmm_balanced:
  assumes "never_null D" and "\<forall>j < n. plane_clear d j" and "mfc_get_iovmm D n mb d l = (d', l', s)"
  shows "(if snd (snd (get_planes D (vb_fd mb) n 0 d l)) = None
    then d_mapcnt d' = d_mapcnt d + 1 \<and> (\<forall>x. net l' x = net l x + (\<Sum>j<n. plane_held d' j x))
    else d_mapcnt d' = d_mapcnt d \<and> (\<forall>x. net l' x = net l x) \<and> 
      (\<forall>j < n. d_dmabufs d' j = 0 \<and> d_attach d' j = 0))"
proof -
  obtain d1 l1 f where g: "get_planes D (vb_fd mb) n 0 d l = (d1, l1, f)" by (metis prod_cases3)
  have cl: "\<forall>j. 0 \<le> j \<and> j < n \<longrightarrow> plane_clear d j" using assms(2) by simp
  note gn = get_planes_net [OF g le0 assms(1) cl]
  show ?thesis
  proof (cases f)
    case None
    then have d': "d' = d1\<lparr>d_paddr := sg_phys D (d_sgt d1 0), d_mapcnt := d_mapcnt d1 + 1\<rparr>" "l' = l1"
      using assms(3) g by (auto simp: mfc_get_iovmm_def Let_def)
    have "plane_held d' = plane_held d1" by (simp add: d' plane_held_def fun_eq_iff)
    with gn None g d' show ?thesis by (simp add: planes_started_def atLeast0LessThan)
  next
    case (Some c)
    let ?d = "d1\<lparr>d_mapcnt := d_mapcnt d1 + 1\<rparr>"
    obtain d2 l2 where p: "fold put_plane [0..<c] (?d, l1) = (d2, l2)" by fastforce
    then have d': "d' = d2\<lparr>d_new_fd := -1, d_mapcnt := d_mapcnt d2 - 1\<rparr>" "l' = l2"
      using assms(3) g Some by (auto simp: mfc_get_iovmm_def mfc_put_iovmm_def Let_def)
    have h: "plane_held ?d = plane_held d1" by (simp add: plane_held_def fun_eq_iff)
    have "d_dmabufs d' j = 0 \<and> d_attach d' j = 0" if "j < n" for j
      using put_planes_net [OF p, of undefined] gn [of undefined] Some that
      by (cases "j < c") (auto simp: d' planes_started_def plane_clear_def)
    moreover have "d_mapcnt d' = d_mapcnt d"
      using put_planes_net [OF p, of undefined] gn [of undefined] by (simp add: d')
    moreover have "net l' x = net l x" for x
      using put_planes_net [OF p, of x] gn [of x] Some h
      by (simp add: d' planes_started_def atLeast0LessThan)
    ultimately show ?thesis using g Some by simp
  qed
qed

theorem mfc_get_iovmm_balanced_witness:
  "let D = wit_dma\<lparr>sg_dma_address := (\<lambda>_. -14)\<rparr>; (d', l', s) = mfc_get_iovmm D (Suc 0) wit_buf wit_entry []
   in d_mapcnt d' = 0 \<and> net l' (DmaGet 0x1000) = 0 \<and> DmaPut 0x1000 \<in> set l'"
proof -
  let ?D = "wit_dma\<lparr>sg_dma_address := (\<lambda>_. -14)\<rparr>"
  have n: "never_null ?D" by (simp add: never_null_def wit_dma_def)
  have c: "\<forall>j < Suc 0. plane_clear wit_entry j" by (simp add: plane_clear_def wit_entry_def)
  obtain d' l' s where g: "mfc_get_iovmm ?D (Suc 0) wit_buf wit_entry [] = (d', l', s)" by (metis prod_cases3)
  have f: "snd (snd (get_planes ?D (vb_fd wit_buf) (Suc 0) 0 wit_entry [])) \<noteq> None"
    by (simp add: get_planes.simps IS_ERR_def wit_dma_def)
  have "DmaPut 0x1000 \<in> set l'"
    using g by (auto simp: mfc_get_iovmm_def get_planes.simps IS_ERR_def wit_dma_def mfc_put_iovmm_def
        put_plane_def Let_def)
  moreover have "d_mapcnt wit_entry = 0" by (simp add: wit_entry_def)
  ultimately show ?thesis
    using mfc_get_iovmm_balanced [OF n c g] f by (simp add: g)
qed

lemma get_planes_ok_step:
  assumes "get_planes D fds n i d l = (d', l', None)" and "i < n"
  shows "get_planes D fds n (i + 1) (map_plane D fds i d) (map_log D (fds i) l) = (d', l', None)"
  using assms(1) [unfolded get_planes.simps [of D fds n i d l]] assms(2)
  by (simp add: map_plane_def map_log_def Let_def split: if_splits)

lemma get_planes_ok_sgt:
  assumes "get_planes D fds n i d l = (d', l', None)" and "never_null D"
  shows "(\<forall>j < i. d_sgt d' j = d_sgt d j) \<and> (\<forall>j. i \<le> j \<and> j < n \<longrightarrow> d_sgt d' j \<noteq> 0)"
  using assms(1)
proof (induction "n - i" arbitrary: i d l)
  case 0
  then have "get_planes D fds n i d l = (d, l, None)"
    by (subst get_planes.simps) simp
  with 0 show ?case by auto
next
  case (Suc k)
  then have i: "i < n" by simp
  from Suc(1) [of "i + 1", OF _ get_planes_ok_step [OF Suc.prems i]] Suc(2)
  have ih: "\<forall>j < i + 1. d_sgt d' j = d_sgt (map_plane D fds i d) j"
    "\<forall>j. i + 1 \<le> j \<and> j < n \<longrightarrow> d_sgt d' j \<noteq> 0"
    by simp_all
  have "d_sgt d' i \<noteq> 0"
    using ih(1) assms(2) by (simp add: map_plane_def never_null_def Let_def)
  with ih show ?case
    by (auto simp: map_plane_def Let_def not_less_eq_eq dest: le_neq_implies_less)
qed

text \<open>
  A released entry keeps its scatter table, so the next mapping that fails unmaps it again: when
  the entry was mapped and released once, and getting the first \<^verbatim>\<open>dma_buf\<close> fails the next time,
  the driver calls \<^verbatim>\<open>dma_buf_unmap_attachment\<close> with no attachment and the stale table.
\<close>

theorem mfc_stale_table_unmapped:
  assumes "never_null D" and "0 < n" and "d_mapcnt d = 0"
    and "snd (snd (get_planes D (vb_fd mb) n 0 d l)) = None"
    and "mfc_get_iovmm D n mb d l = (d1, l1, s1)" and "mfc_put_iovmm n (d1, l1) = (d2, l2, s2)"
    and "IS_ERR (dma_buf_get D' (vb_fd mb' 0))" and "mfc_get_iovmm D' n mb' d2 l2 = (d3, l3, s3)"
  shows "l3 = DmaUnmap 0 (d_sgt d1 0) # l2"
proof -
  obtain dp lp where p: "fold put_plane [0..<n] (d1, l1) = (dp, lp)" by fastforce
  have d2: "d2 = dp\<lparr>d_new_fd := -1, d_mapcnt := d_mapcnt dp - 1\<rparr>" "l2 = lp"
    using assms(6) p by (auto simp: mfc_put_iovmm_def Let_def)
  have a: "d_attach d2 0 = 0" using put_planes_net [OF p, of undefined] assms(2) by (simp add: d2)
  have "d_sgt (fst (fold put_plane is x)) = d_sgt (fst x)" for "is" x
  proof (induction "is" arbitrary: x)
    case (Cons i js)
    have "d_sgt (fst (put_plane i x)) = d_sgt (fst x)"
      using put_plane_entry [of i "fst x" "snd x" "fst (put_plane i x)" "snd (put_plane i x)"] by simp
    with Cons show ?case by simp
  qed simp
  from this [of "[0..<n]" "(d1, l1)"] have g: "d_sgt d2 = d_sgt d1" by (simp add: p d2)
  obtain dg lg where gp: "get_planes D (vb_fd mb) n 0 d l = (dg, lg, None)"
    using assms(4) by (metis prod.collapse)
  have "d_sgt d1 0 \<noteq> 0"
    using get_planes_ok_sgt [OF gp assms(1)] assms(2,5) gp by (auto simp: mfc_get_iovmm_def)
  with a g assms(2,7,8) show ?thesis
    by (auto simp: mfc_get_iovmm_def get_planes.simps [of D'] mfc_put_iovmm_def put_plane_def Let_def)
qed

theorem mfc_stale_table_unmapped_witness:
  "let (d1, l1, _) = mfc_get_iovmm wit_dma (Suc 0) wit_buf wit_entry [];
       (d2, l2, _) = mfc_put_iovmm (Suc 0) (d1, l1);
       (d3, l3, _) = mfc_get_iovmm (wit_dma\<lparr>dma_buf_get := (\<lambda>_. -9)\<rparr>) (Suc 0) wit_buf d2 l2
   in l3 = DmaUnmap 0 0x3000 # l2"
proof -
  obtain d1 l1 s1 where 1: "mfc_get_iovmm wit_dma (Suc 0) wit_buf wit_entry [] = (d1, l1, s1)"
    by (metis prod_cases3)
  obtain d2 l2 s2 where 2: "mfc_put_iovmm (Suc 0) (d1, l1) = (d2, l2, s2)" by (metis prod_cases3)
  obtain d3 l3 s3 where 3: "mfc_get_iovmm (wit_dma\<lparr>dma_buf_get := (\<lambda>_. -9)\<rparr>) (Suc 0) wit_buf d2 l2
      = (d3, l3, s3)" by (metis prod_cases3)
  have "never_null wit_dma" "d_mapcnt wit_entry = 0"
    "snd (snd (get_planes wit_dma (vb_fd wit_buf) (Suc 0) 0 wit_entry [])) = None"
    "IS_ERR (dma_buf_get (wit_dma\<lparr>dma_buf_get := (\<lambda>_. -9)\<rparr>) (vb_fd wit_buf 0))" "d_sgt d1 0 = 0x3000"
    using 1 by (auto simp: never_null_def wit_dma_def wit_entry_def get_planes.simps IS_ERR_def
        mfc_get_iovmm_def Let_def)
  with mfc_stale_table_unmapped [OF _ _ _ _ 1 2 _ 3] show ?thesis by (simp add: 1 2 3)
qed

subsection \<open>Leaving the NAL queue\<close>

lemma nal_src_back_effect:
  assumes "distinct bl" and "head (src_buf_nal_queue ctx) = rev bl" and "counted (src_buf_nal_queue ctx)"
    and "counted (core_src_buf_queue ctx)" and "ctx' = nal_src_back bl ctx"
  shows "head (src_buf_nal_queue ctx') = [] \<and> counted (src_buf_nal_queue ctx') \<and>
    head (core_src_buf_queue ctx') = rev bl @ head (core_src_buf_queue ctx) \<and>
    counted (core_src_buf_queue ctx') \<and> dst_buf_queue ctx' = dst_buf_queue ctx \<and>
    dst_buf_nal_queue ctx' = dst_buf_nal_queue ctx \<and>
    (\<forall>b. bufs ctx' b = (if b \<in> set bl then (bufs ctx b)\<lparr>used := 0,
        next_index := min (next_index (bufs ctx b)) (done_index (bufs ctx b))\<rparr> else bufs ctx b))"
  using assms
proof (induction bl arbitrary: ctx)
  case (Cons b bl)
  let ?c = "ctx\<lparr>bufs := recover_src b (bufs ctx),
            recovered_ctrls := vb_index (bufs ctx b) # recovered_ctrls ctx,
            src_buf_nal_queue := queue_del b (src_buf_nal_queue ctx),
            core_src_buf_queue := queue_add b (core_src_buf_queue ctx)\<rparr>"
  have "remove1 b (rev bl @ [b]) = rev bl" using Cons.prems(1) by (simp add: remove1_append)
  with Cons.IH [of ?c] Cons.prems show ?case by (auto simp: recover_src_def)
qed simp

lemma nal_dst_back_effect:
  assumes "distinct bl" and "head (dst_buf_nal_queue ctx) = rev bl" and "counted (dst_buf_nal_queue ctx)"
    and "counted (dst_buf_queue ctx)" and "ctx' = nal_dst_back bl ctx"
  shows "head (dst_buf_nal_queue ctx') = [] \<and> counted (dst_buf_nal_queue ctx') \<and>
    head (dst_buf_queue ctx') = rev bl @ head (dst_buf_queue ctx) \<and> counted (dst_buf_queue ctx') \<and>
    src_buf_nal_queue ctx' = src_buf_nal_queue ctx \<and> core_src_buf_queue ctx' = core_src_buf_queue ctx \<and>
    (\<forall>b. bufs ctx' b = (if b \<in> set bl then (bufs ctx b)\<lparr>used := 0\<rparr> else bufs ctx b))"
  using assms
proof (induction bl arbitrary: ctx)
  case (Cons b bl)
  let ?c = "ctx\<lparr>bufs := set_used b 0 (bufs ctx),
            dst_buf_nal_queue := queue_del b (dst_buf_nal_queue ctx),
            dst_buf_queue := queue_add b (dst_buf_queue ctx)\<rparr>"
  have "remove1 b (rev bl @ [b]) = rev bl" using Cons.prems(1) by (simp add: remove1_append)
  with Cons.IH [of ?c] Cons.prems show ?case by (auto simp: set_used_def)
qed simp

text \<open>
  Leaving the NAL queue loses nothing and keeps the order: the sources and destinations that
  were in flight come back before those still waiting, in their order, unused; a batch source
  restarts at the last picture that was done; the NAL queues are empty and all counters exact.
\<close>

theorem mfc_cleanup_nal_restores:
  assumes "distinct (head (src_buf_nal_queue ctx))" and "distinct (head (dst_buf_nal_queue ctx))"
    and "counted (src_buf_nal_queue ctx)" and "counted (dst_buf_nal_queue ctx)"
    and "counted (core_src_buf_queue ctx)" and "counted (dst_buf_queue ctx)"
  shows "let ctx' = mfc_cleanup_nal_queue ctx in
    head (core_src_buf_queue ctx') = head (src_buf_nal_queue ctx) @ head (core_src_buf_queue ctx) \<and>
    head (dst_buf_queue ctx') = head (dst_buf_nal_queue ctx) @ head (dst_buf_queue ctx) \<and>
    head (src_buf_nal_queue ctx') = [] \<and> head (dst_buf_nal_queue ctx') = [] \<and>
    counted (core_src_buf_queue ctx') \<and> counted (dst_buf_queue ctx') \<and>
    counted (src_buf_nal_queue ctx') \<and> counted (dst_buf_nal_queue ctx') \<and>
    (\<forall>b \<in> set (head (src_buf_nal_queue ctx)). used (bufs ctx' b) = 0 \<and>
       next_index (bufs ctx' b) \<le> done_index (bufs ctx' b)) \<and>
    (\<forall>b \<in> set (head (dst_buf_nal_queue ctx)). used (bufs ctx' b) = 0)"
proof -
  let ?s = "rev (head (src_buf_nal_queue ctx))"
  let ?c = "nal_src_back ?s ctx"
  have "distinct ?s" using assms(1) by simp
  note s = nal_src_back_effect [OF this _ assms(3,5) refl]
  let ?d = "rev (head (dst_buf_nal_queue ?c))"
  have "distinct ?d" "counted (dst_buf_nal_queue ?c)" "counted (dst_buf_queue ?c)"
    using s assms by simp_all
  note d = nal_dst_back_effect [OF this(1) _ this(2,3) refl]
  show ?thesis
    using s d by (auto simp: mfc_cleanup_nal_queue_def Let_def)
qed

theorem mfc_cleanup_nal_restores_witness:
  "head (dst_buf_queue (mfc_cleanup_nal_queue (wit_ctx\<lparr>dst_buf_nal_queue := \<lparr>head = [8, 5], count = 2\<rparr>\<rparr>)))
     = [8, 5, 0, 2]"
  using mfc_cleanup_nal_restores [of "wit_ctx\<lparr>dst_buf_nal_queue := \<lparr>head = [8, 5], count = 2\<rparr>\<rparr>"]
  by (simp add: wit_ctx_def counted_def Let_def)

end
