(* ===== verification/Sysmmu.thy ===== *)
theory Sysmmu
  imports Prelude
begin

text \<open>
  The two-level page table of the system MMU driver, \<^verbatim>\<open>drivers/iommu/samsung-iommu.c\<close> and
  \<^verbatim>\<open>samsung-iommu.h\<close>. A domain has a first level table of 4096 entries, one for each megabyte of
  the 32-bit I/O address space: an entry is empty, a 1 MB section, or the base of a second level
  table of 256 entries for 4 KB pages, of which 16 equal ones make a 64 KB page. \<open>page_table\<close> is
  the first level, \<open>slpt\<close> the second level tables by their physical address, \<open>lv2entcnt\<close> the
  counter the code keeps for each first level entry. The addresses \<^verbatim>\<open>kmem_cache_zalloc\<close> is going
  to return (as physical addresses; 0 is a failure) are the list \<open>slpt_cache\<close>, and \<open>slpt_freed\<close>
  is the log of \<^verbatim>\<open>kmem_cache_free\<close>. Cache maintenance (\<^verbatim>\<open>pgtable_flush\<close>) and the gathering of the
  range to invalidate do not change the tables and are left out.
\<close>

named_theorems pte \<open>facts about page table entries\<close>

record samsung_sysmmu_domain =
  page_table :: "nat \<Rightarrow> u32"
  slpt :: "u64 \<Rightarrow> nat \<Rightarrow> u32"
  lv2entcnt :: "nat \<Rightarrow> int"
  slpt_cache :: "u64 list"
  slpt_freed :: "u64 list"

abbreviation (input) EADDRINUSE :: int where "EADDRINUSE \<equiv> 98"
abbreviation (input) SECT_SIZE :: nat where "SECT_SIZE \<equiv> 1048576"
abbreviation (input) LPAGE_SIZE :: nat where "LPAGE_SIZE \<equiv> 65536"
abbreviation (input) SPAGE_SIZE :: nat where "SPAGE_SIZE \<equiv> 4096"
abbreviation (input) NUM_LV1ENTRIES :: nat where "NUM_LV1ENTRIES \<equiv> 4096"
abbreviation (input) NUM_LV2ENTRIES :: nat where "NUM_LV2ENTRIES \<equiv> 256"
abbreviation (input) SPAGES_PER_LPAGE :: nat where "SPAGES_PER_LPAGE \<equiv> 16"
abbreviation (input) SECT_FLAG :: u32 where "SECT_FLAG \<equiv> 2"
abbreviation (input) SLPD_FLAG :: u32 where "SLPD_FLAG \<equiv> 1"
abbreviation (input) LPAGE_FLAG :: u32 where "LPAGE_FLAG \<equiv> 1"
abbreviation (input) SPAGE_FLAG :: u32 where "SPAGE_FLAG \<equiv> 2"
abbreviation (input) FLPD_SHAREABLE_FLAG :: u32 where "FLPD_SHAREABLE_FLAG \<equiv> 0x40"
abbreviation (input) SLPD_SHAREABLE_FLAG :: u32 where "SLPD_SHAREABLE_FLAG \<equiv> 0x10"

subsection \<open>Entries\<close>

definition lv1ent_offset :: "u32 \<Rightarrow> nat" where
  "lv1ent_offset iova = unat (drop_bit 20 iova)"

definition lv2ent_offset :: "u32 \<Rightarrow> nat" where
  "lv2ent_offset iova = unat (drop_bit 12 (take_bit 20 iova))"

definition lv1ent_unmapped :: "u32 \<Rightarrow> bool" where "lv1ent_unmapped s \<longleftrightarrow> s AND 7 = 0"
definition lv1ent_page :: "u32 \<Rightarrow> bool" where "lv1ent_page s \<longleftrightarrow> s AND 7 = 1"
definition lv1ent_section :: "u32 \<Rightarrow> bool" where "lv1ent_section s \<longleftrightarrow> s AND 7 = SECT_FLAG"
definition lv2ent_unmapped :: "u32 \<Rightarrow> bool" where "lv2ent_unmapped p \<longleftrightarrow> p AND 3 = 0"
definition lv2ent_small :: "u32 \<Rightarrow> bool" where "lv2ent_small p \<longleftrightarrow> p AND 3 = SPAGE_FLAG"
definition lv2ent_large :: "u32 \<Rightarrow> bool" where "lv2ent_large p \<longleftrightarrow> p AND 3 = LPAGE_FLAG"

lemmas ent_defs [pte] = lv1ent_unmapped_def lv1ent_page_def lv1ent_section_def
  lv2ent_unmapped_def lv2ent_small_def lv2ent_large_def

definition lv2table_base :: "u32 \<Rightarrow> u64" where
  "lv2table_base s = push_bit 4 (ucast (s AND NOT 0x3F))"

definition section_phys :: "u32 \<Rightarrow> u64" where
  "section_phys s = push_bit 4 (ucast s AND NOT 0xFFFF)"

definition lpage_phys :: "u32 \<Rightarrow> u64" where
  "lpage_phys p = push_bit 4 (ucast p AND NOT 0xFFF)"

definition spage_phys :: "u32 \<Rightarrow> u64" where
  "spage_phys p = push_bit 4 (ucast p AND NOT 0xFF)"

definition make_sysmmu_pte :: "u64 \<Rightarrow> u32 \<Rightarrow> u32 \<Rightarrow> u32" where
  "make_sysmmu_pte paddr pgsize attr = ucast (drop_bit 4 paddr) OR pgsize OR attr"

text \<open>\<open>lv2_get\<close> and \<open>lv2_set\<close> are accesses through \<^verbatim>\<open>page_entry(sent, iova)\<close>.\<close>

definition lv2_get :: "samsung_sysmmu_domain \<Rightarrow> u32 \<Rightarrow> nat \<Rightarrow> u32" where
  "lv2_get d sent j = slpt d (lv2table_base sent) j"

definition lv2_set :: "samsung_sysmmu_domain \<Rightarrow> u32 \<Rightarrow> nat \<Rightarrow> u32 \<Rightarrow> samsung_sysmmu_domain" where
  "lv2_set d sent j v =
     d\<lparr>slpt := (slpt d)(lv2table_base sent := (slpt d (lv2table_base sent))(j := v))\<rparr>"

definition lv2_clear :: "samsung_sysmmu_domain \<Rightarrow> u32 \<Rightarrow> nat \<Rightarrow> nat \<Rightarrow> samsung_sysmmu_domain" where
  "lv2_clear d sent j n =
     d\<lparr>slpt := (slpt d)(lv2table_base sent :=
         (\<lambda>k. if j \<le> k \<and> k < j + n then 0 else slpt d (lv2table_base sent) k))\<rparr>"

definition add_count :: "nat \<Rightarrow> int \<Rightarrow> samsung_sysmmu_domain \<Rightarrow> samsung_sysmmu_domain" where
  "add_count i n d = d\<lparr>lv2entcnt := (lv2entcnt d)(i := lv2entcnt d i + n)\<rparr>"

subsection \<open>Domains\<close>

text \<open>A new domain; failures of its three allocations are \<open>None\<close>.\<close>

definition samsung_sysmmu_domain_alloc :: "bool \<Rightarrow> bool \<Rightarrow> bool \<Rightarrow> bool \<Rightarrow> u64 list \<Rightarrow> samsung_sysmmu_domain option" where
  "samsung_sysmmu_domain_alloc valid_type dom_ok table_ok counters_ok cache =
     (if \<not> valid_type \<or> \<not> dom_ok \<or> \<not> table_ok \<or> \<not> counters_ok then None
      else Some \<lparr>page_table = (\<lambda>_. 0), slpt = (\<lambda>_ _. 0), lv2entcnt = (\<lambda>_. 0),
                 slpt_cache = cache, slpt_freed = []\<rparr>)"

text \<open>The second level tables freed with a domain, in the order of the loop.\<close>

definition samsung_sysmmu_domain_free :: "samsung_sysmmu_domain \<Rightarrow> u64 list" where
  "samsung_sysmmu_domain_free d =
     slpt_freed d @
     map (\<lambda>i. lv2table_base (page_table d i))
       (filter (\<lambda>i. lv1ent_page (page_table d i)) [0..<NUM_LV1ENTRIES])"

subsection \<open>Mapping\<close>

text \<open>
  \<open>Inl\<close> the error, \<open>Inr\<close> the domain in which the entry has a second level table; \<open>None\<close> is
  \<^verbatim>\<open>BUG()\<close>. The second test of the entry under the lock gives the same answer in one thread.
\<close>

definition alloc_lv2entry ::
  "samsung_sysmmu_domain \<Rightarrow> nat \<Rightarrow> (int \<times> samsung_sysmmu_domain + samsung_sysmmu_domain) option" where
  "alloc_lv2entry d i =
     (let sent = page_table d i
      in if lv1ent_section sent then Some (Inl (- EADDRINUSE, d))
      else if \<not> (lv1ent_page sent \<or> sent = 0) then None
      else if lv1ent_unmapped sent then
        (case slpt_cache d of
           [] \<Rightarrow> Some (Inl (- ENOMEM, d))
         | p # ps \<Rightarrow>
             if p = 0 then Some (Inl (- ENOMEM, d\<lparr>slpt_cache := ps\<rparr>))
             else Some (Inr (d\<lparr>slpt_cache := ps, slpt := (slpt d)(p := (\<lambda>_. 0)),
                     page_table := (page_table d)(i := make_sysmmu_pte p SLPD_FLAG 0),
                     lv2entcnt := (lv2entcnt d)(i := 0)\<rparr>)))
      else Some (Inr d))"

definition lv1set_section ::
  "samsung_sysmmu_domain \<Rightarrow> nat \<Rightarrow> u64 \<Rightarrow> bool \<Rightarrow> samsung_sysmmu_domain \<times> int" where
  "lv1set_section d i paddr cache =
     (let attr = (if cache then FLPD_SHAREABLE_FLAG else 0);
          sent = page_table d i
      in if lv1ent_section sent then (d, - EADDRINUSE)
      else if lv1ent_page sent \<and> lv2entcnt d i \<noteq> 0 then (d, - EADDRINUSE)
      else
        let d1 = d\<lparr>page_table := (page_table d)(i := make_sysmmu_pte paddr SECT_FLAG attr)\<rparr>
        in if lv1ent_page sent
           then (d1\<lparr>lv2entcnt := (lv2entcnt d)(i := int NUM_LV2ENTRIES),
                    slpt_freed := slpt_freed d @ [lv2table_base sent]\<rparr>, 0)
           else (d1, 0))"

text \<open>The loop of \<^verbatim>\<open>lv2set_page\<close> for a 64 KB page, \<open>k\<close> entries done.\<close>

function set_lpage ::
  "samsung_sysmmu_domain \<Rightarrow> u32 \<Rightarrow> nat \<Rightarrow> u32 \<Rightarrow> nat \<Rightarrow> samsung_sysmmu_domain \<times> int" where
  "set_lpage d sent j v k =
     (if k \<ge> SPAGES_PER_LPAGE then (d, 0)
      else if \<not> lv2ent_unmapped (lv2_get d sent (j + k)) then (lv2_clear d sent j k, - EADDRINUSE)
      else set_lpage (lv2_set d sent (j + k) v) sent j v (k + 1))"
  by pat_completeness auto
termination
  by (relation "measure (\<lambda>(d, sent, j, v, k). 16 - k)") auto

declare set_lpage.simps [simp del]

definition lv2set_page ::
  "samsung_sysmmu_domain \<Rightarrow> nat \<Rightarrow> nat \<Rightarrow> u64 \<Rightarrow> nat \<Rightarrow> bool \<Rightarrow> samsung_sysmmu_domain \<times> int" where
  "lv2set_page d i j paddr sz cache =
     (let attr = (if cache then SLPD_SHAREABLE_FLAG else 0);
          sent = page_table d i
      in if sz = SPAGE_SIZE then
        (if \<not> lv2ent_unmapped (lv2_get d sent j) then (d, - EADDRINUSE)
         else (add_count i 1 (lv2_set d sent j (make_sysmmu_pte paddr SPAGE_FLAG attr)), 0))
      else
        let (d1, ret) = set_lpage d sent j (make_sysmmu_pte paddr LPAGE_FLAG attr) 0
        in if ret \<noteq> 0 then (d1, ret) else (add_count i (int SPAGES_PER_LPAGE) d1, 0))"

text \<open>\<open>cache\<close> and \<open>priv\<close> are the bits \<^verbatim>\<open>IOMMU_CACHE\<close> and \<^verbatim>\<open>IOMMU_PRIV\<close> of the protection.\<close>

definition samsung_sysmmu_map ::
  "samsung_sysmmu_domain \<Rightarrow> u64 \<Rightarrow> u64 \<Rightarrow> nat \<Rightarrow> bool \<Rightarrow> bool \<Rightarrow> (samsung_sysmmu_domain \<times> int) option" where
  "samsung_sysmmu_map d l_iova paddr sz cache0 priv =
     (let iova = (ucast l_iova :: u32);
          cache = (cache0 \<and> \<not> priv);
          i = lv1ent_offset iova
      in if sz = SECT_SIZE then Some (lv1set_section d i paddr cache)
      else
        case alloc_lv2entry d i of
          None \<Rightarrow> None
        | Some (Inl (err, d1)) \<Rightarrow> Some (d1, err)
        | Some (Inr d1) \<Rightarrow> Some (lv2set_page d1 i (lv2ent_offset iova) paddr sz cache))"

subsection \<open>Unmapping\<close>

definition samsung_sysmmu_unmap :: "samsung_sysmmu_domain \<Rightarrow> u64 \<Rightarrow> nat \<Rightarrow> samsung_sysmmu_domain \<times> nat" where
  "samsung_sysmmu_unmap d l_iova sz =
     (let iova = (ucast l_iova :: u32);
          i = lv1ent_offset iova; j = lv2ent_offset iova;
          sent = page_table d i
      in if lv1ent_section sent then
        (if sz < SECT_SIZE then (d, 0) else (d\<lparr>page_table := (page_table d)(i := 0)\<rparr>, SECT_SIZE))
      else if lv1ent_unmapped sent then (d, min sz SECT_SIZE)
      else
        let pent = lv2_get d sent j
        in if lv2ent_unmapped pent then (d, SPAGE_SIZE)
        else if lv2ent_small pent then (add_count i (-1) (lv2_set d sent j 0), SPAGE_SIZE)
        else if sz < LPAGE_SIZE then (d, 0)
        else (add_count i (- int SPAGES_PER_LPAGE) (lv2_clear d sent j SPAGES_PER_LPAGE), LPAGE_SIZE))"

text \<open>
  \<^verbatim>\<open>unmap_slpt\<close>: addresses as numbers below the width of \<^verbatim>\<open>unsigned long\<close>; \<open>i\<close> is the index of
  \<^verbatim>\<open>sent\<close>.
\<close>

function unmap_slpt :: "samsung_sysmmu_domain \<Rightarrow> nat \<Rightarrow> nat \<Rightarrow> nat \<Rightarrow> samsung_sysmmu_domain" where
  "unmap_slpt d i iova iend =
     (if iova \<ge> iend then d
      else
        let section_end = min iend ((iova + SECT_SIZE) div SECT_SIZE * SECT_SIZE);
            sent = page_table d i;
            d1 = (if \<not> lv1ent_page sent then d
                  else
                    let nent = (section_end - iova) div SPAGE_SIZE
                    in add_count (iova div SECT_SIZE) (- int nent)
                         (lv2_clear d sent (iova mod SECT_SIZE div SPAGE_SIZE) nent))
        in unmap_slpt d1 (i + 1) section_end iend)"
  by pat_completeness auto
termination
proof (relation "measure (\<lambda>(d, i, iova, iend). iend - iova)", goal_cases)
  case (2 d i iova iend se sent d1)
  have "iova < (iova + SECT_SIZE) div SECT_SIZE * SECT_SIZE"
    using div_mult_mod_eq [of iova SECT_SIZE] mod_less_divisor [of SECT_SIZE iova] by simp
  with 2 show ?case by simp
qed simp

declare unmap_slpt.simps [simp del]

text \<open>
  The loop over sections: a section with a second level table is emptied through
  \<^verbatim>\<open>unmap_slpt\<close>; the other first level entries are cleared (in runs, to flush them together).
\<close>

fun unmap_sections :: "samsung_sysmmu_domain \<Rightarrow> nat \<Rightarrow> nat \<Rightarrow> samsung_sysmmu_domain" where
  "unmap_sections d iova 0 = d"
| "unmap_sections d iova (Suc n) =
     (let i = iova div SECT_SIZE
      in unmap_sections
           (if lv1ent_page (page_table d i) then unmap_slpt d i iova (iova + SECT_SIZE)
            else d\<lparr>page_table := (page_table d)(i := 0)\<rparr>)
           (iova + SECT_SIZE) n)"

definition samsung_sysmmu_unmap_pages ::
  "samsung_sysmmu_domain \<Rightarrow> nat \<Rightarrow> nat \<Rightarrow> nat \<Rightarrow> samsung_sysmmu_domain \<times> nat" where
  "samsung_sysmmu_unmap_pages d iova pgsize pgcount =
     (let sz = pgsize * pgcount
      in (if pgsize = SECT_SIZE then unmap_sections d iova pgcount
          else unmap_slpt d (iova div SECT_SIZE) iova (iova + sz), sz))"

subsection \<open>Translation\<close>

definition samsung_sysmmu_iova_to_phys :: "samsung_sysmmu_domain \<Rightarrow> u64 \<Rightarrow> u64" where
  "samsung_sysmmu_iova_to_phys d d_iova =
     (let iova = (ucast d_iova :: u32);
          entry = page_table d (lv1ent_offset iova)
      in if lv1ent_section entry then section_phys entry + ucast (take_bit 20 iova)
      else if lv1ent_page entry then
        (let pent = lv2_get d entry (lv2ent_offset iova)
         in if lv2ent_large pent then lpage_phys pent + ucast (take_bit 16 iova)
            else if lv2ent_small pent then spage_phys pent + ucast (take_bit 12 iova)
            else 0)
      else 0)"

end
