(* ===== verification/SysmmuTable.thy ===== *)
theory SysmmuTable
  imports Sysmmu
begin

text \<open>
  The page table of \<^verbatim>\<open>samsung-iommu.c\<close> as the translation it stands for: what the entries the
  driver writes decode to, how an address selects entries, when tables and their counters are
  well-formed (\<open>dom_ok\<close>), and how the updates of one entry or of one second level table change the
  translation. The operations are in theory \<open>SysmmuProps\<close>.
\<close>

subsection \<open>Entries\<close>

lemma masks [pte]: "(7 :: u32) = mask 3" "(3 :: u32) = mask 2" "(0x3F :: u32) = mask 6"
  "(0xFFFF :: u64) = mask 16" "(0xFFF :: u64) = mask 12" "(0xFF :: u64) = mask 8"
  by (simp_all add: mask_eq_exp_minus_1)

text \<open>A physical address that is a multiple of 2 to the \<open>k\<close> and fits the 36 bits of an entry.\<close>

definition page_addr :: "nat \<Rightarrow> u64 \<Rightarrow> bool" where
  "page_addr k p \<longleftrightarrow> take_bit k p = 0 \<and> take_bit 36 p = p"

lemma page_addr_bit:
  assumes "page_addr k p" and "bit p n"
  shows "k \<le> n \<and> n < 36"
proof -
  have "\<not> bit (take_bit k p) n" "bit (take_bit 36 p) n" using assms by (simp_all add: page_addr_def)
  with assms(2) show ?thesis by (auto simp: bit_take_bit_iff)
qed

lemma pte_phys:
  assumes "page_addr (k + 4) p" and "drop_bit k f = 0" and "drop_bit k a = 0"
  shows "push_bit 4 (ucast (make_sysmmu_pte p f a) AND NOT (mask k)) = p"
proof (rule bit_word_eqI)
  fix n assume n: "n < LENGTH(64)"
  have "\<not> bit (drop_bit k f) m" "\<not> bit (drop_bit k a) m" for m using assms(2,3) by simp_all
  then have f: "\<not> bit f (k + m)" "\<not> bit a (k + m)" for m by (simp_all add: bit_drop_bit_eq)
  have fk: "\<not> bit f m" "\<not> bit a m" if "k \<le> m" for m
    using f [of "m - k"] that by simp_all
  have "bit p n \<Longrightarrow> k + 4 \<le> n \<and> n < 36" using page_addr_bit [OF assms(1)] by simp
  then show "bit (push_bit 4 (ucast (make_sysmmu_pte p f a) AND NOT (mask k)) :: u64) n = bit p n"
    using n fk [of "n - 4"] by (auto simp: make_sysmmu_pte_def bit_simps)
qed

lemma pte_flags:
  assumes "page_addr (m + 4) p"
  shows "make_sysmmu_pte p f a AND mask m = (f OR a) AND mask m"
proof (rule bit_word_eqI)
  fix n assume n: "n < LENGTH(32)"
  have "bit p (n + 4) \<Longrightarrow> m \<le> n" using page_addr_bit [OF assms, of "n + 4"] by simp
  then show "bit (make_sysmmu_pte p f a AND mask m) n = bit ((f OR a) AND mask m) n"
    using n by (auto simp: make_sysmmu_pte_def bit_simps add.commute)
qed

lemma page_addr_le: "page_addr k p \<Longrightarrow> m \<le> k \<Longrightarrow> page_addr m p"
  unfolding page_addr_def by (metis min_absorb1 take_bit_of_0 take_bit_take_bit)

lemma section_pte [pte]:
  assumes "page_addr 20 p" and "a = 0 \<or> a = 0x40"
  shows "lv1ent_section (make_sysmmu_pte p 2 a)" "\<not> lv1ent_page (make_sysmmu_pte p 2 a)"
    "section_phys (make_sysmmu_pte p 2 a) = p"
proof -
  have "page_addr (3 + 4) p" "page_addr (16 + 4) p" using page_addr_le [OF assms(1)] by simp_all
  note 1 = pte_flags [OF this(1), of 2 a] and 2 = pte_phys [OF this(2), of 2 a]
  from 1 show "lv1ent_section (make_sysmmu_pte p 2 a)" "\<not> lv1ent_page (make_sysmmu_pte p 2 a)"
    using assms(2) by (auto simp: lv1ent_section_def lv1ent_page_def mask_eq_exp_minus_1)
  show "section_phys (make_sysmmu_pte p 2 a) = p"
    unfolding section_phys_def masks by (rule 2) (use assms(2) in auto)
qed

lemma table_pte [pte]:
  assumes "page_addr 10 p"
  shows "lv1ent_page (make_sysmmu_pte p 1 0)" "\<not> lv1ent_section (make_sysmmu_pte p 1 0)"
    "\<not> lv1ent_unmapped (make_sysmmu_pte p 1 0)" "lv2table_base (make_sysmmu_pte p 1 0) = p"
proof -
  have "page_addr (3 + 4) p" "page_addr (6 + 4) p" using page_addr_le [OF assms(1)] by simp_all
  note 1 = pte_flags [OF this(1), of 1 0] and 2 = pte_phys [OF this(2), of 1 0]
  from 1 show "lv1ent_page (make_sysmmu_pte p 1 0)" "\<not> lv1ent_section (make_sysmmu_pte p 1 0)"
    "\<not> lv1ent_unmapped (make_sysmmu_pte p 1 0)"
    by (auto simp: ent_defs mask_eq_exp_minus_1)
  have "(ucast (x AND NOT (mask 6)) :: u64) = ucast x AND NOT (mask 6)" for x :: u32
    by (rule bit_word_eqI) (auto simp: bit_simps dest: bit_imp_le_length)
  then show "lv2table_base (make_sysmmu_pte p 1 0) = p"
    unfolding lv2table_base_def masks using 2 by simp
qed

lemma large_pte [pte]:
  assumes "page_addr 16 p" and "a = 0 \<or> a = 0x10"
  shows "lv2ent_large (make_sysmmu_pte p 1 a)" "\<not> lv2ent_small (make_sysmmu_pte p 1 a)"
    "lpage_phys (make_sysmmu_pte p 1 a) = p"
proof -
  have "page_addr (2 + 4) p" "page_addr (12 + 4) p" using page_addr_le [OF assms(1)] by simp_all
  note 1 = pte_flags [OF this(1), of 1 a] and 2 = pte_phys [OF this(2), of 1 a]
  from 1 show "lv2ent_large (make_sysmmu_pte p 1 a)" "\<not> lv2ent_small (make_sysmmu_pte p 1 a)"
    using assms(2) by (auto simp: ent_defs mask_eq_exp_minus_1)
  show "lpage_phys (make_sysmmu_pte p 1 a) = p"
    unfolding lpage_phys_def masks by (rule 2) (use assms(2) in auto)
qed

lemma small_pte [pte]:
  assumes "page_addr 12 p" and "a = 0 \<or> a = 0x10"
  shows "lv2ent_small (make_sysmmu_pte p 2 a)" "\<not> lv2ent_large (make_sysmmu_pte p 2 a)"
    "spage_phys (make_sysmmu_pte p 2 a) = p"
proof -
  have "page_addr (2 + 4) p" "page_addr (8 + 4) p" using page_addr_le [OF assms(1)] by simp_all
  note 1 = pte_flags [OF this(1), of 2 a] and 2 = pte_phys [OF this(2), of 2 a]
  from 1 show "lv2ent_small (make_sysmmu_pte p 2 a)" "\<not> lv2ent_large (make_sysmmu_pte p 2 a)"
    using assms(2) by (auto simp: ent_defs mask_eq_exp_minus_1)
  show "spage_phys (make_sysmmu_pte p 2 a) = p"
    unfolding spage_phys_def masks by (rule 2) (use assms(2) in auto)
qed

subsection \<open>Addresses\<close>

text \<open>The page number of an address gives both indices.\<close>

definition vpn :: "u32 \<Rightarrow> nat" where
  "vpn va = unat (drop_bit 12 va)"

lemma unat_drop: "unat (drop_bit k x) = unat x div 2 ^ k" for x :: u32
  unfolding unat_drop_bit_eq by (rule drop_bit_eq_div)

lemma vpn_div: "vpn va = unat va div 4096"
  using unat_drop [of 12 va] by (simp only: vpn_def) simp

lemma lv1_vpn: "lv1ent_offset va = vpn va div 256"
  using unat_drop [of 20 va] by (simp only: lv1ent_offset_def vpn_div) (simp flip: div_mult2_eq)

lemma lv2_vpn: "lv2ent_offset va = vpn va mod 256"
proof -
  have "unat (take_bit 20 va) = unat va mod 2 ^ 20"
    unfolding unsigned_take_bit_eq by (rule take_bit_eq_mod)
  then have "lv2ent_offset va = unat va mod 1048576 div 4096"
    using unat_drop [of 12 "take_bit 20 va"] by (simp only: lv2ent_offset_def) simp
  also have "\<dots> = vpn va mod 256"
    using mod_mult2_eq [of "unat va" 4096 256] by (simp add: vpn_div)
  finally show ?thesis .
qed

lemma drop_vpn:
  "drop_bit 12 va = drop_bit 12 wa \<longleftrightarrow> vpn va = vpn wa"
  "drop_bit 16 va = drop_bit 16 wa \<longleftrightarrow> vpn va div 16 = vpn wa div 16"
  "drop_bit 20 va = drop_bit 20 wa \<longleftrightarrow> vpn va div 256 = vpn wa div 256" for va wa :: u32
proof -
  have e: "drop_bit k va = drop_bit k wa \<longleftrightarrow> unat va div 2 ^ k = unat wa div 2 ^ k" for k
    by (simp only: word_unat_eq_iff unat_drop)
  show "drop_bit 12 va = drop_bit 12 wa \<longleftrightarrow> vpn va = vpn wa"
    using e [of 12] by (simp only: vpn_div) simp
  show "drop_bit 16 va = drop_bit 16 wa \<longleftrightarrow> vpn va div 16 = vpn wa div 16"
    using e [of 16] by (simp only: vpn_div) (simp flip: div_mult2_eq)
  show "drop_bit 20 va = drop_bit 20 wa \<longleftrightarrow> vpn va div 256 = vpn wa div 256"
    using e [of 20] by (simp only: vpn_div) (simp flip: div_mult2_eq)
qed

lemma lv_bounds: "lv2ent_offset va < 256"
  by (simp add: lv2_vpn)

subsection \<open>The translation\<close>

definition page_trans :: "u32 \<Rightarrow> u32 \<Rightarrow> u64 option" where
  "page_trans pent va =
     (if lv2ent_large pent then Some (lpage_phys pent + ucast (take_bit 16 va))
      else if lv2ent_small pent then Some (spage_phys pent + ucast (take_bit 12 va))
      else None)"

definition trans_entry :: "samsung_sysmmu_domain \<Rightarrow> u32 \<Rightarrow> u64 option" where
  "trans_entry d va =
     (let entry = page_table d (lv1ent_offset va)
      in if lv1ent_section entry then Some (section_phys entry + ucast (take_bit 20 va))
      else if lv1ent_page entry then page_trans (lv2_get d entry (lv2ent_offset va)) va
      else None)"

lemma iova_to_phys_trans:
  "samsung_sysmmu_iova_to_phys d v = (case trans_entry d (ucast v) of None \<Rightarrow> 0 | Some p \<Rightarrow> p)"
  by (simp add: samsung_sysmmu_iova_to_phys_def trans_entry_def page_trans_def Let_def)

text \<open>The second level table of a first level entry.\<close>

abbreviation lv2_of :: "samsung_sysmmu_domain \<Rightarrow> nat \<Rightarrow> nat \<Rightarrow> u32" where
  "lv2_of d i \<equiv> slpt d (lv2table_base (page_table d i))"

definition used_entries :: "(nat \<Rightarrow> u32) \<Rightarrow> nat" where
  "used_entries t = card {j. j < 256 \<and> t j \<noteq> 0}"

definition table_ok :: "(nat \<Rightarrow> u32) \<Rightarrow> bool" where
  "table_ok t \<longleftrightarrow>
     (\<forall>j. t j = 0 \<or> lv2ent_small (t j) \<or> lv2ent_large (t j)) \<and>
     (\<forall>j k. lv2ent_large (t j) \<and> k div 16 = j div 16 \<longrightarrow> t k = t j)"

definition dom_ok :: "samsung_sysmmu_domain \<Rightarrow> bool" where
  "dom_ok d \<longleftrightarrow>
     (\<forall>i. page_table d i = 0 \<or> lv1ent_section (page_table d i) \<or> lv1ent_page (page_table d i)) \<and>
     (\<forall>i j. lv1ent_page (page_table d i) \<and> lv1ent_page (page_table d j) \<and>
        lv2table_base (page_table d i) = lv2table_base (page_table d j) \<longrightarrow> i = j) \<and>
     (\<forall>i. lv1ent_page (page_table d i) \<longrightarrow>
        table_ok (lv2_of d i) \<and> lv2entcnt d i = int (used_entries (lv2_of d i)))"

text \<open>The slab cache returns aligned memory that no entry of the domain uses.\<close>

definition cache_ok :: "samsung_sysmmu_domain \<Rightarrow> bool" where
  "cache_ok d \<longleftrightarrow> distinct (filter (\<lambda>p. p \<noteq> 0) (slpt_cache d)) \<and>
     (\<forall>p \<in> set (slpt_cache d). p \<noteq> 0 \<longrightarrow> page_addr 10 p \<and>
        (\<forall>i. lv1ent_page (page_table d i) \<longrightarrow> lv2table_base (page_table d i) \<noteq> p))"

lemma zero_entry [simp]: "lv1ent_unmapped 0" "\<not> lv1ent_section 0" "\<not> lv1ent_page 0"
  "lv2ent_unmapped 0" "\<not> lv2ent_small 0" "\<not> lv2ent_large 0"
  by (simp_all add: ent_defs)

lemma entry_excl: "lv1ent_section s \<Longrightarrow> \<not> lv1ent_page s" "lv1ent_page s \<Longrightarrow> \<not> lv1ent_unmapped s"
  "lv1ent_section s \<Longrightarrow> \<not> lv1ent_unmapped s" "lv2ent_small p \<Longrightarrow> \<not> lv2ent_large p"
  "lv2ent_small p \<Longrightarrow> \<not> lv2ent_unmapped p" "lv2ent_large p \<Longrightarrow> \<not> lv2ent_unmapped p"
  by (simp_all add: ent_defs)

lemma table_ok_unmapped: "table_ok t \<Longrightarrow> lv2ent_unmapped (t j) \<longleftrightarrow> t j = 0"
  using entry_excl(5,6) unfolding table_ok_def by (metis zero_entry(4))

lemma table_ok_zero [simp]: "table_ok (\<lambda>_. 0)" "used_entries (\<lambda>_. 0) = 0"
  by (simp_all add: table_ok_def used_entries_def)

text \<open>How the translation depends on the two levels.\<close>

lemma trans_cong:
  assumes "page_table d' (lv1ent_offset va) = page_table d (lv1ent_offset va)"
    and "lv1ent_page (page_table d (lv1ent_offset va)) \<Longrightarrow>
      lv2_of d' (lv1ent_offset va) (lv2ent_offset va) = lv2_of d (lv1ent_offset va) (lv2ent_offset va)"
  shows "trans_entry d' va = trans_entry d va"
  using assms by (simp add: trans_entry_def lv2_get_def Let_def)

lemma trans_cong_lv1:
  assumes "\<not> lv1ent_page (page_table d (lv1ent_offset va))" and "\<not> lv1ent_section (page_table d (lv1ent_offset va))"
  shows "trans_entry d va = None"
  using assms by (simp add: trans_entry_def Let_def)

text \<open>The page of size 2 to the \<open>k\<close> at an address.\<close>

abbreviation in_page :: "nat \<Rightarrow> u32 \<Rightarrow> u32 \<Rightarrow> bool" where
  "in_page k iova va \<equiv> drop_bit k va = drop_bit k iova"

lemma in_page_indices:
  "in_page 20 iova va \<longleftrightarrow> lv1ent_offset va = lv1ent_offset iova"
  "in_page 12 iova va \<longleftrightarrow> lv1ent_offset va = lv1ent_offset iova \<and> lv2ent_offset va = lv2ent_offset iova"
  "in_page 16 iova va \<longleftrightarrow> lv1ent_offset va = lv1ent_offset iova \<and> lv2ent_offset va div 16 = lv2ent_offset iova div 16"
proof -
  show "in_page 20 iova va \<longleftrightarrow> lv1ent_offset va = lv1ent_offset iova"
    by (simp only: drop_vpn lv1_vpn)
  show "in_page 12 iova va \<longleftrightarrow> lv1ent_offset va = lv1ent_offset iova \<and> lv2ent_offset va = lv2ent_offset iova"
    unfolding drop_vpn lv1_vpn lv2_vpn by (metis div_mult_mod_eq)
  have h: "n div 16 = m div 16 \<longleftrightarrow> n div 256 = m div 256 \<and> n mod 256 div 16 = m mod 256 div 16" for n m :: nat
  proof -
    have a: "x div 256 = x div 16 div 16" "x mod 256 div 16 = x div 16 mod 16" for x :: nat
      using mod_mult2_eq [of x 16 16] by (simp_all flip: div_mult2_eq)
    show ?thesis unfolding a by (metis div_mult_mod_eq)
  qed
  show "in_page 16 iova va \<longleftrightarrow> lv1ent_offset va = lv1ent_offset iova \<and> lv2ent_offset va div 16 = lv2ent_offset iova div 16"
    unfolding drop_vpn lv1_vpn lv2_vpn by (rule h)
qed

subsection \<open>Second level tables\<close>

definition fill :: "nat \<Rightarrow> nat \<Rightarrow> u32 \<Rightarrow> (nat \<Rightarrow> u32) \<Rightarrow> nat \<Rightarrow> u32" where
  "fill j n v t = (\<lambda>k. if j \<le> k \<and> k < j + n then v else t k)"

lemma fill_one: "t(j := v) = fill j 1 v t"
  by (auto simp: fill_def)

lemma used_split:
  assumes "j + n \<le> 256"
  shows "used_entries (fill j n v t) = (if v = 0 then 0 else n) + card {k. k < 256 \<and> t k \<noteq> 0 \<and> \<not> (j \<le> k \<and> k < j + n)}"
proof -
  let ?R = "{k. k < 256 \<and> t k \<noteq> 0 \<and> \<not> (j \<le> k \<and> k < j + n)}"
  have "{k. k < 256 \<and> fill j n v t k \<noteq> 0} = (if v = 0 then {} else {j..<j + n}) \<union> ?R"
    using assms by (auto simp: fill_def)
  moreover have "card ((if v = 0 then {} else {j..<j + n}) \<union> ?R) = card (if v = 0 then {} else {j..<j + n}) + card ?R"
    by (rule card_Un_disjoint) auto
  ultimately show ?thesis by (simp add: used_entries_def)
qed

lemma used_fill:
  assumes "j + n \<le> 256" and "v \<noteq> 0"
  shows "used_entries (fill j n v t) = n + used_entries (fill j n 0 t)"
  using assms by (simp add: used_split)

lemma fill_same: "(\<And>k. j \<le> k \<Longrightarrow> k < j + n \<Longrightarrow> t k = v) \<Longrightarrow> fill j n v t = t"
  by (auto simp: fill_def)

lemma used_zero: "used_entries t = 0 \<Longrightarrow> j < 256 \<Longrightarrow> t j = 0"
  by (auto simp: used_entries_def)

lemma used_pos: "used_entries t \<noteq> 0 \<Longrightarrow> \<exists>j. j < 256 \<and> t j \<noteq> 0"
  unfolding used_entries_def by (metis (mono_tags, lifting) card.empty empty_Collect_eq)

text \<open>The group of 16 entries of a large page is equal throughout.\<close>

lemma large_group:
  assumes "table_ok t" and "lv2ent_large (t j)" and "k div 16 = j div 16"
  shows "t k = t j"
  using assms unfolding table_ok_def by blast

text \<open>A table stays well-formed when a small entry, or an aligned group of 16, is written or cleared.\<close>

lemma table_ok_fill:
  assumes t: "table_ok t" and v: "v = 0 \<or> lv2ent_small v \<or> lv2ent_large v"
    and inside: "\<And>k m. j \<le> k \<Longrightarrow> k < j + n \<Longrightarrow> lv2ent_large v \<Longrightarrow> m div 16 = k div 16 \<Longrightarrow> j \<le> m \<and> m < j + n"
    and outside: "\<And>k m. \<not> (j \<le> k \<and> k < j + n) \<Longrightarrow> lv2ent_large (t k) \<Longrightarrow> m div 16 = k div 16 \<Longrightarrow> \<not> (j \<le> m \<and> m < j + n)"
  shows "table_ok (fill j n v t)"
  unfolding table_ok_def
proof (intro conjI allI impI)
  fix k show "fill j n v t k = 0 \<or> lv2ent_small (fill j n v t k) \<or> lv2ent_large (fill j n v t k)"
    using t v by (simp add: fill_def table_ok_def)
next
  fix k m assume a: "lv2ent_large (fill j n v t k) \<and> m div 16 = k div 16"
  show "fill j n v t m = fill j n v t k"
  proof (cases "j \<le> k \<and> k < j + n")
    case True
    then show ?thesis using a inside [of k m] by (simp add: fill_def)
  next
    case False
    then have "lv2ent_large (t k)" using a by (simp add: fill_def split: if_splits)
    then have "\<not> (j \<le> m \<and> m < j + n)" "t m = t k"
      using a outside [OF False, of m] large_group [OF t, of k m] by simp_all
    then show ?thesis using False by (simp only: fill_def if_False)
  qed
qed

lemma table_ok_small:
  assumes "table_ok t" and "\<not> lv2ent_large (t j)" and "v = 0 \<or> lv2ent_small v"
  shows "table_ok (fill j 1 v t)"
proof (rule table_ok_fill)
  fix k m assume k: "\<not> (j \<le> k \<and> k < j + 1)" "lv2ent_large (t k)" "m div 16 = k div 16"
  then have "t m = t k" using assms(1) unfolding table_ok_def by blast
  then show "\<not> (j \<le> m \<and> m < j + 1)" using assms(2) k(2) by (cases "m = j") auto
qed (use assms(3) entry_excl(4) [of v] in \<open>simp_all add: assms(1)\<close>, auto)

lemma group_bounds:
  fixes j k :: nat
  assumes "j mod 16 = 0"
  shows "j \<le> k \<and> k < j + 16 \<longleftrightarrow> k div 16 = j div 16"
proof -
  have "16 * (j div 16) = j" "16 * (k div 16) \<le> k" "k < 16 * (k div 16) + 16"
    using assms mult_div_mod_eq [of 16 j] mult_div_mod_eq [of 16 k] mod_less_divisor [of 16 k] by simp_all
  then show ?thesis by linarith
qed

lemma table_ok_group:
  assumes "table_ok t" and "j mod 16 = 0" and "v = 0 \<or> lv2ent_large v"
  shows "table_ok (fill j 16 v t)"
proof -
  note j = group_bounds [OF assms(2)]
  show ?thesis by (rule table_ok_fill [OF assms(1)]) (use assms(3) j in blast, metis j, metis j)
qed

lemma used_clear:
  assumes "j + n \<le> 256" and "\<And>k. j \<le> k \<Longrightarrow> k < j + n \<Longrightarrow> t k = v" and "v \<noteq> 0"
  shows "used_entries t = n + used_entries (fill j n 0 t)"
  using used_fill [of j n v t] fill_same [of j n t v] assms by simp

subsection \<open>The loop for a large page\<close>

definition lv2_fill :: "samsung_sysmmu_domain \<Rightarrow> u32 \<Rightarrow> nat \<Rightarrow> nat \<Rightarrow> u32 \<Rightarrow> samsung_sysmmu_domain" where
  "lv2_fill d sent j n v = d\<lparr>slpt := (slpt d)(lv2table_base sent := fill j n v (slpt d (lv2table_base sent)))\<rparr>"

lemma lv2_set_fill: "lv2_set d sent j v = lv2_fill d sent j 1 v"
  by (simp add: lv2_set_def lv2_fill_def fill_one)

lemma lv2_clear_fill: "lv2_clear d sent j n = lv2_fill d sent j n 0"
  by (simp add: lv2_clear_def lv2_fill_def fill_def)

lemma lv2_fill_zero: "(\<And>k. k < n \<Longrightarrow> lv2_get d sent (j + k) = v) \<Longrightarrow> lv2_fill d sent j n v = d"
proof -
  assume a: "\<And>k. k < n \<Longrightarrow> lv2_get d sent (j + k) = v"
  have "fill j n v (slpt d (lv2table_base sent)) = slpt d (lv2table_base sent)"
  proof (rule fill_same)
    fix k assume "j \<le> k" "k < j + n"
    then show "slpt d (lv2table_base sent) k = v" using a [of "k - j"] by (simp add: lv2_get_def)
  qed
  then show ?thesis by (simp add: lv2_fill_def)
qed

lemma set_lpage_gen:
  assumes u: "\<And>m. m < 16 \<Longrightarrow> lv2ent_unmapped (lv2_get d sent (j + m)) \<Longrightarrow> lv2_get d sent (j + m) = 0"
    and "k \<le> 16" and "\<And>m. m < k \<Longrightarrow> lv2_get d sent (j + m) = 0"
  shows "set_lpage (lv2_fill d sent j k v) sent j v k =
    (if \<forall>m<16. lv2_get d sent (j + m) = 0 then (lv2_fill d sent j 16 v, 0) else (d, - EADDRINUSE))"
  using assms(2,3)
proof (induction "16 - k" arbitrary: k)
  case 0
  then have "k = 16" by simp
  then show ?case using 0 by (simp add: set_lpage.simps)
next
  case (Suc n)
  let ?f = "lv2_fill d sent j k v"
  have k: "k < 16" using Suc by simp
  have g: "lv2_get ?f sent (j + k) = lv2_get d sent (j + k)"
    by (simp add: lv2_get_def lv2_fill_def fill_def)
  show ?case
  proof (cases "lv2_get d sent (j + k) = 0")
    case zero: True
    have "lv2_set ?f sent (j + k) v = lv2_fill d sent j (k + 1) v"
      by (auto simp: lv2_set_def lv2_fill_def fill_def fun_eq_iff)
    then have "set_lpage ?f sent j v k = set_lpage (lv2_fill d sent j (k + 1) v) sent j v (k + 1)"
      using k zero g by (subst set_lpage.simps) simp
    moreover have "\<And>m. m < k + 1 \<Longrightarrow> lv2_get d sent (j + m) = 0"
      using Suc.prems(2) zero less_Suc_eq by auto
    ultimately show ?thesis using Suc.hyps(1) [of "k + 1"] Suc.hyps(2) k by simp
  next
    case False
    then have "\<not> lv2ent_unmapped (lv2_get ?f sent (j + k))" using u [OF k] g by auto
    moreover have "lv2_clear ?f sent j k = lv2_fill d sent j k 0"
      by (auto simp: lv2_clear_def lv2_fill_def fill_def fun_eq_iff)
    moreover have "lv2_fill d sent j k 0 = d" using Suc.prems(2) by (rule lv2_fill_zero)
    ultimately have "set_lpage ?f sent j v k = (d, - EADDRINUSE)"
      using k by (subst set_lpage.simps) simp
    then show ?thesis using False k by auto
  qed
qed

lemma set_lpage_eq:
  assumes "table_ok (slpt d (lv2table_base sent))"
  shows "set_lpage d sent j v 0 =
    (if \<forall>m<16. lv2_get d sent (j + m) = 0 then (lv2_fill d sent j 16 v, 0) else (d, - EADDRINUSE))"
proof -
  have "lv2_fill d sent j 0 v = d" by (rule lv2_fill_zero) simp
  moreover have "lv2ent_unmapped (lv2_get d sent m) \<Longrightarrow> lv2_get d sent m = 0" for m
    using table_ok_unmapped [OF assms] by (simp add: lv2_get_def)
  ultimately show ?thesis using set_lpage_gen [of d sent j 0 v] by simp
qed

subsection \<open>Updates of a domain\<close>

lemma dom_ok_table: "dom_ok d \<Longrightarrow> lv1ent_page (page_table d i) \<Longrightarrow> table_ok (lv2_of d i)"
  by (simp add: dom_ok_def)

lemma dom_ok_count:
  "dom_ok d \<Longrightarrow> lv1ent_page (page_table d i) \<Longrightarrow> lv2entcnt d i = int (used_entries (lv2_of d i))"
  by (simp add: dom_ok_def)

lemma dom_ok_inj:
  "dom_ok d \<Longrightarrow> lv1ent_page (page_table d i) \<Longrightarrow> lv1ent_page (page_table d k) \<Longrightarrow>
   lv2table_base (page_table d i) = lv2table_base (page_table d k) \<Longrightarrow> i = k"
  by (simp add: dom_ok_def)

lemma dom_ok_lv1: "dom_ok d \<Longrightarrow> page_table d i = 0 \<or> lv1ent_section (page_table d i) \<or> lv1ent_page (page_table d i)"
  by (simp add: dom_ok_def)

text \<open>The table of entry \<open>i\<close> replaced by \<open>t\<close>, with its counter.\<close>

definition put_table :: "samsung_sysmmu_domain \<Rightarrow> nat \<Rightarrow> (nat \<Rightarrow> u32) \<Rightarrow> samsung_sysmmu_domain" where
  "put_table d i t = d\<lparr>slpt := (slpt d)(lv2table_base (page_table d i) := t),
     lv2entcnt := (lv2entcnt d)(i := int (used_entries t))\<rparr>"

lemma put_table_sel [simp]:
  "page_table (put_table d i t) = page_table d" "slpt_cache (put_table d i t) = slpt_cache d"
  "slpt_freed (put_table d i t) = slpt_freed d" "slpt (put_table d i t) (lv2table_base (page_table d i)) = t"
  by (simp_all add: put_table_def)

lemma put_table_lv2:
  assumes "dom_ok d" and "lv1ent_page (page_table d i)" and "lv1ent_page (page_table d k)"
  shows "lv2_of (put_table d i t) k = (if k = i then t else lv2_of d k)"
  using dom_ok_inj [OF assms] by (auto simp: put_table_def)

lemma put_table_ok:
  assumes "dom_ok d" and "lv1ent_page (page_table d i)" and "table_ok t"
  shows "dom_ok (put_table d i t)"
  unfolding dom_ok_def
proof (intro conjI allI impI)
  fix k assume k: "lv1ent_page (page_table (put_table d i t) k)"
  then have e: "lv2_of (put_table d i t) k = (if k = i then t else lv2_of d k)"
    using put_table_lv2 [OF assms(1,2)] by simp
  show "table_ok (lv2_of (put_table d i t) k)"
    unfolding e using assms(3) dom_ok_table [OF assms(1)] k by simp
  show "lv2entcnt (put_table d i t) k = int (used_entries (lv2_of (put_table d i t) k))"
    unfolding e using dom_ok_count [OF assms(1)] k by (simp add: put_table_def)
qed (use assms(1) in \<open>simp_all add: dom_ok_def\<close>)

lemma put_table_cache: "cache_ok (put_table d i t) = cache_ok d"
  by (simp add: cache_ok_def)

lemma trans_page:
  "lv1ent_page (page_table d (lv1ent_offset va)) \<Longrightarrow>
   trans_entry d va = page_trans (lv2_of d (lv1ent_offset va) (lv2ent_offset va)) va"
  using entry_excl(1) by (auto simp: trans_entry_def lv2_get_def Let_def)

lemma put_table_trans:
  assumes "dom_ok d" and "lv1ent_page (page_table d i)"
  shows "trans_entry (put_table d i t) va =
    (if lv1ent_offset va = i then page_trans (t (lv2ent_offset va)) va else trans_entry d va)"
proof (cases "lv1ent_offset va = i")
  case True
  then show ?thesis using trans_page [of "put_table d i t" va] put_table_lv2 [OF assms assms(2)] assms(2)
    by simp
next
  case False
  have "trans_entry (put_table d i t) va = trans_entry d va"
    by (rule trans_cong) (use put_table_lv2 [OF assms] False in simp_all)
  then show ?thesis using False by simp
qed

text \<open>A first level entry emptied or made a section; its counter no longer matters.\<close>

definition put_entry :: "samsung_sysmmu_domain \<Rightarrow> nat \<Rightarrow> u32 \<Rightarrow> (nat \<Rightarrow> int) \<Rightarrow> u64 list \<Rightarrow> samsung_sysmmu_domain" where
  "put_entry d i e cnt fr = d\<lparr>page_table := (page_table d)(i := e), lv2entcnt := cnt, slpt_freed := fr\<rparr>"

lemma put_entry_ok:
  assumes "dom_ok d" and "e = 0 \<or> lv1ent_section e" and "\<And>k. k \<noteq> i \<Longrightarrow> cnt k = lv2entcnt d k"
  shows "dom_ok (put_entry d i e cnt fr)"
proof -
  have "\<not> lv1ent_page e" using assms(2) entry_excl(1) by auto
  then show ?thesis using assms unfolding dom_ok_def put_entry_def by simp
qed

lemma put_entry_cache:
  "cache_ok d \<Longrightarrow> e = 0 \<or> lv1ent_section e \<Longrightarrow> cache_ok (put_entry d i e cnt fr)"
  using entry_excl(1) by (auto simp: cache_ok_def put_entry_def)

lemma put_entry_trans:
  assumes "e = 0 \<or> lv1ent_section e"
  shows "trans_entry (put_entry d i e cnt fr) va =
    (if lv1ent_offset va = i then (if e = 0 then None else Some (section_phys e + ucast (take_bit 20 va)))
     else trans_entry d va)"
  using assms by (auto simp: trans_entry_def put_entry_def lv2_get_def Let_def)

text \<open>A fresh table installed in an empty entry, as \<^verbatim>\<open>alloc_lv2entry\<close> does.\<close>

definition new_table :: "samsung_sysmmu_domain \<Rightarrow> nat \<Rightarrow> u64 \<Rightarrow> u64 list \<Rightarrow> samsung_sysmmu_domain" where
  "new_table d i p ps = d\<lparr>slpt_cache := ps, slpt := (slpt d)(p := (\<lambda>_. 0)),
     page_table := (page_table d)(i := make_sysmmu_pte p SLPD_FLAG 0),
     lv2entcnt := (lv2entcnt d)(i := 0)\<rparr>"

lemma new_table_facts:
  assumes d: "dom_ok d" "cache_ok d" "slpt_cache d = p # ps" "p \<noteq> 0" "page_table d i = 0"
  shows "dom_ok (new_table d i p ps)" "cache_ok (new_table d i p ps)"
    "trans_entry (new_table d i p ps) va = trans_entry d va"
    "lv1ent_page (page_table (new_table d i p ps) i)"
proof -
  have p: "page_addr 10 p" "\<And>k. lv1ent_page (page_table d k) \<Longrightarrow> lv2table_base (page_table d k) \<noteq> p"
    "p \<notin> set ps"
    using d(2-4) by (auto simp: cache_ok_def)
  note e = table_pte [OF p(1)]
  let ?d = "new_table d i p ps"
  have lv: "page_table ?d k = (if k = i then make_sysmmu_pte p 1 0 else page_table d k)" for k
    by (simp add: new_table_def)
  have l2: "lv2_of ?d k = (if k = i then (\<lambda>_. 0) else lv2_of d k)" if "lv1ent_page (page_table ?d k)" for k
    using that p(2) [of k] e(4) by (auto simp: new_table_def)
  have cnt: "lv2entcnt ?d k = (if k = i then 0 else lv2entcnt d k)" for k by (simp add: new_table_def)
  show page: "lv1ent_page (page_table ?d i)" using e lv by simp
  show "dom_ok ?d"
    unfolding dom_ok_def
  proof (intro conjI allI impI)
    fix k show "page_table ?d k = 0 \<or> lv1ent_section (page_table ?d k) \<or> lv1ent_page (page_table ?d k)"
      using dom_ok_lv1 [OF d(1), of k] e lv by simp
    assume k: "lv1ent_page (page_table ?d k)"
    show "table_ok (lv2_of ?d k)" "lv2entcnt ?d k = int (used_entries (lv2_of ?d k))"
      unfolding l2 [OF k] cnt using dom_ok_table [OF d(1), of k] dom_ok_count [OF d(1), of k] k lv [of k]
      by (simp_all split: if_splits)
  next
    fix k m assume "lv1ent_page (page_table ?d k) \<and> lv1ent_page (page_table ?d m) \<and>
      lv2table_base (page_table ?d k) = lv2table_base (page_table ?d m)"
    then show "k = m" using p(2) [of k] p(2) [of m] dom_ok_inj [OF d(1), of k m] e(4) unfolding lv
      by (simp split: if_splits)
  qed
  show "cache_ok ?d" using d(2-4) p(3) e(4) unfolding cache_ok_def lv
    by (auto simp: new_table_def split: if_splits)
  show "trans_entry ?d va = trans_entry d va"
  proof (cases "lv1ent_offset va = i")
    case True
    then show ?thesis
      using trans_page [of ?d va] page l2 [OF page] trans_cong_lv1 [of d va] d(5) by (simp add: page_trans_def)
  next
    case False
    then show ?thesis by (intro trans_cong) (use lv l2 [of "lv1ent_offset va"] in simp_all)
  qed
qed

subsection \<open>What an entry translates\<close>

lemma page_trans_zero [simp]: "page_trans 0 va = None"
  by (simp add: page_trans_def)

lemma page_trans_none: "table_ok t \<Longrightarrow> page_trans (t j) va = None \<longleftrightarrow> t j = 0"
proof -
  assume "table_ok t"
  then have "t j = 0 \<or> lv2ent_small (t j) \<or> lv2ent_large (t j)" by (simp add: table_ok_def)
  then show ?thesis by (auto simp: page_trans_def)
qed

lemma page_trans_small:
  assumes "page_addr 12 p" and "a = 0 \<or> a = 0x10"
  shows "page_trans (make_sysmmu_pte p 2 a) va = Some (p + ucast (take_bit 12 va))"
  using small_pte [OF assms] by (simp add: page_trans_def)

lemma page_trans_large:
  assumes "page_addr 16 p" and "a = 0 \<or> a = 0x10"
  shows "page_trans (make_sysmmu_pte p 1 a) va = Some (p + ucast (take_bit 16 va))"
  using large_pte [OF assms] by (simp add: page_trans_def)

lemma trans_section:
  "lv1ent_section (page_table d (lv1ent_offset va)) \<Longrightarrow> trans_entry d va \<noteq> None"
  by (simp add: trans_entry_def Let_def)

text \<open>Every pair of indices is the pair of some address.\<close>

lemma lv1_bound: "lv1ent_offset va < 4096"
proof -
  have "unat va < 4096 * 1048576" using unsigned_less [of va] by simp
  then show ?thesis using unat_drop [of 20 va] by (simp add: lv1ent_offset_def less_mult_imp_div_less)
qed

lemma address_of:
  assumes "i < 4096" and "j < 256"
  shows "\<exists>va. lv1ent_offset va = i \<and> lv2ent_offset va = j"
proof -
  define n where "n = (i * 256 + j) * 4096"
  have "n < 2 ^ 32" using assms by (simp add: n_def)
  then have "unat (word_of_nat n :: u32) = n" by (simp add: unat_of_nat take_bit_nat_eq_self)
  then have "vpn (word_of_nat n) = i * 256 + j" by (simp add: vpn_div n_def)
  then have "lv1ent_offset (word_of_nat n) = i \<and> lv2ent_offset (word_of_nat n) = j"
    using assms(2) by (simp add: lv1_vpn lv2_vpn)
  then show ?thesis by blast
qed

lemma aligned_less:
  fixes x :: u32
  assumes "take_bit k x = 0" and "m \<le> k"
  shows "take_bit m x = 0"
  using arg_cong [OF assms(1), of "take_bit m"] assms(2) by (simp add: min_absorb1)

text \<open>A 64 KB page starts at an aligned index.\<close>

lemma aligned_index:
  assumes "take_bit 16 va = 0"
  shows "lv2ent_offset va mod 16 = 0" "lv2ent_offset va + 16 \<le> 256"
proof -
  have "unat (take_bit 16 va) = unat va mod 2 ^ 16"
    unfolding unsigned_take_bit_eq by (rule take_bit_eq_mod)
  then have "unat va mod (4096 * 16) = 0" using assms by simp
  then have "unat va div 4096 mod 16 = 0"
    using mod_mult2_eq [of "unat va" 4096 16] by simp
  then have "vpn va mod 16 = 0" by (simp add: vpn_div)
  then show m: "lv2ent_offset va mod 16 = 0" by (simp add: lv2_vpn mod_mod_cancel)
  then obtain q where "lv2ent_offset va = 16 * q" by auto
  then show "lv2ent_offset va + 16 \<le> 256" using lv_bounds [of va] by simp
qed

end
