(* ===== verification/SysmmuProps.thy ===== *)
theory SysmmuProps
  imports SysmmuTable
begin

text \<open>
  The page table operations of \<^verbatim>\<open>samsung-iommu.c\<close> against the translation: mapping a page adds
  exactly that page or is refused, unmapping removes exactly the page it reports, and tables and
  counters stay well-formed along every sequence of operations. The contract is the locale
  \<open>address_space\<close>; the driver's operations are its interpretation.
\<close>

subsection \<open>The contract of an I/O address space\<close>

text \<open>The page sizes of the hardware, as exponents: 4 KB, 64 KB and 1 MB.\<close>

definition page_size :: "nat \<Rightarrow> bool" where
  "page_size k \<longleftrightarrow> k = 12 \<or> k = 16 \<or> k = 20"

definition map_page :: "nat \<Rightarrow> u32 \<Rightarrow> u64 \<Rightarrow> (u32 \<Rightarrow> u64 option) \<Rightarrow> u32 \<Rightarrow> u64 option" where
  "map_page k iova p tr = (\<lambda>va. if in_page k iova va then Some (p + ucast (take_bit k va)) else tr va)"

text \<open>The aligned range of \<open>n\<close> bytes at an address removed (none of them for 0 bytes).\<close>

definition unmap_range :: "nat \<Rightarrow> u32 \<Rightarrow> (u32 \<Rightarrow> u64 option) \<Rightarrow> u32 \<Rightarrow> u64 option" where
  "unmap_range n iova tr = (\<lambda>va. if n \<noteq> 0 \<and> unat va div n = unat iova div n then None else tr va)"

lemma unmap_range_pow: "unmap_range (2 ^ k) iova tr va = (if in_page k iova va then None else tr va)"
  by (simp add: unmap_range_def word_unat_eq_iff unat_drop)

datatype space_op =
  Map_page nat u64 u64 bool bool
| Unmap_page nat u64

fun op_ok :: "space_op \<Rightarrow> bool" where
  "op_ok (Map_page k v p c q) \<longleftrightarrow> page_size k \<and> take_bit k (ucast v :: u32) = 0 \<and> page_addr k p"
| "op_ok (Unmap_page k v) \<longleftrightarrow> page_size k \<and> take_bit k (ucast v :: u32) = 0"

text \<open>
  What a call may do to the translation, with what it returns: a page is mapped only where
  nothing was, an overlap is refused, and unmapping removes as much as it reports, which is not more
  than it was asked for; it reports 0 only for an address inside a larger page.
\<close>

inductive spec_step :: "(u32 \<Rightarrow> u64 option) \<Rightarrow> space_op \<Rightarrow> int \<Rightarrow> (u32 \<Rightarrow> u64 option) \<Rightarrow> bool" where
  mapped: "(\<And>va. in_page k (ucast v) va \<Longrightarrow> t va = None) \<Longrightarrow>
    spec_step t (Map_page k v p c q) 0 (map_page k (ucast v) p t)"
| refused: "in_page k (ucast v) va \<Longrightarrow> t va \<noteq> None \<Longrightarrow> spec_step t (Map_page k v p c q) (- EADDRINUSE) t"
| no_memory: "(\<And>va. in_page k (ucast v) va \<Longrightarrow> t va = None) \<Longrightarrow>
    spec_step t (Map_page k v p c q) (- ENOMEM) t"
| unmapped: "0 < n \<Longrightarrow> n \<le> 2 ^ k \<Longrightarrow>
    spec_step t (Unmap_page k v) (int n) (unmap_range n (ucast v) t)"
| kept: "t (ucast v) \<noteq> None \<Longrightarrow> spec_step t (Unmap_page k v) 0 t"

inductive_cases spec_mapE: "spec_step t (Map_page k v p c q) r t'"
inductive_cases spec_unmapE: "spec_step t (Unmap_page k v) r t'"

inductive spec_run :: "(u32 \<Rightarrow> u64 option) \<Rightarrow> space_op list \<Rightarrow> int list \<Rightarrow> (u32 \<Rightarrow> u64 option) \<Rightarrow> bool" where
  run_nil: "spec_run t [] [] t"
| run_cons: "spec_step t op r t1 \<Longrightarrow> spec_run t1 ops rs t2 \<Longrightarrow> spec_run t (op # ops) (r # rs) t2"

text \<open>Calls of the operations \<open>mp\<close> and \<open>ump\<close>; \<open>None\<close> is a call that does not return.\<close>

type_synonym 'd map_fn = "'d \<Rightarrow> u64 \<Rightarrow> u64 \<Rightarrow> nat \<Rightarrow> bool \<Rightarrow> bool \<Rightarrow> ('d \<times> int) option"
type_synonym 'd unmap_fn = "'d \<Rightarrow> u64 \<Rightarrow> nat \<Rightarrow> 'd \<times> nat"

fun space_exec :: "'d map_fn \<Rightarrow> 'd unmap_fn \<Rightarrow> space_op \<Rightarrow> 'd \<Rightarrow> ('d \<times> int) option" where
  "space_exec mp ump (Map_page k v p c q) d = mp d v p (2 ^ k) c q"
| "space_exec mp ump (Unmap_page k v) d = (let (d', n) = ump d v (2 ^ k) in Some (d', int n))"

fun space_run :: "'d map_fn \<Rightarrow> 'd unmap_fn \<Rightarrow> space_op list \<Rightarrow> 'd \<Rightarrow> ('d \<times> int list) option" where
  "space_run mp ump [] d = Some (d, [])"
| "space_run mp ump (op # ops) d =
     (case space_exec mp ump op d of
        None \<Rightarrow> None
      | Some (d1, r) \<Rightarrow>
          (case space_run mp ump ops d1 of None \<Rightarrow> None | Some (d2, rs) \<Rightarrow> Some (d2, r # rs)))"

text \<open>\<open>good\<close> is the invariant of the state and \<open>tr\<close> the translation it stands for.\<close>

locale address_space =
  fixes good :: "'d \<Rightarrow> bool"
    and tr :: "'d \<Rightarrow> u32 \<Rightarrow> u64 option"
    and mp :: "'d map_fn"
    and ump :: "'d unmap_fn"
  assumes map_law: "good d \<Longrightarrow> op_ok (Map_page k v p c q) \<Longrightarrow>
      \<exists>d' r. mp d v p (2 ^ k) c q = Some (d', r) \<and> good d' \<and> spec_step (tr d) (Map_page k v p c q) r (tr d')"
    and unmap_law: "good d \<Longrightarrow> op_ok (Unmap_page k v) \<Longrightarrow> ump d v (2 ^ k) = (d', n) \<Longrightarrow>
      good d' \<and> spec_step (tr d) (Unmap_page k v) (int n) (tr d')"
    and unmap_mapped: "good d \<Longrightarrow> op_ok (Map_page k v p c q) \<Longrightarrow> mp d v p (2 ^ k) c q = Some (d', 0) \<Longrightarrow>
      snd (ump d' v (2 ^ k)) = 2 ^ k"
begin

lemma exec_refines:
  assumes "good d" and "op_ok op"
  shows "\<exists>d' r. space_exec mp ump op d = Some (d', r) \<and> good d' \<and> spec_step (tr d) op r (tr d')"
proof (cases op)
  case (Map_page k v p c q)
  then show ?thesis using map_law [OF assms(1)] assms(2) by simp
next
  case (Unmap_page k v)
  obtain d' n where "ump d v (2 ^ k) = (d', n)" by fastforce
  then show ?thesis using unmap_law [OF assms(1)] assms(2) Unmap_page by simp
qed

lemma run_refines:
  assumes "good d" and "list_all op_ok ops"
  shows "\<exists>d' rs. space_run mp ump ops d = Some (d', rs) \<and> good d' \<and> spec_run (tr d) ops rs (tr d')"
  using assms
proof (induction ops arbitrary: d)
  case Nil
  then show ?case by (simp add: run_nil)
next
  case (Cons op ops)
  then obtain d1 r where 1: "space_exec mp ump op d = Some (d1, r)" "good d1" "spec_step (tr d) op r (tr d1)"
    using exec_refines [of d op] by auto
  moreover obtain d2 rs where "space_run mp ump ops d1 = Some (d2, rs)" "good d2" "spec_run (tr d1) ops rs (tr d2)"
    using Cons 1(2) by fastforce
  ultimately show ?case by (auto intro: run_cons)
qed

lemma map_then_unmap:
  assumes g: "good d" and k: "op_ok (Map_page k v p c q)" and m: "mp d v p (2 ^ k) c q = Some (d', 0)"
    and u: "ump d' v (2 ^ k) = (d'', n)"
  shows "n = 2 ^ k \<and> tr d'' = tr d"
proof -
  have good: "good d'" and s: "spec_step (tr d) (Map_page k v p c q) 0 (tr d')"
    using map_law [OF g k] m by auto
  have n: "n = 2 ^ k" using unmap_mapped [OF g k m] u by simp
  have "spec_step (tr d') (Unmap_page k v) (int n) (tr d'')"
    using unmap_law [OF good _ u] k by simp
  then have "tr d'' = unmap_range (2 ^ k) (ucast v) (tr d')"
    using n by (auto elim: spec_unmapE)
  also have "\<dots> = tr d"
    using s by (auto elim!: spec_mapE simp: unmap_range_pow map_page_def fun_eq_iff)
  finally show ?thesis using n by simp
qed

end

subsection \<open>Mapping\<close>

lemma alloc_lv2entry_cases:
  assumes "dom_ok d" and "cache_ok d"
  obtains (used) "lv1ent_section (page_table d i)" "alloc_lv2entry d i = Some (Inl (- EADDRINUSE, d))"
  | (nomem) d' where "page_table d i = 0" "alloc_lv2entry d i = Some (Inl (- ENOMEM, d'))"
      "dom_ok d'" "cache_ok d'" "trans_entry d' = trans_entry d"
  | (table) d' where "\<not> lv1ent_section (page_table d i)" "alloc_lv2entry d i = Some (Inr d')"
      "dom_ok d'" "cache_ok d'" "trans_entry d' = trans_entry d" "lv1ent_page (page_table d' i)"
proof -
  consider (s) "lv1ent_section (page_table d i)" | (p) "lv1ent_page (page_table d i)" | (z) "page_table d i = 0"
    using dom_ok_lv1 [OF assms(1)] by blast
  then show thesis
  proof cases
    case s then show ?thesis by (intro used) (simp_all add: alloc_lv2entry_def Let_def)
  next
    case p
    then show ?thesis using entry_excl(1,2) assms
      by (intro table [of d]) (auto simp: alloc_lv2entry_def Let_def)
  next
    case z
    show ?thesis
    proof (cases "slpt_cache d")
      case Nil
      then show ?thesis using z assms by (intro nomem [of d]) (simp_all add: alloc_lv2entry_def Let_def)
    next
      case (Cons a ps)
      show ?thesis
      proof (cases "a = 0")
        case True
        let ?d = "d\<lparr>slpt_cache := ps\<rparr>"
        have "dom_ok ?d" "cache_ok ?d"
          using assms Cons True by (auto simp: dom_ok_def cache_ok_def)
        moreover have "trans_entry ?d = trans_entry d" by (intro ext trans_cong) simp_all
        ultimately show ?thesis using z True Cons by (intro nomem [of ?d]) (simp_all add: alloc_lv2entry_def Let_def)
      next
        case False
        note f = new_table_facts [OF assms Cons False z]
        show ?thesis using z False Cons f
          by (intro table [of "new_table d i a ps"]) (simp_all add: alloc_lv2entry_def new_table_def Let_def fun_eq_iff)
      qed
    qed
  qed
qed

text \<open>The driver writes a page's entries and adds their number to the counter.\<close>

lemma add_count_fill:
  assumes "dom_ok d" and "lv1ent_page (page_table d i)" and "j + n \<le> 256" and "v \<noteq> 0"
    and "\<And>m. m < n \<Longrightarrow> lv2_of d i (j + m) = 0"
  shows "add_count i (int n) (lv2_fill d (page_table d i) j n v) = put_table d i (fill j n v (lv2_of d i))"
proof -
  have "fill j n 0 (lv2_of d i) = lv2_of d i"
    by (rule fill_same) (use assms(5) [of "k - j" for k] in \<open>metis add_diff_inverse_nat add_less_cancel_left leD\<close>)
  then have "used_entries (fill j n v (lv2_of d i)) = n + used_entries (lv2_of d i)"
    using used_fill [OF assms(3,4)] by metis
  then show ?thesis using dom_ok_count [OF assms(1,2)]
    by (simp add: add.commute add_count_def lv2_fill_def put_table_def)
qed

lemma clear_count_fill:
  assumes "dom_ok d" and "lv1ent_page (page_table d i)" and "j + n \<le> 256" and "v \<noteq> 0"
    and "\<And>k. j \<le> k \<Longrightarrow> k < j + n \<Longrightarrow> lv2_of d i k = v"
  shows "add_count i (- int n) (lv2_fill d (page_table d i) j n 0) = put_table d i (fill j n 0 (lv2_of d i))"
proof -
  have "used_entries (lv2_of d i) = n + used_entries (fill j n 0 (lv2_of d i))"
    by (rule used_clear [OF assms(3) _ assms(4)]) (rule assms(5))
  then show ?thesis using dom_ok_count [OF assms(1,2)]
    by (simp add: add_count_def lv2_fill_def put_table_def)
qed

lemma pte_nonzero:
  "page_addr 12 p \<Longrightarrow> a = 0 \<or> a = 0x10 \<Longrightarrow> make_sysmmu_pte p 2 a \<noteq> 0"
  "page_addr 16 p \<Longrightarrow> a = 0 \<or> a = 0x10 \<Longrightarrow> make_sysmmu_pte p 1 a \<noteq> 0"
  "page_addr 20 p \<Longrightarrow> a' = 0 \<or> a' = 0x40 \<Longrightarrow> make_sysmmu_pte p 2 a' \<noteq> 0"
  using small_pte(1) large_pte(1) section_pte(1) zero_entry by metis+

text \<open>The two page sizes of the second level, at entry \<open>j\<close> of table \<open>i\<close>.\<close>

lemma lv2set_small:
  assumes d: "dom_ok d" "lv1ent_page (page_table d i)" "page_addr 12 p" "j < 256"
  shows "lv2set_page d i j p 4096 c =
    (if lv2_of d i j = 0 then (put_table d i (fill j 1 (make_sysmmu_pte p 2 (if c then 0x10 else 0)) (lv2_of d i)), 0)
     else (d, - EADDRINUSE))"
proof -
  let ?v = "make_sysmmu_pte p 2 (if c then 0x10 else 0)"
  have v: "?v \<noteq> 0" using pte_nonzero(1) [OF d(3)] by simp
  have "lv2_of d i j = 0 \<Longrightarrow> add_count i 1 (lv2_set d (page_table d i) j ?v) = put_table d i (fill j 1 ?v (lv2_of d i))"
    using add_count_fill [OF d(1,2) _ v, of j 1] d(4) by (simp add: lv2_set_fill)
  then show ?thesis
    using table_ok_unmapped [OF dom_ok_table [OF d(1,2)], of j] by (simp add: lv2set_page_def lv2_get_def Let_def)
qed

lemma lv2set_large:
  assumes d: "dom_ok d" "lv1ent_page (page_table d i)" "page_addr 16 p" "j + 16 \<le> 256"
  shows "lv2set_page d i j p 65536 c =
    (if \<forall>m<16. lv2_of d i (j + m) = 0
     then (put_table d i (fill j 16 (make_sysmmu_pte p 1 (if c then 0x10 else 0)) (lv2_of d i)), 0)
     else (d, - EADDRINUSE))"
proof -
  let ?v = "make_sysmmu_pte p 1 (if c then 0x10 else 0)"
  have v: "?v \<noteq> 0" using pte_nonzero(2) [OF d(3)] by simp
  have "\<forall>m<16. lv2_of d i (j + m) = 0 \<Longrightarrow>
    add_count i 16 (lv2_fill d (page_table d i) j 16 ?v) = put_table d i (fill j 16 ?v (lv2_of d i))"
    using add_count_fill [OF d(1,2,4) v] by simp
  then show ?thesis
    using set_lpage_eq [OF dom_ok_table [OF d(1,2)], of j ?v]
    by (simp add: lv2set_page_def lv2_get_def Let_def)
qed

abbreviation good_domain :: "samsung_sysmmu_domain \<Rightarrow> bool" where
  "good_domain d \<equiv> dom_ok d \<and> cache_ok d"

lemma small_spec:
  fixes v :: u64
  defines "iova \<equiv> ucast v"
  assumes d: "dom_ok d" "cache_ok d" "lv1ent_page (page_table d (lv1ent_offset iova))" "page_addr 12 p"
  shows "\<exists>d' r. lv2set_page d (lv1ent_offset iova) (lv2ent_offset iova) p 4096 c = (d', r) \<and>
    good_domain d' \<and> spec_step (trans_entry d) (Map_page 12 v p c0 q) r (trans_entry d')"
proof -
  let ?i = "lv1ent_offset iova" and ?j = "lv2ent_offset iova"
  let ?v = "make_sysmmu_pte p 2 (if c then 0x10 else 0)"
  let ?d = "put_table d ?i (fill ?j 1 ?v (lv2_of d ?i))"
  note set = lv2set_small [OF d(1,3,4) lv_bounds, where c = c]
  note ok = dom_ok_table [OF d(1,3)]
  have va: "trans_entry d va = page_trans (lv2_of d ?i ?j) va" if "in_page 12 iova va" for va
    using that d(3) trans_page [of d va] by (simp add: in_page_indices)
  show ?thesis
  proof (cases "lv2_of d ?i ?j = 0")
    case True
    have "table_ok (fill ?j 1 ?v (lv2_of d ?i))"
      by (rule table_ok_small [OF ok]) (use True small_pte(1) [OF d(4)] in simp_all)
    then have "good_domain ?d" using put_table_ok [OF d(1,3)] put_table_cache d(2) by blast
    moreover have "trans_entry ?d = map_page 12 iova p (trans_entry d)"
      using put_table_trans [OF d(1,3)] page_trans_small [OF d(4)] d(3)
      by (auto simp: map_page_def in_page_indices fill_def fun_eq_iff trans_page)
    moreover have "in_page 12 iova va \<Longrightarrow> trans_entry d va = None" for va using va True by simp
    ultimately show ?thesis using set True mapped [where k = 12 and v = v and t = "trans_entry d"] iova_def by auto
  next
    case False
    then have "trans_entry d iova \<noteq> None" using va [of iova] page_trans_none [OF ok] by simp
    then show ?thesis using set False d refused [where k = 12 and v = v and va = iova and t = "trans_entry d"] iova_def by auto
  qed
qed

lemma large_spec:
  fixes v :: u64
  defines "iova \<equiv> ucast v"
  assumes d: "dom_ok d" "cache_ok d" "lv1ent_page (page_table d (lv1ent_offset iova))" "page_addr 16 p"
    and al: "take_bit 16 iova = 0"
  shows "\<exists>d' r. lv2set_page d (lv1ent_offset iova) (lv2ent_offset iova) p 65536 c = (d', r) \<and>
    good_domain d' \<and> spec_step (trans_entry d) (Map_page 16 v p c0 q) r (trans_entry d')"
proof -
  let ?i = "lv1ent_offset iova" and ?j = "lv2ent_offset iova"
  let ?v = "make_sysmmu_pte p 1 (if c then 0x10 else 0)"
  let ?d = "put_table d ?i (fill ?j 16 ?v (lv2_of d ?i))"
  note j = aligned_index [OF al] and set = lv2set_large [OF d(1,3,4) aligned_index(2) [OF al], where c = c]
  note ok = dom_ok_table [OF d(1,3)] and grp = group_bounds [OF j(1)]
  have va: "trans_entry d va = page_trans (lv2_of d ?i (lv2ent_offset va)) va" if "in_page 16 iova va" for va
    using that d(3) trans_page [of d va] by (simp add: in_page_indices)
  show ?thesis
  proof (cases "\<forall>m<16. lv2_of d ?i (?j + m) = 0")
    case True
    have z: "lv2_of d ?i m = 0" if "m div 16 = ?j div 16" for m
      using True [rule_format, of "m - ?j"] grp [of m] that by simp
    have "table_ok (fill ?j 16 ?v (lv2_of d ?i))"
      by (rule table_ok_group [OF ok j(1)]) (use large_pte(1) [OF d(4)] in simp)
    then have "good_domain ?d" using put_table_ok [OF d(1,3)] put_table_cache d(2) by blast
    moreover have "trans_entry ?d = map_page 16 iova p (trans_entry d)"
      using put_table_trans [OF d(1,3)] page_trans_large [OF d(4)] d(3) grp
      by (simp add: map_page_def in_page_indices fill_def fun_eq_iff trans_page)
    moreover have "in_page 16 iova va \<Longrightarrow> trans_entry d va = None" for va
      using va z by (simp add: in_page_indices)
    ultimately show ?thesis using set True mapped [where k = 16 and v = v and t = "trans_entry d"] iova_def by auto
  next
    case False
    then obtain m where m: "m < 16" "lv2_of d ?i (?j + m) \<noteq> 0" by blast
    obtain wa where w: "lv1ent_offset wa = ?i" "lv2ent_offset wa = ?j + m"
      using address_of [OF lv1_bound, of "?j + m" iova] j(2) m(1) by auto
    then have "in_page 16 iova wa" using grp [of "?j + m"] m(1) by (simp add: in_page_indices)
    moreover from this have "trans_entry d wa \<noteq> None" using va [of wa] page_trans_none [OF ok] m(2) w by simp
    ultimately show ?thesis using set False d refused [where k = 16 and v = v and va = wa and t = "trans_entry d"] iova_def by auto
  qed
qed

lemma section_eq:
  assumes "dom_ok d"
  shows "lv1set_section d i p c =
    (if lv1ent_section (page_table d i) \<or> lv1ent_page (page_table d i) \<and> used_entries (lv2_of d i) \<noteq> 0
     then (d, - EADDRINUSE)
     else (put_entry d i (make_sysmmu_pte p 2 (if c then 0x40 else 0))
             (if lv1ent_page (page_table d i) then (lv2entcnt d)(i := 256) else lv2entcnt d)
             (if lv1ent_page (page_table d i) then slpt_freed d @ [lv2table_base (page_table d i)] else slpt_freed d), 0))"
  using dom_ok_count [OF assms, of i] by (simp add: lv1set_section_def put_entry_def Let_def)

lemma section_spec:
  fixes v :: u64
  defines "iova \<equiv> ucast v"
  assumes d: "dom_ok d" "cache_ok d" "page_addr 20 p"
  shows "\<exists>d' r. lv1set_section d (lv1ent_offset iova) p c = (d', r) \<and>
    good_domain d' \<and> spec_step (trans_entry d) (Map_page 20 v p c0 q) r (trans_entry d')"
proof -
  let ?i = "lv1ent_offset iova" and ?v = "make_sysmmu_pte p 2 (if c then 0x40 else 0)"
  note set = section_eq [OF d(1), of ?i p c]
  have v: "lv1ent_section ?v" "?v \<noteq> 0" "section_phys ?v = p"
    using section_pte [OF d(3)] pte_nonzero(3) [OF d(3)] by simp_all
  consider (sect) "lv1ent_section (page_table d ?i)"
    | (used) "lv1ent_page (page_table d ?i)" "used_entries (lv2_of d ?i) \<noteq> 0"
    | (free) "page_table d ?i = 0 \<or> lv1ent_page (page_table d ?i) \<and> used_entries (lv2_of d ?i) = 0"
    using dom_ok_lv1 [OF d(1), of ?i] by argo
  then show ?thesis
  proof cases
    case sect
    then have "lv1set_section d ?i p c = (d, - EADDRINUSE)" using set by simp
    moreover have "spec_step (trans_entry d) (Map_page 20 v p c0 q) (- EADDRINUSE) (trans_entry d)"
      by (rule refused [where va = iova]) (use trans_section [OF sect] in \<open>simp_all add: iova_def\<close>)
    ultimately show ?thesis using d by blast
  next
    case used
    then obtain j where j: "j < 256" "lv2_of d ?i j \<noteq> 0" using used_pos by blast
    obtain wa where w: "lv1ent_offset wa = ?i" "lv2ent_offset wa = j" using address_of [OF lv1_bound j(1)] by blast
    then have "trans_entry d wa \<noteq> None"
      using trans_page [of d wa] page_trans_none [OF dom_ok_table [OF d(1) used(1)]] used(1) j(2) by simp
    then have "spec_step (trans_entry d) (Map_page 20 v p c0 q) (- EADDRINUSE) (trans_entry d)"
      by (rule refused [where va = wa, rotated]) (use w(1) in \<open>simp add: iova_def in_page_indices\<close>)
    moreover have "lv1set_section d ?i p c = (d, - EADDRINUSE)" using set used by simp
    ultimately show ?thesis using d by blast
  next
    case free
    then have ns: "\<not> lv1ent_section (page_table d ?i)" using entry_excl(1) by auto
    have none: "trans_entry d va = None" if "in_page 20 iova va" for va
    proof -
      have i: "lv1ent_offset va = ?i" using that by (simp add: in_page_indices)
      then show ?thesis
        using free trans_page [of d va] used_zero [OF _ lv_bounds [of va], of "lv2_of d ?i"] trans_cong_lv1 [of d va]
        by auto
    qed
    obtain cnt fr where e: "lv1set_section d ?i p c = (put_entry d ?i ?v cnt fr, 0)"
      and c: "\<And>k. k \<noteq> ?i \<Longrightarrow> cnt k = lv2entcnt d k"
    proof (rule that)
      have "\<not> (lv1ent_section (page_table d ?i) \<or> lv1ent_page (page_table d ?i) \<and> used_entries (lv2_of d ?i) \<noteq> 0)"
        using free ns by auto
      then show "lv1set_section d ?i p c = (put_entry d ?i ?v
          (if lv1ent_page (page_table d ?i) then (lv2entcnt d)(?i := 256) else lv2entcnt d)
          (if lv1ent_page (page_table d ?i) then slpt_freed d @ [lv2table_base (page_table d ?i)] else slpt_freed d), 0)"
        unfolding set by (rule if_not_P)
    qed simp
    have "trans_entry (put_entry d ?i ?v cnt fr) va = map_page 20 iova p (trans_entry d) va" for va
      unfolding put_entry_trans [OF disjI2 [OF v(1)]] map_page_def in_page_indices v(3) if_not_P [OF v(2)]
      by (rule refl)
    then have "trans_entry (put_entry d ?i ?v cnt fr) = map_page 20 iova p (trans_entry d)" ..
    moreover have "spec_step (trans_entry d) (Map_page 20 v p c0 q) 0 (map_page 20 iova p (trans_entry d))"
      unfolding iova_def by (rule mapped) (use none in \<open>simp add: iova_def\<close>)
    ultimately show ?thesis using e v(1) put_entry_ok [OF d(1) _ c] put_entry_cache [OF d(2)] by auto
  qed
qed

lemma map_spec:
  assumes g: "good_domain d" and k: "op_ok (Map_page k v p c q)"
  shows "\<exists>d' r. samsung_sysmmu_map d v p (2 ^ k) c q = Some (d', r) \<and> good_domain d' \<and>
    spec_step (trans_entry d) (Map_page k v p c q) r (trans_entry d')"
proof (cases "k = 20")
  case True
  then show ?thesis using section_spec [of d p v "c \<and> \<not> q" c q] g k by (auto simp: samsung_sysmmu_map_def Let_def)
next
  case False
  let ?iova = "ucast v :: u32"
  have k2: "k = 12 \<or> k = 16" using k False by (simp add: page_size_def)
  then have sz: "(2 :: nat) ^ k \<noteq> 1048576" by auto
  have m: "samsung_sysmmu_map d v p (2 ^ k) c q =
    (case alloc_lv2entry d (lv1ent_offset ?iova) of None \<Rightarrow> None | Some (Inl (err, d1)) \<Rightarrow> Some (d1, err)
     | Some (Inr d1) \<Rightarrow> Some (lv2set_page d1 (lv1ent_offset ?iova) (lv2ent_offset ?iova) p (2 ^ k) (c \<and> \<not> q)))"
    using sz by (simp add: samsung_sysmmu_map_def Let_def)
  from g have gd: "dom_ok d" "cache_ok d" by simp_all
  from gd show ?thesis
  proof (cases rule: alloc_lv2entry_cases [where i = "lv1ent_offset ?iova"])
    case used
    then show ?thesis using m g trans_section refused [where k = k and v = v and va = ?iova and t = "trans_entry d"] by auto
  next
    case (nomem d')
    have "trans_entry d va = None" if "in_page k ?iova va" for va
      by (rule trans_cong_lv1) (use that k2 nomem(1) in \<open>auto simp: in_page_indices\<close>)
    then show ?thesis using m nomem no_memory [where k = k and v = v and t = "trans_entry d"] by auto
  next
    case (table d')
    then show ?thesis using m k2 k small_spec [OF table(3,4,6), of p "c \<and> \<not> q" c q]
        large_spec [OF table(3,4,6), of p "c \<and> \<not> q" c q] by auto
  qed
qed

subsection \<open>Unmapping\<close>

lemma unmap_cases:
  fixes v :: u64
  defines "iova \<equiv> ucast v"
  assumes d: "dom_ok d" and sz: "4096 \<le> sz" and al: "65536 \<le> sz \<longrightarrow> take_bit 16 iova = 0"
  obtains (sect) "lv1ent_section (page_table d (lv1ent_offset iova))"
      "samsung_sysmmu_unmap d v sz = (if sz < SECT_SIZE then (d, 0)
         else (put_entry d (lv1ent_offset iova) 0 (lv2entcnt d) (slpt_freed d), SECT_SIZE))"
  | (empty) "page_table d (lv1ent_offset iova) = 0" "samsung_sysmmu_unmap d v sz = (d, min sz SECT_SIZE)"
  | (free) "lv1ent_page (page_table d (lv1ent_offset iova))" "lv2_of d (lv1ent_offset iova) (lv2ent_offset iova) = 0"
      "samsung_sysmmu_unmap d v sz = (d, 4096)"
  | (small) "lv1ent_page (page_table d (lv1ent_offset iova))"
      "lv2ent_small (lv2_of d (lv1ent_offset iova) (lv2ent_offset iova))"
      "samsung_sysmmu_unmap d v sz = (put_table d (lv1ent_offset iova)
         (fill (lv2ent_offset iova) 1 0 (lv2_of d (lv1ent_offset iova))), 4096)"
  | (large) "lv1ent_page (page_table d (lv1ent_offset iova))"
      "lv2ent_large (lv2_of d (lv1ent_offset iova) (lv2ent_offset iova))"
      "samsung_sysmmu_unmap d v sz = (if sz < LPAGE_SIZE then (d, 0)
         else (put_table d (lv1ent_offset iova)
           (fill (lv2ent_offset iova) 16 0 (lv2_of d (lv1ent_offset iova))), LPAGE_SIZE))"
proof -
  let ?i = "lv1ent_offset iova" and ?j = "lv2ent_offset iova"
  let ?t = "lv2_of d ?i"
  have u: "samsung_sysmmu_unmap d v sz =
     (if lv1ent_section (page_table d ?i) then
        (if sz < SECT_SIZE then (d, 0) else (d\<lparr>page_table := (page_table d)(?i := 0)\<rparr>, SECT_SIZE))
      else if lv1ent_unmapped (page_table d ?i) then (d, min sz SECT_SIZE)
      else if lv2ent_unmapped (?t ?j) then (d, SPAGE_SIZE)
      else if lv2ent_small (?t ?j) then (add_count ?i (-1) (lv2_fill d (page_table d ?i) ?j 1 0), SPAGE_SIZE)
      else if sz < LPAGE_SIZE then (d, 0)
      else (add_count ?i (- int SPAGES_PER_LPAGE) (lv2_fill d (page_table d ?i) ?j 16 0), LPAGE_SIZE))"
    by (simp add: samsung_sysmmu_unmap_def Let_def lv2_get_def lv2_set_fill lv2_clear_fill iova_def)
  consider (1) "lv1ent_section (page_table d ?i)" | (2) "page_table d ?i = 0" | (3) "lv1ent_page (page_table d ?i)"
    using dom_ok_lv1 [OF d, of ?i] by blast
  then show thesis
  proof cases
    case 1
    show ?thesis by (rule sect [OF 1]) (use 1 u in \<open>simp add: put_entry_def\<close>)
  next
    case 2
    show ?thesis by (rule empty [OF 2]) (use 2 u in simp)
  next
    case 3
    note n = 3 entry_excl(1) [of "page_table d ?i"] entry_excl(2) [OF 3]
    have ok: "table_ok ?t" by (rule dom_ok_table [OF d 3])
    consider (z) "?t ?j = 0" | (s) "lv2ent_small (?t ?j)" | (l) "lv2ent_large (?t ?j)"
      using ok unfolding table_ok_def by blast
    then show ?thesis
    proof cases
      case z
      show ?thesis by (rule free [OF 3 z]) (use n z u in auto)
    next
      case s
      have "add_count ?i (-1) (lv2_fill d (page_table d ?i) ?j 1 0) = put_table d ?i (fill ?j 1 0 ?t)"
      proof -
        have e: "?t k = ?t ?j" if "?j \<le> k" "k < ?j + 1" for k
          using that le_less_Suc_eq [of ?j k] by simp
        have "?t ?j \<noteq> 0" "?j + 1 \<le> 256" using s lv_bounds [of iova] by auto
        then have "add_count ?i (- int 1) (lv2_fill d (page_table d ?i) ?j 1 0) = put_table d ?i (fill ?j 1 0 ?t)"
          by (intro clear_count_fill [OF d 3 _ _ e])
        then show ?thesis by simp
      qed
      then show ?thesis using n s u entry_excl(5) [OF s] by (intro small [OF 3 s]) auto
    next
      case l
      have "add_count ?i (- 16) (lv2_fill d (page_table d ?i) ?j 16 0) = put_table d ?i (fill ?j 16 0 ?t)"
        if "65536 \<le> sz"
      proof -
        have al16: "take_bit 16 iova = 0" using al that by simp
        have e: "?t k = ?t ?j" if "?j \<le> k" "k < ?j + 16" for k
          using large_group [OF ok l] group_bounds [OF aligned_index(1) [OF al16]] that by blast
        have "?t ?j \<noteq> 0" using l by auto
        then have "add_count ?i (- int 16) (lv2_fill d (page_table d ?i) ?j 16 0) = put_table d ?i (fill ?j 16 0 ?t)"
          by (intro clear_count_fill [OF d 3 aligned_index(2) [OF al16] _ e])
        then show ?thesis by simp
      qed
      then show ?thesis using n l u entry_excl(4,6) l by (intro large [OF 3 l]) auto
    qed
  qed
qed

lemma unmap_spec:
  assumes g: "good_domain d" and k: "op_ok (Unmap_page k v)" and u: "samsung_sysmmu_unmap d v (2 ^ k) = (d', n)"
  shows "good_domain d' \<and> spec_step (trans_entry d) (Unmap_page k v) (int n) (trans_entry d')"
proof -
  let ?iova = "ucast v :: u32"
  let ?i = "lv1ent_offset ?iova" and ?j = "lv2ent_offset ?iova"
  have ks: "k = 12 \<or> k = 16 \<or> k = 20" using k by (simp add: page_size_def)
  have al: "65536 \<le> (2 :: nat) ^ k \<longrightarrow> take_bit 16 ?iova = 0"
    using k ks aligned_less [of 20 ?iova 16] by auto
  have step: "spec_step (trans_entry d) (Unmap_page k v) (int (2 ^ m)) (trans_entry d')"
    if "m \<le> k" "\<And>va. trans_entry d' va = (if in_page m ?iova va then None else trans_entry d va)" for m
  proof -
    have "trans_entry d' = unmap_range (2 ^ m) ?iova (trans_entry d)"
      using that(2) by (simp add: fun_eq_iff unmap_range_pow)
    then show ?thesis using unmapped [of "2 ^ m" k "trans_entry d" v] that(1) by simp
  qed
  have keep: "spec_step (trans_entry d) (Unmap_page k v) (int 0) (trans_entry d)" if "trans_entry d ?iova \<noteq> None"
    using kept [of "trans_entry d" v k] that by simp
  from g have gd: "dom_ok d" "cache_ok d" by simp_all
  have "(4096 :: nat) \<le> 2 ^ k" using ks by auto
  from gd(1) this al show ?thesis
  proof (cases rule: unmap_cases)
    case sect
    show ?thesis
    proof (cases "k = 20")
      case True
      then have e: "d' = put_entry d ?i 0 (lv2entcnt d) (slpt_freed d)" "n = 2 ^ 20" using u sect by simp_all
      have "good_domain d'" using put_entry_ok [OF gd(1)] put_entry_cache [OF gd(2)] e(1) by simp
      then show ?thesis using step [of 20] True e put_entry_trans by (simp add: in_page_indices)
    next
      case False
      then have "d' = d" "n = 0" using u sect ks by auto
      then show ?thesis using keep trans_section [OF sect(1)] g by simp
    qed
  next
    case empty
    then have e: "d' = d" "n = 2 ^ k" using u ks by auto
    have "trans_entry d va = None" if "in_page k ?iova va" for va
      by (rule trans_cong_lv1) (use that ks empty(1) in \<open>auto simp: in_page_indices\<close>)
    then show ?thesis using step [of k] e g by simp
  next
    case free
    then have e: "d' = d" "n = 2 ^ 12" using u by simp_all
    have "trans_entry d va = None" if "in_page 12 ?iova va" for va
      using that free trans_page [of d va] by (simp add: in_page_indices)
    then show ?thesis using step [of 12] e g ks by auto
  next
    case small
    then have e: "d' = put_table d ?i (fill ?j 1 0 (lv2_of d ?i))" "n = 2 ^ 12" using u by simp_all
    have "table_ok (fill ?j 1 0 (lv2_of d ?i))"
      by (rule table_ok_small [OF dom_ok_table [OF gd(1) small(1)]]) (use entry_excl(4) small(2) in auto)
    then have "good_domain d'" using put_table_ok [OF gd(1) small(1)] put_table_cache gd(2) e(1) by blast
    moreover have "trans_entry d' va = (if in_page 12 ?iova va then None else trans_entry d va)" for va
      using put_table_trans [OF gd(1) small(1)] small(1) e(1) by (auto simp: in_page_indices fill_def trans_page)
    ultimately show ?thesis using step [of 12] e ks by auto
  next
    case large
    show ?thesis
    proof (cases "k = 12")
      case True
      have "trans_entry d ?iova \<noteq> None"
        using large trans_page [of d ?iova] by (simp add: page_trans_def)
      then show ?thesis using keep large(3) u True g by simp
    next
      case False
      then have al16: "take_bit 16 ?iova = 0" and "16 \<le> k" using al ks by auto
      have e: "d' = put_table d ?i (fill ?j 16 0 (lv2_of d ?i))" "n = 2 ^ 16" using u large(3) False ks by auto
      note j = aligned_index(1) [OF al16]
      have "table_ok (fill ?j 16 0 (lv2_of d ?i))"
        by (rule table_ok_group [OF dom_ok_table [OF gd(1) large(1)] j]) simp
      then have "good_domain d'" using put_table_ok [OF gd(1) large(1)] put_table_cache gd(2) e(1) by blast
      moreover have "trans_entry d' va = (if in_page 16 ?iova va then None else trans_entry d va)" for va
        using put_table_trans [OF gd(1) large(1)] large(1) e(1) group_bounds [OF j]
        by (simp add: in_page_indices fill_def trans_page)
      ultimately show ?thesis using step [of 16] e \<open>16 \<le> k\<close> by auto
    qed
  qed
qed

text \<open>A page just mapped is unmapped whole.\<close>

lemma unmap_section_size:
  "lv1ent_section (page_table d (lv1ent_offset (ucast v))) \<Longrightarrow> snd (samsung_sysmmu_unmap d v SECT_SIZE) = SECT_SIZE"
  by (simp add: samsung_sysmmu_unmap_def Let_def)

lemma unmap_lv2_size:
  assumes "lv1ent_page (page_table d (lv1ent_offset (ucast v)))"
    and "lv2ent_small (lv2_of d (lv1ent_offset (ucast v)) (lv2ent_offset (ucast v))) \<and> sz = 4096 \<or>
      lv2ent_large (lv2_of d (lv1ent_offset (ucast v)) (lv2ent_offset (ucast v))) \<and> sz = 65536"
  shows "snd (samsung_sysmmu_unmap d v sz) = sz"
  using assms entry_excl by (auto simp: samsung_sysmmu_unmap_def Let_def lv2_get_def)

lemma unmap_after_map:
  assumes g: "good_domain d" and k: "op_ok (Map_page k v p c q)"
    and m: "samsung_sysmmu_map d v p (2 ^ k) c q = Some (d', 0)"
  shows "snd (samsung_sysmmu_unmap d' v (2 ^ k)) = 2 ^ k"
proof -
  let ?i = "lv1ent_offset (ucast v)" and ?j = "lv2ent_offset (ucast v)"
  from g have gd: "dom_ok d" "cache_ok d" by simp_all
  consider (s) "k = 20" "page_addr 20 p" | (t) "k = 12 \<and> page_addr 12 p \<or> k = 16 \<and> page_addr 16 p \<and> take_bit 16 (ucast v :: u32) = 0"
    using k by (auto simp: page_size_def)
  then show ?thesis
  proof cases
    case s
    then have "lv1set_section d ?i p (c \<and> \<not> q) = (d', 0)" using m by (simp add: samsung_sysmmu_map_def Let_def)
    then have "lv1ent_section (page_table d' ?i)"
      using section_pte(1) [OF s(2)] unfolding section_eq [OF gd(1)] put_entry_def by (auto split: if_splits)
    then show ?thesis using unmap_section_size s(1) by simp
  next
    case t
    then have sz: "(2 :: nat) ^ k \<noteq> 1048576" by auto
    from gd show ?thesis
    proof (cases rule: alloc_lv2entry_cases [where i = ?i])
      case (table d1)
      then have l: "lv2set_page d1 ?i ?j p (2 ^ k) (c \<and> \<not> q) = (d', 0)"
        using m sz by (simp add: samsung_sysmmu_map_def Let_def)
      have "page_table d' = page_table d1 \<and>
        (lv2ent_small (lv2_of d' ?i ?j) \<and> k = 12 \<or> lv2ent_large (lv2_of d' ?i ?j) \<and> k = 16)"
        using t
      proof
        assume 12: "k = 12 \<and> page_addr 12 p"
        show ?thesis using l 12 small_pte(1) table(6)
          by (auto simp: lv2set_small [OF table(3,6) _ lv_bounds] fill_def split: if_splits)
      next
        assume 16: "k = 16 \<and> page_addr 16 p \<and> take_bit 16 (ucast v :: u32) = 0"
        show ?thesis using l 16 large_pte(1) table(6)
          by (auto simp: lv2set_large [OF table(3,6) _ aligned_index(2)] fill_def split: if_splits)
      qed
      then show ?thesis using unmap_lv2_size [of d' v "2 ^ k"] table(6) by auto
    qed (use m sz in \<open>auto simp: samsung_sysmmu_map_def Let_def\<close>)
  qed
qed

interpretation sysmmu: address_space good_domain trans_entry samsung_sysmmu_map samsung_sysmmu_unmap
  by unfold_locales (use map_spec unmap_spec unmap_after_map in blast)+

subsection \<open>Properties\<close>

text \<open>A new domain with the slab memory it will be given.\<close>

definition slab_ok :: "u64 list \<Rightarrow> bool" where
  "slab_ok cache \<longleftrightarrow> distinct (filter (\<lambda>p. p \<noteq> 0) cache) \<and> (\<forall>p \<in> set cache. p \<noteq> 0 \<longrightarrow> page_addr 10 p)"

lemma fresh_domain:
  assumes "samsung_sysmmu_domain_alloc a b c e cache = Some d" and "slab_ok cache"
  shows "good_domain d" "trans_entry d = (\<lambda>_. None)"
  using assms by (auto simp: samsung_sysmmu_domain_alloc_def slab_ok_def dom_ok_def cache_ok_def
      trans_entry_def Let_def fun_eq_iff split: if_splits)

text \<open>
  C12. Refinement. Along any sequence of maps and unmaps of aligned pages on a new domain, the
  driver returns from every call, and with what it returns it does what an address space may do:
  a page is mapped only where nothing was mapped, an overlap is refused with \<open>EADDRINUSE\<close> and
  changes nothing, and unmapping removes exactly what it reports. The translation the driver
  computes from its tables at the end is the translation of the specification.
\<close>

theorem sysmmu_refines_address_space:
  assumes "samsung_sysmmu_domain_alloc True True True True cache = Some d" and "slab_ok cache"
    and "list_all op_ok ops"
  shows "\<exists>d' rs t. space_run samsung_sysmmu_map samsung_sysmmu_unmap ops d = Some (d', rs) \<and>
    spec_run (\<lambda>_. None) ops rs t \<and>
    (\<forall>v. samsung_sysmmu_iova_to_phys d' v = (case t (ucast v) of None \<Rightarrow> 0 | Some p \<Rightarrow> p))"
proof -
  note f = fresh_domain [OF assms(1,2)]
  obtain d' rs where "space_run samsung_sysmmu_map samsung_sysmmu_unmap ops d = Some (d', rs)"
    "spec_run (trans_entry d) ops rs (trans_entry d')"
    using sysmmu.run_refines [OF f(1) assms(3)] by blast
  then show ?thesis using f(2) iova_to_phys_trans by metis
qed

theorem sysmmu_refines_address_space_witness:
  "\<exists>d' rs t. space_run samsung_sysmmu_map samsung_sysmmu_unmap
      [Map_page 16 0x30000 0x880010000 True False, Map_page 12 0x35000 0x1000 False False, Unmap_page 20 0x100000]
      (the (samsung_sysmmu_domain_alloc True True True True [0x400, 0x800])) = Some (d', rs) \<and>
    spec_run (\<lambda>_. None)
      [Map_page 16 0x30000 0x880010000 True False, Map_page 12 0x35000 0x1000 False False, Unmap_page 20 0x100000] rs t \<and>
    (\<forall>v. samsung_sysmmu_iova_to_phys d' v = (case t (ucast v) of None \<Rightarrow> 0 | Some p \<Rightarrow> p))"
  by (rule sysmmu_refines_address_space [where cache = "[0x400, 0x800]"])
    (simp_all add: samsung_sysmmu_domain_alloc_def slab_ok_def page_size_def page_addr_def take_bit_eq_mask mask_eq_exp_minus_1)

text \<open>
  C13. Round trip. After a page was mapped, every address in it translates to the same offset
  from the physical address given, every other address as before; unmapping it then reports its
  whole size and restores the translation there was.
\<close>

theorem sysmmu_map_unmap_roundtrip:
  assumes "dom_ok d" and "cache_ok d" and "op_ok (Map_page k v p c q)"
    and "samsung_sysmmu_map d v p (2 ^ k) c q = Some (d', 0)"
  shows "(\<forall>w. samsung_sysmmu_iova_to_phys d' w =
      (if in_page k (ucast v) (ucast w) then p + ucast (take_bit k (ucast w :: u32)) else samsung_sysmmu_iova_to_phys d w)) \<and>
    (\<exists>d''. samsung_sysmmu_unmap d' v (2 ^ k) = (d'', 2 ^ k) \<and>
      (\<forall>w. samsung_sysmmu_iova_to_phys d'' w = samsung_sysmmu_iova_to_phys d w))"
proof -
  have "spec_step (trans_entry d) (Map_page k v p c q) 0 (trans_entry d')"
    using map_spec [OF conjI [OF assms(1,2)] assms(3)] assms(4) by auto
  then have m: "trans_entry d' = map_page k (ucast v) p (trans_entry d)"
    by (auto elim: spec_mapE)
  obtain d'' n where u: "samsung_sysmmu_unmap d' v (2 ^ k) = (d'', n)" by fastforce
  have "n = 2 ^ k \<and> trans_entry d'' = trans_entry d"
    using sysmmu.map_then_unmap [OF conjI [OF assms(1,2)] assms(3,4) u] .
  then show ?thesis using u m by (simp add: iova_to_phys_trans map_page_def)
qed

theorem sysmmu_map_unmap_roundtrip_witness:
  "\<exists>d d' d''. samsung_sysmmu_domain_alloc True True True True [0x400] = Some d \<and>
    samsung_sysmmu_map d 0x12345000 0x880001000 (2 ^ 12) True False = Some (d', 0) \<and>
    samsung_sysmmu_iova_to_phys d' 0x12345678 = 0x880001678 \<and>
    samsung_sysmmu_unmap d' 0x12345000 (2 ^ 12) = (d'', 2 ^ 12) \<and>
    samsung_sysmmu_iova_to_phys d'' 0x12345678 = 0"
proof -
  let ?d = "the (samsung_sysmmu_domain_alloc True True True True [0x400])"
  have d: "samsung_sysmmu_domain_alloc True True True True [0x400] = Some ?d"
    by (simp add: samsung_sysmmu_domain_alloc_def)
  have ok: "slab_ok [0x400]" by (simp add: slab_ok_def page_addr_def take_bit_eq_mask mask_eq_exp_minus_1)
  note f = fresh_domain [OF d ok]
  obtain d' where m: "samsung_sysmmu_map ?d 0x12345000 0x880001000 (2 ^ 12) True False = Some (d', 0)"
    by (simp add: samsung_sysmmu_domain_alloc_def samsung_sysmmu_map_def alloc_lv2entry_def lv2set_page_def
        lv2_get_def Let_def)
  have k: "op_ok (Map_page 12 0x12345000 0x880001000 True False)"
    by (simp add: page_size_def page_addr_def take_bit_eq_mask mask_eq_exp_minus_1)
  note r = sysmmu_map_unmap_roundtrip [OF conjunct1 [OF f(1)] conjunct2 [OF f(1)] k m]
  have "samsung_sysmmu_iova_to_phys ?d 0x12345678 = 0" by (simp add: iova_to_phys_trans f(2))
  moreover have "samsung_sysmmu_iova_to_phys d' 0x12345678 = 0x880001678"
  proof -
    have "\<forall>w. samsung_sysmmu_iova_to_phys d' w = (if in_page 12 0x12345000 (ucast w) then
        0x880001000 + ucast (take_bit 12 (ucast w :: u32)) else samsung_sysmmu_iova_to_phys ?d w)"
      using r by simp
    then show ?thesis by (simp add: take_bit_eq_mask mask_eq_exp_minus_1)
  qed
  ultimately show ?thesis using d m r by metis
qed

end
