(* ===== verification/SysmmuPages.thy ===== *)
theory SysmmuPages
  imports SysmmuProps
begin

text \<open>
  Second level tables as memory, and the unmapping of runs of pages: every table taken from the
  slab cache is given back exactly once, \<^verbatim>\<open>samsung_sysmmu_unmap_pages\<close> empties exactly a range that
  is mapped throughout, and over a range with holes it lets the entry counter go wrong.
\<close>

subsection \<open>Tables taken and given back\<close>

definition live :: "(nat \<Rightarrow> u32) \<Rightarrow> u64 multiset" where
  "live pt = (\<Sum>i<NUM_LV1ENTRIES. if lv1ent_page (pt i) then {#lv2table_base (pt i)#} else {#})"

lemma mset_map_filter:
  "mset (map f (filter P [0..<n])) = (\<Sum>i<n. if P i then {#f i#} else {#})"
  by (induction n) (simp_all add: add.commute)

lemma domain_free_live: "mset (samsung_sysmmu_domain_free d) = mset (slpt_freed d) + live (page_table d)"
  unfolding samsung_sysmmu_domain_free_def live_def mset_append mset_map_filter ..

lemma live_upd:
  assumes "i < 4096"
  shows "live (pt(i := e)) + (if lv1ent_page (pt i) then {#lv2table_base (pt i)#} else {#}) =
    live pt + (if lv1ent_page e then {#lv2table_base e#} else {#})"
proof -
  let ?f = "\<lambda>pt i. if lv1ent_page (pt i) then {#lv2table_base (pt i)#} else {#}"
  have r: "live q = ?f q i + (\<Sum>k\<in>{..<4096} - {i}. ?f q k)" for q
    unfolding live_def using assms by (intro sum.remove) simp_all
  have "(\<Sum>k\<in>{..<4096} - {i}. ?f (pt(i := e)) k) = (\<Sum>k\<in>{..<4096} - {i}. ?f pt k)"
    by (rule sum.cong) auto
  then show ?thesis unfolding r [of pt] r [of "pt(i := e)"] by simp
qed

text \<open>What the slab still holds, with what was freed or is in use.\<close>

definition tables :: "samsung_sysmmu_domain \<Rightarrow> u64 multiset" where
  "tables d = mset (filter (\<lambda>p. p \<noteq> 0) (slpt_cache d)) + mset (samsung_sysmmu_domain_free d)"

lemma tables_eq: "tables d = mset (filter (\<lambda>p. p \<noteq> 0) (slpt_cache d)) + mset (slpt_freed d) + live (page_table d)"
  by (simp add: tables_def domain_free_live)

lemma tables_cong:
  "page_table d' = page_table d \<Longrightarrow> slpt_cache d' = slpt_cache d \<Longrightarrow> slpt_freed d' = slpt_freed d \<Longrightarrow> tables d' = tables d"
  by (simp add: tables_eq)

definition same_lv1 :: "samsung_sysmmu_domain \<Rightarrow> samsung_sysmmu_domain \<Rightarrow> bool" where
  "same_lv1 d d' \<longleftrightarrow> page_table d' = page_table d \<and> slpt_cache d' = slpt_cache d \<and> slpt_freed d' = slpt_freed d"

lemma same_lv1_refl [simp]: "same_lv1 d d"
  by (simp add: same_lv1_def)

lemma same_lv1_trans: "same_lv1 a b \<Longrightarrow> same_lv1 b c \<Longrightarrow> same_lv1 a c"
  by (simp add: same_lv1_def)

lemma same_lv1_ops [simp]:
  "same_lv1 d (lv2_set d sent j v)" "same_lv1 d (lv2_clear d sent j n)"
  "same_lv1 d (add_count i c d') = same_lv1 d d'"
  by (simp_all add: same_lv1_def lv2_set_def lv2_clear_def add_count_def)

lemma same_lv1_lpage: "same_lv1 d (fst (set_lpage d sent j v k))"
proof (induction d sent j v k rule: set_lpage.induct)
  case (1 d sent j v k)
  show ?case
  proof (cases "16 \<le> k \<or> \<not> lv2ent_unmapped (lv2_get d sent (j + k))")
    case True
    then show ?thesis by (subst set_lpage.simps) auto
  next
    case False
    then have "same_lv1 (lv2_set d sent (j + k) v) (fst (set_lpage (lv2_set d sent (j + k) v) sent j v (k + 1)))"
      using 1 by simp
    then show ?thesis using False same_lv1_trans [OF same_lv1_ops(1)] by (subst set_lpage.simps) simp
  qed
qed

lemma same_lv1_lv2set: "same_lv1 d (fst (lv2set_page d i j p sz c))"
proof -
  obtain d1 r where "set_lpage d (page_table d i) j (make_sysmmu_pte p LPAGE_FLAG (if c then 0x10 else 0)) 0 = (d1, r)"
    by fastforce
  moreover from this have "same_lv1 d d1" using same_lv1_lpage by (metis fst_conv)
  ultimately show ?thesis by (simp add: lv2set_page_def Let_def)
qed

lemma same_lv1_slpt: "same_lv1 d (unmap_slpt d i iova iend)"
proof (induction d i iova iend rule: unmap_slpt.induct)
  case (1 d i iova iend)
  show ?case
  proof (cases "iova \<ge> iend")
    case True
    then show ?thesis by (simp add: unmap_slpt.simps)
  next
    case False
    note IH = 1 [OF False refl refl refl]
    show ?thesis using False same_lv1_trans [OF _ IH] by (subst unmap_slpt.simps) (simp add: Let_def)
  qed
qed

text \<open>Calls of the driver, pages of any size and in any order.\<close>

datatype sysmmu_call =
  Call_map u64 u64 nat bool bool
| Call_unmap u64 nat
| Call_unmap_pages nat nat nat

fun call_ok :: "sysmmu_call \<Rightarrow> bool" where
  "call_ok (Call_map v p sz c q) \<longleftrightarrow> sz = SECT_SIZE \<longrightarrow> page_addr 20 p"
| "call_ok _ \<longleftrightarrow> True"

fun sysmmu_exec :: "sysmmu_call \<Rightarrow> samsung_sysmmu_domain \<Rightarrow> samsung_sysmmu_domain option" where
  "sysmmu_exec (Call_map v p sz c q) d = map_option fst (samsung_sysmmu_map d v p sz c q)"
| "sysmmu_exec (Call_unmap v sz) d = Some (fst (samsung_sysmmu_unmap d v sz))"
| "sysmmu_exec (Call_unmap_pages iova pgsize pgcount) d = Some (fst (samsung_sysmmu_unmap_pages d iova pgsize pgcount))"

fun sysmmu_calls :: "sysmmu_call list \<Rightarrow> samsung_sysmmu_domain \<Rightarrow> samsung_sysmmu_domain option" where
  "sysmmu_calls [] d = Some d"
| "sysmmu_calls (c # cs) d = (case sysmmu_exec c d of None \<Rightarrow> None | Some d1 \<Rightarrow> sysmmu_calls cs d1)"

text \<open>The accounts of one call; \<open>aligned_slab\<close> is kept with them.\<close>

definition aligned_slab :: "samsung_sysmmu_domain \<Rightarrow> bool" where
  "aligned_slab d \<longleftrightarrow> (\<forall>p \<in> set (slpt_cache d). p \<noteq> 0 \<longrightarrow> page_addr 10 p)"

definition balanced :: "samsung_sysmmu_domain \<Rightarrow> samsung_sysmmu_domain \<Rightarrow> bool" where
  "balanced d d' \<longleftrightarrow> tables d' = tables d \<and> (aligned_slab d \<longrightarrow> aligned_slab d')"

lemma balanced_same: "same_lv1 d d' \<Longrightarrow> balanced d d'"
  by (simp add: same_lv1_def balanced_def tables_eq aligned_slab_def)

lemma balanced_trans: "balanced a b \<Longrightarrow> balanced b c \<Longrightarrow> balanced a c"
  by (simp add: balanced_def)

lemma balanced_clear:
  assumes "\<not> lv1ent_page (page_table d i)"
  shows "balanced d (d\<lparr>page_table := (page_table d)(i := 0)\<rparr>)"
proof -
  have "live ((page_table d)(i := 0)) = live (page_table d)"
  proof (cases "i < 4096")
    case True
    then show ?thesis using live_upd [OF True, of "page_table d" 0] assms by simp
  next
    case False
    then show ?thesis unfolding live_def by (intro sum.cong) auto
  qed
  then show ?thesis by (simp add: balanced_def tables_eq aligned_slab_def)
qed

lemma balanced_alloc:
  assumes "aligned_slab d" and "i < 4096"
  shows "alloc_lv2entry d i = Some (Inl (e, d')) \<Longrightarrow> balanced d d'"
    and "alloc_lv2entry d i = Some (Inr d') \<Longrightarrow> balanced d d'"
proof -
  show "alloc_lv2entry d i = Some (Inl (e, d')) \<Longrightarrow> balanced d d'"
    by (auto simp: alloc_lv2entry_def balanced_def tables_eq aligned_slab_def Let_def split: if_splits list.splits)
  assume a: "alloc_lv2entry d i = Some (Inr d')"
  show "balanced d d'"
  proof (cases "d' = d")
    case True
    then show ?thesis by (simp add: balanced_def)
  next
    case False
    then obtain p ps where c: "slpt_cache d = p # ps" "p \<noteq> 0" "d' = new_table d i p ps" "\<not> lv1ent_page (page_table d i)"
      using a entry_excl(2) [of "page_table d i"]
      by (auto simp: alloc_lv2entry_def new_table_def Let_def split: if_splits list.splits)
    then have p: "page_addr 10 p" using assms(1) by (simp add: aligned_slab_def)
    show ?thesis using live_upd [OF assms(2), of "page_table d" "make_sysmmu_pte p 1 0"] c table_pte [OF p]
      by (simp add: balanced_def tables_eq aligned_slab_def new_table_def)
  qed
qed

lemma balanced_section:
  assumes "page_addr 20 p" and "i < 4096"
  shows "balanced d (fst (lv1set_section d i p c))"
proof -
  let ?e = "make_sysmmu_pte p 2 (if c then 0x40 else 0)"
  have "\<not> lv1ent_page ?e" using section_pte(2) [OF assms(1)] by simp
  then show ?thesis using live_upd [OF assms(2), of "page_table d" ?e] entry_excl(1) [of "page_table d i"]
    by (simp add: lv1set_section_def balanced_def tables_eq aligned_slab_def Let_def split del: if_split)
      (simp split: if_splits)
qed

lemma balanced_unmap_pages: "balanced d (fst (samsung_sysmmu_unmap_pages d iova pgsize pgcount))"
proof -
  have "balanced d (unmap_sections d iova n)" for n
  proof (induction d iova n rule: unmap_sections.induct)
    case (2 d iova n)
    let ?i = "iova div SECT_SIZE"
    let ?d = "if lv1ent_page (page_table d ?i) then unmap_slpt d ?i iova (iova + SECT_SIZE)
      else d\<lparr>page_table := (page_table d)(?i := 0)\<rparr>"
    have "balanced d ?d" using balanced_same [OF same_lv1_slpt] balanced_clear by simp
    then show ?case using balanced_trans [OF _ 2 [OF refl]] by (simp add: Let_def)
  qed (simp add: balanced_def)
  then show ?thesis using balanced_same [OF same_lv1_slpt] by (simp add: samsung_sysmmu_unmap_pages_def Let_def)
qed

lemma balanced_exec:
  assumes "call_ok c" and "aligned_slab d" and "sysmmu_exec c d = Some d'"
  shows "balanced d d'"
proof (cases c)
  case (Call_map v p sz ca q)
  let ?i = "lv1ent_offset (ucast v)"
  show ?thesis
  proof (cases "sz = SECT_SIZE")
    case True
    then show ?thesis using balanced_section [OF _ lv1_bound, of p d "ucast v"] assms(1,3) Call_map
      by (auto simp: samsung_sysmmu_map_def Let_def)
  next
    case False
    then show ?thesis
      using assms(3) Call_map balanced_alloc [OF assms(2) lv1_bound]
        balanced_trans [OF balanced_alloc(2) [OF assms(2) lv1_bound] balanced_same [OF same_lv1_lv2set]]
      by (auto simp: samsung_sysmmu_map_def Let_def split: option.splits sum.splits) (metis fst_conv)
  qed
next
  case (Call_unmap v sz)
  then show ?thesis using assms(3) balanced_same balanced_clear entry_excl(1)
    by (auto simp: samsung_sysmmu_unmap_def Let_def)
next
  case (Call_unmap_pages iova pgsize pgcount)
  then show ?thesis using assms(3) balanced_unmap_pages by auto
qed

lemma balanced_calls:
  assumes "list_all call_ok cs" and "aligned_slab d" and "sysmmu_calls cs d = Some d'"
  shows "balanced d d'"
  using assms
proof (induction cs arbitrary: d)
  case Nil
  then show ?case by (simp add: balanced_def)
next
  case (Cons c cs)
  then obtain d1 where d1: "sysmmu_exec c d = Some d1" "sysmmu_calls cs d1 = Some d'" by (auto split: option.splits)
  then have "balanced d d1" using balanced_exec [of c d d1] Cons.prems by simp
  moreover from this have "aligned_slab d1" using Cons.prems by (simp add: balanced_def)
  then have "balanced d1 d'" using Cons.IH [OF _ _ d1(2)] Cons.prems by simp
  ultimately show ?case by (rule balanced_trans)
qed

text \<open>
  C14. No second level table leaks or is freed twice: after any calls of map, unmap and unmap of
  page runs on a new domain, the tables \<^verbatim>\<open>samsung_sysmmu_domain_free\<close> gives back, with those a section
  mapping freed before, are exactly the tables taken from the slab cache, each once.
\<close>

theorem sysmmu_tables_freed_once:
  assumes "samsung_sysmmu_domain_alloc True True True True cache = Some d" and "slab_ok cache"
    and "list_all call_ok cs" and "sysmmu_calls cs d = Some d'"
  shows "mset (filter (\<lambda>p. p \<noteq> 0) cache) =
      mset (filter (\<lambda>p. p \<noteq> 0) (slpt_cache d')) + mset (samsung_sysmmu_domain_free d') \<and>
    distinct (samsung_sysmmu_domain_free d')"
proof -
  have d: "slpt_cache d = cache" "slpt_freed d = []" "page_table d = (\<lambda>_. 0)"
    using assms(1) by (auto simp: samsung_sysmmu_domain_alloc_def)
  then have "tables d = mset (filter (\<lambda>p. p \<noteq> 0) cache)" by (simp add: tables_eq live_def)
  moreover have "aligned_slab d" using assms(2) d(1) by (simp add: aligned_slab_def slab_ok_def)
  ultimately have t: "tables d' = mset (filter (\<lambda>p. p \<noteq> 0) cache)"
    using balanced_calls [OF assms(3) _ assms(4)] by (simp add: balanced_def)
  then have m: "mset (filter (\<lambda>p. p \<noteq> 0) cache) =
      mset (filter (\<lambda>p. p \<noteq> 0) (slpt_cache d') @ samsung_sysmmu_domain_free d')"
    by (simp only: tables_def mset_append)
  have "distinct (filter (\<lambda>p. p \<noteq> 0) (slpt_cache d') @ samsung_sysmmu_domain_free d')"
    by (rule mset_eq_imp_distinct_iff [OF m, THEN iffD1]) (use assms(2) in \<open>simp add: slab_ok_def\<close>)
  then have "distinct (samsung_sysmmu_domain_free d')" by (simp only: distinct_append)
  then show ?thesis using m by (simp only: mset_append)
qed

theorem sysmmu_tables_freed_once_witness:
  "\<exists>d d'. samsung_sysmmu_domain_alloc True True True True [0x400, 0, 0x800] = Some d \<and>
    sysmmu_calls [Call_map 0x1000 0x2000 4096 False False, Call_unmap 0x1000 4096,
      Call_map 0 0x100000 SECT_SIZE False False] d = Some d' \<and>
    mset (filter (\<lambda>p. p \<noteq> 0) [0x400, 0, 0x800]) =
      mset (filter (\<lambda>p. p \<noteq> 0) (slpt_cache d')) + mset (samsung_sysmmu_domain_free d')"
proof -
  let ?cs = "[Call_map 0x1000 0x2000 4096 False False, Call_unmap 0x1000 4096, Call_map 0 0x100000 SECT_SIZE False False]"
  let ?d = "the (samsung_sysmmu_domain_alloc True True True True [0x400, 0, 0x800])"
  have d: "samsung_sysmmu_domain_alloc True True True True [0x400, 0, 0x800] = Some ?d"
    by (simp add: samsung_sysmmu_domain_alloc_def)
  have ok: "slab_ok [0x400, 0, 0x800]" "list_all call_ok ?cs"
    by (simp_all add: slab_ok_def page_addr_def take_bit_eq_mask mask_eq_exp_minus_1)
  have "\<exists>d'. sysmmu_calls ?cs ?d = Some d'"
    by (simp add: samsung_sysmmu_domain_alloc_def samsung_sysmmu_map_def alloc_lv2entry_def lv2set_page_def Let_def)
  then obtain d' where r: "sysmmu_calls ?cs ?d = Some d'" ..
  show ?thesis using sysmmu_tables_freed_once [OF d ok r] d r by blast
qed

subsection \<open>Runs of pages\<close>

text \<open>Pages by their number: \<open>pent\<close> is the second level entry of page \<open>n\<close>.\<close>

definition pent :: "samsung_sysmmu_domain \<Rightarrow> nat \<Rightarrow> u32" where
  "pent d n = lv2_of d (n div 256) (n mod 256)"

text \<open>Every page from \<open>a\<close> up to \<open>b\<close> is mapped at the second level, and no 64 KB page crosses the ends.\<close>

definition full_range :: "samsung_sysmmu_domain \<Rightarrow> nat \<Rightarrow> nat \<Rightarrow> bool" where
  "full_range d a b \<longleftrightarrow> (\<forall>n. a \<le> n \<and> n < b \<longrightarrow>
     lv1ent_page (page_table d (n div 256)) \<and> pent d n \<noteq> 0 \<and>
     (lv2ent_large (pent d n) \<longrightarrow> a \<le> n div 16 * 16 \<and> n div 16 * 16 + 16 \<le> b))"

definition section_stop :: "nat \<Rightarrow> nat \<Rightarrow> nat" where
  "section_stop a b = min b ((a div 256 + 1) * 256)"

lemma section_stop_less: "a < b \<Longrightarrow> a < section_stop a b" "section_stop a b \<le> b"
proof -
  have "a < (a div 256 + 1) * 256"
    using dividend_less_div_times [of 256 a] by (simp add: add.commute)
  then show "a < b \<Longrightarrow> a < section_stop a b" by (simp add: section_stop_def)
qed (simp add: section_stop_def)

lemma section_page:
  assumes "a \<le> n" and "n < section_stop a b"
  shows "n div 256 = a div 256" "a mod 256 \<le> n mod 256" "n mod 256 < a mod 256 + (section_stop a b - a)"
proof -
  have "n < (a div 256 + 1) * 256" using assms(2) by (simp add: section_stop_def)
  then have "n div 256 < a div 256 + 1" by (simp add: less_mult_imp_div_less)
  moreover have "a div 256 \<le> n div 256" using assms(1) by (rule div_le_mono)
  ultimately show e: "n div 256 = a div 256" by simp
  have "n = n div 256 * 256 + n mod 256" "a = a div 256 * 256 + a mod 256" by simp_all
  then show "a mod 256 \<le> n mod 256" "n mod 256 < a mod 256 + (section_stop a b - a)"
    using e assms by linarith+
qed

lemma slpt_step:
  assumes "a < b"
  shows "unmap_slpt d i (4096 * a) (4096 * b) =
    unmap_slpt (if lv1ent_page (page_table d i)
        then add_count (a div 256) (- int (section_stop a b - a))
          (lv2_fill d (page_table d i) (a mod 256) (section_stop a b - a) 0)
        else d) (i + 1) (4096 * section_stop a b) (4096 * b)"
proof -
  have 1: "(4096 * a + SECT_SIZE) div SECT_SIZE * SECT_SIZE = 4096 * ((a div 256 + 1) * 256)"
    using div_mult2_eq [of "4096 * a + SECT_SIZE" 4096 256] div_add_self2 [of 256 a] by simp
  have e: "min (4096 * b) ((4096 * a + SECT_SIZE) div SECT_SIZE * SECT_SIZE) = 4096 * section_stop a b"
    unfolding 1 section_stop_def by (simp only: nat_mult_min_right)
  have n: "(4096 * section_stop a b - 4096 * a) div SPAGE_SIZE = section_stop a b - a"
    by (simp flip: diff_mult_distrib2)
  have j: "4096 * a mod SECT_SIZE div SPAGE_SIZE = a mod 256"
    using mult_mod_right [of 4096 a 256] by simp
  have i: "4096 * a div SECT_SIZE = a div 256"
    using div_mult2_eq [of "4096 * a" 4096 256] by simp
  show ?thesis using assms unfolding unmap_slpt.simps [of d i "4096 * a"] Let_def e n j i lv2_clear_fill
    by (simp only: if_distrib [of Not] not_le mult_le_cancel1 if_False simp_thms) (simp split: if_splits)
qed

lemma used_range:
  assumes "j + n \<le> 256" and "\<And>k. j \<le> k \<Longrightarrow> k < j + n \<Longrightarrow> t k \<noteq> 0"
  shows "used_entries t = n + used_entries (fill j n 0 t)"
proof -
  let ?R = "{k. k < 256 \<and> t k \<noteq> 0 \<and> \<not> (j \<le> k \<and> k < j + n)}"
  have "{k. k < 256 \<and> t k \<noteq> 0} = {j..<j + n} \<union> ?R" using assms by auto
  moreover have "card ({j..<j + n} \<union> ?R) = card {j..<j + n} + card ?R" by (rule card_Un_disjoint) auto
  ultimately show ?thesis using used_split [OF assms(1), of 0 t] by (simp add: used_entries_def)
qed

text \<open>The indices of the pages of one section.\<close>

lemma section_index:
  fixes a b :: nat
  defines "i \<equiv> a div 256" and "e \<equiv> section_stop a b"
  assumes "a < b"
  shows "a mod 256 + (e - a) \<le> 256"
    "a mod 256 \<le> k \<and> k < a mod 256 + (e - a) \<longleftrightarrow> a \<le> i * 256 + k \<and> i * 256 + k < e"
proof -
  have ae: "a < e" using section_stop_less(1) [OF assms(3)] by (simp add: e_def)
  define r where "r = a mod 256"
  have e: "e \<le> i * 256 + 256" and a: "a = i * 256 + r" by (simp_all add: e_def section_stop_def i_def r_def)
  have "r + (e - a) \<le> 256" "r \<le> k \<and> k < r + (e - a) \<longleftrightarrow> a \<le> i * 256 + k \<and> i * 256 + k < e"
    unfolding a using ae e a by linarith+
  then show "a mod 256 + (e - a) \<le> 256"
    "a mod 256 \<le> k \<and> k < a mod 256 + (e - a) \<longleftrightarrow> a \<le> i * 256 + k \<and> i * 256 + k < e"
    unfolding r_def by blast+
qed

lemma pent_index: "k < 256 \<Longrightarrow> pent d (i * 256 + k) = lv2_of d i k"
  by (simp add: pent_def)

text \<open>One round of \<^verbatim>\<open>unmap_slpt\<close> on a range that is mapped throughout.\<close>

lemma slpt_round_table:
  fixes d a b
  defines "i \<equiv> a div 256" and "e \<equiv> section_stop a b"
  assumes ab: "a < b" and ok: "table_ok (lv2_of d i)" and f: "full_range d a b"
  shows "table_ok (fill (a mod 256) (e - a) 0 (lv2_of d i))"
proof (rule table_ok_fill [OF ok])
  let ?j = "a mod 256"
  note n = section_index(1) [OF ab, folded i_def e_def] and idx = section_index(2) [OF ab, folded i_def e_def]
  fix k m assume k: "\<not> (?j \<le> k \<and> k < ?j + (e - a))" "lv2ent_large (lv2_of d i k)" "m div 16 = k div 16"
  show "\<not> (?j \<le> m \<and> m < ?j + (e - a))"
  proof
    assume m: "?j \<le> m \<and> m < ?j + (e - a)"
    then have N: "a \<le> i * 256 + m" "i * 256 + m < b" "m < 256"
      using idx [of m] n section_stop_less(2) [of a b] by (simp_all add: e_def)
    have "lv2ent_large (pent d (i * 256 + m))"
      using large_group [OF ok k(2,3)] k(2) pent_index [OF N(3)] by simp
    moreover have "(i * 256 + m) div 16 * 16 = i * 256 + m div 16 * 16"
      using div_mult_self3 [of 16 "i * 16" m] by (simp add: mult.commute)
    ultimately have "a \<le> i * 256 + m div 16 * 16" "i * 256 + m div 16 * 16 + 16 \<le> b"
      using f N unfolding full_range_def by (metis N(1,2))+
    moreover have "m div 16 * 16 \<le> k" "k < m div 16 * 16 + 16"
      using k(3) dividend_less_div_times [of 16 k] by simp_all
    moreover have "m div 16 * 16 + 16 \<le> 256"
      using N(3) less_mult_imp_div_less [of m 16 16] mult_le_mono1 [of "m div 16 + 1" 16 16] by simp
    ultimately have "a \<le> i * 256 + k \<and> i * 256 + k < e" by (simp add: e_def section_stop_def i_def)
    then show False using k(1) idx by blast
  qed
qed simp_all

lemma slpt_round:
  fixes d a b
  defines "i \<equiv> a div 256" and "e \<equiv> section_stop a b"
  defines "d' \<equiv> put_table d i (fill (a mod 256) (e - a) 0 (lv2_of d i))"
  assumes ab: "a < b" and ok: "dom_ok d" and f: "full_range d a b"
  shows "unmap_slpt d i (4096 * a) (4096 * b) = unmap_slpt d' (i + 1) (4096 * e) (4096 * b)"
    "dom_ok d'" "full_range d' e b"
    "\<And>va. trans_entry d' va = (if a \<le> vpn va \<and> vpn va < e then None else trans_entry d va)"
proof -
  let ?j = "a mod 256" and ?t = "lv2_of d i"
  note n = section_index(1) [OF ab, folded i_def e_def] and idx = section_index(2) [OF ab, folded i_def e_def]
  have eb: "e \<le> b" by (simp add: e_def section_stop_less)
  have page: "lv1ent_page (page_table d i)" using f ab by (simp add: full_range_def i_def)
  have used: "?t k \<noteq> 0" if "?j \<le> k" "k < ?j + (e - a)" for k
  proof -
    have "a \<le> i * 256 + k" "i * 256 + k < b" "k < 256"
      using idx [THEN iffD1, OF conjI [OF that]] that n eb by auto
    then show ?thesis using f pent_index [of k d i] unfolding full_range_def by metis
  qed
  show "unmap_slpt d i (4096 * a) (4096 * b) = unmap_slpt d' (i + 1) (4096 * e) (4096 * b)"
    using slpt_step [OF ab, of d i] page used_range [OF n used] dom_ok_count [OF ok page]
    by (simp add: d'_def put_table_def add_count_def lv2_fill_def e_def [symmetric] i_def [symmetric])
  show "dom_ok d'"
    unfolding d'_def using slpt_round_table [OF ab _ f] dom_ok_table [OF ok page]
    by (intro put_table_ok [OF ok page]) (simp add: i_def e_def)
  show "full_range d' e b"
    unfolding full_range_def
  proof (intro allI impI)
    fix m assume m: "e \<le> m \<and> m < b"
    then have e: "e = 256 * (i + 1)" by (simp add: e_def section_stop_def i_def min_def split: if_splits)
    then have i: "m div 256 \<noteq> i" using m by auto
    have "a \<le> m" using m section_stop_less(1) [OF ab] by (simp add: e_def)
    then have old: "lv1ent_page (page_table d (m div 256)) \<and> pent d m \<noteq> 0 \<and>
        (lv2ent_large (pent d m) \<longrightarrow> a \<le> m div 16 * 16 \<and> m div 16 * 16 + 16 \<le> b)"
      using f m unfolding full_range_def by blast
    moreover have "pent d' m = pent d m"
      using put_table_lv2 [OF ok page conjunct1 [OF old]] i by (simp add: pent_def d'_def)
    moreover have "e \<le> m div 16 * 16" using div_le_mono [of e m 16] m e by simp
    ultimately show "lv1ent_page (page_table d' (m div 256)) \<and> pent d' m \<noteq> 0 \<and>
        (lv2ent_large (pent d' m) \<longrightarrow> e \<le> m div 16 * 16 \<and> m div 16 * 16 + 16 \<le> b)"
      by (simp add: d'_def)
  qed
  show "trans_entry d' va = (if a \<le> vpn va \<and> vpn va < e then None else trans_entry d va)" for va
  proof (cases "lv1ent_offset va = i")
    case True
    then have "vpn va = i * 256 + lv2ent_offset va" by (simp add: lv1_vpn lv2_vpn flip: True)
    then show ?thesis using put_table_trans [OF ok page] idx [of "lv2ent_offset va"] True page
      by (simp add: d'_def fill_def trans_page)
  next
    case False
    then have "\<not> (a \<le> vpn va \<and> vpn va < e)"
      using section_page(1) [of a "vpn va" b] by (auto simp: e_def i_def lv1_vpn)
    then show ?thesis using put_table_trans [OF ok page] False by (auto simp: d'_def)
  qed
qed

lemma slpt_full:
  assumes "a \<le> b" and "dom_ok d" and "full_range d a b"
  shows "dom_ok (unmap_slpt d (a div 256) (4096 * a) (4096 * b)) \<and>
    (\<forall>va. trans_entry (unmap_slpt d (a div 256) (4096 * a) (4096 * b)) va =
      (if a \<le> vpn va \<and> vpn va < b then None else trans_entry d va))"
  using assms
proof (induction "b - a" arbitrary: a d rule: less_induct)
  case less
  show ?case
  proof (cases "a = b")
    case True
    then show ?thesis using less.prems by (auto simp: unmap_slpt.simps)
  next
    case False
    let ?e = "section_stop a b"
    let ?d = "put_table d (a div 256) (fill (a mod 256) (?e - a) 0 (lv2_of d (a div 256)))"
    have ab: "a < b" using False less.prems by simp
    note r = slpt_round [OF ab less.prems(2,3)] and e = section_stop_less(1) [OF ab] section_stop_less(2) [of a b]
    have IH: "dom_ok (unmap_slpt ?d (?e div 256) (4096 * ?e) (4096 * b)) \<and>
      (\<forall>va. trans_entry (unmap_slpt ?d (?e div 256) (4096 * ?e) (4096 * b)) va =
        (if ?e \<le> vpn va \<and> vpn va < b then None else trans_entry ?d va))"
      using less.hyps [OF _ e(2) r(2,3)] e ab by simp
    have "unmap_slpt ?d (a div 256 + 1) (4096 * ?e) (4096 * b) = unmap_slpt ?d (?e div 256) (4096 * ?e) (4096 * b)"
    proof (cases "?e = b")
      case True
      then show ?thesis by (simp add: unmap_slpt.simps)
    next
      case False
      then have "?e = 256 * (a div 256 + 1)" by (simp add: section_stop_def min_def split: if_splits)
      then have "?e div 256 = a div 256 + 1" by (metis nonzero_mult_div_cancel_left zero_neq_numeral)
      then show ?thesis by simp
    qed
    then show ?thesis using IH r(4) e unfolding r(1) by auto
  qed
qed

text \<open>
  Unmapping a run of 4 KB or 64 KB pages that is mapped throughout removes exactly the run: no
  address in it translates any more, every other address as before, and the counters stay exact.
\<close>

theorem sysmmu_unmap_pages_exact:
  assumes "dom_ok d" and "pgsize = 4096 \<or> pgsize = 65536" and "iova mod 4096 = 0"
    and "full_range d (iova div 4096) ((iova + pgsize * pgcount) div 4096)"
  shows "\<exists>d'. samsung_sysmmu_unmap_pages d iova pgsize pgcount = (d', pgsize * pgcount) \<and> dom_ok d' \<and>
    (\<forall>v. samsung_sysmmu_iova_to_phys d' v =
      (if iova \<le> unat (ucast v :: u32) \<and> unat (ucast v :: u32) < iova + pgsize * pgcount then 0
       else samsung_sysmmu_iova_to_phys d v))"
proof -
  define a where "a = iova div 4096"
  define b where "b = (iova + pgsize * pgcount) div 4096"
  obtain q where q: "pgsize = 4096 * q" using assms(2) by (auto intro: that [of 1] that [of 16])
  have a: "iova = 4096 * a" using assms(3) by (auto simp: a_def)
  then have "iova + pgsize * pgcount = 4096 * (a + q * pgcount)" using q by (simp add: algebra_simps)
  then have b: "iova + pgsize * pgcount = 4096 * b" by (simp add: b_def)
  have r: "samsung_sysmmu_unmap_pages d iova pgsize pgcount =
      (unmap_slpt d (a div 256) (4096 * a) (4096 * b), pgsize * pgcount)"
    unfolding samsung_sysmmu_unmap_pages_def Let_def b using assms(2) a div_mult2_eq [of "4096 * a" 4096 256] by auto
  have "4096 * a \<le> 4096 * b" using a b by linarith
  then have f: "dom_ok (unmap_slpt d (a div 256) (4096 * a) (4096 * b)) \<and>
    (\<forall>va. trans_entry (unmap_slpt d (a div 256) (4096 * a) (4096 * b)) va =
      (if a \<le> vpn va \<and> vpn va < b then None else trans_entry d va))"
    using slpt_full [OF _ assms(1,4) [folded a_def b_def]] by simp
  have v: "a \<le> vpn va \<and> vpn va < b \<longleftrightarrow> iova \<le> unat va \<and> unat va < iova + pgsize * pgcount" for va
    unfolding b unfolding a vpn_div by (simp add: less_eq_div_iff_mult_less_eq div_less_iff_less_mult mult.commute)
  show ?thesis using r f unfolding v by (simp add: iova_to_phys_trans)
qed

text \<open>A domain with one page mapped, for the witnesses.\<close>

lemma one_page_domain:
  obtains d where "dom_ok d" "page_table d = (\<lambda>_. 0)(0 := 0x41)" "slpt d 0x400 = (\<lambda>_. 0)(1 := 0x202)"
    "lv1ent_page 0x41" "lv2table_base 0x41 = 0x400"
proof -
  let ?d = "the (samsung_sysmmu_domain_alloc True True True True [0x400])"
  have d: "samsung_sysmmu_domain_alloc True True True True [0x400] = Some ?d"
    by (simp add: samsung_sysmmu_domain_alloc_def)
  have ok: "slab_ok [0x400]" "op_ok (Map_page 12 0x1000 0x2000 False False)"
    by (simp_all add: slab_ok_def page_size_def page_addr_def take_bit_eq_mask mask_eq_exp_minus_1)
  have e: "lv1ent_page 0x41" "lv2table_base 0x41 = 0x400"
    by (simp_all add: lv1ent_page_def lv2table_base_def)
  have "\<exists>d'. samsung_sysmmu_map ?d 0x1000 0x2000 (2 ^ 12) False False = Some (d', 0) \<and>
      page_table d' = (\<lambda>_. 0)(0 := 0x41) \<and> slpt d' 0x400 = (\<lambda>_. 0)(1 := 0x202)"
    by (simp add: samsung_sysmmu_domain_alloc_def samsung_sysmmu_map_def alloc_lv2entry_def lv2set_page_def
        lv2_get_def lv2_set_def add_count_def make_sysmmu_pte_def lv1ent_offset_def lv2ent_offset_def e
        take_bit_eq_mask mask_eq_exp_minus_1 drop_bit_eq_div Let_def)
  then show thesis using that map_spec [OF fresh_domain(1) [OF d ok(1)] ok(2)] e by auto
qed

theorem sysmmu_unmap_pages_exact_witness:
  "\<exists>d d'. full_range d 1 2 \<and> samsung_sysmmu_unmap_pages d 4096 4096 1 = (d', 4096) \<and>
    samsung_sysmmu_iova_to_phys d 0x1234 = 0x2234 \<and> samsung_sysmmu_iova_to_phys d' 0x1234 = 0"
proof -
  obtain d where d: "dom_ok d" "page_table d = (\<lambda>_. 0)(0 := 0x41)" "slpt d 0x400 = (\<lambda>_. 0)(1 := 0x202)"
    "lv1ent_page 0x41" "lv2table_base 0x41 = 0x400"
    by (rule one_page_domain)
  have f: "full_range d 1 2"
    unfolding full_range_def
  proof (intro allI impI)
    fix n :: nat assume "1 \<le> n \<and> n < 2"
    then have "n = 1" by simp
    then show "lv1ent_page (page_table d (n div 256)) \<and> pent d n \<noteq> 0 \<and>
        (lv2ent_large (pent d n) \<longrightarrow> 1 \<le> n div 16 * 16 \<and> n div 16 * 16 + 16 \<le> 2)"
      using d by (simp add: pent_def lv2ent_large_def)
  qed
  have "samsung_sysmmu_iova_to_phys d 0x1234 = 0x2234"
    using d(2-5) entry_excl(1) [of "0x41"] by (simp add: samsung_sysmmu_iova_to_phys_def lv1ent_offset_def lv2ent_offset_def lv2_get_def
        ent_defs spage_phys_def take_bit_eq_mask mask_eq_exp_minus_1 drop_bit_eq_div Let_def)
  then show ?thesis using sysmmu_unmap_pages_exact [OF d(1), where pgsize = 4096 and iova = 4096 and pgcount = 1] f by auto
qed

lemma lv1_of_section:
  assumes "i < 4096"
  shows "lv1ent_offset (ucast (of_nat (i * SECT_SIZE) :: u64)) = i"
proof -
  define n where "n = i * SECT_SIZE"
  have n: "n < 2 ^ 32" using assms by (simp add: n_def)
  then have "unat (of_nat n :: u64) = n" by (simp add: unat_of_nat take_bit_nat_eq_self)
  then have "unat (ucast (of_nat n :: u64) :: u32) = n"
    using n by (simp add: unsigned_ucast_eq unsigned_take_bit_eq take_bit_nat_eq_self)
  then have "lv1ent_offset (ucast (of_nat n :: u64)) = n div 2 ^ 20" by (simp only: lv1ent_offset_def unat_drop)
  then show ?thesis by (simp add: n_def)
qed

text \<open>
  C15. The counter drifts over holes. Unmapping a whole megabyte through its second level table
  subtracts 256 from the counter however many of its pages were mapped. If they were not all
  mapped, a later mapping of that megabyte as a section is refused although nothing is mapped there.
\<close>

theorem sysmmu_unmap_pages_drift:
  assumes "dom_ok d" and "i < 4096" and "lv1ent_page (page_table d i)" and "used_entries (lv2_of d i) \<noteq> 256"
  shows "\<exists>d'. samsung_sysmmu_unmap_pages d (i * SECT_SIZE) SECT_SIZE 1 = (d', SECT_SIZE) \<and>
    (\<forall>va. lv1ent_offset va = i \<longrightarrow> trans_entry d' va = None) \<and>
    lv2entcnt d' i = int (used_entries (lv2_of d i)) - 256 \<and>
    samsung_sysmmu_map d' (of_nat (i * SECT_SIZE)) p SECT_SIZE c q = Some (d', - EADDRINUSE)"
proof -
  let ?d = "add_count i (- 256) (lv2_fill d (page_table d i) 0 256 0)"
  have e: "section_stop (256 * i) (256 * i + 256) = 256 * i + 256" by (simp add: section_stop_def)
  have a: "4096 * (256 * i) = i * SECT_SIZE" "4096 * (256 * i + 256) = i * SECT_SIZE + SECT_SIZE" by simp_all
  have "unmap_slpt d i (i * SECT_SIZE) (i * SECT_SIZE + SECT_SIZE) = ?d"
    using slpt_step [of "256 * i" "256 * i + 256" d i] assms(3) unfolding e a
    by (simp add: unmap_slpt.simps [of _ "Suc i"])
  then have u: "samsung_sysmmu_unmap_pages d (i * SECT_SIZE) SECT_SIZE 1 = (?d, SECT_SIZE)"
    using assms(3) by (simp add: samsung_sysmmu_unmap_pages_def Let_def)
  have cnt: "lv2entcnt ?d i = int (used_entries (lv2_of d i)) - 256" and page: "page_table ?d = page_table d"
    using dom_ok_count [OF assms(1,3)] by (simp_all add: add_count_def lv2_fill_def)
  have "trans_entry ?d va = None" if "lv1ent_offset va = i" for va
    using that trans_page [of ?d va] assms(3) lv_bounds [of va] by (simp add: add_count_def lv2_fill_def fill_def)
  moreover have "samsung_sysmmu_map ?d (of_nat (i * SECT_SIZE)) p SECT_SIZE c q = Some (?d, - EADDRINUSE)"
    using cnt page assms(3,4) entry_excl(1) lv1_of_section [OF assms(2)]
    by (auto simp: samsung_sysmmu_map_def lv1set_section_def Let_def)
  ultimately show ?thesis using u cnt by blast
qed

theorem sysmmu_unmap_pages_drift_witness:
  "\<exists>d d'. used_entries (lv2_of d 0) = 1 \<and> samsung_sysmmu_unmap_pages d 0 SECT_SIZE 1 = (d', SECT_SIZE) \<and>
    lv2entcnt d' 0 = - 255 \<and> samsung_sysmmu_map d' 0 0x100000 SECT_SIZE False False = Some (d', - EADDRINUSE)"
proof -
  obtain d where d: "dom_ok d" "page_table d = (\<lambda>_. 0)(0 := 0x41)" "slpt d 0x400 = (\<lambda>_. 0)(1 := 0x202)"
    "lv1ent_page 0x41" "lv2table_base 0x41 = 0x400"
    by (rule one_page_domain)
  have "{j. j < 256 \<and> lv2_of d 0 j \<noteq> 0} = {1}" using d by auto
  then have u: "used_entries (lv2_of d 0) = 1" by (simp add: used_entries_def)
  moreover have "lv1ent_page (page_table d 0)" using d by simp
  ultimately obtain d' where "samsung_sysmmu_unmap_pages d 0 SECT_SIZE 1 = (d', SECT_SIZE)" "lv2entcnt d' 0 = - 255"
    "samsung_sysmmu_map d' 0 0x100000 SECT_SIZE False False = Some (d', - EADDRINUSE)"
    using sysmmu_unmap_pages_drift [OF d(1), where i = 0 and p = "0x100000" and c = False and q = False] by auto
  then show ?thesis using u by blast
qed

end
