(* ===== verification/BtsOps.thy ===== *)
theory BtsOps
  imports Prelude
begin

text \<open>
  The hardware operations of the bus traffic shaper,
  \<^verbatim>\<open>drivers/bts/exynos-btsopsgs101.c\<close> with the registers of \<^verbatim>\<open>regs-btsgs101.h\<close> and the data of
  \<^verbatim>\<open>bts.h\<close>. Registers are a store from addresses to 32-bit values, read and written by
  \<^verbatim>\<open>__raw_readl\<close> and \<^verbatim>\<open>__raw_writel\<close>: a register reads back what was last written. A base address 0 is a
  NULL pointer. The setters also clamp the settings they are given, in place, so each returns the
  code's return value, the settings and the registers.
\<close>

named_theorems btsreg \<open>facts about fields of BTS registers\<close>

type_synonym regs = "u64 \<Rightarrow> u32"

record bts_stat =
  stat_on :: bool
  bypass :: bool
  arqos :: u32
  awqos :: u32
  rmo :: u32
  wmo :: u32
  qurgent_on :: bool
  ex_qurgent_on :: bool
  qurgent_th_r :: u32
  qurgent_th_w :: u32
  blocking_on :: bool
  qfull_limit_r :: u32
  qfull_limit_w :: u32
  qbusy_limit_r :: u32
  qbusy_limit_w :: u32
  qmax0_limit_r :: u32
  qmax0_limit_w :: u32
  qmax1_limit_r :: u32
  qmax1_limit_w :: u32
  qos_va_base :: u64

text \<open>\<^verbatim>\<open>bts-type\<close>, the constants of \<^verbatim>\<open>gs101-bts.h\<close> in their order from 1.\<close>

datatype bts_type = IP_BTS | TREX_BTS | SCI_BTS | SMC_BTS | BUSC_BTS | DREX_BTS | INTERNAL_BTS

abbreviation (input) DEFAULT_QOS :: u32 where "DEFAULT_QOS \<equiv> 0x4"
abbreviation (input) MAX_QOS :: u32 where "MAX_QOS \<equiv> 0xF"
abbreviation (input) SCIMAX_QOS :: u32 where "SCIMAX_QOS \<equiv> 0x3"
abbreviation (input) MAX_MO :: u32 where "MAX_MO \<equiv> 0xFFFF"
abbreviation (input) MAX_QUTH :: u32 where "MAX_QUTH \<equiv> 0xFF"

abbreviation (input) CON :: u64 where "CON \<equiv> 0x000"
abbreviation (input) TIMEOUT :: u64 where "TIMEOUT \<equiv> 0x010"
abbreviation (input) RCON :: u64 where "RCON \<equiv> 0x020"
abbreviation (input) RBLK_UPPER :: u64 where "RBLK_UPPER \<equiv> 0x024"
abbreviation (input) RBLK_UPPER_FULL :: u64 where "RBLK_UPPER_FULL \<equiv> 0x02C"
abbreviation (input) RBLK_UPPER_BUSY :: u64 where "RBLK_UPPER_BUSY \<equiv> 0x030"
abbreviation (input) RBLK_UPPER_MAX :: u64 where "RBLK_UPPER_MAX \<equiv> 0x034"
abbreviation (input) WCON :: u64 where "WCON \<equiv> 0x040"
abbreviation (input) WBLK_UPPER :: u64 where "WBLK_UPPER \<equiv> 0x044"
abbreviation (input) WBLK_UPPER_FULL :: u64 where "WBLK_UPPER_FULL \<equiv> 0x04C"
abbreviation (input) WBLK_UPPER_BUSY :: u64 where "WBLK_UPPER_BUSY \<equiv> 0x050"
abbreviation (input) WBLK_UPPER_MAX :: u64 where "WBLK_UPPER_MAX \<equiv> 0x054"
abbreviation (input) CORE_QOS_EN :: u64 where "CORE_QOS_EN \<equiv> 0x4"

abbreviation (input) AXQOS_BYPASS :: nat where "AXQOS_BYPASS \<equiv> 8"
abbreviation (input) AXQOS_VAL :: nat where "AXQOS_VAL \<equiv> 12"
abbreviation (input) SCIQOS_EN :: nat where "SCIQOS_EN \<equiv> 0"
abbreviation (input) SCIQOS_R :: nat where "SCIQOS_R \<equiv> 2"
abbreviation (input) SCIQOS_W :: nat where "SCIQOS_W \<equiv> 0"
abbreviation (input) AXQOS_ONOFF :: nat where "AXQOS_ONOFF \<equiv> 0"
abbreviation (input) BLOCK_UPPER :: nat where "BLOCK_UPPER \<equiv> 0"
abbreviation (input) BLOCK_UPPER0 :: nat where "BLOCK_UPPER0 \<equiv> 0"
abbreviation (input) BLOCK_UPPER1 :: nat where "BLOCK_UPPER1 \<equiv> 16"
abbreviation (input) TIMEOUT_CNT_R :: nat where "TIMEOUT_CNT_R \<equiv> 0"
abbreviation (input) TIMEOUT_CNT_W :: nat where "TIMEOUT_CNT_W \<equiv> 16"
abbreviation (input) QURGENT_EN :: nat where "QURGENT_EN \<equiv> 23"
abbreviation (input) EX_QURGENT_EN :: nat where "EX_QURGENT_EN \<equiv> 7"
abbreviation (input) BLOCKING_EN :: nat where "BLOCKING_EN \<equiv> 0"
abbreviation (input) RMO_PORT_1 :: nat where "RMO_PORT_1 \<equiv> 16"
abbreviation (input) WMO_PORT_1 :: nat where "WMO_PORT_1 \<equiv> 24"

text \<open>
  The idioms of the file: \<open>field_put m k v r\<close> is \<^verbatim>\<open>r &= ~(m << k); r |= (v << k)\<close>, \<open>field_get m k r\<close>
  is \<^verbatim>\<open>(r & (m << k)) >> k\<close>; \<open>clamp m v\<close> is \<^verbatim>\<open>if (v > m) v = m\<close>.
\<close>

definition field_put :: "u32 \<Rightarrow> nat \<Rightarrow> u32 \<Rightarrow> u32 \<Rightarrow> u32" where
  "field_put m k v r = (r AND NOT (push_bit k m)) OR push_bit k v"

definition field_get :: "u32 \<Rightarrow> nat \<Rightarrow> u32 \<Rightarrow> u32" where
  "field_get m k r = drop_bit k (r AND push_bit k m)"

definition clamp :: "u32 \<Rightarrow> u32 \<Rightarrow> u32" where
  "clamp m v = (if v > m then m else v)"

definition clamp_mo :: "u32 \<Rightarrow> u32" where
  "clamp_mo v = (if v > MAX_MO \<or> v = 0 then MAX_MO else v)"

subsection \<open>Initialisation\<close>

definition init_trexbts :: "u64 \<Rightarrow> regs \<Rightarrow> regs" where
  "init_trexbts base m =
     (if base = 0 then m
      else
        let w1 = m (base + 0x0000) OR (push_bit 24 0xB OR push_bit 16 0x7)
        in m(base + 0x0000 := w1, base + 0x0100 := 0x10101010, base + 0x0180 := 0x10101010,
             base + 0x0200 := 0x08080808, base + 0x0280 := 0x08080808))"

definition init_sciqfull :: "u64 \<Rightarrow> regs \<Rightarrow> regs" where
  "init_sciqfull base m = m"

definition init_smcqbusy :: "u64 \<Rightarrow> regs \<Rightarrow> regs" where
  "init_smcqbusy base m =
     (if base = 0 then m
      else
        let threshold = clamp 0x3F 0x4;
            tmp_reg = m base AND NOT (push_bit 16 0x3F) AND NOT (push_bit 24 0x3F)
        in m(base := tmp_reg OR push_bit 16 threshold OR push_bit 24 threshold))"

definition init_qmax :: "u64 \<Rightarrow> regs \<Rightarrow> regs" where
  "init_qmax base m =
     (if base = 0 then m
      else
        let m1 = m(base + 0x50 := field_put 0xFFFF 0 (clamp 0xFFFF 0x60) (m (base + 0x50)))
        in m1(base + 0x54 := field_put 0xFFFF 0 (clamp 0xFFFF 0x30) (m1 (base + 0x54))))"

subsection \<open>Blocks of type IP\<close>

definition set_ipbts_qos :: "u64 \<Rightarrow> bts_stat \<Rightarrow> regs \<Rightarrow> int \<times> bts_stat \<times> regs" where
  "set_ipbts_qos base stat m =
     (if base = 0 then (- ENODATA, stat, m)
      else if bypass stat then
        (let tmp_reg_r = m (base + RCON) AND NOT (push_bit AXQOS_BYPASS 1);
             tmp_reg_w = m (base + WCON) AND NOT (push_bit AXQOS_BYPASS 1)
         in (0, stat, m(base + RCON := tmp_reg_r, base + WCON := tmp_reg_w)))
      else
        (let stat1 = stat\<lparr>arqos := clamp MAX_QOS (arqos stat), awqos := clamp MAX_QOS (awqos stat)\<rparr>;
             tmp_reg_r = (m (base + RCON) AND NOT (push_bit AXQOS_BYPASS 1 OR push_bit AXQOS_VAL MAX_QOS))
                           OR (push_bit AXQOS_BYPASS 1 OR push_bit AXQOS_VAL (arqos stat1));
             tmp_reg_w = (m (base + WCON) AND NOT (push_bit AXQOS_BYPASS 1 OR push_bit AXQOS_VAL MAX_QOS))
                           OR (push_bit AXQOS_BYPASS 1 OR push_bit AXQOS_VAL (awqos stat1));
             m1 = m(base + RCON := tmp_reg_r, base + WCON := tmp_reg_w)
         in (0, stat1, m1(base + CON := field_put 1 AXQOS_ONOFF 1 (m1 (base + CON))))))"

definition get_ipbts_qos :: "u64 \<Rightarrow> bts_stat \<Rightarrow> regs \<Rightarrow> int \<times> bts_stat" where
  "get_ipbts_qos base stat m =
     (if base = 0 then (- ENODATA, stat)
      else
        (let tmp_reg_r = field_get 1 AXQOS_BYPASS (m (base + RCON));
             tmp_reg_w = field_get 1 AXQOS_BYPASS (m (base + WCON))
         in (0, stat\<lparr>bypass := (tmp_reg_r = 0 \<or> tmp_reg_w = 0),
                     arqos := field_get MAX_QOS AXQOS_VAL (m (base + RCON)),
                     awqos := field_get MAX_QOS AXQOS_VAL (m (base + WCON))\<rparr>)))"

definition set_ipbts_mo :: "u64 \<Rightarrow> bts_stat \<Rightarrow> regs \<Rightarrow> int \<times> bts_stat \<times> regs" where
  "set_ipbts_mo base stat m =
     (if base = 0 then (- ENODATA, stat, m)
      else
        (let stat1 = stat\<lparr>rmo := clamp_mo (rmo stat), wmo := clamp_mo (wmo stat)\<rparr>;
             tmp_reg_r = field_put MAX_MO BLOCK_UPPER (rmo stat1) (m (base + RBLK_UPPER));
             tmp_reg_w = field_put MAX_MO BLOCK_UPPER (wmo stat1) (m (base + WBLK_UPPER))
         in (0, stat1, m(base + RBLK_UPPER := tmp_reg_r, base + WBLK_UPPER := tmp_reg_w))))"

definition get_ipbts_mo :: "u64 \<Rightarrow> bts_stat \<Rightarrow> regs \<Rightarrow> int \<times> bts_stat" where
  "get_ipbts_mo base stat m =
     (if base = 0 then (- ENODATA, stat)
      else (0, stat\<lparr>rmo := field_get MAX_MO BLOCK_UPPER (m (base + RBLK_UPPER)),
                    wmo := field_get MAX_MO BLOCK_UPPER (m (base + WBLK_UPPER))\<rparr>))"

definition set_ipbts_urgent :: "u64 \<Rightarrow> bts_stat \<Rightarrow> regs \<Rightarrow> int \<times> bts_stat \<times> regs" where
  "set_ipbts_urgent base stat m =
     (if base = 0 then (- ENODATA, stat, m)
      else
        (let stat1 = stat\<lparr>qurgent_th_r := clamp MAX_QUTH (qurgent_th_r stat),
                          qurgent_th_w := clamp MAX_QUTH (qurgent_th_w stat)\<rparr>;
             tmp_reg = (m (base + TIMEOUT) AND
                          NOT (push_bit TIMEOUT_CNT_R MAX_QUTH OR push_bit TIMEOUT_CNT_W MAX_QUTH))
                         OR push_bit TIMEOUT_CNT_R (qurgent_th_r stat1)
                         OR push_bit TIMEOUT_CNT_W (qurgent_th_w stat1);
             m1 = m(base + TIMEOUT := tmp_reg);
             con = m1 (base + CON) AND NOT (push_bit QURGENT_EN 1 OR push_bit EX_QURGENT_EN 1);
             con1 = (if qurgent_on stat1 then con OR push_bit QURGENT_EN 1 else con);
             con2 = (if ex_qurgent_on stat1 then con1 OR push_bit EX_QURGENT_EN 1 else con1)
         in (0, stat1, m1(base + CON := con2))))"

definition get_ipbts_urgent :: "u64 \<Rightarrow> bts_stat \<Rightarrow> regs \<Rightarrow> int \<times> bts_stat" where
  "get_ipbts_urgent base stat m =
     (if base = 0 then (- ENODATA, stat)
      else (0, stat\<lparr>qurgent_th_r := field_get MAX_QUTH TIMEOUT_CNT_R (m (base + TIMEOUT)),
                    qurgent_th_w := field_get MAX_QUTH TIMEOUT_CNT_W (m (base + TIMEOUT)),
                    qurgent_on := (field_get 1 QURGENT_EN (m (base + CON)) \<noteq> 0),
                    ex_qurgent_on := (field_get 1 EX_QURGENT_EN (m (base + CON)) \<noteq> 0)\<rparr>))"

definition set_ipbts_blocking :: "u64 \<Rightarrow> bts_stat \<Rightarrow> regs \<Rightarrow> int \<times> bts_stat \<times> regs" where
  "set_ipbts_blocking base stat m =
     (if base = 0 then (- ENODATA, stat, m)
      else if blocking_on stat then
        (let s1 = stat\<lparr>qfull_limit_r := clamp MAX_MO (qfull_limit_r stat),
                       qfull_limit_w := clamp MAX_MO (qfull_limit_w stat)\<rparr>;
             m1 = m(base + RBLK_UPPER_FULL := field_put MAX_MO BLOCK_UPPER (qfull_limit_r s1) (m (base + RBLK_UPPER_FULL)),
                    base + WBLK_UPPER_FULL := field_put MAX_MO BLOCK_UPPER (qfull_limit_w s1) (m (base + WBLK_UPPER_FULL)));
             s2 = s1\<lparr>qbusy_limit_r := clamp MAX_MO (qbusy_limit_r s1),
                     qbusy_limit_w := clamp MAX_MO (qbusy_limit_w s1)\<rparr>;
             m2 = m1(base + RBLK_UPPER_BUSY := field_put MAX_MO BLOCK_UPPER (qbusy_limit_r s2) (m1 (base + RBLK_UPPER_BUSY)),
                     base + WBLK_UPPER_BUSY := field_put MAX_MO BLOCK_UPPER (qbusy_limit_w s2) (m1 (base + WBLK_UPPER_BUSY)));
             s3 = s2\<lparr>qmax0_limit_r := clamp MAX_MO (qmax0_limit_r s2), qmax0_limit_w := clamp MAX_MO (qmax0_limit_w s2),
                     qmax1_limit_r := clamp MAX_MO (qmax1_limit_r s2), qmax1_limit_w := clamp MAX_MO (qmax1_limit_w s2)\<rparr>;
             tmp_reg_r = (m2 (base + RBLK_UPPER_MAX) AND
                            NOT (push_bit BLOCK_UPPER1 MAX_MO OR push_bit BLOCK_UPPER0 MAX_MO))
                           OR (push_bit BLOCK_UPPER1 (qmax1_limit_r s3) OR push_bit BLOCK_UPPER0 (qmax0_limit_r s3));
             tmp_reg_w = (m2 (base + WBLK_UPPER_MAX) AND
                            NOT (push_bit BLOCK_UPPER1 MAX_MO OR push_bit BLOCK_UPPER0 MAX_MO))
                           OR (push_bit BLOCK_UPPER1 (qmax1_limit_w s3) OR push_bit BLOCK_UPPER0 (qmax0_limit_w s3));
             m3 = m2(base + RBLK_UPPER_MAX := tmp_reg_r, base + WBLK_UPPER_MAX := tmp_reg_w);
             m4 = m3(base + RCON := field_put 1 BLOCKING_EN 1 (m3 (base + RCON)));
             m5 = m4(base + WCON := field_put 1 BLOCKING_EN 1 (m4 (base + WCON)))
         in (0, s3, m5))
      else
        (let m1 = m(base + RCON := m (base + RCON) AND NOT (push_bit BLOCKING_EN 1));
             m2 = m1(base + WCON := m1 (base + WCON) AND NOT (push_bit BLOCKING_EN 1))
         in (0, stat, m2)))"

text \<open>\<^verbatim>\<open>get_ipbts_blocking\<close> has no test of its arguments.\<close>

definition get_ipbts_blocking :: "u64 \<Rightarrow> bts_stat \<Rightarrow> regs \<Rightarrow> int \<times> bts_stat" where
  "get_ipbts_blocking base stat m =
     (let s1 = stat\<lparr>blocking_on := (m (base + RCON) AND push_bit BLOCKING_EN 1 \<noteq> 0)\<rparr>
      in if \<not> blocking_on s1 then (0, s1)
         else (0, s1\<lparr>qfull_limit_r := field_get MAX_MO BLOCK_UPPER (m (base + RBLK_UPPER_FULL)),
                     qfull_limit_w := field_get MAX_MO BLOCK_UPPER (m (base + WBLK_UPPER_FULL)),
                     qbusy_limit_r := field_get MAX_MO BLOCK_UPPER (m (base + RBLK_UPPER_BUSY)),
                     qbusy_limit_w := field_get MAX_MO BLOCK_UPPER (m (base + WBLK_UPPER_BUSY)),
                     qmax0_limit_r := field_get MAX_MO BLOCK_UPPER0 (m (base + RBLK_UPPER_MAX)),
                     qmax1_limit_r := field_get MAX_MO BLOCK_UPPER1 (m (base + RBLK_UPPER_MAX)),
                     qmax0_limit_w := field_get MAX_MO BLOCK_UPPER0 (m (base + WBLK_UPPER_MAX)),
                     qmax1_limit_w := field_get MAX_MO BLOCK_UPPER1 (m (base + WBLK_UPPER_MAX))\<rparr>))"

text \<open>A sequence of setters or getters that stops at the first error.\<close>

fun set_all :: "(u64 \<Rightarrow> bts_stat \<Rightarrow> regs \<Rightarrow> int \<times> bts_stat \<times> regs) list
    \<Rightarrow> u64 \<Rightarrow> bts_stat \<Rightarrow> regs \<Rightarrow> int \<times> bts_stat \<times> regs" where
  "set_all [] base stat m = (0, stat, m)"
| "set_all (f # fs) base stat m =
     (let (ret, stat1, m1) = f base stat m
      in if ret \<noteq> 0 then (ret, stat1, m1) else set_all fs base stat1 m1)"

fun get_all :: "(u64 \<Rightarrow> bts_stat \<Rightarrow> regs \<Rightarrow> int \<times> bts_stat) list
    \<Rightarrow> u64 \<Rightarrow> bts_stat \<Rightarrow> regs \<Rightarrow> int \<times> bts_stat" where
  "get_all [] base stat m = (0, stat)"
| "get_all (f # fs) base stat m =
     (let (ret, stat1) = f base stat m in if ret \<noteq> 0 then (ret, stat1) else get_all fs base stat1 m)"

definition set_ipbts :: "u64 \<Rightarrow> bts_stat \<Rightarrow> regs \<Rightarrow> int \<times> bts_stat \<times> regs" where
  "set_ipbts base stat m =
     (if base = 0 then (- ENODATA, stat, m)
      else if \<not> stat_on stat then (0, stat, m)
      else set_all [set_ipbts_qos, set_ipbts_mo, set_ipbts_urgent, set_ipbts_blocking] base stat m)"

definition get_ipbts :: "u64 \<Rightarrow> bts_stat \<Rightarrow> regs \<Rightarrow> int \<times> bts_stat" where
  "get_ipbts base stat m =
     (if base = 0 then (- ENODATA, stat)
      else get_all [get_ipbts_qos, get_ipbts_mo, get_ipbts_urgent, get_ipbts_blocking] base stat m)"

subsection \<open>Blocks of type SCI\<close>

definition set_scibts_mo :: "u64 \<Rightarrow> bts_stat \<Rightarrow> regs \<Rightarrow> int \<times> bts_stat \<times> regs" where
  "set_scibts_mo base stat m =
     (if base = 0 then (- ENODATA, stat, m)
      else
        (let stat1 = stat\<lparr>rmo := clamp_mo (rmo stat), wmo := clamp_mo (wmo stat)\<rparr>
         in (0, stat1, m(base := push_bit RMO_PORT_1 (rmo stat1) OR push_bit WMO_PORT_1 (wmo stat1)))))"

definition get_scibts_mo :: "u64 \<Rightarrow> bts_stat \<Rightarrow> regs \<Rightarrow> int \<times> bts_stat" where
  "get_scibts_mo base stat m =
     (if base = 0 then (- ENODATA, stat)
      else (0, stat\<lparr>rmo := field_get 0xFF RMO_PORT_1 (m base), wmo := field_get 0xFF WMO_PORT_1 (m base)\<rparr>))"

definition set_scibts_qos :: "u64 \<Rightarrow> bts_stat \<Rightarrow> regs \<Rightarrow> int \<times> bts_stat \<times> regs" where
  "set_scibts_qos base stat m =
     (let qos_base = qos_va_base stat
      in if qos_base = 0 then (0, stat, m)
      else
        (let m1 = (if arqos stat \<noteq> 0 \<or> awqos stat \<noteq> 0
                   then m(qos_base + CORE_QOS_EN := m (qos_base + CORE_QOS_EN) OR push_bit SCIQOS_EN 1)
                   else m(qos_base + CORE_QOS_EN := m (qos_base + CORE_QOS_EN) AND NOT (push_bit SCIQOS_EN 1)));
             stat1 = stat\<lparr>arqos := clamp SCIMAX_QOS (arqos stat), awqos := clamp SCIMAX_QOS (awqos stat)\<rparr>;
             tmp_reg = (m1 qos_base AND NOT (push_bit SCIQOS_W SCIMAX_QOS OR push_bit SCIQOS_R SCIMAX_QOS))
                         OR (push_bit SCIQOS_R (arqos stat1) OR push_bit SCIQOS_W (awqos stat1))
         in (0, stat1, m1(qos_base := tmp_reg))))"

definition get_scibts_qos :: "u64 \<Rightarrow> bts_stat \<Rightarrow> regs \<Rightarrow> int \<times> bts_stat" where
  "get_scibts_qos base stat m =
     (let qos_base = qos_va_base stat
      in if qos_base = 0 then (0, stat)
      else (0, stat\<lparr>bypass := (field_get 1 SCIQOS_EN (m (qos_base + CORE_QOS_EN)) = 0),
                    arqos := field_get SCIMAX_QOS SCIQOS_R (m qos_base),
                    awqos := field_get SCIMAX_QOS SCIQOS_W (m qos_base)\<rparr>))"

definition set_scibts :: "u64 \<Rightarrow> bts_stat \<Rightarrow> regs \<Rightarrow> int \<times> bts_stat \<times> regs" where
  "set_scibts base stat m =
     (if base = 0 then (- ENODATA, stat, m)
      else if \<not> stat_on stat then (0, stat, m)
      else set_all [set_scibts_qos, set_scibts_mo] base stat m)"

definition get_scibts :: "u64 \<Rightarrow> bts_stat \<Rightarrow> regs \<Rightarrow> int \<times> bts_stat" where
  "get_scibts base stat m =
     (if base = 0 then (- ENODATA, stat)
      else get_all [get_scibts_qos, get_scibts_mo] base stat m)"

subsection \<open>The operation tables\<close>

text \<open>\<open>None\<close> is a NULL function pointer.\<close>

type_synonym set_fn = "u64 \<Rightarrow> bts_stat \<Rightarrow> regs \<Rightarrow> int \<times> bts_stat \<times> regs"
type_synonym get_fn = "u64 \<Rightarrow> bts_stat \<Rightarrow> regs \<Rightarrow> int \<times> bts_stat"

record bts_ops =
  init_bts :: "(u64 \<Rightarrow> regs \<Rightarrow> regs) option"
  set_bts :: "set_fn option"
  get_bts :: "get_fn option"
  set_qos :: "set_fn option"
  get_qos :: "get_fn option"
  set_mo :: "set_fn option"
  get_mo :: "get_fn option"
  set_urgent :: "set_fn option"
  get_urgent :: "get_fn option"
  set_blocking :: "set_fn option"
  get_blocking :: "get_fn option"

definition only_init :: "(u64 \<Rightarrow> regs \<Rightarrow> regs) option \<Rightarrow> bts_ops" where
  "only_init f = \<lparr>init_bts = f, set_bts = None, get_bts = None, set_qos = None, get_qos = None,
     set_mo = None, get_mo = None, set_urgent = None, get_urgent = None, set_blocking = None, get_blocking = None\<rparr>"

fun register_btsops :: "bts_type \<Rightarrow> bts_ops" where
  "register_btsops IP_BTS =
     \<lparr>init_bts = None, set_bts = Some set_ipbts, get_bts = Some get_ipbts,
      set_qos = Some set_ipbts_qos, get_qos = Some get_ipbts_qos,
      set_mo = Some set_ipbts_mo, get_mo = Some get_ipbts_mo,
      set_urgent = Some set_ipbts_urgent, get_urgent = Some get_ipbts_urgent,
      set_blocking = Some set_ipbts_blocking, get_blocking = Some get_ipbts_blocking\<rparr>"
| "register_btsops TREX_BTS = only_init (Some init_trexbts)"
| "register_btsops SCI_BTS =
     \<lparr>init_bts = Some init_sciqfull, set_bts = Some set_scibts, get_bts = Some get_scibts,
      set_qos = Some set_scibts_qos, get_qos = Some get_scibts_qos,
      set_mo = Some set_scibts_mo, get_mo = Some get_scibts_mo,
      set_urgent = None, get_urgent = None, set_blocking = None, get_blocking = None\<rparr>"
| "register_btsops SMC_BTS = only_init (Some init_smcqbusy)"
| "register_btsops BUSC_BTS = only_init (Some init_qmax)"
| "register_btsops DREX_BTS = only_init None"
| "register_btsops INTERNAL_BTS = only_init None"

end
