(* ===== verification/Bts.thy ===== *)
theory Bts
  imports BtsOps PmQos
begin

text \<open>
  The bus traffic shaper driver, \<^verbatim>\<open>drivers/bts/exynos-bts.c\<close>: clients vote for memory bandwidth,
  from which the driver computes floors for the memory (MIF) and bus (INT) frequencies and hands
  them to PM QoS; scenarios, of which the one with the largest index that is in use decides how the
  hardware blocks are programmed; and the histograms of the votes.

  \<open>bts_list\<close> and \<open>bts_bw\<close> have \<^verbatim>\<open>num_bts\<close> elements and \<open>scen_list\<close> has \<^verbatim>\<open>num_scen\<close>, as
  \<^verbatim>\<open>bts_parse_data\<close> allocates them. The registers, and the PM QoS state with the addresses of the two
  requests, are part of the state. \<open>None\<close> as a result is a fault of the C code: an access through a
  NULL pointer or beyond an array. The counter of a scenario's users, an \<^verbatim>\<open>int\<close>, is unbounded here.
\<close>

subsection \<open>Data\<close>

record bw_stats =
  hist_idx :: int
  hist_count :: "u32 list"
  total_time :: "u64 list"

record bts_bw_stats =
  start_time :: u64
  total_stats :: bw_stats
  peak_stats :: bw_stats

record bts_bw =
  bw_name :: "string option"
  is_rt :: bool
  bw_peak :: u32
  bw_read :: u32
  bw_write :: u32
  bw_rt :: u32
  bw_stat :: bts_bw_stats

record bts_scen =
  sc_index :: nat
  sc_status :: bool
  usage_count :: int
  sc_name :: string

record bts_info =
  bts_name :: string
  va_base :: u64
  btstype :: bts_type
  pd_id :: u32
  pd_on :: bool
  settings :: "bts_stat list option"

record bts_device =
  top_scen :: nat
  bts_list :: "bts_info list"
  scen_list :: "bts_scen list"
  scen_node :: "nat list"
  bts_bws :: "bts_bw list"
  rt_names :: "string list"
  peak_bw :: u32
  total_bw :: u32
  bus1_int_tbl :: "(u32 \<times> u32) list option"
  btsdbg_log :: bool
  bts_regs :: regs
  exynos_mif_qos :: nat
  exynos_int_qos :: nat
  pmqos :: pm_qos

abbreviation (input) NUM_CHANNEL :: u32 where "NUM_CHANNEL \<equiv> 4"
abbreviation (input) BUS_WIDTH :: u32 where "BUS_WIDTH \<equiv> 16"
abbreviation (input) MIF_UTIL :: u32 where "MIF_UTIL \<equiv> 65"
abbreviation (input) INT_UTIL :: u32 where "INT_UTIL \<equiv> 65"
abbreviation (input) RT_UTIL :: u32 where "RT_UTIL \<equiv> 40"
abbreviation (input) ID_DEFAULT :: nat where "ID_DEFAULT \<equiv> 0"
abbreviation (input) BTS_HIST_BIN :: nat where "BTS_HIST_BIN \<equiv> 13"
abbreviation (input) PM_QOS_DEVICE_THROUGHPUT :: int where "PM_QOS_DEVICE_THROUGHPUT \<equiv> 7"
abbreviation (input) PM_QOS_BUS_THROUGHPUT :: int where "PM_QOS_BUS_THROUGHPUT \<equiv> 11"

definition bw_trip :: "u32 list" where
  "bw_trip = [10000, 17800, 31600, 56200, 100000, 178000, 316000, 562000, 1000000, 1780000, 3160000, 5620000]"

subsection \<open>Frequencies\<close>

text \<open>The rows are from high to low; the search stops at the first row below the frequency.\<close>

definition bus1_to_int_freq :: "(u32 \<times> u32) list option \<Rightarrow> u32 \<Rightarrow> u32 option" where
  "bus1_to_int_freq tbl freq =
     (case tbl of
        None \<Rightarrow> Some freq
      | Some rows \<Rightarrow>
          (let i = length (takeWhile (\<lambda>(bus1, _). \<not> freq > bus1) rows);
               i = (if i \<noteq> 0 then i - 1 else i)
           in if i < length rows then Some (snd (rows ! i)) else None))"

text \<open>The sums of the loop: the largest peak, and the totals of read, write and real-time votes.\<close>

fun bw_sums :: "bts_bw list \<Rightarrow> u32 \<times> u32 \<times> u32 \<times> u32 \<Rightarrow> u32 \<times> u32 \<times> u32 \<times> u32" where
  "bw_sums [] acc = acc"
| "bw_sums (b # bs) (pk, rtb, rd, wr) =
     bw_sums bs (if pk < bw_peak b then bw_peak b else pk,
                 if is_rt b then rtb + bw_rt b else rtb, rd + bw_read b, wr + bw_write b)"

text \<open>Peak and total bandwidth, and the MIF and BUS1 frequencies for them.\<close>

definition bw_demand :: "bts_bw list \<Rightarrow> u32 \<times> u32 \<times> u32 \<times> u32" where
  "bw_demand bs =
     (let (pk, rtb, rd, wr) = bw_sums bs (0, 0, 0, 0);
          tot = rd + wr;
          pk1 = (if pk < rd div NUM_CHANNEL then rd div NUM_CHANNEL else pk);
          pk2 = (if pk1 < wr div NUM_CHANNEL then wr div NUM_CHANNEL else pk1);
          mif = max (tot div BUS_WIDTH * 100 div MIF_UTIL) (rtb div BUS_WIDTH * 100 div RT_UTIL);
          bus1 = pk2 div BUS_WIDTH * 100 div INT_UTIL
      in (pk2, tot, mif, bus1))"

definition bts_calc_bw :: "bts_device \<Rightarrow> bts_device option" where
  "bts_calc_bw d =
     (let (pk, tot, mif_freq, bus1_freq) = bw_demand (bts_bws d);
          d1 = d\<lparr>peak_bw := pk, total_bw := tot\<rparr>
      in case bus1_to_int_freq (bus1_int_tbl d) bus1_freq of
           None \<Rightarrow> None
         | Some int_freq \<Rightarrow>
             (case exynos_pm_qos_update_request (Some (exynos_mif_qos d)) mif_freq (pmqos d) of
                None \<Rightarrow> None
              | Some q1 \<Rightarrow>
                  (case exynos_pm_qos_update_request (Some (exynos_int_qos d)) int_freq q1 of
                     None \<Rightarrow> None
                   | Some q2 \<Rightarrow> Some (d1\<lparr>pmqos := q2\<rparr>))))"

subsection \<open>Histograms\<close>

definition hist_bin :: "u32 \<Rightarrow> int" where
  "hist_bin bw = (if bw \<noteq> 0 then int (length (takeWhile (\<lambda>t. \<not> bw < t) bw_trip)) else -1)"

definition hist_add :: "int \<Rightarrow> u64 \<Rightarrow> bw_stats \<Rightarrow> bw_stats" where
  "hist_add prev duration s =
     (if prev \<ge> 0
      then s\<lparr>hist_count := (hist_count s)[nat prev := hist_count s ! nat prev + 1],
             total_time := (total_time s)[nat prev := total_time s ! nat prev + duration]\<rparr>
      else s)"

text \<open>\<open>now\<close> is the time \<^verbatim>\<open>ktime_get_ns\<close> returns.\<close>

definition bts_update_stats :: "u64 \<Rightarrow> bts_bw \<Rightarrow> bts_bw" where
  "bts_update_stats now b =
     (let total_bin = hist_bin (bw_read b + bw_write b);
          peak_bin = hist_bin (bw_peak b);
          s = bw_stat b;
          set_bins = (\<lambda>s. s\<lparr>start_time := now, total_stats := (total_stats s)\<lparr>hist_idx := total_bin\<rparr>,
                            peak_stats := (peak_stats s)\<lparr>hist_idx := peak_bin\<rparr>\<rparr>)
      in if start_time s = 0 then
           (if total_bin < 0 \<and> peak_bin < 0 then b else b\<lparr>bw_stat := set_bins s\<rparr>)
         else
           (let total_prev = hist_idx (total_stats s); peak_prev = hist_idx (peak_stats s);
                duration = now - start_time s;
                s1 = set_bins s
            in if total_prev < 0 \<and> peak_prev < 0 then b\<lparr>bw_stat := s1\<rparr>
               else b\<lparr>bw_stat := s1\<lparr>total_stats := hist_add total_prev duration (total_stats s1),
                                   peak_stats := hist_add peak_prev duration (peak_stats s1)\<rparr>\<rparr>))"

subsection \<open>Bandwidth votes\<close>

text \<open>
  The loop of \<^verbatim>\<open>bts_get_bwindex\<close> reads the name of element \<^verbatim>\<open>index\<close> before it compares \<^verbatim>\<open>index\<close>
  with \<^verbatim>\<open>num_bts\<close>: past the end that is a fault. Otherwise it stops at the name, or at the first
  unused element.
\<close>

fun bw_slot :: "bts_bw list \<Rightarrow> string \<Rightarrow> nat \<Rightarrow> (nat \<times> bool) option" where
  "bw_slot [] name i = None"
| "bw_slot (b # bs) name i =
     (case bw_name b of
        None \<Rightarrow> Some (i, False)
      | Some n \<Rightarrow> if n = name then Some (i, True) else bw_slot bs name (Suc i))"

text \<open>\<open>alloc_ok\<close> says whether \<^verbatim>\<open>devm_kstrdup\<close> succeeds.\<close>

definition bts_get_bwindex :: "bool \<Rightarrow> string \<Rightarrow> bts_device \<Rightarrow> (int \<times> bts_device) option" where
  "bts_get_bwindex alloc_ok name d =
     (case bw_slot (bts_bws d) name 0 of
        None \<Rightarrow> None
      | Some (i, True) \<Rightarrow> Some (int i, d)
      | Some (i, False) \<Rightarrow>
          if \<not> alloc_ok then Some (- ENOMEM, d)
          else Some (int i, d\<lparr>bts_bws := (bts_bws d)[i := (bts_bws d ! i)\<lparr>bw_name := Some name,
                       is_rt := (name \<in> set (rt_names d))\<rparr>]\<rparr>))"

definition bts_get_scenindex :: "string \<Rightarrow> bts_device \<Rightarrow> nat" where
  "bts_get_scenindex name d =
     (let n = length (scen_list d);
          index = 1 + length (takeWhile (\<lambda>s. name \<noteq> sc_name s) (drop 1 (scen_list d)))
      in if index = n then 0 else index)"

text \<open>The vote \<^verbatim>\<open>struct bts_bw\<close> a client passes: peak, read, write and real-time bandwidth.\<close>

record bw_vote =
  v_peak :: u32
  v_read :: u32
  v_write :: u32
  v_rt :: u32

text \<open>The vote goes into its slot; the real-time share only for a real-time client.\<close>

definition put_vote :: "bw_vote \<Rightarrow> bts_bw \<Rightarrow> bts_bw" where
  "put_vote bw b =
     (let b1 = b\<lparr>bw_peak := v_peak bw, bw_read := v_read bw, bw_write := v_write bw\<rparr>
      in if is_rt b1 then b1\<lparr>bw_rt := v_rt bw\<rparr> else b1)"

definition bts_update_bw :: "nat \<Rightarrow> bw_vote \<Rightarrow> u64 \<Rightarrow> bts_device \<Rightarrow> (int \<times> bts_device) option" where
  "bts_update_bw index bw now d =
     (if index \<ge> length (bts_bws d) then Some (- EINVAL, d)
      else
        (let tot = v_read bw + v_write bw
         in if (tot = 0) \<noteq> (v_peak bw = 0) then Some (- EINVAL, d)
         else
           (case bts_calc_bw (d\<lparr>bts_bws := (bts_bws d)[index := put_vote bw (bts_bws d ! index)]\<rparr>) of
              None \<Rightarrow> None
            | Some d1 \<Rightarrow>
                Some (0, d1\<lparr>bts_bws := (bts_bws d1)[index := bts_update_stats now (bts_bws d1 ! index)]\<rparr>))))"

subsection \<open>Scenarios\<close>

definition bts_set :: "nat \<Rightarrow> nat \<Rightarrow> bts_device \<Rightarrow> bts_device option" where
  "bts_set scen index d =
     (let info = bts_list d ! index
      in case set_bts (register_btsops (btstype info)) of
           None \<Rightarrow> Some d
         | Some f \<Rightarrow>
             if \<not> pd_on info then Some d
             else
               (case settings info of
                  None \<Rightarrow> None
                | Some ss \<Rightarrow>
                    if scen \<ge> length ss then None
                    else
                      (let k = (if stat_on (ss ! scen) then scen else ID_DEFAULT);
                           (ret, s1, m1) = f (va_base info) (ss ! k) (bts_regs d)
                       in Some (d\<lparr>bts_list := (bts_list d)[index := info\<lparr>settings := Some (ss[k := s1])\<rparr>],
                                 bts_regs := m1\<rparr>))))"

text \<open>The loops that program the blocks \<open>i, \<dots>, i + n - 1\<close>.\<close>

fun bts_set_all :: "nat \<Rightarrow> nat \<Rightarrow> nat \<Rightarrow> bts_device \<Rightarrow> bts_device option" where
  "bts_set_all scen i 0 d = Some d"
| "bts_set_all scen i (Suc n) d =
     (case bts_set scen i d of None \<Rightarrow> None | Some d1 \<Rightarrow> bts_set_all scen (Suc i) n d1)"

fun pd_sync_loop :: "u32 \<Rightarrow> bool \<Rightarrow> nat \<Rightarrow> nat \<Rightarrow> bts_device \<Rightarrow> bts_device option" where
  "pd_sync_loop cal_id on i 0 d = Some d"
| "pd_sync_loop cal_id on i (Suc n) d =
     (let info = bts_list d ! i
      in if pd_id info = 0 \<or> pd_id info \<noteq> cal_id then pd_sync_loop cal_id on (Suc i) n d
         else
           (let d1 = d\<lparr>bts_list := (bts_list d)[i := info\<lparr>pd_on := on\<rparr>]\<rparr>
            in case (if on then bts_set (top_scen d1) i d1 else Some d1) of
                 None \<Rightarrow> None
               | Some d2 \<Rightarrow> pd_sync_loop cal_id on (Suc i) n d2))"

definition bts_pd_sync :: "u32 \<Rightarrow> bool \<Rightarrow> bts_device \<Rightarrow> bts_device option" where
  "bts_pd_sync cal_id on d = pd_sync_loop cal_id on 0 (length (bts_list d)) d"

definition put_scen :: "nat \<Rightarrow> bool \<Rightarrow> int \<Rightarrow> bts_device \<Rightarrow> bts_device" where
  "put_scen i st n d = d\<lparr>scen_list := (scen_list d)[i := (scen_list d ! i)\<lparr>sc_status := st, usage_count := n\<rparr>]\<rparr>"

text \<open>
  The counter is a C \<^verbatim>\<open>int\<close> and wraps around. Linking a node that is on the list already, which happens when a counter
  has wrapped and comes back to 1, destroys the list: that is a fault.
\<close>

definition bts_add_scenario :: "nat \<Rightarrow> bts_device \<Rightarrow> (int \<times> bts_device) option" where
  "bts_add_scenario index d =
     (if index \<ge> length (scen_list d) then Some (- EINVAL, d)
      else
        (let s = scen_list d ! index;
             n = c_int (usage_count s + 1)
         in if n \<noteq> 1 then Some (0, put_scen index (sc_status s) n d)
         else if index \<in> set (scen_node d) then None
         else
           (let d1 = (put_scen index True n d)\<lparr>scen_node := index # scen_node d\<rparr>
            in if index \<ge> top_scen d1 then
                 map_option (\<lambda>d2. (0, d2)) (bts_set_all index 0 (length (bts_list d1)) (d1\<lparr>top_scen := index\<rparr>))
               else Some (0, d1))))"

definition highest :: "bts_device \<Rightarrow> nat" where
  "highest d = foldl (\<lambda>t i. if sc_index (scen_list d ! i) \<ge> t then sc_index (scen_list d ! i) else t)
                 ID_DEFAULT (scen_node d)"

definition bts_del_scenario :: "nat \<Rightarrow> bts_device \<Rightarrow> (int \<times> bts_device) option" where
  "bts_del_scenario index d =
     (if index \<ge> length (scen_list d) then Some (- EINVAL, d)
      else
        (let s = scen_list d ! index
         in if index = ID_DEFAULT \<and> usage_count s = 1 then Some (0, d)
         else
           (let n = c_int (usage_count s - 1)
            in if n < 0 then Some (0, put_scen index (sc_status s) 0 d)
            else if n \<noteq> 0 then Some (0, put_scen index (sc_status s) n d)
            else
              (let d1 = (put_scen index False n d)\<lparr>scen_node := remove1 index (scen_node d)\<rparr>
               in if index = top_scen d1 then
                    (let t = highest d1
                     in map_option (\<lambda>d2. (0, d2)) (bts_set_all t 0 (length (bts_list d1)) (d1\<lparr>top_scen := t\<rparr>)))
                  else Some (0, d1)))))"

subsection \<open>Resume and initialisation\<close>

definition init_block :: "bts_info \<Rightarrow> regs \<Rightarrow> regs" where
  "init_block info m =
     (case init_bts (register_btsops (btstype info)) of None \<Rightarrow> m | Some f \<Rightarrow> f (va_base info) m)"

fun resume_loop :: "nat \<Rightarrow> nat \<Rightarrow> bts_device \<Rightarrow> bts_device option" where
  "resume_loop i 0 d = Some d"
| "resume_loop i (Suc n) d =
     (case bts_set (top_scen d) i (d\<lparr>bts_regs := init_block (bts_list d ! i) (bts_regs d)\<rparr>) of
        None \<Rightarrow> None
      | Some d1 \<Rightarrow> resume_loop (Suc i) n d1)"

definition exynos_bts_syscore_resume :: "bts_device \<Rightarrow> bts_device option" where
  "exynos_bts_syscore_resume d = resume_loop 0 (length (bts_list d)) d"

definition bts_initialize :: "bts_device \<Rightarrow> (int \<times> bts_device) option" where
  "bts_initialize d =
     (let d1 = d\<lparr>bts_regs := foldl (\<lambda>m info. init_block info m) (bts_regs d) (bts_list d), top_scen := ID_DEFAULT\<rparr>
      in bts_add_scenario ID_DEFAULT d1)"

end
