(* ===== verification/BtsIo.thy ===== *)
theory BtsIo
  imports Bts
begin

text \<open>
  The outside of the bus traffic shaper driver: what it reads from the device tree when it is
  probed (\<^verbatim>\<open>bts_parse_setting\<close>, \<^verbatim>\<open>bts_parse_data\<close>, \<^verbatim>\<open>bts_probe\<close>), and the writes and reports of its debugfs
  files.
\<close>

subsection \<open>Settings in the device tree\<close>

text \<open>
  A node's properties are a map from names; \<open>read_u32\<close> is \<^verbatim>\<open>of_property_read_u32(np, name, &v)\<close>, which
  leaves \<^verbatim>\<open>v\<close> as it is when the property is missing. \<open>junk\<close> is the uninitialised local \<^verbatim>\<open>tmp\<close>, which
  is used again and again without being reset.
\<close>

type_synonym dt_props = "string \<Rightarrow> u32 option"

definition read_u32 :: "dt_props \<Rightarrow> string \<Rightarrow> u32 \<Rightarrow> u32" where
  "read_u32 np name v = (case np name of None \<Rightarrow> v | Some x \<Rightarrow> x)"

definition bts_parse_setting :: "u32 \<Rightarrow> dt_props \<Rightarrow> bts_stat \<Rightarrow> bts_stat" where
  "bts_parse_setting junk np stat =
     (let t0 = read_u32 np ''stat_on'' junk;
          s0 = stat\<lparr>stat_on := (t0 \<noteq> 0)\<rparr>
      in if \<not> stat_on s0 then s0
      else
        (let t1 = read_u32 np ''bypass'' t0;
             t2 = read_u32 np ''qurgent_on'' t1;
             t3 = read_u32 np ''ex_qurgent_on'' t2;
             t4 = read_u32 np ''blocking_on'' t3
         in s0\<lparr>bypass := (t1 \<noteq> 0),
               arqos := read_u32 np ''arqos'' DEFAULT_QOS, awqos := read_u32 np ''awqos'' DEFAULT_QOS,
               rmo := read_u32 np ''rmo'' MAX_MO, wmo := read_u32 np ''wmo'' MAX_MO,
               qurgent_on := (t2 \<noteq> 0),
               ex_qurgent_on := (case np ''ex_qurgent_on'' of None \<Rightarrow> False | Some x \<Rightarrow> x \<noteq> 0),
               qurgent_th_r := read_u32 np ''qurgent_th_r'' MAX_QUTH,
               qurgent_th_w := read_u32 np ''qurgent_th_w'' MAX_QUTH,
               blocking_on := (t4 \<noteq> 0),
               qfull_limit_r := read_u32 np ''qfull_limit_r'' MAX_MO,
               qfull_limit_w := read_u32 np ''qfull_limit_w'' MAX_MO,
               qbusy_limit_r := read_u32 np ''qbusy_limit_r'' MAX_MO,
               qbusy_limit_w := read_u32 np ''qbusy_limit_w'' MAX_MO,
               qmax0_limit_r := read_u32 np ''qmax0_limit_r'' MAX_MO,
               qmax0_limit_w := read_u32 np ''qmax0_limit_w'' MAX_MO,
               qmax1_limit_r := read_u32 np ''qmax1_limit_r'' MAX_MO,
               qmax1_limit_w := read_u32 np ''qmax1_limit_w'' MAX_MO\<rparr>))"

subsection \<open>Probing\<close>

text \<open>
  What \<^verbatim>\<open>bts_parse_data\<close> reads: the cells of \<^verbatim>\<open>bus1_int_map\<close> (\<open>None\<close> when the property is missing), the
  names of the scenarios and of the real-time clients, and the child nodes: name, the address their
  first and second register areas are mapped at (0 for none), type, power domain with its current
  state, and the settings by scenario name.
\<close>

record dt_block =
  db_name :: string
  db_va :: u64
  db_qos_va :: u64
  db_type :: "bts_type option"
  db_pd :: "(u32 \<times> bool) option"
  db_settings :: "(string \<times> dt_props) list"

record bts_dt =
  dt_bus1 :: "u32 list option"
  dt_scens :: "string list"
  dt_rts :: "string list"
  dt_blocks :: "dt_block list"

abbreviation (input) OF_DATA_NUM_MAX :: nat where "OF_DATA_NUM_MAX \<equiv> 16"

definition zero_stat :: bts_stat where
  "zero_stat = \<lparr>stat_on = False, bypass = False, arqos = 0, awqos = 0, rmo = 0, wmo = 0,
     qurgent_on = False, ex_qurgent_on = False, qurgent_th_r = 0, qurgent_th_w = 0, blocking_on = False,
     qfull_limit_r = 0, qfull_limit_w = 0, qbusy_limit_r = 0, qbusy_limit_w = 0, qmax0_limit_r = 0,
     qmax0_limit_w = 0, qmax1_limit_r = 0, qmax1_limit_w = 0, qos_va_base = 0\<rparr>"

definition zero_stats :: bw_stats where
  "zero_stats = \<lparr>hist_idx = 0, hist_count = replicate BTS_HIST_BIN 0, total_time = replicate BTS_HIST_BIN 0\<rparr>"

definition zero_bw :: bts_bw where
  "zero_bw = \<lparr>bw_name = None, is_rt = False, bw_peak = 0, bw_read = 0, bw_write = 0, bw_rt = 0,
     bw_stat = \<lparr>start_time = 0, total_stats = zero_stats, peak_stats = zero_stats\<rparr>\<rparr>"

text \<open>One settings node: it goes to every scenario of its name.\<close>

definition parse_scen :: "u32 \<Rightarrow> string list \<Rightarrow> bts_stat list \<Rightarrow> string \<times> dt_props \<Rightarrow> bts_stat list" where
  "parse_scen junk scens ss = (\<lambda>(name, np).
     map (\<lambda>(sc, s). if sc = name then bts_parse_setting junk np s else s) (zip scens ss))"

text \<open>
  One child node. The second register area is remembered in the settings of scenario 0 only, and
  all settings are dropped again when the node has no children.
\<close>

definition parse_block :: "u32 \<Rightarrow> string list \<Rightarrow> dt_block \<Rightarrow> int + bts_info" where
  "parse_block junk scens b =
     (let ss = (replicate (length scens) zero_stat)[0 := zero_stat\<lparr>qos_va_base := db_qos_va b\<rparr>]
      in case db_type b of
           None \<Rightarrow> Inl (- EEXIST)
         | Some t \<Rightarrow>
             Inr \<lparr>bts_name = db_name b, va_base = db_va b, btstype = t,
                  pd_id = (case db_pd b of None \<Rightarrow> 0 | Some (i, _) \<Rightarrow> i),
                  pd_on = (case db_pd b of None \<Rightarrow> True | Some (_, on) \<Rightarrow> on),
                  settings = (if db_settings b = [] then None
                              else Some (foldl (parse_scen junk scens) ss (db_settings b)))\<rparr>)"

fun parse_blocks :: "u32 \<Rightarrow> string list \<Rightarrow> dt_block list \<Rightarrow> int + bts_info list" where
  "parse_blocks junk scens [] = Inr []"
| "parse_blocks junk scens (b # bs) =
     (case parse_block junk scens b of
        Inl e \<Rightarrow> Inl e
      | Inr i \<Rightarrow> (case parse_blocks junk scens bs of Inl e \<Rightarrow> Inl e | Inr is \<Rightarrow> Inr (i # is)))"

text \<open>The pairs of cells of \<^verbatim>\<open>bus1_int_map\<close>.\<close>

fun pairs :: "u32 list \<Rightarrow> (u32 \<times> u32) list" where
  "pairs (a # b # xs) = (a, b) # pairs xs"
| "pairs _ = []"

text \<open>
  More than 16 cells are read into an array of 16: a fault. \<open>mif\<close> and \<open>intr\<close> are the addresses of
  the two PM QoS requests, \<open>m\<close> and \<open>q\<close> the registers and the PM QoS state; memory allocation and mapping
  succeed.
\<close>

definition bts_parse_data ::
  "u32 \<Rightarrow> bts_dt \<Rightarrow> nat \<Rightarrow> nat \<Rightarrow> regs \<Rightarrow> pm_qos \<Rightarrow> (int + bts_device) option" where
  "bts_parse_data junk dt mif intr m q =
     (case dt_bus1 dt of
        None \<Rightarrow> Some (Inl (- ENODEV))
      | Some cells \<Rightarrow>
          if cells = [] \<or> odd (length cells) then Some (Inl (- ENODEV))
          else if length cells > OF_DATA_NUM_MAX then None
          else if dt_scens dt = [] then Some (Inl (- EINVAL))
          else if dt_rts dt = [] then Some (Inl (- EINVAL))
          else if dt_blocks dt = [] then Some (Inl (- EINVAL))
          else
            (case parse_blocks junk (dt_scens dt) (dt_blocks dt) of
               Inl e \<Rightarrow> Some (Inl e)
             | Inr infos \<Rightarrow>
                 Some (Inr \<lparr>top_scen = ID_DEFAULT, bts_list = infos,
                   scen_list = map (\<lambda>(i, n). \<lparr>sc_index = i, sc_status = False, usage_count = 0, sc_name = n\<rparr>)
                                 (enumerate 0 (dt_scens dt)),
                   scen_node = [], bts_bws = replicate (length (dt_blocks dt)) zero_bw,
                   rt_names = dt_rts dt, peak_bw = 0, total_bw = 0, bus1_int_tbl = Some (pairs cells),
                   btsdbg_log = False, bts_regs = m, exynos_mif_qos = mif, exynos_int_qos = intr, pmqos = q\<rparr>)))"

definition bts_probe ::
  "u32 \<Rightarrow> bts_dt \<Rightarrow> nat \<Rightarrow> nat \<Rightarrow> regs \<Rightarrow> pm_qos \<Rightarrow> (int + bts_device) option" where
  "bts_probe junk dt mif intr m q =
     (case bts_parse_data junk dt mif intr m q of
        None \<Rightarrow> None
      | Some (Inl e) \<Rightarrow> Some (Inl e)
      | Some (Inr d) \<Rightarrow>
          (case bts_initialize d of
             None \<Rightarrow> None
           | Some (ret, d1) \<Rightarrow>
               if ret \<noteq> 0 then Some (Inl ret)
               else
                 (case exynos_pm_qos_add_request_trace ''bts_probe'' 1635 (Some mif) PM_QOS_BUS_THROUGHPUT 0 (pmqos d1) of
                    None \<Rightarrow> None
                  | Some q1 \<Rightarrow>
                      (case exynos_pm_qos_add_request_trace ''bts_probe'' 1636 (Some intr) PM_QOS_DEVICE_THROUGHPUT 0 q1 of
                         None \<Rightarrow> None
                       | Some q2 \<Rightarrow> Some (Inr (d1\<lparr>pmqos := q2\<rparr>))))))"

subsection \<open>Writes to the debugfs files\<close>

text \<open>
  \<open>vals\<close> are the numbers \<^verbatim>\<open>sscanf\<close> converted and \<open>buf_size\<close> what \<^verbatim>\<open>simple_write_to_buffer\<close> returned; an
  index is compared as unsigned, so a negative one is too large. \<open>local\<close> is the uninitialised local
  \<^verbatim>\<open>stat\<close>.
\<close>

definition exynos_bts_scenario_write :: "int \<Rightarrow> s32 list \<Rightarrow> bts_device \<Rightarrow> (int \<times> bts_device) option" where
  "exynos_bts_scenario_write buf_size vals d =
     (if buf_size < 0 then Some (buf_size, d)
      else case vals of
        [scen, on] \<Rightarrow>
          if unat scen \<ge> length (scen_list d) then Some (- EINVAL, d)
          else if on = 1 then map_option (\<lambda>(_, d1). (buf_size, d1)) (bts_add_scenario (unat scen) d)
          else if on = 0 then map_option (\<lambda>(_, d1). (buf_size, d1)) (bts_del_scenario (unat scen) d)
          else Some (buf_size, d)
      | _ \<Rightarrow> Some (- EINVAL, d))"

text \<open>The common end of the writes below: the setter on the local copy, when the block is on.\<close>

definition block_write :: "set_fn option \<Rightarrow> nat \<Rightarrow> bts_stat \<Rightarrow> int \<Rightarrow> bts_device \<Rightarrow> int \<times> bts_device" where
  "block_write f index stat buf_size d =
     (case f of
        Some setter \<Rightarrow>
          if pd_on (bts_list d ! index)
          then (let (_, _, m1) = setter (va_base (bts_list d ! index)) stat (bts_regs d) in (buf_size, d\<lparr>bts_regs := m1\<rparr>))
          else (buf_size, d)
      | None \<Rightarrow> (buf_size, d))"

definition exynos_bts_qos_write :: "bts_stat \<Rightarrow> int \<Rightarrow> s32 list \<Rightarrow> bts_device \<Rightarrow> (int \<times> bts_device) option" where
  "exynos_bts_qos_write local buf_size vals d =
     (if buf_size < 0 then Some (buf_size, d)
      else case vals of
        [ix, byp, ar, aw] \<Rightarrow>
          if unat ix \<ge> length (bts_list d) then Some (- EINVAL, d)
          else
            (let info = bts_list d ! unat ix
             in case (if btstype info = SCI_BTS then map_option hd (settings info) else Some local) of
                  None \<Rightarrow> None
                | Some s0 \<Rightarrow>
                    (let s1 = (if byp = 0 then s0\<lparr>bypass := False\<rparr> else if byp = 1 then s0\<lparr>bypass := True\<rparr> else s0)
                     in Some (block_write (set_qos (register_btsops (btstype info))) (unat ix)
                          (s1\<lparr>arqos := ar, awqos := aw\<rparr>) buf_size d)))
      | _ \<Rightarrow> Some (- EINVAL, d))"

definition exynos_bts_mo_write :: "bts_stat \<Rightarrow> int \<Rightarrow> s32 list \<Rightarrow> bts_device \<Rightarrow> int \<times> bts_device" where
  "exynos_bts_mo_write local buf_size vals d =
     (if buf_size < 0 then (buf_size, d)
      else case vals of
        [ix, r, w] \<Rightarrow>
          if unat ix \<ge> length (bts_list d) then (- EINVAL, d)
          else block_write (set_mo (register_btsops (btstype (bts_list d ! unat ix)))) (unat ix)
                 (local\<lparr>rmo := r, wmo := w\<rparr>) buf_size d
      | _ \<Rightarrow> (- EINVAL, d))"

definition exynos_bts_urgent_write :: "bts_stat \<Rightarrow> int \<Rightarrow> s32 list \<Rightarrow> bts_device \<Rightarrow> int \<times> bts_device" where
  "exynos_bts_urgent_write local buf_size vals d =
     (if buf_size < 0 then (buf_size, d)
      else case vals of
        [ix, on, th_r, th_w, ex_on] \<Rightarrow>
          if unat ix \<ge> length (bts_list d) then (- EINVAL, d)
          else block_write (set_urgent (register_btsops (btstype (bts_list d ! unat ix)))) (unat ix)
                 (local\<lparr>qurgent_on := (on \<noteq> 0), qurgent_th_r := th_r, qurgent_th_w := th_w,
                        ex_qurgent_on := (ex_on \<noteq> 0)\<rparr>) buf_size d
      | _ \<Rightarrow> (- EINVAL, d))"

definition exynos_bts_blocking_write :: "bts_stat \<Rightarrow> int \<Rightarrow> s32 list \<Rightarrow> bts_device \<Rightarrow> int \<times> bts_device" where
  "exynos_bts_blocking_write local buf_size vals d =
     (if buf_size < 0 then (buf_size, d)
      else case vals of
        [ix, on, full_r, full_w, busy_r, busy_w, max0_r, max0_w, max1_r, max1_w] \<Rightarrow>
          if unat ix \<ge> length (bts_list d) then (- EINVAL, d)
          else block_write (set_blocking (register_btsops (btstype (bts_list d ! unat ix)))) (unat ix)
                 (local\<lparr>blocking_on := (on \<noteq> 0), qfull_limit_r := full_r, qfull_limit_w := full_w,
                        qbusy_limit_r := busy_r, qbusy_limit_w := busy_w, qmax0_limit_r := max0_r,
                        qmax0_limit_w := max0_w, qmax1_limit_r := max1_r, qmax1_limit_w := max1_w\<rparr>) buf_size d
      | _ \<Rightarrow> (- EINVAL, d))"

definition exynos_bts_log_write :: "int \<Rightarrow> s32 list \<Rightarrow> bts_device \<Rightarrow> int \<times> bts_device" where
  "exynos_bts_log_write buf_size vals d =
     (if buf_size < 0 then (buf_size, d)
      else case vals of
        [status] \<Rightarrow> (buf_size, if status = 1 then d\<lparr>btsdbg_log := True\<rparr>
                               else if status = 0 then d\<lparr>btsdbg_log := False\<rparr> else d)
      | _ \<Rightarrow> (- EINVAL, d))"

end
