(* ===== verification/BtsRegs.thy ===== *)
theory BtsRegs
  imports BtsIo
begin

text \<open>
  What the register writes of the bus traffic shaper amount to: reading a block back gives the
  settings it was programmed with, clamped to their fields, and programming one block does not touch
  the registers of another.
\<close>

subsection \<open>Fields\<close>

lemma bts_masks [btsreg]: "MAX_QOS = mask 4" "SCIMAX_QOS = mask 2" "MAX_MO = mask 16" "MAX_QUTH = mask 8" "(1 :: u32) = mask 1"
  by (simp_all add: mask_eq_exp_minus_1)

lemma bit_field_get [btsreg]: "bit (field_get (mask n) k r) i \<longleftrightarrow> i < n \<and> bit r (i + k)"
  by (auto simp: field_get_def bit_simps add.commute dest: bit_imp_le_length)

lemma bit_field_put [btsreg]:
  "bit (field_put (mask n) k v r) i \<longleftrightarrow> i < 32 \<and> (bit r i \<and> \<not> (k \<le> i \<and> i < n + k) \<or> k \<le> i \<and> bit v (i - k))"
  by (auto simp: field_put_def bit_simps less_diff_conv2 dest: bit_imp_le_length)

text \<open>A value that fits the field.\<close>

definition fits :: "nat \<Rightarrow> u32 \<Rightarrow> bool" where
  "fits n v \<longleftrightarrow> take_bit n v = v"

lemma fits_bit: "fits n v \<Longrightarrow> bit v i \<Longrightarrow> i < n"
  unfolding fits_def by (metis bit_take_bit_iff)

lemma fits_mask: "v \<le> mask n \<Longrightarrow> fits n v"
proof -
  assume "v \<le> mask n"
  then have "uint v \<le> uint (mask n :: u32)" by (simp add: word_le_def)
  also have "\<dots> < 2 ^ n" using mask_eq_iff [of "mask n :: u32" n] by simp
  finally have "v AND mask n = v" by (simp add: mask_eq_iff)
  then show ?thesis by (simp add: fits_def take_bit_eq_mask)
qed

lemma fits_clamp [btsreg]: "fits n (clamp (mask n) v)"
  by (rule fits_mask) (simp add: clamp_def not_less)

lemma fits_clamp_mo [btsreg]: "fits 16 (clamp_mo v)"
  using bts_masks(3) by (intro fits_mask) (simp add: clamp_mo_def not_less)

lemma field_get_put:
  assumes "fits n v" and "n + k \<le> 32"
  shows "field_get (mask n) k (field_put (mask n) k v r) = v"
  by (rule bit_word_eqI) (use assms fits_bit [OF assms(1)] in \<open>force simp: bit_field_get bit_field_put\<close>)

text \<open>A field read only depends on its own bits.\<close>

lemma field_get_cong:
  assumes "\<And>i. i < n \<Longrightarrow> bit r (i + k) = bit r' (i + k)"
  shows "field_get (mask n) k r = field_get (mask n) k r'"
  by (rule bit_word_eqI) (use assms in \<open>auto simp: bit_field_get\<close>)

lemma field_get_bit: "(field_get 1 k r = 0) = (\<not> bit r k)"
proof -
  have "bit (field_get (mask 1) k r) i \<longleftrightarrow> i = 0 \<and> bit r k" for i
    unfolding bit_field_get by auto
  then have "field_get (mask 1) k r = (if bit r k then 1 else 0)"
    by (intro bit_word_eqI) (auto simp: bit_1_iff)
  then show ?thesis by (simp only: bts_masks(5)) simp
qed

subsection \<open>Programming a block of type IP\<close>

text \<open>The registers of such a block, and the settings they hold.\<close>

definition ip_regs :: "u64 \<Rightarrow> u64 set" where
  "ip_regs base = (+) base ` {CON, TIMEOUT, RCON, RBLK_UPPER, RBLK_UPPER_FULL, RBLK_UPPER_BUSY, RBLK_UPPER_MAX,
     WCON, WBLK_UPPER, WBLK_UPPER_FULL, WBLK_UPPER_BUSY, WBLK_UPPER_MAX}"

definition qos_reads :: "u64 \<Rightarrow> bts_stat \<Rightarrow> regs \<Rightarrow> bool" where
  "qos_reads base s m \<longleftrightarrow>
     (let r = snd (get_ipbts_qos base zero_stat m)
      in bypass r = bypass s \<and> (\<not> bypass s \<longrightarrow> arqos r = clamp MAX_QOS (arqos s) \<and> awqos r = clamp MAX_QOS (awqos s)))"

definition mo_reads :: "u64 \<Rightarrow> bts_stat \<Rightarrow> regs \<Rightarrow> bool" where
  "mo_reads base s m \<longleftrightarrow>
     (let r = snd (get_ipbts_mo base zero_stat m) in rmo r = clamp_mo (rmo s) \<and> wmo r = clamp_mo (wmo s))"

definition urgent_reads :: "u64 \<Rightarrow> bts_stat \<Rightarrow> regs \<Rightarrow> bool" where
  "urgent_reads base s m \<longleftrightarrow>
     (let r = snd (get_ipbts_urgent base zero_stat m)
      in qurgent_on r = qurgent_on s \<and> ex_qurgent_on r = ex_qurgent_on s \<and>
         qurgent_th_r r = clamp MAX_QUTH (qurgent_th_r s) \<and> qurgent_th_w r = clamp MAX_QUTH (qurgent_th_w s))"

definition blocking_reads :: "u64 \<Rightarrow> bts_stat \<Rightarrow> regs \<Rightarrow> bool" where
  "blocking_reads base s m \<longleftrightarrow>
     (let r = snd (get_ipbts_blocking base zero_stat m)
      in blocking_on r = blocking_on s \<and>
         (blocking_on s \<longrightarrow>
            qfull_limit_r r = clamp MAX_MO (qfull_limit_r s) \<and> qfull_limit_w r = clamp MAX_MO (qfull_limit_w s) \<and>
            qbusy_limit_r r = clamp MAX_MO (qbusy_limit_r s) \<and> qbusy_limit_w r = clamp MAX_MO (qbusy_limit_w s) \<and>
            qmax0_limit_r r = clamp MAX_MO (qmax0_limit_r s) \<and> qmax0_limit_w r = clamp MAX_MO (qmax0_limit_w s) \<and>
            qmax1_limit_r r = clamp MAX_MO (qmax1_limit_r s) \<and> qmax1_limit_w r = clamp MAX_MO (qmax1_limit_w s)))"

lemmas reads_defs = qos_reads_def mo_reads_def urgent_reads_def blocking_reads_def Let_def
  get_ipbts_qos_def get_ipbts_mo_def get_ipbts_urgent_def get_ipbts_blocking_def

text \<open>What the bits of the written words are.\<close>

lemma bit_256: "bit (256 :: int) i \<longleftrightarrow> i = 8"
  using bit_push_bit_iff [of 8 "1 :: int" i] by (auto simp: bit_1_iff)

lemma qos_word:
  assumes "fits 4 v"
  shows "field_get MAX_QOS 12 ((r AND NOT (push_bit 8 1 OR push_bit 12 MAX_QOS)) OR (push_bit 8 1 OR push_bit 12 v)) = v"
    "field_get 1 8 ((r AND NOT (push_bit 8 1 OR push_bit 12 MAX_QOS)) OR (push_bit 8 1 OR push_bit 12 v)) \<noteq> 0"
    "field_get 1 8 (r AND NOT (push_bit 8 1)) = 0"
proof -
  let ?w = "(r AND NOT (push_bit 8 1 OR push_bit 12 (mask 4))) OR (push_bit 8 1 OR push_bit 12 v)"
  have v: "bit v i \<Longrightarrow> i < 4" for i using fits_bit [OF assms] by blast
  have "field_get (mask 4) 12 ?w = v"
  proof (rule bit_word_eqI)
    fix n assume "n < LENGTH(32)"
    show "bit (field_get (mask 4) 12 ?w) n = bit v n"
      unfolding bit_field_get using v [of n] by (auto simp: bit_simps bit_256)
  qed
  then show "field_get MAX_QOS 12 ((r AND NOT (push_bit 8 1 OR push_bit 12 MAX_QOS)) OR (push_bit 8 1 OR push_bit 12 v)) = v"
    by (simp only: bts_masks(1))
  show "field_get 1 8 ((r AND NOT (push_bit 8 1 OR push_bit 12 MAX_QOS)) OR (push_bit 8 1 OR push_bit 12 v)) \<noteq> 0"
    unfolding field_get_bit by (simp add: bit_simps)
  show "field_get 1 8 (r AND NOT (push_bit 8 1)) = 0"
    unfolding field_get_bit by (simp add: bit_simps)
qed

lemma two_fields:
  assumes "fits n v" and "fits n w" and "n \<le> 16"
  shows "field_get (mask n) 0 ((r AND NOT (push_bit 0 (mask n) OR push_bit 16 (mask n))) OR push_bit 0 v OR push_bit 16 w) = v"
    "field_get (mask n) 16 ((r AND NOT (push_bit 0 (mask n) OR push_bit 16 (mask n))) OR push_bit 0 v OR push_bit 16 w) = w"
proof -
  let ?w = "(r AND NOT (push_bit 0 (mask n) OR push_bit 16 (mask n))) OR push_bit 0 v OR push_bit 16 w"
  have v: "bit v i \<Longrightarrow> i < n" "bit w i \<Longrightarrow> i < n" for i using fits_bit assms by blast+
  show "field_get (mask n) 0 ?w = v"
  proof (rule bit_word_eqI)
    fix i assume "i < LENGTH(32)"
    then show "bit (field_get (mask n) 0 ?w) i = bit v i"
      unfolding bit_field_get using v [of i] assms(3) by (auto simp: bit_simps)
  qed
  show "field_get (mask n) 16 ?w = w"
  proof (rule bit_word_eqI)
    fix i assume i: "i < LENGTH(32)"
    show "bit (field_get (mask n) 16 ?w) i = bit w i"
      unfolding bit_field_get using v(2) [of i] v(1) [of "i + 16"] assms(3) by (auto simp: bit_simps)
  qed
qed

text \<open>The setters one by one, and what they leave alone.\<close>

lemma set_qos_reads:
  assumes "base \<noteq> 0" and "set_ipbts_qos base s m = (r, s1, m1)"
  shows "r = 0" "qos_reads base s m1"
proof -
  note q = qos_word [OF fits_clamp [of 4, folded bts_masks(1)]]
  show "r = 0" using assms by (auto simp: set_ipbts_qos_def Let_def split: if_splits)
  show "qos_reads base s m1"
  proof (cases "bypass s")
    case True
    then show ?thesis using assms q(3) by (auto simp: set_ipbts_qos_def reads_defs)
  next
    case False
    then have m1: "m1 (base + RCON) = (m (base + RCON) AND NOT (push_bit 8 1 OR push_bit 12 MAX_QOS)) OR (push_bit 8 1 OR push_bit 12 (clamp MAX_QOS (arqos s)))"
      "m1 (base + WCON) = (m (base + WCON) AND NOT (push_bit 8 1 OR push_bit 12 MAX_QOS)) OR (push_bit 8 1 OR push_bit 12 (clamp MAX_QOS (awqos s)))"
      using assms by (auto simp: set_ipbts_qos_def Let_def)
    show ?thesis using False assms(1) unfolding qos_reads_def get_ipbts_qos_def Let_def m1
      by (simp only: q if_False simp_thms snd_conv) simp
  qed
qed

lemma set_mo_reads:
  assumes "base \<noteq> 0" and "set_ipbts_mo base s m = (r, s1, m1)"
  shows "r = 0" "mo_reads base s m1" "\<And>a. a \<noteq> base + RBLK_UPPER \<Longrightarrow> a \<noteq> base + WBLK_UPPER \<Longrightarrow> m1 a = m a"
proof -
  have g: "field_get MAX_MO 0 (field_put MAX_MO 0 (clamp_mo v) x) = clamp_mo v" for v x
    unfolding bts_masks(3) by (rule field_get_put) (simp_all add: fits_clamp_mo)
  show "r = 0" "mo_reads base s m1" "\<And>a. a \<noteq> base + RBLK_UPPER \<Longrightarrow> a \<noteq> base + WBLK_UPPER \<Longrightarrow> m1 a = m a"
    using assms g by (auto simp: set_ipbts_mo_def reads_defs)
qed

lemma set_urgent_reads:
  assumes "base \<noteq> 0" and "set_ipbts_urgent base s m = (r, s1, m1)"
  shows "r = 0" "urgent_reads base s m1" "\<And>a. a \<noteq> base + TIMEOUT \<Longrightarrow> a \<noteq> base + CON \<Longrightarrow> m1 a = m a"
proof -
  let ?th_r = "clamp MAX_QUTH (qurgent_th_r s)" and ?th_w = "clamp MAX_QUTH (qurgent_th_w s)"
  let ?con = "m (base + CON) AND NOT (push_bit 23 1 OR push_bit 7 1)"
  show "r = 0" "\<And>a. a \<noteq> base + TIMEOUT \<Longrightarrow> a \<noteq> base + CON \<Longrightarrow> m1 a = m a"
    using assms by (auto simp: set_ipbts_urgent_def Let_def)
  have t: "m1 (base + TIMEOUT) = (m (base + TIMEOUT) AND NOT (push_bit 0 MAX_QUTH OR push_bit 16 MAX_QUTH)) OR push_bit 0 ?th_r OR push_bit 16 ?th_w"
    and c: "m1 (base + CON) = (let c1 = (if qurgent_on s then ?con OR push_bit 23 1 else ?con)
       in if ex_qurgent_on s then c1 OR push_bit 7 1 else c1)"
    using assms by (auto simp: set_ipbts_urgent_def Let_def)
  have "fits 8 ?th_r" "fits 8 ?th_w" unfolding bts_masks(4) by (rule fits_clamp)+
  note f = two_fields [OF this, of "m (base + TIMEOUT)", folded bts_masks(4)]
  have b: "bit (m1 (base + CON)) 23 = qurgent_on s" "bit (m1 (base + CON)) 7 = ex_qurgent_on s"
    unfolding c Let_def by (auto simp: bit_simps)
  show "urgent_reads base s m1"
    using assms(1) f b unfolding urgent_reads_def get_ipbts_urgent_def Let_def field_get_bit t by simp
qed

lemma set_blocking_reads:
  assumes "base \<noteq> 0" and "set_ipbts_blocking base s m = (r, s1, m1)"
  shows "r = 0" "blocking_reads base s m1"
proof -
  have g: "field_get MAX_MO 0 (field_put MAX_MO 0 (clamp MAX_MO v) x) = clamp MAX_MO v" for v x
    unfolding bts_masks(3) by (rule field_get_put) (simp_all add: fits_clamp)
  have f: "fits 16 (clamp MAX_MO v)" for v unfolding bts_masks(3) by (rule fits_clamp)
  note t = two_fields [OF f f order_refl, folded bts_masks(3)]
  have w: "(x AND NOT (push_bit 16 MAX_MO OR push_bit 0 MAX_MO)) OR (push_bit 16 b OR push_bit 0 a) =
      (x AND NOT (push_bit 0 MAX_MO OR push_bit 16 MAX_MO)) OR push_bit 0 a OR push_bit 16 b" for x a b :: u32
    by (simp only: ac_simps)
  have e: "field_put 1 0 1 x AND push_bit 0 1 \<noteq> 0" "x AND NOT (push_bit 0 1) AND push_bit 0 1 = 0" for x :: u32
    using field_get_bit [of 0 "field_put 1 0 1 x"] field_get_bit [of 0 "x AND NOT (push_bit 0 1)"]
    by (auto simp: field_get_def field_put_def bit_simps bit_0)
  show "r = 0" using assms by (auto simp: set_ipbts_blocking_def Let_def split: if_splits)
  show "blocking_reads base s m1"
  proof (cases "blocking_on s")
    case True
    then show ?thesis using assms g t e unfolding set_ipbts_blocking_def w
      by (auto simp: blocking_reads_def get_ipbts_blocking_def Let_def)
  next
    case False
    have "(x AND - 2) AND 1 = 0" for x :: u32 by (simp add: and.assoc)
    then show ?thesis using False assms unfolding set_ipbts_blocking_def
      by (auto simp: blocking_reads_def get_ipbts_blocking_def Let_def)
  qed
qed

lemma set_blocking_frame:
  assumes "base \<noteq> 0" and "set_ipbts_blocking base s m = (r, s1, m1)"
  shows "m1 (base + CON) = m (base + CON)" "m1 (base + TIMEOUT) = m (base + TIMEOUT)"
    "m1 (base + RBLK_UPPER) = m (base + RBLK_UPPER)" "m1 (base + WBLK_UPPER) = m (base + WBLK_UPPER)"
    "i \<noteq> 0 \<Longrightarrow> bit (m1 (base + RCON)) i = bit (m (base + RCON)) i"
    "i \<noteq> 0 \<Longrightarrow> bit (m1 (base + WCON)) i = bit (m (base + WCON)) i"
  using assms bit_imp_le_length [of "m (base + RCON)" i] bit_imp_le_length [of "m (base + WCON)" i]
  by (auto simp: set_ipbts_blocking_def Let_def field_put_def bit_simps bit_1_iff split: if_splits)

text \<open>What each reading depends on.\<close>

lemma qos_reads_cong:
  assumes "\<And>i. i \<noteq> 0 \<Longrightarrow> bit (m1 (base + RCON)) i = bit (m (base + RCON)) i"
    and "\<And>i. i \<noteq> 0 \<Longrightarrow> bit (m1 (base + WCON)) i = bit (m (base + WCON)) i"
  shows "qos_reads base s m1 = qos_reads base s m"
proof -
  have f: "field_get (mask n) k (m1 (base + RCON)) = field_get (mask n) k (m (base + RCON))"
    "field_get (mask n) k (m1 (base + WCON)) = field_get (mask n) k (m (base + WCON))" if "k \<noteq> 0" for n k
    using that assms by (auto intro!: field_get_cong)
  show ?thesis unfolding qos_reads_def get_ipbts_qos_def Let_def bts_masks(1,5)
    using f [of 8 1] f [of 12 4] by simp
qed

lemma reads_cong:
  "m1 (base + RBLK_UPPER) = m (base + RBLK_UPPER) \<Longrightarrow> m1 (base + WBLK_UPPER) = m (base + WBLK_UPPER) \<Longrightarrow>
   mo_reads base s m1 = mo_reads base s m"
  "m1 (base + CON) = m (base + CON) \<Longrightarrow> m1 (base + TIMEOUT) = m (base + TIMEOUT) \<Longrightarrow>
   urgent_reads base s m1 = urgent_reads base s m"
  by (simp_all add: reads_defs)

definition ip_reads :: "u64 \<Rightarrow> bts_stat \<Rightarrow> regs \<Rightarrow> bool" where
  "ip_reads base s m \<longleftrightarrow> qos_reads base s m \<and> mo_reads base s m \<and> urgent_reads base s m \<and> blocking_reads base s m"

text \<open>The settings returned are the clamped ones, which read the same.\<close>

lemma clamp_idem [simp]: "clamp k (clamp k v) = clamp k v" "clamp_mo (clamp_mo v) = clamp_mo v"
  by (simp_all add: clamp_def clamp_mo_def)

definition same_setting :: "bts_stat \<Rightarrow> bts_stat \<Rightarrow> bool" where
  "same_setting s s' \<longleftrightarrow> stat_on s' = stat_on s \<and> qos_va_base s' = qos_va_base s \<and>
     (\<forall>b m. qos_reads b s' m = qos_reads b s m \<and> mo_reads b s' m = mo_reads b s m \<and>
        urgent_reads b s' m = urgent_reads b s m \<and> blocking_reads b s' m = blocking_reads b s m)"

lemma same_setting_refl [simp]: "same_setting s s"
  by (simp add: same_setting_def)

lemma same_setting_trans: "same_setting a b \<Longrightarrow> same_setting b c \<Longrightarrow> same_setting a c"
  by (simp add: same_setting_def)

lemmas part_reads = qos_reads_def mo_reads_def urgent_reads_def blocking_reads_def Let_def

lemma setters_same:
  "set_ipbts_qos base s m = (r, s1, m1) \<Longrightarrow> same_setting s s1"
  "set_ipbts_mo base s m = (r, s1, m1) \<Longrightarrow> same_setting s s1"
  "set_ipbts_urgent base s m = (r, s1, m1) \<Longrightarrow> same_setting s s1"
  "set_ipbts_blocking base s m = (r, s1, m1) \<Longrightarrow> same_setting s s1"
proof -
  have "same_setting s (s\<lparr>arqos := clamp MAX_QOS (arqos s), awqos := clamp MAX_QOS (awqos s)\<rparr>)"
    unfolding same_setting_def part_reads by simp
  then show "set_ipbts_qos base s m = (r, s1, m1) \<Longrightarrow> same_setting s s1"
    by (auto simp: set_ipbts_qos_def Let_def split: if_splits)
  have "same_setting s (s\<lparr>rmo := clamp_mo (rmo s), wmo := clamp_mo (wmo s)\<rparr>)"
    unfolding same_setting_def part_reads by simp
  then show "set_ipbts_mo base s m = (r, s1, m1) \<Longrightarrow> same_setting s s1"
    by (auto simp: set_ipbts_mo_def Let_def split: if_splits)
  have "same_setting s (s\<lparr>qurgent_th_r := clamp MAX_QUTH (qurgent_th_r s), qurgent_th_w := clamp MAX_QUTH (qurgent_th_w s)\<rparr>)"
    unfolding same_setting_def part_reads by simp
  then show "set_ipbts_urgent base s m = (r, s1, m1) \<Longrightarrow> same_setting s s1"
    by (auto simp: set_ipbts_urgent_def Let_def split: if_splits)
  have "same_setting s (s\<lparr>qfull_limit_r := clamp MAX_MO (qfull_limit_r s), qfull_limit_w := clamp MAX_MO (qfull_limit_w s),
     qbusy_limit_r := clamp MAX_MO (qbusy_limit_r s), qbusy_limit_w := clamp MAX_MO (qbusy_limit_w s),
     qmax0_limit_r := clamp MAX_MO (qmax0_limit_r s), qmax0_limit_w := clamp MAX_MO (qmax0_limit_w s),
     qmax1_limit_r := clamp MAX_MO (qmax1_limit_r s), qmax1_limit_w := clamp MAX_MO (qmax1_limit_w s)\<rparr>)"
    unfolding same_setting_def part_reads by simp
  then show "set_ipbts_blocking base s m = (r, s1, m1) \<Longrightarrow> same_setting s s1"
    by (auto simp: set_ipbts_blocking_def Let_def split: if_splits)
qed

lemma setters_frame:
  "set_ipbts_qos base s m = (r, s1, m1) \<Longrightarrow> a \<notin> ip_regs base \<Longrightarrow> m1 a = m a"
  "set_ipbts_mo base s m = (r, s1, m1) \<Longrightarrow> a \<notin> ip_regs base \<Longrightarrow> m1 a = m a"
  "set_ipbts_urgent base s m = (r, s1, m1) \<Longrightarrow> a \<notin> ip_regs base \<Longrightarrow> m1 a = m a"
  "set_ipbts_blocking base s m = (r, s1, m1) \<Longrightarrow> a \<notin> ip_regs base \<Longrightarrow> m1 a = m a"
  by (auto simp: set_ipbts_qos_def set_ipbts_mo_def set_ipbts_urgent_def set_ipbts_blocking_def Let_def
      ip_regs_def split: if_splits)

subsection \<open>The contract of a block\<close>

text \<open>
  \<open>setf\<close> programs a block, \<open>regs_of\<close> are the registers it may touch and \<open>reads\<close> says that the
  registers hold a setting; \<open>same\<close> settings differ only by clamping.
\<close>

locale hw_block =
  fixes setf :: set_fn
    and regs_of :: "u64 \<Rightarrow> bts_stat \<Rightarrow> u64 set"
    and reads :: "u64 \<Rightarrow> bts_stat \<Rightarrow> regs \<Rightarrow> bool"
    and same :: "bts_stat \<Rightarrow> bts_stat \<Rightarrow> bool"
  assumes set_reads: "base \<noteq> 0 \<Longrightarrow> stat_on s \<Longrightarrow> setf base s m = (r, s', m') \<Longrightarrow> reads base s m'"
    and set_frame: "setf base s m = (r, s', m') \<Longrightarrow> a \<notin> regs_of base s \<Longrightarrow> m' a = m a"
    and set_same: "setf base s m = (r, s', m') \<Longrightarrow> same s s'"
    and same_fixed: "same s s' \<Longrightarrow> stat_on s' = stat_on s \<and> qos_va_base s' = qos_va_base s"
    and reads_local: "(\<And>a. a \<in> regs_of base s \<Longrightarrow> m' a = m a) \<Longrightarrow> reads base s m' = reads base s m"
    and reads_same: "same s s' \<Longrightarrow> reads base s' m = reads base s m"
begin

text \<open>Programming a setting and reading it back as the code keeps it, clamped.\<close>

lemma set_then_reads:
  assumes "base \<noteq> 0" and "stat_on s" and "setf base s m = (r, s', m')"
  shows "reads base s' m' \<and> stat_on s'"
  using set_reads [OF assms] reads_same [OF set_same [OF assms(3)]] same_fixed [OF set_same [OF assms(3)]] assms(2)
  by simp

text \<open>Programming another block, with registers of its own, is not noticed.\<close>

lemma reads_kept:
  assumes "regs_of base s \<inter> touched = {}" and "\<And>a. a \<notin> touched \<Longrightarrow> m' a = m a"
  shows "reads base s m' = reads base s m"
  using assms by (intro reads_local) blast

end

lemma ip_contract:
  assumes b: "base \<noteq> 0" and on: "stat_on s" and set: "set_ipbts base s m = (r, s', m')"
  shows "ip_reads base s m'" "same_setting s s'" "\<And>a. a \<notin> ip_regs base \<Longrightarrow> m' a = m a"
proof -
  obtain r1 s1 m1 where 1: "set_ipbts_qos base s m = (r1, s1, m1)" by (metis prod_cases3)
  obtain r2 s2 m2 where 2: "set_ipbts_mo base s1 m1 = (r2, s2, m2)" by (metis prod_cases3)
  obtain r3 s3 m3 where 3: "set_ipbts_urgent base s2 m2 = (r3, s3, m3)" by (metis prod_cases3)
  obtain r4 s4 m4 where 4: "set_ipbts_blocking base s3 m3 = (r4, s4, m4)" by (metis prod_cases3)
  note q = set_qos_reads [OF b 1] and o = set_mo_reads [OF b 2] and u = set_urgent_reads [OF b 3]
    and k = set_blocking_reads [OF b 4] and kf = set_blocking_frame [OF b 4]
  have e: "s' = s4" "m' = m4" using set b on 1 2 3 4 q(1) o(1) u(1) k(1) by (simp_all add: set_ipbts_def)
  have s1: "same_setting s s1" and s2: "same_setting s s2" and s3: "same_setting s s3" and s4: "same_setting s s4"
    using setters_same(1) [OF 1] setters_same(2) [OF 2] setters_same(3) [OF 3] setters_same(4) [OF 4] same_setting_trans
    by blast+
  show "same_setting s s'" using s4 e by simp
  show "m' a = m a" if "a \<notin> ip_regs base" for a
    using that setters_frame(1) [OF 1] setters_frame(2) [OF 2] setters_frame(3) [OF 3] setters_frame(4) [OF 4] e by simp
  have m12: "m3 (base + RCON) = m1 (base + RCON)" "m3 (base + WCON) = m1 (base + WCON)"
    "m3 (base + RBLK_UPPER) = m2 (base + RBLK_UPPER)" "m3 (base + WBLK_UPPER) = m2 (base + WBLK_UPPER)"
    using o(3) u(3) by simp_all
  have "qos_reads base s m4" using q(2) qos_reads_cong [of m4 base m1] kf(5,6) m12 by simp
  moreover have "mo_reads base s1 m4" using o(2) reads_cong(1) kf m12 by metis
  moreover have "urgent_reads base s2 m4" using u(2) reads_cong(2) kf by metis
  moreover have "blocking_reads base s3 m4" by (rule k(2))
  ultimately show "ip_reads base s m'"
    using s1 s2 s3 e by (simp add: ip_reads_def same_setting_def)
qed

interpretation ip_block: hw_block set_ipbts "\<lambda>base s. ip_regs base" ip_reads same_setting
proof unfold_locales
  fix base s m r s' m' a
  assume set: "set_ipbts base s m = (r, s', m')"
  show "base \<noteq> 0 \<Longrightarrow> stat_on s \<Longrightarrow> ip_reads base s m'" using ip_contract(1) [OF _ _ set] .
  consider "base = 0 \<or> \<not> stat_on s" | "base \<noteq> 0" "stat_on s" by blast
  then show "same_setting s s'"
    by cases (use set ip_contract(2) [OF _ _ set] in \<open>auto simp: set_ipbts_def split: if_splits\<close>)
  consider "base = 0 \<or> \<not> stat_on s" | "base \<noteq> 0" "stat_on s" by blast
  then show "a \<notin> ip_regs base \<Longrightarrow> m' a = m a"
    by cases (use set ip_contract(3) [OF _ _ set] in \<open>auto simp: set_ipbts_def split: if_splits\<close>)
next
  fix base s and m m' :: regs
  assume a: "\<And>a. a \<in> ip_regs base \<Longrightarrow> m' a = m a"
  have "m' base = m base" "m' (base + TIMEOUT) = m (base + TIMEOUT)" "m' (base + RCON) = m (base + RCON)"
    "m' (base + WCON) = m (base + WCON)" "m' (base + RBLK_UPPER) = m (base + RBLK_UPPER)"
    "m' (base + WBLK_UPPER) = m (base + WBLK_UPPER)" "m' (base + RBLK_UPPER_FULL) = m (base + RBLK_UPPER_FULL)"
    "m' (base + WBLK_UPPER_FULL) = m (base + WBLK_UPPER_FULL)" "m' (base + RBLK_UPPER_BUSY) = m (base + RBLK_UPPER_BUSY)"
    "m' (base + WBLK_UPPER_BUSY) = m (base + WBLK_UPPER_BUSY)" "m' (base + RBLK_UPPER_MAX) = m (base + RBLK_UPPER_MAX)"
    "m' (base + WBLK_UPPER_MAX) = m (base + WBLK_UPPER_MAX)"
    using a by (simp_all add: ip_regs_def)
  then show "ip_reads base s m' = ip_reads base s m"
    unfolding ip_reads_def get_ipbts_qos_def get_ipbts_mo_def get_ipbts_urgent_def get_ipbts_blocking_def part_reads
    by (simp only: add_0_right)
next
  show "same_setting s s' \<Longrightarrow> ip_reads base s' m = ip_reads base s m" for s s' base m
    by (simp add: same_setting_def ip_reads_def)
  show "same_setting s s' \<Longrightarrow> stat_on s' = stat_on s \<and> qos_va_base s' = qos_va_base s" for s s'
    by (simp add: same_setting_def)
qed

text \<open>A block of type SCI: the register of the outstanding limits, and the two of the QoS area.\<close>

definition sci_regs :: "u64 \<Rightarrow> bts_stat \<Rightarrow> u64 set" where
  "sci_regs base s = {base} \<union> (if qos_va_base s = 0 then {} else {qos_va_base s, qos_va_base s + CORE_QOS_EN})"

definition sci_reads :: "u64 \<Rightarrow> bts_stat \<Rightarrow> regs \<Rightarrow> bool" where
  "sci_reads base s m \<longleftrightarrow> m base = (push_bit 16 (clamp_mo (rmo s)) OR push_bit 24 (clamp_mo (wmo s)))"

definition sci_same :: "bts_stat \<Rightarrow> bts_stat \<Rightarrow> bool" where
  "sci_same s s' \<longleftrightarrow> stat_on s' = stat_on s \<and> qos_va_base s' = qos_va_base s \<and>
     clamp_mo (rmo s') = clamp_mo (rmo s) \<and> clamp_mo (wmo s') = clamp_mo (wmo s)"

interpretation sci_block: hw_block set_scibts sci_regs sci_reads sci_same
proof unfold_locales
  fix base s m r s' m' a
  assume set: "set_scibts base s m = (r, s', m')"
  show "base \<noteq> 0 \<Longrightarrow> stat_on s \<Longrightarrow> sci_reads base s m'"
    using set by (auto simp: set_scibts_def set_scibts_qos_def set_scibts_mo_def sci_reads_def Let_def split: if_splits)
  show "sci_same s s'"
    using set by (auto simp: set_scibts_def set_scibts_qos_def set_scibts_mo_def sci_same_def Let_def split: if_splits)
  show "a \<notin> sci_regs base s \<Longrightarrow> m' a = m a"
    using set by (auto simp: set_scibts_def set_scibts_qos_def set_scibts_mo_def sci_regs_def Let_def split: if_splits)
qed (auto simp: sci_reads_def sci_same_def sci_regs_def)

end
