(* ===== verification/BtsInv.thy ===== *)
theory BtsInv
  imports BtsRegs PmQosInv
begin

text \<open>
  The invariant of the bus traffic shaper driver and its preservation: the blocks that are powered
  hold the settings of the top scenario, the top scenario is the highest one in use, and the two PM
  QoS requests are active in their classes.
\<close>

subsection \<open>Blocks of any type\<close>

definition block_regs :: "bts_info \<Rightarrow> u64 set" where
  "block_regs info =
     (case btstype info of
        IP_BTS \<Rightarrow> ip_regs (va_base info)
      | SCI_BTS \<Rightarrow> (case settings info of None \<Rightarrow> {} | Some ss \<Rightarrow> \<Union>s\<in>set ss. sci_regs (va_base info) s)
      | TREX_BTS \<Rightarrow> (+) (va_base info) ` {0, 0x100, 0x180, 0x200, 0x280}
      | SMC_BTS \<Rightarrow> {va_base info}
      | BUSC_BTS \<Rightarrow> {va_base info + 0x50, va_base info + 0x54}
      | _ \<Rightarrow> {})"

definition block_reads :: "bts_info \<Rightarrow> bts_stat \<Rightarrow> regs \<Rightarrow> bool" where
  "block_reads info s m =
     (case btstype info of IP_BTS \<Rightarrow> ip_reads (va_base info) s m | SCI_BTS \<Rightarrow> sci_reads (va_base info) s m | _ \<Rightarrow> True)"

lemma block_contract:
  assumes f: "set_bts (register_btsops (btstype info)) = Some f" and ss: "settings info = Some ss" "k < length ss"
    and set: "f (va_base info) (ss ! k) m = (r, s1, m1)"
  shows "va_base info \<noteq> 0 \<Longrightarrow> stat_on (ss ! k) \<Longrightarrow> block_reads info s1 m1"
    "\<And>a. a \<notin> block_regs info \<Longrightarrow> m1 a = m a" "stat_on s1 = stat_on (ss ! k)" "qos_va_base s1 = qos_va_base (ss ! k)"
proof -
  have "btstype info = IP_BTS \<and> f = set_ipbts \<or> btstype info = SCI_BTS \<and> f = set_scibts"
    using f by (cases "btstype info") (auto simp: only_init_def)
  then have "(va_base info \<noteq> 0 \<longrightarrow> stat_on (ss ! k) \<longrightarrow> block_reads info s1 m1) \<and> (\<forall>a. a \<notin> block_regs info \<longrightarrow> m1 a = m a) \<and>
    stat_on s1 = stat_on (ss ! k) \<and> qos_va_base s1 = qos_va_base (ss ! k)"
  proof
    assume t: "btstype info = IP_BTS \<and> f = set_ipbts"
    then have set': "set_ipbts (va_base info) (ss ! k) m = (r, s1, m1)" using set by simp
    show ?thesis
      using t ip_block.set_then_reads [OF _ _ set'] ip_block.set_frame [OF set'] ip_block.same_fixed [OF ip_block.set_same [OF set']]
      by (simp add: block_reads_def block_regs_def)
  next
    assume t: "btstype info = SCI_BTS \<and> f = set_scibts"
    then have set': "set_scibts (va_base info) (ss ! k) m = (r, s1, m1)" using set by simp
    have "sci_regs (va_base info) (ss ! k) \<subseteq> block_regs info"
      using t ss(1) nth_mem [OF ss(2)] by (auto simp: block_regs_def simp del: nth_mem)
    then show ?thesis
      using t sci_block.set_then_reads [OF _ _ set'] sci_block.set_frame [OF set'] sci_block.same_fixed [OF sci_block.set_same [OF set']]
      by (auto simp: block_reads_def)
  qed
  then show "va_base info \<noteq> 0 \<Longrightarrow> stat_on (ss ! k) \<Longrightarrow> block_reads info s1 m1"
    "\<And>a. a \<notin> block_regs info \<Longrightarrow> m1 a = m a" "stat_on s1 = stat_on (ss ! k)" "qos_va_base s1 = qos_va_base (ss ! k)"
    by simp_all
qed

lemma block_reads_kept:
  assumes "settings info = Some ss" and "s \<in> set ss" and "block_regs info \<inter> touched = {}"
    and "\<And>a. a \<notin> touched \<Longrightarrow> m' a = m a"
  shows "block_reads info s m' = block_reads info s m"
proof (cases "btstype info")
  case IP_BTS
  then show ?thesis using ip_block.reads_kept [OF _ assms(4)] assms(3) by (simp add: block_reads_def block_regs_def)
next
  case SCI_BTS
  then have "sci_regs (va_base info) s \<inter> touched = {}" using assms(1-3) by (auto simp: block_regs_def)
  then show ?thesis using SCI_BTS sci_block.reads_kept [OF _ assms(4)] by (simp add: block_reads_def)
qed (simp_all add: block_reads_def)

subsection \<open>The invariant of the hardware\<close>

text \<open>The setting a block gets in a scenario.\<close>

definition chosen :: "bts_stat list \<Rightarrow> nat \<Rightarrow> bts_stat" where
  "chosen ss scen = ss ! (if stat_on (ss ! scen) then scen else ID_DEFAULT)"

definition synced :: "nat \<Rightarrow> bts_info \<Rightarrow> regs \<Rightarrow> bool" where
  "synced scen info m \<longleftrightarrow>
     (pd_on info \<and> va_base info \<noteq> 0 \<longrightarrow>
        (\<forall>ss. settings info = Some ss \<longrightarrow> stat_on (chosen ss scen) \<longrightarrow> block_reads info (chosen ss scen) m))"

definition config_ok :: "bts_device \<Rightarrow> bool" where
  "config_ok d \<longleftrightarrow> 0 < length (scen_list d) \<and>
     (\<forall>info \<in> set (bts_list d). set_bts (register_btsops (btstype info)) \<noteq> None \<longrightarrow>
        (\<exists>ss. settings info = Some ss \<and> length ss = length (scen_list d))) \<and>
     (\<forall>i j. i < j \<and> j < length (bts_list d) \<longrightarrow> block_regs (bts_list d ! i) \<inter> block_regs (bts_list d ! j) = {})"

lemma config_disjoint:
  assumes "config_ok d" and "i < length (bts_list d)" and "j < length (bts_list d)" and "i \<noteq> j"
  shows "block_regs (bts_list d ! i) \<inter> block_regs (bts_list d ! j) = {}"
  using assms unfolding config_ok_def by (metis Int_commute linorder_neqE_nat)

lemma config_settings:
  assumes "config_ok d" and "i < length (bts_list d)" and "set_bts (register_btsops (btstype (bts_list d ! i))) = Some f"
  obtains ss where "settings (bts_list d ! i) = Some ss" "length ss = length (scen_list d)"
  using assms unfolding config_ok_def by (metis nth_mem option.distinct(1))

text \<open>A change of one block: its power state, the clamping of its settings, its registers.\<close>

definition like :: "bts_info \<Rightarrow> bts_info \<Rightarrow> bool" where
  "like info info' \<longleftrightarrow> btstype info' = btstype info \<and> va_base info' = va_base info \<and>
     block_regs info' = block_regs info \<and> map_option length (settings info') = map_option length (settings info)"

lemma like_refl [simp]: "like a a" by (simp add: like_def)

definition one_block :: "nat \<Rightarrow> bts_device \<Rightarrow> bts_device \<Rightarrow> bool" where
  "one_block i d d' \<longleftrightarrow>
     (\<exists>info m. d' = d\<lparr>bts_list := (bts_list d)[i := info], bts_regs := m\<rparr> \<and> like (bts_list d ! i) info \<and>
        (\<forall>a. a \<notin> block_regs (bts_list d ! i) \<longrightarrow> m a = bts_regs d a))"

lemma one_block_config:
  assumes one: "one_block i d d'" and i: "i < length (bts_list d)" and ok: "config_ok d"
  shows "config_ok d'" "length (bts_list d') = length (bts_list d)"
proof -
  obtain info m where d': "d' = d\<lparr>bts_list := (bts_list d)[i := info], bts_regs := m\<rparr>" and l: "like (bts_list d ! i) info"
    using one by (auto simp: one_block_def)
  show len: "length (bts_list d') = length (bts_list d)" by (simp add: d')
  have each: "like (bts_list d ! j) (bts_list d' ! j)" if "j < length (bts_list d)" for j
    using that l by (cases "j = i") (simp_all add: d')
  have "\<exists>ss. settings info' = Some ss \<and> length ss = length (scen_list d')"
    if in': "info' \<in> set (bts_list d')" and f: "set_bts (register_btsops (btstype info')) \<noteq> None" for info'
  proof -
    obtain j where j: "j < length (bts_list d)" "info' = bts_list d' ! j" using in' len by (metis in_set_conv_nth)
    obtain g where "set_bts (register_btsops (btstype (bts_list d ! j))) = Some g" using each [OF j(1)] j(2) f by (auto simp: like_def)
    then obtain ss where "settings (bts_list d ! j) = Some ss" "length ss = length (scen_list d)"
      using config_settings [OF ok j(1)] by metis
    then show ?thesis using each [OF j(1)] j(2) by (auto simp: like_def d')
  qed
  moreover have "block_regs (bts_list d' ! j) \<inter> block_regs (bts_list d' ! k) = {}" if "j < k" "k < length (bts_list d')" for j k
    using that len each [of j] each [of k] config_disjoint [OF ok, of j k] by (simp add: like_def)
  ultimately show "config_ok d'" using ok by (simp add: config_ok_def d')
qed

lemma one_block_others:
  assumes one: "one_block i d d'" and i: "i < length (bts_list d)" and ok: "config_ok d"
    and j: "j < length (bts_list d)" "j \<noteq> i" and scen: "scen < length (scen_list d)"
  shows "synced scen (bts_list d' ! j) (bts_regs d') = synced scen (bts_list d ! j) (bts_regs d)"
proof -
  obtain info m where d': "d' = d\<lparr>bts_list := (bts_list d)[i := info], bts_regs := m\<rparr>"
    and m: "\<And>a. a \<notin> block_regs (bts_list d ! i) \<Longrightarrow> m a = bts_regs d a" using one by (auto simp: one_block_def)
  have dis: "block_regs (bts_list d ! j) \<inter> block_regs (bts_list d ! i) = {}" using config_disjoint [OF ok j(1) i j(2)] .
  have "block_reads (bts_list d ! j) (chosen ss scen) m = block_reads (bts_list d ! j) (chosen ss scen) (bts_regs d)"
    if "settings (bts_list d ! j) = Some ss" for ss
  proof (cases "set_bts (register_btsops (btstype (bts_list d ! j)))")
    case None
    then show ?thesis by (cases "btstype (bts_list d ! j)") (simp_all add: block_reads_def)
  next
    case (Some f)
    then have "length ss = length (scen_list d)" using config_settings [OF ok j(1) Some] that by auto
    then have "chosen ss scen \<in> set ss" using scen by (auto simp: chosen_def intro!: nth_mem)
    then show ?thesis using m by (intro block_reads_kept [OF that _ dis]) simp_all
  qed
  then show ?thesis using j by (auto simp: synced_def d')
qed

text \<open>The outcome of a loop over blocks: nothing but the blocks and the registers changes.\<close>

definition frame :: "bts_device \<Rightarrow> bts_device \<Rightarrow> bool" where
  "frame d d' \<longleftrightarrow> (\<exists>l m. d' = d\<lparr>bts_list := l, bts_regs := m\<rparr> \<and> length l = length (bts_list d)) \<and> (config_ok d \<longrightarrow> config_ok d')"

lemma frame_refl [simp]: "frame d d"
  unfolding frame_def by (metis bts_device.surjective bts_device.update_convs(2,11))

lemma frame_trans:
  assumes "frame a b" and "frame b c"
  shows "frame a c"
proof -
  obtain l m n k where "b = a\<lparr>bts_list := l, bts_regs := m\<rparr>" "length l = length (bts_list a)"
    "c = b\<lparr>bts_list := n, bts_regs := k\<rparr>" "length n = length (bts_list b)"
    using assms unfolding frame_def by metis
  then have "c = a\<lparr>bts_list := n, bts_regs := k\<rparr>" "length n = length (bts_list a)" by simp_all
  then show ?thesis using assms unfolding frame_def by blast
qed

lemma frameD:
  assumes "frame d d'"
  shows "top_scen d' = top_scen d" "scen_list d' = scen_list d" "scen_node d' = scen_node d" "bts_bws d' = bts_bws d"
    "bus1_int_tbl d' = bus1_int_tbl d" "pmqos d' = pmqos d" "exynos_mif_qos d' = exynos_mif_qos d"
    "exynos_int_qos d' = exynos_int_qos d" "length (bts_list d') = length (bts_list d)" "config_ok d \<Longrightarrow> config_ok d'"
  using assms by (auto simp: frame_def)

lemma one_block_frame:
  assumes "one_block i d d'" and "i < length (bts_list d)"
  shows "frame d d'"
proof -
  obtain info m where "d' = d\<lparr>bts_list := (bts_list d)[i := info], bts_regs := m\<rparr>"
    using assms(1) by (auto simp: one_block_def)
  then show ?thesis using one_block_config(1) [OF assms] by (auto simp: frame_def)
qed

lemma one_block_trans:
  assumes "one_block i d d1" and "one_block i d1 d2" and "i < length (bts_list d)"
  shows "one_block i d d2"
proof -
  obtain a m b n where 1: "d1 = d\<lparr>bts_list := (bts_list d)[i := a], bts_regs := m\<rparr>" "like (bts_list d ! i) a"
    "\<And>x. x \<notin> block_regs (bts_list d ! i) \<Longrightarrow> m x = bts_regs d x"
    and 2: "d2 = d1\<lparr>bts_list := (bts_list d1)[i := b], bts_regs := n\<rparr>" "like (bts_list d1 ! i) b"
    "\<And>x. x \<notin> block_regs (bts_list d1 ! i) \<Longrightarrow> n x = bts_regs d1 x"
    using assms(1,2) unfolding one_block_def by metis
  have "d2 = d\<lparr>bts_list := (bts_list d)[i := b], bts_regs := n\<rparr>" "like (bts_list d ! i) b"
    "\<forall>x. x \<notin> block_regs (bts_list d ! i) \<longrightarrow> n x = bts_regs d x"
    using 1 2 assms(3) by (simp_all add: like_def)
  then show ?thesis unfolding one_block_def by blast
qed

subsection \<open>Programming the blocks\<close>

lemma block_regs_settings:
  assumes "settings info = Some ss" and "k < length ss" and "qos_va_base s1 = qos_va_base (ss ! k)"
  shows "block_regs (info\<lparr>settings := Some (ss[k := s1])\<rparr>) = block_regs info"
proof -
  have "map (sci_regs (va_base info)) (ss[k := s1]) = map (sci_regs (va_base info)) ss"
    using assms(2,3) by (simp add: map_update sci_regs_def list_update_same_conv)
  then have "(\<Union>s\<in>set (ss[k := s1]). sci_regs (va_base info) s) = (\<Union>s\<in>set ss. sci_regs (va_base info) s)"
    by (metis list.set_map)
  then show ?thesis using assms(1) by (simp add: block_regs_def split: bts_type.split)
qed

lemma block_reads_settings [simp]: "block_reads (info\<lparr>settings := x\<rparr>) s m = block_reads info s m"
  by (simp add: block_reads_def split: bts_type.split)

lemma one_block_refl: "one_block i d d"
  unfolding one_block_def by (rule exI [where x = "bts_list d ! i"], rule exI [where x = "bts_regs d"]) simp

lemma bts_set_ok:
  assumes ok: "config_ok d" and i: "i < length (bts_list d)" and scen: "scen < length (scen_list d)"
  obtains d' where "bts_set scen i d = Some d'" and "one_block i d d'" and "pd_on (bts_list d' ! i) = pd_on (bts_list d ! i)"
    and "synced scen (bts_list d' ! i) (bts_regs d')"
proof (cases "set_bts (register_btsops (btstype (bts_list d ! i)))")
  case None
  then have "bts_set scen i d = Some d" by (simp add: bts_set_def)
  moreover have "synced scen (bts_list d ! i) (bts_regs d)"
    using None by (cases "btstype (bts_list d ! i)") (simp_all add: synced_def block_reads_def)
  ultimately show thesis using that one_block_refl by simp
next
  case (Some f)
  let ?info = "bts_list d ! i"
  obtain ss where ss: "settings ?info = Some ss" "length ss = length (scen_list d)" using config_settings [OF ok i Some] .
  let ?k = "if stat_on (ss ! scen) then scen else ID_DEFAULT"
  have k: "?k < length ss" using scen ss(2) by auto
  obtain r s1 m1 where set: "f (va_base ?info) (ss ! ?k) (bts_regs d) = (r, s1, m1)" by (metis prod_cases3)
  note c = block_contract [OF Some ss(1) k set]
  let ?new = "?info\<lparr>settings := Some (ss[?k := s1])\<rparr>"
  let ?d' = "d\<lparr>bts_list := (bts_list d)[i := ?new], bts_regs := m1\<rparr>"
  have l: "like ?info ?new" using ss(1) block_regs_settings [OF ss(1) k c(4)] by (simp add: like_def)
  have one: "one_block i d (d\<lparr>bts_list := (bts_list d)[i := info], bts_regs := m1\<rparr>)" if "like ?info info" for info
    using that c(2) unfolding one_block_def by blast
  show thesis
  proof (cases "pd_on ?info")
    case True
    have "chosen (ss[?k := s1]) scen = s1" using k scen ss(2) c(3) by (auto simp: chosen_def nth_list_update)
    moreover have "stat_on s1 \<Longrightarrow> va_base ?info \<noteq> 0 \<Longrightarrow> block_reads ?new s1 m1"
      using c(1,3) by simp
    ultimately have "synced scen ?new m1" by (auto simp: synced_def)
    moreover have "bts_set scen i d = Some ?d'" using Some True ss scen set by (auto simp: bts_set_def Let_def split: if_splits)
    ultimately show thesis using that [OF _ one [OF l]] i by simp
  next
    case False
    then show thesis using that [OF _ one_block_refl] Some by (simp add: bts_set_def synced_def)
  qed
qed

definition all_synced :: "nat \<Rightarrow> bts_device \<Rightarrow> bool" where
  "all_synced scen d \<longleftrightarrow> (\<forall>j < length (bts_list d). synced scen (bts_list d ! j) (bts_regs d))"

lemma synced_upto:
  assumes "\<forall>j < i. synced scen (bts_list d ! j) (bts_regs d)" and "one_block i d d'" and "i < length (bts_list d)"
    and "config_ok d" and "scen < length (scen_list d)" and "synced scen (bts_list d' ! i) (bts_regs d')"
  shows "\<forall>j < Suc i. synced scen (bts_list d' ! j) (bts_regs d')"
  using assms one_block_others [OF assms(2-4) _ _ assms(5)] by (metis less_SucE less_trans nat_neq_iff)

lemma bts_set_all_ok:
  assumes "config_ok d" and "scen < length (scen_list d)" and "i + n = length (bts_list d)"
    and "\<forall>j < i. synced scen (bts_list d ! j) (bts_regs d)"
  shows "\<exists>d'. bts_set_all scen i n d = Some d' \<and> frame d d' \<and> all_synced scen d'"
  using assms
proof (induction scen i n d rule: bts_set_all.induct)
  case (1 scen i d)
  then show ?case by (simp add: all_synced_def)
next
  case (2 scen i n d)
  from "2.prems" have i: "i < length (bts_list d)" by simp
  obtain d1 where d1: "bts_set scen i d = Some d1" "one_block i d d1" "synced scen (bts_list d1 ! i) (bts_regs d1)"
    using bts_set_ok [OF "2.prems"(1) i "2.prems"(2)] by metis
  have f: "frame d d1" using one_block_frame [OF d1(2) i] .
  note s = frameD [OF f]
  obtain d' where "bts_set_all scen (Suc i) n d1 = Some d'" "frame d1 d'" "all_synced scen d'"
    using "2.IH" [OF d1(1) s(10)] s "2.prems" synced_upto [OF "2.prems"(4) d1(2) i "2.prems"(1,2) d1(3)] by auto
  then show ?case using d1(1) frame_trans [OF f] by auto
qed

lemma init_block_one:
  "one_block i d (d\<lparr>bts_regs := init_block (bts_list d ! i) (bts_regs d)\<rparr>)"
proof -
  have "init_block info m a = m a" if "a \<notin> block_regs info" for info m a
    using that by (cases "btstype info")
      (auto simp: init_block_def only_init_def block_regs_def init_trexbts_def init_sciqfull_def init_smcqbusy_def init_qmax_def Let_def)
  then show ?thesis
    unfolding one_block_def
    by (intro exI [where x = "bts_list d ! i"] exI [where x = "init_block (bts_list d ! i) (bts_regs d)"]) simp
qed

lemma pd_sync_loop_ok:
  assumes "config_ok d" and "top_scen d < length (scen_list d)" and "i + n = length (bts_list d)"
    and "all_synced (top_scen d) d"
  shows "\<exists>d'. pd_sync_loop cal_id on i n d = Some d' \<and> frame d d' \<and> all_synced (top_scen d') d'"
  using assms
proof (induction cal_id on i n d rule: pd_sync_loop.induct)
  case (1 cal_id on i d)
  then show ?case by simp
next
  case (2 cal_id on i n d)
  let ?info = "bts_list d ! i"
  let ?d1 = "d\<lparr>bts_list := (bts_list d)[i := ?info\<lparr>pd_on := on\<rparr>]\<rparr>"
  show ?case
  proof (cases "pd_id ?info = 0 \<or> pd_id ?info \<noteq> cal_id")
    case True
    then show ?thesis using "2.IH"(1) [OF refl True] "2.prems" by simp
  next
    case False
    from "2.prems" have i: "i < length (bts_list d)" by simp
    have "block_regs (?info\<lparr>pd_on := on\<rparr>) = block_regs ?info" by (simp add: block_regs_def split: bts_type.split option.split)
    then have one1: "one_block i d ?d1" unfolding one_block_def
      by (intro exI [where x = "?info\<lparr>pd_on := on\<rparr>"] exI [where x = "bts_regs d"]) (simp add: like_def)
    note f1 = frameD [OF one_block_frame [OF one1 i]]
    obtain d2 where d2: "(if on then bts_set (top_scen ?d1) i ?d1 else Some ?d1) = Some d2" "one_block i ?d1 d2"
      "synced (top_scen d) (bts_list d2 ! i) (bts_regs d2)"
    proof (cases on)
      case True
      then show thesis using bts_set_ok [OF f1(10) [OF "2.prems"(1)], of i "top_scen d"] "2.prems" i that by auto
    next
      case False
      then show thesis using that [of ?d1] one_block_refl i by (simp add: synced_def)
    qed
    have one: "one_block i d d2" using one_block_trans [OF one1 d2(2) i] .
    have f: "frame d d2" using one_block_frame [OF one i] .
    note s = frameD [OF f]
    have "all_synced (top_scen d2) d2" unfolding all_synced_def s(1,9)
      using "2.prems" one_block_others [OF one i "2.prems"(1) _ _ "2.prems"(2)] d2(3)
      by (metis all_synced_def)
    then obtain d' where "pd_sync_loop cal_id on (Suc i) n d2 = Some d'" "frame d2 d'" "all_synced (top_scen d') d'"
      using "2.IH"(2) [OF refl False refl d2(1)] s "2.prems" by auto
    then show ?thesis using False d2(1) frame_trans [OF f] by (auto simp: Let_def)
  qed
qed

lemma resume_loop_ok:
  assumes "config_ok d" and "top_scen d < length (scen_list d)" and "i + n = length (bts_list d)"
    and "\<forall>j < i. synced (top_scen d) (bts_list d ! j) (bts_regs d)"
  shows "\<exists>d'. resume_loop i n d = Some d' \<and> frame d d' \<and> all_synced (top_scen d') d'"
  using assms
proof (induction i n d rule: resume_loop.induct)
  case (1 i d)
  then show ?case by (simp add: all_synced_def)
next
  case (2 i n d)
  from "2.prems" have i: "i < length (bts_list d)" by simp
  let ?d1 = "d\<lparr>bts_regs := init_block (bts_list d ! i) (bts_regs d)\<rparr>"
  note f1 = frameD [OF one_block_frame [OF init_block_one i]]
  obtain d2 where d2: "bts_set (top_scen d) i ?d1 = Some d2" "one_block i ?d1 d2" "synced (top_scen d) (bts_list d2 ! i) (bts_regs d2)"
    using bts_set_ok [OF f1(10) [OF "2.prems"(1)], of i "top_scen d"] "2.prems" i by auto
  have one: "one_block i d d2" using one_block_trans [OF init_block_one d2(2) i] .
  have f: "frame d d2" using one_block_frame [OF one i] .
  note s = frameD [OF f]
  obtain d' where "resume_loop (Suc i) n d2 = Some d'" "frame d2 d'" "all_synced (top_scen d') d'"
    using "2.IH" [OF d2(1)] s "2.prems" synced_upto [OF "2.prems"(4) one i "2.prems"(1,2) d2(3)] by auto
  then show ?case using d2(1) frame_trans [OF f] by auto
qed

end
