(* ===== verification/BtsScen.thy ===== *)
theory BtsScen
  imports BtsInv "HOL-Library.Multiset"
begin

text \<open>
  The scenarios of the bus traffic shaper: the abstract state is the multiset of the scenarios in
  use, one element per user; the invariant ties the list of used scenarios, the counters and the
  top scenario of the driver to it.
\<close>

subsection \<open>The abstract state\<close>

definition users :: "bts_device \<Rightarrow> nat multiset" where
  "users d = (\<Sum>i < length (scen_list d). replicate_mset (nat (usage_count (scen_list d ! i))) i)"

lemma count_users:
  "count (users d) i = (if i < length (scen_list d) then nat (usage_count (scen_list d ! i)) else 0)"
proof -
  have "count (\<Sum>j < n. replicate_mset (f j) j) i = (if i < n then f i else 0)" for n :: nat and f
    by (induction n) (auto simp: count_replicate_mset)
  then show ?thesis by (simp add: users_def)
qed

text \<open>What the calls do to it: a user more, a user less; the last user of the default scenario stays.\<close>

definition spec_add :: "nat \<Rightarrow> nat \<Rightarrow> nat multiset \<Rightarrow> nat multiset" where
  "spec_add n i M = (if i < n then add_mset i M else M)"

definition spec_del :: "nat \<Rightarrow> nat multiset \<Rightarrow> nat multiset" where
  "spec_del i M = (if i = ID_DEFAULT \<and> count M i = 1 then M else M - {#i#})"

definition scen_inv :: "bts_device \<Rightarrow> bool" where
  "scen_inv d \<longleftrightarrow>
     (\<forall>i < length (scen_list d). sc_index (scen_list d ! i) = i \<and> 0 \<le> usage_count (scen_list d ! i) \<and> usage_count (scen_list d ! i) < 2 ^ 31 \<and>
        (sc_status (scen_list d ! i) \<longleftrightarrow> 0 < usage_count (scen_list d ! i))) \<and>
     distinct (scen_node d) \<and> set (scen_node d) = set_mset (users d) \<and>
     ID_DEFAULT \<in># users d \<and> top_scen d = Max (set_mset (users d))"

lemma users_less: "i \<in># users d \<Longrightarrow> i < length (scen_list d)"
  by (auto simp: count_users simp flip: count_greater_zero_iff split: if_splits)

lemma scen_invD:
  assumes "scen_inv d"
  shows "top_scen d \<in># users d" "top_scen d < length (scen_list d)" "i \<in># users d \<Longrightarrow> i \<le> top_scen d"
    "0 < length (scen_list d)"
proof -
  have "users d \<noteq> {#}" using assms by (auto simp: scen_inv_def)
  then show 1: "top_scen d \<in># users d" using assms Max_in [of "set_mset (users d)"] by (simp add: scen_inv_def)
  then show "top_scen d < length (scen_list d)" by (rule users_less)
  then show "0 < length (scen_list d)" by (rule le_less_trans [OF le0])
  show "i \<in># users d \<Longrightarrow> i \<le> top_scen d" using assms by (simp add: scen_inv_def)
qed

lemma users_cong: "scen_list d' = scen_list d \<Longrightarrow> users d' = users d"
  by (simp add: users_def)

lemma scen_inv_cong:
  assumes "scen_list d' = scen_list d" and "scen_node d' = scen_node d" and "top_scen d' = top_scen d"
  shows "scen_inv d' = scen_inv d"
  using assms users_cong [OF assms(1)] by (simp add: scen_inv_def)

subsection \<open>Changing a counter\<close>

lemma put_scen_fields [simp]:
  "scen_node (put_scen i st n d) = scen_node d" "top_scen (put_scen i st n d) = top_scen d"
  "bts_list (put_scen i st n d) = bts_list d" "bts_regs (put_scen i st n d) = bts_regs d"
  "length (scen_list (put_scen i st n d)) = length (scen_list d)" "bts_bws (put_scen i st n d) = bts_bws d"
  "pmqos (put_scen i st n d) = pmqos d" "exynos_mif_qos (put_scen i st n d) = exynos_mif_qos d"
  "exynos_int_qos (put_scen i st n d) = exynos_int_qos d" "bus1_int_tbl (put_scen i st n d) = bus1_int_tbl d"
  by (simp_all add: put_scen_def)

lemma count_put_scen:
  "i < length (scen_list d) \<Longrightarrow> count (users (put_scen i st n d)) j = (if j = i then nat n else count (users d) j)"
  by (auto simp: count_users put_scen_def nth_list_update)

lemma in_users_put:
  "i < length (scen_list d) \<Longrightarrow> j \<in># users (put_scen i st n d) \<longleftrightarrow> (if j = i then 0 < n else j \<in># users d)"
  by (metis count_greater_zero_iff count_put_scen zero_less_nat_eq)

lemma set_users_put:
  assumes "i < length (scen_list d)"
  shows "set_mset (users (put_scen i st n d)) = (if 0 < n then insert i (set_mset (users d)) else set_mset (users d) - {i})"
  using in_users_put [OF assms] by (auto split: if_splits)

lemma scen_list_put:
  "j < length (scen_list d) \<Longrightarrow> scen_list (put_scen i st n d) ! j =
     (if j = i then (scen_list d ! i)\<lparr>sc_status := st, usage_count := n\<rparr> else scen_list d ! j)"
  by (auto simp: put_scen_def nth_list_update)

lemma highest_Max:
  assumes "\<forall>i \<in> set (scen_node d). sc_index (scen_list d ! i) = i"
  shows "highest d = Max (insert ID_DEFAULT (set (scen_node d)))"
proof -
  have "foldl (\<lambda>t i. if sc_index (scen_list d ! i) \<ge> t then sc_index (scen_list d ! i) else t) t is = fold max is t"
    if "\<forall>i \<in> set is. sc_index (scen_list d ! i) = i" for t "is"
    using that by (induction "is" arbitrary: t) (auto simp: max_def)
  also have "fold max (scen_node d) ID_DEFAULT = Max (insert ID_DEFAULT (set (scen_node d)))"
    by (metis Max.set_eq_fold list.simps(15))
  finally show ?thesis using assms by (simp add: highest_def)
qed

text \<open>The part of the invariant a call breaks for a moment: everything but the top scenario.\<close>

definition scen_part :: "bts_device \<Rightarrow> bool" where
  "scen_part d \<longleftrightarrow>
     (\<forall>i < length (scen_list d). sc_index (scen_list d ! i) = i \<and> 0 \<le> usage_count (scen_list d ! i) \<and> usage_count (scen_list d ! i) < 2 ^ 31 \<and>
        (sc_status (scen_list d ! i) \<longleftrightarrow> 0 < usage_count (scen_list d ! i))) \<and>
     distinct (scen_node d) \<and> set (scen_node d) = set_mset (users d) \<and> ID_DEFAULT \<in># users d"

lemma scen_inv_part: "scen_inv d \<longleftrightarrow> scen_part d \<and> top_scen d = Max (set_mset (users d))"
  by (auto simp: scen_inv_def scen_part_def)

lemma scen_part_cong:
  assumes "scen_list d' = scen_list d" and "scen_node d' = scen_node d"
  shows "scen_part d' = scen_part d"
  using assms users_cong [OF assms(1)] by (simp add: scen_part_def)

lemma scen_part_put:
  assumes "scen_part d" and "i < length (scen_list d)" and "0 \<le> n" and "st \<longleftrightarrow> 0 < n" and "i = ID_DEFAULT \<Longrightarrow> 0 < n"
    and "n < 2 ^ 31" and "distinct xs" and "set xs = (if 0 < n then insert i (set_mset (users d)) else set_mset (users d) - {i})"
  shows "scen_part ((put_scen i st n d)\<lparr>scen_node := xs\<rparr>)"
proof -
  let ?d = "(put_scen i st n d)\<lparr>scen_node := xs\<rparr>"
  have u: "users ?d = users (put_scen i st n d)" by (rule users_cong) simp
  note set_users_put [OF assms(2)]
  moreover have "0 < count (users ?d) ID_DEFAULT"
    unfolding u count_put_scen [OF assms(2)]
    using assms(1,5) by (simp add: scen_part_def)
  ultimately show ?thesis using assms unfolding scen_part_def u
    by (simp add: scen_list_put)
qed

subsection \<open>The calls\<close>

lemma set_top_ok:
  assumes part: "scen_part d" and top: "t = Max (set_mset (users d))" and ok: "config_ok d"
  obtains d' where "bts_set_all t 0 (length (bts_list d)) (d\<lparr>top_scen := t\<rparr>) = Some d'" and "frame (d\<lparr>top_scen := t\<rparr>) d'"
    and "scen_inv d'" and "all_synced (top_scen d') d'" and "users d' = users d"
proof -
  let ?d = "d\<lparr>top_scen := t\<rparr>"
  have inv: "scen_inv ?d" using part top users_cong [of ?d d] scen_part_cong [of ?d d] by (simp add: scen_inv_part)
  have "t < length (scen_list ?d)" using scen_invD(2) [OF inv] by simp
  moreover have "config_ok ?d" using ok by (simp add: config_ok_def)
  ultimately obtain d' where d': "bts_set_all t 0 (length (bts_list d)) ?d = Some d'" "frame ?d d'" "all_synced t d'"
    using bts_set_all_ok [of ?d t 0 "length (bts_list d)"] by auto
  note f = frameD [OF d'(2)]
  have "scen_inv d'" using inv f scen_inv_cong [of d' ?d] by simp
  then show thesis using that [OF d'(1,2)] d'(3) f users_cong [of d' d] by simp
qed

lemma scen_usage:
  assumes "scen_inv d" and "i < length (scen_list d)"
  shows "int (count (users d) i) = usage_count (scen_list d ! i)"
    "sc_status (scen_list d ! i) \<longleftrightarrow> 0 < usage_count (scen_list d ! i)"
    "0 \<le> usage_count (scen_list d ! i)" "usage_count (scen_list d ! i) < 2 ^ 31"
  using assms by (auto simp: count_users scen_inv_def)

lemma users_put_add:
  assumes "scen_inv d" and "i < length (scen_list d)"
  shows "users (put_scen i st (usage_count (scen_list d ! i) + 1) d) = add_mset i (users d)"
  by (rule multiset_eqI) (use assms scen_usage(1) [OF assms, symmetric] in \<open>simp add: count_put_scen, arith\<close>)

lemma users_put_del:
  assumes "scen_inv d" and "i < length (scen_list d)"
  shows "users (put_scen i st (usage_count (scen_list d ! i) - 1) d) = users d - {#i#}"
  by (rule multiset_eqI) (use assms scen_usage(1) [OF assms, symmetric] in \<open>simp add: count_put_scen, arith\<close>)

text \<open>The other fields a call on scenarios leaves alone.\<close>

definition same_rest :: "bts_device \<Rightarrow> bts_device \<Rightarrow> bool" where
  "same_rest d d' \<longleftrightarrow> bts_bws d' = bts_bws d \<and> pmqos d' = pmqos d \<and> exynos_mif_qos d' = exynos_mif_qos d \<and>
     exynos_int_qos d' = exynos_int_qos d \<and> bus1_int_tbl d' = bus1_int_tbl d \<and>
     length (scen_list d') = length (scen_list d) \<and> length (bts_list d') = length (bts_list d)"

lemma frame_same_rest: "frame d d' \<Longrightarrow> same_rest d d'"
  using frameD [of d d'] by (simp add: same_rest_def)

lemma config_ok_cong:
  "length (scen_list d') = length (scen_list d) \<Longrightarrow> bts_list d' = bts_list d \<Longrightarrow> config_ok d' = config_ok d"
  by (simp only: config_ok_def)

lemma all_synced_cong:
  "bts_list d' = bts_list d \<Longrightarrow> bts_regs d' = bts_regs d \<Longrightarrow> all_synced t d' = all_synced t d"
  by (simp add: all_synced_def)

lemma scen_put:
  assumes "scen_inv d" and "i < length (scen_list d)" and "0 \<le> n" and "st \<longleftrightarrow> 0 < n" and "i = ID_DEFAULT \<Longrightarrow> 0 < n"
    and "n < 2 ^ 31" and "distinct xs" and "set xs = (if 0 < n then insert i (set_mset (users d)) else set_mset (users d) - {i})"
  shows "scen_part ((put_scen i st n d)\<lparr>scen_node := xs\<rparr>)"
    "users ((put_scen i st n d)\<lparr>scen_node := xs\<rparr>) = users (put_scen i st n d)"
    "set_mset (users (put_scen i st n d)) = set xs"
proof -
  show "scen_part ((put_scen i st n d)\<lparr>scen_node := xs\<rparr>)"
    by (rule scen_part_put) (use assms in \<open>simp_all add: scen_inv_part\<close>)
  show "users ((put_scen i st n d)\<lparr>scen_node := xs\<rparr>) = users (put_scen i st n d)" by (rule users_cong) simp
  show "set_mset (users (put_scen i st n d)) = set xs"
    using set_users_put [OF assms(2)] assms(8) by simp
qed

lemma add_scenario_ok:
  assumes inv: "scen_inv d" and ok: "config_ok d" and sync: "all_synced (top_scen d) d"
    and room: "i < length (scen_list d) \<Longrightarrow> usage_count (scen_list d ! i) < 2 ^ 31 - 1"
  obtains d' where "bts_add_scenario i d = Some (if i < length (scen_list d) then 0 else - EINVAL, d')"
    and "scen_inv d'" and "config_ok d'" and "all_synced (top_scen d') d'" and "same_rest d d'"
    and "users d' = spec_add (length (scen_list d)) i (users d)"
proof (cases "i < length (scen_list d)")
  case False
  then show thesis using that [of d] assms by (simp add: bts_add_scenario_def spec_add_def same_rest_def)
next
  case i: True
  let ?u = "usage_count (scen_list d ! i)"
  note u = scen_usage [OF inv i] and add = users_put_add [OF inv i]
  have c: "c_int (?u + 1) = ?u + 1" using u(3) room [OF i] by (intro c_int_small) simp_all
  have nodes: "distinct (scen_node d)" "set (scen_node d) = set_mset (users d)" "top_scen d = Max (set_mset (users d))"
    using inv by (simp_all add: scen_inv_def)
  show thesis
  proof (cases "?u = 0")
    case False
    let ?d = "put_scen i (sc_status (scen_list d ! i)) (?u + 1) d"
    have pos: "0 < ?u" using u(1) False by linarith
    then have "i \<in># users d" using u(1) by (simp flip: count_greater_zero_iff)
    then have same: "set_mset (users ?d) = set_mset (users d)" using add by auto
    have "scen_part (?d\<lparr>scen_node := scen_node d\<rparr>)"
      by (rule scen_put) (use inv i u pos nodes room [OF i] \<open>i \<in># users d\<close> in auto)
    then have "scen_inv ?d" using nodes(3) same scen_part_cong [of ?d "?d\<lparr>scen_node := scen_node d\<rparr>"] by (simp add: scen_inv_part)
    then show thesis
      using that [of ?d] i False add ok sync config_ok_cong [of ?d d] all_synced_cong [of ?d d] c
      by (simp add: bts_add_scenario_def Let_def spec_add_def same_rest_def)
  next
    case True
    let ?d = "(put_scen i True (?u + 1) d)\<lparr>scen_node := i # scen_node d\<rparr>"
    have new: "i \<notin># users d" using u(1) True by (simp flip: count_greater_zero_iff)
    then have off: "i \<notin> set (scen_node d)" using nodes(2) by simp
    have part: "scen_part ?d"
      by (rule scen_put) (use inv i True new nodes in simp_all)
    have us: "users ?d = add_mset i (users d)" using add users_cong [of ?d "put_scen i True (?u + 1) d"] by simp
    have cfg: "config_ok ?d" using ok config_ok_cong [of ?d d] by simp
    show thesis
    proof (cases "i \<ge> top_scen d")
      case ge: True
      have "Max (set_mset (users ?d)) = i" unfolding us using ge scen_invD(3) [OF inv] by (intro Max_eqI) force+
      then obtain d' where d': "bts_set_all i 0 (length (bts_list ?d)) (?d\<lparr>top_scen := i\<rparr>) = Some d'"
        "frame (?d\<lparr>top_scen := i\<rparr>) d'" "scen_inv d'" "all_synced (top_scen d') d'" "users d' = users ?d"
        using set_top_ok [OF part _ cfg] by metis
      show thesis
        by (rule that [of d']) (use d' i True ge us off frameD [OF d'(2)] ok cfg in
          \<open>simp_all add: bts_add_scenario_def Let_def spec_add_def same_rest_def config_ok_def\<close>)
    next
      case lt: False
      have "Max (set_mset (users ?d)) = top_scen d"
        unfolding us using lt scen_invD(1,3) [OF inv] by (intro Max_eqI) force+
      then have "scen_inv ?d" using part by (simp add: scen_inv_part)
      then show thesis using that [of ?d] i True lt us off cfg sync all_synced_cong [of ?d d]
        by (simp add: bts_add_scenario_def Let_def spec_add_def same_rest_def)
    qed
  qed
qed

text \<open>The last user of a scenario that is not the default one leaves.\<close>

lemma del_last_ok:
  assumes inv: "scen_inv d" and ok: "config_ok d" and sync: "all_synced (top_scen d) d"
    and i: "i < length (scen_list d)" and last: "usage_count (scen_list d ! i) = 1" "i \<noteq> ID_DEFAULT"
  obtains d' where "bts_del_scenario i d = Some (0, d')" and "scen_inv d'" and "config_ok d'" and "all_synced (top_scen d') d'"
    and "same_rest d d'" and "users d' = spec_del i (users d)"
proof -
  let ?d = "(put_scen i False 0 d)\<lparr>scen_node := remove1 i (scen_node d)\<rparr>"
  have nodes: "distinct (scen_node d)" "set (scen_node d) = set_mset (users d)" "top_scen d = Max (set_mset (users d))"
    using inv by (simp_all add: scen_inv_def)
  have part: "scen_part ?d"
    by (rule scen_put) (use inv i last nodes in simp_all)
  have us: "users ?d = users d - {#i#}" "set_mset (users ?d) = set_mset (users d) - {i}"
    using users_put_del [OF inv i, of False] set_users_put [OF i, of False 0] last users_cong [of ?d "put_scen i False 0 d"] by simp_all
  have run: "bts_del_scenario i d = (if i = top_scen d
      then map_option (\<lambda>d2. (0, d2)) (bts_set_all (highest ?d) 0 (length (bts_list ?d)) (?d\<lparr>top_scen := highest ?d\<rparr>)) else Some (0, ?d))"
    using i last by (simp add: bts_del_scenario_def Let_def)
  have cfg: "config_ok ?d" using ok config_ok_cong [of ?d d] by simp
  have spec: "spec_del i (users d) = users ?d" using last us(1) by (simp add: spec_del_def)
  show thesis
  proof (cases "i = top_scen d")
    case True
    have hi: "highest ?d = Max (set_mset (users ?d))"
      using highest_Max [of ?d] part users_less [of _ ?d] by (simp add: scen_part_def insert_absorb)
    then obtain d' where d': "bts_set_all (highest ?d) 0 (length (bts_list ?d)) (?d\<lparr>top_scen := highest ?d\<rparr>) = Some d'"
      "frame (?d\<lparr>top_scen := highest ?d\<rparr>) d'" "scen_inv d'" "all_synced (top_scen d') d'" "users d' = users ?d"
      using set_top_ok [OF part hi cfg] by metis
    show thesis
      by (rule that [of d']) (use d' True run spec frameD [OF d'(2)] cfg in \<open>simp_all add: same_rest_def config_ok_def\<close>)
  next
    case False
    have "Max (set_mset (users ?d)) = top_scen d"
      unfolding us(2) using False scen_invD(1,3) [OF inv] by (intro Max_eqI) force+
    then have "scen_inv ?d" using part by (simp add: scen_inv_part)
    then show thesis using that [of ?d] False run spec cfg sync all_synced_cong [of ?d d] by (simp add: same_rest_def)
  qed
qed

lemma del_scenario_ok:
  assumes inv: "scen_inv d" and ok: "config_ok d" and sync: "all_synced (top_scen d) d"
  obtains d' where "bts_del_scenario i d = Some (if i < length (scen_list d) then 0 else - EINVAL, d')"
    and "scen_inv d'" and "config_ok d'" and "all_synced (top_scen d') d'" and "same_rest d d'"
    and "users d' = spec_del i (users d)"
proof (cases "i < length (scen_list d)")
  case False
  then have "i \<notin># users d" using users_less by blast
  then show thesis using that [of d] assms False
    by (simp add: bts_del_scenario_def spec_del_def same_rest_def diff_single_trivial)
next
  case i: True
  let ?u = "usage_count (scen_list d ! i)"
  note u = scen_usage [OF inv i] and del = users_put_del [OF inv i]
  have c: "c_int (?u - 1) = ?u - 1" using u(3,4) by (intro c_int_small) simp_all
  have nodes: "distinct (scen_node d)" "set (scen_node d) = set_mset (users d)" "top_scen d = Max (set_mset (users d))"
    and def: "ID_DEFAULT \<in># users d" using inv by (simp_all add: scen_inv_def)
  have pos: "i = ID_DEFAULT \<Longrightarrow> 0 < ?u" using def u(1) by (metis count_greater_zero_iff of_nat_0_less_iff)
  consider (keep) "i = ID_DEFAULT" "?u = 1" | (none) "?u = 0" | (more) "?u > 1" | (last) "?u = 1" "i \<noteq> ID_DEFAULT"
    using u(1) by (metis int_one_le_iff_zero_less linorder_cases nle_le of_nat_0_le_iff order_le_less)
  then show thesis
  proof cases
    case keep
    then show thesis using that [of d] assms u(1) i by (simp add: bts_del_scenario_def spec_del_def same_rest_def)
  next
    case none
    have "put_scen i (sc_status (scen_list d ! i)) 0 d = d" using none by (simp add: put_scen_def flip: none)
    moreover have "i \<notin># users d" using u(1) none by (simp flip: count_greater_zero_iff)
    ultimately show thesis using that [of d] assms none i
      by (simp add: bts_del_scenario_def Let_def spec_del_def same_rest_def diff_single_trivial)
  next
    case more
    let ?d = "put_scen i (sc_status (scen_list d ! i)) (?u - 1) d"
    have mem: "i \<in># users d" using u(1) more by (simp flip: count_greater_zero_iff)
    have "scen_part (?d\<lparr>scen_node := scen_node d\<rparr>)"
      by (rule scen_put) (use inv i u more nodes mem in auto)
    moreover have "set_mset (users ?d) = set_mset (users d)" using set_users_put [OF i] more mem by auto
    ultimately have "scen_inv ?d"
      using nodes(3) scen_part_cong [of ?d "?d\<lparr>scen_node := scen_node d\<rparr>"] by (simp add: scen_inv_part)
    then show thesis
      using that [of ?d] i more u(1) del ok sync config_ok_cong [of ?d d] all_synced_cong [of ?d d] c
      by (auto simp: bts_del_scenario_def Let_def spec_del_def same_rest_def)
  next
    case last
    show thesis
      by (rule del_last_ok [OF inv ok sync i last]) (use that i in simp)
  qed
qed

subsection \<open>Without a bound on the users\<close>

text \<open>What the calls keep even when a counter has wrapped around: the scenarios on the list and the top scenario exist.\<close>

definition scen_weak :: "bts_device \<Rightarrow> bool" where
  "scen_weak d \<longleftrightarrow> (\<forall>i < length (scen_list d). sc_index (scen_list d ! i) = i) \<and> set (scen_node d) \<subseteq> {..<length (scen_list d)}
     \<and> top_scen d < length (scen_list d)"

lemma scen_inv_weak: "scen_inv d \<Longrightarrow> scen_weak d"
  using scen_invD(2) users_less by (auto simp: scen_inv_def scen_weak_def)

lemma scen_weak_cong:
  assumes "scen_list d' = scen_list d" and "scen_node d' = scen_node d" and "top_scen d' = top_scen d"
  shows "scen_weak d' = scen_weak d"
  using assms by (simp add: scen_weak_def)

lemma weak_put: "scen_weak d \<Longrightarrow> i < length (scen_list d) \<Longrightarrow> set xs \<subseteq> {..<length (scen_list d)} \<Longrightarrow> scen_weak ((put_scen i st n d)\<lparr>scen_node := xs\<rparr>)"
  by (auto simp: scen_weak_def scen_list_put)

lemma weak_set_top:
  assumes weak: "scen_weak d" and t: "t < length (scen_list d)" and ok: "config_ok d" and run: "bts_set_all t 0 (length (bts_list d)) (d\<lparr>top_scen := t\<rparr>) = Some d'"
  shows "scen_weak d'" "config_ok d'" "all_synced (top_scen d') d'" "same_rest d d'"
proof -
  let ?d = "d\<lparr>top_scen := t\<rparr>"
  have w: "scen_weak ?d" using weak t by (simp add: scen_weak_def)
  have "config_ok ?d" using ok by (simp add: config_ok_def)
  then obtain d1 where d1: "bts_set_all t 0 (length (bts_list d)) ?d = Some d1" "frame ?d d1" "all_synced t d1"
    using t bts_set_all_ok [of ?d t 0 "length (bts_list d)"] by auto
  then have d': "d1 = d'" using run by simp
  note f = frameD [OF d1(2) [unfolded d']]
  show "scen_weak d'" "all_synced (top_scen d') d'" using w scen_weak_cong [of d' ?d] d1(3) f by (simp_all add: d')
  show "config_ok d'" "same_rest d d'" using f ok by (simp_all add: same_rest_def config_ok_def)
qed

lemma weak_still:
  assumes "scen_weak d'" and "config_ok d" and "all_synced (top_scen d) d" and "bts_list d' = bts_list d" and "bts_regs d' = bts_regs d" and "top_scen d' = top_scen d"
    and "length (scen_list d') = length (scen_list d)"
  shows "config_ok d'" "all_synced (top_scen d') d'"
  using assms config_ok_cong [of d' d] all_synced_cong [of d' d] by simp_all

lemma add_scenario_weak:
  assumes weak: "scen_weak d" and ok: "config_ok d" and sync: "all_synced (top_scen d) d" and run: "bts_add_scenario i d = Some (r, d')"
  shows "scen_weak d' \<and> config_ok d' \<and> all_synced (top_scen d') d' \<and> same_rest d d'"
proof (cases "i < length (scen_list d)")
  case False
  then show ?thesis using assms by (simp add: bts_add_scenario_def same_rest_def)
next
  case i: True
  let ?n = "c_int (usage_count (scen_list d ! i) + 1)"
  let ?e = "put_scen i (sc_status (scen_list d ! i)) ?n d"
  let ?d = "(put_scen i True ?n d)\<lparr>scen_node := i # scen_node d\<rparr>"
  have e: "scen_weak ?e" using weak i by (auto simp: scen_weak_def scen_list_put)
  have d: "scen_weak ?d" using weak i by (intro weak_put) (auto simp: scen_weak_def)
  have cd: "config_ok ?d" using ok config_ok_cong [of ?d d] by simp
  consider (same) "d' = ?e" | (low) "d' = ?d" | (top) "bts_set_all i 0 (length (bts_list ?d)) (?d\<lparr>top_scen := i\<rparr>) = Some d'"
    using run i by (auto simp: bts_add_scenario_def Let_def split: if_splits)
  then show ?thesis
  proof cases
    case same
    then show ?thesis using e weak_still [OF e ok sync] by (simp add: same_rest_def)
  next
    case low
    then show ?thesis using d weak_still [OF d ok sync] by (simp add: same_rest_def)
  next
    case top
    have "i < length (scen_list ?d)" using i by simp
    from weak_set_top [OF d this cd top] show ?thesis by (simp add: same_rest_def)
  qed
qed

lemma highest_less:
  assumes "scen_weak d"
  shows "highest d < length (scen_list d)"
proof -
  have "highest d = Max (insert ID_DEFAULT (set (scen_node d)))" using assms by (intro highest_Max) (auto simp: scen_weak_def)
  also have "\<dots> \<in> insert ID_DEFAULT (set (scen_node d))" by (rule Max_in) simp_all
  finally show ?thesis using assms by (auto simp: scen_weak_def)
qed

lemma del_scenario_weak:
  assumes weak: "scen_weak d" and ok: "config_ok d" and sync: "all_synced (top_scen d) d" and run: "bts_del_scenario i d = Some (r, d')"
  shows "scen_weak d' \<and> config_ok d' \<and> all_synced (top_scen d') d' \<and> same_rest d d'"
proof (cases "i < length (scen_list d)")
  case False
  then show ?thesis using assms by (simp add: bts_del_scenario_def same_rest_def)
next
  case i: True
  let ?d = "(put_scen i False 0 d)\<lparr>scen_node := remove1 i (scen_node d)\<rparr>"
  have e: "scen_weak (put_scen i st n d)" for st n using weak i by (auto simp: scen_weak_def scen_list_put)
  have d: "scen_weak ?d" using weak i by (intro weak_put) (auto simp: scen_weak_def dest: set_remove1_subset [THEN subsetD])
  have cd: "config_ok ?d" using ok config_ok_cong [of ?d d] by simp
  consider (none) "d' = d" | (less) st n where "d' = put_scen i st n d" | (low) "d' = ?d"
    | (top) "bts_set_all (highest ?d) 0 (length (bts_list ?d)) (?d\<lparr>top_scen := highest ?d\<rparr>) = Some d'"
    using run i by (auto simp: bts_del_scenario_def Let_def split: if_splits)
  then show ?thesis
  proof cases
    case none
    then show ?thesis using weak ok sync by (simp add: same_rest_def)
  next
    case (less st n)
    then show ?thesis using e weak_still [OF e ok sync] by (simp add: same_rest_def)
  next
    case low
    then show ?thesis using d weak_still [OF d ok sync] by (simp add: same_rest_def)
  next
    case top
    from weak_set_top [OF d highest_less [OF d] cd top] show ?thesis by (simp add: same_rest_def)
  qed
qed

end
