(* ===== verification/BtsBw.thy ===== *)
theory BtsBw
  imports BtsScen PmQosProps
begin

text \<open>
  The bandwidth votes of the bus traffic shaper: what the driver needs of PM QoS, stated as a
  locale and discharged for the model of PM QoS; the arithmetic of the demand; the invariant of the
  votes, the names and the histograms.
\<close>

subsection \<open>What is needed of PM QoS\<close>

text \<open>
  \<open>class_of\<close> is 0 for a request that is not active, \<open>asked\<close> is a request's own value and
  \<open>target\<close> what a class settles on; in a floor class the target is at least what each request asks.
  The value -1 stands for a default of the class.
\<close>

locale qos_floor =
  fixes inv :: "'s \<Rightarrow> bool"
    and class_of :: "'s \<Rightarrow> nat \<Rightarrow> int"
    and asked :: "'s \<Rightarrow> nat \<Rightarrow> s32"
    and target :: "int \<Rightarrow> 's \<Rightarrow> s32 option"
    and update :: "nat \<Rightarrow> s32 \<Rightarrow> 's \<Rightarrow> 's option"
    and floor_class :: "int \<Rightarrow> bool"
  assumes update_ok: "inv s \<Longrightarrow> class_of s r \<noteq> 0 \<Longrightarrow>
      \<exists>s' x. update r v s = Some s' \<and> inv s' \<and> class_of s' = class_of s \<and> asked s' = (asked s)(r := x) \<and>
        (v \<noteq> -1 \<longrightarrow> x = v)"
    and target_ge: "inv s \<Longrightarrow> class_of s r = c \<Longrightarrow> floor_class c \<Longrightarrow>
      \<exists>t. target c s = Some t \<and> sint (asked s r) \<le> sint t"
begin

lemma update_two:
  assumes "inv s" and "class_of s a \<noteq> 0" and "class_of s b \<noteq> 0" and "a \<noteq> b"
  obtains s1 s2 x y where "update a v s = Some s1" and "update b w s1 = Some s2" and "inv s2"
    and "class_of s2 = class_of s" and "asked s2 = (asked s)(a := x, b := y)"
    and "v \<noteq> -1 \<Longrightarrow> x = v" and "w \<noteq> -1 \<Longrightarrow> y = w"
proof -
  obtain s1 x where 1: "update a v s = Some s1" "inv s1" "class_of s1 = class_of s" "asked s1 = (asked s)(a := x)"
    "v \<noteq> -1 \<Longrightarrow> x = v" using update_ok [OF assms(1,2)] by metis
  have "class_of s1 b \<noteq> 0" using assms(3) 1(3) by simp
  then obtain s2 y where "update b w s1 = Some s2" "inv s2" "class_of s2 = class_of s1" "asked s2 = (asked s1)(b := y)"
    "w \<noteq> -1 \<Longrightarrow> y = w" using update_ok [OF 1(2)] by metis
  then show thesis using 1 that by simp
qed

end

lemma floor_classes:
  assumes "qos_inv st" and "class_constraints st cls = Some c" and "cls = 7 \<or> cls = 11"
  shows "c_type c = EXYNOS_PM_QOS_MAX"
proof -
  have i: "nat cls < length (qos_array st)" "constraints (qos_array st ! nat cls) = Some c"
    using assms(2) by (auto simp: class_constraints_def split: if_splits)
  have eq: "static_objects (qos_array st) = static_objects exynos_pm_qos_array"
    using qos_invD(1) [OF assms(1)] by (simp add: lists_ok_def)
  have "map_option fst (snd (static_objects exynos_pm_qos_array ! nat cls)) = Some EXYNOS_PM_QOS_MAX"
    using assms(3) by (auto simp: static_objects_def exynos_pm_qos_array_def pm_qos_objects)
  moreover have "map_option fst (snd (static_objects (qos_array st) ! nat cls)) = Some (c_type c)"
    using i by (simp add: static_objects_def)
  ultimately show ?thesis unfolding eq by (metis option.inject)
qed

interpretation pmq: qos_floor qos_inv req_class "\<lambda>st r. prio (qos_nodes st) r" exynos_pm_qos_request_value
  "\<lambda>r. exynos_pm_qos_update_request (Some r)" "\<lambda>c. c = 7 \<or> c = 11"
proof unfold_locales
  fix s r v
  assume "qos_inv s" "req_class s r \<noteq> 0"
  then obtain c s' where "exynos_pm_qos_update_request (Some r) v s = Some s'" "qos_inv s'" "req_class s' = req_class s"
    "prio (qos_nodes s') = (prio (qos_nodes s))(r := if v = prio (qos_nodes s) r then v else new_prio c v)"
    using update_request_ok [of s r v] by metis
  moreover have "v \<noteq> -1 \<longrightarrow> (if v = prio (qos_nodes s) r then v else new_prio c v) = v" by (simp add: new_prio_def)
  ultimately show "\<exists>s' x. exynos_pm_qos_update_request (Some r) v s = Some s' \<and> qos_inv s' \<and> req_class s' = req_class s \<and>
      (\<lambda>r. prio (qos_nodes s') r) = (\<lambda>r. prio (qos_nodes s) r)(r := x) \<and> (v \<noteq> -1 \<longrightarrow> x = v)"
    by (intro exI [where x = s'] exI [where x = "if v = prio (qos_nodes s) r then v else new_prio c v"])
      (simp add: fun_upd_def)
next
  fix s r c
  assume inv: "qos_inv s" and r: "req_class s r = c" and c: "c = 7 \<or> c = 11"
  have "valid_class c" using c by (auto simp: valid_class_def)
  then obtain cs where cs: "class_constraints s c = Some cs"
    using lists_ok_class [OF qos_invD(1) [OF inv]] by metis
  have "{n. req_class s n = c} = set (c_list cs)"
    using class_lookup(1,2) [OF inv cs] by (simp add: class_ok_def)
  then have "finite {n. req_class s n = c}" by simp
  then have "sint (prio (qos_nodes s) r) \<le> sint (target_value cs)"
    using class_aggregate [OF inv cs r] floor_classes [OF inv cs c] r by auto
  then show "\<exists>t. exynos_pm_qos_request_value c s = Some t \<and> sint (prio (qos_nodes s) r) \<le> sint t"
    using cs by (simp add: exynos_pm_qos_request_value_def exynos_pm_qos_read_value_def)
qed

subsection \<open>The demand\<close>

definition mif_demand :: "bts_bw list \<Rightarrow> u32" where
  "mif_demand bs = fst (snd (snd (bw_demand bs)))"

definition contrib :: "bts_bw \<Rightarrow> u32 \<times> u32 \<times> u32 \<times> u32" where
  "contrib b = (bw_peak b, if is_rt b then bw_rt b else 0, bw_read b, bw_write b)"

lemma bw_sums_cong:
  assumes "map contrib bs = map contrib bs'"
  shows "bw_sums bs acc = bw_sums bs' acc"
  using assms
proof (induction bs acc arbitrary: bs' rule: bw_sums.induct)
  case (2 b bs pk rtb rd wr)
  obtain b' cs where bs': "bs' = b' # cs" and b': "contrib b' = contrib b" and cs: "map contrib bs = map contrib cs"
    using "2.prems" by (auto simp: map_eq_Cons_conv)
  have "bw_peak b' = bw_peak b" "bw_read b' = bw_read b" "bw_write b' = bw_write b"
    "(if is_rt b' then rtb + bw_rt b' else rtb) = (if is_rt b then rtb + bw_rt b else rtb)"
    using b' by (auto simp: contrib_def split: if_splits)
  then show ?case using "2.IH" [OF cs] by (simp add: bs')
qed simp

lemma demand_cong: "map contrib bs = map contrib bs' \<Longrightarrow> bw_demand bs = bw_demand bs'"
  using bw_sums_cong [of bs bs' "(0, 0, 0, 0)"] by (simp add: bw_demand_def)

lemma demand_update:
  assumes "contrib b = contrib (bs ! i)"
  shows "bw_demand (bs[i := b]) = bw_demand bs"
proof (cases "i < length bs")
  case True
  then have "map contrib (bs[i := b]) = map contrib bs" using assms by (simp add: map_update list_update_same_conv)
  then show ?thesis by (rule demand_cong)
qed (simp add: list_update_beyond)

text \<open>A MIF frequency is below $2^{31}$: as an \<^verbatim>\<open>s32\<close> it is not negative.\<close>

lemma mif_demand_small: "uint (mif_demand bs) < 2 ^ 31"
proof -
  have "uint (y div 65) < 2 ^ 31" "uint (y div 40) < 2 ^ 31" for y :: u32
  proof -
    have "uint y < 2 ^ 32" using uint_lt2p [of y] by simp
    then show "uint (y div 65) < 2 ^ 31" "uint (y div 40) < 2 ^ 31" by (simp_all add: uint_div)
  qed
  then show ?thesis by (simp add: mif_demand_def bw_demand_def Let_def max_def split: prod.split)
qed

text \<open>Every row search of a table that is not empty ends at a row.\<close>

lemma bus1_to_int_some: "rows \<noteq> [] \<Longrightarrow> \<exists>f. bus1_to_int_freq (Some rows) freq = Some f"
  using length_takeWhile_le [of "\<lambda>(bus1, _). \<not> freq > bus1" rows]
  by (auto simp: bus1_to_int_freq_def Let_def less_eq_Suc_le Suc_diff_le simp flip: length_greater_0_conv simp del: length_takeWhile_le)

subsection \<open>The invariant of the votes\<close>

definition stats_ok :: "bw_stats \<Rightarrow> bool" where
  "stats_ok s \<longleftrightarrow> length (hist_count s) = BTS_HIST_BIN \<and> length (total_time s) = BTS_HIST_BIN \<and>
     hist_idx s < int BTS_HIST_BIN"

definition slot_ok :: "bts_bw \<Rightarrow> bool" where
  "slot_ok b \<longleftrightarrow> (bw_name b = None \<longrightarrow> \<not> is_rt b) \<and> (\<not> is_rt b \<longrightarrow> bw_rt b = 0) \<and>
     stats_ok (total_stats (bw_stat b)) \<and> stats_ok (peak_stats (bw_stat b))"

text \<open>The names that are given are a prefix of the slots, and distinct.\<close>

definition names_ok :: "bts_bw list \<Rightarrow> bool" where
  "names_ok bs \<longleftrightarrow> (\<exists>ns k. map bw_name bs = map Some ns @ replicate k None \<and> distinct ns)"

definition bw_inv :: "bts_device \<Rightarrow> bool" where
  "bw_inv d \<longleftrightarrow> (\<exists>rows. bus1_int_tbl d = Some rows \<and> rows \<noteq> []) \<and> (\<forall>b \<in> set (bts_bws d). slot_ok b) \<and> names_ok (bts_bws d) \<and>
     qos_inv (pmqos d) \<and> req_class (pmqos d) (exynos_mif_qos d) = PM_QOS_BUS_THROUGHPUT \<and>
     req_class (pmqos d) (exynos_int_qos d) = PM_QOS_DEVICE_THROUGHPUT \<and>
     prio (qos_nodes (pmqos d)) (exynos_mif_qos d) = mif_demand (bts_bws d)"

lemma bw_inv_same_rest: "same_rest d d' \<Longrightarrow> bw_inv d' = bw_inv d"
  by (simp add: same_rest_def bw_inv_def)

lemma hist_bin_range: "hist_bin bw < int BTS_HIST_BIN"
  using length_takeWhile_le [of "\<lambda>t. \<not> bw < t" bw_trip] by (auto simp: hist_bin_def bw_trip_def simp del: length_takeWhile_le)

lemma update_stats_ok:
  shows "slot_ok b \<Longrightarrow> slot_ok (bts_update_stats now b)" "contrib (bts_update_stats now b) = contrib b"
    "bw_name (bts_update_stats now b) = bw_name b"
  using hist_bin_range
  by (simp_all add: slot_ok_def stats_ok_def bts_update_stats_def Let_def hist_add_def contrib_def)

lemma calc_bw_ok:
  assumes "bus1_int_tbl d = Some rows" "rows \<noteq> []" and "qos_inv (pmqos d)"
    and "req_class (pmqos d) (exynos_mif_qos d) = PM_QOS_BUS_THROUGHPUT"
    and "req_class (pmqos d) (exynos_int_qos d) = PM_QOS_DEVICE_THROUGHPUT"
  obtains pk tot int_freq q x where
    "bts_calc_bw d = Some (d\<lparr>peak_bw := pk, total_bw := tot, pmqos := q\<rparr>)" and "qos_inv q" and "req_class q = req_class (pmqos d)"
    and "prio (qos_nodes q) = (prio (qos_nodes (pmqos d)))(exynos_mif_qos d := mif_demand (bts_bws d), exynos_int_qos d := x)"
    and "bus1_to_int_freq (bus1_int_tbl d) (snd (snd (snd (bw_demand (bts_bws d))))) = Some int_freq"
    and "int_freq \<noteq> -1 \<Longrightarrow> x = int_freq"
proof -
  obtain pk tot mif bus1 where dm: "bw_demand (bts_bws d) = (pk, tot, mif, bus1)" by (metis prod_cases4)
  obtain f where f: "bus1_to_int_freq (bus1_int_tbl d) bus1 = Some f" using bus1_to_int_some assms(1,2) by metis
  have m: "mif \<noteq> -1" using mif_demand_small [of "bts_bws d"] by (auto simp: mif_demand_def dm uint_word_ariths)
  obtain q1 q x y where q: "exynos_pm_qos_update_request (Some (exynos_mif_qos d)) mif (pmqos d) = Some q1"
    "exynos_pm_qos_update_request (Some (exynos_int_qos d)) f q1 = Some q" "qos_inv q" "req_class q = req_class (pmqos d)"
    "prio (qos_nodes q) = (prio (qos_nodes (pmqos d)))(exynos_mif_qos d := x, exynos_int_qos d := y)"
    "mif \<noteq> -1 \<Longrightarrow> x = mif" "f \<noteq> -1 \<Longrightarrow> y = f"
    by (rule pmq.update_two [OF assms(3), of "exynos_mif_qos d" "exynos_int_qos d" mif f]) (use assms(4,5) in auto)
  have run: "bts_calc_bw d = Some (d\<lparr>peak_bw := pk, total_bw := tot, pmqos := q\<rparr>)"
    using dm f q(1,2) by (simp add: bts_calc_bw_def)
  have p: "prio (qos_nodes q) = (prio (qos_nodes (pmqos d)))(exynos_mif_qos d := mif_demand (bts_bws d), exynos_int_qos d := y)"
    using q(5) q(6) [OF m] dm by (simp add: mif_demand_def)
  show thesis by (rule that [OF run q(3,4) p _ q(7)]) (use dm f in simp_all)
qed

subsection \<open>The calls\<close>

lemma update_bw_ok:
  assumes inv: "bw_inv d"
  obtains r q tot pk bs where "bts_update_bw i bw now d = Some (r, d\<lparr>bts_bws := bs, peak_bw := pk, total_bw := tot, pmqos := q\<rparr>)"
    and "bw_inv (d\<lparr>bts_bws := bs, peak_bw := pk, total_bw := tot, pmqos := q\<rparr>)"
    and "r = (if i < length (bts_bws d) \<and> (v_read bw + v_write bw = 0 \<longleftrightarrow> v_peak bw = 0) then 0 else - EINVAL)"
    and "r = 0 \<longrightarrow> (bw_peak (bs ! i), bw_read (bs ! i), bw_write (bs ! i)) = (v_peak bw, v_read bw, v_write bw)"
    and "r = 0 \<longrightarrow> is_rt (bts_bws d ! i) \<longrightarrow> bw_rt (bs ! i) = v_rt bw"
    and "\<forall>j. j < length (bts_bws d) \<longrightarrow> j \<noteq> i \<longrightarrow> bs ! j = bts_bws d ! j"
    and "map bw_name bs = map bw_name (bts_bws d)"
    and "r = 0 \<longrightarrow> (\<exists>f. bus1_to_int_freq (bus1_int_tbl d) (snd (snd (snd (bw_demand bs)))) = Some f \<and>
       (f \<noteq> -1 \<longrightarrow> prio (qos_nodes q) (exynos_int_qos d) = f))"
proof (cases "i < length (bts_bws d) \<and> (v_read bw + v_write bw = 0 \<longleftrightarrow> v_peak bw = 0)")
  case False
  then have "bts_update_bw i bw now d = Some (- EINVAL, d)" by (auto simp: bts_update_bw_def Let_def)
  moreover have "d = d\<lparr>bts_bws := bts_bws d, peak_bw := peak_bw d, total_bw := total_bw d, pmqos := pmqos d\<rparr>" by simp
  ultimately show thesis using that [where r = "- EINVAL" and bs = "bts_bws d" and pk = "peak_bw d" and tot = "total_bw d" and q = "pmqos d"] inv False by simp
next
  case True
  define b1 where "b1 = put_vote bw (bts_bws d ! i)"
  let ?d = "d\<lparr>bts_bws := (bts_bws d)[i := b1]\<rparr>"
  obtain rows where rows: "bus1_int_tbl ?d = Some rows" "rows \<noteq> []" using inv by (auto simp: bw_inv_def)
  obtain pk tot f q x where c: "bts_calc_bw ?d = Some (?d\<lparr>peak_bw := pk, total_bw := tot, pmqos := q\<rparr>)" "qos_inv q"
    "req_class q = req_class (pmqos d)"
    "prio (qos_nodes q) = (prio (qos_nodes (pmqos d)))(exynos_mif_qos d := mif_demand (bts_bws ?d), exynos_int_qos d := x)"
    "bus1_to_int_freq (bus1_int_tbl d) (snd (snd (snd (bw_demand (bts_bws ?d))))) = Some f" "f \<noteq> -1 \<Longrightarrow> x = f"
    by (rule calc_bw_ok [OF rows]) (use inv in \<open>simp_all add: bw_inv_def\<close>)
  define b2 where "b2 = bts_update_stats now b1"
  let ?d' = "d\<lparr>bts_bws := (bts_bws d)[i := b2], peak_bw := pk, total_bw := tot, pmqos := q\<rparr>"
  have run: "bts_update_bw i bw now d = Some (0, ?d')"
    using True c(1) by (auto simp: bts_update_bw_def Let_def b2_def b1_def)
  have slot: "slot_ok (bts_bws d ! i)" using inv True by (simp add: bw_inv_def)
  then have "slot_ok b1" by (auto simp: slot_ok_def b1_def put_vote_def Let_def)
  then have ok2: "slot_ok b2" and ctr: "contrib b2 = contrib b1" and nm: "bw_name b2 = bw_name (bts_bws d ! i)"
    using update_stats_ok [where b = b1] by (simp_all add: b2_def b1_def put_vote_def Let_def)
  have names: "map bw_name ((bts_bws d)[i := b2]) = map bw_name (bts_bws d)" using nm True by (simp add: map_update list_update_same_conv)
  have dem: "bw_demand ((bts_bws d)[i := b2]) = bw_demand ((bts_bws d)[i := b1])"
    using demand_update [of b2 "(bts_bws d)[i := b1]" i] ctr True by simp
  then have "mif_demand ((bts_bws d)[i := b2]) = mif_demand ((bts_bws d)[i := b1])" by (simp add: mif_demand_def)
  moreover have "exynos_mif_qos d \<noteq> exynos_int_qos d" using inv by (auto simp: bw_inv_def)
  ultimately have "bw_inv ?d'" using inv c ok2 names set_update_subset_insert [of "bts_bws d" i b2]
    by (auto simp: bw_inv_def names_ok_def)
  moreover have "(bw_peak b2, bw_read b2, bw_write b2) = (v_peak bw, v_read bw, v_write bw)"
    "is_rt (bts_bws d ! i) \<Longrightarrow> bw_rt b2 = v_rt bw" using ctr by (auto simp: contrib_def b1_def b2_def put_vote_def bts_update_stats_def Let_def)
  moreover have "\<exists>f. bus1_to_int_freq (bus1_int_tbl d) (snd (snd (snd (bw_demand ((bts_bws d)[i := b2]))))) = Some f \<and>
       (f \<noteq> -1 \<longrightarrow> prio (qos_nodes q) (exynos_int_qos d) = f)" using c(4-6) dem by simp
  ultimately show thesis using that [OF run] True names by (simp add: nth_list_update)
qed

text \<open>Naming a client: the index of its name, else the first slot without a name, else a fault.\<close>

lemma bw_slot_spec:
  assumes "map bw_name bs = map Some ns @ replicate k None" and "distinct ns"
  shows "name \<notin> set ns \<Longrightarrow> bw_slot bs name i = (if k = 0 then None else Some (i + length ns, False))"
    "j < length ns \<Longrightarrow> ns ! j = name \<Longrightarrow> bw_slot bs name i = Some (i + j, True)"
  using assms
proof (induction bs arbitrary: i j ns)
  case (Cons b bs)
  case 1
  then show ?case
  proof (cases ns)
    case Nil
    then show ?thesis using 1 by (cases k) simp_all
  next
    case ns: (Cons n ns')
    then show ?thesis using 1 Cons.IH(1) [of ns' "Suc i"] by auto
  qed
next
  case (Cons b bs)
  case 2
  then obtain n ns' where ns: "ns = n # ns'" by (cases ns) auto
  show ?case
  proof (cases j)
    case 0
    then show ?thesis using 2 ns by auto
  next
    case (Suc l)
    then have "n \<noteq> name" using 2 ns by auto
    then show ?thesis using 2 ns Suc Cons.IH(2) [of l ns' "Suc i"] by auto
  qed
qed auto

lemma get_bwindex_ok:
  assumes inv: "bw_inv d" and ns: "map bw_name (bts_bws d) = map Some ns @ replicate k None" "distinct ns"
  shows "j < length ns \<Longrightarrow> ns ! j = name \<Longrightarrow> bts_get_bwindex ok name d = Some (int j, d)"
    "name \<notin> set ns \<Longrightarrow> k = 0 \<Longrightarrow> bts_get_bwindex ok name d = None"
    "name \<notin> set ns \<Longrightarrow> k \<noteq> 0 \<Longrightarrow> bts_get_bwindex False name d = Some (- ENOMEM, d)"
    "name \<notin> set ns \<Longrightarrow> k \<noteq> 0 \<Longrightarrow> \<exists>bs. bts_get_bwindex True name d = Some (int (length ns), d\<lparr>bts_bws := bs\<rparr>) \<and> bw_inv (d\<lparr>bts_bws := bs\<rparr>) \<and>
       map bw_name bs = map Some (ns @ [name]) @ replicate (k - 1) None \<and> map contrib bs = map contrib (bts_bws d)"
proof -
  note slot = bw_slot_spec(1) [OF ns, of name 0]
  show "j < length ns \<Longrightarrow> ns ! j = name \<Longrightarrow> bts_get_bwindex ok name d = Some (int j, d)"
    using bw_slot_spec(2) [OF ns, of j name 0] by (simp add: bts_get_bwindex_def)
  show "name \<notin> set ns \<Longrightarrow> k = 0 \<Longrightarrow> bts_get_bwindex ok name d = None"
    "name \<notin> set ns \<Longrightarrow> k \<noteq> 0 \<Longrightarrow> bts_get_bwindex False name d = Some (- ENOMEM, d)"
    using slot by (simp_all add: bts_get_bwindex_def)
  assume new: "name \<notin> set ns" and k: "k \<noteq> 0"
  let ?i = "length ns"
  let ?b = "(bts_bws d ! ?i)\<lparr>bw_name := Some name, is_rt := (name \<in> set (rt_names d))\<rparr>"
  let ?d' = "d\<lparr>bts_bws := (bts_bws d)[?i := ?b]\<rparr>"
  have i: "?i < length (bts_bws d)" using arg_cong [OF ns(1), of length] k by simp
  have "bw_name (bts_bws d ! ?i) = None" using arg_cong [OF ns(1), of "\<lambda>xs. xs ! ?i"] i k by (simp add: nth_append)
  moreover have "slot_ok (bts_bws d ! ?i)" using inv i by (simp add: bw_inv_def)
  ultimately have free: "\<not> is_rt (bts_bws d ! ?i)" "bw_rt (bts_bws d ! ?i) = 0" "slot_ok ?b" by (simp_all add: slot_ok_def)
  have names: "map bw_name ((bts_bws d)[?i := ?b]) = map Some (ns @ [name]) @ replicate (k - 1) None"
    using ns(1) k by (cases k) (simp_all add: map_update list_update_append)
  have ctr: "map contrib ((bts_bws d)[?i := ?b]) = map contrib (bts_bws d)"
    using free i by (simp add: map_update list_update_same_conv contrib_def)
  have "bw_inv ?d'" using inv free(3) names ns(2) new demand_cong [OF ctr] set_update_subset_insert [of "bts_bws d" ?i ?b]
    unfolding bw_inv_def names_ok_def
    by (auto simp: mif_demand_def intro!: exI [where x = "ns @ [name]"])
  then show "\<exists>bs. bts_get_bwindex True name d = Some (int (length ns), d\<lparr>bts_bws := bs\<rparr>) \<and> bw_inv (d\<lparr>bts_bws := bs\<rparr>) \<and>
       map bw_name bs = map Some (ns @ [name]) @ replicate (k - 1) None \<and> map contrib bs = map contrib (bts_bws d)"
    using slot new k names ctr by (intro exI [where x = "(bts_bws d)[?i := ?b]"]) (simp add: bts_get_bwindex_def)
qed

end
