(* ===== verification/BtsRuns.thy ===== *)
theory BtsRuns
  imports BtsBw BtsIo
begin

text \<open>
  The runs of the bus traffic shaper driver: from a probe of a sound device tree on, with the calls
  in any order, power domains going down and up, the system suspending, and other drivers using PM
  QoS; and the invariant that holds in all of them.
\<close>

subsection \<open>Runs\<close>

text \<open>The registers of a child node, as those of a block with its second area.\<close>

definition dt_regs :: "dt_block \<Rightarrow> u64 set" where
  "dt_regs b =
     (case db_type b of
        None \<Rightarrow> {}
      | Some t \<Rightarrow> block_regs \<lparr>bts_name = [], va_base = db_va b, btstype = t, pd_id = 0, pd_on = False,
                    settings = Some [zero_stat\<lparr>qos_va_base := db_qos_va b\<rparr>]\<rparr>)"

definition dt_ok :: "bts_dt \<Rightarrow> bool" where
  "dt_ok dt \<longleftrightarrow>
     (\<forall>b \<in> set (dt_blocks dt). db_type b = Some IP_BTS \<or> db_type b = Some SCI_BTS \<longrightarrow> db_settings b \<noteq> []) \<and>
     (\<forall>j < length (dt_blocks dt). \<forall>i < j. dt_regs (dt_blocks dt ! i) \<inter> dt_regs (dt_blocks dt ! j) = {})"

text \<open>
  A step: a call; the loss of registers in blocks without power; a suspend, which may lose all
  registers, with its resume; a step of PM QoS that leaves the driver's two requests alone. The
  writes to debugfs that override single registers are left out.
\<close>

inductive bts_step :: "bts_device \<Rightarrow> bts_device \<Rightarrow> bool" where
  step_bwindex: "bts_get_bwindex ok name d = Some (r, d') \<Longrightarrow> bts_step d d'"
| step_update_bw: "bts_update_bw i bw now d = Some (r, d') \<Longrightarrow> bts_step d d'"
| step_add: "bts_add_scenario i d = Some (r, d') \<Longrightarrow> bts_step d d'"
| step_del: "bts_del_scenario i d = Some (r, d') \<Longrightarrow> bts_step d d'"
| step_scenario_write: "exynos_bts_scenario_write n vals d = Some (r, d') \<Longrightarrow> bts_step d d'"
| step_log_write: "exynos_bts_log_write n vals d = (r, d') \<Longrightarrow> bts_step d d'"
| step_pd_sync: "bts_pd_sync cal_id on d = Some d' \<Longrightarrow> bts_step d d'"
| step_lose: "(\<And>i a. i < length (bts_list d) \<Longrightarrow> pd_on (bts_list d ! i) \<Longrightarrow> a \<in> block_regs (bts_list d ! i) \<Longrightarrow> m a = bts_regs d a) \<Longrightarrow>
     bts_step d (d\<lparr>bts_regs := m\<rparr>)"
| step_resume: "exynos_bts_syscore_resume (d\<lparr>bts_regs := m\<rparr>) = Some d' \<Longrightarrow> bts_step d d'"
| step_other_qos: "qos_step (pmqos d) q \<Longrightarrow>
     (\<And>r. r \<in> {exynos_mif_qos d, exynos_int_qos d} \<Longrightarrow>
        qos_reqs q r = qos_reqs (pmqos d) r \<and> prio (qos_nodes q) r = prio (qos_nodes (pmqos d)) r) \<Longrightarrow>
     bts_step d (d\<lparr>pmqos := q\<rparr>)"

inductive bts_reachable :: "bts_device \<Rightarrow> bool" where
  bts_start: "dt_ok dt \<Longrightarrow> qos_reachable q \<Longrightarrow> mif \<noteq> intr \<Longrightarrow>
     exynos_pm_qos_class (qos_reqs q mif) = 0 \<Longrightarrow> exynos_pm_qos_class (qos_reqs q intr) = 0 \<Longrightarrow>
     bts_probe junk dt mif intr m q = Some (Inr d) \<Longrightarrow> bts_reachable d"
| bts_next: "bts_reachable d \<Longrightarrow> bts_step d d' \<Longrightarrow> bts_reachable d'"

inductive_cases bts_stepE: "bts_step d d'"

text \<open>
  The runs in which no counter of users wraps around: no scenario has \<open>2 ^ 31 - 1\<close> users when a call comes.
\<close>

definition few_users :: "bts_device \<Rightarrow> bool" where
  "few_users d \<longleftrightarrow> (\<forall>s \<in> set (scen_list d). usage_count s < 2 ^ 31 - 1)"

inductive bts_few_reachable :: "bts_device \<Rightarrow> bool" where
  few_start: "dt_ok dt \<Longrightarrow> qos_reachable q \<Longrightarrow> mif \<noteq> intr \<Longrightarrow>
     exynos_pm_qos_class (qos_reqs q mif) = 0 \<Longrightarrow> exynos_pm_qos_class (qos_reqs q intr) = 0 \<Longrightarrow>
     bts_probe junk dt mif intr m q = Some (Inr d) \<Longrightarrow> bts_few_reachable d"
| few_next: "bts_few_reachable d \<Longrightarrow> few_users d \<Longrightarrow> bts_step d d' \<Longrightarrow> bts_few_reachable d'"

subsection \<open>Every step keeps the invariant\<close>

text \<open>
  The invariant is the same for both kinds of runs but for what it says of the scenarios: \<open>S\<close>, which the calls on
  scenarios keep in the states \<open>G\<close>.
\<close>

locale scenario_runs =
  fixes S G :: "bts_device \<Rightarrow> bool"
  assumes S_cong: "scen_list d' = scen_list d \<Longrightarrow> scen_node d' = scen_node d \<Longrightarrow> top_scen d' = top_scen d \<Longrightarrow> S d' = S d"
    and S_top: "S d \<Longrightarrow> top_scen d < length (scen_list d)"
    and S_add: "S d \<Longrightarrow> G d \<Longrightarrow> config_ok d \<Longrightarrow> all_synced (top_scen d) d \<Longrightarrow> bts_add_scenario i d = Some (r, d') \<Longrightarrow>
      S d' \<and> config_ok d' \<and> all_synced (top_scen d') d' \<and> same_rest d d'"
    and S_del: "S d \<Longrightarrow> G d \<Longrightarrow> config_ok d \<Longrightarrow> all_synced (top_scen d) d \<Longrightarrow> bts_del_scenario i d = Some (r, d') \<Longrightarrow>
      S d' \<and> config_ok d' \<and> all_synced (top_scen d') d' \<and> same_rest d d'"
begin

definition bts_inv :: "bts_device \<Rightarrow> bool" where
  "bts_inv d \<longleftrightarrow> config_ok d \<and> all_synced (top_scen d) d \<and> S d \<and> bw_inv d"

lemma bts_inv_cong:
  assumes "top_scen d' = top_scen d" "bts_list d' = bts_list d" "scen_list d' = scen_list d" "scen_node d' = scen_node d"
    "bts_regs d' = bts_regs d" "bw_inv d'" and "bts_inv d"
  shows "bts_inv d'"
  using assms config_ok_cong [of d' d] all_synced_cong [of d' d] S_cong [of d' d] by (simp add: bts_inv_def)

lemma frame_bts_inv:
  assumes "frame d d'" and "bts_inv d" and "all_synced (top_scen d') d'"
  shows "bts_inv d'"
  using assms frameD [OF assms(1)] S_cong [of d' d] bw_inv_same_rest [OF frame_same_rest [OF assms(1)]]
  by (simp add: bts_inv_def)

lemma scenario_call_inv:
  assumes "bts_inv d" and "G d" and "bts_add_scenario i d = Some (r, d') \<or> bts_del_scenario i d = Some (r, d')"
  shows "bts_inv d'"
proof -
  have "S d' \<and> config_ok d' \<and> all_synced (top_scen d') d' \<and> same_rest d d'"
    using assms S_add [of d i r d'] S_del [of d i r d'] by (auto simp: bts_inv_def)
  then show ?thesis using bw_inv_same_rest [of d d'] assms(1) by (simp add: bts_inv_def)
qed

lemma update_bw_inv:
  assumes "bts_inv d"
  obtains r d' where "bts_update_bw i bw now d = Some (r, d')" "bts_inv d'"
proof -
  have "bw_inv d" using assms by (simp add: bts_inv_def)
  then obtain r bs pk tot q where r: "bts_update_bw i bw now d = Some (r, d\<lparr>bts_bws := bs, peak_bw := pk, total_bw := tot, pmqos := q\<rparr>)"
    "bw_inv (d\<lparr>bts_bws := bs, peak_bw := pk, total_bw := tot, pmqos := q\<rparr>)"
    using update_bw_ok [of d i bw now] by metis
  have "bts_inv (d\<lparr>bts_bws := bs, peak_bw := pk, total_bw := tot, pmqos := q\<rparr>)"
    by (rule bts_inv_cong [where d = d]) (use r(2) assms in simp_all)
  then show thesis using that r(1) by blast
qed

lemma bwindex_inv:
  assumes "bts_inv d" and "bts_get_bwindex ok name d = Some (r, d')"
  shows "bts_inv d'"
proof -
  have bw: "bw_inv d" using assms(1) by (simp add: bts_inv_def)
  then obtain ns k where ns: "map bw_name (bts_bws d) = map Some ns @ replicate k None" "distinct ns"
    by (auto simp: bw_inv_def names_ok_def)
  note calls = get_bwindex_ok [OF bw ns, where name = name]
  consider (old) j where "j < length ns" "ns ! j = name" | (full) "name \<notin> set ns" "k = 0"
    | (none) "name \<notin> set ns" "k \<noteq> 0" "\<not> ok" | (new) "name \<notin> set ns" "k \<noteq> 0" ok
    by (metis in_set_conv_nth)
  then show ?thesis
  proof cases
    case new
    then obtain bs where bs: "bts_get_bwindex True name d = Some (int (length ns), d\<lparr>bts_bws := bs\<rparr>)" "bw_inv (d\<lparr>bts_bws := bs\<rparr>)"
      using calls(4) by blast
    have "bts_inv (d\<lparr>bts_bws := bs\<rparr>)" by (rule bts_inv_cong [where d = d]) (use bs(2) assms in simp_all)
    then show ?thesis using assms(2) bs(1) new by simp
  qed (use assms calls in auto)
qed

lemma lose_ok:
  assumes inv: "bts_inv d"
    and m: "\<And>i a. i < length (bts_list d) \<Longrightarrow> pd_on (bts_list d ! i) \<Longrightarrow> a \<in> block_regs (bts_list d ! i) \<Longrightarrow> m a = bts_regs d a"
  shows "bts_inv (d\<lparr>bts_regs := m\<rparr>)"
proof -
  have "synced (top_scen d) (bts_list d ! i) m" if i: "i < length (bts_list d)" for i
  proof -
    let ?info = "bts_list d ! i"
    have s: "synced (top_scen d) ?info (bts_regs d)" and ok: "config_ok d" using inv i by (auto simp: bts_inv_def all_synced_def)
    have t: "top_scen d < length (scen_list d)" using inv S_top by (simp add: bts_inv_def)
    have "block_reads ?info (chosen ss (top_scen d)) m" if on: "pd_on ?info" "va_base ?info \<noteq> 0" and ss: "settings ?info = Some ss"
      "stat_on (chosen ss (top_scen d))" for ss
    proof (cases "set_bts (register_btsops (btstype ?info))")
      case None
      then show ?thesis by (cases "btstype ?info") (simp_all add: block_reads_def)
    next
      case (Some f)
      then have "length ss = length (scen_list d)" using config_settings [OF ok i Some] ss(1) by auto
      then have "chosen ss (top_scen d) \<in> set ss" using t by (auto simp: chosen_def intro!: nth_mem)
      then have "block_reads ?info (chosen ss (top_scen d)) m = block_reads ?info (chosen ss (top_scen d)) (bts_regs d)"
        using m [OF i on(1)] by (intro block_reads_kept [OF ss(1), of _ "- block_regs ?info"]) auto
      then show ?thesis using s on ss by (simp add: synced_def)
    qed
    then show ?thesis by (simp add: synced_def)
  qed
  then show ?thesis using inv config_ok_cong [of "d\<lparr>bts_regs := m\<rparr>" d] S_cong [of "d\<lparr>bts_regs := m\<rparr>" d]
    by (simp add: bts_inv_def all_synced_def bw_inv_def)
qed

lemma pd_sync_inv:
  assumes "bts_inv d"
  obtains d' where "bts_pd_sync cal_id on d = Some d'" "bts_inv d'"
proof -
  have "top_scen d < length (scen_list d)" using assms S_top by (simp add: bts_inv_def)
  then obtain d' where "pd_sync_loop cal_id on 0 (length (bts_list d)) d = Some d'" "frame d d'" "all_synced (top_scen d') d'"
    using pd_sync_loop_ok [of d 0 "length (bts_list d)"] assms by (auto simp: bts_inv_def)
  then show thesis using that frame_bts_inv assms by (simp add: bts_pd_sync_def)
qed

lemma resume_inv:
  assumes "bts_inv d"
  obtains d' where "exynos_bts_syscore_resume (d\<lparr>bts_regs := m\<rparr>) = Some d'" "bts_inv d'"
proof -
  let ?d = "d\<lparr>bts_regs := m\<rparr>"
  have "config_ok ?d" "top_scen ?d < length (scen_list ?d)"
    using assms S_top [of d] config_ok_cong [of ?d d] by (simp_all add: bts_inv_def)
  then obtain d' where d': "resume_loop 0 (length (bts_list ?d)) ?d = Some d'" "frame ?d d'" "all_synced (top_scen d') d'"
    using resume_loop_ok [of ?d 0 "length (bts_list ?d)"] by auto
  have "same_rest d d'" "S d'" "config_ok d'"
    using frameD [OF d'(2)] assms S_cong [of d' d] config_ok_cong [of ?d d] by (simp_all add: same_rest_def bts_inv_def)
  then have "bts_inv d'" using d'(3) bw_inv_same_rest [of d d'] assms by (simp add: bts_inv_def)
  then show thesis using that d'(1) by (simp add: exynos_bts_syscore_resume_def)
qed

lemma scenario_write_inv:
  assumes "bts_inv d" and "G d" and "exynos_bts_scenario_write n vals d = Some (r, d')"
  shows "bts_inv d'"
proof (cases "n \<ge> 0 \<and> (\<exists>scen on. vals = [scen, on] \<and> unat scen < length (scen_list d) \<and> (on = 0 \<or> on = 1))")
  case True
  then obtain scen on where v: "0 \<le> n" "vals = [scen, on]" "unat scen < length (scen_list d)" "on = 0 \<or> on = 1" by blast
  then have "\<exists>r'. bts_add_scenario (unat scen) d = Some (r', d') \<or> bts_del_scenario (unat scen) d = Some (r', d')"
    using assms(3) by (auto simp: exynos_bts_scenario_write_def split: option.splits)
  then show ?thesis using scenario_call_inv [OF assms(1,2)] by blast
next
  case False
  then have "\<exists>r. exynos_bts_scenario_write n vals d = Some (r, d)"
    by (auto simp: exynos_bts_scenario_write_def not_le split: list.splits)
  then show ?thesis using assms by auto
qed

lemma other_qos_inv:
  assumes "bts_inv d" and "qos_step (pmqos d) q"
    and "\<And>r. r \<in> {exynos_mif_qos d, exynos_int_qos d} \<Longrightarrow>
        qos_reqs q r = qos_reqs (pmqos d) r \<and> prio (qos_nodes q) r = prio (qos_nodes (pmqos d)) r"
  shows "bts_inv (d\<lparr>pmqos := q\<rparr>)"
proof (rule bts_inv_cong [where d = d])
  have "qos_inv q" using qos_inv_step [OF assms(2)] assms(1) by (simp add: bts_inv_def bw_inv_def)
  then show "bw_inv (d\<lparr>pmqos := q\<rparr>)"
    using assms(1) assms(3) [of "exynos_mif_qos d"] assms(3) [of "exynos_int_qos d"]
    by (simp add: bts_inv_def bw_inv_def req_class_def del: class_of_req)
qed (use assms(1) in simp_all)

lemma log_write_inv:
  assumes "bts_inv d" and "exynos_bts_log_write n vals d = (r, d')"
  shows "bts_inv d'"
proof -
  have "\<exists>b. d' = d\<lparr>btsdbg_log := b\<rparr>"
    using assms(2) by (auto simp: exynos_bts_log_write_def split: if_splits list.splits) (metis bts_device.surjective bts_device.update_convs(10))+
  then obtain b where "d' = d\<lparr>btsdbg_log := b\<rparr>" by blast
  moreover have "bts_inv (d\<lparr>btsdbg_log := b\<rparr>)"
    by (rule bts_inv_cong [where d = d]) (use assms(1) in \<open>simp_all add: bts_inv_def bw_inv_def\<close>)
  ultimately show ?thesis by simp
qed

lemma bts_inv_step:
  assumes "bts_step d d'" and inv: "bts_inv d" and g: "G d"
  shows "bts_inv d'"
  using assms(1)
proof (cases rule: bts_step.cases)
  case (step_update_bw i bw now r)
  then show ?thesis using update_bw_inv [OF inv, of i bw now] by auto
next
  case (step_add i r)
  then show ?thesis using scenario_call_inv [OF inv g] by blast
next
  case (step_del i r)
  then show ?thesis using scenario_call_inv [OF inv g] by blast
next
  case (step_scenario_write n vals r)
  then show ?thesis using scenario_write_inv [OF inv g] by blast
next
  case (step_pd_sync cal_id on)
  then show ?thesis using pd_sync_inv [OF inv, of cal_id on] by auto
next
  case (step_resume m)
  then show ?thesis using resume_inv [OF inv, of m] by auto
next
  case (step_bwindex ok name r)
  then show ?thesis using bwindex_inv [OF inv] by blast
next
  case (step_log_write n vals r)
  then show ?thesis using log_write_inv [OF inv] by blast
next
  case (step_lose m)
  then show ?thesis using lose_ok [OF inv] by blast
next
  case (step_other_qos q)
  then show ?thesis using other_qos_inv [OF inv] by blast
qed

end

lemma few_users_room: "few_users d \<Longrightarrow> i < length (scen_list d) \<Longrightarrow> usage_count (scen_list d ! i) < 2 ^ 31 - 1"
  by (simp add: few_users_def)

interpretation any_run: scenario_runs scen_weak "\<lambda>_. True"
proof (unfold_locales, goal_cases)
  case (1 d' d)
  then show ?case by (rule scen_weak_cong)
next
  case (2 d)
  then show ?case by (simp add: scen_weak_def)
next
  case (3 d i r d')
  then show ?case by (intro add_scenario_weak)
next
  case (4 d i r d')
  then show ?case by (intro del_scenario_weak)
qed

interpretation few_run: scenario_runs scen_inv few_users
proof (unfold_locales, goal_cases)
  case (1 d' d)
  then show ?case by (rule scen_inv_cong)
next
  case (2 d)
  then show ?case by (rule scen_invD(2))
next
  case (3 d i r d')
  obtain d1 where "bts_add_scenario i d = Some (if i < length (scen_list d) then 0 else - EINVAL, d1)"
    "scen_inv d1" "config_ok d1" "all_synced (top_scen d1) d1" "same_rest d d1"
    by (rule add_scenario_ok [OF 3(1,3,4) few_users_room [OF 3(2)]])
  then show ?case using 3(5) by simp
next
  case (4 d i r d')
  obtain d1 where "bts_del_scenario i d = Some (if i < length (scen_list d) then 0 else - EINVAL, d1)"
    "scen_inv d1" "config_ok d1" "all_synced (top_scen d1) d1" "same_rest d d1"
    by (rule del_scenario_ok [OF 4(1,3,4)])
  then show ?case using 4(5) by simp
qed

abbreviation bts_inv :: "bts_device \<Rightarrow> bool" where "bts_inv \<equiv> any_run.bts_inv"
abbreviation few_inv :: "bts_device \<Rightarrow> bool" where "few_inv \<equiv> few_run.bts_inv"

lemma few_inv_imp: "few_inv d \<Longrightarrow> bts_inv d"
  by (simp add: any_run.bts_inv_def few_run.bts_inv_def scen_inv_weak)

subsection \<open>The probe establishes it\<close>

lemma parse_setting_area [simp]: "qos_va_base (bts_parse_setting junk np s) = qos_va_base s"
  by (simp add: bts_parse_setting_def Let_def)

lemma parse_scens:
  assumes "length ss = length scens" and "\<forall>s \<in> set ss. qos_va_base s = 0 \<or> qos_va_base s = q"
  shows "length (foldl (parse_scen junk scens) ss ns) = length scens \<and>
    (\<forall>s \<in> set (foldl (parse_scen junk scens) ss ns). qos_va_base s = 0 \<or> qos_va_base s = q)"
  using assms
proof (induction ns arbitrary: ss)
  case (Cons n ns)
  have "\<forall>s \<in> set (parse_scen junk scens ss n). qos_va_base s = 0 \<or> qos_va_base s = q"
    using Cons.prems(2) by (auto simp: parse_scen_def split: prod.splits if_splits dest!: set_zip_rightD)
  moreover have "length (parse_scen junk scens ss n) = length scens"
    using Cons.prems(1) by (simp add: parse_scen_def split: prod.splits)
  ultimately show ?case using Cons.IH [of "parse_scen junk scens ss n"] by simp
qed simp

lemma parse_block_ok:
  assumes "parse_block junk scens b = Inr info"
  shows "block_regs info \<subseteq> dt_regs b" "db_type b = Some (btstype info)"
    "db_settings b \<noteq> [] \<Longrightarrow> \<exists>ss. settings info = Some ss \<and> length ss = length scens"
proof -
  obtain t where t: "db_type b = Some t" using assms by (auto simp: parse_block_def Let_def split: option.splits)
  let ?ss = "(replicate (length scens) zero_stat)[0 := zero_stat\<lparr>qos_va_base := db_qos_va b\<rparr>]"
  have "\<forall>s \<in> set ?ss. qos_va_base s = 0 \<or> qos_va_base s = db_qos_va b"
    by (auto simp: zero_stat_def dest!: subsetD [OF set_update_subset_insert])
  then have ss: "length (foldl (parse_scen junk scens) ?ss ns) = length scens"
    "s \<in> set (foldl (parse_scen junk scens) ?ss ns) \<Longrightarrow> qos_va_base s = 0 \<or> qos_va_base s = db_qos_va b" for ns s
    using parse_scens [of ?ss scens] by simp_all
  have i: "va_base info = db_va b" "btstype info = t"
    "settings info = (if db_settings b = [] then None else Some (foldl (parse_scen junk scens) ?ss (db_settings b)))"
    using assms t by (auto simp: parse_block_def Let_def)
  show "db_type b = Some (btstype info)" using t i by simp
  show "db_settings b \<noteq> [] \<Longrightarrow> \<exists>ss. settings info = Some ss \<and> length ss = length scens" using i ss by simp
  have "sci_regs (db_va b) s \<subseteq> sci_regs (db_va b) (zero_stat\<lparr>qos_va_base := db_qos_va b\<rparr>)"
    if "s \<in> set (foldl (parse_scen junk scens) ?ss ns)" for s ns
    using ss(2) [OF that] by (auto simp: sci_regs_def)
  then show "block_regs info \<subseteq> dt_regs b" using i t
    by (auto simp: block_regs_def dt_regs_def split: bts_type.splits option.splits if_splits)
qed

lemma parse_blocks_ok:
  "parse_blocks junk scens bs = Inr infos \<Longrightarrow>
     length infos = length bs \<and> (\<forall>i < length bs. parse_block junk scens (bs ! i) = Inr (infos ! i))"
proof (induction bs arbitrary: infos)
  case (Cons b bs)
  then obtain i "is" where "parse_block junk scens b = Inr i" "parse_blocks junk scens bs = Inr is" "infos = i # is"
    by (auto split: sum.splits)
  then show ?case using Cons.IH [of "is"] by (auto simp: nth_Cons split: nat.splits)
qed simp

lemma parse_config_ok:
  assumes parse: "parse_blocks junk (dt_scens dt) (dt_blocks dt) = Inr (bts_list d)" and dt: "dt_ok dt"
    and scens: "dt_scens dt \<noteq> []" "length (scen_list d) = length (dt_scens dt)"
  shows "config_ok d"
proof -
  have p: "length (bts_list d) = length (dt_blocks dt)"
    "i < length (dt_blocks dt) \<Longrightarrow> parse_block junk (dt_scens dt) (dt_blocks dt ! i) = Inr (bts_list d ! i)" for i
    using parse_blocks_ok [OF parse] by simp_all
  have "\<exists>ss. settings info = Some ss \<and> length ss = length (scen_list d)"
    if mem: "info \<in> set (bts_list d)" and f: "set_bts (register_btsops (btstype info)) \<noteq> None" for info
  proof -
    obtain i where i: "i < length (dt_blocks dt)" "info = bts_list d ! i"
      using mem p(1) by (auto simp: in_set_conv_nth)
    note b = parse_block_ok [OF p(2) [OF i(1)]]
    have "btstype info = IP_BTS \<or> btstype info = SCI_BTS" using f by (cases "btstype info") (simp_all add: only_init_def)
    then have "db_settings (dt_blocks dt ! i) \<noteq> []" using dt b(2) i(2) nth_mem [OF i(1)] unfolding dt_ok_def by metis
    then show ?thesis using b(3) i scens by simp
  qed
  moreover have "block_regs (bts_list d ! i) \<inter> block_regs (bts_list d ! j) = {}" if "i < j" "j < length (bts_list d)" for i j
  proof -
    have "block_regs (bts_list d ! i) \<subseteq> dt_regs (dt_blocks dt ! i)" "block_regs (bts_list d ! j) \<subseteq> dt_regs (dt_blocks dt ! j)"
      using parse_block_ok(1) [OF p(2)] p(1) that by simp_all
    moreover have "dt_regs (dt_blocks dt ! i) \<inter> dt_regs (dt_blocks dt ! j) = {}" using dt that p by (simp add: dt_ok_def)
    ultimately show ?thesis by blast
  qed
  ultimately show ?thesis using scens by (auto simp: config_ok_def)
qed

lemma zero_slots: "slot_ok zero_bw" "mif_demand (replicate n zero_bw) = 0" "names_ok (replicate n zero_bw)"
proof -
  have "bw_sums (replicate n zero_bw) (0, 0, 0, 0) = (0, 0, 0, 0)" by (induction n) (simp_all add: zero_bw_def)
  then show "mif_demand (replicate n zero_bw) = 0" by (simp add: mif_demand_def bw_demand_def)
  show "slot_ok zero_bw" by (simp add: slot_ok_def zero_bw_def zero_stats_def stats_ok_def)
  show "names_ok (replicate n zero_bw)"
    unfolding names_ok_def by (intro exI [where x = "[]"] exI [where x = n]) (simp add: zero_bw_def)
qed

text \<open>A device just parsed: no scenario is in use.\<close>

lemma initialize_ok:
  assumes ok: "config_ok d" and fresh: "scen_node d = []"
    "\<And>i. i < length (scen_list d) \<Longrightarrow> scen_list d ! i = \<lparr>sc_index = i, sc_status = False, usage_count = 0, sc_name = names i\<rparr>"
  obtains d' where "bts_initialize d = Some (0, d')" "scen_inv d'" "config_ok d'" "all_synced (top_scen d') d'" "same_rest d d'" "users d' = {#0#}"
proof -
  let ?d = "d\<lparr>bts_regs := foldl (\<lambda>m info. init_block info m) (bts_regs d) (bts_list d), top_scen := ID_DEFAULT\<rparr>"
  let ?d1 = "(put_scen 0 True 1 ?d)\<lparr>scen_node := [0]\<rparr>"
  have n: "0 < length (scen_list ?d)" using ok by (simp add: config_ok_def)
  have none: "users ?d = {#}" by (rule multiset_eqI) (simp add: count_users fresh(2))
  have us: "users ?d1 = {#0#}"
    by (rule multiset_eqI) (use users_cong [of ?d1 "put_scen 0 True 1 ?d"] count_put_scen [OF n] none in simp)
  have part: "scen_part ?d1"
    using n us fresh(2) by (simp add: scen_part_def scen_list_put)
  have cfg: "config_ok ?d1" using ok config_ok_cong [of ?d1 d] by simp
  have "0 = Max (set_mset (users ?d1))" unfolding us by simp
  then obtain d' where d': "bts_set_all 0 0 (length (bts_list ?d1)) (?d1\<lparr>top_scen := 0\<rparr>) = Some d'"
    "frame (?d1\<lparr>top_scen := 0\<rparr>) d'" "scen_inv d'" "all_synced (top_scen d') d'" "users d' = users ?d1"
    using set_top_ok [OF part _ cfg] by metis
  have "bts_initialize d = Some (0, d')"
    using n d'(1) fresh by (simp add: bts_initialize_def bts_add_scenario_def Let_def)
  moreover have "config_ok d'" "same_rest d d'" using frameD [OF d'(2)] cfg by (simp_all add: same_rest_def config_ok_def)
  ultimately show thesis using that d' us by metis
qed

lemma pairs_nonempty: "cells \<noteq> [] \<Longrightarrow> even (length cells) \<Longrightarrow> pairs cells \<noteq> []"
  by (cases cells rule: pairs.cases) auto

lemma parse_data_ok:
  assumes "bts_parse_data junk dt mif intr m q = Some (Inr d)"
  shows "parse_blocks junk (dt_scens dt) (dt_blocks dt) = Inr (bts_list d)" "dt_scens dt \<noteq> []"
    "length (scen_list d) = length (dt_scens dt)" "scen_node d = []"
    "i < length (scen_list d) \<Longrightarrow> scen_list d ! i = \<lparr>sc_index = i, sc_status = False, usage_count = 0, sc_name = dt_scens dt ! i\<rparr>"
    "bts_bws d = replicate (length (dt_blocks dt)) zero_bw" "\<exists>rows. bus1_int_tbl d = Some rows \<and> rows \<noteq> []"
    "exynos_mif_qos d = mif" "exynos_int_qos d = intr" "pmqos d = q"
  using assms by (auto simp: bts_parse_data_def nth_enumerate_eq pairs_nonempty split: option.splits if_splits sum.splits)

lemma probe_ok:
  assumes d0: "bts_parse_data junk dt mif intr m q = Some (Inr d0)" and dt: "dt_ok dt" and q: "qos_inv q"
    and idle: "req_class q mif = 0" "req_class q intr = 0" "mif \<noteq> intr"
  obtains d d1 where "bts_probe junk dt mif intr m q = Some (Inr d)" "few_inv d" "bts_initialize d0 = Some (0, d1)"
    "bts_list d = bts_list d1" "bts_bws d = bts_bws d0" "length (scen_list d) = length (dt_scens dt)"
    "users d = {#0#}"
proof -
  note p = parse_data_ok [OF d0]
  obtain d1 where d1: "bts_initialize d0 = Some (0, d1)" "scen_inv d1" "config_ok d1" "all_synced (top_scen d1) d1" "same_rest d0 d1" "users d1 = {#0#}"
    using initialize_ok [OF parse_config_ok [OF p(1) dt p(2,3)] p(4,5)] by blast
  have pq: "pmqos d1 = q" using d1(5) p(10) by (simp add: same_rest_def)
  have vc: "valid_class 11" "valid_class 7" by (simp_all add: valid_class_def)
  obtain c1 q1 where q1: "exynos_pm_qos_add_request_trace ''bts_probe'' 1635 (Some mif) 11 0 q = Some q1" "qos_inv q1"
    "req_class q1 = (req_class q)(mif := 11)" "prio (qos_nodes q1) = (prio (qos_nodes q))(mif := new_prio c1 0)"
    by (rule add_request_ok [OF q idle(1) vc(1)])
  have "req_class q1 intr = 0" using q1(3) idle by simp
  then obtain c2 q2 where q2: "exynos_pm_qos_add_request_trace ''bts_probe'' 1636 (Some intr) 7 0 q1 = Some q2" "qos_inv q2"
    "req_class q2 = (req_class q1)(intr := 7)" "prio (qos_nodes q2) = (prio (qos_nodes q1))(intr := new_prio c2 0)"
    using add_request_ok [OF q1(2) _ vc(2)] by metis
  let ?d = "d1\<lparr>pmqos := q2\<rparr>"
  have run: "bts_probe junk dt mif intr m q = Some (Inr ?d)" using d0 d1(1) pq q1(1) q2(1) by (simp add: bts_probe_def)
  have "bw_inv ?d" using d1(5) p(6-9) q1(3,4) q2(2-4) idle(3) zero_slots
    by (simp add: bw_inv_def same_rest_def new_prio_def)
  moreover have "scen_inv ?d" "config_ok ?d" "all_synced (top_scen ?d) ?d"
    using d1 scen_inv_cong [of ?d d1] config_ok_cong [of ?d d1] all_synced_cong [of ?d d1] by simp_all
  ultimately have "few_inv ?d" by (simp add: few_run.bts_inv_def)
  then show thesis using that [OF run _ d1(1)] d1(5,6) p(3) users_cong [of ?d d1] by (simp add: same_rest_def)
qed

lemma probe_inv:
  assumes "dt_ok dt" and "qos_reachable q" and "mif \<noteq> intr" and "exynos_pm_qos_class (qos_reqs q mif) = 0" and "exynos_pm_qos_class (qos_reqs q intr) = 0"
    and "bts_probe junk dt mif intr m q = Some (Inr d)"
  shows "few_inv d"
proof -
  obtain d0 where d0: "bts_parse_data junk dt mif intr m q = Some (Inr d0)"
    using assms(6) by (auto simp: bts_probe_def split: option.splits sum.splits)
  have "req_class q mif = 0" "req_class q intr = 0" using assms(4,5) by simp_all
  then obtain d' where "bts_probe junk dt mif intr m q = Some (Inr d')" "few_inv d'"
    using probe_ok [OF d0 assms(1) qos_inv_reachable [OF assms(2)] _ _ assms(3)] by metis
  then show ?thesis using assms(6) by simp
qed

lemma bts_inv_reachable: "bts_reachable d \<Longrightarrow> bts_inv d"
  by (induction rule: bts_reachable.induct) (blast intro: few_inv_imp probe_inv any_run.bts_inv_step)+

lemma few_inv_reachable: "bts_few_reachable d \<Longrightarrow> few_inv d"
  by (induction rule: bts_few_reachable.induct) (blast intro: probe_inv few_run.bts_inv_step)+

text \<open>What programming never changes.\<close>

definition hw :: "bts_device \<Rightarrow> (bts_type \<times> u64 \<times> bool) list" where
  "hw d = map (\<lambda>x. (btstype x, va_base x, pd_on x)) (bts_list d)"

lemma bts_set_hw:
  assumes "bts_set scen i d = Some d'"
  shows "hw d' = hw d"
proof -
  have "map f (xs[i := y]) = map f xs" if "f y = f (xs ! i)" for f :: "bts_info \<Rightarrow> bts_type \<times> u64 \<times> bool" and xs y
    using that by (cases "i < length xs") (simp_all add: map_update list_update_same_conv list_update_beyond)
  then show ?thesis using assms
    by (auto simp: bts_set_def hw_def Let_def split: option.splits if_splits prod.splits)
qed

lemma bts_set_all_hw: "bts_set_all scen i n d = Some d' \<Longrightarrow> hw d' = hw d"
  by (induction scen i n d rule: bts_set_all.induct) (auto split: option.splits dest: bts_set_hw)

lemma initialize_hw: "bts_initialize d = Some (0, d') \<Longrightarrow> hw d' = hw d"
  using bts_set_all_hw [of _ 0 "length (bts_list d)" _ d']
  by (fastforce simp: bts_initialize_def bts_add_scenario_def Let_def hw_def split: if_splits)

end
