(* ===== verification/BtsProps.thy ===== *)
theory BtsProps
  imports BtsRuns
begin

text \<open>
  What the bus traffic shaper driver promises, over the runs of \<open>BtsRuns\<close>, with a small device as
  the witness: one IP block and one TREX block, a default and a camera scenario.
\<close>

subsection \<open>A concrete device\<close>

definition bts_sample_dt :: bts_dt where
  "bts_sample_dt = \<lparr>dt_bus1 = Some [533000, 400000, 267000, 200000], dt_scens = [''default'', ''camera''], dt_rts = [''camera''],
     dt_blocks =
       [\<lparr>db_name = ''cpu'', db_va = 0x1000, db_qos_va = 0, db_type = Some IP_BTS, db_pd = None,
         db_settings = [(''default'', [''stat_on'' \<mapsto> 1, ''rmo'' \<mapsto> 0x20])]\<rparr>,
        \<lparr>db_name = ''trex'', db_va = 0x2000, db_qos_va = 0, db_type = Some TREX_BTS, db_pd = None, db_settings = []\<rparr>]\<rparr>"

definition bts_sample :: bts_device where
  "bts_sample = projr (the (bts_probe 0 bts_sample_dt 1 2 (\<lambda>_. 0) init_pm_qos))"

lemma bts_sample_dt_ok: "dt_ok bts_sample_dt"
proof -
  have two: "(\<forall>j < length [a, b]. \<forall>i < j. P i j) \<longleftrightarrow> P 0 1" for P and a b :: dt_block by (auto simp: less_Suc_eq)
  show ?thesis unfolding dt_ok_def bts_sample_dt_def bts_dt.simps two
    by (simp add: dt_regs_def block_regs_def ip_regs_def)
qed

lemma bts_sample_exists:
  "bts_reachable bts_sample \<and> bts_few_reachable bts_sample \<and> users bts_sample = {#0#} \<and> hw bts_sample = [(IP_BTS, 0x1000, True), (TREX_BTS, 0x2000, True)] \<and>
   length (scen_list bts_sample) = 2 \<and> bts_bws bts_sample = [zero_bw, zero_bw]"
proof -
  obtain d0 where d0: "bts_parse_data 0 bts_sample_dt 1 2 (\<lambda>_. 0) init_pm_qos = Some (Inr d0)"
    "hw d0 = [(IP_BTS, 0x1000, True), (TREX_BTS, 0x2000, True)]" "bts_bws d0 = [zero_bw, zero_bw]"
    by (simp add: bts_parse_data_def bts_sample_dt_def parse_block_def hw_def Let_def)
  obtain d d1 where d: "bts_probe 0 bts_sample_dt 1 2 (\<lambda>_. 0) init_pm_qos = Some (Inr d)" "bts_initialize d0 = Some (0, d1)"
    "bts_list d = bts_list d1" "bts_bws d = bts_bws d0" "length (scen_list d) = length (dt_scens bts_sample_dt)" "users d = {#0#}"
    by (rule probe_ok [OF d0(1) bts_sample_dt_ok qos_inv_init]) (simp_all add: init_idle)
  have "hw d = hw d0" using initialize_hw [OF d(2)] d(3) by (simp add: hw_def)
  moreover have "bts_reachable d" "bts_few_reachable d"
    by (rule bts_start [OF bts_sample_dt_ok qos_init _ _ _ d(1)] few_start [OF bts_sample_dt_ok qos_init _ _ _ d(1)]; use init_idle(1) in \<open>simp add: fun_eq_iff\<close>)+
  moreover have "bts_sample = d" using d(1) by (simp add: bts_sample_def)
  ultimately show ?thesis using d0 d by (simp add: bts_sample_dt_def)
qed

lemmas bts_sample_reachable = conjunct1 [OF bts_sample_exists]
lemmas bts_sample_few = conjunct1 [OF conjunct2 [OF bts_sample_exists]]
lemmas bts_sample_state = conjunct2 [OF conjunct2 [OF bts_sample_exists]]

lemma bts_sample_unused: "usage_count (scen_list bts_sample ! 1) = 0"
proof -
  have "scen_inv bts_sample" using few_inv_reachable [OF bts_sample_few] by (simp add: few_run.bts_inv_def)
  then show ?thesis using scen_usage(1) [of bts_sample 1] bts_sample_state by simp
qed

lemma hw_nth:
  assumes "i < length (bts_list d)"
  shows "hw d ! i = (btstype (bts_list d ! i), va_base (bts_list d ! i), pd_on (bts_list d ! i))" "length (hw d) = length (bts_list d)"
  using assms by (simp_all add: hw_def)

lemma bts_sample_block:
  "0 < length (bts_list bts_sample)" "btstype (bts_list bts_sample ! 0) = IP_BTS" "va_base (bts_list bts_sample ! 0) = 0x1000"
  "pd_on (bts_list bts_sample ! 0)"
proof -
  have "length (hw bts_sample) = 2" using bts_sample_state by simp
  then show 0: "0 < length (bts_list bts_sample)" by (simp add: hw_def)
  show "btstype (bts_list bts_sample ! 0) = IP_BTS" "va_base (bts_list bts_sample ! 0) = 0x1000" "pd_on (bts_list bts_sample ! 0)"
    using hw_nth(1) [OF 0] bts_sample_state by simp_all
qed

subsection \<open>Scenarios\<close>

text \<open>
  C16. Adding and removing scenarios implements the multiset of users as long as no counter of users wraps around: in every state of a run in
  which no scenario had \<open>2 ^ 31 - 1\<close> users when a call came, both
  calls return, an index out of range is rejected with \<^verbatim>\<open>-EINVAL\<close> and changes nothing, otherwise one
  user is added (where the scenario has less than \<open>2 ^ 31 - 1\<close>) or removed, except that the last user of the default scenario stays; and afterwards
  the top scenario is the largest one in use.
\<close>

theorem bts_scenarios_refine:
  assumes "bts_few_reachable d" and "i < length (scen_list d) \<Longrightarrow> usage_count (scen_list d ! i) < 2 ^ 31 - 1"
  shows "\<exists>d1 d2.
    bts_add_scenario i d = Some (if i < length (scen_list d) then 0 else - EINVAL, d1) \<and>
    users d1 = spec_add (length (scen_list d)) i (users d) \<and> top_scen d1 = Max (set_mset (users d1)) \<and>
    bts_del_scenario i d = Some (if i < length (scen_list d) then 0 else - EINVAL, d2) \<and>
    users d2 = spec_del i (users d) \<and> top_scen d2 = Max (set_mset (users d2))"
proof -
  have inv: "scen_inv d" "config_ok d" "all_synced (top_scen d) d" using few_inv_reachable [OF assms(1)] by (simp_all add: few_run.bts_inv_def)
  obtain d1 where "bts_add_scenario i d = Some (if i < length (scen_list d) then 0 else - EINVAL, d1)" "scen_inv d1"
    "users d1 = spec_add (length (scen_list d)) i (users d)" by (rule add_scenario_ok [OF inv assms(2)])
  moreover obtain d2 where "bts_del_scenario i d = Some (if i < length (scen_list d) then 0 else - EINVAL, d2)" "scen_inv d2" "users d2 = spec_del i (users d)"
    by (rule del_scenario_ok [OF inv])
  ultimately show ?thesis by (intro exI [where x = d1] exI [where x = d2]) (simp add: scen_inv_def)
qed

theorem bts_scenarios_refine_witness:
  "\<exists>d1. bts_add_scenario 1 bts_sample = Some (0, d1) \<and> users d1 = add_mset 1 (users bts_sample) \<and> top_scen d1 = Max (set_mset (users d1))"
proof -
  have "usage_count (scen_list bts_sample ! 1) < 2 ^ 31 - 1" unfolding bts_sample_unused by simp
  then show ?thesis using bts_scenarios_refine [OF bts_sample_few, of 1] bts_sample_state by (auto simp: spec_add_def)
qed

text \<open>
  C17. In every reachable state, whatever the order of votes, scenario changes, power changes, losses
  of registers and resumes, a powered IP block reads back, through the driver's own getters, the
  setting of the top scenario, or that of the default scenario where the top scenario has none.
\<close>

theorem bts_blocks_follow_scenario:
  assumes "bts_reachable d" and "i < length (bts_list d)" and "btstype (bts_list d ! i) = IP_BTS"
    and "pd_on (bts_list d ! i)" and "va_base (bts_list d ! i) \<noteq> 0"
  shows "\<exists>ss. settings (bts_list d ! i) = Some ss \<and> length ss = length (scen_list d) \<and>
    (stat_on (chosen ss (top_scen d)) \<longrightarrow> ip_reads (va_base (bts_list d ! i)) (chosen ss (top_scen d)) (bts_regs d))"
proof -
  have inv: "config_ok d" "all_synced (top_scen d) d" using bts_inv_reachable [OF assms(1)] by (simp_all add: any_run.bts_inv_def)
  obtain ss where "settings (bts_list d ! i) = Some ss" "length ss = length (scen_list d)"
    using config_settings [OF inv(1) assms(2)] assms(3) by auto
  then show ?thesis using inv(2) assms by (auto simp: all_synced_def synced_def block_reads_def)
qed

theorem bts_blocks_follow_scenario_witness:
  "\<exists>ss. settings (bts_list bts_sample ! 0) = Some ss \<and> length ss = 2 \<and>
    (stat_on (chosen ss (top_scen bts_sample)) \<longrightarrow> ip_reads 0x1000 (chosen ss (top_scen bts_sample)) (bts_regs bts_sample))"
  using bts_blocks_follow_scenario [OF bts_sample_reachable bts_sample_block(1,2,4)] bts_sample_block(3) bts_sample_state by simp

subsection \<open>Votes\<close>

text \<open>
  C18. The memory floor: in every reachable state the target PM QoS holds for the memory bus is at
  least the frequency computed from the votes as they stand, whatever other drivers ask for.
\<close>

theorem bts_memory_floor:
  assumes "bts_reachable d"
  shows "\<exists>v. exynos_pm_qos_request_value PM_QOS_BUS_THROUGHPUT (pmqos d) = Some v \<and> uint (mif_demand (bts_bws d)) \<le> sint v"
proof -
  have inv: "bw_inv d" using bts_inv_reachable [OF assms] by (simp add: any_run.bts_inv_def)
  have "signed_take_bit 31 (uint (mif_demand (bts_bws d))) = uint (mif_demand (bts_bws d))"
    by (rule signed_take_bit_int_eq_self [OF order_trans [OF _ uint_ge_0] mif_demand_small]) simp
  then have "sint (mif_demand (bts_bws d)) = uint (mif_demand (bts_bws d))" by (simp add: sint_uint)
  then show ?thesis using pmq.target_ge [of "pmqos d" "exynos_mif_qos d" PM_QOS_BUS_THROUGHPUT] inv by (auto simp: bw_inv_def)
qed

theorem bts_memory_floor_witness:
  "\<exists>v. exynos_pm_qos_request_value 11 (pmqos bts_sample) = Some v \<and> 0 \<le> sint v"
  using bts_memory_floor [OF bts_sample_reachable] order_trans [OF uint_ge_0] by blast

text \<open>
  A vote from a reachable state: the call returns, with \<^verbatim>\<open>-EINVAL\<close> and nothing stored exactly when
  the index is out of range or one of total and peak is zero and the other is not; otherwise the
  vote is in its slot, no other slot changes, and the target PM QoS holds for the internal bus is at
  least the frequency the table gives for the new demand (-1 in the table asks for the default).
\<close>

theorem bts_vote_takes_effect:
  assumes "bts_reachable d"
  shows "\<exists>r d'. bts_update_bw i bw now d = Some (r, d') \<and>
    r = (if i < length (bts_bws d) \<and> (v_read bw + v_write bw = 0 \<longleftrightarrow> v_peak bw = 0) then 0 else - EINVAL) \<and>
    (r = 0 \<longrightarrow> bw_peak (bts_bws d' ! i) = v_peak bw \<and> bw_read (bts_bws d' ! i) = v_read bw \<and> bw_write (bts_bws d' ! i) = v_write bw) \<and>
    (\<forall>j < length (bts_bws d). j \<noteq> i \<or> r \<noteq> 0 \<longrightarrow> bts_bws d' ! j = bts_bws d ! j) \<and>
    (r = 0 \<longrightarrow> (\<exists>f v. bus1_to_int_freq (bus1_int_tbl d') (snd (snd (snd (bw_demand (bts_bws d'))))) = Some f \<and>
       exynos_pm_qos_request_value PM_QOS_DEVICE_THROUGHPUT (pmqos d') = Some v \<and> (f \<noteq> -1 \<longrightarrow> sint f \<le> sint v)))"
proof -
  have inv: "bw_inv d" using bts_inv_reachable [OF assms] by (simp add: any_run.bts_inv_def)
  obtain r bs pk tot q where u: "bts_update_bw i bw now d = Some (r, d\<lparr>bts_bws := bs, peak_bw := pk, total_bw := tot, pmqos := q\<rparr>)"
    "bw_inv (d\<lparr>bts_bws := bs, peak_bw := pk, total_bw := tot, pmqos := q\<rparr>)"
    "r = (if i < length (bts_bws d) \<and> (v_read bw + v_write bw = 0 \<longleftrightarrow> v_peak bw = 0) then 0 else - EINVAL)"
    "r = 0 \<longrightarrow> (bw_peak (bs ! i), bw_read (bs ! i), bw_write (bs ! i)) = (v_peak bw, v_read bw, v_write bw)"
    "r = 0 \<longrightarrow> is_rt (bts_bws d ! i) \<longrightarrow> bw_rt (bs ! i) = v_rt bw"
    "\<forall>j. j < length (bts_bws d) \<longrightarrow> j \<noteq> i \<longrightarrow> bs ! j = bts_bws d ! j" "map bw_name bs = map bw_name (bts_bws d)"
    "r = 0 \<longrightarrow> (\<exists>f. bus1_to_int_freq (bus1_int_tbl d) (snd (snd (snd (bw_demand bs)))) = Some f \<and>
       (f \<noteq> -1 \<longrightarrow> prio (qos_nodes q) (exynos_int_qos d) = f))"
    by (rule update_bw_ok [OF inv, where i = i and bw = bw and now = now])
  have t: "qos_inv q" "req_class q (exynos_int_qos d) = 7" using u(2) by (simp_all add: bw_inv_def)
  obtain v where v: "exynos_pm_qos_request_value 7 q = Some v" "sint (prio (qos_nodes q) (exynos_int_qos d)) \<le> sint v"
    using pmq.target_ge [OF t] by auto
  have "\<exists>f. bus1_to_int_freq (bus1_int_tbl d) (snd (snd (snd (bw_demand bs)))) = Some f \<and> (f \<noteq> -1 \<longrightarrow> sint f \<le> sint v)" if "r = 0"
    using u(8) that v(2) by auto
  moreover have "bs = bts_bws d" if "r \<noteq> 0"
  proof -
    have "bts_update_bw i bw now d = Some (- EINVAL, d)" using u(3) that by (auto simp: bts_update_bw_def Let_def)
    then show ?thesis using arg_cong [OF u(1), of "\<lambda>x. bts_bws (snd (the x))"] by simp
  qed
  ultimately show ?thesis using u(1,3,4,6) v(1) by (intro exI [where x = r]) auto
qed

definition sample_vote :: bw_vote where
  "sample_vote = \<lparr>v_peak = 1000, v_read = 4000, v_write = 2000, v_rt = 0\<rparr>"

theorem bts_vote_takes_effect_witness:
  "\<exists>d'. bts_update_bw 0 sample_vote 77 bts_sample = Some (0, d') \<and> bw_read (bts_bws d' ! 0) = 4000 \<and> bts_bws d' ! 1 = zero_bw"
  using bts_vote_takes_effect [OF bts_sample_reachable, of 0 sample_vote 77] bts_sample_state
  by (auto simp: sample_vote_def)

text \<open>
  The row search: for a table with falling BUS1 frequencies it gives the INT frequency of the last
  row that still covers the BUS1 frequency, and that of the first row when none does.
\<close>

theorem bts_bus1_row:
  assumes "sorted_wrt (\<lambda>a b. fst b < fst a) rows" and "rows \<noteq> []"
  shows "\<exists>i < length rows. bus1_to_int_freq (Some rows) freq = Some (snd (rows ! i)) \<and>
    (if freq \<le> fst (hd rows) then freq \<le> fst (rows ! i) \<and> (\<forall>j < length rows. freq \<le> fst (rows ! j) \<longrightarrow> j \<le> i) else i = 0)"
proof -
  let ?P = "\<lambda>(bus1, _). \<not> freq > bus1"
  define n where "n = length (takeWhile ?P rows)"
  have n: "n \<le> length rows" by (simp add: n_def length_takeWhile_le)
  have P: "?P r \<longleftrightarrow> freq \<le> fst r" for r :: "u32 \<times> u32" by (simp add: case_prod_unfold not_less)
  show ?thesis
  proof (cases "freq \<le> fst (hd rows)")
    case False
    then have "n = 0" using assms(2) by (cases rows) (auto simp: n_def)
    then show ?thesis using False assms(2) unfolding n_def by (intro exI [where x = 0]) (simp add: bus1_to_int_freq_def Let_def)
  next
    case True
    then have pos: "0 < n" using assms(2) by (cases rows) (auto simp: n_def not_less)
    have "?P (rows ! (n - 1))" using pos nth_length_takeWhile takeWhile_nth [of "n - 1" ?P rows] set_takeWhileD [of "takeWhile ?P rows ! (n - 1)" ?P rows]
      by (metis One_nat_def diff_less n_def nth_mem zero_less_one)
    then have cover: "freq \<le> fst (rows ! (n - 1))" by (simp only: P)
    have "j \<le> n - 1" if j: "j < length rows" "freq \<le> fst (rows ! j)" for j
    proof (rule ccontr)
      assume "\<not> j \<le> n - 1"
      then have nj: "n \<le> j" using pos by simp
      then have "\<not> ?P (rows ! n)" using j(1) nth_length_takeWhile [of ?P rows] by (simp add: n_def)
      then have "fst (rows ! n) < freq" by (simp only: P not_le)
      moreover have "fst (rows ! j) \<le> fst (rows ! n)"
        using sorted_wrt_nth_less [OF assms(1), of n j] nj j(1) by (cases "n = j") auto
      ultimately show False using j(2) by simp
    qed
    moreover have "bus1_to_int_freq (Some rows) freq = Some (snd (rows ! (n - 1)))"
      using pos n by (simp add: bus1_to_int_freq_def Let_def flip: n_def)
    ultimately show ?thesis using True cover pos n by (intro exI [where x = "n - 1"]) auto
  qed
qed

definition sample_rows :: "(u32 \<times> u32) list" where
  "sample_rows = [(533, 400), (267, 200), (133, 100)]"

theorem bts_bus1_row_witness:
  "\<exists>i < length sample_rows. bus1_to_int_freq (Some sample_rows) 200 = Some (snd (sample_rows ! i)) \<and> 200 \<le> fst (sample_rows ! i)"
proof -
  have "sorted_wrt (\<lambda>a b. fst b < fst a) sample_rows" "sample_rows \<noteq> []" "200 \<le> fst (hd sample_rows)"
    by (simp_all add: sample_rows_def)
  then show ?thesis using bts_bus1_row [of sample_rows 200] by auto
qed

text \<open>
  Naming a client in a reachable state: a new name faults, by reading past the slots, exactly when
  every slot is taken; a failing allocation is reported and changes nothing; otherwise the index is
  that of a slot with this name, and asking again gives the same index and changes nothing.
\<close>

theorem bts_naming:
  assumes "bts_reachable d"
  shows "case bts_get_bwindex ok name d of
      None \<Rightarrow> \<forall>b \<in> set (bts_bws d). bw_name b \<noteq> None \<and> bw_name b \<noteq> Some name
    | Some (j, d') \<Rightarrow> if j < 0 then j = - ENOMEM \<and> \<not> ok \<and> d' = d
        else nat j < length (bts_bws d') \<and> bw_name (bts_bws d' ! nat j) = Some name \<and> bts_get_bwindex ok' name d' = Some (j, d')"
proof -
  have inv: "bw_inv d" using bts_inv_reachable [OF assms] by (simp add: any_run.bts_inv_def)
  then obtain ns k where ns: "map bw_name (bts_bws d) = map Some ns @ replicate k None" "distinct ns"
    by (auto simp: bw_inv_def names_ok_def)
  note calls = get_bwindex_ok [OF inv ns, where name = name]
  have at: "j < length bs \<and> bw_name (bs ! j) = Some (ms ! j)" if "map bw_name bs = map Some ms @ replicate l None" "j < length ms" for bs ms l j
  proof -
    have l: "length bs = length ms + l" using arg_cong [OF that(1), of length] by simp
    then show ?thesis using that(2) nth_map [of j bs bw_name] by (simp add: that(1) nth_append)
  qed
  consider (old) j where "j < length ns" "ns ! j = name" | (full) "name \<notin> set ns" "k = 0"
    | (none) "name \<notin> set ns" "k \<noteq> 0" "\<not> ok" | (new) "name \<notin> set ns" "k \<noteq> 0" ok
    by (metis in_set_conv_nth)
  then show ?thesis
  proof cases
    case old
    then show ?thesis using calls(1) at [OF ns(1) old(1)] by simp
  next
    case full
    have "bw_name ` set (bts_bws d) = Some ` set ns" using ns(1) full by (metis append_Nil2 list.set_map replicate_0)
    then show ?thesis using calls(2) full by (auto simp: image_iff) (metis image_eqI option.distinct(1) imageE option.inject)+
  next
    case none
    then show ?thesis using calls(3) by simp
  next
    case new
    then obtain bs where bs: "bts_get_bwindex True name d = Some (int (length ns), d\<lparr>bts_bws := bs\<rparr>)" "bw_inv (d\<lparr>bts_bws := bs\<rparr>)"
      "map bw_name bs = map Some (ns @ [name]) @ replicate (k - 1) None" using calls(4) by blast
    have "bts_get_bwindex ok' name (d\<lparr>bts_bws := bs\<rparr>) = Some (int (length ns), d\<lparr>bts_bws := bs\<rparr>)"
      using get_bwindex_ok(1) [OF bs(2), of "ns @ [name]" "k - 1" "length ns" name ok'] bs(3) ns(2) new(1) by simp
    then show ?thesis using new bs(1) at [OF bs(3), of "length ns"] by simp
  qed
qed

theorem bts_naming_witness:
  "\<exists>d'. bts_get_bwindex True ''camera'' bts_sample = Some (0, d') \<and> bw_name (bts_bws d' ! 0) = Some ''camera'' \<and>
     bts_get_bwindex False ''camera'' d' = Some (0, d')"
proof -
  obtain d' where "bts_get_bwindex True ''camera'' bts_sample = Some (0, d')"
    using bts_sample_state by (simp add: bts_get_bwindex_def zero_bw_def)
  then show ?thesis using bts_naming [OF bts_sample_reachable, where ok = True and name = "''camera''" and ok' = False] by simp
qed

subsection \<open>The SCI block\<close>

text \<open>
  The limits of an SCI block are clamped to 16 bits while each has 8 bits of the register: a read
  limit that is 0, or 16 bits all set, leaves the write limit reading 255, whatever was asked.
\<close>

theorem bts_sci_limits_overflow:
  assumes "base \<noteq> 0" and "rmo s = 0 \<or> rmo s \<ge> MAX_MO" and "set_scibts_mo base s m = (r, s', m')"
  shows "r = 0 \<and> wmo (snd (get_scibts_mo base s m')) = 0xFF"
proof -
  have c: "clamp_mo (rmo s) = mask 16" using assms(2) by (auto simp: clamp_mo_def mask_numeral)
  have f: "field_get 0xFF 24 (push_bit 16 (mask 16) OR push_bit 24 w) = 0xFF" for w :: u32
    unfolding bts_masks(4) field_get_def by (rule bit_word_eqI) (auto simp: bit_simps)
  have "m' base = push_bit 16 (mask 16) OR push_bit 24 (clamp_mo (wmo s))" and r: "r = 0"
    using assms(1,3) unfolding set_scibts_mo_def c [symmetric] by (auto simp: Let_def)
  then have "field_get 0xFF 24 (m' base) = 0xFF" by (simp only: f)
  then show ?thesis using assms(1) r by (simp add: get_scibts_mo_def)
qed

theorem bts_sci_limits_overflow_witness:
  "wmo (snd (get_scibts_mo 0x1000 (zero_stat\<lparr>wmo := 8\<rparr>) (snd (snd (set_scibts_mo 0x1000 (zero_stat\<lparr>wmo := 8\<rparr>) (\<lambda>_. 0)))))) = 0xFF"
proof -
  obtain r s' m' where "set_scibts_mo 0x1000 (zero_stat\<lparr>wmo := 8\<rparr>) (\<lambda>_. 0) = (r, s', m')" by (metis prod_cases3)
  then show ?thesis using bts_sci_limits_overflow [of "0x1000" "zero_stat\<lparr>wmo := 8\<rparr>" "\<lambda>_. 0" r s' m']
    by (simp add: zero_stat_def)
qed

end
