(* ===== verification/ModemCirc.thy ===== *)
theory ModemCirc
  imports Prelude
begin

text \<open>
  The circular queues of the modem interface, \<^verbatim>\<open>drivers/soc/google/cpif/include/circ_queue.h\<close>. Offsets
  and sizes are 32-bit words; the data buffer is the list of its bytes. A copy outside the buffer is
  a fault, \<open>None\<close>. The buffers and the head and tail variables of the queues are areas of shared memory
  that do not overlap.
\<close>

named_theorems circ \<open>facts about offsets of circular queues\<close>

type_synonym u16 = "16 word"

record circ_queue =
  cq_busy :: int
  cq_buff :: "u8 list"
  cq_size :: u32
  cq_head :: u32
  cq_tail :: u32

subsection \<open>Offsets\<close>

definition circ_valid :: "u32 \<Rightarrow> u32 \<Rightarrow> u32 \<Rightarrow> bool" where
  "circ_valid qsize inp out = (if inp \<ge> qsize then False else if out \<ge> qsize then False else True)"

definition circ_empty :: "u32 \<Rightarrow> u32 \<Rightarrow> bool" where
  "circ_empty inp out = (inp = out)"

definition circ_get_space :: "u32 \<Rightarrow> u32 \<Rightarrow> u32 \<Rightarrow> u32" where
  "circ_get_space qsize inp out = (if inp < out then out - inp - 1 else qsize + out - inp - 1)"

definition circ_full :: "u32 \<Rightarrow> u32 \<Rightarrow> u32 \<Rightarrow> bool" where
  "circ_full qsize inp out = (circ_get_space qsize inp out = 0)"

definition circ_get_usage :: "u32 \<Rightarrow> u32 \<Rightarrow> u32 \<Rightarrow> u32" where
  "circ_get_usage qsize inp out = (if inp \<ge> out then inp - out else qsize - out + inp)"

text \<open>The loops of \<^verbatim>\<open>circ_new_ptr\<close> and \<^verbatim>\<open>circ_prev_ptr\<close>; \<open>None\<close> when they never end, as for a queue of size 0.\<close>

partial_function (option) wrap_down :: "u32 \<Rightarrow> u32 \<Rightarrow> u32 option" where
  "wrap_down qsize np = (if np \<ge> qsize then wrap_down qsize (np - qsize) else Some np)"

definition circ_new_ptr :: "u32 \<Rightarrow> u32 \<Rightarrow> u32 \<Rightarrow> u32 option" where
  "circ_new_ptr qsize p len = wrap_down qsize (p + len)"

partial_function (option) wrap_up :: "u32 \<Rightarrow> s32 \<Rightarrow> u32 option" where
  "wrap_up qsize np = (if sint np < 0 then wrap_up qsize (np + qsize) else Some np)"

definition circ_prev_ptr :: "u32 \<Rightarrow> u32 \<Rightarrow> u32 \<Rightarrow> u32 option" where
  "circ_prev_ptr qsize p len = wrap_up qsize (p - len)"

declare wrap_down.simps [code] wrap_up.simps [code]

subsection \<open>Copies\<close>

definition mem_get :: "u8 list \<Rightarrow> u32 \<Rightarrow> u32 \<Rightarrow> u8 list option" where
  "mem_get buf off n = (if unat off + unat n \<le> length buf then Some (take (unat n) (drop (unat off) buf)) else None)"

definition mem_put :: "u8 list \<Rightarrow> u32 \<Rightarrow> u8 list \<Rightarrow> u8 list option" where
  "mem_put buf off bs =
     (if unat off + length bs \<le> length buf
      then Some (take (unat off) buf @ bs @ drop (unat off + length bs) buf) else None)"

definition circ_read :: "u8 list \<Rightarrow> u32 \<Rightarrow> u32 \<Rightarrow> u32 \<Rightarrow> u8 list option" where
  "circ_read src qsize out len =
     (if out + len \<le> qsize then mem_get src out len
      else
        (let len1 = qsize - out
         in case mem_get src out len1 of
              None \<Rightarrow> None
            | Some a \<Rightarrow> (case mem_get src 0 (len - len1) of None \<Rightarrow> None | Some b \<Rightarrow> Some (a @ b))))"

text \<open>\<open>bs\<close> is the local buffer, of \<open>len\<close> bytes.\<close>

definition circ_write :: "u8 list \<Rightarrow> u8 list \<Rightarrow> u32 \<Rightarrow> u32 \<Rightarrow> u32 \<Rightarrow> u8 list option" where
  "circ_write dst bs qsize inp len =
     (if inp + len < qsize then mem_put dst inp (take (unat len) bs)
      else
        (let space = qsize - inp
         in case mem_put dst inp (take (unat (if len > space then space else len)) bs) of
              None \<Rightarrow> None
            | Some d1 \<Rightarrow>
                if len > space then mem_put d1 0 (take (unat (len - space)) (drop (unat space) bs)) else Some d1))"

subsection \<open>Arithmetic of offsets\<close>

lemma circ_validD [circ]:
  assumes "circ_valid qsize inp out"
  shows "unat inp < unat qsize" "unat out < unat qsize"
  using assms by (auto simp: circ_valid_def word_less_nat_alt not_le split: if_splits)

lemma ring_dist [circ]:
  fixes i o' n :: nat
  assumes "i < n" and "o' < n"
  shows "(i + n - o') mod n = (if o' \<le> i then i - o' else n - o' + i)"
proof (cases "o' \<le> i")
  case True
  then have "i + n - o' = (i - o') + n" by simp
  then show ?thesis using True assms by (metis (full_types) less_imp_diff_less mod_add_self2 mod_less)
qed (use assms in simp)

lemma unat_usage [circ]:
  assumes "circ_valid qsize inp out"
  shows "unat (circ_get_usage qsize inp out) = (unat inp + unat qsize - unat out) mod unat qsize"
proof (cases "inp \<ge> out")
  case True
  then have le: "unat out \<le> unat inp" by (simp add: word_le_nat_alt)
  show ?thesis using True le circ_validD [OF assms] by (simp add: circ_get_usage_def unat_sub ring_dist)
next
  case False
  then have lt: "unat inp < unat out" by (simp add: word_le_nat_alt)
  note v = circ_validD [OF assms]
  have "unat (qsize - out) = unat qsize - unat out" using v by (intro unat_sub) (simp add: word_le_nat_alt)
  moreover have "unat qsize - unat out + unat inp < 2 ^ 32"
    using lt v unsigned_less [of qsize, where 'a = nat] by simp
  ultimately have "unat (qsize - out + inp) = unat qsize - unat out + unat inp" by (simp add: unat_word_ariths)
  then show ?thesis using False lt v by (simp add: circ_get_usage_def ring_dist)
qed

lemma unat_space [circ]:
  assumes "circ_valid qsize inp out"
  shows "unat (circ_get_space qsize inp out) = unat qsize - 1 - unat (circ_get_usage qsize inp out)"
proof -
  note v = circ_validD [OF assms]
  have pred: "unat (x - 1) = unat x - 1" if "0 < unat x" for x :: u32
    using that by (intro unat_minus_one) auto
  have u: "circ_get_usage qsize inp out \<le> qsize - 1"
    using v unat_usage [OF assms] pred [of qsize] mod_less_divisor [of "unat qsize"] by (simp add: word_le_nat_alt less_Suc_eq_le [symmetric])
  have "circ_get_space qsize inp out = (qsize - 1) - circ_get_usage qsize inp out"
    by (auto simp: circ_get_space_def circ_get_usage_def)
  then show ?thesis using u v pred [of qsize] by (simp add: unat_sub)
qed

lemma wrap_down_mod [circ]:
  assumes "0 < unat qsize"
  shows "wrap_down qsize np = Some (np mod qsize)"
proof (induction "unat np" arbitrary: np rule: less_induct)
  case less
  show ?case
  proof (cases "np \<ge> qsize")
    case True
    then have "unat (np - qsize) = unat np - unat qsize" by (simp add: unat_sub)
    then have "unat (np - qsize) < unat np" and m: "(np - qsize) mod qsize = np mod qsize"
      using assms True by (auto simp: word_le_nat_alt unat_mod le_mod_geq intro!: word_unat_eq_iff [THEN iffD2])
    then show ?thesis using less [of "np - qsize"] True by (simp add: wrap_down.simps [of qsize np])
  next
    case False
    then have "np mod qsize = np" by (intro word_unat_eq_iff [THEN iffD2]) (simp add: unat_mod word_le_nat_alt)
    then show ?thesis using False by (simp add: wrap_down.simps [of qsize np])
  qed
qed

lemma new_ptr [circ]:
  assumes "unat p + unat len < 2 ^ 32" and "0 < unat qsize"
  shows "\<exists>q. circ_new_ptr qsize p len = Some q \<and> unat q = (unat p + unat len) mod unat qsize"
  using assms by (simp add: circ_new_ptr_def wrap_down_mod unat_mod unat_word_ariths)

subsection \<open>The bytes of a queue\<close>

text \<open>\<open>ring_bytes buf out n\<close> are the \<open>n\<close> elements from offset \<open>out\<close> on, around the end of the buffer.\<close>

definition ring_bytes :: "'a list \<Rightarrow> nat \<Rightarrow> nat \<Rightarrow> 'a list" where
  "ring_bytes buf out n = map (\<lambda>k. buf ! ((out + k) mod length buf)) [0..<n]"

lemma length_ring_bytes [simp]: "length (ring_bytes buf out n) = n"
  by (simp add: ring_bytes_def)

lemma nth_ring_bytes: "k < n \<Longrightarrow> ring_bytes buf out n ! k = buf ! ((out + k) mod length buf)"
  by (simp add: ring_bytes_def)

lemma ring_bytes_add:
  "ring_bytes buf out (a + b) = ring_bytes buf out a @ ring_bytes buf ((out + a) mod length buf) b"
proof (rule nth_equalityI)
  fix k assume k: "k < length (ring_bytes buf out (a + b))"
  have "((out + a) mod length buf + (k - a)) mod length buf = (out + k) mod length buf" if "a \<le> k"
    unfolding mod_add_left_eq using that by simp
  then show "ring_bytes buf out (a + b) ! k = (ring_bytes buf out a @ ring_bytes buf ((out + a) mod length buf) b) ! k"
    using k by (auto simp: nth_append nth_ring_bytes)
qed simp

lemma ring_bytes_pop:
  "ring_bytes buf out (Suc n) = buf ! (out mod length buf) # ring_bytes buf ((out + 1) mod length buf) n"
  using ring_bytes_add [of buf out 1 n] by (simp add: ring_bytes_def)

lemma ring_bytes_push:
  assumes "u < length buf"
  shows "ring_bytes (buf[(out + u) mod length buf := x]) out (Suc u) = ring_bytes buf out u @ [x]"
proof (rule nth_equalityI)
  fix k assume k: "k < length (ring_bytes (buf[(out + u) mod length buf := x]) out (Suc u))"
  have "(out + k) mod length buf \<noteq> (out + u) mod length buf" if "k < u"
  proof
    assume "(out + k) mod length buf = (out + u) mod length buf"
    then have "length buf dvd (out + u) - (out + k)" using that mod_eq_dvd_iff_nat [of "out + k" "out + u" "length buf"] by simp
    then show False using that assms by (auto dest: dvd_imp_le)
  qed
  moreover have "(out + u) mod length buf < length buf" using assms by (intro mod_less_divisor) linarith
  ultimately show "ring_bytes (buf[(out + u) mod length buf := x]) out (Suc u) ! k = (ring_bytes buf out u @ [x]) ! k"
    using k assms by (auto simp: nth_append nth_ring_bytes less_Suc_eq)
qed simp

lemma circ_read_ok:
  assumes "length src = unat qsize" and "unat out < unat qsize" and "unat len \<le> unat qsize" and "unat qsize \<le> 2 ^ 31"
  shows "circ_read src qsize out len = Some (ring_bytes src (unat out) (unat len))"
proof -
  have sum: "unat (out + len) = unat out + unat len" using assms by (simp add: unat_word_ariths)
  show ?thesis
  proof (cases "out + len \<le> qsize")
    case True
    then have le: "unat out + unat len \<le> unat qsize" by (simp add: word_le_nat_alt sum)
    then have "take (unat len) (drop (unat out) src) = ring_bytes src (unat out) (unat len)"
      using assms(1) by (intro nth_equalityI) (auto simp: nth_ring_bytes)
    then show ?thesis using True le assms(1) by (simp add: circ_read_def mem_get_def)
  next
    case False
    then have gt: "unat qsize < unat out + unat len" by (simp add: word_le_nat_alt sum)
    have l1: "unat (qsize - out) = unat qsize - unat out" using assms(2) by (intro unat_sub) (simp add: word_le_nat_alt)
    have l2: "unat (len - (qsize - out)) = unat len - (unat qsize - unat out)"
      using gt l1 by (subst unat_sub) (simp_all add: word_le_nat_alt)
    have "take (unat qsize - unat out) (drop (unat out) src) @ take (unat len - (unat qsize - unat out)) src =
      ring_bytes src (unat out) (unat len)"
    proof (rule nth_equalityI)
      fix k assume k: "k < length (take (unat qsize - unat out) (drop (unat out) src) @ take (unat len - (unat qsize - unat out)) src)"
      have "(unat out + k) mod unat qsize = (if unat out + k < unat qsize then unat out + k else unat out + k - unat qsize)"
        using k assms gt by (auto simp: mod_if)
      then show "(take (unat qsize - unat out) (drop (unat out) src) @ take (unat len - (unat qsize - unat out)) src) ! k =
          ring_bytes src (unat out) (unat len) ! k"
        using k assms gt by (auto simp: nth_ring_bytes nth_append add.commute)
    qed (use assms gt in auto)
    then show ?thesis using False l1 l2 assms gt by (simp add: circ_read_def mem_get_def Let_def)
  qed
qed

text \<open>A write, element by element.\<close>

lemma circ_write_ok:
  assumes "length dst = unat qsize" and "unat inp < unat qsize" and "length bs = unat len" and "unat len \<le> unat qsize"
    and "unat qsize \<le> 2 ^ 31"
  obtains d where "circ_write dst bs qsize inp len = Some d" and "length d = length dst"
    and "\<And>k. k < unat qsize \<Longrightarrow> d ! ((unat inp + k) mod unat qsize) = (if k < length bs then bs ! k else dst ! ((unat inp + k) mod unat qsize))"
proof -
  have sum: "unat (inp + len) = unat inp + unat len" using assms by (simp add: unat_word_ariths)
  have md: "(unat inp + k) mod unat qsize = (if unat inp + k < unat qsize then unat inp + k else unat inp + k - unat qsize)"
    if "k < unat qsize" for k using that assms by (auto simp: mod_if)
  have sp: "unat (qsize - inp) = unat qsize - unat inp" using assms(2) by (intro unat_sub) (simp add: word_le_nat_alt)
  show thesis
  proof (cases "unat inp + unat len \<le> unat qsize")
    case True
    let ?d = "take (unat inp) dst @ bs @ drop (unat inp + unat len) dst"
    have "\<not> len > qsize - inp" using True sp by (simp add: word_less_nat_alt)
    then have "circ_write dst bs qsize inp len = Some ?d" using True assms by (auto simp: circ_write_def mem_put_def Let_def)
    then show thesis
      by (rule that) (use True assms md in \<open>auto simp: nth_append\<close>)
  next
    case False
    have gt: "len > qsize - inp" "\<not> inp + len < qsize" using False sp sum assms(2) by (auto simp: word_less_nat_alt)
    have rest: "unat (len - (qsize - inp)) = unat len - (unat qsize - unat inp)"
      using False sp by (subst unat_sub) (simp_all add: word_le_nat_alt)
    let ?s = "unat qsize - unat inp"
    let ?d1 = "take (unat inp) dst @ take ?s bs"
    let ?d = "drop ?s bs @ drop (unat len - ?s) ?d1"
    have "circ_write dst bs qsize inp len = Some ?d"
      using False gt sp rest assms by (simp add: circ_write_def mem_put_def Let_def)
    then show thesis
      by (rule that) (use False assms md in \<open>auto simp: nth_append\<close>)
  qed
qed

end
