(* ===== verification/ModemLink.thy ===== *)
theory ModemLink
  imports ModemCirc
begin

text \<open>
  The legacy link of the modem interface: \<^verbatim>\<open>cpif/link_device_memory_legacy.c\<close>, the transmit and receive
  functions of \<^verbatim>\<open>cpif/link_device.c\<close> that use it, and the frame headers of \<^verbatim>\<open>cpif/include/exynos_ipc.h\<close>
  and \<^verbatim>\<open>sipc5.h\<close>. The application processor (AP) writes the head of a transmit queue and the tail of a
  receive queue, the modem (CP) the other two. A socket buffer is the list of its bytes.

  What a function hands on is recorded: the frames given to \<^verbatim>\<open>pass_skb_to_demux\<close> with their channel, and
  the calls of \<^verbatim>\<open>link_trigger_cp_crash\<close>. \<open>None\<close> is a fault, or a loop of \<^verbatim>\<open>circ_new_ptr\<close> that never ends.
\<close>

abbreviation (input) EIO :: int where "EIO \<equiv> 5"
abbreviation (input) EACCES :: int where "EACCES \<equiv> 13"
abbreviation (input) ENOSPC :: int where "ENOSPC \<equiv> 28"

subsection \<open>Frame headers\<close>

text \<open>The little-endian number in two or four bytes of a frame.\<close>

definition le16 :: "u8 list \<Rightarrow> nat \<Rightarrow> u32" where
  "le16 frm i = ucast (frm ! i) OR push_bit 8 (ucast (frm ! (i + 1)))"

definition le32 :: "u8 list \<Rightarrow> nat \<Rightarrow> u32" where
  "le32 frm i = le16 frm i OR push_bit 16 (le16 frm (i + 2))"

definition sipc5_start_valid :: "u8 list \<Rightarrow> bool" where
  "sipc5_start_valid frm = (frm ! 0 AND 0xF8 = 0xF8)"

definition sipc5_padding_exist :: "u8 list \<Rightarrow> bool" where
  "sipc5_padding_exist frm = (frm ! 0 AND 0x04 \<noteq> 0)"

definition sipc5_multi_frame :: "u8 list \<Rightarrow> bool" where
  "sipc5_multi_frame frm = (frm ! 0 AND 0x03 = 0x03)"

definition sipc5_calc_padding_size :: "u32 \<Rightarrow> u32" where
  "sipc5_calc_padding_size len = (let residue = len AND 7 in if residue \<noteq> 0 then 8 - residue else 0)"

definition sipc5_get_frame_len :: "u8 list \<Rightarrow> u32" where
  "sipc5_get_frame_len frm =
     (if frm ! 0 AND 0x02 \<noteq> 0 then (if sipc5_multi_frame frm then le16 frm 2 else le32 frm 2) else le16 frm 2)"

definition sipc5_get_total_len :: "u8 list \<Rightarrow> u32" where
  "sipc5_get_total_len frm =
     (let len = sipc5_get_frame_len frm;
          pad = (if sipc5_padding_exist frm then sipc5_calc_padding_size len else 0)
      in len + pad)"

definition exynos_start_valid :: "u8 list \<Rightarrow> bool" where
  "exynos_start_valid frm = (le16 frm 0 = 0xABCD)"

definition exynos_calc_padding_size :: "u32 \<Rightarrow> u32" where
  "exynos_calc_padding_size len = (let residue = len AND 7 in if residue \<noteq> 0 then 8 - residue else 0)"

definition exynos_get_frame_len :: "u8 list \<Rightarrow> u32" where
  "exynos_get_frame_len frm = le16 frm 6"

definition exynos_get_total_len :: "u8 list \<Rightarrow> u32" where
  "exynos_get_total_len frm =
     (let len = exynos_get_frame_len frm;
          pad = (if exynos_calc_padding_size len \<noteq> 0 then exynos_calc_padding_size len else 0)
      in len + pad)"

datatype protocol = PROTOCOL_SIPC | PROTOCOL_SIT

fun is_start_valid :: "protocol \<Rightarrow> u8 list \<Rightarrow> bool" where
  "is_start_valid PROTOCOL_SIPC = sipc5_start_valid"
| "is_start_valid PROTOCOL_SIT = exynos_start_valid"

fun get_total_len :: "protocol \<Rightarrow> u8 list \<Rightarrow> u32" where
  "get_total_len PROTOCOL_SIPC = sipc5_get_total_len"
| "get_total_len PROTOCOL_SIT = exynos_get_total_len"

fun hdr_read :: "protocol \<Rightarrow> nat" where
  "hdr_read PROTOCOL_SIPC = 4"
| "hdr_read PROTOCOL_SIT = 12"

fun ch_offset :: "protocol \<Rightarrow> nat" where
  "ch_offset PROTOCOL_SIPC = 1"
| "ch_offset PROTOCOL_SIT = 8"

text \<open>The channel of a frame; past the end of the data it is whatever byte \<open>junk\<close> the socket buffer holds.\<close>

definition get_ch :: "protocol \<Rightarrow> u8 \<Rightarrow> u8 list \<Rightarrow> u8" where
  "get_ch p junk skb = (if ch_offset p < length skb then skb ! ch_offset p else junk)"

subsection \<open>Devices\<close>

record legacy_ipc_device =
  txq :: circ_queue
  rxq :: circ_queue
  skb_txq :: "u8 list list"
  skb_rxq :: "u8 list list"
  req_ack_tx :: u32
  req_ack_rx :: u32

record legacy_link_device =
  l_magic :: u32
  l_mem_access :: u32
  l_dev :: "legacy_ipc_device list"

definition init_ipc_device :: "legacy_ipc_device \<Rightarrow> legacy_ipc_device" where
  "init_ipc_device dev =
     dev\<lparr>txq := (txq dev)\<lparr>cq_head := 0, cq_tail := 0, cq_busy := 0\<rparr>,
         rxq := (rxq dev)\<lparr>cq_head := 0, cq_tail := 0, cq_busy := 0\<rparr>,
         skb_txq := [], skb_rxq := [], req_ack_tx := 0, req_ack_rx := 0\<rparr>"

text \<open>
  \<open>cp\<close> is what the modem makes of the magic word and the access word before they are read back;
  \<open>id\<close> when it leaves them alone.
\<close>

definition init_legacy_link :: "u32 \<Rightarrow> (u32 \<times> u32 \<Rightarrow> u32 \<times> u32) \<Rightarrow> legacy_link_device \<Rightarrow> int \<times> legacy_link_device" where
  "init_legacy_link magic_ipc cp bl =
     (let bl1 = bl\<lparr>l_magic := 0, l_mem_access := 0\<rparr>;
          bl2 = bl1\<lparr>l_dev := map init_ipc_device (l_dev bl1)\<rparr>;
          (mg, acc) = cp (magic_ipc, 1);
          bl3 = bl2\<lparr>l_magic := mg, l_mem_access := acc\<rparr>
      in if mg \<noteq> magic_ipc \<or> acc \<noteq> 1 then (- EACCES, bl3) else (0, bl3))"

definition check_legacy_tx_pending :: "legacy_link_device \<Rightarrow> bool" where
  "check_legacy_tx_pending bl = (\<exists>dev \<in> set (l_dev bl). cq_head (txq dev) \<noteq> cq_tail (txq dev))"

definition txq_empty :: "legacy_ipc_device \<Rightarrow> bool" where
  "txq_empty dev = circ_empty (cq_head (txq dev)) (cq_tail (txq dev))"

definition rxq_empty :: "legacy_ipc_device \<Rightarrow> bool" where
  "rxq_empty dev = circ_empty (cq_head (rxq dev)) (cq_tail (rxq dev))"

subsection \<open>Transmitting\<close>

text \<open>The end of a transmission: the bytes go to the head, and the head moves.\<close>

definition cq_commit :: "circ_queue \<Rightarrow> u8 list \<Rightarrow> circ_queue option" where
  "cq_commit q bs =
     (let cnt = of_nat (length bs)
      in case circ_write (cq_buff q) bs (cq_size q) (cq_head q) cnt of
           None \<Rightarrow> None
         | Some b \<Rightarrow>
             (case circ_new_ptr (cq_size q) (cq_head q) cnt of
                None \<Rightarrow> None
              | Some p \<Rightarrow> Some (q\<lparr>cq_buff := b, cq_head := p\<rparr>)))"

definition check_txq_space :: "u32 \<Rightarrow> u32 \<Rightarrow> u32 \<Rightarrow> u32 \<Rightarrow> int" where
  "check_txq_space qsize inp out cnt =
     (if \<not> circ_valid qsize inp out then - EIO
      else (let space = circ_get_space qsize inp out in if space < cnt then - ENOSPC else sint space))"

definition txq_write :: "legacy_ipc_device \<Rightarrow> u8 list \<Rightarrow> (int \<times> legacy_ipc_device) option" where
  "txq_write dev skb =
     (let q = txq dev;
          space = check_txq_space (cq_size q) (cq_head q) (cq_tail q) (of_nat (length skb))
      in if space < 0 then Some (space, dev)
         else map_option (\<lambda>q1. (int (length skb), dev\<lparr>txq := q1\<rparr>)) (cq_commit q skb))"

text \<open>\<open>tx\<close> is the sum of the bytes sent so far.\<close>

function tx_frames_to_dev :: "int \<Rightarrow> legacy_ipc_device \<Rightarrow> (int \<times> legacy_ipc_device) option" where
  "tx_frames_to_dev tx dev =
     (case skb_txq dev of
        [] \<Rightarrow> Some (tx, dev)
      | skb # rest \<Rightarrow>
          (case txq_write (dev\<lparr>skb_txq := rest\<rparr>) skb of
             None \<Rightarrow> None
           | Some (ret, dev1) \<Rightarrow>
               if ret < 0 then Some (ret, dev1\<lparr>skb_txq := skb # skb_txq dev1\<rparr>)
               else tx_frames_to_dev (tx + ret) dev1))"
  by pat_completeness auto
termination
  by (relation "measure (\<lambda>(_, dev). length (skb_txq dev))")
    (auto simp: txq_write_def Let_def split: if_splits)

text \<open>
  \<^verbatim>\<open>xmit_to_legacy_link\<close> tries up to 20 times; \<open>tails\<close> are the values the modem has given the tail at
  each try.
\<close>

fun xmit_loop :: "nat \<Rightarrow> u32 list \<Rightarrow> circ_queue \<Rightarrow> u8 list \<Rightarrow> (int \<times> circ_queue) option" where
  "xmit_loop tried [] q skb = None"
| "xmit_loop tried (t # ts) q0 skb =
     (let q = q0\<lparr>cq_tail := t\<rparr>; cnt = of_nat (length skb)
      in if \<not> circ_valid (cq_size q) (cq_head q) (cq_tail q) then Some (- EIO, q)
         else if circ_get_space (cq_size q) (cq_head q) (cq_tail q) < cnt then
           (if tried + 1 \<ge> 20 then Some (- ENOSPC, q) else xmit_loop (tried + 1) ts q skb)
         else map_option (\<lambda>q1. (int (length skb), q1)) (cq_commit q skb))"

definition xmit_to_legacy_link :: "u32 list \<Rightarrow> legacy_ipc_device \<Rightarrow> u8 list \<Rightarrow> (int \<times> legacy_ipc_device) option" where
  "xmit_to_legacy_link tails dev skb = map_option (\<lambda>(r, q). (r, dev\<lparr>txq := q\<rparr>)) (xmit_loop 0 tails (txq dev) skb)"

subsection \<open>Receiving\<close>

text \<open>Taking \<open>len\<close> bytes from the tail on.\<close>

definition cq_take :: "circ_queue \<Rightarrow> u32 \<Rightarrow> (u8 list \<times> circ_queue) option" where
  "cq_take q len =
     (case circ_read (cq_buff q) (cq_size q) (cq_tail q) len of
        None \<Rightarrow> None
      | Some bs \<Rightarrow>
          (case circ_new_ptr (cq_size q) (cq_tail q) len of
             None \<Rightarrow> None
           | Some p \<Rightarrow> Some (bs, q\<lparr>cq_tail := p\<rparr>)))"

text \<open>
  What the \<open>k\<close>-th frame of a run meets: whether its socket buffer can be allocated, what the twelve
  bytes of the header buffer hold before the header is read, and the byte that stands at the place of
  the channel in a socket buffer too short to have one.
\<close>

record rx_env =
  rx_alloc :: "nat \<Rightarrow> bool"
  rx_stack :: "nat \<Rightarrow> u8 list"
  rx_tailroom :: "nat \<Rightarrow> u8"

text \<open>The device, the frames passed on with their channels, the crashes triggered.\<close>

record rx_state =
  rx_dev :: legacy_ipc_device
  rx_passed :: "(u8 \<times> u8 list) list"
  rx_crashes :: "string list"

definition rx_queue :: "rx_state \<Rightarrow> circ_queue" where
  "rx_queue st = rxq (rx_dev st)"

definition set_rx_queue :: "circ_queue \<Rightarrow> rx_state \<Rightarrow> rx_state" where
  "set_rx_queue q st = st\<lparr>rx_dev := (rx_dev st)\<lparr>rxq := q\<rparr>\<rparr>"

definition rx_crash :: "string \<Rightarrow> rx_state \<Rightarrow> rx_state" where
  "rx_crash msg st = st\<lparr>rx_crashes := rx_crashes st @ [msg]\<rparr>"

definition rx_pass :: "u8 \<Rightarrow> u8 list \<Rightarrow> rx_state \<Rightarrow> rx_state" where
  "rx_pass ch skb st = st\<lparr>rx_passed := rx_passed st @ [(ch, skb)]\<rparr>"

definition bad_msg :: "u32 \<Rightarrow> rx_state \<Rightarrow> (int \<times> u8 list option \<times> rx_state) option" where
  "bad_msg inp st =
     (let q = rx_queue st
      in case circ_read (cq_buff q) (cq_size q) (cq_tail q) 32 of
           None \<Rightarrow> None
         | Some _ \<Rightarrow>
             Some (- EINVAL, None, rx_crash ''ERR! BAD MSG from CP'' (set_rx_queue (q\<lparr>cq_tail := inp\<rparr>) st)))"

definition recv_from_legacy_link ::
    "protocol \<Rightarrow> rx_env \<Rightarrow> u32 \<Rightarrow> rx_state \<Rightarrow> (int \<times> u8 list option \<times> rx_state) option" where
  "recv_from_legacy_link p env inp st =
     (let q = rx_queue st; k = length (rx_passed st);
          rest = circ_get_usage (cq_size q) inp (cq_tail q)
      in case circ_read (cq_buff q) (cq_size q) (cq_tail q) (of_nat (hdr_read p)) of
           None \<Rightarrow> None
         | Some bs \<Rightarrow>
             let hdr = bs @ drop (hdr_read p) (rx_stack env k)
             in if \<not> is_start_valid p hdr then bad_msg inp st
                else
                  let len = get_total_len p hdr
                  in if len > rest then bad_msg inp st
                     else if \<not> rx_alloc env k then Some (- ENOMEM, None, st)
                     else
                       (case cq_take q len of
                          None \<Rightarrow> None
                        | Some (skb, q1) \<Rightarrow> Some (0, Some skb, set_rx_queue q1 st)))"

text \<open>
  The loop of \<^verbatim>\<open>legacy_ipc_rx_func\<close>. The outer \<open>None\<close> is a run that never ends, the inner one a fault.
  \<open>iods\<close> tells which channels have an IO device.
\<close>

partial_function (option) rx_loop ::
    "protocol \<Rightarrow> rx_env \<Rightarrow> (u8 \<Rightarrow> bool) \<Rightarrow> u32 \<Rightarrow> u32 \<Rightarrow> u32 \<Rightarrow> rx_state \<Rightarrow> (int \<times> rx_state) option option" where
  "rx_loop p env iods inp qlen rcvd st =
     (if \<not> rcvd < qlen then Some (Some (sint rcvd, st))
      else
        (case recv_from_legacy_link p env inp st of
           None \<Rightarrow> Some None
         | Some (err, skb, st1) \<Rightarrow>
             if err \<noteq> 0 then Some (Some (err, st1))
             else
               (case skb of
                  None \<Rightarrow> Some None
                | Some b \<Rightarrow>
                    let ch = get_ch p (rx_tailroom env (length (rx_passed st))) b
                    in if \<not> iods ch then
                         Some (Some (sint rcvd, rx_crash ''ERR! No IOD from CP in rx_frames_from_dev()'' st1))
                       else rx_loop p env iods inp qlen (rcvd + of_nat (length b)) (rx_pass ch b st1))))"

definition legacy_ipc_rx_func ::
    "protocol \<Rightarrow> rx_env \<Rightarrow> (u8 \<Rightarrow> bool) \<Rightarrow> rx_state \<Rightarrow> (int \<times> rx_state) option option" where
  "legacy_ipc_rx_func p env iods st =
     (let q = rx_queue st; inp = cq_head q; out = cq_tail q; qlen = circ_get_usage (cq_size q) inp out
      in if circ_empty inp out then Some (Some (0, st)) else rx_loop p env iods inp qlen 0 st)"

text \<open>The variant for NAPI stops when the budget of packets for network devices is used up.\<close>

definition sipc_ps_ch :: "u8 \<Rightarrow> bool" where
  "sipc_ps_ch ch = (ch \<ge> 10 \<and> ch \<le> 24)"

definition exynos_ps_ch :: "bool \<Rightarrow> u8 \<Rightarrow> bool" where
  "exynos_ps_ch ch_extension ch = (if ch_extension then ch \<ge> 181 \<and> ch \<le> 211 else ch \<ge> 1 \<and> ch \<le> 10)"

fun is_ps_ch :: "bool \<Rightarrow> protocol \<Rightarrow> u8 \<Rightarrow> bool" where
  "is_ps_ch ch_extension PROTOCOL_SIPC ch = sipc_ps_ch ch"
| "is_ps_ch ch_extension PROTOCOL_SIT ch = exynos_ps_ch ch_extension ch"

partial_function (option) rx_loop_napi ::
    "bool \<Rightarrow> protocol \<Rightarrow> rx_env \<Rightarrow> (u8 \<Rightarrow> bool) \<Rightarrow> u32 \<Rightarrow> u32 \<Rightarrow> s32 \<Rightarrow> int \<Rightarrow> u32 \<Rightarrow> rx_state
     \<Rightarrow> (int \<times> int \<times> rx_state) option option" where
  "rx_loop_napi ext p env iods inp qlen budget work rcvd st =
     (if \<not> (budget \<noteq> 0 \<and> rcvd < qlen) then Some (Some (0, work, st))
      else
        (case recv_from_legacy_link p env inp st of
           None \<Rightarrow> Some None
         | Some (err, skb, st1) \<Rightarrow>
             if err \<noteq> 0 then Some (Some (err, work, st1))
             else
               (case skb of
                  None \<Rightarrow> Some None
                | Some b \<Rightarrow>
                    let ch = get_ch p (rx_tailroom env (length (rx_passed st))) b
                    in if \<not> iods ch then Some (Some (0, work, rx_crash ''ERR! No IOD from CP'' st1))
                       else if is_ps_ch ext p ch then
                         rx_loop_napi ext p env iods inp qlen (budget - 1) (work + 1) (rcvd + of_nat (length b)) (rx_pass ch b st1)
                       else rx_loop_napi ext p env iods inp qlen budget work (rcvd + of_nat (length b)) (rx_pass ch b st1))))"

definition legacy_ipc_rx_func_napi ::
    "bool \<Rightarrow> protocol \<Rightarrow> rx_env \<Rightarrow> (u8 \<Rightarrow> bool) \<Rightarrow> s32 \<Rightarrow> int \<Rightarrow> rx_state \<Rightarrow> (int \<times> int \<times> rx_state) option option" where
  "legacy_ipc_rx_func_napi ext p env iods budget work st =
     (let q = rx_queue st; inp = cq_head q; out = cq_tail q; qlen = circ_get_usage (cq_size q) inp out
      in if circ_empty inp out then Some (Some (0, work, st))
         else rx_loop_napi ext p env iods inp qlen budget work 0 st)"

declare rx_loop.simps [code] rx_loop_napi.simps [code]

end
