(* ===== verification/ModemSbd.thy ===== *)
theory ModemSbd
  imports ModemLink
begin

text \<open>
  The SBD link of the modem interface: rings of buffer descriptors, \<^verbatim>\<open>cpif/link_device_memory_sbd.c\<close>
  and \<^verbatim>\<open>cpif/include/sbd.h\<close>, with the loops of \<^verbatim>\<open>cpif/link_device.c\<close> that use them. A ring has a slot of
  \<^verbatim>\<open>buff_size\<close> bytes and a length word for each position; the read and the write pointer are 16-bit
  positions. \<open>None\<close> is a fault.
\<close>

subsection \<open>Rings\<close>

text \<open>A socket buffer on its way to the modem: its bytes and the channel of its IO device.\<close>

record tx_skb =
  t_data :: "u8 list"
  t_ch :: u32

text \<open>
  A received socket buffer with what is recorded in its control block: the channel, whether its IO device
  was found, the link header flag, whether it belongs to NAPI.
\<close>

record rx_skb =
  r_data :: "u8 list"
  r_ch :: u8
  r_iod :: bool
  r_lnk_hdr :: bool
  r_napi :: bool

record sbd_ring_buffer =
  sb_skb_q :: "tx_skb list"
  sb_lnk_hdr :: bool
  sb_more :: bool
  sb_total :: u32
  sb_rcvd :: u32
  sb_ch :: u16
  sb_len :: u16
  sb_buff_size :: u16
  sb_payload_offset :: u16
  sb_buff :: "u8 list list"
  sb_rp :: u16
  sb_wp :: u16
  sb_buff_len_array :: "u32 list"
  sb_iod :: bool
  sb_busy :: int

definition rb_empty :: "sbd_ring_buffer \<Rightarrow> bool" where
  "rb_empty rb = circ_empty (ucast (sb_rp rb)) (ucast (sb_wp rb))"

definition rb_space :: "sbd_ring_buffer \<Rightarrow> u32" where
  "rb_space rb = circ_get_space (ucast (sb_len rb)) (ucast (sb_wp rb)) (ucast (sb_rp rb))"

definition rb_usage :: "sbd_ring_buffer \<Rightarrow> u32" where
  "rb_usage rb = circ_get_usage (ucast (sb_len rb)) (ucast (sb_wp rb)) (ucast (sb_rp rb))"

definition rb_full :: "sbd_ring_buffer \<Rightarrow> bool" where
  "rb_full rb = (rb_space rb = 0)"

subsection \<open>Sending\<close>

definition check_rb_space :: "u32 \<Rightarrow> u32 \<Rightarrow> u32 \<Rightarrow> int" where
  "check_rb_space qlen inp out =
     (if \<not> circ_valid qlen inp out then - EIO
      else (let space = circ_get_space qlen inp out in if space < 1 then - ENOSPC else sint space))"

text \<open>\<^verbatim>\<open>sipc_ps_ch\<close> takes an 8-bit channel.\<close>

definition rb_ps_ch :: "sbd_ring_buffer \<Rightarrow> bool" where
  "rb_ps_ch rb = sipc_ps_ch (ucast (sb_ch rb))"

definition rb_payload_space :: "sbd_ring_buffer \<Rightarrow> u32" where
  "rb_payload_space rb = ucast (sb_buff_size rb) - ucast (sb_payload_offset rb)"

text \<open>The length word: with the channel in its upper half for the channels of network devices.\<close>

definition rb_len_word :: "sbd_ring_buffer \<Rightarrow> tx_skb \<Rightarrow> u32" where
  "rb_len_word rb skb =
     (let len = of_nat (length (t_data skb)) :: u32
      in if rb_ps_ch rb then (len AND 0xFFFF) OR push_bit 16 (t_ch skb) else len)"

definition sbd_pio_tx :: "sbd_ring_buffer \<Rightarrow> tx_skb \<Rightarrow> (int \<times> sbd_ring_buffer) option" where
  "sbd_pio_tx rb skb =
     (let qlen = ucast (sb_len rb); inp = ucast (sb_wp rb); out = ucast (sb_rp rb);
          cnt = of_nat (length (t_data skb)) :: u32; space = rb_payload_space rb;
          ret = check_rb_space qlen inp out
      in if ret < 0 then Some (ret, rb)
         else if cnt > space then Some (- ENOSPC, rb)
         else if \<not> unat inp < length (sb_buff rb) \<or> \<not> unat inp < length (sb_buff_len_array rb) then None
         else
           (case mem_put (sb_buff rb ! unat inp) (ucast (sb_payload_offset rb)) (t_data skb) of
              None \<Rightarrow> None
            | Some slot \<Rightarrow>
                (case circ_new_ptr qlen inp 1 of
                   None \<Rightarrow> None
                 | Some p \<Rightarrow>
                     Some (int (length (t_data skb)),
                       rb\<lparr>sb_buff := (sb_buff rb)[unat inp := slot],
                          sb_buff_len_array := (sb_buff_len_array rb)[unat inp := rb_len_word rb skb],
                          sb_wp := ucast p\<rparr>))))"

fun tx_rb_loop :: "tx_skb list \<Rightarrow> int \<Rightarrow> sbd_ring_buffer \<Rightarrow> (int \<times> sbd_ring_buffer) option" where
  "tx_rb_loop [] tx rb = Some (tx, rb\<lparr>sb_skb_q := []\<rparr>)"
| "tx_rb_loop (skb # q) tx rb =
     (case sbd_pio_tx rb skb of
        None \<Rightarrow> None
      | Some (ret, rb1) \<Rightarrow>
          if ret < 0 then Some (ret, rb1\<lparr>sb_skb_q := skb # q\<rparr>) else tx_rb_loop q (tx + ret) rb1)"

definition tx_frames_to_rb :: "sbd_ring_buffer \<Rightarrow> (int \<times> sbd_ring_buffer) option" where
  "tx_frames_to_rb rb = tx_rb_loop (sb_skb_q rb) 0 rb"

definition check_sbd_tx_pending :: "sbd_ring_buffer list \<Rightarrow> bool" where
  "check_sbd_tx_pending uls = (\<exists>rb \<in> set uls. sb_wp rb \<noteq> sb_rp rb)"

subsection \<open>Receiving\<close>

text \<open>
  The inner \<open>None\<close> is the null pointer. \<open>alloc\<close> tells whether the socket buffer can be allocated.
\<close>

definition recv_data :: "bool \<Rightarrow> sbd_ring_buffer \<Rightarrow> u16 \<Rightarrow> u8 list option option" where
  "recv_data alloc rb out =
     (if \<not> unat out < length (sb_buff_len_array rb) \<or> \<not> unat out < length (sb_buff rb) then None
      else
        (let len = (sb_buff_len_array rb ! unat out) AND 0xFFFF
         in if len > rb_payload_space rb then Some None
            else if \<not> alloc then Some None
            else map_option Some (mem_get (sb_buff rb ! unat out) (ucast (sb_payload_offset rb)) len)))"

text \<open>\<open>iods\<close> tells which channels have an IO device connected to the link.\<close>

definition set_skb_priv :: "(u32 \<Rightarrow> bool) \<Rightarrow> sbd_ring_buffer \<Rightarrow> rx_skb \<Rightarrow> rx_skb" where
  "set_skb_priv iods rb skb =
     (if rb_ps_ch rb then
        (let ch = drop_bit 16 (sb_buff_len_array rb ! unat (sb_rp rb)) AND 0xFFFF
         in skb\<lparr>r_iod := iods ch, r_ch := ucast ch, r_napi := True\<rparr>)
      else skb\<lparr>r_iod := sb_iod rb, r_ch := ucast (sb_ch rb), r_napi := False\<rparr>)"

definition set_lnk_hdr :: "sbd_ring_buffer \<Rightarrow> rx_skb \<Rightarrow> rx_skb" where
  "set_lnk_hdr rb skb = skb\<lparr>r_lnk_hdr := sb_lnk_hdr rb \<and> \<not> sb_more rb\<rparr>"

text \<open>
  Frames longer than a slot come in several. \<open>room\<close> is what stands behind the bytes of the socket buffer,
  for one too short to hold a length field.
\<close>

definition check_more :: "u8 list \<Rightarrow> rx_skb \<Rightarrow> sbd_ring_buffer \<Rightarrow> sbd_ring_buffer" where
  "check_more room skb rb =
     (if sb_lnk_hdr rb then
        (if \<not> sb_more rb then
           (let flen = sipc5_get_frame_len (r_data skb @ room)
            in if flen > ucast (sb_buff_size rb)
               then rb\<lparr>sb_more := True, sb_total := flen, sb_rcvd := of_nat (length (r_data skb))\<rparr> else rb)
         else
           (let rcvd = sb_rcvd rb + of_nat (length (r_data skb))
            in if rcvd \<ge> sb_total rb then rb\<lparr>sb_more := False, sb_total := 0, sb_rcvd := 0\<rparr>
               else rb\<lparr>sb_rcvd := rcvd\<rparr>))
      else rb)"

definition sbd_pio_rx ::
    "bool \<Rightarrow> (u32 \<Rightarrow> bool) \<Rightarrow> u8 list \<Rightarrow> sbd_ring_buffer \<Rightarrow> (rx_skb option \<times> sbd_ring_buffer) option" where
  "sbd_pio_rx alloc iods room rb =
     (case recv_data alloc rb (sb_rp rb) of
        None \<Rightarrow> None
      | Some None \<Rightarrow> Some (None, rb)
      | Some (Some bs) \<Rightarrow>
          let skb0 = \<lparr>r_data = bs, r_ch = 0, r_iod = False, r_lnk_hdr = False, r_napi = False\<rparr>;
              skb = set_skb_priv iods rb (set_lnk_hdr rb skb0);
              rb1 = check_more room skb rb
          in (case circ_new_ptr (ucast (sb_len rb)) (ucast (sb_rp rb)) 1 of
                None \<Rightarrow> None
              | Some p \<Rightarrow> Some (Some skb, rb1\<lparr>sb_rp := ucast p\<rparr>)))"

text \<open>What the loops meet, for the \<open>k\<close>-th frame, and what they record.\<close>

record sbd_env =
  e_alloc :: "nat \<Rightarrow> bool"
  e_iods :: "u32 \<Rightarrow> bool"
  e_room :: "nat \<Rightarrow> u8 list"

record sbd_rx =
  x_rb :: sbd_ring_buffer
  x_passed :: "rx_skb list"
  x_crashes :: "string list"

text \<open>
  \<^verbatim>\<open>rx_ipc_frames_from_rb\<close>: \<open>n\<close> frames are still to come, \<open>k\<close> have been received. \<^verbatim>\<open>pass_skb_to_demux\<close>
  drops a frame without IO device and triggers a crash of the modem.
\<close>

definition sbd_demux :: "rx_skb \<Rightarrow> sbd_rx \<Rightarrow> sbd_rx" where
  "sbd_demux skb s =
     (if \<not> r_iod skb then s\<lparr>x_crashes := x_crashes s @ [''ERR! No IOD for CH.XX'']\<rparr>
      else s\<lparr>x_passed := x_passed s @ [skb]\<rparr>)"

fun rx_ipc_loop :: "protocol \<Rightarrow> sbd_env \<Rightarrow> nat \<Rightarrow> nat \<Rightarrow> sbd_rx \<Rightarrow> (int \<times> sbd_rx) option" where
  "rx_ipc_loop p env 0 k s = Some (int k, s)"
| "rx_ipc_loop p env (Suc n) k s =
     (case sbd_pio_rx (e_alloc env k) (e_iods env) (e_room env k) (x_rb s) of
        None \<Rightarrow> None
      | Some (None, rb) \<Rightarrow> Some (- ENOMEM, s\<lparr>x_rb := rb\<rparr>)
      | Some (Some skb, rb) \<Rightarrow>
          let s1 = s\<lparr>x_rb := rb\<rparr>;
              fch = (r_data skb @ e_room env k) ! ch_offset p
          in if r_lnk_hdr skb \<and> fch \<noteq> ucast (sb_ch rb)
             then rx_ipc_loop p env n (Suc k) (s1\<lparr>x_crashes := x_crashes s1 @ [''frm.ch is not same with rb.ch'']\<rparr>)
             else rx_ipc_loop p env n (Suc k) (sbd_demux skb s1))"

definition rx_ipc_frames_from_rb :: "protocol \<Rightarrow> sbd_env \<Rightarrow> sbd_rx \<Rightarrow> (int \<times> sbd_rx) option" where
  "rx_ipc_frames_from_rb p env s = rx_ipc_loop p env (unat (rb_usage (x_rb s))) 0 s"

text \<open>
  \<^verbatim>\<open>rx_net_frames_from_rb\<close>: \<open>online\<close> tells whether the modem is online, \<open>recv_net\<close> what the receive function of the
  network device returns for the \<open>k\<close>-th packet. The second component is \<^verbatim>\<open>*work_done\<close>, set only on the regular
  return.
\<close>

definition pass_skb_to_net :: "bool \<Rightarrow> int \<Rightarrow> rx_skb \<Rightarrow> sbd_rx \<Rightarrow> int \<times> sbd_rx" where
  "pass_skb_to_net online recv_net skb s =
     (if \<not> online then (- EACCES, s)
      else if \<not> r_iod skb then (- EIO, s\<lparr>x_crashes := x_crashes s @ [''ERR! No IOD'']\<rparr>)
      else if recv_net < 0 then (recv_net, s) else (recv_net, s\<lparr>x_passed := x_passed s @ [skb]\<rparr>))"

fun rx_net_loop :: "bool \<Rightarrow> (nat \<Rightarrow> int) \<Rightarrow> sbd_env \<Rightarrow> nat \<Rightarrow> nat \<Rightarrow> int \<Rightarrow> sbd_rx \<Rightarrow> (int \<times> int option \<times> sbd_rx) option" where
  "rx_net_loop online recv_net env 0 k ret s = Some (ret, Some (int k), s)"
| "rx_net_loop online recv_net env (Suc n) k ret s =
     (case sbd_pio_rx (e_alloc env k) (e_iods env) (e_room env k) (x_rb s) of
        None \<Rightarrow> None
      | Some (None, rb) \<Rightarrow> Some (- ENOMEM, None, s\<lparr>x_rb := rb\<rparr>)
      | Some (Some skb, rb) \<Rightarrow>
          let (ret1, s1) = pass_skb_to_net online (recv_net k) skb (s\<lparr>x_rb := rb\<rparr>)
          in if ret1 < 0 then Some (ret1, Some (int (Suc k)), s1)
             else rx_net_loop online recv_net env n (Suc k) ret1 s1)"

definition rx_net_frames_from_rb :: "bool \<Rightarrow> (nat \<Rightarrow> int) \<Rightarrow> sbd_env \<Rightarrow> u32 \<Rightarrow> sbd_rx \<Rightarrow> (int \<times> int option \<times> sbd_rx) option" where
  "rx_net_frames_from_rb online recv_net env budget s =
     rx_net_loop online recv_net env (unat (min (rb_usage (x_rb s)) budget)) 0 0 s"

end
