(* ===== verification/ModemFlow.thy ===== *)
theory ModemFlow
  imports ModemLink ModemSbd
begin

text \<open>
  Transmit flow control of the modem interface: \<^verbatim>\<open>cpif/link_device_memory_flow_control.c\<close>, the transmit
  functions and timers of \<^verbatim>\<open>cpif/link_device.c\<close>, and the stopping of the network interfaces in
  \<^verbatim>\<open>cpif/modem_utils.c\<close>. The state has the legacy link with its devices, the uplink rings of the SBD link, the
  mask of reasons to stop transmission, and what the driver did to the outside: the interrupts sent,
  the crashes triggered, and the last order that \<^verbatim>\<open>netif_tx_flowctl\<close> gave to the network devices that are up: to stop
  their subqueues (\<open>fl_subqueues\<close>) or to wake them. A subqueue has other masters as well, which are not part of flow control: a device that is
  opened starts its queue (\<^verbatim>\<open>vnet_open\<close>), sending while the modem is offline stops it (\<^verbatim>\<open>vnet_xmit\<close>), and so do commands
  of single channels (\<^verbatim>\<open>stop_net_iface\<close>, \<^verbatim>\<open>link_rx_flowctl_cmd\<close>).

  A handler runs to its end before the next one starts. Counters are C integers that wrap around.
\<close>

abbreviation (input) EBUSY :: int where "EBUSY \<equiv> 16"
abbreviation (input) ETIME :: int where "ETIME \<equiv> 62"

text \<open>The two masks are used as bit numbers.\<close>

abbreviation (input) TXQ_STOP_MASK :: nat where "TXQ_STOP_MASK \<equiv> 1"
abbreviation (input) TX_SUSPEND_MASK :: nat where "TX_SUSPEND_MASK \<equiv> 2"

record flow_state =
  fl_link :: legacy_link_device
  fl_rbs :: "sbd_ring_buffer list"
  fl_is_ps_ch :: "u8 \<Rightarrow> bool"
  fl_mask :: u64
  fl_stopped :: bool
  fl_subqueues :: bool
  fl_online :: bool
  fl_booting :: bool
  fl_dpram_magic :: bool
  fl_magic_ipc :: u32
  fl_magic_crash :: u32
  fl_forced_crash :: int
  fl_timer :: bool
  fl_sbd_timer :: bool
  fl_irqs :: "u16 list"
  fl_crashes :: "string list"

definition fl_dev :: "flow_state \<Rightarrow> nat \<Rightarrow> legacy_ipc_device" where
  "fl_dev st i = l_dev (fl_link st) ! i"

definition set_fl_dev :: "nat \<Rightarrow> legacy_ipc_device \<Rightarrow> flow_state \<Rightarrow> flow_state" where
  "set_fl_dev i d st = st\<lparr>fl_link := (fl_link st)\<lparr>l_dev := (l_dev (fl_link st))[i := d]\<rparr>\<rparr>"

definition set_fl_rb :: "nat \<Rightarrow> sbd_ring_buffer \<Rightarrow> flow_state \<Rightarrow> flow_state" where
  "set_fl_rb i rb st = st\<lparr>fl_rbs := (fl_rbs st)[i := rb]\<rparr>"

definition set_dev_busy :: "nat \<Rightarrow> int \<Rightarrow> flow_state \<Rightarrow> flow_state" where
  "set_dev_busy i b st = set_fl_dev i ((fl_dev st i)\<lparr>txq := (txq (fl_dev st i))\<lparr>cq_busy := b\<rparr>\<rparr>) st"

definition set_rb_busy :: "nat \<Rightarrow> int \<Rightarrow> flow_state \<Rightarrow> flow_state" where
  "set_rb_busy i b st = set_fl_rb i ((fl_rbs st ! i)\<lparr>sb_busy := b\<rparr>) st"

subsection \<open>Interrupts and crashes\<close>

definition mask2int :: "u16 \<Rightarrow> u16" where
  "mask2int m = m OR 0x0080"

definition msg_mask :: "nat \<Rightarrow> u16" where
  "msg_mask i = (if i = 0 then 0x0002 else 0x0001)"

definition req_ack_mask :: "nat \<Rightarrow> u16" where
  "req_ack_mask i = (if i = 0 then 0x0020 else 0x0010)"

definition res_ack_mask :: "nat \<Rightarrow> u16" where
  "res_ack_mask i = (if i = 0 then 0x0008 else 0x0004)"

definition send_ipc_irq :: "u16 \<Rightarrow> flow_state \<Rightarrow> flow_state" where
  "send_ipc_irq v st = st\<lparr>fl_irqs := fl_irqs st @ [v]\<rparr>"

definition ipc_active :: "flow_state \<Rightarrow> bool" where
  "ipc_active st =
     (if \<not> fl_online st then False
      else if fl_dpram_magic st \<and> (l_magic (fl_link st) \<noteq> fl_magic_ipc st \<or> l_mem_access (fl_link st) \<noteq> 1) then False
      else if fl_forced_crash st \<noteq> 0 then False
      else True)"

definition stop_net_ifaces :: "flow_state \<Rightarrow> flow_state" where
  "stop_net_ifaces st = (if \<not> fl_stopped st then st\<lparr>fl_subqueues := True, fl_stopped := True\<rparr> else st)"

definition resume_net_ifaces :: "flow_state \<Rightarrow> flow_state" where
  "resume_net_ifaces st = (if fl_stopped st then st\<lparr>fl_subqueues := False, fl_stopped := False\<rparr> else st)"

definition link_trigger_cp_crash :: "string \<Rightarrow> flow_state \<Rightarrow> flow_state" where
  "link_trigger_cp_crash msg st =
     (if \<not> fl_online st \<and> \<not> fl_booting st then st
      else
        (let st1 = st\<lparr>fl_forced_crash := c_int (fl_forced_crash st + 1)\<rparr>
         in if fl_forced_crash st1 > 1 then st1
            else stop_net_ifaces
              (st1\<lparr>fl_link := (fl_link st1)\<lparr>l_magic := fl_magic_crash st1, l_mem_access := 0\<rparr>,
                   fl_crashes := fl_crashes st1 @ [msg]\<rparr>)))"

subsection \<open>Flow control of the legacy queues\<close>

definition send_req_ack :: "nat \<Rightarrow> flow_state \<Rightarrow> flow_state" where
  "send_req_ack i st =
     (let st1 = send_ipc_irq (mask2int (req_ack_mask i)) st; d = fl_dev st1 i
      in set_fl_dev i (d\<lparr>req_ack_tx := req_ack_tx d + 1\<rparr>) st1)"

text \<open>The second of the legacy devices is the one whose queue stops the interfaces, whatever the configuration.\<close>

definition txq_stop :: "nat \<Rightarrow> flow_state \<Rightarrow> flow_state" where
  "txq_stop i st =
     (if i = 1 \<and> cq_busy (txq (fl_dev st i)) = 0 then
        (if \<not> bit (fl_mask st) TXQ_STOP_MASK then
           (let st1 = set_dev_busy i 1 st;
                st2 = st1\<lparr>fl_mask := Bit_Operations.set_bit TXQ_STOP_MASK (fl_mask st1)\<rparr>
            in send_req_ack i (stop_net_ifaces st2))
         else st)
      else st)"

definition txq_start :: "nat \<Rightarrow> flow_state \<Rightarrow> flow_state" where
  "txq_start i st =
     (if i = 1 \<and> cq_busy (txq (fl_dev st i)) > 0 then
        (if bit (fl_mask st) TXQ_STOP_MASK then
           (let st1 = set_dev_busy i 0 st;
                st2 = st1\<lparr>fl_mask := Bit_Operations.unset_bit TXQ_STOP_MASK (fl_mask st1)\<rparr>
            in if fl_mask st2 = 0 then resume_net_ifaces st2 else st2)
         else st)
      else st)"

definition tx_flowctrl_suspend :: "flow_state \<Rightarrow> flow_state" where
  "tx_flowctrl_suspend st =
     (if \<not> bit (fl_mask st) TX_SUSPEND_MASK
      then stop_net_ifaces (st\<lparr>fl_mask := Bit_Operations.set_bit TX_SUSPEND_MASK (fl_mask st)\<rparr>) else st)"

definition tx_flowctrl_resume :: "flow_state \<Rightarrow> flow_state" where
  "tx_flowctrl_resume st =
     (if bit (fl_mask st) TX_SUSPEND_MASK then
        (let st1 = st\<lparr>fl_mask := Bit_Operations.unset_bit TX_SUSPEND_MASK (fl_mask st)\<rparr>
         in if fl_mask st1 = 0 then resume_net_ifaces st1 else st1)
      else st)"

definition count_flood :: "int \<Rightarrow> bool" where
  "count_flood cnt = (cnt > 0 \<and> cnt AND 0xF = 0)"

definition check_tx_flow_ctrl :: "nat \<Rightarrow> flow_state \<Rightarrow> int \<times> flow_state" where
  "check_tx_flow_ctrl i st =
     (let busy_count = cq_busy (txq (fl_dev st i))
      in if txq_empty (fl_dev st i) then (0, txq_start i st)
         else
           (let st1 = set_dev_busy i (c_int (busy_count + 1)) st
            in if fl_online st1 \<and> count_flood busy_count then (- ETIME, send_req_ack i st1) else (- EBUSY, st1)))"

definition recv_res_ack :: "nat \<Rightarrow> flow_state \<Rightarrow> flow_state" where
  "recv_res_ack i st = txq_start i (set_fl_dev i ((fl_dev st i)\<lparr>req_ack_tx := req_ack_tx (fl_dev st i) - 1\<rparr>) st)"

definition recv_req_ack :: "nat \<Rightarrow> flow_state \<Rightarrow> flow_state" where
  "recv_req_ack i st = set_fl_dev i ((fl_dev st i)\<lparr>req_ack_rx := req_ack_rx (fl_dev st i) + 1\<rparr>) st"

definition send_res_ack :: "nat \<Rightarrow> flow_state \<Rightarrow> flow_state" where
  "send_res_ack i st =
     (let st1 = send_ipc_irq (mask2int (res_ack_mask i)) st; d = fl_dev st1 i
      in set_fl_dev i (d\<lparr>req_ack_rx := req_ack_rx d - 1\<rparr>) st1)"

subsection \<open>Flow control of the SBD rings\<close>

definition sbd_txq_stop :: "nat \<Rightarrow> flow_state \<Rightarrow> flow_state" where
  "sbd_txq_stop i st =
     (if fl_is_ps_ch st (ucast (sb_ch (fl_rbs st ! i))) \<and> sb_busy (fl_rbs st ! i) = 0 then
        (if \<not> bit (fl_mask st) TXQ_STOP_MASK then
           (let st1 = set_rb_busy i 1 st
            in stop_net_ifaces (st1\<lparr>fl_mask := Bit_Operations.set_bit TXQ_STOP_MASK (fl_mask st1)\<rparr>))
         else st)
      else st)"

definition sbd_txq_start :: "nat \<Rightarrow> flow_state \<Rightarrow> flow_state" where
  "sbd_txq_start i st =
     (if fl_is_ps_ch st (ucast (sb_ch (fl_rbs st ! i))) \<and> sb_busy (fl_rbs st ! i) > 0 then
        (if bit (fl_mask st) TXQ_STOP_MASK then
           (let st1 = set_rb_busy i 0 st;
                st2 = st1\<lparr>fl_mask := Bit_Operations.unset_bit TXQ_STOP_MASK (fl_mask st1)\<rparr>
            in if fl_mask st2 = 0 then resume_net_ifaces st2 else st2)
         else st)
      else st)"

definition sbd_check_tx_flow_ctrl :: "nat \<Rightarrow> flow_state \<Rightarrow> int \<times> flow_state" where
  "sbd_check_tx_flow_ctrl i st =
     (let busy_count = sb_busy (fl_rbs st ! i)
      in if rb_empty (fl_rbs st ! i) then (0, sbd_txq_start i st)
         else
           (let st1 = set_rb_busy i (c_int (busy_count + 1)) st
            in if fl_online st1 \<and> count_flood busy_count then (- ETIME, st1) else (- EBUSY, st1)))"

subsection \<open>Transmit functions and timers\<close>

text \<open>
  The loops of the two timer functions. The result has \<^verbatim>\<open>need_schedule\<close>, the mask of interrupts, and whether
  the loop was left by \<^verbatim>\<open>goto exit\<close>; \<open>None\<close> is a fault of a copy.
\<close>

fun tx_timer_loop :: "nat list \<Rightarrow> bool \<Rightarrow> u16 \<Rightarrow> flow_state \<Rightarrow> (bool \<times> u16 \<times> bool \<times> flow_state) option" where
  "tx_timer_loop [] need m st = Some (need, m, False, st)"
| "tx_timer_loop (i # js) need m st =
     (let (ret, st1) = (if cq_busy (txq (fl_dev st i)) \<noteq> 0 then check_tx_flow_ctrl i st else (0, st))
      in if ret < 0 then
           (if ret = - EBUSY \<or> ret = - ETIME then tx_timer_loop js True m st1
            else Some (False, m, True, link_trigger_cp_crash ''check_tx_flow_ctrl error'' st1))
         else
           (case tx_frames_to_dev 0 (fl_dev st1 i) of
              None \<Rightarrow> None
            | Some (ret2, d) \<Rightarrow>
                let st2 = set_fl_dev i d st1
                in if ret2 < 0 then
                     (if ret2 = - EBUSY \<or> ret2 = - ENOSPC then tx_timer_loop js True (m OR msg_mask i) (txq_stop i st2)
                      else Some (False, m, True, link_trigger_cp_crash ''tx_frames_to_dev error'' st2))
                   else tx_timer_loop js (need \<or> skb_txq d \<noteq> []) (if ret2 > 0 then m OR msg_mask i else m) st2))"

text \<open>A timer function runs when its timer has expired, and starts it again when there is more to do.\<close>

definition tx_timer_func :: "flow_state \<Rightarrow> flow_state option" where
  "tx_timer_func st0 =
     (let st = st0\<lparr>fl_timer := False\<rparr>
      in if \<not> ipc_active st then Some st
         else
           (case tx_timer_loop [0..<length (l_dev (fl_link st))] False 0 st of
              None \<Rightarrow> None
            | Some (need, m, left, st1) \<Rightarrow>
                let st2 = (if \<not> left \<and> m \<noteq> 0 then send_ipc_irq (mask2int m) st1 else st1)
                in Some (if need then st2\<lparr>fl_timer := True\<rparr> else st2)))"

definition tx_func :: "nat \<Rightarrow> u8 list \<Rightarrow> flow_state \<Rightarrow> (int \<times> flow_state) option" where
  "tx_func i skb st =
     (if \<not> ipc_active st then Some (1, st)
      else
        (case txq_write (fl_dev st i) skb of
           None \<Rightarrow> None
         | Some (ret, d) \<Rightarrow>
             let st1 = set_fl_dev i d st
             in if ret < 0 then
                  (if ret = - EBUSY \<or> ret = - ENOSPC then
                     (let st2 = set_fl_dev i (d\<lparr>skb_txq := skb # skb_txq d\<rparr>) st1;
                          st3 = send_ipc_irq (mask2int (msg_mask i)) (txq_stop i st2)
                      in Some (- 1, st3\<lparr>fl_timer := True\<rparr>))
                   else Some (1, link_trigger_cp_crash ''tx_frames_to_dev error'' st1))
                else Some (1, send_ipc_irq (mask2int (msg_mask i)) st1)))"

text \<open>
  \<^verbatim>\<open>xmit_ipc_to_dev\<close>: the frame is queued, and unless the timer will do it, up to \<^verbatim>\<open>MIF_TX_QUOTA\<close> queued frames
  are sent.
\<close>

fun xmit_dev_loop :: "nat \<Rightarrow> nat \<Rightarrow> flow_state \<Rightarrow> flow_state option" where
  "xmit_dev_loop 0 i st = Some st"
| "xmit_dev_loop (Suc quota) i st =
     (case skb_txq (fl_dev st i) of
        [] \<Rightarrow> Some st
      | skb # rest \<Rightarrow>
          (case tx_func i skb (set_fl_dev i ((fl_dev st i)\<lparr>skb_txq := rest\<rparr>) st) of
             None \<Rightarrow> None
           | Some (ret2, st1) \<Rightarrow> if ret2 < 0 then Some st1 else xmit_dev_loop quota i st1))"

definition xmit_ipc_to_dev :: "nat \<Rightarrow> u8 list \<Rightarrow> flow_state \<Rightarrow> (int \<times> flow_state) option" where
  "xmit_ipc_to_dev i skb st =
     (if length (skb_txq (fl_dev st i)) \<ge> 1024 then Some (- EBUSY, st)
      else
        (let st1 = set_fl_dev i ((fl_dev st i)\<lparr>skb_txq := skb_txq (fl_dev st i) @ [skb]\<rparr>) st
         in if fl_timer st1 then Some (int (length skb), st1)
            else map_option (\<lambda>st2. (int (length skb), st2)) (xmit_dev_loop 64 i st1)))"

fun sbd_tx_timer_loop :: "nat list \<Rightarrow> bool \<Rightarrow> u16 \<Rightarrow> flow_state \<Rightarrow> (bool \<times> u16 \<times> bool \<times> flow_state) option" where
  "sbd_tx_timer_loop [] need m st = Some (need, m, False, st)"
| "sbd_tx_timer_loop (i # js) need m st =
     (let (ret, st1) = (if sb_busy (fl_rbs st ! i) \<noteq> 0 then sbd_check_tx_flow_ctrl i st else (0, st))
      in if ret < 0 then
           (if ret = - EBUSY \<or> ret = - ETIME then sbd_tx_timer_loop js True m st1
            else Some (False, m, True, link_trigger_cp_crash ''check_sbd_tx_flow_ctrl error'' st1))
         else
           (case tx_frames_to_rb (fl_rbs st1 ! i) of
              None \<Rightarrow> None
            | Some (ret2, rb) \<Rightarrow>
                let st2 = set_fl_rb i rb st1
                in if ret2 < 0 then
                     (if ret2 = - EBUSY \<or> ret2 = - ENOSPC then sbd_tx_timer_loop js True 1 (sbd_txq_stop i st2)
                      else Some (False, m, True, link_trigger_cp_crash ''tx_frames_to_rb error'' st2))
                   else sbd_tx_timer_loop js (need \<or> sb_skb_q rb \<noteq> []) (if ret2 > 0 then 1 else m) st2))"

definition sbd_tx_timer_func :: "flow_state \<Rightarrow> flow_state option" where
  "sbd_tx_timer_func st0 =
     (let st = st0\<lparr>fl_sbd_timer := False\<rparr>
      in if \<not> ipc_active st then Some st
         else
           (case sbd_tx_timer_loop [0..<length (fl_rbs st)] False 0 st of
              None \<Rightarrow> None
            | Some (need, m, left, st1) \<Rightarrow>
                let (need2, st2) =
                  (if \<not> left \<and> m \<noteq> 0 then
                     (if \<not> ipc_active st1 then (False, st1) else (need, send_ipc_irq (mask2int m) st1))
                   else (need, st1))
                in Some (if need2 then st2\<lparr>fl_sbd_timer := True\<rparr> else st2)))"

definition sbd_tx_func :: "nat \<Rightarrow> tx_skb \<Rightarrow> flow_state \<Rightarrow> (int \<times> flow_state) option" where
  "sbd_tx_func i skb st =
     (if \<not> ipc_active st then Some (1, st)
      else
        (case sbd_pio_tx (fl_rbs st ! i) skb of
           None \<Rightarrow> None
         | Some (ret, rb) \<Rightarrow>
             let st1 = set_fl_rb i rb st
             in if ret < 0 then
                  (if ret = - EBUSY \<or> ret = - ENOSPC then
                     (let st2 = set_fl_rb i (rb\<lparr>sb_skb_q := skb # sb_skb_q rb\<rparr>) st1;
                          st3 = send_ipc_irq (mask2int 1) st2
                      in Some (- 1, st3\<lparr>fl_sbd_timer := True\<rparr>))
                   else Some (1, link_trigger_cp_crash ''tx_frames_to_rb error'' st1))
                else if \<not> ipc_active st1 then Some (1, st1)
                else Some (1, send_ipc_irq (mask2int 1) st1)))"

fun xmit_rb_loop :: "nat \<Rightarrow> nat \<Rightarrow> flow_state \<Rightarrow> flow_state option" where
  "xmit_rb_loop 0 i st = Some st"
| "xmit_rb_loop (Suc quota) i st =
     (case sb_skb_q (fl_rbs st ! i) of
        [] \<Rightarrow> Some st
      | skb # rest \<Rightarrow>
          (case sbd_tx_func i skb (set_fl_rb i ((fl_rbs st ! i)\<lparr>sb_skb_q := rest\<rparr>) st) of
             None \<Rightarrow> None
           | Some (ret2, st1) \<Rightarrow> if ret2 < 0 then Some st1 else xmit_rb_loop quota i st1))"

text \<open>A packet longer than a slot is cut to the size of the slot.\<close>

definition xmit_ipc_to_rb :: "nat \<Rightarrow> tx_skb \<Rightarrow> flow_state \<Rightarrow> (int \<times> flow_state) option" where
  "xmit_ipc_to_rb i skb st =
     (let rb = fl_rbs st ! i
      in if length (sb_skb_q rb) \<ge> 1024 then Some (- EBUSY, st)
         else
           (let skb1 = skb\<lparr>t_data := take (unat (sb_buff_size rb)) (t_data skb)\<rparr>; ret = int (length (t_data skb1));
                st1 = set_fl_rb i (rb\<lparr>sb_skb_q := sb_skb_q rb @ [skb1]\<rparr>) st
            in if fl_sbd_timer st1 then Some (ret, st1)
               else map_option (\<lambda>st2. (ret, st2)) (xmit_rb_loop 64 i st1)))"

text \<open>
  What the handler of \<^verbatim>\<open>CMD_PHONE_START\<close> does to the link when the modem has booted: the legacy link is
  initialised and the flag of stopped interfaces is cleared. The second component is \<^verbatim>\<open>err\<close>.
\<close>

definition phone_start_init :: "(u32 \<times> u32 \<Rightarrow> u32 \<times> u32) \<Rightarrow> flow_state \<Rightarrow> flow_state \<times> int" where
  "phone_start_init cp st =
     (let (err, bl) = init_legacy_link (fl_magic_ipc st) cp (fl_link st); st1 = st\<lparr>fl_link := bl\<rparr>
      in if err \<noteq> 0 then (st1, err) else (st1\<lparr>fl_stopped := False\<rparr>, 0))"

text \<open>Closing the link to the modem; the state of the link and the timer for the acknowledgement of a crash are left out.\<close>

definition purge_txq :: "flow_state \<Rightarrow> flow_state" where
  "purge_txq st = st\<lparr>fl_rbs := map (\<lambda>rb. rb\<lparr>sb_skb_q := []\<rparr>) (fl_rbs st),
     fl_link := (fl_link st)\<lparr>l_dev := map (\<lambda>d. d\<lparr>skb_txq := []\<rparr>) (l_dev (fl_link st))\<rparr>\<rparr>"

definition shmem_close_tx :: "flow_state \<Rightarrow> flow_state" where
  "shmem_close_tx st = purge_txq (stop_net_ifaces st)"

end
