(* ===== verification/ModemFlowInv.thy ===== *)
theory ModemFlowInv
  imports ModemFlow
begin

text \<open>
  The invariant of transmit flow control. The stop bit of the mask is set exactly while one queue is
  under flow control, the network interfaces are stopped exactly while the mask is not empty (but for
  a crash, which stops them for good), and the flag agrees with the subqueues. Every handler keeps it.
\<close>

named_theorems flow \<open>how the operations of flow control change the fields of the state\<close>

subsection \<open>Busy counters\<close>

definition dev_busies :: "flow_state \<Rightarrow> int list" where
  "dev_busies st = map (\<lambda>d. cq_busy (txq d)) (l_dev (fl_link st))"

definition rb_busies :: "flow_state \<Rightarrow> int list" where
  "rb_busies st = map sb_busy (fl_rbs st)"

definition rb_chs :: "flow_state \<Rightarrow> u16 list" where
  "rb_chs st = map sb_ch (fl_rbs st)"

definition nbusy :: "int list \<Rightarrow> nat" where
  "nbusy bs = length (filter (\<lambda>b. 0 < b) bs)"

lemma nbusy_append [simp]: "nbusy (xs @ ys) = nbusy xs + nbusy ys"
  by (simp add: nbusy_def)

lemma nbusy_Cons [simp]: "nbusy (x # xs) = (if 0 < x then 1 else 0) + nbusy xs"
  by (simp add: nbusy_def)

lemma nbusy_update:
  assumes "i < length bs"
  shows "nbusy (bs[i := b]) + (if 0 < bs ! i then 1 else 0) = nbusy bs + (if 0 < b then 1 else 0)"
  using assms
proof (induction bs arbitrary: i)
  case (Cons x bs)
  show ?case
  proof (cases i)
    case (Suc j)
    then have "nbusy (bs[j := b]) + (if 0 < bs ! j then 1 else 0) = nbusy bs + (if 0 < b then 1 else 0)"
      using Cons.IH [of j] Cons.prems by simp
    then show ?thesis using Suc by simp
  qed simp
qed simp

lemma nbusy_pos: "i < length bs \<Longrightarrow> 0 < bs ! i \<Longrightarrow> 0 < nbusy bs"
  by (induction bs arbitrary: i) (auto simp: nth_Cons split: nat.splits)

text \<open>The part of the state that flow control is about.\<close>

record flow_view =
  v_devs :: "int list"
  v_rbs :: "int list"
  v_ps :: "bool list"
  v_mask :: u64
  v_stopped :: bool
  v_subqueues :: bool
  v_forced :: bool

definition fview :: "flow_state \<Rightarrow> flow_view" where
  "fview st = \<lparr>v_devs = dev_busies st, v_rbs = rb_busies st, v_ps = map (\<lambda>c. fl_is_ps_ch st (ucast c)) (rb_chs st),
     v_mask = fl_mask st, v_stopped = fl_stopped st, v_subqueues = fl_subqueues st, v_forced = (fl_crashes st \<noteq> [])\<rparr>"

text \<open>Only the second legacy queue and the rings of network channels are ever under flow control, one of them at most.\<close>

definition busy_ok :: "int list \<Rightarrow> int list \<Rightarrow> bool list \<Rightarrow> bool \<Rightarrow> bool" where
  "busy_ok ds rs ps stop \<longleftrightarrow> 2 \<le> length ds \<and> length ps = length rs \<and> (\<forall>i < length ds. 0 \<le> ds ! i \<and> (i \<noteq> 1 \<longrightarrow> ds ! i = 0))
     \<and> (\<forall>i < length rs. 0 \<le> rs ! i \<and> (\<not> ps ! i \<longrightarrow> rs ! i = 0)) \<and> nbusy ds + nbusy rs = (if stop then 1 else 0)"

definition mask_ok :: "u64 \<Rightarrow> bool" where
  "mask_ok m \<longleftrightarrow> (\<forall>n. bit m n \<longrightarrow> n = 1 \<or> n = 2)"

definition ifaces_ok :: "u64 \<Rightarrow> bool \<Rightarrow> bool \<Rightarrow> bool \<Rightarrow> bool" where
  "ifaces_ok m stopped subq forced \<longleftrightarrow> subq = stopped \<and> (m \<noteq> 0 \<longrightarrow> stopped) \<and> (\<not> forced \<and> stopped \<longrightarrow> m \<noteq> 0)"

definition view_inv :: "flow_view \<Rightarrow> bool" where
  "view_inv v \<longleftrightarrow> busy_ok (v_devs v) (v_rbs v) (v_ps v) (bit (v_mask v) 1) \<and> mask_ok (v_mask v)
     \<and> ifaces_ok (v_mask v) (v_stopped v) (v_subqueues v) (v_forced v)"

text \<open>The first crash is always recorded.\<close>

definition crash_ok :: "flow_state \<Rightarrow> bool" where
  "crash_ok st \<longleftrightarrow> (fl_crashes st = [] \<longrightarrow> fl_forced_crash st = 0)"

definition flow_inv :: "flow_state \<Rightarrow> bool" where
  "flow_inv st \<longleftrightarrow> view_inv (fview st) \<and> crash_ok st"

subsection \<open>Changes of the view\<close>

definition v_stop_ifaces :: "flow_view \<Rightarrow> flow_view" where
  "v_stop_ifaces v = (if \<not> v_stopped v then v\<lparr>v_subqueues := True, v_stopped := True\<rparr> else v)"

definition v_resume_ifaces :: "flow_view \<Rightarrow> flow_view" where
  "v_resume_ifaces v = (if v_stopped v then v\<lparr>v_subqueues := False, v_stopped := False\<rparr> else v)"

definition v_set :: "nat \<Rightarrow> flow_view \<Rightarrow> flow_view" where
  "v_set n v = v_stop_ifaces (v\<lparr>v_mask := Bit_Operations.set_bit n (v_mask v)\<rparr>)"

definition v_clear :: "nat \<Rightarrow> flow_view \<Rightarrow> flow_view" where
  "v_clear n v =
     (let v1 = v\<lparr>v_mask := Bit_Operations.unset_bit n (v_mask v)\<rparr> in if v_mask v1 = 0 then v_resume_ifaces v1 else v1)"

text \<open>The steps a handler is made of, on the view.\<close>

inductive view_step :: "flow_view \<Rightarrow> flow_view \<Rightarrow> bool" where
  same: "view_step v v"
| suspend: "view_step v (v_set 2 v)"
| resume: "bit (v_mask v) 2 \<Longrightarrow> view_step v (v_clear 2 v)"
| stop_dev: "v_devs v ! 1 = 0 \<Longrightarrow> \<not> bit (v_mask v) 1 \<Longrightarrow> view_step v (v_set 1 (v\<lparr>v_devs := (v_devs v)[1 := 1]\<rparr>))"
| start_dev: "0 < v_devs v ! 1 \<Longrightarrow> bit (v_mask v) 1 \<Longrightarrow> view_step v (v_clear 1 (v\<lparr>v_devs := (v_devs v)[1 := 0]\<rparr>))"
| busy_dev: "v_devs v ! i \<noteq> 0 \<Longrightarrow> v_devs v ! i < 2 ^ 31 - 1 \<Longrightarrow> i < length (v_devs v) \<Longrightarrow>
    view_step v (v\<lparr>v_devs := (v_devs v)[i := c_int (v_devs v ! i + 1)]\<rparr>)"
| stop_rb: "i < length (v_rbs v) \<Longrightarrow> v_ps v ! i \<Longrightarrow> v_rbs v ! i = 0 \<Longrightarrow> \<not> bit (v_mask v) 1 \<Longrightarrow>
    view_step v (v_set 1 (v\<lparr>v_rbs := (v_rbs v)[i := 1]\<rparr>))"
| start_rb: "i < length (v_rbs v) \<Longrightarrow> 0 < v_rbs v ! i \<Longrightarrow> bit (v_mask v) 1 \<Longrightarrow>
    view_step v (v_clear 1 (v\<lparr>v_rbs := (v_rbs v)[i := 0]\<rparr>))"
| busy_rb: "v_rbs v ! i \<noteq> 0 \<Longrightarrow> v_rbs v ! i < 2 ^ 31 - 1 \<Longrightarrow> i < length (v_rbs v) \<Longrightarrow>
    view_step v (v\<lparr>v_rbs := (v_rbs v)[i := c_int (v_rbs v ! i + 1)]\<rparr>)"
| crash: "view_step v (v_stop_ifaces (v\<lparr>v_forced := True\<rparr>))"
| crash_again: "view_step v (v\<lparr>v_forced := True\<rparr>)"

lemma mask_bits:
  "bit (Bit_Operations.set_bit n m :: u64) k \<longleftrightarrow> (k = n \<and> k < 64) \<or> bit m k"
  "bit (Bit_Operations.unset_bit n m :: u64) k \<longleftrightarrow> bit m k \<and> k \<noteq> n"
  by (auto simp: bit_simps)

lemma mask_nonzero: "(m :: u64) \<noteq> 0 \<longleftrightarrow> (\<exists>n. bit m n)"
  by (metis bit_0_eq bit_eq_iff bot_apply bot_bool_def)

lemma busy_stop_dev: "busy_ok ds rs ps False \<Longrightarrow> busy_ok (ds[1 := 1]) rs ps True"
  using nbusy_update [of 1 ds 1] nbusy_pos [of 1 ds] by (auto simp: busy_ok_def nth_list_update split: if_splits)

lemma busy_start_dev: "busy_ok ds rs ps True \<Longrightarrow> 0 < ds ! 1 \<Longrightarrow> busy_ok (ds[1 := 0]) rs ps False"
  using nbusy_update [of 1 ds 0] by (auto simp: busy_ok_def nth_list_update)

lemma busy_inc_dev: "busy_ok ds rs ps stop \<Longrightarrow> i < length ds \<Longrightarrow> ds ! i \<noteq> 0 \<Longrightarrow> ds ! i < 2 ^ 31 - 1 \<Longrightarrow> busy_ok (ds[i := c_int (ds ! i + 1)]) rs ps stop"
proof -
  assume a: "busy_ok ds rs ps stop" "i < length ds" "ds ! i \<noteq> 0" and b: "ds ! i < 2 ^ 31 - 1"
  then have p: "0 < ds ! i" by (auto simp: busy_ok_def less_le)
  then have "c_int (ds ! i + 1) = ds ! i + 1" using b by (intro c_int_small) simp_all
  then show ?thesis using p a nbusy_update [of i ds "ds ! i + 1"] by (auto simp: busy_ok_def nth_list_update)
qed

lemma busy_stop_rb: "busy_ok ds rs ps False \<Longrightarrow> i < length rs \<Longrightarrow> ps ! i \<Longrightarrow> busy_ok ds (rs[i := 1]) ps True"
  using nbusy_update [of i rs 1] nbusy_pos [of i rs] by (auto simp: busy_ok_def nth_list_update split: if_splits)

lemma busy_start_rb: "busy_ok ds rs ps True \<Longrightarrow> i < length rs \<Longrightarrow> 0 < rs ! i \<Longrightarrow> busy_ok ds (rs[i := 0]) ps False"
  using nbusy_update [of i rs 0] by (auto simp: busy_ok_def nth_list_update)

lemma busy_inc_rb: "busy_ok ds rs ps stop \<Longrightarrow> i < length rs \<Longrightarrow> rs ! i \<noteq> 0 \<Longrightarrow> rs ! i < 2 ^ 31 - 1 \<Longrightarrow> busy_ok ds (rs[i := c_int (rs ! i + 1)]) ps stop"
proof -
  assume a: "busy_ok ds rs ps stop" "i < length rs" "rs ! i \<noteq> 0" and b: "rs ! i < 2 ^ 31 - 1"
  then have p: "0 < rs ! i" by (auto simp: busy_ok_def less_le)
  then have "c_int (rs ! i + 1) = rs ! i + 1" using b by (intro c_int_small) simp_all
  then show ?thesis using p a nbusy_update [of i rs "rs ! i + 1"] by (auto simp: busy_ok_def nth_list_update)
qed

lemma view_inv_set:
  assumes "n = 1 \<or> n = 2" and "mask_ok (v_mask v)" and "ifaces_ok (v_mask v) (v_stopped v) (v_subqueues v) (v_forced v)"
    and "busy_ok (v_devs v) (v_rbs v) (v_ps v) (n = 1 \<or> bit (v_mask v) 1)"
  shows "view_inv (v_set n v)"
proof -
  have "bit (Bit_Operations.set_bit n (v_mask v)) n" using assms(1) by (auto simp: mask_bits)
  then have "Bit_Operations.set_bit n (v_mask v) \<noteq> 0" by (auto simp: mask_nonzero)
  moreover have "mask_ok (Bit_Operations.set_bit n (v_mask v))" using assms(1,2) by (auto simp: mask_ok_def mask_bits)
  moreover have "bit (Bit_Operations.set_bit n (v_mask v)) 1 \<longleftrightarrow> n = 1 \<or> bit (v_mask v) 1" by (auto simp: mask_bits)
  ultimately show ?thesis using assms(3,4) by (simp add: view_inv_def v_set_def v_stop_ifaces_def ifaces_ok_def)
qed

lemma view_inv_clear:
  assumes "mask_ok (v_mask v)" and "ifaces_ok (v_mask v) (v_stopped v) (v_subqueues v) (v_forced v)" and "v_mask v \<noteq> 0"
    and "busy_ok (v_devs v) (v_rbs v) (v_ps v) (bit (v_mask v) 1 \<and> n \<noteq> 1)"
  shows "view_inv (v_clear n v)"
proof -
  have "mask_ok (Bit_Operations.unset_bit n (v_mask v))" using assms(1) by (auto simp: mask_ok_def mask_bits)
  moreover have "bit (Bit_Operations.unset_bit n (v_mask v)) 1 \<longleftrightarrow> bit (v_mask v) 1 \<and> n \<noteq> 1" by (auto simp: mask_bits)
  ultimately show ?thesis
    using assms(2,3,4) by (auto simp: view_inv_def v_clear_def v_resume_ifaces_def ifaces_ok_def Let_def)
qed

lemma view_step_inv:
  assumes "view_step v v'" and "view_inv v"
  shows "view_inv v'"
  using assms
proof (induction rule: view_step.induct)
  case (same v)
  then show ?case .
next
  case (suspend v)
  then show ?case by (intro view_inv_set) (simp_all add: view_inv_def)
next
  case (resume v)
  then show ?case by (intro view_inv_clear) (auto simp: view_inv_def mask_nonzero)
next
  case (stop_dev v)
  then show ?case using busy_stop_dev by (intro view_inv_set) (auto simp: view_inv_def)
next
  case (start_dev v)
  then show ?case using busy_start_dev by (intro view_inv_clear) (auto simp: view_inv_def mask_nonzero)
next
  case (busy_dev v i)
  then show ?case by (simp add: view_inv_def busy_inc_dev)
next
  case (stop_rb i v)
  then show ?case by (intro view_inv_set) (simp_all add: view_inv_def busy_stop_rb)
next
  case (start_rb i v)
  then show ?case using busy_start_rb by (intro view_inv_clear) (auto simp: view_inv_def mask_nonzero)
next
  case (busy_rb v i)
  then show ?case by (simp add: view_inv_def busy_inc_rb)
next
  case (crash v)
  then show ?case by (simp add: view_inv_def v_stop_ifaces_def ifaces_ok_def)
next
  case (crash_again v)
  then show ?case by (simp add: view_inv_def ifaces_ok_def)
qed

end
