(* ===== verification/ModemFlowSteps.thy ===== *)
theory ModemFlowSteps
  imports ModemFlowInv
begin

text \<open>
  The handlers of flow control as sequences of steps on the view: whatever a handler does to the state is
  a sequence of the steps of \<open>view_step\<close>. Invariants of the view carry over to every handler.
\<close>

definition flow_to :: "flow_state \<Rightarrow> flow_state \<Rightarrow> bool" where
  "flow_to st st' \<longleftrightarrow> (crash_ok st \<longrightarrow> view_step\<^sup>*\<^sup>* (fview st) (fview st') \<and> crash_ok st')
     \<and> length (l_dev (fl_link st')) = length (l_dev (fl_link st)) \<and> length (fl_rbs st') = length (fl_rbs st)"

named_theorems flow_to \<open>what an operation does to the view\<close>

lemma flow_to_refl [simp]: "flow_to st st"
  by (simp add: flow_to_def)

lemma flow_to_trans [trans]: "flow_to st st1 \<Longrightarrow> flow_to st1 st2 \<Longrightarrow> flow_to st st2"
  by (auto simp: flow_to_def)

lemma flow_to_same:
  assumes "fview st' = fview st" and "fl_forced_crash st' = fl_forced_crash st" and "fl_crashes st' = fl_crashes st"
  shows "flow_to st st'"
proof -
  have "length (v_devs (fview st')) = length (v_devs (fview st))" "length (v_rbs (fview st')) = length (v_rbs (fview st))"
    using assms(1) by simp_all
  then show ?thesis using assms by (simp add: flow_to_def crash_ok_def fview_def dev_busies_def rb_busies_def)
qed

lemma flow_to_step:
  assumes "view_step (fview st) (fview st')" and "fl_forced_crash st' = fl_forced_crash st" and "fl_crashes st' = fl_crashes st"
    and "length (l_dev (fl_link st')) = length (l_dev (fl_link st))" and "length (fl_rbs st') = length (fl_rbs st)"
  shows "flow_to st st'"
  using assms by (auto simp: flow_to_def crash_ok_def)

lemma flow_to_inv:
  assumes "flow_to st st'" and "flow_inv st"
  shows "flow_inv st'"
proof -
  have "view_step\<^sup>*\<^sup>* (fview st) (fview st')" "crash_ok st'" using assms by (auto simp: flow_to_def flow_inv_def)
  moreover have "view_inv (fview st')" using calculation(1) assms(2)
    by (induction rule: rtranclp_induct) (auto simp: flow_inv_def intro: view_step_inv)
  ultimately show ?thesis by (simp add: flow_inv_def)
qed

subsection \<open>Fields\<close>

lemma map_update_same: "f x = f (xs ! i) \<Longrightarrow> map f (xs[i := x]) = map f xs"
  by (cases "i < length xs") (simp_all add: map_update list_update_same_conv list_update_beyond)

lemma fview_same_dev [flow]:
  assumes "cq_busy (txq d) = cq_busy (txq (fl_dev st i))"
  shows "fview (set_fl_dev i d st) = fview st"
  using assms map_update_same [of "\<lambda>d. cq_busy (txq d)" d "l_dev (fl_link st)" i]
  by (simp add: fview_def set_fl_dev_def dev_busies_def rb_busies_def rb_chs_def fl_dev_def)

lemma fview_same_rb [flow]:
  assumes "sb_busy rb = sb_busy (fl_rbs st ! i)" and "sb_ch rb = sb_ch (fl_rbs st ! i)"
  shows "fview (set_fl_rb i rb st) = fview st"
  using map_update_same [OF assms(1)] map_update_same [OF assms(2)]
  by (simp add: fview_def set_fl_rb_def dev_busies_def rb_busies_def rb_chs_def del: map_map)

lemma fview_dev_busy [flow]:
  assumes "i < length (l_dev (fl_link st))"
  shows "fview (set_dev_busy i b st) = (fview st)\<lparr>v_devs := (v_devs (fview st))[i := b]\<rparr>"
  using assms by (simp add: fview_def set_dev_busy_def set_fl_dev_def dev_busies_def rb_busies_def rb_chs_def map_update)

lemma fview_rb_busy [flow]:
  assumes "i < length (fl_rbs st)"
  shows "fview (set_rb_busy i b st) = (fview st)\<lparr>v_rbs := (v_rbs (fview st))[i := b]\<rparr>"
proof -
  have "(map sb_ch (fl_rbs st))[i := sb_ch (fl_rbs st ! i)] = map sb_ch (fl_rbs st)"
    using assms by (simp add: list_update_same_conv)
  then show ?thesis by (simp add: fview_def set_rb_busy_def set_fl_rb_def dev_busies_def rb_busies_def rb_chs_def map_update)
qed

lemma fview_ifaces [flow]:
  "fview (stop_net_ifaces st) = v_stop_ifaces (fview st)" "fview (resume_net_ifaces st) = v_resume_ifaces (fview st)"
  by (simp_all add: fview_def stop_net_ifaces_def resume_net_ifaces_def v_stop_ifaces_def v_resume_ifaces_def
      dev_busies_def rb_busies_def rb_chs_def)

lemma fview_updates [flow]:
  "fview (st\<lparr>fl_mask := m\<rparr>) = (fview st)\<lparr>v_mask := m\<rparr>" "fview (send_ipc_irq v st) = fview st"
  "fview (st\<lparr>fl_timer := b\<rparr>) = fview st" "fview (st\<lparr>fl_sbd_timer := b\<rparr>) = fview st"
  by (simp_all add: fview_def send_ipc_irq_def dev_busies_def rb_busies_def rb_chs_def)

lemma fview_sel [simp]:
  "v_mask (fview st) = fl_mask st" "v_stopped (fview st) = fl_stopped st" "v_subqueues (fview st) = fl_subqueues st"
  "i < length (l_dev (fl_link st)) \<Longrightarrow> v_devs (fview st) ! i = cq_busy (txq (fl_dev st i))"
  "i < length (fl_rbs st) \<Longrightarrow> v_rbs (fview st) ! i = sb_busy (fl_rbs st ! i)"
  "i < length (fl_rbs st) \<Longrightarrow> v_ps (fview st) ! i = fl_is_ps_ch st (ucast (sb_ch (fl_rbs st ! i)))"
  "length (v_devs (fview st)) = length (l_dev (fl_link st))" "length (v_rbs (fview st)) = length (fl_rbs st)"
  by (simp_all add: fview_def dev_busies_def rb_busies_def rb_chs_def fl_dev_def)

lemma other_fields [simp]:
  "length (l_dev (fl_link (set_fl_dev i d st))) = length (l_dev (fl_link st))" "fl_rbs (set_fl_dev i d st) = fl_rbs st"
  "fl_forced_crash (set_fl_dev i d st) = fl_forced_crash st" "fl_mask (set_fl_dev i d st) = fl_mask st"
  "l_dev (fl_link (set_fl_rb i rb st)) = l_dev (fl_link st)" "length (fl_rbs (set_fl_rb i rb st)) = length (fl_rbs st)"
  "fl_forced_crash (set_fl_rb i rb st) = fl_forced_crash st" "fl_mask (set_fl_rb i rb st) = fl_mask st"
  "length (l_dev (fl_link (set_dev_busy i b st))) = length (l_dev (fl_link st))" "fl_rbs (set_dev_busy i b st) = fl_rbs st"
  "fl_forced_crash (set_dev_busy i b st) = fl_forced_crash st" "fl_mask (set_dev_busy i b st) = fl_mask st"
  "l_dev (fl_link (set_rb_busy i b st)) = l_dev (fl_link st)" "length (fl_rbs (set_rb_busy i b st)) = length (fl_rbs st)"
  "fl_forced_crash (set_rb_busy i b st) = fl_forced_crash st" "fl_mask (set_rb_busy i b st) = fl_mask st"
  "fl_link (stop_net_ifaces st) = fl_link st" "fl_link (resume_net_ifaces st) = fl_link st"
  "fl_rbs (stop_net_ifaces st) = fl_rbs st" "fl_rbs (resume_net_ifaces st) = fl_rbs st"
  "fl_forced_crash (stop_net_ifaces st) = fl_forced_crash st" "fl_forced_crash (resume_net_ifaces st) = fl_forced_crash st"
  "fl_link (send_ipc_irq v st) = fl_link st" "fl_rbs (send_ipc_irq v st) = fl_rbs st" "fl_forced_crash (send_ipc_irq v st) = fl_forced_crash st"
  "fl_crashes (set_fl_dev i d st) = fl_crashes st" "fl_crashes (set_fl_rb i rb st) = fl_crashes st" "fl_crashes (set_dev_busy i b st) = fl_crashes st"
  "fl_crashes (set_rb_busy i b st) = fl_crashes st" "fl_crashes (stop_net_ifaces st) = fl_crashes st" "fl_crashes (resume_net_ifaces st) = fl_crashes st"
  "fl_crashes (send_ipc_irq v st) = fl_crashes st"
  by (simp_all add: set_fl_dev_def set_fl_rb_def set_dev_busy_def set_rb_busy_def stop_net_ifaces_def resume_net_ifaces_def send_ipc_irq_def)

subsection \<open>Operations\<close>

lemma flow_to_irq [flow_to]: "flow_to st (send_ipc_irq v st)" "flow_to st (st\<lparr>fl_timer := b\<rparr>)" "flow_to st (st\<lparr>fl_sbd_timer := b\<rparr>)"
  by (rule flow_to_same; simp add: flow)+

lemma flow_to_dev [flow_to]: "cq_busy (txq d) = cq_busy (txq (fl_dev st i)) \<Longrightarrow> flow_to st (set_fl_dev i d st)"
  by (rule flow_to_same) (simp_all add: flow)

lemma flow_to_rb [flow_to]:
  "sb_busy rb = sb_busy (fl_rbs st ! i) \<Longrightarrow> sb_ch rb = sb_ch (fl_rbs st ! i) \<Longrightarrow> flow_to st (set_fl_rb i rb st)"
  by (rule flow_to_same) (simp_all add: flow)

lemma flow_to_req_ack [flow_to]: "flow_to st (send_req_ack i st)"
  unfolding send_req_ack_def Let_def by (rule flow_to_trans [OF flow_to_irq(1)], rule flow_to_dev) simp

lemma flow_to_acks [flow_to]: "flow_to st (recv_req_ack i st)" "flow_to st (send_res_ack i st)"
proof -
  show "flow_to st (recv_req_ack i st)" unfolding recv_req_ack_def by (rule flow_to_dev) simp
  show "flow_to st (send_res_ack i st)"
    unfolding send_res_ack_def Let_def by (rule flow_to_trans [OF flow_to_irq(1)], rule flow_to_dev) simp
qed

lemma flow_to_crash [flow_to]: "flow_to st (link_trigger_cp_crash msg st)"
proof -
  let ?st1 = "st\<lparr>fl_forced_crash := c_int (fl_forced_crash st + 1)\<rparr>"
  let ?st2 = "?st1\<lparr>fl_link := (fl_link ?st1)\<lparr>l_magic := fl_magic_crash ?st1, l_mem_access := 0\<rparr>, fl_crashes := fl_crashes ?st1 @ [msg]\<rparr>"
  have "fview ?st1 = fview st" "fview ?st2 = (fview st)\<lparr>v_forced := True\<rparr>"
    by (simp_all add: fview_def dev_busies_def rb_busies_def rb_chs_def)
  then have "flow_to st (stop_net_ifaces ?st2)" "fl_crashes st \<noteq> [] \<Longrightarrow> flow_to st ?st1"
    using view_step.crash [of "fview st"] by (auto simp: flow_to_def flow crash_ok_def)
  moreover have "flow_to st ?st1" if "fl_forced_crash ?st1 > 1"
  proof (cases "fl_crashes st = []")
    case True
    then have "\<not> crash_ok st" using that by (auto simp: crash_ok_def)
    then show ?thesis by (simp add: flow_to_def)
  qed (use calculation(2) in blast)
  ultimately show ?thesis by (simp add: link_trigger_cp_crash_def Let_def)
qed

lemma flow_to_txq_stop [flow_to]:
  assumes "1 < length (l_dev (fl_link st))"
  shows "flow_to st (txq_stop i st)"
proof (cases "i = 1 \<and> cq_busy (txq (fl_dev st 1)) = 0 \<and> \<not> bit (fl_mask st) 1")
  case True
  let ?st1 = "set_dev_busy 1 1 st"
  let ?st2 = "stop_net_ifaces (?st1\<lparr>fl_mask := Bit_Operations.set_bit 1 (fl_mask ?st1)\<rparr>)"
  have "fview ?st2 = v_set 1 ((fview st)\<lparr>v_devs := (v_devs (fview st))[1 := 1]\<rparr>)" using assms by (simp add: flow v_set_def)
  then have "flow_to st ?st2" using assms True view_step.stop_dev [of "fview st"] by (intro flow_to_step) simp_all
  also have "flow_to ?st2 (send_req_ack 1 ?st2)" by (rule flow_to_req_ack)
  finally show ?thesis using True by (simp add: txq_stop_def Let_def)
qed (auto simp: txq_stop_def)

lemma flow_to_txq_start [flow_to]:
  assumes "1 < length (l_dev (fl_link st))"
  shows "flow_to st (txq_start i st)"
proof (cases "i = 1 \<and> cq_busy (txq (fl_dev st 1)) > 0 \<and> bit (fl_mask st) 1")
  case True
  let ?st1 = "set_dev_busy 1 0 st"
  let ?st2 = "?st1\<lparr>fl_mask := Bit_Operations.unset_bit 1 (fl_mask ?st1)\<rparr>"
  let ?st3 = "if fl_mask ?st2 = 0 then resume_net_ifaces ?st2 else ?st2"
  have "fview ?st3 = v_clear 1 ((fview st)\<lparr>v_devs := (v_devs (fview st))[1 := 0]\<rparr>)" using assms by (simp add: flow v_clear_def Let_def)
  then have "flow_to st ?st3" using assms True view_step.start_dev [of "fview st"] by (intro flow_to_step) simp_all
  moreover have "txq_start i st = ?st3" using True by (simp add: txq_start_def Let_def)
  ultimately show ?thesis by (simp only:)
qed (auto simp: txq_start_def)

lemma flow_to_suspend [flow_to]: "flow_to st (tx_flowctrl_suspend st)"
proof -
  let ?st1 = "stop_net_ifaces (st\<lparr>fl_mask := Bit_Operations.set_bit 2 (fl_mask st)\<rparr>)"
  have "fview ?st1 = v_set 2 (fview st)" by (simp add: flow v_set_def)
  then have "flow_to st ?st1" using view_step.suspend [of "fview st"] by (intro flow_to_step) simp_all
  then show ?thesis by (simp add: tx_flowctrl_suspend_def)
qed

lemma flow_to_resume [flow_to]: "flow_to st (tx_flowctrl_resume st)"
proof (cases "bit (fl_mask st) 2")
  case True
  let ?st2 = "st\<lparr>fl_mask := Bit_Operations.unset_bit 2 (fl_mask st)\<rparr>"
  let ?st3 = "if fl_mask ?st2 = 0 then resume_net_ifaces ?st2 else ?st2"
  have "fview ?st3 = v_clear 2 (fview st)" by (simp add: flow v_clear_def Let_def)
  then have "flow_to st ?st3" using True view_step.resume [of "fview st"] by (intro flow_to_step) simp_all
  then show ?thesis using True by (simp add: tx_flowctrl_resume_def Let_def)
qed (simp add: tx_flowctrl_resume_def)

lemma flow_to_check [flow_to]:
  assumes "1 < length (l_dev (fl_link st))" and "i < length (l_dev (fl_link st))" and "cq_busy (txq (fl_dev st i)) \<noteq> 0"
    and "cq_busy (txq (fl_dev st i)) < 2 ^ 31 - 1" and "check_tx_flow_ctrl i st = (ret, st')"
  shows "flow_to st st'"
proof -
  let ?b = "cq_busy (txq (fl_dev st i))"
  let ?st1 = "set_dev_busy i (c_int (?b + 1)) st"
  have to1: "flow_to st ?st1"
    using assms(2-4) view_step.busy_dev [of "fview st" i] by (intro flow_to_step) (simp_all add: flow)
  have "flow_to st (send_req_ack i ?st1)" by (rule flow_to_trans [OF to1 flow_to_req_ack])
  then show ?thesis
    using assms(5) to1 flow_to_txq_start [OF assms(1)] by (auto simp: check_tx_flow_ctrl_def Let_def split: if_splits)
qed

lemma flow_to_res_ack [flow_to]:
  assumes "1 < length (l_dev (fl_link st))"
  shows "flow_to st (recv_res_ack i st)"
  unfolding recv_res_ack_def by (rule flow_to_trans [OF flow_to_dev flow_to_txq_start]) (use assms in simp_all)

lemma flow_to_sbd_stop [flow_to]:
  assumes "i < length (fl_rbs st)"
  shows "flow_to st (sbd_txq_stop i st)"
proof (cases "fl_is_ps_ch st (ucast (sb_ch (fl_rbs st ! i))) \<and> sb_busy (fl_rbs st ! i) = 0 \<and> \<not> bit (fl_mask st) 1")
  case True
  let ?st1 = "set_rb_busy i 1 st"
  let ?st2 = "stop_net_ifaces (?st1\<lparr>fl_mask := Bit_Operations.set_bit 1 (fl_mask ?st1)\<rparr>)"
  have "fview ?st2 = v_set 1 ((fview st)\<lparr>v_rbs := (v_rbs (fview st))[i := 1]\<rparr>)" using assms by (simp add: flow v_set_def)
  then have "flow_to st ?st2" using assms True view_step.stop_rb [of i "fview st"] by (intro flow_to_step) simp_all
  then show ?thesis using True by (simp add: sbd_txq_stop_def Let_def)
qed (auto simp: sbd_txq_stop_def)

lemma flow_to_sbd_start [flow_to]:
  assumes "i < length (fl_rbs st)"
  shows "flow_to st (sbd_txq_start i st)"
proof (cases "fl_is_ps_ch st (ucast (sb_ch (fl_rbs st ! i))) \<and> sb_busy (fl_rbs st ! i) > 0 \<and> bit (fl_mask st) 1")
  case True
  let ?st1 = "set_rb_busy i 0 st"
  let ?st2 = "?st1\<lparr>fl_mask := Bit_Operations.unset_bit 1 (fl_mask ?st1)\<rparr>"
  let ?st3 = "if fl_mask ?st2 = 0 then resume_net_ifaces ?st2 else ?st2"
  have "fview ?st3 = v_clear 1 ((fview st)\<lparr>v_rbs := (v_rbs (fview st))[i := 0]\<rparr>)" using assms by (simp add: flow v_clear_def Let_def)
  then have "flow_to st ?st3" using assms True view_step.start_rb [of i "fview st"] by (intro flow_to_step) simp_all
  moreover have "sbd_txq_start i st = ?st3" using True by (simp add: sbd_txq_start_def Let_def)
  ultimately show ?thesis by (simp only:)
qed (auto simp: sbd_txq_start_def)

lemma flow_to_sbd_check [flow_to]:
  assumes "i < length (fl_rbs st)" and "sb_busy (fl_rbs st ! i) \<noteq> 0" and "sb_busy (fl_rbs st ! i) < 2 ^ 31 - 1" and "sbd_check_tx_flow_ctrl i st = (ret, st')"
  shows "flow_to st st'"
proof -
  have "flow_to st (set_rb_busy i (c_int (sb_busy (fl_rbs st ! i) + 1)) st)"
    using assms view_step.busy_rb [of "fview st" i] by (intro flow_to_step) (simp_all add: flow)
  then show ?thesis
    using assms flow_to_sbd_start [OF assms(1)] by (auto simp: sbd_check_tx_flow_ctrl_def Let_def split: if_splits)
qed

subsection \<open>Handlers\<close>

lemma txq_write_fields:
  assumes "txq_write dev skb = Some (ret, dev')"
  shows "cq_busy (txq dev') = cq_busy (txq dev)" "skb_txq dev' = skb_txq dev"
  using assms by (auto simp: txq_write_def cq_commit_def Let_def split: if_splits option.splits)

lemma tx_frames_busy:
  assumes "tx_frames_to_dev tx dev = Some (ret, dev')"
  shows "cq_busy (txq dev') = cq_busy (txq dev)"
  using assms
proof (induction "skb_txq dev" arbitrary: tx dev)
  case Nil
  then show ?case by (simp add: tx_frames_to_dev.simps [of tx dev])
next
  case (Cons f fs)
  let ?d = "dev\<lparr>skb_txq := fs\<rparr>"
  have q: "skb_txq dev = f # fs" using Cons.hyps(2) by simp
  obtain r d1 where w: "txq_write ?d f = Some (r, d1)"
    using Cons.prems q by (cases "txq_write ?d f") (auto simp: tx_frames_to_dev.simps [of tx dev])
  note d1 = txq_write_fields [OF w]
  show ?case
  proof (cases "r < 0")
    case True
    then show ?thesis using Cons.prems q w d1 by (auto simp: tx_frames_to_dev.simps [of tx dev])
  next
    case False
    then have "tx_frames_to_dev (tx + r) d1 = Some (ret, dev')"
      using Cons.prems q w by (simp add: tx_frames_to_dev.simps [of tx dev])
    then show ?thesis using Cons.hyps(1) [of d1] d1 by simp
  qed
qed

lemma sbd_pio_tx_fields:
  assumes "sbd_pio_tx rb skb = Some (ret, rb')"
  shows "sb_busy rb' = sb_busy rb" "sb_ch rb' = sb_ch rb"
  using assms by (auto simp: sbd_pio_tx_def Let_def split: if_splits option.splits)

lemma tx_rb_loop_fields:
  assumes "tx_rb_loop q tx rb = Some (ret, rb')"
  shows "sb_busy rb' = sb_busy rb \<and> sb_ch rb' = sb_ch rb"
  using assms
  by (induction q tx rb rule: tx_rb_loop.induct) (auto split: option.splits if_splits simp: sbd_pio_tx_fields)

lemma flow_to_len: "flow_to st st' \<Longrightarrow> length (l_dev (fl_link st')) = length (l_dev (fl_link st))"
    "flow_to st st' \<Longrightarrow> length (fl_rbs st') = length (fl_rbs st)"
  by (auto simp: flow_to_def)

text \<open>A round of a timer changes one queue only.\<close>

lemma round_frame:
  "j \<noteq> i \<Longrightarrow> fl_dev (set_fl_dev i d st) j = fl_dev st j" "j \<noteq> i \<Longrightarrow> fl_dev (txq_stop i st) j = fl_dev st j"
  "j \<noteq> i \<Longrightarrow> check_tx_flow_ctrl i st = (ret, st') \<Longrightarrow> fl_dev st' j = fl_dev st j"
  "j \<noteq> i \<Longrightarrow> fl_rbs (set_fl_rb i rb st) ! j = fl_rbs st ! j" "j \<noteq> i \<Longrightarrow> fl_rbs (sbd_txq_stop i st) ! j = fl_rbs st ! j"
  "j \<noteq> i \<Longrightarrow> sbd_check_tx_flow_ctrl i st = (ret, st') \<Longrightarrow> fl_rbs st' ! j = fl_rbs st ! j"
  by (auto simp: fl_dev_def set_fl_dev_def set_dev_busy_def txq_stop_def txq_start_def check_tx_flow_ctrl_def send_req_ack_def send_ipc_irq_def
      stop_net_ifaces_def resume_net_ifaces_def set_fl_rb_def set_rb_busy_def sbd_txq_stop_def sbd_txq_start_def sbd_check_tx_flow_ctrl_def Let_def split: if_splits)

lemma flow_to_timer_loop:
  assumes "tx_timer_loop js need m st = Some (need', m', left, st')" and "1 < length (l_dev (fl_link st))"
    and "\<forall>i \<in> set js. i < length (l_dev (fl_link st)) \<and> cq_busy (txq (fl_dev st i)) < 2 ^ 31 - 1" and "distinct js"
  shows "flow_to st st'"
  using assms
proof (induction js need m st rule: tx_timer_loop.induct)
  case (2 i js need m st)
  obtain ret st1 where c: "(if cq_busy (txq (fl_dev st i)) \<noteq> 0 then check_tx_flow_ctrl i st else (0, st)) = (ret, st1)"
    by (metis surj_pair)
  have to1: "flow_to st st1" using c flow_to_check [OF 2(5)] 2(6) by (auto split: if_splits)
  note len1 = flow_to_len(1) [OF to1]
  have dis: "distinct js" and ni: "i \<notin> set js" using 2(7) by simp_all
  have keep: "fl_dev st1 j = fl_dev st j" if "j \<in> set js" for j using c round_frame(3) [of j i st] that ni by (auto split: if_splits)
  have few1: "\<forall>j \<in> set js. j < length (l_dev (fl_link st1)) \<and> cq_busy (txq (fl_dev st1 j)) < 2 ^ 31 - 1" using 2(6) keep len1 by simp
  show ?case
  proof (cases "ret < 0")
    case True
    show ?thesis
    proof (cases "ret = - EBUSY \<or> ret = - ETIME")
      case go: True
      then have "flow_to st1 st'" using 2(1) [OF c [symmetric] refl True go _ _ few1 dis] 2(4,5) c True len1 by auto
      then show ?thesis by (rule flow_to_trans [OF to1])
    next
      case False
      then show ?thesis using 2(4) c True flow_to_trans [OF to1 flow_to_crash] by auto
    qed
  next
    case False
    then obtain ret2 d where t: "tx_frames_to_dev 0 (fl_dev st1 i) = Some (ret2, d)"
      using 2(4) c by (auto split: option.splits)
    let ?st2 = "set_fl_dev i d st1"
    have to2: "flow_to st ?st2" using flow_to_trans [OF to1 flow_to_dev] tx_frames_busy [OF t] by blast
    have len2: "length (l_dev (fl_link ?st2)) = length (l_dev (fl_link st))" using len1 by simp
    have frame: "fl_dev ?st2 j = fl_dev st1 j" "fl_dev (txq_stop i ?st2) j = fl_dev st1 j" if "j \<in> set js" for j
      using that ni round_frame(1,2) by metis+
    consider (full) "ret2 < 0" "ret2 = - EBUSY \<or> ret2 = - ENOSPC" | (err) "ret2 < 0" "\<not> (ret2 = - EBUSY \<or> ret2 = - ENOSPC)"
      | (sent) "\<not> ret2 < 0" by blast
    then show ?thesis
    proof cases
      case full
      have to3: "flow_to ?st2 (txq_stop i ?st2)" using 2(5) len2 by (intro flow_to_txq_stop) simp
      have "flow_to (txq_stop i ?st2) st'"
        using 2(2) [OF c [symmetric] refl False t refl refl full _ _ _ dis] 2(4,5) few1 c False t full flow_to_len(1) [OF to3] len2 len1 frame(2) by auto
      then show ?thesis using flow_to_trans [OF to2 flow_to_trans [OF to3]] by blast
    next
      case err
      then show ?thesis using 2(4) c False t flow_to_trans [OF to2 flow_to_crash] by auto
    next
      case sent
      then have "flow_to ?st2 st'" using 2(3) [OF c [symmetric] refl False t refl refl sent _ _ _ dis] 2(4,5) few1 c False t len1 len2 frame(1) by auto
      then show ?thesis by (rule flow_to_trans [OF to2])
    qed
  qed
qed simp

lemma flow_to_sbd_timer_loop:
  assumes "sbd_tx_timer_loop js need m st = Some (need', m', left, st')" and "\<forall>i \<in> set js. i < length (fl_rbs st) \<and> sb_busy (fl_rbs st ! i) < 2 ^ 31 - 1" and "distinct js"
  shows "flow_to st st'"
  using assms
proof (induction js need m st rule: sbd_tx_timer_loop.induct)
  case (2 i js need m st)
  obtain ret st1 where c: "(if sb_busy (fl_rbs st ! i) \<noteq> 0 then sbd_check_tx_flow_ctrl i st else (0, st)) = (ret, st1)"
    by (metis surj_pair)
  have to1: "flow_to st st1" using c flow_to_sbd_check 2(5) by (auto split: if_splits)
  note len1 = flow_to_len(2) [OF to1]
  have dis: "distinct js" and ni: "i \<notin> set js" using 2(6) by simp_all
  have keep: "fl_rbs st1 ! j = fl_rbs st ! j" if "j \<in> set js" for j using c round_frame(6) [of j i st] that ni by (auto split: if_splits)
  have few1: "\<forall>j \<in> set js. j < length (fl_rbs st1) \<and> sb_busy (fl_rbs st1 ! j) < 2 ^ 31 - 1" using 2(5) keep len1 by simp
  show ?case
  proof (cases "ret < 0")
    case True
    show ?thesis
    proof (cases "ret = - EBUSY \<or> ret = - ETIME")
      case go: True
      then have "flow_to st1 st'" using 2(1) [OF c [symmetric] refl True go _ few1 dis] 2(4) c True len1 by auto
      then show ?thesis by (rule flow_to_trans [OF to1])
    next
      case False
      then show ?thesis using 2(4) c True flow_to_trans [OF to1 flow_to_crash] by auto
    qed
  next
    case False
    then obtain ret2 rb where t: "tx_frames_to_rb (fl_rbs st1 ! i) = Some (ret2, rb)"
      using 2(4) c by (auto split: option.splits)
    let ?st2 = "set_fl_rb i rb st1"
    have to2: "flow_to st ?st2"
      using flow_to_trans [OF to1 flow_to_rb] tx_rb_loop_fields [OF t [unfolded tx_frames_to_rb_def]] by blast
    have len2: "length (fl_rbs ?st2) = length (fl_rbs st)" using len1 by simp
    have frame: "fl_rbs ?st2 ! j = fl_rbs st1 ! j" "fl_rbs (sbd_txq_stop i ?st2) ! j = fl_rbs st1 ! j" if "j \<in> set js" for j
      using that ni round_frame(4,5) by metis+
    consider (full) "ret2 < 0" "ret2 = - EBUSY \<or> ret2 = - ENOSPC" | (err) "ret2 < 0" "\<not> (ret2 = - EBUSY \<or> ret2 = - ENOSPC)"
      | (sent) "\<not> ret2 < 0" by blast
    then show ?thesis
    proof cases
      case full
      have to3: "flow_to ?st2 (sbd_txq_stop i ?st2)" using 2(5) len2 by (intro flow_to_sbd_stop) simp
      have "flow_to (sbd_txq_stop i ?st2) st'"
        using 2(2) [OF c [symmetric] refl False t refl refl full _ _ dis] 2(4) few1 c False t full flow_to_len(2) [OF to3] len2 len1 frame(2) by auto
      then show ?thesis using flow_to_trans [OF to2 flow_to_trans [OF to3]] by blast
    next
      case err
      then show ?thesis using 2(4) c False t flow_to_trans [OF to2 flow_to_crash] by auto
    next
      case sent
      then have "flow_to ?st2 st'" using 2(3) [OF c [symmetric] refl False t refl refl sent _ _ dis] 2(4) few1 c False t len1 len2 frame(1) by auto
      then show ?thesis by (rule flow_to_trans [OF to2])
    qed
  qed
qed simp

text \<open>No counter wraps around in the next round of the timers.\<close>

definition few_checks :: "flow_state \<Rightarrow> bool" where
  "few_checks st \<longleftrightarrow> (\<forall>d \<in> set (l_dev (fl_link st)). cq_busy (txq d) < 2 ^ 31 - 1) \<and> (\<forall>rb \<in> set (fl_rbs st). sb_busy rb < 2 ^ 31 - 1)"

lemma flow_to_timer:
  assumes "tx_timer_func st = Some st'" and "1 < length (l_dev (fl_link st))" and "few_checks st"
  shows "flow_to st st'"
proof -
  let ?st = "st\<lparr>fl_timer := False\<rparr>"
  have to: "flow_to st ?st" by (rule flow_to_irq)
  show ?thesis
  proof (cases "ipc_active ?st")
    case False
    then show ?thesis using assms(1) to by (simp add: tx_timer_func_def Let_def)
  next
    case True
    then obtain need m left st1 where l: "tx_timer_loop [0..<length (l_dev (fl_link ?st))] False 0 ?st = Some (need, m, left, st1)"
      using assms(1) by (auto simp: tx_timer_func_def Let_def split: option.splits)
    have "flow_to ?st st1" by (rule flow_to_timer_loop [OF l]) (use assms(2,3) in \<open>auto simp: few_checks_def fl_dev_def\<close>)
    then have "flow_to st st1" by (rule flow_to_trans [OF to])
    moreover have "flow_to st1 st'"
      using assms(1) True l flow_to_irq flow_to_trans [OF flow_to_irq(1) flow_to_irq(2)]
      by (auto simp: tx_timer_func_def Let_def split: if_splits)
    ultimately show ?thesis by (rule flow_to_trans)
  qed
qed

lemma flow_to_sbd_timer:
  assumes "sbd_tx_timer_func st = Some st'" and "few_checks st"
  shows "flow_to st st'"
proof -
  let ?st = "st\<lparr>fl_sbd_timer := False\<rparr>"
  have to: "flow_to st ?st" by (rule flow_to_irq)
  show ?thesis
  proof (cases "ipc_active ?st")
    case False
    then show ?thesis using assms(1) to by (simp add: sbd_tx_timer_func_def Let_def)
  next
    case True
    then obtain need m left st1 where l: "sbd_tx_timer_loop [0..<length (fl_rbs ?st)] False 0 ?st = Some (need, m, left, st1)"
      using assms(1) by (auto simp: sbd_tx_timer_func_def Let_def split: option.splits)
    have "flow_to ?st st1" by (rule flow_to_sbd_timer_loop [OF l]) (use assms(2) in \<open>auto simp: few_checks_def\<close>)
    then have "flow_to st st1" by (rule flow_to_trans [OF to])
    moreover have "flow_to st1 st'"
      using assms(1) True l flow_to_irq flow_to_trans [OF flow_to_irq(1) flow_to_irq(3)]
      by (auto simp: sbd_tx_timer_func_def Let_def split: if_splits)
    ultimately show ?thesis by (rule flow_to_trans)
  qed
qed

lemma set_fl_dev_twice: "set_fl_dev i d (set_fl_dev i d' st) = set_fl_dev i d st"
  by (simp add: set_fl_dev_def)

lemma set_fl_rb_twice: "set_fl_rb i rb (set_fl_rb i rb' st) = set_fl_rb i rb st"
  by (simp add: set_fl_rb_def)

lemma flow_to_tx_func:
  assumes "tx_func i skb st = Some (ret, st')" and "1 < length (l_dev (fl_link st))"
  shows "flow_to st st'"
proof (cases "ipc_active st")
  case True
  then obtain r d where w: "txq_write (fl_dev st i) skb = Some (r, d)"
    using assms(1) by (auto simp: tx_func_def split: option.splits)
  note f = txq_write_fields [OF w]
  have to1: "flow_to st (set_fl_dev i d st)" using f by (intro flow_to_dev) simp
  let ?st2 = "set_fl_dev i (d\<lparr>skb_txq := skb # skb_txq d\<rparr>) st"
  have to2: "flow_to st ?st2" using f by (intro flow_to_dev) simp
  have "flow_to ?st2 (txq_stop i ?st2)" using assms(2) by (intro flow_to_txq_stop) simp
  then have to3: "flow_to st (txq_stop i ?st2)" by (rule flow_to_trans [OF to2])
  have "flow_to st ((send_ipc_irq v (txq_stop i ?st2))\<lparr>fl_timer := True\<rparr>)" for v
    by (rule flow_to_trans [OF to3 flow_to_trans [OF flow_to_irq(1) flow_to_irq(2)]])
  then show ?thesis
    using assms(1) True w flow_to_trans [OF to1 flow_to_irq(1)] flow_to_trans [OF to1 flow_to_crash]
    by (auto simp: tx_func_def Let_def set_fl_dev_twice split: if_splits)
qed (use assms(1) in \<open>simp add: tx_func_def\<close>)

lemma flow_to_sbd_tx_func:
  assumes "sbd_tx_func i skb st = Some (ret, st')"
  shows "flow_to st st'"
proof (cases "ipc_active st")
  case True
  then obtain r rb where w: "sbd_pio_tx (fl_rbs st ! i) skb = Some (r, rb)"
    using assms(1) by (auto simp: sbd_tx_func_def split: option.splits)
  note f = sbd_pio_tx_fields [OF w]
  have to1: "flow_to st (set_fl_rb i rb st)" using f by (intro flow_to_rb) simp_all
  have to2: "flow_to st (set_fl_rb i (rb\<lparr>sb_skb_q := skb # sb_skb_q rb\<rparr>) st)" using f by (intro flow_to_rb) simp_all
  have "flow_to st ((send_ipc_irq v (set_fl_rb i (rb\<lparr>sb_skb_q := skb # sb_skb_q rb\<rparr>) st))\<lparr>fl_sbd_timer := True\<rparr>)" for v
    by (rule flow_to_trans [OF to2 flow_to_trans [OF flow_to_irq(1) flow_to_irq(3)]])
  then show ?thesis
    using assms(1) True w to1 flow_to_trans [OF to1 flow_to_irq(1)] flow_to_trans [OF to1 flow_to_crash]
    by (auto simp: sbd_tx_func_def Let_def set_fl_rb_twice split: if_splits)
qed (use assms(1) in \<open>simp add: sbd_tx_func_def\<close>)

lemma flow_to_xmit_loop:
  assumes "xmit_dev_loop n i st = Some st'" and "1 < length (l_dev (fl_link st))"
  shows "flow_to st st'"
  using assms
proof (induction n i st rule: xmit_dev_loop.induct)
  case (2 n i st)
  show ?case
  proof (cases "skb_txq (fl_dev st i)")
    case (Cons skb rest)
    let ?st0 = "set_fl_dev i ((fl_dev st i)\<lparr>skb_txq := rest\<rparr>) st"
    have to0: "flow_to st ?st0" by (rule flow_to_dev) simp
    obtain r st1 where t: "tx_func i skb ?st0 = Some (r, st1)" using 2(2) Cons by (auto split: option.splits)
    have to1: "flow_to ?st0 st1" by (rule flow_to_tx_func [OF t]) (use 2(3) in simp)
    have "flow_to st1 st'"
      using 2(1) [OF Cons t refl] 2(2,3) Cons t flow_to_len(1) [OF to1] by (auto split: if_splits)
    then show ?thesis using flow_to_trans [OF to0 flow_to_trans [OF to1]] by blast
  qed (use 2(2) in simp)
qed simp

lemma flow_to_xmit:
  assumes "xmit_ipc_to_dev i skb st = Some (ret, st')" and "1 < length (l_dev (fl_link st))"
  shows "flow_to st st'"
proof -
  let ?st1 = "set_fl_dev i ((fl_dev st i)\<lparr>skb_txq := skb_txq (fl_dev st i) @ [skb]\<rparr>) st"
  have to1: "flow_to st ?st1" by (rule flow_to_dev) simp
  have "flow_to ?st1 st2" if "xmit_dev_loop 64 i ?st1 = Some st2" for st2
    by (rule flow_to_xmit_loop [OF that]) (use assms(2) in simp)
  then show ?thesis
    using assms(1) to1 flow_to_trans [OF to1] by (auto simp: xmit_ipc_to_dev_def Let_def split: if_splits)
qed

lemma flow_to_xmit_rb_loop:
  assumes "xmit_rb_loop n i st = Some st'"
  shows "flow_to st st'"
  using assms
proof (induction n i st rule: xmit_rb_loop.induct)
  case (2 n i st)
  show ?case
  proof (cases "sb_skb_q (fl_rbs st ! i)")
    case (Cons skb rest)
    let ?st0 = "set_fl_rb i ((fl_rbs st ! i)\<lparr>sb_skb_q := rest\<rparr>) st"
    have to0: "flow_to st ?st0" by (rule flow_to_rb) simp_all
    obtain r st1 where t: "sbd_tx_func i skb ?st0 = Some (r, st1)" using 2(2) Cons by (auto split: option.splits)
    have to1: "flow_to ?st0 st1" by (rule flow_to_sbd_tx_func [OF t])
    have "flow_to st1 st'" using 2(1) [OF Cons t refl] 2(2) Cons t by (auto split: if_splits)
    then show ?thesis using flow_to_trans [OF to0 flow_to_trans [OF to1]] by blast
  qed (use 2(2) in simp)
qed simp

lemma flow_to_xmit_rb:
  assumes "xmit_ipc_to_rb i skb st = Some (ret, st')"
  shows "flow_to st st'"
proof -
  let ?rb = "fl_rbs st ! i"
  let ?st1 = "set_fl_rb i (?rb\<lparr>sb_skb_q := sb_skb_q ?rb @ [skb\<lparr>t_data := take (unat (sb_buff_size ?rb)) (t_data skb)\<rparr>]\<rparr>) st"
  have to1: "flow_to st ?st1" by (rule flow_to_rb) simp_all
  then show ?thesis
    using assms(1) flow_to_trans [OF to1 flow_to_xmit_rb_loop] by (auto simp: xmit_ipc_to_rb_def Let_def split: if_splits)
qed

end
