(* ===== verification/ModemFifo.thy ===== *)
theory ModemFifo
  imports ModemCirc
begin

text \<open>
  What a queue between the two processors promises, as an interface. A bounded first-in first-out queue
  of messages is a list with a capacity: a message is accepted when the weights of the messages
  inside leave room for it, and the messages come out in the order in which they were accepted. A
  schedule is any interleaving of the two ends' operations. The circular queues of the legacy link and
  the rings of the SBD link are instances.
\<close>

datatype 'm fifo_op = Put 'm | Get

text \<open>
  A schedule on the abstract queue \<open>ms\<close>: the messages accepted, the messages taken out, the queue left.
\<close>

fun spec_run :: "nat \<Rightarrow> ('m \<Rightarrow> nat) \<Rightarrow> 'm list \<Rightarrow> 'm fifo_op list \<Rightarrow> 'm list \<times> 'm list \<times> 'm list" where
  "spec_run cap weight ms [] = ([], [], ms)"
| "spec_run cap weight ms (Put m # ops) =
     (if sum_list (map weight ms) + weight m \<le> cap
      then (let (acc, rcv, ms') = spec_run cap weight (ms @ [m]) ops in (m # acc, rcv, ms'))
      else spec_run cap weight ms ops)"
| "spec_run cap weight [] (Get # ops) = spec_run cap weight [] ops"
| "spec_run cap weight (m # ms) (Get # ops) =
     (let (acc, rcv, ms') = spec_run cap weight ms ops in (acc, m # rcv, ms'))"

text \<open>
  The same schedule on a concrete queue. \<open>put\<close> tells whether it accepted the message, \<open>get\<close> returns
  a message if there is one; \<open>None\<close> is a fault.
\<close>

fun fifo_run ::
    "('q \<Rightarrow> 'm \<Rightarrow> (bool \<times> 'q) option) \<Rightarrow> ('q \<Rightarrow> ('m option \<times> 'q) option) \<Rightarrow> 'q \<Rightarrow> 'm fifo_op list
     \<Rightarrow> ('m list \<times> 'm list \<times> 'q) option" where
  "fifo_run put get q [] = Some ([], [], q)"
| "fifo_run put get q (Put m # ops) =
     (case put q m of
        None \<Rightarrow> None
      | Some (ok, q1) \<Rightarrow>
          map_option (\<lambda>(acc, rcv, q'). (if ok then m # acc else acc, rcv, q')) (fifo_run put get q1 ops))"
| "fifo_run put get q (Get # ops) =
     (case get q of
        None \<Rightarrow> None
      | Some (r, q1) \<Rightarrow>
          map_option (\<lambda>(acc, rcv, q'). (acc, case r of None \<Rightarrow> rcv | Some m \<Rightarrow> m # rcv, q')) (fifo_run put get q1 ops))"

lemma spec_run_fifo:
  assumes "spec_run cap weight ms ops = (acc, rcv, ms')"
  shows "ms @ acc = rcv @ ms'"
  using assms
  by (induction cap weight ms ops arbitrary: acc rcv ms' rule: spec_run.induct) (auto split: if_splits prod.splits)

lemma spec_run_bound:
  assumes "spec_run cap weight ms ops = (acc, rcv, ms')" and "sum_list (map weight ms) \<le> cap"
  shows "sum_list (map weight ms') \<le> cap"
  using assms
  by (induction cap weight ms ops arbitrary: acc rcv ms' rule: spec_run.induct) (auto split: if_splits prod.splits)

text \<open>The laws of a queue; \<open>holds q ms\<close> says that \<open>q\<close> is well formed and holds the messages \<open>ms\<close>.\<close>

locale msg_fifo =
  fixes holds :: "'q \<Rightarrow> 'm list \<Rightarrow> bool"
    and cap :: "'q \<Rightarrow> nat"
    and weight :: "'m \<Rightarrow> nat"
    and msg_ok :: "'m \<Rightarrow> bool"
    and put :: "'q \<Rightarrow> 'm \<Rightarrow> (bool \<times> 'q) option"
    and get :: "'q \<Rightarrow> ('m option \<times> 'q) option"
  assumes put_accepts: "holds q ms \<Longrightarrow> msg_ok m \<Longrightarrow> sum_list (map weight ms) + weight m \<le> cap q \<Longrightarrow>
      \<exists>q'. put q m = Some (True, q') \<and> holds q' (ms @ [m]) \<and> cap q' = cap q"
    and put_refuses: "holds q ms \<Longrightarrow> msg_ok m \<Longrightarrow> \<not> sum_list (map weight ms) + weight m \<le> cap q \<Longrightarrow>
      put q m = Some (False, q)"
    and get_empty: "holds q [] \<Longrightarrow> get q = Some (None, q)"
    and get_first: "holds q (m # ms) \<Longrightarrow> \<exists>q'. get q = Some (Some m, q') \<and> holds q' ms \<and> cap q' = cap q"
begin

lemma run_refines:
  assumes "holds q ms" and "\<forall>m. Put m \<in> set ops \<longrightarrow> msg_ok m"
    and "spec_run (cap q) weight ms ops = (acc, rcv, ms')"
  shows "\<exists>q'. fifo_run put get q ops = Some (acc, rcv, q') \<and> holds q' ms' \<and> cap q' = cap q"
  using assms
proof (induction ops arbitrary: q ms acc rcv ms')
  case (Cons x ops)
  note IH = Cons.IH
  have later: "\<forall>m. Put m \<in> set ops \<longrightarrow> msg_ok m" using Cons.prems(2) by simp
  show ?case
  proof (cases x)
    case (Put m)
    then have m: "msg_ok m" using Cons.prems(2) by simp
    show ?thesis
    proof (cases "sum_list (map weight ms) + weight m \<le> cap q")
      case True
      then obtain q1 where q1: "put q m = Some (True, q1)" "holds q1 (ms @ [m])" "cap q1 = cap q"
        using put_accepts [OF Cons.prems(1) m] by auto
      obtain acc1 where "spec_run (cap q1) weight (ms @ [m]) ops = (acc1, rcv, ms')" and "acc = m # acc1"
        using Cons.prems(3) True q1(3) Put by (auto split: prod.splits)
      then show ?thesis using IH [OF q1(2) later] q1 Put by fastforce
    next
      case False
      then show ?thesis
        using IH [OF Cons.prems(1) later, of acc rcv ms'] put_refuses [OF Cons.prems(1) m False] Cons.prems(3) Put
        by fastforce
    qed
  next
    case Get
    show ?thesis
    proof (cases ms)
      case Nil
      then have "holds q []" "spec_run (cap q) weight [] ops = (acc, rcv, ms')" using Cons.prems Get by auto
      then show ?thesis using IH [OF _ later] get_empty Get by fastforce
    next
      case (Cons m ms1)
      then obtain q1 where q1: "get q = Some (Some m, q1)" "holds q1 ms1" "cap q1 = cap q"
        using get_first Cons.prems(1) by blast
      obtain rcv1 where "spec_run (cap q1) weight ms1 ops = (acc, rcv1, ms')" and "rcv = m # rcv1"
        using Cons.prems(3) Cons q1(3) Get by (auto split: prod.splits)
      then show ?thesis using IH [OF q1(2) later] q1 Get by fastforce
    qed
  qed
qed simp

text \<open>Whatever the schedule, the messages come out in the order they went in, none lost, none twice.\<close>

lemma run_fifo:
  assumes "holds q ms" and "\<forall>m. Put m \<in> set ops \<longrightarrow> msg_ok m"
  shows "\<exists>acc rcv q' ms'. fifo_run put get q ops = Some (acc, rcv, q') \<and> holds q' ms' \<and> ms @ acc = rcv @ ms'"
proof -
  obtain acc rcv ms' where s: "spec_run (cap q) weight ms ops = (acc, rcv, ms')" by (metis prod_cases3)
  show ?thesis using run_refines [OF assms s] spec_run_fifo [OF s] by blast
qed

end

end
