(* ===== verification/ModemQueue.thy ===== *)
theory ModemQueue
  imports ModemLink ModemFifo
begin

text \<open>
  The circular queues of the legacy link as byte queues: a queue holds the bytes between its tail and
  its head, a transmission appends to them, a reception takes from their front. On frames this makes
  the transmit and the receive functions the two ends of a bounded first-in first-out queue.
\<close>

named_theorems cq \<open>facts about circular queues of bytes\<close>

definition cq_ok :: "circ_queue \<Rightarrow> bool" where
  "cq_ok q \<longleftrightarrow> length (cq_buff q) = unat (cq_size q) \<and> circ_valid (cq_size q) (cq_head q) (cq_tail q) \<and> unat (cq_size q) < 2 ^ 31"

definition cq_data :: "circ_queue \<Rightarrow> u8 list" where
  "cq_data q = ring_bytes (cq_buff q) (unat (cq_tail q)) (unat (circ_get_usage (cq_size q) (cq_head q) (cq_tail q)))"

definition cq_cap :: "circ_queue \<Rightarrow> nat" where
  "cq_cap q = unat (cq_size q) - 1"

lemma cq_okD [cq]:
  assumes "cq_ok q"
  shows "length (cq_buff q) = unat (cq_size q)" "circ_valid (cq_size q) (cq_head q) (cq_tail q)"
    "unat (cq_size q) < 2 ^ 31" "unat (cq_head q) < unat (cq_size q)" "unat (cq_tail q) < unat (cq_size q)"
  using assms circ_validD by (auto simp: cq_ok_def)

lemma length_cq_data:
  assumes "cq_ok q"
  shows "length (cq_data q) = (unat (cq_head q) + unat (cq_size q) - unat (cq_tail q)) mod unat (cq_size q)"
  using unat_usage [OF cq_okD(2) [OF assms]] by (simp add: cq_data_def)

lemma cq_data_bound [cq]:
  assumes "cq_ok q"
  shows "length (cq_data q) \<le> cq_cap q"
  using length_cq_data [OF assms] cq_okD(4) [OF assms] mod_less_divisor [of "unat (cq_size q)"]
  by (simp add: cq_cap_def less_Suc_eq_le [symmetric])

lemma cq_space [cq]:
  assumes "cq_ok q"
  shows "unat (circ_get_space (cq_size q) (cq_head q) (cq_tail q)) = cq_cap q - length (cq_data q)"
  using unat_space [OF cq_okD(2) [OF assms]] by (simp add: cq_data_def cq_cap_def)

lemma circ_validI:
  "unat inp < unat qsize \<Longrightarrow> unat out < unat qsize \<Longrightarrow> circ_valid qsize inp out"
  by (auto simp: circ_valid_def word_le_nat_alt)

text \<open>The distance from tail to head after one of them moved.\<close>

lemma dist_head:
  fixes h t n m :: nat
  assumes "h < n" and "t < n" and "(h + n - t) mod n + m < n"
  shows "((h + m) mod n + n - t) mod n = (h + n - t) mod n + m"
proof -
  have "((h + m) mod n + n - t) mod n = (h + m + n - t) mod n"
    using assms(2) by (metis (no_types, lifting) add_diff_assoc less_imp_le mod_add_left_eq)
  also have "\<dots> = (h + n - t + m) mod n" using assms(2) by (simp add: algebra_simps)
  also have "\<dots> = ((h + n - t) mod n + m) mod n" by (simp add: mod_add_left_eq)
  finally show ?thesis using assms(3) by simp
qed

lemma dist_tail:
  fixes h t n m :: nat
  assumes "h < n" and "t < n" and "m \<le> (h + n - t) mod n"
  shows "(h + n - (t + m) mod n) mod n = (h + n - t) mod n - m"
proof -
  have n: "0 < n" using assms(1) by simp
  have d: "(h + n - t) mod n = (if t \<le> h then h - t else n - t + h)" by (rule ring_dist [OF assms(1,2)])
  have "t + m < 2 * n" using assms d by (auto split: if_splits)
  then have tm: "(t + m) mod n = (if t + m < n then t + m else t + m - n)" by (auto simp: mod_if)
  have lt: "(t + m) mod n < n" using n by simp
  show ?thesis using ring_dist [OF assms(1) lt] d tm assms by (auto split: if_splits)
qed

lemma cq_take_ok:
  assumes "cq_ok q" and "unat len \<le> length (cq_data q)"
  obtains q' where "cq_take q len = Some (take (unat len) (cq_data q), q')" and "cq_ok q'"
    and "cq_data q' = drop (unat len) (cq_data q)" and "cq_head q' = cq_head q" and "cq_size q' = cq_size q"
    and "cq_buff q' = cq_buff q" and "cq_busy q' = cq_busy q"
proof -
  let ?n = "unat (cq_size q)" and ?t = "unat (cq_tail q)" and ?h = "unat (cq_head q)"
  note ok = cq_okD [OF assms(1)]
  have le: "unat len \<le> ?n" "unat len < ?n" using assms(2) cq_data_bound [OF assms(1)] ok(4) by (auto simp: cq_cap_def)
  obtain p where p: "circ_new_ptr (cq_size q) (cq_tail q) len = Some p" "unat p = (?t + unat len) mod ?n"
    using new_ptr [of "cq_tail q" len "cq_size q"] ok le by fastforce
  let ?q = "q\<lparr>cq_tail := p\<rparr>"
  have u: "length (cq_data q) = unat len + (length (cq_data q) - unat len)" using assms(2) by simp
  have dq: "cq_data q = ring_bytes (cq_buff q) ?t (length (cq_data q))" by (simp add: cq_data_def)
  have split: "cq_data q = ring_bytes (cq_buff q) ?t (unat len) @ ring_bytes (cq_buff q) (unat p) (length (cq_data q) - unat len)"
    using ring_bytes_add [of "cq_buff q" ?t "unat len" "length (cq_data q) - unat len"] dq u p(2) ok(1) by simp
  have ok': "cq_ok ?q" using ok p(2) circ_validI [of "cq_head q" "cq_size q" p] by (auto simp: cq_ok_def)
  have "length (cq_data ?q) = length (cq_data q) - unat len"
    using length_cq_data [OF ok'] length_cq_data [OF assms(1)] p(2) dist_tail [of ?h ?n ?t "unat len"] ok assms(2) by simp
  then have "cq_data ?q = ring_bytes (cq_buff q) (unat p) (length (cq_data q) - unat len)"
    by (simp add: cq_data_def)
  moreover have "circ_read (cq_buff q) (cq_size q) (cq_tail q) len = Some (ring_bytes (cq_buff q) ?t (unat len))"
    using circ_read_ok [of "cq_buff q" "cq_size q" "cq_tail q" len] ok le by simp
  moreover have "take (unat len) (cq_data q) = ring_bytes (cq_buff q) ?t (unat len)"
    "drop (unat len) (cq_data q) = ring_bytes (cq_buff q) (unat p) (length (cq_data q) - unat len)"
    using arg_cong [OF split, of "take (unat len)"] arg_cong [OF split, of "drop (unat len)"] by simp_all
  ultimately show thesis
    using that [of ?q] ok' p(1) by (simp add: cq_take_def)
qed

lemma cq_commit_ok:
  assumes "cq_ok q" and "length (cq_data q) + length bs \<le> cq_cap q"
  obtains q' where "cq_commit q bs = Some q'" and "cq_ok q'" and "cq_data q' = cq_data q @ bs"
    and "cq_tail q' = cq_tail q" and "cq_size q' = cq_size q" and "cq_busy q' = cq_busy q"
proof -
  let ?n = "unat (cq_size q)" and ?t = "unat (cq_tail q)" and ?h = "unat (cq_head q)" and ?u = "length (cq_data q)"
  note ok = cq_okD [OF assms(1)]
  have fit: "?u + length bs < ?n" using assms(2) ok(4) by (simp add: cq_cap_def)
  have cnt: "unat (of_nat (length bs) :: u32) = length bs"
    using fit ok(3) by (simp add: unsigned_of_nat take_bit_nat_eq_self_iff)
  obtain p where p: "circ_new_ptr (cq_size q) (cq_head q) (of_nat (length bs)) = Some p" "unat p = (?h + length bs) mod ?n"
    using new_ptr [of "cq_head q" "of_nat (length bs)" "cq_size q"] ok fit cnt by fastforce
  obtain d where d: "circ_write (cq_buff q) bs (cq_size q) (cq_head q) (of_nat (length bs)) = Some d" "length d = length (cq_buff q)"
    "\<And>k. k < ?n \<Longrightarrow> d ! ((?h + k) mod ?n) = (if k < length bs then bs ! k else cq_buff q ! ((?h + k) mod ?n))"
    using circ_write_ok [of "cq_buff q" "cq_size q" "cq_head q" bs "of_nat (length bs)"] ok fit cnt by (metis less_imp_le add_lessD1 add.commute)
  let ?q = "q\<lparr>cq_buff := d, cq_head := p\<rparr>"
  have ok': "cq_ok ?q" using ok p(2) d(2) circ_validI [of p "cq_size q" "cq_tail q"] by (auto simp: cq_ok_def)
  have len: "length (cq_data ?q) = ?u + length bs"
    using length_cq_data [OF ok'] length_cq_data [OF assms(1)] p(2) dist_head [of ?h ?n ?t "length bs"] ok fit by simp
  have ht: "(?t + ?u) mod ?n = ?h"
    using length_cq_data [OF assms(1)] ok ring_dist [of ?h ?n ?t] by (auto simp: mod_if)
  have old: "d ! ((?t + k) mod ?n) = cq_buff q ! ((?t + k) mod ?n)" if "k < ?u" for k
  proof -
    let ?j = "?n - ?u + k"
    have "(?h + ?j) mod ?n = ((?t + ?u) + ?j) mod ?n" by (metis ht mod_add_left_eq)
    also have "\<dots> = (?t + k + ?n) mod ?n" using fit by (simp add: algebra_simps)
    finally have e: "(?h + ?j) mod ?n = (?t + k) mod ?n" by simp
    have "?j < ?n" "\<not> ?j < length bs" using that fit by auto
    then show ?thesis using d(3) [of ?j] unfolding e by presburger
  qed
  have new: "d ! ((?t + (?u + k)) mod ?n) = bs ! k" if "k < length bs" for k
  proof -
    have "(?t + (?u + k)) mod ?n = (?h + k) mod ?n" by (metis ht mod_add_left_eq add.assoc)
    then show ?thesis using d(3) [of k] that fit by simp
  qed
  have "cq_data ?q = ring_bytes d ?t (?u + length bs)" using len by (simp add: cq_data_def)
  also have "\<dots> = cq_data q @ bs"
  proof (rule nth_equalityI)
    fix k assume k: "k < length (ring_bytes d ?t (?u + length bs))"
    show "ring_bytes d ?t (?u + length bs) ! k = (cq_data q @ bs) ! k"
    proof (cases "k < ?u")
      case True
      then have "cq_data q ! k = cq_buff q ! ((?t + k) mod ?n)" using ok(1) by (simp add: cq_data_def nth_ring_bytes)
      then show ?thesis using True k old ok(1) d(2) by (simp add: nth_append nth_ring_bytes)
    next
      case False
      then show ?thesis using k new [of "k - ?u"] ok(1) d(2) by (simp add: nth_append nth_ring_bytes)
    qed
  qed simp
  finally show thesis using that [of ?q] ok' p(1) d(1) by (simp add: cq_commit_def Let_def)
qed

end
