(* ===== verification/ModemFrames.thy ===== *)
theory ModemFrames
  imports ModemQueue
begin

text \<open>
  Frames on the queues of the legacy link. \<open>wf_frame\<close> is what the receiver takes for a frame: the header
  is present and valid and gives the length of the frame. For such frames \<^verbatim>\<open>txq_write\<close> and
  \<^verbatim>\<open>recv_from_legacy_link\<close> are the two ends of a bounded first-in first-out queue, an instance of the
  interface \<open>msg_fifo\<close>.
\<close>

definition wf_frame :: "protocol \<Rightarrow> u8 list \<Rightarrow> bool" where
  "wf_frame p f \<longleftrightarrow> hdr_read p \<le> length f \<and> is_start_valid p f \<and> unat (get_total_len p f) = length f
     \<and> (p = PROTOCOL_SIPC \<longrightarrow> f ! 0 AND 0x02 = 0 \<or> sipc5_multi_frame f)"

lemma wf_frame_short [cq]: "wf_frame p f \<Longrightarrow> length f < 2 ^ 32"
  using unsigned_less [of "get_total_len p f", where 'a = nat] by (simp add: wf_frame_def)

lemma wf_frame_nonempty [cq]: "wf_frame p f \<Longrightarrow> 0 < length f"
  by (cases p) (auto simp: wf_frame_def)

subsection \<open>Headers\<close>

text \<open>The header buffer holds the first bytes of the frame and, behind them, whatever was there.\<close>

lemma hdr_agrees:
  assumes "wf_frame p f"
  shows "is_start_valid p (take (hdr_read p) f @ xs) = is_start_valid p f"
    and "get_total_len p (take (hdr_read p) f @ xs) = get_total_len p f"
proof -
  have nth: "(take (hdr_read p) f @ xs) ! i = f ! i" if "i < hdr_read p" for i
    using that assms by (simp add: wf_frame_def nth_append)
  show "is_start_valid p (take (hdr_read p) f @ xs) = is_start_valid p f"
    using nth by (cases p) (simp_all add: sipc5_start_valid_def exynos_start_valid_def le16_def)
  show "get_total_len p (take (hdr_read p) f @ xs) = get_total_len p f"
    using nth assms
    by (cases p) (auto simp: wf_frame_def sipc5_get_total_len_def sipc5_get_frame_len_def sipc5_padding_exist_def
        sipc5_multi_frame_def exynos_get_total_len_def exynos_get_frame_len_def le16_def Let_def)
qed

subsection \<open>Writing one frame\<close>

lemma unat_of_nat_short [cq]: "n < 2 ^ 32 \<Longrightarrow> unat (of_nat n :: u32) = n"
  by (simp add: unsigned_of_nat take_bit_nat_eq_self_iff)

lemma sint_short:
  assumes "unat w < 2 ^ 31"
  shows "sint (w :: u32) = int (unat w)"
proof -
  have "int (unat w) < int (2 ^ 31)" using assms by (simp only: of_nat_less_iff)
  then have u: "uint w < 2 ^ 31" by simp
  have "signed_take_bit 31 (uint w) = uint w" by (rule signed_take_bit_int_eq_self) (use u order_trans [of _ 0 "uint w"] in simp_all)
  then show ?thesis by (simp add: sint_uint)
qed

lemma txq_write_accepts:
  assumes "cq_ok (txq dev)" and "length (cq_data (txq dev)) + length skb \<le> cq_cap (txq dev)"
  obtains q where "txq_write dev skb = Some (int (length skb), dev\<lparr>txq := q\<rparr>)" and "cq_ok q"
    and "cq_data q = cq_data (txq dev) @ skb" and "cq_size q = cq_size (txq dev)" and "cq_tail q = cq_tail (txq dev)"
proof -
  note ok = cq_okD [OF assms(1)]
  have cap: "cq_cap (txq dev) < 2 ^ 31" using ok(3) by (simp add: cq_cap_def)
  have cnt: "unat (of_nat (length skb) :: u32) = length skb" using assms(2) cap by (intro unat_of_nat_short) simp
  let ?s = "circ_get_space (cq_size (txq dev)) (cq_head (txq dev)) (cq_tail (txq dev))"
  have sp: "unat ?s = cq_cap (txq dev) - length (cq_data (txq dev))" by (rule cq_space [OF assms(1)])
  then have "sint ?s = int (unat ?s)" using cap by (intro sint_short) simp
  moreover have "\<not> ?s < of_nat (length skb)" using sp cnt assms(2) by (simp add: word_less_nat_alt)
  ultimately have c: "check_txq_space (cq_size (txq dev)) (cq_head (txq dev)) (cq_tail (txq dev)) (of_nat (length skb)) \<ge> 0"
    using ok(2) by (simp add: check_txq_space_def Let_def)
  obtain q where q: "cq_commit (txq dev) skb = Some q" "cq_ok q" "cq_data q = cq_data (txq dev) @ skb"
    "cq_tail q = cq_tail (txq dev)" "cq_size q = cq_size (txq dev)"
    using cq_commit_ok [OF assms] by blast
  show thesis by (rule that [of q]) (use c q in \<open>simp_all add: txq_write_def Let_def\<close>)
qed

lemma txq_write_refuses:
  assumes "cq_ok (txq dev)" and "\<not> length (cq_data (txq dev)) + length skb \<le> cq_cap (txq dev)" and "length skb < 2 ^ 32"
  shows "txq_write dev skb = Some (- ENOSPC, dev)"
proof -
  have "circ_get_space (cq_size (txq dev)) (cq_head (txq dev)) (cq_tail (txq dev)) < of_nat (length skb)"
    using cq_space [OF assms(1)] cq_data_bound [OF assms(1)] unat_of_nat_short [OF assms(3)] assms(2) by (simp add: word_less_nat_alt)
  then show ?thesis using cq_okD(2) [OF assms(1)] by (simp add: txq_write_def check_txq_space_def Let_def)
qed

lemma txq_write_invalid:
  assumes "\<not> circ_valid (cq_size (txq dev)) (cq_head (txq dev)) (cq_tail (txq dev))"
  shows "txq_write dev skb = Some (- EIO, dev)"
  using assms by (simp add: txq_write_def check_txq_space_def Let_def)

subsection \<open>Receiving one frame\<close>

definition rx_ready :: "rx_state \<Rightarrow> bool" where
  "rx_ready st \<longleftrightarrow> cq_ok (rx_queue st) \<and> 32 \<le> unat (cq_size (rx_queue st))"

lemma rx_simps [simp]:
  "rx_queue (set_rx_queue q st) = q" "rx_queue (rx_crash m st) = rx_queue st" "rx_queue (rx_pass c b st) = rx_queue st"
  "rx_passed (set_rx_queue q st) = rx_passed st" "rx_passed (rx_crash m st) = rx_passed st"
  "rx_passed (rx_pass c b st) = rx_passed st @ [(c, b)]"
  "rx_crashes (set_rx_queue q st) = rx_crashes st" "rx_crashes (rx_crash m st) = rx_crashes st @ [m]"
  "rx_crashes (rx_pass c b st) = rx_crashes st"
  by (simp_all add: rx_queue_def set_rx_queue_def rx_crash_def rx_pass_def)

lemma hdr_read_word: "unat (of_nat (hdr_read p) :: u32) = hdr_read p"
  by (cases p) simp_all

lemma hdr_circ_read:
  assumes "rx_ready st"
  shows "circ_read (cq_buff (rx_queue st)) (cq_size (rx_queue st)) (cq_tail (rx_queue st)) (of_nat (hdr_read p)) =
    Some (ring_bytes (cq_buff (rx_queue st)) (unat (cq_tail (rx_queue st))) (hdr_read p))"
proof -
  have ok: "cq_ok (rx_queue st)" and "hdr_read p \<le> unat (cq_size (rx_queue st))"
    using assms by (cases p; simp add: rx_ready_def)+
  then show ?thesis
    using circ_read_ok [of "cq_buff (rx_queue st)" "cq_size (rx_queue st)" "cq_tail (rx_queue st)" "of_nat (hdr_read p)"] cq_okD [OF ok]
    by (simp add: hdr_read_word)
qed

text \<open>When the data of the queue start with a frame, its header is what is read.\<close>

lemma hdr_of_frame:
  assumes "cq_ok q" and "cq_data q = f @ r" and "n \<le> length f"
  shows "ring_bytes (cq_buff q) (unat (cq_tail q)) n = take n f"
proof -
  have "cq_data q = ring_bytes (cq_buff q) (unat (cq_tail q)) (length (cq_data q))" by (simp add: cq_data_def)
  moreover have "length (cq_data q) = n + (length (cq_data q) - n)" using assms(2,3) by simp
  ultimately have "cq_data q = ring_bytes (cq_buff q) (unat (cq_tail q)) (n + (length (cq_data q) - n))" by metis
  then have "take n (cq_data q) = ring_bytes (cq_buff q) (unat (cq_tail q)) n"
    unfolding ring_bytes_add by (metis append_eq_conv_conj length_ring_bytes)
  then show ?thesis using assms by simp
qed

lemma recv_frame:
  assumes "rx_ready st" and "wf_frame p f" and "cq_data (rx_queue st) = f @ r" and "rx_alloc env (length (rx_passed st))"
  obtains q where "recv_from_legacy_link p env (cq_head (rx_queue st)) st = Some (0, Some f, set_rx_queue q st)"
    and "cq_ok q" and "cq_data q = r" and "cq_head q = cq_head (rx_queue st)" and "cq_size q = cq_size (rx_queue st)"
proof -
  let ?q = "rx_queue st"
  have ok: "cq_ok ?q" using assms(1) by (simp add: rx_ready_def)
  let ?len = "get_total_len p f"
  have len: "unat ?len = length f" using assms(2) by (simp add: wf_frame_def)
  have hdr: "ring_bytes (cq_buff ?q) (unat (cq_tail ?q)) (hdr_read p) = take (hdr_read p) f"
    using hdr_of_frame [OF ok assms(3)] assms(2) by (simp add: wf_frame_def)
  have rest: "\<not> ?len > circ_get_usage (cq_size ?q) (cq_head ?q) (cq_tail ?q)"
    using assms(3) len by (simp add: cq_data_def word_less_nat_alt)
      (metis assms(3) cq_data_def length_ring_bytes length_append le_add1 not_less)
  obtain q where q: "cq_take ?q ?len = Some (take (unat ?len) (cq_data ?q), q)" "cq_ok q"
    "cq_data q = drop (unat ?len) (cq_data ?q)" "cq_head q = cq_head ?q" "cq_size q = cq_size ?q"
    using cq_take_ok [OF ok, of ?len] assms(3) len by auto
  show thesis
    by (rule that [of q])
      (use q rest len assms(3,4) hdr hdr_agrees [OF assms(2)] hdr_circ_read [OF assms(1)] assms(2) in
        \<open>simp_all add: recv_from_legacy_link_def Let_def wf_frame_def\<close>)
qed

subsection \<open>The two ends of a queue\<close>

text \<open>
  \<open>loop_put\<close> and \<open>loop_get\<close> put the two halves of the driver on one queue: frames are written with
  \<^verbatim>\<open>txq_write\<close> and read with \<^verbatim>\<open>recv_from_legacy_link\<close>, where every socket buffer can be allocated and the
  header buffer holds \<open>stack\<close> before.
\<close>

definition loop_put :: "legacy_ipc_device \<Rightarrow> u8 list \<Rightarrow> (bool \<times> legacy_ipc_device) option" where
  "loop_put dev m = map_option (\<lambda>(ret, d). (0 \<le> ret, d)) (txq_write dev m)"

definition loop_env :: "u8 list \<Rightarrow> rx_env" where
  "loop_env stack = \<lparr>rx_alloc = \<lambda>_. True, rx_stack = \<lambda>_. stack, rx_tailroom = \<lambda>_. 0\<rparr>"

definition loop_state :: "legacy_ipc_device \<Rightarrow> rx_state" where
  "loop_state dev = \<lparr>rx_dev = dev\<lparr>rxq := txq dev\<rparr>, rx_passed = [], rx_crashes = []\<rparr>"

definition loop_get :: "protocol \<Rightarrow> u8 list \<Rightarrow> legacy_ipc_device \<Rightarrow> (u8 list option \<times> legacy_ipc_device) option" where
  "loop_get p stack dev =
     (if txq_empty dev then Some (None, dev)
      else map_option (\<lambda>(err, skb, st). (skb, dev\<lparr>txq := rx_queue st\<rparr>))
             (recv_from_legacy_link p (loop_env stack) (cq_head (txq dev)) (loop_state dev)))"

definition legacy_holds :: "protocol \<Rightarrow> legacy_ipc_device \<Rightarrow> u8 list list \<Rightarrow> bool" where
  "legacy_holds p dev ms \<longleftrightarrow> cq_ok (txq dev) \<and> 32 \<le> unat (cq_size (txq dev)) \<and> cq_data (txq dev) = concat ms
     \<and> (\<forall>m \<in> set ms. wf_frame p m)"

lemma txq_empty_data:
  assumes "cq_ok (txq dev)"
  shows "txq_empty dev \<longleftrightarrow> cq_data (txq dev) = []"
proof -
  note ok = cq_okD [OF assms]
  have "length (cq_data (txq dev)) = 0 \<longleftrightarrow> unat (cq_head (txq dev)) = unat (cq_tail (txq dev))"
    using length_cq_data [OF assms] ring_dist [OF ok(4,5)] ok(4,5) by auto
  then show ?thesis by (simp add: txq_empty_def circ_empty_def word_unat_eq_iff)
qed

interpretation legacy: msg_fifo "legacy_holds p" "\<lambda>dev. cq_cap (txq dev)" length "wf_frame p" loop_put "loop_get p stack"
proof unfold_locales
  fix dev ms m
  assume h: "legacy_holds p dev ms" and m: "wf_frame p m" and fit: "sum_list (map length ms) + length m \<le> cq_cap (txq dev)"
  have ok: "cq_ok (txq dev)" using h by (simp add: legacy_holds_def)
  have "length (cq_data (txq dev)) + length m \<le> cq_cap (txq dev)" using h fit by (simp add: legacy_holds_def length_concat)
  from txq_write_accepts [OF ok this] obtain q where
    "txq_write dev m = Some (int (length m), dev\<lparr>txq := q\<rparr>)" "cq_ok q" "cq_data q = cq_data (txq dev) @ m" "cq_size q = cq_size (txq dev)"
    by blast
  then show "\<exists>q'. loop_put dev m = Some (True, q') \<and> legacy_holds p q' (ms @ [m]) \<and> cq_cap (txq q') = cq_cap (txq dev)"
    using h m by (auto simp: loop_put_def legacy_holds_def cq_cap_def)
next
  fix dev ms m
  assume h: "legacy_holds p dev ms" and m: "wf_frame p m" and fit: "\<not> sum_list (map length ms) + length m \<le> cq_cap (txq dev)"
  then have "txq_write dev m = Some (- ENOSPC, dev)"
    using wf_frame_short [OF m] by (intro txq_write_refuses) (auto simp: legacy_holds_def length_concat)
  then show "loop_put dev m = Some (False, dev)" by (simp add: loop_put_def)
next
  fix dev
  assume "legacy_holds p dev []"
  then show "loop_get p stack dev = Some (None, dev)" by (simp add: loop_get_def legacy_holds_def txq_empty_data)
next
  fix dev m ms
  assume h: "legacy_holds p dev (m # ms)"
  then have ok: "cq_ok (txq dev)" and m: "wf_frame p m" by (auto simp: legacy_holds_def)
  have ne: "\<not> txq_empty dev" using h wf_frame_nonempty [OF m] by (auto simp: legacy_holds_def txq_empty_data)
  have q: "rx_queue (loop_state dev) = txq dev" by (simp add: rx_queue_def loop_state_def)
  obtain q where "recv_from_legacy_link p (loop_env stack) (cq_head (txq dev)) (loop_state dev) = Some (0, Some m, set_rx_queue q (loop_state dev))"
    "cq_ok q" "cq_data q = concat ms" "cq_size q = cq_size (txq dev)"
    using recv_frame [of "loop_state dev" p m "concat ms" "loop_env stack"] h m q
    by (auto simp: legacy_holds_def rx_ready_def loop_env_def)
  then show "\<exists>q'. loop_get p stack dev = Some (Some m, q') \<and> legacy_holds p q' ms \<and> cq_cap (txq q') = cq_cap (txq dev)"
    using h ne by (auto simp: loop_get_def legacy_holds_def cq_cap_def)
qed

end
