(* ===== verification/ModemRx.thy ===== *)
theory ModemRx
  imports ModemFrames "HOL-Library.Sublist"
begin

text \<open>
  The loops of the legacy link: \<^verbatim>\<open>tx_frames_to_dev\<close> sends the longest prefix of its queue that fits,
  \<^verbatim>\<open>legacy_ipc_rx_func\<close> and its NAPI variant pass on the frames of the receive queue in order. The receive
  loops are followed for frames as they should be and for any bytes the modem may have put there.
\<close>

subsection \<open>Sending\<close>

lemma tx_frames_prefix:
  assumes "cq_ok (txq dev)" and "\<forall>f \<in> set (skb_txq dev). length f < 2 ^ 32"
  shows "\<exists>sent rest dev' ret. tx_frames_to_dev tx dev = Some (ret, dev') \<and> skb_txq dev = sent @ rest \<and> skb_txq dev' = rest
    \<and> cq_ok (txq dev') \<and> cq_data (txq dev') = cq_data (txq dev) @ concat sent \<and> cq_size (txq dev') = cq_size (txq dev)
    \<and> (if rest = [] then ret = tx + int (length (concat sent))
       else ret = - ENOSPC \<and> cq_cap (txq dev') < length (cq_data (txq dev')) + length (hd rest))"
  using assms
proof (induction "skb_txq dev" arbitrary: tx dev)
  case Nil
  then have "tx_frames_to_dev tx dev = Some (tx, dev)" by (simp add: tx_frames_to_dev.simps [of tx dev])
  then show ?case using Nil by (intro exI [of _ "[]"] exI [of _ dev] exI [of _ tx]) simp
next
  case (Cons f fs)
  let ?d = "dev\<lparr>skb_txq := fs\<rparr>"
  have q: "skb_txq dev = f # fs" using Cons.hyps(2) by simp
  have short: "length f < 2 ^ 32" using Cons.prems(2) q by simp
  show ?case
  proof (cases "length (cq_data (txq dev)) + length f \<le> cq_cap (txq dev)")
    case True
    then obtain t where t: "txq_write ?d f = Some (int (length f), ?d\<lparr>txq := t\<rparr>)" "cq_ok t" "cq_data t = cq_data (txq dev) @ f"
      "cq_size t = cq_size (txq dev)"
      using txq_write_accepts [of ?d f] Cons.prems(1) by auto
    have step: "tx_frames_to_dev tx dev = tx_frames_to_dev (tx + int (length f)) (?d\<lparr>txq := t\<rparr>)"
      using q t(1) by (simp add: tx_frames_to_dev.simps [of tx dev])
    obtain sent rest dev' ret where r: "tx_frames_to_dev (tx + int (length f)) (?d\<lparr>txq := t\<rparr>) = Some (ret, dev')" "fs = sent @ rest"
      "skb_txq dev' = rest" "cq_ok (txq dev')" "cq_data (txq dev') = cq_data t @ concat sent" "cq_size (txq dev') = cq_size t"
      "if rest = [] then ret = tx + int (length f) + int (length (concat sent))
       else ret = - ENOSPC \<and> cq_cap (txq dev') < length (cq_data (txq dev')) + length (hd rest)"
      using Cons.hyps(1) [of "?d\<lparr>txq := t\<rparr>" "tx + int (length f)"] t(2) Cons.prems(2) q by auto
    then show ?thesis
      using step t q by (intro exI [of _ "f # sent"] exI [of _ rest] exI [of _ dev'] exI [of _ ret]) auto
  next
    case False
    then have "txq_write ?d f = Some (- ENOSPC, ?d)" using Cons.prems(1) short by (intro txq_write_refuses) auto
    then have "tx_frames_to_dev tx dev = Some (- ENOSPC, dev)" using q by (simp add: tx_frames_to_dev.simps [of tx dev])
    then show ?thesis
      using False Cons.prems(1) q by (intro exI [of _ "[]"] exI [of _ "f # fs"] exI [of _ dev]) simp
  qed
qed

subsection \<open>Frames received in order\<close>

definition frame_ch :: "protocol \<Rightarrow> u8 list \<Rightarrow> u8" where
  "frame_ch p f = f ! ch_offset p"

lemma get_ch_frame [cq]: "wf_frame p f \<Longrightarrow> get_ch p junk f = frame_ch p f"
  by (cases p) (auto simp: wf_frame_def get_ch_def frame_ch_def)

text \<open>One round of either receive loop on a queue that starts with a frame.\<close>

lemma rx_round:
  assumes "rx_ready st" and "wf_frame p f" and "cq_data (rx_queue st) = f @ r" and "\<forall>k. rx_alloc env k"
  obtains st1 where "recv_from_legacy_link p env (cq_head (rx_queue st)) st = Some (0, Some f, st1)"
    and "rx_ready st1" and "cq_data (rx_queue st1) = r" and "cq_head (rx_queue st1) = cq_head (rx_queue st)"
    and "rx_passed st1 = rx_passed st" and "rx_crashes st1 = rx_crashes st"
proof -
  obtain q where "recv_from_legacy_link p env (cq_head (rx_queue st)) st = Some (0, Some f, set_rx_queue q st)"
    "cq_ok q" "cq_data q = r" "cq_head q = cq_head (rx_queue st)" "cq_size q = cq_size (rx_queue st)"
    using recv_frame assms by blast
  then show thesis using assms(1) by (intro that [of "set_rx_queue q st"]) (simp_all add: rx_ready_def)
qed

lemma rx_loop_frames:
  assumes "rx_ready st" and "cq_data (rx_queue st) = concat fs" and "\<forall>f \<in> set fs. wf_frame p f"
    and "\<forall>k. rx_alloc env k" and "\<forall>f \<in> set fs. iods (frame_ch p f)"
    and "unat rcvd + length (concat fs) = unat qlen" and "unat qlen < 2 ^ 31"
  shows "\<exists>st'. rx_loop p env iods (cq_head (rx_queue st)) qlen rcvd st = Some (Some (int (unat qlen), st'))
    \<and> rx_ready st' \<and> cq_data (rx_queue st') = [] \<and> rx_passed st' = rx_passed st @ map (\<lambda>f. (frame_ch p f, f)) fs
    \<and> rx_crashes st' = rx_crashes st"
  using assms
proof (induction fs arbitrary: rcvd st)
  case Nil
  then have "rcvd = qlen" by (simp add: word_unat_eq_iff)
  moreover have "rx_loop p env iods (cq_head (rx_queue st)) qlen qlen st = Some (Some (int (unat qlen), st))"
    using sint_short [OF Nil.prems(7)] by (simp add: rx_loop.simps [of p env iods _ qlen qlen st])
  ultimately show ?case using Nil.prems(1,2) by (intro exI [of _ st]) simp
next
  case (Cons f fs)
  have f: "wf_frame p f" "iods (frame_ch p f)" using Cons.prems by auto
  obtain st1 where s: "recv_from_legacy_link p env (cq_head (rx_queue st)) st = Some (0, Some f, st1)" "rx_ready st1"
    "cq_data (rx_queue st1) = concat fs" "cq_head (rx_queue st1) = cq_head (rx_queue st)" "rx_passed st1 = rx_passed st"
    "rx_crashes st1 = rx_crashes st"
    using rx_round [OF Cons.prems(1) f(1) _ Cons.prems(4)] Cons.prems(2) by auto
  let ?st2 = "rx_pass (frame_ch p f) f st1" and ?r2 = "rcvd + of_nat (length f)"
  have lt: "rcvd < qlen" using Cons.prems(6) wf_frame_nonempty [OF f(1)] by (simp add: word_less_nat_alt del: length_greater_0_conv)
  have "unat ?r2 = unat rcvd + length f"
    using Cons.prems(6,7) unat_of_nat_short [of "length f"] by (simp add: unat_word_ariths)
  then have sum: "unat ?r2 + length (concat fs) = unat qlen" using Cons.prems(6) by simp
  have step: "rx_loop p env iods (cq_head (rx_queue st)) qlen rcvd st = rx_loop p env iods (cq_head (rx_queue ?st2)) qlen ?r2 ?st2"
    using lt s f get_ch_frame [OF f(1)] by (simp add: rx_loop.simps [of p env iods _ qlen rcvd st] Let_def)
  have "rx_ready ?st2" using s(2) by (simp add: rx_ready_def)
  then obtain st' where "rx_loop p env iods (cq_head (rx_queue ?st2)) qlen ?r2 ?st2 = Some (Some (int (unat qlen), st'))"
    "rx_ready st'" "cq_data (rx_queue st') = []" "rx_passed st' = rx_passed ?st2 @ map (\<lambda>f. (frame_ch p f, f)) fs"
    "rx_crashes st' = rx_crashes ?st2"
    using Cons.IH [of ?st2 ?r2] s(3) Cons.prems sum by auto
  then show ?case using step s(5,6) by (intro exI [of _ st']) simp
qed

text \<open>The frames a NAPI poll handles: those before the budget of packets for network devices is used up.\<close>

fun napi_frames :: "(u8 list \<Rightarrow> bool) \<Rightarrow> nat \<Rightarrow> u8 list list \<Rightarrow> u8 list list" where
  "napi_frames ps b [] = []"
| "napi_frames ps b (f # fs) = (if b = 0 then [] else f # napi_frames ps (if ps f then b - 1 else b) fs)"

lemma napi_frames_budget: "length (filter ps (napi_frames ps b fs)) \<le> b"
  by (induction ps b fs rule: napi_frames.induct) (auto split: if_splits)

lemma napi_frames_prefix: "\<exists>rest. fs = napi_frames ps b fs @ rest"
  by (induction ps b fs rule: napi_frames.induct) auto

lemma napi_frames_all: "length (filter ps (napi_frames ps b fs)) < b \<Longrightarrow> napi_frames ps b fs = fs"
  by (induction ps b fs rule: napi_frames.induct) (auto split: if_splits)

lemma rx_loop_napi_frames:
  assumes "rx_ready st" and "cq_data (rx_queue st) = concat fs" and "\<forall>f \<in> set fs. wf_frame p f"
    and "\<forall>k. rx_alloc env k" and "\<forall>f \<in> set fs. iods (frame_ch p f)"
    and "unat rcvd + length (concat fs) = unat qlen" and "unat qlen < 2 ^ 31"
  shows "\<exists>st'. rx_loop_napi ext p env iods (cq_head (rx_queue st)) qlen budget work rcvd st =
        Some (Some (0, work + int (length (filter (\<lambda>f. is_ps_ch ext p (frame_ch p f)) (napi_frames (\<lambda>f. is_ps_ch ext p (frame_ch p f)) (unat budget) fs))), st'))
    \<and> rx_ready st' \<and> concat fs = concat (napi_frames (\<lambda>f. is_ps_ch ext p (frame_ch p f)) (unat budget) fs) @ cq_data (rx_queue st')
    \<and> rx_passed st' = rx_passed st @ map (\<lambda>f. (frame_ch p f, f)) (napi_frames (\<lambda>f. is_ps_ch ext p (frame_ch p f)) (unat budget) fs)
    \<and> rx_crashes st' = rx_crashes st"
    (is "\<exists>st'. ?P budget work rcvd st fs st'")
  using assms
proof (induction fs arbitrary: budget work rcvd st)
  case Nil
  then have "rcvd = qlen" by (simp add: word_unat_eq_iff)
  then have "?P budget work rcvd st [] st" using Nil.prems(1,2) by (simp add: rx_loop_napi.simps [of ext p env iods _ qlen _ _ qlen st])
  then show ?case by blast
next
  case (Cons f fs)
  have f: "wf_frame p f" "iods (frame_ch p f)" using Cons.prems by auto
  show ?case
  proof (cases "budget = 0")
    case True
    then have "?P budget work rcvd st (f # fs) st" using Cons.prems(1,2) by (simp add: rx_loop_napi.simps [of ext p env iods _ qlen 0 _ _ st])
    then show ?thesis by blast
  next
    case False
    then have nz: "unat budget \<noteq> 0" by (simp add: word_unat_eq_iff)
    obtain st1 where s: "recv_from_legacy_link p env (cq_head (rx_queue st)) st = Some (0, Some f, st1)" "rx_ready st1"
      "cq_data (rx_queue st1) = concat fs" "cq_head (rx_queue st1) = cq_head (rx_queue st)" "rx_passed st1 = rx_passed st"
      "rx_crashes st1 = rx_crashes st"
      using rx_round [OF Cons.prems(1) f(1) _ Cons.prems(4)] Cons.prems(2) by auto
    let ?ps = "is_ps_ch ext p (frame_ch p f)"
    let ?b = "if ?ps then budget - 1 else budget" and ?w = "if ?ps then work + 1 else work"
    let ?st2 = "rx_pass (frame_ch p f) f st1" and ?r2 = "rcvd + of_nat (length f)"
    have lt: "rcvd < qlen" using Cons.prems(6) wf_frame_nonempty [OF f(1)] by (simp add: word_less_nat_alt del: length_greater_0_conv)
    have "unat ?r2 = unat rcvd + length f"
      using Cons.prems(6,7) unat_of_nat_short [of "length f"] by (simp add: unat_word_ariths)
    then have sum: "unat ?r2 + length (concat fs) = unat qlen" using Cons.prems(6) by simp
    have b: "unat ?b = (if ?ps then unat budget - 1 else unat budget)" using False by (simp add: unat_minus_one)
    have step: "rx_loop_napi ext p env iods (cq_head (rx_queue st)) qlen budget work rcvd st =
        rx_loop_napi ext p env iods (cq_head (rx_queue ?st2)) qlen ?b ?w ?r2 ?st2"
      using False lt s f get_ch_frame [OF f(1)] by (simp add: rx_loop_napi.simps [of ext p env iods _ qlen budget work rcvd st] Let_def)
    have "rx_ready ?st2" using s(2) by (simp add: rx_ready_def)
    then obtain st' where st': "?P ?b ?w ?r2 ?st2 fs st'" using Cons.IH [of ?st2 ?r2 ?b ?w] s(3) Cons.prems sum by auto
    have "?P budget work rcvd st (f # fs) st'" using st' step nz b s(5,6) by (simp split: if_splits)
    then show ?thesis by blast
  qed
qed

subsection \<open>Any bytes\<close>

text \<open>What a reception does when the queue holds anything at all.\<close>

lemma recv_any:
  assumes "rx_ready st"
  shows "(\<exists>st1. recv_from_legacy_link p env (cq_head (rx_queue st)) st = Some (- EINVAL, None, st1) \<and> rx_ready st1
          \<and> cq_data (rx_queue st1) = [] \<and> rx_passed st1 = rx_passed st)
    \<or> recv_from_legacy_link p env (cq_head (rx_queue st)) st = Some (- ENOMEM, None, st)
    \<or> (\<exists>b st1 xs. recv_from_legacy_link p env (cq_head (rx_queue st)) st = Some (0, Some b, st1) \<and> rx_ready st1
          \<and> cq_data (rx_queue st) = b @ cq_data (rx_queue st1) \<and> cq_head (rx_queue st1) = cq_head (rx_queue st)
          \<and> cq_buff (rx_queue st1) = cq_buff (rx_queue st) \<and> rx_passed st1 = rx_passed st \<and> rx_crashes st1 = rx_crashes st
          \<and> is_start_valid p (ring_bytes (cq_buff (rx_queue st)) (unat (cq_tail (rx_queue st))) (hdr_read p) @ xs)
          \<and> length b = unat (get_total_len p (ring_bytes (cq_buff (rx_queue st)) (unat (cq_tail (rx_queue st))) (hdr_read p) @ xs)))"
proof -
  let ?q = "rx_queue st" and ?xs = "drop (hdr_read p) (rx_stack env (length (rx_passed st)))"
  let ?hdr = "ring_bytes (cq_buff ?q) (unat (cq_tail ?q)) (hdr_read p) @ ?xs"
  let ?len = "get_total_len p ?hdr" and ?rest = "circ_get_usage (cq_size ?q) (cq_head ?q) (cq_tail ?q)"
  have ok: "cq_ok ?q" and big: "32 \<le> unat (cq_size ?q)" using assms by (simp_all add: rx_ready_def)
  note k = cq_okD [OF ok]
  have rd: "circ_read (cq_buff ?q) (cq_size ?q) (cq_tail ?q) 32 = Some (ring_bytes (cq_buff ?q) (unat (cq_tail ?q)) 32)"
    using circ_read_ok [of "cq_buff ?q" "cq_size ?q" "cq_tail ?q" 32] k big by simp
  let ?bad = "rx_crash ''ERR! BAD MSG from CP'' (set_rx_queue (?q\<lparr>cq_tail := cq_head ?q\<rparr>) st)"
  have bad: "bad_msg (cq_head ?q) st = Some (- EINVAL, None, ?bad)" using rd by (simp add: bad_msg_def Let_def)
  have "cq_ok (?q\<lparr>cq_tail := cq_head ?q\<rparr>)" using k circ_validI by (auto simp: cq_ok_def)
  moreover have "cq_data (?q\<lparr>cq_tail := cq_head ?q\<rparr>) = []" by (simp add: cq_data_def circ_get_usage_def ring_bytes_def)
  ultimately have bad': "rx_ready ?bad" "cq_data (rx_queue ?bad) = []" "rx_passed ?bad = rx_passed st"
    using big by (simp_all add: rx_ready_def)
  consider (bad) "\<not> is_start_valid p ?hdr \<or> ?len > ?rest" | (nomem) "is_start_valid p ?hdr" "\<not> ?len > ?rest" "\<not> rx_alloc env (length (rx_passed st))"
    | (frame) "is_start_valid p ?hdr" "\<not> ?len > ?rest" "rx_alloc env (length (rx_passed st))" by blast
  then show ?thesis
  proof cases
    case bad
    then have "recv_from_legacy_link p env (cq_head ?q) st = Some (- EINVAL, None, ?bad)"
      using \<open>bad_msg (cq_head ?q) st = Some (- EINVAL, None, ?bad)\<close> hdr_circ_read [OF assms, of p]
      by (auto simp: recv_from_legacy_link_def Let_def)
    then show ?thesis using bad' by blast
  next
    case nomem
    then show ?thesis using hdr_circ_read [OF assms, of p] by (simp add: recv_from_legacy_link_def Let_def)
  next
    case frame
    have "unat ?len \<le> length (cq_data ?q)" using frame(2) by (simp add: cq_data_def word_less_nat_alt)
    from cq_take_ok [OF ok this] obtain q where q: "cq_take ?q ?len = Some (take (unat ?len) (cq_data ?q), q)" "cq_ok q"
      "cq_data q = drop (unat ?len) (cq_data ?q)" "cq_head q = cq_head ?q" "cq_size q = cq_size ?q" "cq_buff q = cq_buff ?q" by blast
    have "recv_from_legacy_link p env (cq_head ?q) st = Some (0, Some (take (unat ?len) (cq_data ?q)), set_rx_queue q st)"
      using frame q(1) hdr_circ_read [OF assms, of p] by (simp add: recv_from_legacy_link_def Let_def)
    then show ?thesis
      using q frame(1) big \<open>unat ?len \<le> length (cq_data ?q)\<close>
      by (intro disjI2 exI [of _ "take (unat ?len) (cq_data ?q)"] exI [of _ "set_rx_queue q st"] exI [of _ ?xs]) (simp add: rx_ready_def)
  qed
qed

end
