(* ===== verification/ModemFlowProps.thy ===== *)
theory ModemFlowProps
  imports ModemFlowSteps ModemRx
begin

text \<open>
  What transmit flow control achieves. The handlers run in any order, with the modem moving the read
  pointers of the queues in between. Flow control has the network interfaces stopped exactly while there is a
  reason; once the modem has emptied the queue they are woken, or the timer keeps trying; frames
  reach the queue in the order in which they were handed over. A restart of the modem while the stop
  bit is set is the exception: it disables flow control for good.
\<close>

subsection \<open>Runs\<close>

text \<open>The modem consumes: it moves the tails of the transmit queues and the read pointers of the uplink rings.\<close>

definition modem_reads :: "(nat \<Rightarrow> u32) \<Rightarrow> (nat \<Rightarrow> u16) \<Rightarrow> flow_state \<Rightarrow> flow_state" where
  "modem_reads ts rs st =
     st\<lparr>fl_link := (fl_link st)\<lparr>l_dev := map (\<lambda>(i, d). d\<lparr>txq := (txq d)\<lparr>cq_tail := ts i\<rparr>\<rparr>) (enumerate 0 (l_dev (fl_link st)))\<rparr>,
        fl_rbs := map (\<lambda>(i, rb). rb\<lparr>sb_rp := rs i\<rparr>) (enumerate 0 (fl_rbs st))\<rparr>"

text \<open>
  The steps between the start of the modem and its restart, its end or the closing of the link. The busy counter of a queue grows with each
  run of a timer that finds the queue not empty; \<open>few_checks\<close> excludes the run that would be number \<open>2 ^ 31\<close>.
\<close>

inductive flow_step :: "flow_state \<Rightarrow> flow_state \<Rightarrow> bool" where
  xmit: "i < length (l_dev (fl_link st)) \<Longrightarrow> xmit_ipc_to_dev i skb st = Some (ret, st') \<Longrightarrow> flow_step st st'"
| xmit_rb: "i < length (fl_rbs st) \<Longrightarrow> xmit_ipc_to_rb i pkt st = Some (ret, st') \<Longrightarrow> flow_step st st'"
| timer: "fl_timer st \<Longrightarrow> few_checks st \<Longrightarrow> tx_timer_func st = Some st' \<Longrightarrow> flow_step st st'"
| sbd_timer: "fl_sbd_timer st \<Longrightarrow> few_checks st \<Longrightarrow> sbd_tx_timer_func st = Some st' \<Longrightarrow> flow_step st st'"
| suspend: "flow_step st (tx_flowctrl_suspend st)"
| resume: "flow_step st (tx_flowctrl_resume st)"
| res_ack: "i < length (l_dev (fl_link st)) \<Longrightarrow> flow_step st (recv_res_ack i st)"
| req_ack: "i < length (l_dev (fl_link st)) \<Longrightarrow> flow_step st (send_res_ack i (recv_req_ack i st))"
| crash: "flow_step st (link_trigger_cp_crash msg st)"
| modem: "flow_step st (modem_reads ts rs st)"

text \<open>With restarts of the modem, new rings for it, and the closing of the link.\<close>

inductive link_step :: "flow_state \<Rightarrow> flow_state \<Rightarrow> bool" where
  handler: "flow_step st st' \<Longrightarrow> link_step st st'"
| restart: "phone_start_init cp st = (st', err) \<Longrightarrow> link_step st st'"
| rings: "\<forall>rb \<in> set rbs. sb_busy rb = 0 \<Longrightarrow> link_step st (st\<lparr>fl_rbs := rbs\<rparr>)"
| close: "link_step st (shmem_close_tx st)"

text \<open>The state after the link device was created.\<close>

definition flow_init :: "flow_state \<Rightarrow> bool" where
  "flow_init st \<longleftrightarrow> 2 \<le> length (l_dev (fl_link st)) \<and> (\<forall>d \<in> set (l_dev (fl_link st)). cq_busy (txq d) = 0)
     \<and> (\<forall>rb \<in> set (fl_rbs st). sb_busy rb = 0) \<and> fl_mask st = 0 \<and> \<not> fl_stopped st \<and> \<not> fl_subqueues st \<and> fl_forced_crash st = 0 \<and> fl_crashes st = []"

lemma flow_init_inv: "flow_init st \<Longrightarrow> flow_inv st"
proof -
  assume a: "flow_init st"
  have "nbusy (dev_busies st) = 0" "nbusy (rb_busies st) = 0"
    using a by (auto simp: flow_init_def nbusy_def dev_busies_def rb_busies_def)
  moreover have "v_devs (fview st) ! i = 0" if "i < length (l_dev (fl_link st))" for i
    using a that by (simp add: flow_init_def fl_dev_def)
  moreover have "v_rbs (fview st) ! i = 0" if "i < length (fl_rbs st)" for i using a that by (simp add: flow_init_def)
  ultimately show ?thesis
    using a by (auto simp: flow_inv_def view_inv_def busy_ok_def mask_ok_def ifaces_ok_def flow_init_def crash_ok_def fview_def dev_busies_def rb_busies_def rb_chs_def)
qed

lemma flow_to_modem: "flow_to st (modem_reads ts rs st)"
proof -
  have "map (\<lambda>d. cq_busy (txq d)) (l_dev (fl_link (modem_reads ts rs st))) = map (\<lambda>d. cq_busy (txq d)) (l_dev (fl_link st))"
    by (intro nth_equalityI) (auto simp: modem_reads_def nth_enumerate_eq)
  moreover have "map sb_busy (fl_rbs (modem_reads ts rs st)) = map sb_busy (fl_rbs st)" "map sb_ch (fl_rbs (modem_reads ts rs st)) = map sb_ch (fl_rbs st)"
    by (intro nth_equalityI; auto simp: modem_reads_def nth_enumerate_eq)+
  ultimately have "fview (modem_reads ts rs st) = fview st"
    by (simp add: fview_def dev_busies_def rb_busies_def rb_chs_def del: map_map) (simp add: modem_reads_def)
  then show ?thesis by (rule flow_to_same) (simp_all add: modem_reads_def)
qed

lemma flow_step_to:
  assumes "flow_step st st'" and "1 < length (l_dev (fl_link st))"
  shows "flow_to st st'"
  using assms
proof (induction rule: flow_step.induct)
  case (req_ack i st)
  show ?case by (rule flow_to_trans [OF flow_to_acks(1) flow_to_acks(2)])
qed (auto intro: flow_to_xmit flow_to_xmit_rb flow_to_timer flow_to_sbd_timer flow_to_suspend flow_to_resume flow_to_res_ack
    flow_to_crash flow_to_modem)

lemma flow_steps_to:
  assumes "flow_step\<^sup>*\<^sup>* st st'" and "1 < length (l_dev (fl_link st))"
  shows "flow_to st st'"
  using assms
proof (induction rule: rtranclp_induct)
  case (step st1 st2)
  then show ?case using flow_to_trans flow_step_to flow_to_len(1) by (metis (no_types))
qed simp

subsection \<open>Order of transmission\<close>

text \<open>What a device will have sent when everything has gone out: the bytes in its queue, then the waiting frames.\<close>

definition tx_stream :: "legacy_ipc_device \<Rightarrow> u8 list" where
  "tx_stream d = cq_data (txq d) @ concat (skb_txq d)"

definition dev_ready :: "legacy_ipc_device \<Rightarrow> bool" where
  "dev_ready d \<longleftrightarrow> cq_ok (txq d) \<and> (\<forall>f \<in> set (skb_txq d). length f < 2 ^ 32)"

lemma fl_dev_set [simp]: "i < length (l_dev (fl_link st)) \<Longrightarrow> fl_dev (set_fl_dev i d st) j = (if i = j then d else fl_dev st j)"
  by (simp add: fl_dev_def set_fl_dev_def)

lemma ipc_active_set [simp]:
  "ipc_active (set_fl_dev i d st) = ipc_active st" "ipc_active (st\<lparr>fl_timer := b\<rparr>) = ipc_active st"
  "ipc_active (send_ipc_irq v st) = ipc_active st"
  by (auto simp: ipc_active_def set_fl_dev_def send_ipc_irq_def)

lemma fl_dev_irq [simp]: "fl_dev (send_ipc_irq v st) j = fl_dev st j" "fl_dev (st\<lparr>fl_timer := b\<rparr>) j = fl_dev st j"
  by (simp_all add: fl_dev_def send_ipc_irq_def)

lemma cq_busy_irrelevant: "cq_ok (q\<lparr>cq_busy := b\<rparr>) = cq_ok q" "cq_data (q\<lparr>cq_busy := b\<rparr>) = cq_data q"
  by (simp_all add: cq_ok_def cq_data_def)

lemma txq_stop_keeps:
  assumes "i < length (l_dev (fl_link st))"
  shows "tx_stream (fl_dev (txq_stop i st) j) = tx_stream (fl_dev st j)" "dev_ready (fl_dev (txq_stop i st) j) = dev_ready (fl_dev st j)"
    "skb_txq (fl_dev (txq_stop i st) j) = skb_txq (fl_dev st j)" "ipc_active (txq_stop i st) = ipc_active st"
    "cq_data (txq (fl_dev (txq_stop i st) j)) = cq_data (txq (fl_dev st j))"
  using assms
  by (auto simp: txq_stop_def Let_def send_req_ack_def set_dev_busy_def set_fl_dev_def fl_dev_def send_ipc_irq_def stop_net_ifaces_def
      ipc_active_def tx_stream_def dev_ready_def cq_busy_irrelevant nth_list_update)

lemma tx_func_stream:
  assumes "ipc_active st" and "i < length (l_dev (fl_link st))" and "cq_ok (txq (fl_dev st i))" and "length skb < 2 ^ 32"
    and "\<forall>f \<in> set (skb_txq (fl_dev st i)). length f < 2 ^ 32"
  obtains ret st' where "tx_func i skb st = Some (ret, st')" and "ipc_active st'" and "dev_ready (fl_dev st' i)"
    and "tx_stream (fl_dev st' i) = cq_data (txq (fl_dev st i)) @ skb @ concat (skb_txq (fl_dev st i))"
    and "ret = 1 \<and> length (skb_txq (fl_dev st' i)) = length (skb_txq (fl_dev st i)) \<or> ret = - 1 \<and> fl_timer st'"
    and "length (l_dev (fl_link st')) = length (l_dev (fl_link st))"
proof (cases "length (cq_data (txq (fl_dev st i))) + length skb \<le> cq_cap (txq (fl_dev st i))")
  case True
  obtain q where q: "txq_write (fl_dev st i) skb = Some (int (length skb), (fl_dev st i)\<lparr>txq := q\<rparr>)" "cq_ok q"
    "cq_data q = cq_data (txq (fl_dev st i)) @ skb"
    using txq_write_accepts [OF assms(3) True] by metis
  let ?st' = "send_ipc_irq (mask2int (msg_mask i)) (set_fl_dev i ((fl_dev st i)\<lparr>txq := q\<rparr>) st)"
  have "tx_func i skb st = Some (1, ?st')" using assms(1) q(1) by (simp add: tx_func_def Let_def)
  then show thesis
    by (rule that) (use assms q in \<open>simp_all add: dev_ready_def tx_stream_def\<close>)
next
  case False
  have w: "txq_write (fl_dev st i) skb = Some (- ENOSPC, fl_dev st i)" by (rule txq_write_refuses [OF assms(3) False assms(4)])
  let ?d = "(fl_dev st i)\<lparr>skb_txq := skb # skb_txq (fl_dev st i)\<rparr>"
  let ?st' = "(send_ipc_irq (mask2int (msg_mask i)) (txq_stop i (set_fl_dev i ?d st)))\<lparr>fl_timer := True\<rparr>"
  have r: "tx_func i skb st = Some (- 1, ?st')" using assms(1) w by (simp add: tx_func_def Let_def set_fl_dev_twice)
  have len: "length (l_dev (fl_link ?st')) = length (l_dev (fl_link st))"
    using assms(2) by (auto simp: txq_stop_def Let_def send_req_ack_def)
  show thesis
    by (rule that [OF r]) (use assms len in \<open>simp_all add: txq_stop_keeps dev_ready_def [of ?d] tx_stream_def [of ?d]\<close>)
qed

lemma xmit_loop_stream:
  assumes "ipc_active st" and "i < length (l_dev (fl_link st))" and "dev_ready (fl_dev st i)"
  shows "\<exists>st'. xmit_dev_loop n i st = Some st' \<and> dev_ready (fl_dev st' i) \<and> tx_stream (fl_dev st' i) = tx_stream (fl_dev st i)
    \<and> (skb_txq (fl_dev st' i) = [] \<or> fl_timer st' \<or> length (skb_txq (fl_dev st' i)) + n = length (skb_txq (fl_dev st i)))"
  using assms
proof (induction n i st rule: xmit_dev_loop.induct)
  case (2 n i st)
  show ?case
  proof (cases "skb_txq (fl_dev st i)")
    case Nil
    then show ?thesis using 2(4) by simp
  next
    case (Cons skb rest)
    let ?st0 = "set_fl_dev i ((fl_dev st i)\<lparr>skb_txq := rest\<rparr>) st"
    have d: "fl_dev ?st0 i = (fl_dev st i)\<lparr>skb_txq := rest\<rparr>" using 2(3) by simp
    have pre: "ipc_active ?st0" "i < length (l_dev (fl_link ?st0))" "cq_ok (txq (fl_dev ?st0 i))" "length skb < 2 ^ 32"
      "\<forall>f \<in> set (skb_txq (fl_dev ?st0 i)). length f < 2 ^ 32"
      using 2(2-4) Cons d by (auto simp: dev_ready_def)
    from tx_func_stream [OF pre] obtain ret st1 where t: "tx_func i skb ?st0 = Some (ret, st1)" "ipc_active st1" "dev_ready (fl_dev st1 i)"
      "tx_stream (fl_dev st1 i) = cq_data (txq (fl_dev ?st0 i)) @ skb @ concat (skb_txq (fl_dev ?st0 i))"
      "ret = 1 \<and> length (skb_txq (fl_dev st1 i)) = length (skb_txq (fl_dev ?st0 i)) \<or> ret = - 1 \<and> fl_timer st1"
      "length (l_dev (fl_link st1)) = length (l_dev (fl_link ?st0))" .
    have str: "tx_stream (fl_dev st1 i) = tx_stream (fl_dev st i)" using t(4) d Cons by (simp add: tx_stream_def)
    show ?thesis
    proof (cases "ret < 0")
      case True
      then show ?thesis using Cons t str by auto
    next
      case False
      have "\<exists>st'. xmit_dev_loop n i st1 = Some st' \<and> dev_ready (fl_dev st' i) \<and> tx_stream (fl_dev st' i) = tx_stream (fl_dev st1 i)
        \<and> (skb_txq (fl_dev st' i) = [] \<or> fl_timer st' \<or> length (skb_txq (fl_dev st' i)) + n = length (skb_txq (fl_dev st1 i)))"
        using 2(1) [OF Cons t(1) refl False t(2) _ t(3)] t(6) 2(3) by simp
      then show ?thesis using Cons t False str d by auto
    qed
  qed
qed simp

subsection \<open>A round of the timer\<close>

lemma timer_round [consumes 3, case_names sent full]:
  assumes "(if cq_busy (txq (fl_dev st i)) \<noteq> 0 then check_tx_flow_ctrl i st else (0, st)) = (0, st1)"
    and "dev_ready (fl_dev st1 i)" and "i < length (l_dev (fl_link st1))"
  obtains (sent) d m' where "tx_timer_loop (i # js) need m st = tx_timer_loop js need m' (set_fl_dev i d st1)" and "skb_txq d = []"
      and "dev_ready d" and "tx_stream d = tx_stream (fl_dev st1 i)" and "cq_busy (txq d) = cq_busy (txq (fl_dev st1 i))"
  | (full) d m' where "tx_timer_loop (i # js) need m st = tx_timer_loop js True m' (txq_stop i (set_fl_dev i d st1))" and "skb_txq d \<noteq> []"
      and "dev_ready d" and "tx_stream d = tx_stream (fl_dev st1 i)" and "cq_busy (txq d) = cq_busy (txq (fl_dev st1 i))"
proof -
  have short: "\<forall>f \<in> set (skb_txq (fl_dev st1 i)). length f < 2 ^ 32" and ok: "cq_ok (txq (fl_dev st1 i))"
    using assms(2) by (auto simp: dev_ready_def)
  obtain snt rest d ret where t: "tx_frames_to_dev 0 (fl_dev st1 i) = Some (ret, d)" "skb_txq (fl_dev st1 i) = snt @ rest" "skb_txq d = rest"
    "cq_ok (txq d)" "cq_data (txq d) = cq_data (txq (fl_dev st1 i)) @ concat snt"
    "if rest = [] then ret = 0 + int (length (concat snt)) else ret = - ENOSPC \<and> cq_cap (txq d) < length (cq_data (txq d)) + length (hd rest)"
    using tx_frames_prefix [OF ok short, of 0] by auto
  have d: "dev_ready d" "tx_stream d = tx_stream (fl_dev st1 i)" "cq_busy (txq d) = cq_busy (txq (fl_dev st1 i))"
    using t(2-5) short tx_frames_busy [OF t(1)] by (auto simp: dev_ready_def tx_stream_def)
  show thesis
  proof (cases "rest = []")
    case True
    then have "\<not> ret < 0" using t(6) by simp
    then have "\<exists>m'. tx_timer_loop (i # js) need m st = tx_timer_loop js need m' (set_fl_dev i d st1)"
      using assms(1) t(1,3) True by (auto simp: Let_def)
    then show thesis using sent d t(3) True by blast
  next
    case False
    then have "\<exists>m'. tx_timer_loop (i # js) need m st = tx_timer_loop js True m' (txq_stop i (set_fl_dev i d st1))"
      using assms(1) t(1,6) by (auto simp: Let_def)
    then show thesis using full d t(3) False by blast
  qed
qed

lemma timer_func_result:
  assumes "ipc_active st" and "tx_timer_loop [0..<length (l_dev (fl_link st))] False 0 (st\<lparr>fl_timer := False\<rparr>) = Some (nd, m, lft, st1)"
  obtains st' where "tx_timer_func st = Some st'" and "\<And>j. fl_dev st' j = fl_dev st1 j" and "fl_subqueues st' = fl_subqueues st1"
    and "nd \<Longrightarrow> fl_timer st'"
proof -
  let ?s = "if \<not> lft \<and> m \<noteq> 0 then send_ipc_irq (mask2int m) st1 else st1"
  have "tx_timer_func st = Some (if nd then ?s\<lparr>fl_timer := True\<rparr> else ?s)" using assms by (simp add: tx_timer_func_def Let_def)
  then show thesis by (rule that) (auto simp: send_ipc_irq_def fl_dev_def)
qed

text \<open>The first device is never under flow control; its round changes neither the mask nor the other device.\<close>

lemma txq_stop_first: "txq_stop 0 st = st"
  by (simp add: txq_stop_def)

lemma timer_first:
  assumes "cq_busy (txq (fl_dev st 0)) = 0" and "dev_ready (fl_dev st 0)" and "0 < length (l_dev (fl_link st))"
  obtains need' m' d where "tx_timer_loop (0 # js) need m st = tx_timer_loop js need' m' (set_fl_dev 0 d st)"
    and "dev_ready d" and "tx_stream d = tx_stream (fl_dev st 0)" and "cq_busy (txq d) = 0" and "need \<longrightarrow> need'"
proof -
  have c: "(if cq_busy (txq (fl_dev st 0)) \<noteq> 0 then check_tx_flow_ctrl 0 st else (0, st)) = (0, st)" using assms(1) by simp
  from c assms(2,3) show thesis
    by (cases rule: timer_round [where js = js and need = need and m = m]) (use that assms(1) in \<open>auto simp: txq_stop_first\<close>)
qed

lemma txq_start_wakes:
  assumes "flow_inv st" and "0 < cq_busy (txq (fl_dev st 1))" and "\<not> bit (fl_mask st) 2" and "1 < length (l_dev (fl_link st))"
  shows "fl_mask (txq_start 1 st) = 0" and "\<not> fl_subqueues (txq_start 1 st)" and "\<not> fl_stopped (txq_start 1 st)"
    and "cq_busy (txq (fl_dev (txq_start 1 st) 1)) = 0" and "tx_stream (fl_dev (txq_start 1 st) j) = tx_stream (fl_dev st j)"
    and "dev_ready (fl_dev (txq_start 1 st) j) = dev_ready (fl_dev st j)"
    and "length (l_dev (fl_link (txq_start 1 st))) = length (l_dev (fl_link st))"
proof -
  have inv: "busy_ok (v_devs (fview st)) (v_rbs (fview st)) (v_ps (fview st)) (bit (fl_mask st) 1)" "mask_ok (fl_mask st)"
    "ifaces_ok (fl_mask st) (fl_stopped st) (fl_subqueues st) (v_forced (fview st))"
    using assms(1) by (auto simp: flow_inv_def view_inv_def)
  have "0 < nbusy (v_devs (fview st))" using assms(2,4) by (intro nbusy_pos [of 1]) simp_all
  then have b: "bit (fl_mask st) 1" using inv(1) by (auto simp: busy_ok_def split: if_splits)
  have z: "Bit_Operations.unset_bit 1 (fl_mask st) = 0"
    using inv(2) assms(3) mask_nonzero [of "Bit_Operations.unset_bit 1 (fl_mask st)"] mask_bits(2) [of 1 "fl_mask st"]
    by (metis mask_ok_def)
  have s: "fl_stopped st" using inv(3) b by (auto simp: ifaces_ok_def mask_nonzero)
  have e: "txq_start 1 st = (set_dev_busy 1 0 st)\<lparr>fl_mask := 0, fl_subqueues := False, fl_stopped := False\<rparr>"
    using b z s assms(2) by (simp add: txq_start_def Let_def resume_net_ifaces_def set_dev_busy_def set_fl_dev_def)
  have d: "fl_dev (txq_start 1 st) j = (if j = 1 then (fl_dev st 1)\<lparr>txq := (txq (fl_dev st 1))\<lparr>cq_busy := 0\<rparr>\<rparr> else fl_dev st j)" for j
    using assms(4) unfolding e by (simp add: fl_dev_def set_dev_busy_def set_fl_dev_def)
  show "fl_mask (txq_start 1 st) = 0" "\<not> fl_subqueues (txq_start 1 st)" "\<not> fl_stopped (txq_start 1 st)"
    "length (l_dev (fl_link (txq_start 1 st))) = length (l_dev (fl_link st))"
    unfolding e by simp_all
  show "cq_busy (txq (fl_dev (txq_start 1 st) 1)) = 0" "tx_stream (fl_dev (txq_start 1 st) j) = tx_stream (fl_dev st j)"
    "dev_ready (fl_dev (txq_start 1 st) j) = dev_ready (fl_dev st j)"
    unfolding d by (simp_all add: tx_stream_def dev_ready_def cq_busy_irrelevant)
qed

end
