(* ===== verification/ModemRxAny.thy ===== *)
theory ModemRxAny
  imports ModemRx
begin

text \<open>
  The receive loop of the legacy link on whatever bytes the modem has put into the queue: it never
  copies outside the queue; it ends when no place of the queue holds a valid header with length
  zero; and on such a header it need not end.
\<close>

definition hdr_at :: "protocol \<Rightarrow> circ_queue \<Rightarrow> nat \<Rightarrow> u8 list \<Rightarrow> u8 list" where
  "hdr_at p q off xs = ring_bytes (cq_buff q) off (hdr_read p) @ xs"

definition no_zero_frame :: "protocol \<Rightarrow> circ_queue \<Rightarrow> bool" where
  "no_zero_frame p q \<longleftrightarrow> (\<forall>off < length (cq_buff q). \<forall>xs. is_start_valid p (hdr_at p q off xs) \<longrightarrow> get_total_len p (hdr_at p q off xs) \<noteq> 0)"

text \<open>The cases of a round on any bytes.\<close>

lemma recv_cases [consumes 1, case_names err frame]:
  assumes "rx_ready st"
  obtains (err) e st1 where "recv_from_legacy_link p env (cq_head (rx_queue st)) st = Some (e, None, st1)" "e \<noteq> 0" "rx_ready st1"
      "rx_passed st1 = rx_passed st"
  | (frame) b st1 xs where "recv_from_legacy_link p env (cq_head (rx_queue st)) st = Some (0, Some b, st1)" "rx_ready st1"
      "cq_data (rx_queue st) = b @ cq_data (rx_queue st1)" "cq_head (rx_queue st1) = cq_head (rx_queue st)"
      "cq_buff (rx_queue st1) = cq_buff (rx_queue st)" "rx_passed st1 = rx_passed st"
      "is_start_valid p (hdr_at p (rx_queue st) (unat (cq_tail (rx_queue st))) xs)"
      "length b = unat (get_total_len p (hdr_at p (rx_queue st) (unat (cq_tail (rx_queue st))) xs))"
proof -
  consider (a) "\<exists>e st1. recv_from_legacy_link p env (cq_head (rx_queue st)) st = Some (e, None, st1) \<and> e \<noteq> 0 \<and> rx_ready st1 \<and> rx_passed st1 = rx_passed st"
    | (b) "\<exists>b st1 xs. recv_from_legacy_link p env (cq_head (rx_queue st)) st = Some (0, Some b, st1) \<and> rx_ready st1
          \<and> cq_data (rx_queue st) = b @ cq_data (rx_queue st1) \<and> cq_head (rx_queue st1) = cq_head (rx_queue st)
          \<and> cq_buff (rx_queue st1) = cq_buff (rx_queue st) \<and> rx_passed st1 = rx_passed st \<and> rx_crashes st1 = rx_crashes st
          \<and> is_start_valid p (hdr_at p (rx_queue st) (unat (cq_tail (rx_queue st))) xs)
          \<and> length b = unat (get_total_len p (hdr_at p (rx_queue st) (unat (cq_tail (rx_queue st))) xs))"
    using recv_any [OF assms, of p env] assms unfolding hdr_at_def by fastforce
  then show thesis
  proof cases
    case a then show thesis using err by blast
  next
    case b then show thesis using frame by blast
  qed
qed

lemma rx_loop_ends:
  assumes "rx_ready st" and "no_zero_frame p (rx_queue st)"
  shows "\<exists>r st' ps. rx_loop p env iods (cq_head (rx_queue st)) qlen rcvd st = Some (Some (r, st')) \<and> rx_ready st'
    \<and> rx_passed st' = rx_passed st @ ps \<and> prefix (concat (map snd ps)) (cq_data (rx_queue st))"
  using assms
proof (induction "length (cq_data (rx_queue st))" arbitrary: st rcvd rule: less_induct)
  case less
  note un = rx_loop.simps [of p env iods "cq_head (rx_queue st)" qlen rcvd st]
  show ?case
  proof (cases "rcvd < qlen")
    case False
    then show ?thesis using un less.prems(1) by (intro exI [of _ "sint rcvd"] exI [of _ st] exI [of _ "[]"]) simp
  next
    case go: True
    from less.prems(1) show ?thesis
    proof (cases rule: recv_cases [where p = p and env = env])
      case (err e st1)
      then show ?thesis using un go by (intro exI [of _ e] exI [of _ st1] exI [of _ "[]"]) simp
    next
      case (frame b st1 xs)
      let ?ch = "get_ch p (rx_tailroom env (length (rx_passed st))) b" and ?r = "rcvd + of_nat (length b)"
      let ?st2 = "rx_pass ?ch b st1"
      show ?thesis
      proof (cases "iods ?ch")
        case False
        then show ?thesis
          using un go frame(1,2,6)
          by (intro exI [of _ "sint rcvd"] exI [of _ "rx_crash ''ERR! No IOD from CP in rx_frames_from_dev()'' st1"] exI [of _ "[]"])
            (simp add: rx_ready_def Let_def)
      next
        case True
        have "unat (cq_tail (rx_queue st)) < length (cq_buff (rx_queue st))"
          using less.prems(1) by (simp add: rx_ready_def cq_okD)
        then have "0 < length b" using less.prems(2) frame(7,8) by (auto simp: no_zero_frame_def word_unat_eq_iff)
        then have lt: "length (cq_data (rx_queue ?st2)) < length (cq_data (rx_queue st))" using frame(3) by simp
        have nz: "no_zero_frame p (rx_queue ?st2)" using less.prems(2) frame(5) by (simp add: no_zero_frame_def hdr_at_def)
        have "rx_ready ?st2" using frame(2) by (simp add: rx_ready_def)
        from less.hyps [OF lt this nz, of ?r] obtain r st' ps where
          "rx_loop p env iods (cq_head (rx_queue ?st2)) qlen ?r ?st2 = Some (Some (r, st'))" "rx_ready st'"
          "rx_passed st' = rx_passed ?st2 @ ps" "prefix (concat (map snd ps)) (cq_data (rx_queue ?st2))"
          by blast
        then show ?thesis
          using un go True frame by (intro exI [of _ r] exI [of _ st'] exI [of _ "(?ch, b) # ps"]) (simp add: Let_def)
      qed
    qed
  qed
qed

text \<open>No run faults, ended or not.\<close>

lemma rx_loop_no_fault:
  assumes "rx_loop p env iods inp qlen rcvd st = Some y" and "rx_ready st" and "inp = cq_head (rx_queue st)"
  shows "y \<noteq> None"
proof -
  have "rx_ready st \<longrightarrow> inp = cq_head (rx_queue st) \<longrightarrow> y \<noteq> None"
    using assms(1)
  proof (rule rx_loop.raw_induct [rotated, where P = "\<lambda>p env iods inp qlen rcvd st y. rx_ready st \<longrightarrow> inp = cq_head (rx_queue st) \<longrightarrow> y \<noteq> None"], goal_cases)
    case (1 loop p env iods inp qlen rcvd st y)
    show ?case
    proof (intro impI)
      assume rdy: "rx_ready st" and inp: "inp = cq_head (rx_queue st)"
      from rdy show "y \<noteq> None"
      proof (cases rule: recv_cases [where p = p and env = env])
        case (err e st1)
        then show ?thesis using 1(2) inp by (auto split: if_splits)
      next
        case (frame b st1 xs)
        have "rx_ready (rx_pass c b st1)" "cq_head (rx_queue (rx_pass c b st1)) = inp" for c
          using frame(2,4) inp by (auto simp: rx_ready_def)
        then show ?thesis using 1 inp frame(1) by (auto simp: Let_def split: if_splits)
      qed
    qed
  qed
  then show ?thesis using assms(2,3) by blast
qed

text \<open>A header that announces no bytes at all is received again and again.\<close>

definition zero_frame :: "protocol \<Rightarrow> circ_queue \<Rightarrow> bool" where
  "zero_frame p q \<longleftrightarrow> (\<forall>xs. is_start_valid p (hdr_at p q (unat (cq_tail q)) xs) \<and> get_total_len p (hdr_at p q (unat (cq_tail q)) xs) = 0)"

lemma recv_zero:
  assumes "rx_ready st" and "zero_frame p (rx_queue st)" and "\<forall>k. rx_alloc env k"
  shows "recv_from_legacy_link p env (cq_head (rx_queue st)) st = Some (0, Some [], st)"
proof -
  let ?q = "rx_queue st"
  have ok: "cq_ok ?q" using assms(1) by (simp add: rx_ready_def)
  note k = cq_okD [OF ok]
  obtain p' where p': "circ_new_ptr (cq_size ?q) (cq_tail ?q) 0 = Some p'" "unat p' = (unat (cq_tail ?q) + unat (0 :: u32)) mod unat (cq_size ?q)"
    using new_ptr [of "cq_tail ?q" 0 "cq_size ?q"] k by fastforce
  have "p' = cq_tail ?q" using p'(2) k(5) by (simp add: word_unat_eq_iff)
  then have "cq_take ?q 0 = Some ([], ?q)"
    using p'(1) circ_read_ok [of "cq_buff ?q" "cq_size ?q" "cq_tail ?q" 0] k by (simp add: cq_take_def ring_bytes_def)
  moreover have "set_rx_queue ?q st = st" by (simp add: set_rx_queue_def rx_queue_def)
  ultimately show ?thesis
    using assms(2,3) hdr_circ_read [OF assms(1), of p] by (simp add: recv_from_legacy_link_def Let_def zero_frame_def hdr_at_def)
qed

lemma rx_loop_hangs:
  assumes "rx_ready st" and "zero_frame p (rx_queue st)" and "\<forall>k. rx_alloc env k" and "\<forall>k. iods (rx_tailroom env k)"
    and "rcvd < qlen"
  shows "rx_loop p env iods (cq_head (rx_queue st)) qlen rcvd st = None"
proof -
  let ?stuck = "\<lambda>p env iods inp qlen rcvd st. rx_ready st \<and> zero_frame p (rx_queue st) \<and> (\<forall>k. rx_alloc env k) \<and> (\<forall>k. iods (rx_tailroom env k))
    \<and> rcvd < qlen \<and> inp = cq_head (rx_queue st)"
  have "\<not> ?stuck p env iods inp qlen rcvd st" if run: "rx_loop p env iods inp qlen rcvd st = Some y" for inp y
    using run
  proof (rule rx_loop.raw_induct [rotated, where P = "\<lambda>p env iods inp qlen rcvd st y. \<not> ?stuck p env iods inp qlen rcvd st"], goal_cases)
    case (1 loop p env iods inp qlen rcvd st y)
    show ?case
    proof (rule notI)
      assume a: "?stuck p env iods inp qlen rcvd st"
      then have r: "recv_from_legacy_link p env inp st = Some (0, Some [], st)" using recv_zero by blast
      let ?c = "rx_tailroom env (length (rx_passed st))"
      have "loop p env iods inp qlen rcvd (rx_pass ?c [] st) = Some y"
        using 1(2) r a by (simp add: get_ch_def Let_def)
      from 1(1) [OF this] show False using a by (simp add: rx_ready_def)
    qed
  qed
  then show ?thesis using assms by (metis not_Some_eq)
qed

end
