(* ===== verification/ModemRing.thy ===== *)
theory ModemRing
  imports ModemSbd ModemFrames
begin

text \<open>
  The rings of the SBD link as queues of messages: \<^verbatim>\<open>sbd_pio_tx\<close> and \<^verbatim>\<open>sbd_pio_rx\<close> on one ring are the two ends of a
  bounded first-in first-out queue, an instance of \<open>msg_fifo\<close>. A message is a channel with its bytes.
\<close>

subsection \<open>Positions\<close>

lemma unat_ucast_up [simp]: "unat (ucast (w :: u16) :: u32) = unat w"
  using unsigned_less [of w, where 'a = nat] by (simp add: unsigned_ucast_eq take_bit_nat_eq_self_iff)

lemma unat_ucast_down:
  assumes "unat (w :: u32) < 2 ^ 16"
  shows "unat (ucast w :: u16) = unat w"
  using assms by (simp add: unsigned_ucast_eq take_bit_nat_eq_self_iff)

definition rb_ok :: "sbd_ring_buffer \<Rightarrow> bool" where
  "rb_ok rb \<longleftrightarrow> length (sb_buff rb) = unat (sb_len rb) \<and> length (sb_buff_len_array rb) = unat (sb_len rb)
     \<and> (\<forall>slot \<in> set (sb_buff rb). length slot = unat (sb_buff_size rb))
     \<and> sb_payload_offset rb \<le> sb_buff_size rb \<and> sb_rp rb < sb_len rb \<and> sb_wp rb < sb_len rb"

lemma rb_okD:
  assumes "rb_ok rb"
  shows "length (sb_buff rb) = unat (sb_len rb)" "length (sb_buff_len_array rb) = unat (sb_len rb)"
    "\<forall>slot \<in> set (sb_buff rb). length slot = unat (sb_buff_size rb)"
    "unat (sb_payload_offset rb) \<le> unat (sb_buff_size rb)" "unat (sb_rp rb) < unat (sb_len rb)" "unat (sb_wp rb) < unat (sb_len rb)"
  using assms by (auto simp: rb_ok_def word_le_nat_alt word_less_nat_alt)

lemma rb_circ_valid: "rb_ok rb \<Longrightarrow> circ_valid (ucast (sb_len rb)) (ucast (sb_wp rb)) (ucast (sb_rp rb))"
  by (rule circ_validI) (simp_all add: rb_okD)

lemma unat_rb_usage:
  assumes "rb_ok rb"
  shows "unat (rb_usage rb) = (unat (sb_wp rb) + unat (sb_len rb) - unat (sb_rp rb)) mod unat (sb_len rb)"
  using unat_usage [OF rb_circ_valid [OF assms]] by (simp add: rb_usage_def)

lemma rb_usage_bound: "rb_ok rb \<Longrightarrow> unat (rb_usage rb) < unat (sb_len rb)"
  using rb_okD(5) unat_rb_usage by fastforce

lemma unat_rb_space:
  assumes "rb_ok rb"
  shows "unat (rb_space rb) = unat (sb_len rb) - 1 - unat (rb_usage rb)"
  using unat_space [OF rb_circ_valid [OF assms]] by (simp add: rb_space_def rb_usage_def)

lemma rb_empty_usage:
  assumes "rb_ok rb"
  shows "rb_empty rb \<longleftrightarrow> unat (rb_usage rb) = 0"
  using unat_rb_usage [OF assms] rb_okD(5,6) [OF assms] ring_dist [OF rb_okD(6) [OF assms] rb_okD(5) [OF assms]]
  by (auto simp: rb_empty_def circ_empty_def word_unat_eq_iff)

lemma rb_payload_unat:
  assumes "rb_ok rb"
  shows "unat (rb_payload_space rb) = unat (sb_buff_size rb) - unat (sb_payload_offset rb)"
  using rb_okD(4) [OF assms] by (simp add: rb_payload_space_def unat_sub word_le_nat_alt)

text \<open>Stepping a position.\<close>

lemma rb_step:
  assumes "unat (w :: u16) < unat (n :: u16)"
  obtains p where "circ_new_ptr (ucast n) (ucast w) 1 = Some p" and "unat (ucast p :: u16) = (unat w + 1) mod unat n"
proof -
  have "unat w < 2 ^ 16" "unat n < 2 ^ 16" using unsigned_less [of w, where 'a = nat] unsigned_less [of n, where 'a = nat] by simp_all
  then obtain p where p: "circ_new_ptr (ucast n) (ucast w) 1 = Some p" "unat p = (unat w + 1) mod unat n"
    using new_ptr [of "ucast w" 1 "ucast n"] assms by auto
  have "unat p < unat n" using p(2) assms by simp
  then have "unat (ucast p :: u16) = unat p" using \<open>unat n < 2 ^ 16\<close> by (intro unat_ucast_down) simp
  then show thesis using p by (intro that [of p]) simp_all
qed

subsection \<open>Length words\<close>

lemma len_word_len:
  assumes "length (t_data skb) < 2 ^ 16"
  shows "unat (rb_len_word rb skb AND 0xFFFF) = length (t_data skb)"
proof -
  have n: "unat (of_nat (length (t_data skb)) :: u32) = length (t_data skb)"
    using assms by (simp add: unsigned_of_nat take_bit_nat_eq_self_iff)
  have "(of_nat (length (t_data skb)) :: u32) AND mask 16 = of_nat (length (t_data skb))"
    using assms n by (simp add: take_bit_eq_mask [symmetric] word_unat_eq_iff unsigned_take_bit_eq take_bit_nat_eq_self_iff)
  moreover have "(x OR push_bit 16 (y :: u32)) AND mask 16 = x AND mask 16" for x y
    by (rule bit_word_eqI) (auto simp: bit_simps)
  ultimately have "rb_len_word rb skb AND mask 16 = of_nat (length (t_data skb))"
    by (simp add: rb_len_word_def Let_def and.assoc mask_eq_exp_minus_1)
  then show ?thesis using n by (simp add: mask_eq_exp_minus_1)
qed

lemma len_word_ch:
  assumes "rb_ps_ch rb" and "t_ch skb = ucast (c :: u8)"
  shows "ucast (drop_bit 16 (rb_len_word rb skb) AND 0xFFFF) = c"
proof -
  have "ucast (drop_bit 16 ((x AND mask 16) OR push_bit 16 (ucast c :: u32)) AND mask 16 :: u32) = c" for x
    by (rule bit_word_eqI) (auto simp: bit_simps)
  then show ?thesis using assms by (simp add: rb_len_word_def Let_def mask_eq_exp_minus_1)
qed

subsection \<open>The messages of a ring\<close>

text \<open>The message in a slot, from its length word and its bytes.\<close>

definition slot_msg :: "sbd_ring_buffer \<Rightarrow> u32 \<times> u8 list \<Rightarrow> u8 \<times> u8 list" where
  "slot_msg rb s =
     (if rb_ps_ch rb then ucast (drop_bit 16 (fst s) AND 0xFFFF) else ucast (sb_ch rb),
      take (unat (fst s AND 0xFFFF)) (drop (unat (sb_payload_offset rb)) (snd s)))"

definition rb_slots :: "sbd_ring_buffer \<Rightarrow> (u32 \<times> u8 list) list" where
  "rb_slots rb = ring_bytes (zip (sb_buff_len_array rb) (sb_buff rb)) (unat (sb_rp rb)) (unat (rb_usage rb))"

definition rb_msgs :: "sbd_ring_buffer \<Rightarrow> (u8 \<times> u8 list) list" where
  "rb_msgs rb = map (slot_msg rb) (rb_slots rb)"

text \<open>Every length word in use fits its slot.\<close>

definition rb_lens_ok :: "sbd_ring_buffer \<Rightarrow> bool" where
  "rb_lens_ok rb \<longleftrightarrow> (\<forall>s \<in> set (rb_slots rb). fst s AND 0xFFFF \<le> rb_payload_space rb)"

text \<open>The parameters of a ring, which no operation changes.\<close>

definition rb_conf :: "sbd_ring_buffer \<Rightarrow> u16 \<times> u16 \<times> u16 \<times> u16" where
  "rb_conf rb = (sb_ch rb, sb_len rb, sb_buff_size rb, sb_payload_offset rb)"

lemma rb_conf_cong:
  assumes "rb_conf rb' = rb_conf rb"
  shows "rb_ps_ch rb' = rb_ps_ch rb" "rb_payload_space rb' = rb_payload_space rb" "slot_msg rb' = slot_msg rb"
    "rb_len_word rb' = rb_len_word rb"
  using assms by (auto simp: rb_conf_def rb_ps_ch_def rb_payload_space_def slot_msg_def rb_len_word_def fun_eq_iff)

definition sbd_msg :: "sbd_ring_buffer \<Rightarrow> tx_skb \<Rightarrow> u8 \<times> u8 list" where
  "sbd_msg rb skb = (if rb_ps_ch rb then ucast (t_ch skb) else ucast (sb_ch rb), t_data skb)"

lemma sbd_tx_accepts:
  assumes ok: "rb_ok rb" and lens: "rb_lens_ok rb" and room: "unat (rb_usage rb) + 1 < unat (sb_len rb)"
    and fits: "length (t_data skb) \<le> unat (rb_payload_space rb)" and ch: "t_ch skb < 256"
  obtains rb' where "sbd_pio_tx rb skb = Some (int (length (t_data skb)), rb')" and "rb_ok rb'" and "rb_lens_ok rb'"
    and "rb_msgs rb' = rb_msgs rb @ [sbd_msg rb skb]" and "rb_conf rb' = rb_conf rb" and "sb_rp rb' = sb_rp rb"
    and "unat (rb_usage rb') = unat (rb_usage rb) + 1"
proof -
  note k = rb_okD [OF ok]
  let ?n = "unat (sb_len rb)" and ?w = "unat (sb_wp rb)" and ?r = "unat (sb_rp rb)" and ?u = "unat (rb_usage rb)"
  let ?po = "unat (sb_payload_offset rb)"
  have small: "?n < 2 ^ 16" "unat (sb_buff_size rb) < 2 ^ 16"
    using unsigned_less [of "sb_len rb", where 'a = nat] unsigned_less [of "sb_buff_size rb", where 'a = nat] by simp_all
  have len: "?po + length (t_data skb) \<le> unat (sb_buff_size rb)" "length (t_data skb) < 2 ^ 16"
    using fits rb_payload_unat [OF ok] k(4) small(2) by linarith+
  obtain p where p: "circ_new_ptr (ucast (sb_len rb)) (ucast (sb_wp rb)) 1 = Some p" "unat (ucast p :: u16) = (?w + 1) mod ?n"
    using rb_step [OF k(6)] by blast
  have slot: "length (sb_buff rb ! ?w) = unat (sb_buff_size rb)" using k(1,3,6) by simp
  let ?slot = "take ?po (sb_buff rb ! ?w) @ t_data skb @ drop (?po + length (t_data skb)) (sb_buff rb ! ?w)"
  have put: "mem_put (sb_buff rb ! ?w) (ucast (sb_payload_offset rb)) (t_data skb) = Some ?slot"
    using len slot by (simp add: mem_put_def)
  have sp: "unat (circ_get_space (ucast (sb_len rb)) (ucast (sb_wp rb)) (ucast (sb_rp rb))) = ?n - 1 - ?u"
    using unat_rb_space [OF ok] by (simp add: rb_space_def)
  have chk: "\<not> check_rb_space (ucast (sb_len rb)) (ucast (sb_wp rb)) (ucast (sb_rp rb)) < 0"
  proof -
    have "sint (circ_get_space (ucast (sb_len rb)) (ucast (sb_wp rb)) (ucast (sb_rp rb))) \<ge> 0"
      using sp small by (subst sint_short) simp_all
    moreover have "\<not> circ_get_space (ucast (sb_len rb)) (ucast (sb_wp rb)) (ucast (sb_rp rb)) < (1 :: u32)"
      using sp room by (simp add: word_less_nat_alt)
    ultimately show ?thesis using rb_circ_valid [OF ok] by (simp add: check_rb_space_def Let_def)
  qed
  have cnt: "\<not> of_nat (length (t_data skb)) > rb_payload_space rb"
    using fits len(2) unat_of_nat_short [of "length (t_data skb)"] by (simp add: word_less_nat_alt)
  let ?rb = "rb\<lparr>sb_buff := (sb_buff rb)[?w := ?slot], sb_buff_len_array := (sb_buff_len_array rb)[?w := rb_len_word rb skb], sb_wp := ucast p\<rparr>"
  have run: "sbd_pio_tx rb skb = Some (int (length (t_data skb)), ?rb)"
    using chk cnt k put p(1) by (simp add: sbd_pio_tx_def Let_def)
  have len': "length ?slot = unat (sb_buff_size rb)" using len slot by simp
  have ok': "rb_ok ?rb"
    using ok k p(2) len' set_update_subset_insert [of "sb_buff rb" ?w ?slot] by (auto simp: rb_ok_def word_less_nat_alt word_le_nat_alt)
  have u': "unat (rb_usage ?rb) = ?u + 1"
    using unat_rb_usage [OF ok'] unat_rb_usage [OF ok] p(2) dist_head [of ?w ?n ?r 1] k room by simp
  have wu: "(?r + ?u) mod ?n = ?w"
    using unat_rb_usage [OF ok] k ring_dist [of ?w ?n ?r] by (auto simp: mod_if)
  have slots: "rb_slots ?rb = rb_slots rb @ [(rb_len_word rb skb, ?slot)]"
    using ring_bytes_push [of ?u "zip (sb_buff_len_array rb) (sb_buff rb)" ?r "(rb_len_word rb skb, ?slot)"] k u' wu room
    by (simp add: rb_slots_def update_zip)
  have conf: "rb_conf ?rb = rb_conf rb" by (simp add: rb_conf_def)
  have wlen: "unat (rb_len_word rb skb AND 0xFFFF) = length (t_data skb)" by (rule len_word_len [OF len(2)])
  have "slot_msg rb (rb_len_word rb skb, ?slot) = sbd_msg rb skb"
  proof -
    have "unat (ucast (ucast (t_ch skb) :: u8) :: u32) = unat (t_ch skb)"
      using ch by (simp add: unsigned_ucast_eq unsigned_take_bit_eq take_bit_nat_eq_self_iff word_less_nat_alt)
    then have "t_ch skb = ucast (ucast (t_ch skb) :: u8)" by (simp only: word_unat_eq_iff)
    then show ?thesis using wlen len slot len_word_ch [of rb skb "ucast (t_ch skb)"] by (simp add: slot_msg_def sbd_msg_def)
  qed
  then have msgs: "rb_msgs ?rb = rb_msgs rb @ [sbd_msg rb skb]" using slots rb_conf_cong(3) [OF conf] by (simp add: rb_msgs_def)
  have lens': "rb_lens_ok ?rb"
    using lens slots wlen fits rb_conf_cong(2) [OF conf] by (auto simp: rb_lens_ok_def word_le_nat_alt)
  show thesis by (rule that [OF run ok' lens' msgs conf _ u']) simp
qed

lemma sbd_tx_refuses:
  assumes ok: "rb_ok rb" and full: "\<not> unat (rb_usage rb) + 1 < unat (sb_len rb)"
  shows "sbd_pio_tx rb skb = Some (- ENOSPC, rb)"
proof -
  have "unat (circ_get_space (ucast (sb_len rb)) (ucast (sb_wp rb)) (ucast (sb_rp rb)) :: u32) = 0"
    using unat_rb_space [OF ok] full by (simp add: rb_space_def)
  then have "check_rb_space (ucast (sb_len rb)) (ucast (sb_wp rb)) (ucast (sb_rp rb)) = - ENOSPC"
    using rb_circ_valid [OF ok] by (simp add: check_rb_space_def Let_def word_less_nat_alt)
  then show ?thesis by (simp add: sbd_pio_tx_def Let_def)
qed

lemma sbd_rx_first:
  assumes ok: "rb_ok rb" and lens: "rb_lens_ok rb" and some: "rb_msgs rb = m # ms"
  obtains skb rb' where "sbd_pio_rx True iods room rb = Some (Some skb, rb')" and "(r_ch skb, r_data skb) = m"
    and "rb_ok rb'" and "rb_lens_ok rb'" and "rb_msgs rb' = ms" and "rb_conf rb' = rb_conf rb"
    and "unat (rb_usage rb) = Suc (unat (rb_usage rb'))"
    and "r_lnk_hdr skb \<longleftrightarrow> sb_lnk_hdr rb \<and> \<not> sb_more rb"
    and "r_iod skb \<longleftrightarrow> (if rb_ps_ch rb then iods (ucast (drop_bit 16 (sb_buff_len_array rb ! unat (sb_rp rb)) AND 0xFFFF)) else sb_iod rb)"
proof -
  note k = rb_okD [OF ok]
  let ?n = "unat (sb_len rb)" and ?w = "unat (sb_wp rb)" and ?r = "unat (sb_rp rb)" and ?po = "unat (sb_payload_offset rb)"
  let ?v = "sb_buff_len_array rb ! ?r" and ?slot = "sb_buff rb ! ?r"
  obtain u where u: "unat (rb_usage rb) = Suc u" using some by (cases "unat (rb_usage rb)") (auto simp: rb_msgs_def rb_slots_def ring_bytes_def)
  obtain p where p: "circ_new_ptr (ucast (sb_len rb)) (ucast (sb_rp rb)) 1 = Some p" "unat (ucast p :: u16) = (?r + 1) mod ?n"
    using rb_step [OF k(5)] by blast
  have slots: "rb_slots rb = (?v, ?slot) # ring_bytes (zip (sb_buff_len_array rb) (sb_buff rb)) ((?r + 1) mod ?n) u"
    using ring_bytes_pop [of "zip (sb_buff_len_array rb) (sb_buff rb)" ?r u] u k by (simp add: rb_slots_def)
  have le: "?v AND 0xFFFF \<le> rb_payload_space rb" using lens slots by (simp add: rb_lens_ok_def)
  have sl: "length ?slot = unat (sb_buff_size rb)" using k(1,3,5) by simp
  have "unat (?v AND 0xFFFF) \<le> unat (sb_buff_size rb) - ?po" using le rb_payload_unat [OF ok] by (simp add: word_le_nat_alt)
  then have get: "mem_get ?slot (ucast (sb_payload_offset rb)) (?v AND 0xFFFF) = Some (take (unat (?v AND 0xFFFF)) (drop ?po ?slot))"
    using sl k(4) by (simp add: mem_get_def)
  have rd: "recv_data True rb (sb_rp rb) = Some (Some (take (unat (?v AND 0xFFFF)) (drop ?po ?slot)))"
    using k le get by (simp add: recv_data_def Let_def not_less)
  let ?skb = "set_skb_priv iods rb (set_lnk_hdr rb \<lparr>r_data = take (unat (?v AND 0xFFFF)) (drop ?po ?slot), r_ch = 0, r_iod = False, r_lnk_hdr = False, r_napi = False\<rparr>)"
  let ?rb = "(check_more room ?skb rb)\<lparr>sb_rp := ucast p\<rparr>"
  have run: "sbd_pio_rx True iods room rb = Some (Some ?skb, ?rb)" using rd p(1) by (simp add: sbd_pio_rx_def Let_def)
  have keep: "sb_buff ?rb = sb_buff rb" "sb_buff_len_array ?rb = sb_buff_len_array rb" "sb_len ?rb = sb_len rb" "sb_wp ?rb = sb_wp rb"
    "sb_buff_size ?rb = sb_buff_size rb" "sb_payload_offset ?rb = sb_payload_offset rb" "sb_ch ?rb = sb_ch rb" "sb_rp ?rb = ucast p"
    by (simp_all add: check_more_def Let_def)
  have conf: "rb_conf ?rb = rb_conf rb" using keep by (simp add: rb_conf_def)
  have ok': "rb_ok ?rb" unfolding rb_ok_def keep using ok k p(2) by (simp add: rb_ok_def word_less_nat_alt)
  have "unat (rb_usage ?rb) = unat (rb_usage rb) - 1"
    unfolding unat_rb_usage [OF ok'] unat_rb_usage [OF ok] keep p(2)
    using dist_tail [of ?w ?n ?r 1] k u unat_rb_usage [OF ok] by simp
  then have u': "unat (rb_usage ?rb) = u" using u by simp
  have "rb_slots ?rb = ring_bytes (zip (sb_buff_len_array rb) (sb_buff rb)) ((?r + 1) mod ?n) u"
    by (simp only: rb_slots_def keep u' p(2))
  then have slots': "rb_slots rb = (?v, ?slot) # rb_slots ?rb" using slots by simp
  have lens': "rb_lens_ok ?rb" using lens slots' rb_conf_cong(2) [OF conf] by (simp add: rb_lens_ok_def)
  have msgs: "m = slot_msg rb (?v, ?slot)" "ms = rb_msgs ?rb"
    using some slots' rb_conf_cong(3) [OF conf] by (simp_all add: rb_msgs_def)
  show thesis
    by (rule that [OF run _ ok' lens' msgs(2) [symmetric] conf])
      (use msgs(1) u u' in \<open>auto simp: slot_msg_def set_skb_priv_def set_lnk_hdr_def Let_def\<close>)
qed

subsection \<open>The two ends of a ring\<close>

definition sbd_put :: "sbd_ring_buffer \<Rightarrow> u8 \<times> u8 list \<Rightarrow> (bool \<times> sbd_ring_buffer) option" where
  "sbd_put rb m = map_option (\<lambda>(ret, rb'). (0 \<le> ret, rb')) (sbd_pio_tx rb \<lparr>t_data = snd m, t_ch = ucast (fst m)\<rparr>)"

definition sbd_get :: "(u32 \<Rightarrow> bool) \<Rightarrow> u8 list \<Rightarrow> sbd_ring_buffer \<Rightarrow> ((u8 \<times> u8 list) option \<times> sbd_ring_buffer) option" where
  "sbd_get iods room rb =
     (if rb_empty rb then Some (None, rb)
      else map_option (\<lambda>(skb, rb'). (map_option (\<lambda>s. (r_ch s, r_data s)) skb, rb')) (sbd_pio_rx True iods room rb))"

text \<open>\<open>cf\<close> are the parameters of the ring: channel, length, size of a slot, offset of the payload.\<close>

definition sbd_holds :: "u16 \<times> u16 \<times> u16 \<times> u16 \<Rightarrow> sbd_ring_buffer \<Rightarrow> (u8 \<times> u8 list) list \<Rightarrow> bool" where
  "sbd_holds cf rb ms \<longleftrightarrow> rb_ok rb \<and> rb_lens_ok rb \<and> rb_msgs rb = ms \<and> rb_conf rb = cf"

definition sbd_msg_ok :: "u16 \<times> u16 \<times> u16 \<times> u16 \<Rightarrow> u8 \<times> u8 list \<Rightarrow> bool" where
  "sbd_msg_ok cf m \<longleftrightarrow> (case cf of (ch, n, bs, po) \<Rightarrow>
     length (snd m) \<le> unat bs - unat po \<and> (\<not> sipc_ps_ch (ucast ch) \<longrightarrow> fst m = ucast ch))"

lemma sbd_msg_ok_ring:
  assumes "rb_ok rb" and "sbd_msg_ok (rb_conf rb) m"
  shows "length (snd m) \<le> unat (rb_payload_space rb)" and "sbd_msg rb \<lparr>t_data = snd m, t_ch = ucast (fst m)\<rparr> = m"
proof -
  show "length (snd m) \<le> unat (rb_payload_space rb)"
    using assms rb_payload_unat [OF assms(1)] by (simp add: sbd_msg_ok_def rb_conf_def)
  have "ucast (ucast c :: u32) = c" for c :: u8
    by (rule bit_word_eqI) (auto simp: bit_simps)
  then show "sbd_msg rb \<lparr>t_data = snd m, t_ch = ucast (fst m)\<rparr> = m"
    using assms(2) by (simp add: sbd_msg_def sbd_msg_ok_def rb_conf_def rb_ps_ch_def prod_eq_iff)
qed

lemma ucast_u8_bound: "(ucast (c :: u8) :: u32) < 256"
proof -
  have "unat (ucast c :: u32) = take_bit 32 (unat c)" by (simp add: unsigned_ucast_eq)
  also have "\<dots> \<le> unat c" by (rule take_bit_nat_less_eq_self)
  also have "\<dots> < 256" using unsigned_less [of c, where 'a = nat] by simp
  finally show ?thesis by (simp add: word_less_nat_alt)
qed

lemma length_rb_msgs: "length (rb_msgs rb) = unat (rb_usage rb)"
  by (simp add: rb_msgs_def rb_slots_def)

interpretation sbd: msg_fifo "sbd_holds cf" "\<lambda>rb. unat (sb_len rb) - 1" "\<lambda>_. 1" "sbd_msg_ok cf" sbd_put "sbd_get iods room"
proof unfold_locales
  fix rb ms and m :: "u8 \<times> u8 list"
  assume h: "sbd_holds cf rb ms" and m: "sbd_msg_ok cf m" and fit: "sum_list (map (\<lambda>_. 1) ms) + 1 \<le> unat (sb_len rb) - 1"
  let ?skb = "\<lparr>t_data = snd m, t_ch = ucast (fst m)\<rparr>"
  have ok: "rb_ok rb" "rb_lens_ok rb" and cf: "rb_conf rb = cf" and ms: "rb_msgs rb = ms" using h by (auto simp: sbd_holds_def)
  have "unat (rb_usage rb) = length ms" using ms length_rb_msgs by metis
  then have "unat (rb_usage rb) + 1 < unat (sb_len rb)" using fit by (simp add: sum_list_triv)
  moreover have fits: "length (snd m) \<le> unat (rb_payload_space rb)" "sbd_msg rb ?skb = m"
    using sbd_msg_ok_ring [OF ok(1)] m cf by auto
  ultimately obtain rb' where "sbd_pio_tx rb ?skb = Some (int (length (snd m)), rb')" "rb_ok rb'" "rb_lens_ok rb'"
    "rb_msgs rb' = rb_msgs rb @ [sbd_msg rb ?skb]" "rb_conf rb' = rb_conf rb"
    using sbd_tx_accepts [OF ok, of ?skb] ucast_u8_bound by auto
  then show "\<exists>q'. sbd_put rb m = Some (True, q') \<and> sbd_holds cf q' (ms @ [m]) \<and> unat (sb_len q') - 1 = unat (sb_len rb) - 1"
    using fits ms cf by (auto simp: sbd_put_def sbd_holds_def rb_conf_def)
next
  fix rb ms and m :: "u8 \<times> u8 list"
  assume h: "sbd_holds cf rb ms" and "\<not> sum_list (map (\<lambda>_. 1) ms) + 1 \<le> unat (sb_len rb) - 1"
  moreover have "unat (rb_usage rb) = length ms" using h length_rb_msgs by (metis sbd_holds_def)
  ultimately have "sbd_pio_tx rb \<lparr>t_data = snd m, t_ch = ucast (fst m)\<rparr> = Some (- ENOSPC, rb)"
    by (intro sbd_tx_refuses) (auto simp: sbd_holds_def sum_list_triv)
  then show "sbd_put rb m = Some (False, rb)" by (simp add: sbd_put_def)
next
  fix rb
  assume "sbd_holds cf rb []"
  then have "rb_empty rb" using rb_empty_usage length_rb_msgs by (metis sbd_holds_def list.size(3))
  then show "sbd_get iods room rb = Some (None, rb)" by (simp add: sbd_get_def)
next
  fix rb m ms
  assume h: "sbd_holds cf rb (m # ms)"
  then have ok: "rb_ok rb" "rb_lens_ok rb" "rb_msgs rb = m # ms" by (auto simp: sbd_holds_def)
  then have ne: "\<not> rb_empty rb" using rb_empty_usage [OF ok(1)] length_rb_msgs [of rb] by simp
  from sbd_rx_first [OF ok, of iods room] obtain skb rb' where
    "sbd_pio_rx True iods room rb = Some (Some skb, rb')" "(r_ch skb, r_data skb) = m" "rb_ok rb'" "rb_lens_ok rb'"
    "rb_msgs rb' = ms" "rb_conf rb' = rb_conf rb" by metis
  then show "\<exists>q'. sbd_get iods room rb = Some (Some m, q') \<and> sbd_holds cf q' ms \<and> unat (sb_len q') - 1 = unat (sb_len rb) - 1"
    using h ne by (auto simp: sbd_get_def sbd_holds_def rb_conf_def)
qed

end
