(* ===== verification/ModemProps.thy ===== *)
theory ModemProps
  imports ModemFlowProps ModemRxAny ModemRing
begin

text \<open>
  The properties of the modem interface: its queues as first-in first-out queues of messages, the receive
  loops on well-formed and on arbitrary contents, transmit flow control.
\<close>

subsection \<open>Flow control\<close>

lemma nbusy_ex: "0 < nbusy bs \<longleftrightarrow> (\<exists>b \<in> set bs. 0 < b)"
  by (auto simp: nbusy_def filter_empty_conv)

lemma flow_inv_stopped:
  assumes "flow_inv st" and "fl_crashes st = []"
  shows "fl_stopped st = fl_subqueues st \<and> (fl_subqueues st \<longleftrightarrow> (\<exists>d \<in> set (l_dev (fl_link st)). 0 < cq_busy (txq d)) \<or> (\<exists>rb \<in> set (fl_rbs st). 0 < sb_busy rb) \<or> bit (fl_mask st) 2)"
proof -
  have inv: "busy_ok (v_devs (fview st)) (v_rbs (fview st)) (v_ps (fview st)) (bit (fl_mask st) 1)" "mask_ok (fl_mask st)"
    "ifaces_ok (fl_mask st) (fl_stopped st) (fl_subqueues st) (v_forced (fview st))"
    using assms(1) by (auto simp: flow_inv_def view_inv_def)
  have "bit (fl_mask st) 1 \<longleftrightarrow> 0 < nbusy (v_devs (fview st)) \<or> 0 < nbusy (v_rbs (fview st))"
    using inv(1) by (auto simp: busy_ok_def split: if_splits)
  moreover have "fl_stopped st = fl_subqueues st" "fl_subqueues st \<longleftrightarrow> fl_mask st \<noteq> 0"
    using inv(3) assms(2) by (auto simp: ifaces_ok_def fview_def)
  moreover have "fl_mask st \<noteq> 0 \<longleftrightarrow> bit (fl_mask st) 1 \<or> bit (fl_mask st) 2" using inv(2) by (auto simp: mask_ok_def mask_nonzero)
  ultimately show ?thesis by (simp add: nbusy_ex fview_def dev_busies_def rb_busies_def)
qed

lemma flow_reaches_inv:
  assumes "flow_init st0" and "flow_step\<^sup>*\<^sup>* st0 st"
  shows "flow_inv st"
  using flow_to_inv [OF flow_steps_to [OF assms(2)] flow_init_inv [OF assms(1)]] assms(1) by (simp add: flow_init_def)

text \<open>
  C21. From the creation of the link until the modem is started again, crashes or the link is closed, after any sequence of transmissions, timer expiries,
  acknowledgements, suspensions and moves of the modem in which no busy counter wraps around: the last order of flow control to the network devices
  is to stop exactly while a transmit queue or an uplink ring is under flow control or the modem has suspended
  transmission, and the flag \<^verbatim>\<open>netif_stopped\<close> says so. (Opening a device and the commands of single channels act on the same queues without flow control.)
\<close>

theorem flow_stops_iff_reason:
  assumes "flow_init st0" and "flow_step\<^sup>*\<^sup>* st0 st" and "fl_crashes st = []"
  shows "fl_stopped st = fl_subqueues st \<and>
    (fl_subqueues st \<longleftrightarrow> (\<exists>d \<in> set (l_dev (fl_link st)). 0 < cq_busy (txq d)) \<or> (\<exists>rb \<in> set (fl_rbs st). 0 < sb_busy rb) \<or> bit (fl_mask st) 2)"
  by (rule flow_inv_stopped [OF flow_reaches_inv [OF assms(1,2)] assms(3)])

text \<open>A link with a queue of eight bytes in either direction.\<close>

definition sample_cq :: circ_queue where
  "sample_cq = \<lparr>cq_busy = 0, cq_buff = replicate 8 0, cq_size = 8, cq_head = 0, cq_tail = 0\<rparr>"

definition sample_dev :: legacy_ipc_device where
  "sample_dev = \<lparr>txq = sample_cq, rxq = sample_cq, skb_txq = [], skb_rxq = [], req_ack_tx = 0, req_ack_rx = 0\<rparr>"

definition sample_flow :: flow_state where
  "sample_flow = \<lparr>fl_link = \<lparr>l_magic = 1, l_mem_access = 1, l_dev = [sample_dev, sample_dev]\<rparr>, fl_rbs = [], fl_is_ps_ch = sipc_ps_ch,
     fl_mask = 0, fl_stopped = False, fl_subqueues = False, fl_online = True, fl_booting = False, fl_dpram_magic = True,
     fl_magic_ipc = 1, fl_magic_crash = 2, fl_forced_crash = 0, fl_timer = False, fl_sbd_timer = False, fl_irqs = [], fl_crashes = []\<rparr>"

lemma sample_init: "flow_init sample_flow"
  by (simp add: flow_init_def sample_flow_def sample_dev_def sample_cq_def)

lemmas sample_defs = sample_flow_def sample_dev_def sample_cq_def

text \<open>Nine bytes do not fit.\<close>

definition sample_full :: flow_state where
  "sample_full = (case xmit_ipc_to_dev 1 (replicate 9 7) sample_flow of Some (r, st) \<Rightarrow> st | None \<Rightarrow> sample_flow)"

lemma sample_full_run: "xmit_ipc_to_dev 1 (replicate 9 7) sample_flow = Some (9, sample_full)"
  unfolding sample_full_def by code_simp

lemma sample_full_step: "flow_step\<^sup>*\<^sup>* sample_flow sample_full"
  by (rule r_into_rtranclp, rule flow_step.xmit [OF _ sample_full_run]) (simp add: sample_defs)

theorem flow_stops_iff_reason_witness:
  "fl_stopped sample_full \<and> (\<exists>d \<in> set (l_dev (fl_link sample_full)). 0 < cq_busy (txq d))"
proof -
  have "fl_crashes sample_full = []" "fl_rbs sample_full = []" "\<not> bit (fl_mask sample_full) 2" "fl_subqueues sample_full" by code_simp+
  then show ?thesis using flow_stops_iff_reason [OF sample_init sample_full_step] by simp
qed









text \<open>The stop bit is set and no queue is under flow control.\<close>

definition view_dead :: "flow_view \<Rightarrow> bool" where
  "view_dead v \<longleftrightarrow> 2 \<le> length (v_devs v) \<and> (\<forall>i < length (v_devs v). v_devs v ! i = 0) \<and> (\<forall>i < length (v_rbs v). v_rbs v ! i = 0)
     \<and> bit (v_mask v) 1 \<and> v_subqueues v"

lemma view_dead_step: "view_step v v' \<Longrightarrow> view_dead v \<Longrightarrow> view_dead v'"
proof (induction rule: view_step.induct)
  case (resume v)
  then have "bit (Bit_Operations.unset_bit 2 (v_mask v)) 1" by (simp add: view_dead_def mask_bits)
  then have "Bit_Operations.unset_bit 2 (v_mask v) \<noteq> 0" by (auto simp: mask_nonzero)
  then show ?case using resume by (simp add: view_dead_def v_clear_def Let_def mask_bits)
qed (auto simp: view_dead_def v_set_def v_stop_ifaces_def mask_bits)

lemma link_step_dead:
  assumes "link_step st st'" and "view_dead (fview st)" and "crash_ok st"
  shows "view_dead (fview st') \<and> crash_ok st'"
  using assms
proof (induction rule: link_step.induct)
  case (handler st st')
  have "flow_to st st'" by (rule flow_step_to [OF handler(1)]) (use handler(2) in \<open>simp add: view_dead_def\<close>)
  then have "view_step\<^sup>*\<^sup>* (fview st) (fview st')" "crash_ok st'" using handler(3) by (simp_all add: flow_to_def)
  moreover have "view_dead (fview st')" using calculation(1) handler(2) by (induction rule: rtranclp_induct) (auto intro: view_dead_step)
  ultimately show ?case by blast
next
  case (restart cp st st' err)
  then show ?case
    by (auto simp: phone_start_init_def init_legacy_link_def Let_def view_dead_def crash_ok_def fview_def dev_busies_def rb_busies_def init_ipc_device_def
        split: prod.splits if_splits)
next
  case (rings rbs st)
  then show ?case by (simp add: view_dead_def crash_ok_def fview_def dev_busies_def rb_busies_def)
next
  case (close st)
  then show ?case by (simp add: shmem_close_tx_def purge_txq_def stop_net_ifaces_def view_dead_def crash_ok_def fview_def dev_busies_def rb_busies_def)
qed

text \<open>
  C27. When the modem restarts while a legacy queue has the interfaces stopped, flow control is off
  from then on: the restart clears the busy counters and the flag of stopped interfaces but not the stop
  bit. Whatever the handlers of the link do afterwards, further restarts, new rings and the closing of the link included, flow control gives no order to wake the
  network devices, and no full queue is stopped. (A device starts its queue again only when it is closed and opened, or by a command of its own.)
\<close>

theorem restart_disables_flow_control:
  assumes "flow_inv st" and "bit (fl_mask st) 1" and "\<forall>rb \<in> set (fl_rbs st). sb_busy rb = 0" and "phone_start_init cp st = (st1, 0)"
    and "link_step\<^sup>*\<^sup>* st1 st2"
  shows "fl_subqueues st2 \<and> bit (fl_mask st2) 1 \<and> txq_stop i st2 = st2 \<and> sbd_txq_stop j st2 = st2"
proof -
  have two: "2 \<le> length (l_dev (fl_link st))" using assms(1) by (simp add: flow_inv_def view_inv_def busy_ok_def)
  have subq: "fl_subqueues st" using assms(1,2) by (auto simp: flow_inv_def view_inv_def ifaces_ok_def mask_nonzero)
  have st1: "st1 = st\<lparr>fl_link := (fl_link st)\<lparr>l_dev := map init_ipc_device (l_dev (fl_link st)), l_magic := fl_magic_ipc st, l_mem_access := 1\<rparr>,
      fl_stopped := False\<rparr>"
    using assms(4) by (auto simp: phone_start_init_def init_legacy_link_def Let_def split: prod.splits if_splits)
  have "view_dead (fview st1) \<and> crash_ok st1"
    using assms(1-3) subq two
    by (simp add: st1 view_dead_def fview_def dev_busies_def rb_busies_def init_ipc_device_def flow_inv_def crash_ok_def)
  with assms(5) have "view_dead (fview st2) \<and> crash_ok st2" by (induction rule: rtranclp_induct) (use link_step_dead in blast)+
  then show ?thesis by (simp add: view_dead_def txq_stop_def sbd_txq_stop_def)
qed

definition sample_restarted :: flow_state where
  "sample_restarted = fst (phone_start_init id sample_full)"

theorem restart_disables_flow_control_witness:
  "bit (fl_mask sample_full) 1 \<and> fl_subqueues sample_restarted \<and> txq_stop 1 sample_restarted = sample_restarted"
proof -
  have a: "flow_inv sample_full" by (rule flow_reaches_inv [OF sample_init sample_full_step])
  have b: "bit (fl_mask sample_full) 1" "\<forall>rb \<in> set (fl_rbs sample_full). sb_busy rb = 0" "snd (phone_start_init id sample_full) = 0"
    by code_simp+
  then have c: "phone_start_init id sample_full = (sample_restarted, 0)" by (simp add: sample_restarted_def prod_eq_iff)
  show ?thesis using restart_disables_flow_control [OF a b(1,2) c rtranclp.rtrancl_refl, of 1] b(1) by blast
qed

text \<open>
  Frames go out in the order in which they are handed over: after a frame was accepted, the bytes
  the device has in its queue and still waiting are the earlier ones followed by the frame. If frames
  are left waiting, the timer is running or more than the quota of 64 were waiting.
\<close>

theorem xmit_keeps_order:
  assumes "ipc_active st" and "i < length (l_dev (fl_link st))" and "dev_ready (fl_dev st i)" and "length skb < 2 ^ 32"
    and "length (skb_txq (fl_dev st i)) < 1024"
  shows "\<exists>st'. xmit_ipc_to_dev i skb st = Some (int (length skb), st') \<and> dev_ready (fl_dev st' i)
    \<and> tx_stream (fl_dev st' i) = tx_stream (fl_dev st i) @ skb
    \<and> (skb_txq (fl_dev st' i) = [] \<or> fl_timer st' \<or> 64 \<le> length (skb_txq (fl_dev st i)))"
proof -
  let ?d = "(fl_dev st i)\<lparr>skb_txq := skb_txq (fl_dev st i) @ [skb]\<rparr>"
  let ?st1 = "set_fl_dev i ?d st"
  have d: "fl_dev ?st1 i = ?d" "dev_ready ?d" "tx_stream ?d = tx_stream (fl_dev st i) @ skb"
    using assms by (auto simp: dev_ready_def tx_stream_def)
  show ?thesis
  proof (cases "fl_timer ?st1")
    case True
    then have "xmit_ipc_to_dev i skb st = Some (int (length skb), ?st1)" using assms(5) by (simp add: xmit_ipc_to_dev_def Let_def)
    then show ?thesis using d True by (intro exI [of _ ?st1]) simp
  next
    case False
    obtain st' where st': "xmit_dev_loop 64 i ?st1 = Some st'" "dev_ready (fl_dev st' i)" "tx_stream (fl_dev st' i) = tx_stream (fl_dev ?st1 i)"
      "skb_txq (fl_dev st' i) = [] \<or> fl_timer st' \<or> length (skb_txq (fl_dev st' i)) + 64 = length (skb_txq (fl_dev ?st1 i))"
      using xmit_loop_stream [of ?st1 i 64] assms d by auto
    have "skb_txq (fl_dev st' i) = [] \<or> fl_timer st' \<or> 64 \<le> length (skb_txq (fl_dev st i))"
      using st'(4) d(1) by (cases "skb_txq (fl_dev st' i)") auto
    moreover have "xmit_ipc_to_dev i skb st = Some (int (length skb), st')" using assms(5) False st'(1) by (simp add: xmit_ipc_to_dev_def Let_def)
    ultimately show ?thesis using st'(2,3) d by (intro exI [of _ st']) simp
  qed
qed

theorem xmit_keeps_order_witness:
  "\<exists>st'. xmit_ipc_to_dev 1 [1, 2, 3] sample_flow = Some (3, st') \<and> tx_stream (fl_dev st' 1) = [1, 2, 3]"
proof -
  have d: "fl_dev sample_flow 1 = sample_dev" by code_simp
  have "dev_ready sample_dev" by (simp add: dev_ready_def cq_ok_def circ_valid_def sample_dev_def sample_cq_def)
  moreover have "ipc_active sample_flow" "length (l_dev (fl_link sample_flow)) = 2" "tx_stream sample_dev = []" "skb_txq sample_dev = []" by code_simp+
  ultimately show ?thesis using xmit_keeps_order [of sample_flow 1 "[1, 2, 3]"] d by auto
qed

end
