(* ===== verification/ModemQueueProps.thy ===== *)
theory ModemQueueProps
  imports ModemRxAny ModemRing
begin

text \<open>
  The properties of the queues of the modem interface: the legacy queues and the SBD rings as bounded
  first-in first-out queues, and the receive loops on well-formed and on arbitrary contents.
\<close>

subsection \<open>Samples\<close>

text \<open>Two frames of the SIT protocol: a header of twelve bytes and four bytes of padding, channels 5 and 6.\<close>

definition sit_frame :: "u8 \<Rightarrow> u8 list" where
  "sit_frame ch = [0xCD, 0xAB, 0, 0, 0, 0xC0, 12, 0, ch, 0, 0, 0, 0, 0, 0, 0]"

definition empty_cq :: circ_queue where
  "empty_cq = \<lparr>cq_busy = 0, cq_buff = replicate 64 0, cq_size = 64, cq_head = 40, cq_tail = 40\<rparr>"

definition queue_dev :: "u8 list list \<Rightarrow> legacy_ipc_device" where
  "queue_dev fs = \<lparr>txq = empty_cq, rxq = empty_cq, skb_txq = fs, skb_rxq = [], req_ack_tx = 0, req_ack_rx = 0\<rparr>"

text \<open>A receive queue of 64 bytes, with the two frames around its end.\<close>

definition full_cq :: circ_queue where
  "full_cq = \<lparr>cq_busy = 0, cq_buff = drop 8 (sit_frame 6) @ replicate 32 0 @ sit_frame 5 @ take 8 (sit_frame 6), cq_size = 64, cq_head = 8, cq_tail = 40\<rparr>"

definition full_rx :: rx_state where
  "full_rx = \<lparr>rx_dev = (queue_dev [])\<lparr>rxq := full_cq\<rparr>, rx_passed = [], rx_crashes = []\<rparr>"

definition easy_env :: rx_env where
  "easy_env = \<lparr>rx_alloc = \<lambda>_. True, rx_stack = \<lambda>_. replicate 12 0, rx_tailroom = \<lambda>_. 0\<rparr>"

lemma sit_frame_wf: "wf_frame PROTOCOL_SIT (sit_frame 5)" "wf_frame PROTOCOL_SIT (sit_frame 6)"
  by code_simp+

lemma full_cq_data: "cq_data full_cq = concat [sit_frame 5, sit_frame 6]"
  by code_simp

lemma empty_cq_data: "cq_data empty_cq = []"
  by code_simp

lemma sample_cqs_ok: "cq_ok full_cq" "cq_ok empty_cq"
  by (simp_all add: cq_ok_def full_cq_def empty_cq_def circ_valid_def sit_frame_def)

lemma full_rx_ready: "rx_ready full_rx"
  using sample_cqs_ok by (simp add: rx_ready_def rx_queue_def full_rx_def) (simp add: full_cq_def)

subsection \<open>First in, first out\<close>

text \<open>
  C19. On a queue of the legacy link, frames written with \<^verbatim>\<open>txq_write\<close> and read with \<^verbatim>\<open>recv_from_legacy_link\<close> in any
  interleaving do what a bounded first-in first-out queue does: the same frames are accepted, the same
  frames come out, in the order in which they were accepted, and no byte outside the queue is touched.
\<close>

theorem modem_legacy_fifo:
  assumes "legacy_holds p dev ms" and "\<forall>m. Put m \<in> set ops \<longrightarrow> wf_frame p m" and "spec_run (cq_cap (txq dev)) length ms ops = (acc, rcv, ms')"
  shows "\<exists>dev'. fifo_run loop_put (loop_get p stack) dev ops = Some (acc, rcv, dev') \<and> legacy_holds p dev' ms' \<and> ms @ acc = rcv @ ms'"
  using legacy.run_refines [OF assms] spec_run_fifo [OF assms(3)] by blast

theorem modem_legacy_fifo_witness:
  "\<exists>dev'. fifo_run loop_put (loop_get PROTOCOL_SIT []) (queue_dev []) [Put (sit_frame 5), Put (sit_frame 6), Get, Get, Get] =
    Some ([sit_frame 5, sit_frame 6], [sit_frame 5, sit_frame 6], dev')"
proof -
  have a: "legacy_holds PROTOCOL_SIT (queue_dev []) []"
    using sample_cqs_ok empty_cq_data by (simp add: legacy_holds_def queue_dev_def) (simp add: empty_cq_def)
  have c: "cq_cap (txq (queue_dev [])) = 63" by (simp add: cq_cap_def queue_dev_def empty_cq_def)
  have "spec_run (cq_cap (txq (queue_dev []))) length [] [Put (sit_frame 5), Put (sit_frame 6), Get, Get, Get] =
      ([sit_frame 5, sit_frame 6], [sit_frame 5, sit_frame 6], [])"
    unfolding c by (simp add: sit_frame_def)
  from modem_legacy_fifo [OF a _ this, of "[]"] show ?thesis by (auto simp: sit_frame_wf)
qed

text \<open>
  C20. The same of a ring of the SBD link, whose two ends are \<^verbatim>\<open>sbd_pio_tx\<close> and \<^verbatim>\<open>sbd_pio_rx\<close>: packets that fit a slot are
  accepted while one slot stays free, and come out in order with their bytes and their channel.
\<close>

theorem modem_sbd_fifo:
  assumes "sbd_holds cf rb ms" and "\<forall>m. Put m \<in> set ops \<longrightarrow> sbd_msg_ok cf m" and "spec_run (unat (sb_len rb) - 1) (\<lambda>_. 1) ms ops = (acc, rcv, ms')"
  shows "\<exists>rb'. fifo_run sbd_put (sbd_get iods room) rb ops = Some (acc, rcv, rb') \<and> sbd_holds cf rb' ms' \<and> ms @ acc = rcv @ ms'"
  using sbd.run_refines [OF assms] spec_run_fifo [OF assms(3)] by blast

text \<open>A ring of three slots of four bytes for channel 12, at the end of its array.\<close>

definition sample_ring :: sbd_ring_buffer where
  "sample_ring = \<lparr>sb_skb_q = [], sb_lnk_hdr = False, sb_more = False, sb_total = 0, sb_rcvd = 0, sb_ch = 12, sb_len = 3, sb_buff_size = 4,
     sb_payload_offset = 0, sb_buff = replicate 3 (replicate 4 0), sb_rp = 2, sb_wp = 2, sb_buff_len_array = replicate 3 0, sb_iod = True, sb_busy = 0\<rparr>"

theorem modem_sbd_fifo_witness:
  "\<exists>rb'. fifo_run sbd_put (sbd_get (\<lambda>_. True) []) sample_ring [Put (12, [1, 2]), Put (13, [3]), Put (14, [4]), Get, Get] =
    Some ([(12, [1, 2]), (13, [3])], [(12, [1, 2]), (13, [3])], rb')"
proof -
  have u: "rb_usage sample_ring = 0" by code_simp
  have a: "sbd_holds (12, 3, 4, 0) sample_ring []"
    by (simp add: sbd_holds_def rb_lens_ok_def rb_msgs_def rb_slots_def u ring_bytes_def) (simp add: rb_ok_def rb_conf_def sample_ring_def)
  have n: "unat (sb_len sample_ring) - 1 = 2" by (simp add: sample_ring_def)
  have "spec_run (unat (sb_len sample_ring) - 1) (\<lambda>_. 1) [] [Put (12, [1, 2]), Put (13, [3]), Put (14, [4]), Get, Get] =
      ([(12, [1, 2]), (13, [3])], [(12, [1, 2]), (13, [3])], [])"
    unfolding n by simp
  from modem_sbd_fifo [OF a _ this, of "\<lambda>_. True" "[]"] show ?thesis
    by (auto simp: sbd_msg_ok_def sipc_ps_ch_def)
qed

subsection \<open>Receiving\<close>

lemma rxq_empty_data:
  assumes "rx_ready st"
  shows "circ_empty (cq_head (rx_queue st)) (cq_tail (rx_queue st)) \<longleftrightarrow> cq_data (rx_queue st) = []"
  using txq_empty_data [of "(rx_dev st)\<lparr>txq := rx_queue st\<rparr>"] assms by (simp add: txq_empty_def rx_ready_def)

lemma usage_length: "unat (circ_get_usage (cq_size q) (cq_head q) (cq_tail q)) = length (cq_data q)"
  by (simp add: cq_data_def)

lemma usage_short:
  assumes "rx_ready st"
  shows "length (cq_data (rx_queue st)) < 2 ^ 31"
  using cq_data_bound [of "rx_queue st"] cq_okD(3) [of "rx_queue st"] assms by (simp add: rx_ready_def cq_cap_def)

lemma modem_rx_delivers_core:
  assumes "rx_ready st" and "cq_data (rx_queue st) = concat fs" and "\<forall>f \<in> set fs. wf_frame p f" and "\<forall>f \<in> set fs. iods (frame_ch p f)"
    and "\<forall>k. rx_alloc env k"
  shows "\<exists>st'. legacy_ipc_rx_func p env iods st = Some (Some (int (length (concat fs)), st'))
    \<and> rx_passed st' = rx_passed st @ map (\<lambda>f. (frame_ch p f, f)) fs \<and> cq_data (rx_queue st') = [] \<and> rx_crashes st' = rx_crashes st"
proof (cases "fs = []")
  case True
  then show ?thesis using assms(1,2) rxq_empty_data [OF assms(1)] by (intro exI [of _ st]) (simp add: legacy_ipc_rx_func_def Let_def)
next
  case False
  let ?q = "rx_queue st"
  let ?n = "circ_get_usage (cq_size ?q) (cq_head ?q) (cq_tail ?q)"
  have "cq_data ?q \<noteq> []" using False assms(2,3) wf_frame_nonempty by (cases fs) auto
  then have e: "legacy_ipc_rx_func p env iods st = rx_loop p env iods (cq_head ?q) ?n 0 st"
    using rxq_empty_data [OF assms(1)] by (simp add: legacy_ipc_rx_func_def Let_def)
  have n: "unat (0 :: u32) + length (concat fs) = unat ?n" "unat ?n < 2 ^ 31"
    using assms(2) usage_length [of ?q] usage_short [OF assms(1)] by simp_all
  have "int (unat ?n) = int (length (concat fs))" using n(1) by simp
  moreover obtain st' where "rx_loop p env iods (cq_head ?q) ?n 0 st = Some (Some (int (unat ?n), st'))" "cq_data (rx_queue st') = []"
    "rx_passed st' = rx_passed st @ map (\<lambda>f. (frame_ch p f, f)) fs" "rx_crashes st' = rx_crashes st"
    using rx_loop_frames [OF assms(1-3,5,4) n] by blast
  ultimately show ?thesis unfolding e by (intro exI [of _ st']) metis
qed

text \<open>
  C23. When head and tail lie inside the receive queue and it holds well-formed frames for channels that have an IO device and socket buffers can be
  allocated, \<^verbatim>\<open>legacy_ipc_rx_func\<close> returns the number of bytes, has passed on every frame once, in order and with
  its channel, and leaves the queue empty, wherever in the buffer the frames lie.
\<close>

theorem modem_rx_delivers:
  assumes "rx_ready st" and "cq_data (rx_queue st) = concat fs" and "\<forall>f \<in> set fs. wf_frame p f" and "\<forall>f \<in> set fs. iods (frame_ch p f)"
    and "\<forall>k. rx_alloc env k"
  shows "\<exists>st'. legacy_ipc_rx_func p env iods st = Some (Some (int (length (concat fs)), st'))
    \<and> rx_passed st' = rx_passed st @ map (\<lambda>f. (frame_ch p f, f)) fs \<and> cq_data (rx_queue st') = [] \<and> rx_crashes st' = rx_crashes st"
  by (rule modem_rx_delivers_core [OF assms])

theorem modem_rx_delivers_witness:
  "\<exists>st'. legacy_ipc_rx_func PROTOCOL_SIT easy_env (\<lambda>_. True) full_rx = Some (Some (32, st')) \<and> rx_passed st' = [(5, sit_frame 5), (6, sit_frame 6)]"
proof -
  have "cq_data (rx_queue full_rx) = concat [sit_frame 5, sit_frame 6]" using full_cq_data by (simp add: rx_queue_def full_rx_def)
  moreover have "rx_passed full_rx = []" "length (concat [sit_frame 5, sit_frame 6]) = 32" by code_simp+
  moreover have "frame_ch PROTOCOL_SIT (sit_frame 5) = 5" "frame_ch PROTOCOL_SIT (sit_frame 6) = 6" by code_simp+
  ultimately show ?thesis
    using modem_rx_delivers [OF full_rx_ready, of "[sit_frame 5, sit_frame 6]" PROTOCOL_SIT "\<lambda>_. True" easy_env] sit_frame_wf
    by (auto simp: easy_env_def)
qed

text \<open>
  C24. Suppose the head and the tail of the receive queue lie inside the queue, which has at least 32 bytes. The modem
  writes the head, and nothing in the driver checks it, so this is a demand on the modem. Then, whatever bytes the modem has put
  into the queue, and whatever fails on the way, \<^verbatim>\<open>legacy_ipc_rx_func\<close> returns, provided that no place of the queue holds a valid
  header that announces a frame of length zero. What it passed on are consecutive pieces from the front of the
  queue, and head and tail are inside the queue afterwards.
\<close>

theorem modem_rx_ends:
  assumes "rx_ready st" and "no_zero_frame p (rx_queue st)"
  shows "\<exists>r st' ps. legacy_ipc_rx_func p env iods st = Some (Some (r, st')) \<and> rx_ready st' \<and> rx_passed st' = rx_passed st @ ps
    \<and> prefix (concat (map snd ps)) (cq_data (rx_queue st))"
proof (cases "cq_data (rx_queue st) = []")
  case True
  then show ?thesis
    using assms(1) rxq_empty_data [OF assms(1)] by (intro exI [of _ 0] exI [of _ st] exI [of _ "[]"]) (simp add: legacy_ipc_rx_func_def Let_def)
next
  case False
  then have "legacy_ipc_rx_func p env iods st =
      rx_loop p env iods (cq_head (rx_queue st)) (circ_get_usage (cq_size (rx_queue st)) (cq_head (rx_queue st)) (cq_tail (rx_queue st))) 0 st"
    using rxq_empty_data [OF assms(1)] by (simp add: legacy_ipc_rx_func_def Let_def)
  then show ?thesis using rx_loop_ends [OF assms, of env iods] by simp
qed

text \<open>A header of the SIT protocol is read completely.\<close>

lemma sit_hdr_complete:
  "is_start_valid PROTOCOL_SIT (hdr_at PROTOCOL_SIT q off xs) = is_start_valid PROTOCOL_SIT (hdr_at PROTOCOL_SIT q off [])"
  "get_total_len PROTOCOL_SIT (hdr_at PROTOCOL_SIT q off xs) = get_total_len PROTOCOL_SIT (hdr_at PROTOCOL_SIT q off [])"
  by (simp_all add: hdr_at_def exynos_start_valid_def exynos_get_total_len_def exynos_get_frame_len_def le16_def nth_append)

lemma sit_no_zero:
  assumes "list_all (\<lambda>off. is_start_valid PROTOCOL_SIT (hdr_at PROTOCOL_SIT q off []) \<longrightarrow> get_total_len PROTOCOL_SIT (hdr_at PROTOCOL_SIT q off []) \<noteq> 0)
    [0..<length (cq_buff q)]"
  shows "no_zero_frame PROTOCOL_SIT q"
  unfolding no_zero_frame_def
proof (intro allI impI)
  fix off xs
  assume "off < length (cq_buff q)" and "is_start_valid PROTOCOL_SIT (hdr_at PROTOCOL_SIT q off xs)"
  then show "get_total_len PROTOCOL_SIT (hdr_at PROTOCOL_SIT q off xs) \<noteq> 0"
    unfolding sit_hdr_complete [of q off xs] using assms by (simp add: list_all_iff)
qed

theorem modem_rx_ends_witness:
  "\<exists>r st' ps. legacy_ipc_rx_func PROTOCOL_SIT easy_env (\<lambda>c. c = 5) full_rx = Some (Some (r, st')) \<and> rx_passed st' = ps
    \<and> prefix (concat (map snd ps)) (concat [sit_frame 5, sit_frame 6])"
proof -
  have "no_zero_frame PROTOCOL_SIT full_cq" by (rule sit_no_zero) code_simp
  then have z: "no_zero_frame PROTOCOL_SIT (rx_queue full_rx)" by (simp add: rx_queue_def full_rx_def)
  have "rx_passed full_rx = []" by code_simp
  moreover have "cq_data (rx_queue full_rx) = concat [sit_frame 5, sit_frame 6]" using full_cq_data by (simp add: rx_queue_def full_rx_def)
  ultimately show ?thesis using modem_rx_ends [OF full_rx_ready z, of easy_env "\<lambda>c. c = 5"] by auto
qed

text \<open>
  C25. Suppose the head, which the modem writes and the driver does not check, and the tail lie inside the receive queue, which has
  at least 32 bytes. Then \<^verbatim>\<open>legacy_ipc_rx_func\<close> never reads outside the queue, whatever bytes the modem has put into it. The condition on
  the head is needed, as the lemma \<open>rx_head_beyond_faults\<close> below shows.
\<close>

theorem modem_rx_no_fault:
  assumes "rx_ready st"
  shows "legacy_ipc_rx_func p env iods st \<noteq> Some None"
  using rx_loop_no_fault [OF _ assms refl, where y = None] by (auto simp: legacy_ipc_rx_func_def Let_def)

theorem modem_rx_no_fault_witness:
  "rx_ready full_rx \<and> legacy_ipc_rx_func PROTOCOL_SIPC easy_env (\<lambda>_. True) full_rx \<noteq> Some None"
  using modem_rx_no_fault [OF full_rx_ready] full_rx_ready by blast

text \<open>
  A queue of 64 bytes whose head is at 200 and whose first frame has 180 bytes: the length passes the check
  against what seems to be in the queue, and the second part of the copy runs beyond the end of the queue.
\<close>

definition beyond_cq :: circ_queue where
  "beyond_cq = \<lparr>cq_busy = 0, cq_buff = [0xCD, 0xAB, 0, 0, 0, 0xC0, 180, 0, 5] @ replicate 55 0, cq_size = 64, cq_head = 200, cq_tail = 0\<rparr>"

definition beyond_rx :: rx_state where
  "beyond_rx = \<lparr>rx_dev = (queue_dev [])\<lparr>rxq := beyond_cq\<rparr>, rx_passed = [], rx_crashes = []\<rparr>"

lemma rx_head_beyond_faults: "\<not> rx_ready beyond_rx" "legacy_ipc_rx_func PROTOCOL_SIT easy_env (\<lambda>_. True) beyond_rx = Some None"
proof -
  have q: "rx_queue beyond_rx = beyond_cq" by (simp add: rx_queue_def beyond_rx_def)
  show "\<not> rx_ready beyond_rx" unfolding rx_ready_def q by (simp add: cq_ok_def circ_valid_def beyond_cq_def)
  have "recv_from_legacy_link PROTOCOL_SIT easy_env 200 beyond_rx = None" by code_simp
  moreover have "cq_head beyond_cq = 200" "circ_empty 200 (cq_tail beyond_cq) = False" "(0 :: u32) < circ_get_usage (cq_size beyond_cq) 200 (cq_tail beyond_cq)" by code_simp+
  ultimately show "legacy_ipc_rx_func PROTOCOL_SIT easy_env (\<lambda>_. True) beyond_rx = Some None"
    by (simp add: legacy_ipc_rx_func_def Let_def q rx_loop.simps)
qed

text \<open>
  C26. With head and tail inside the queue, a header that announces a frame of length zero, at the front of a queue that is not empty, is received over
  and over: \<^verbatim>\<open>legacy_ipc_rx_func\<close> does not return, when socket buffers can be allocated and what stands at the place
  of the channel in an empty socket buffer happens to be a channel with an IO device.
\<close>

theorem modem_rx_zero_frame_hangs:
  assumes "rx_ready st" and "zero_frame p (rx_queue st)" and "cq_data (rx_queue st) \<noteq> []" and "\<forall>k. rx_alloc env k" and "\<forall>k. iods (rx_tailroom env k)"
  shows "legacy_ipc_rx_func p env iods st = None"
proof -
  let ?q = "rx_queue st"
  have "0 < circ_get_usage (cq_size ?q) (cq_head ?q) (cq_tail ?q)" using usage_length [of ?q] assms(3) by (simp add: word_less_nat_alt)
  then show ?thesis
    using rx_loop_hangs [OF assms(1,2,4,5)] rxq_empty_data [OF assms(1)] assms(3) by (simp add: legacy_ipc_rx_func_def Let_def)
qed

definition zero_cq :: circ_queue where
  "zero_cq = \<lparr>cq_busy = 0, cq_buff = [0xCD, 0xAB] @ replicate 62 0, cq_size = 64, cq_head = 12, cq_tail = 0\<rparr>"

definition zero_rx :: rx_state where
  "zero_rx = \<lparr>rx_dev = (queue_dev [])\<lparr>rxq := zero_cq\<rparr>, rx_passed = [], rx_crashes = []\<rparr>"

theorem modem_rx_zero_frame_hangs_witness:
  "legacy_ipc_rx_func PROTOCOL_SIT easy_env (\<lambda>_. True) zero_rx = None"
proof -
  have q: "rx_queue zero_rx = zero_cq" by (simp add: rx_queue_def zero_rx_def)
  have "rx_ready zero_rx" unfolding rx_ready_def q by (simp add: cq_ok_def circ_valid_def zero_cq_def)
  moreover have "is_start_valid PROTOCOL_SIT (hdr_at PROTOCOL_SIT zero_cq (unat (cq_tail zero_cq)) [])"
    "get_total_len PROTOCOL_SIT (hdr_at PROTOCOL_SIT zero_cq (unat (cq_tail zero_cq)) []) = 0" "cq_data zero_cq \<noteq> []" by code_simp+
  moreover have "zero_frame PROTOCOL_SIT zero_cq"
    unfolding zero_frame_def using calculation(2,3) sit_hdr_complete [of zero_cq "unat (cq_tail zero_cq)"] by metis
  ultimately show ?thesis
    using modem_rx_zero_frame_hangs [of zero_rx PROTOCOL_SIT easy_env "\<lambda>_. True"] by (simp add: q easy_env_def)
qed

text \<open>
  A NAPI poll of the legacy link passes on exactly the first frames of the queue up to the one that uses up
  the budget of packets for network devices, in order; it reports how many of these there were, never more than the
  budget, and leaves the other frames in the queue.
\<close>

theorem modem_napi_budget:
  fixes budget :: s32
  assumes "rx_ready st" and "cq_data (rx_queue st) = concat fs" and "\<forall>f \<in> set fs. wf_frame p f" and "\<forall>f \<in> set fs. iods (frame_ch p f)"
    and "\<forall>k. rx_alloc env k"
  shows "\<exists>st' don rest. legacy_ipc_rx_func_napi ext p env iods budget 0 st =
      Some (Some (0, int (length (filter (\<lambda>f. is_ps_ch ext p (frame_ch p f)) don)), st'))
    \<and> fs = don @ rest \<and> cq_data (rx_queue st') = concat rest \<and> rx_passed st' = rx_passed st @ map (\<lambda>f. (frame_ch p f, f)) don
    \<and> length (filter (\<lambda>f. is_ps_ch ext p (frame_ch p f)) don) \<le> unat budget
    \<and> (length (filter (\<lambda>f. is_ps_ch ext p (frame_ch p f)) don) < unat budget \<longrightarrow> rest = [])"
proof -
  let ?q = "rx_queue st" and ?ps = "\<lambda>f. is_ps_ch ext p (frame_ch p f)"
  let ?n = "circ_get_usage (cq_size ?q) (cq_head ?q) (cq_tail ?q)" and ?don = "napi_frames ?ps (unat budget) fs"
  obtain rest where r: "fs = ?don @ rest" using napi_frames_prefix by blast
  have n: "unat (0 :: u32) + length (concat fs) = unat ?n" "unat ?n < 2 ^ 31"
    using assms(2) usage_length [of ?q] usage_short [OF assms(1)] by simp_all
  have "\<exists>st'. legacy_ipc_rx_func_napi ext p env iods budget 0 st = Some (Some (0, int (length (filter ?ps ?don)), st'))
    \<and> concat fs = concat ?don @ cq_data (rx_queue st') \<and> rx_passed st' = rx_passed st @ map (\<lambda>f. (frame_ch p f, f)) ?don" (is "\<exists>st'. ?P st'")
  proof (cases "cq_data ?q = []")
    case True
    then have "fs = []" using assms(2,3) wf_frame_nonempty by (cases fs) auto
    then show ?thesis
      using True rxq_empty_data [OF assms(1)] by (intro exI [of _ st]) (simp add: legacy_ipc_rx_func_napi_def Let_def)
  next
    case False
    then have "legacy_ipc_rx_func_napi ext p env iods budget 0 st = rx_loop_napi ext p env iods (cq_head ?q) ?n budget 0 0 st"
      using rxq_empty_data [OF assms(1)] by (simp add: legacy_ipc_rx_func_napi_def Let_def)
    then show ?thesis using rx_loop_napi_frames [OF assms(1-3,5,4) n, of ext budget 0] by auto
  qed
  then obtain st' where st': "?P st'" by blast
  have "concat fs = concat ?don @ concat rest" using arg_cong [OF r, of concat] by simp
  then have data: "cq_data (rx_queue st') = concat rest" using st' by simp
  have "rest = []" if "length (filter ?ps ?don) < unat budget" using napi_frames_all [OF that] r by simp
  then show ?thesis
    using st' r data napi_frames_budget [of ?ps "unat budget" fs]
    by (intro exI [of _ st'] exI [of _ ?don] exI [of _ rest]) simp
qed

theorem modem_napi_budget_witness:
  "\<exists>st' don rest. legacy_ipc_rx_func_napi False PROTOCOL_SIT easy_env (\<lambda>_. True) 1 0 full_rx =
      Some (Some (0, int (length (filter (\<lambda>f. is_ps_ch False PROTOCOL_SIT (frame_ch PROTOCOL_SIT f)) don)), st'))
    \<and> [sit_frame 5, sit_frame 6] = don @ rest \<and> cq_data (rx_queue st') = concat rest"
proof -
  have "cq_data (rx_queue full_rx) = concat [sit_frame 5, sit_frame 6]" using full_cq_data by (simp add: rx_queue_def full_rx_def)
  then show ?thesis
    using modem_napi_budget [OF full_rx_ready, of "[sit_frame 5, sit_frame 6]" PROTOCOL_SIT "\<lambda>_. True" easy_env False 1] sit_frame_wf
    by (simp add: easy_env_def) blast
qed

text \<open>
  What is sent comes back: when the waiting frames of a device fit its empty transmit queue, \<^verbatim>\<open>tx_frames_to_dev\<close> sends all
  of them, and \<^verbatim>\<open>legacy_ipc_rx_func\<close> on the queue so written passes on exactly these frames, in order.
\<close>

theorem modem_loopback:
  assumes "cq_ok (txq dev)" and "txq_empty dev" and "32 \<le> unat (cq_size (txq dev))" and "\<forall>f \<in> set (skb_txq dev). wf_frame p f"
    and "length (concat (skb_txq dev)) \<le> cq_cap (txq dev)" and "\<forall>f \<in> set (skb_txq dev). iods (frame_ch p f)" and "\<forall>k. rx_alloc env k"
  shows "\<exists>dev' st'. tx_frames_to_dev 0 dev = Some (int (length (concat (skb_txq dev))), dev') \<and> skb_txq dev' = []
    \<and> legacy_ipc_rx_func p env iods (loop_state dev') = Some (Some (int (length (concat (skb_txq dev))), st'))
    \<and> rx_passed st' = map (\<lambda>f. (frame_ch p f, f)) (skb_txq dev)"
proof -
  have e: "cq_data (txq dev) = []" using assms(1,2) by (simp add: txq_empty_data)
  obtain sent rest dev' ret where t: "tx_frames_to_dev 0 dev = Some (ret, dev')" "skb_txq dev = sent @ rest" "skb_txq dev' = rest"
    "cq_ok (txq dev')" "cq_data (txq dev') = cq_data (txq dev) @ concat sent" "cq_size (txq dev') = cq_size (txq dev)"
    "if rest = [] then ret = 0 + int (length (concat sent)) else ret = - ENOSPC \<and> cq_cap (txq dev') < length (cq_data (txq dev')) + length (hd rest)"
    using tx_frames_prefix [OF assms(1), of 0] assms(4) wf_frame_short by blast
  have rest: "rest = []"
  proof (rule ccontr)
    assume "rest \<noteq> []"
    then have "cq_cap (txq dev) < length (concat sent) + length (hd rest)" "length (hd rest) \<le> length (concat rest)"
      using t(5-7) e by (auto simp: cq_cap_def neq_Nil_conv)
    then show False using assms(5) t(2) by simp
  qed
  let ?st = "loop_state dev'"
  have q: "rx_queue ?st = txq dev'" "rx_passed ?st = []" by (simp_all add: loop_state_def rx_queue_def)
  have rdy: "rx_ready ?st" unfolding rx_ready_def q using t(4,6) assms(3) by simp
  have data: "cq_data (rx_queue ?st) = concat (skb_txq dev)" unfolding q using t(2,5) e rest by simp
  show ?thesis
    using modem_rx_delivers_core [OF rdy data assms(4,6,7)] t(1-3,7) rest q by auto
qed

theorem modem_loopback_witness:
  "\<exists>dev' st'. tx_frames_to_dev 0 (queue_dev [sit_frame 5, sit_frame 6]) = Some (32, dev')
    \<and> legacy_ipc_rx_func PROTOCOL_SIT easy_env (\<lambda>_. True) (loop_state dev') = Some (Some (32, st')) \<and> rx_passed st' = [(5, sit_frame 5), (6, sit_frame 6)]"
proof -
  let ?d = "queue_dev [sit_frame 5, sit_frame 6]"
  have q: "txq ?d = empty_cq" "skb_txq ?d = [sit_frame 5, sit_frame 6]" by (simp_all add: queue_dev_def)
  have l: "length (concat [sit_frame 5, sit_frame 6]) = 32" "cq_cap empty_cq = 63" "unat (cq_size empty_cq) = 64" by code_simp+
  have f: "frame_ch PROTOCOL_SIT (sit_frame 5) = 5" "frame_ch PROTOCOL_SIT (sit_frame 6) = 6" by code_simp+
  have e: "txq_empty ?d" by code_simp
  have a: "cq_ok (txq ?d)" "32 \<le> unat (cq_size (txq ?d))" "length (concat (skb_txq ?d)) \<le> cq_cap (txq ?d)" "\<forall>g \<in> set (skb_txq ?d). wf_frame PROTOCOL_SIT g"
    unfolding q using sample_cqs_ok(2) l sit_frame_wf by simp_all
  have n: "int (length (concat (skb_txq ?d))) = 32" "map (\<lambda>g. (frame_ch PROTOCOL_SIT g, g)) (skb_txq ?d) = [(5, sit_frame 5), (6, sit_frame 6)]"
    unfolding q using l(1) f by simp_all
  have m: "\<forall>k. rx_alloc easy_env k" by (simp add: easy_env_def)
  show ?thesis using modem_loopback [OF a(1) e a(2,4,3) _ m, of "\<lambda>_. True"] unfolding n by blast
qed

subsection \<open>Packets of network devices\<close>

lemma rx_net_all:
  assumes "rb_ok (x_rb s)" and "rb_lens_ok (x_rb s)" and "rb_ps_ch (x_rb s)" and "n \<le> length (rb_msgs (x_rb s))"
    and "\<forall>k. e_alloc env k" and "\<forall>c. e_iods env c" and "\<forall>k. 0 \<le> recv_net k"
  shows "\<exists>ret' s'. rx_net_loop True recv_net env n k ret s = Some (ret', Some (int (k + n)), s') \<and> rb_ok (x_rb s')
    \<and> rb_msgs (x_rb s') = drop n (rb_msgs (x_rb s))
    \<and> map (\<lambda>b. (r_ch b, r_data b)) (x_passed s') = map (\<lambda>b. (r_ch b, r_data b)) (x_passed s) @ take n (rb_msgs (x_rb s)) \<and> x_crashes s' = x_crashes s"
  using assms
proof (induction n arbitrary: k ret s)
  case (Suc n)
  then obtain m ms where ms: "rb_msgs (x_rb s) = m # ms" by (cases "rb_msgs (x_rb s)") auto
  have al: "e_alloc env k = True" using Suc.prems(5) by simp
  obtain skb rb where rx: "sbd_pio_rx True (e_iods env) (e_room env k) (x_rb s) = Some (Some skb, rb)" "(r_ch skb, r_data skb) = m"
    "rb_ok rb" "rb_lens_ok rb" "rb_msgs rb = ms" "rb_conf rb = rb_conf (x_rb s)" "r_iod skb"
    using sbd_rx_first [OF Suc.prems(1,2) ms, of "e_iods env" "e_room env k"] Suc.prems(3,6) by (metis (full_types))
  let ?s1 = "s\<lparr>x_rb := rb, x_passed := x_passed s @ [skb]\<rparr>"
  have "\<not> recv_net k < 0" using Suc.prems(7) by (simp add: not_less)
  then have step: "rx_net_loop True recv_net env (Suc n) k ret s = rx_net_loop True recv_net env n (Suc k) (recv_net k) ?s1"
    using rx(1,7) al by (simp add: pass_skb_to_net_def)
  obtain ret' s' where r: "rx_net_loop True recv_net env n (Suc k) (recv_net k) ?s1 = Some (ret', Some (int (Suc k + n)), s')" "rb_ok (x_rb s')"
    "rb_msgs (x_rb s') = drop n (rb_msgs rb)"
    "map (\<lambda>b. (r_ch b, r_data b)) (x_passed s') = map (\<lambda>b. (r_ch b, r_data b)) (x_passed ?s1) @ take n (rb_msgs rb)" "x_crashes s' = x_crashes s"
    using Suc.IH [of ?s1 "Suc k" "recv_net k"] rx Suc.prems ms rb_conf_cong(1) [OF rx(6)] by auto
  show ?case unfolding step
    by (intro exI [of _ ret'] exI [of _ s']) (use r rx(2,5) ms in simp)
qed simp

text \<open>
  A poll of a ring of a network channel, with the modem online and the network devices accepting, passes on the first
  packets of the ring in order, as many as there are but not more than the budget, reports their number as the work done,
  and leaves the rest in the ring.
\<close>

theorem modem_sbd_net_budget:
  assumes "rb_ok (x_rb s)" and "rb_lens_ok (x_rb s)" and "rb_ps_ch (x_rb s)" and "\<forall>k. e_alloc env k" and "\<forall>c. e_iods env c" and "\<forall>k. 0 \<le> recv_net k"
  shows "\<exists>ret s'. rx_net_frames_from_rb True recv_net env budget s = Some (ret, Some (int (min (length (rb_msgs (x_rb s))) (unat budget))), s')
    \<and> rb_msgs (x_rb s') = drop (unat budget) (rb_msgs (x_rb s))
    \<and> map (\<lambda>b. (r_ch b, r_data b)) (x_passed s') = map (\<lambda>b. (r_ch b, r_data b)) (x_passed s) @ take (unat budget) (rb_msgs (x_rb s))"
proof -
  let ?n = "min (length (rb_msgs (x_rb s))) (unat budget)"
  have "unat (min (rb_usage (x_rb s)) budget) = ?n" using length_rb_msgs [of "x_rb s"] by (simp add: min_def word_le_nat_alt)
  then have e: "rx_net_frames_from_rb True recv_net env budget s = rx_net_loop True recv_net env ?n 0 0 s" by (simp add: rx_net_frames_from_rb_def)
  obtain ret s' where "rx_net_loop True recv_net env ?n 0 0 s = Some (ret, Some (int (0 + ?n)), s')" "rb_msgs (x_rb s') = drop ?n (rb_msgs (x_rb s))"
    "map (\<lambda>b. (r_ch b, r_data b)) (x_passed s') = map (\<lambda>b. (r_ch b, r_data b)) (x_passed s) @ take ?n (rb_msgs (x_rb s))"
    using rx_net_all [OF assms(1-3) _ assms(4-6), of ?n 0 0] by auto
  moreover have "take ?n (rb_msgs (x_rb s)) = take (unat budget) (rb_msgs (x_rb s))" "drop ?n (rb_msgs (x_rb s)) = drop (unat budget) (rb_msgs (x_rb s))"
    by (simp_all add: min_def)
  ultimately show ?thesis unfolding e by (intro exI [of _ ret] exI [of _ s']) simp
qed

definition packet_ring :: sbd_ring_buffer where
  "packet_ring = sample_ring\<lparr>sb_wp := 1, sb_buff := [[9, 8, 7, 6], [0, 0, 0, 0], [1, 2, 0, 0]], sb_buff_len_array := [0xD0003, 0, 0xC0002]\<rparr>"

theorem modem_sbd_net_budget_witness:
  "\<exists>ret s'. rx_net_frames_from_rb True (\<lambda>_. 0) \<lparr>e_alloc = \<lambda>_. True, e_iods = \<lambda>_. True, e_room = \<lambda>_. []\<rparr> 1
      \<lparr>x_rb = packet_ring, x_passed = [], x_crashes = []\<rparr> = Some (ret, Some 1, s')
    \<and> map (\<lambda>b. (r_ch b, r_data b)) (x_passed s') = [(12, [1, 2])]"
proof -
  let ?s = "\<lparr>x_rb = packet_ring, x_passed = [], x_crashes = []\<rparr>" and ?e = "\<lparr>e_alloc = \<lambda>_. True, e_iods = \<lambda>_. True, e_room = \<lambda>_. []\<rparr>"
  have m: "rb_msgs packet_ring = [(12, [1, 2]), (13, [9, 8, 7])]" by code_simp
  have "rb_ok packet_ring" "rb_ps_ch packet_ring" by code_simp+
  moreover have "rb_lens_ok packet_ring" by code_simp
  ultimately show ?thesis using modem_sbd_net_budget [of ?s ?e "\<lambda>_. 0" 1] m by auto
qed

end
