(* ===== verification/Dm.thy ===== *)
theory Dm
  imports Prelude
begin

text \<open>
  The DVFS manager, \<^verbatim>\<open>drivers/soc/google/exynos-dm.c\<close>. Each domain (a CPU cluster, the memory bus, the
  internal bus) has a frequency, limits by policy and limits that follow from other domains; a
  constraint is a table that gives, for a frequency of the domain that drives it, the lowest or highest
  frequency of the domain that is constrained. Constraints are objects with an address; the lists
  of a domain are lists of addresses. The lists of a domain that is not available were never
  initialised, so going through them or linking into them is a fault, \<open>None\<close>, as is an access
  outside an array or a table. The length of a table is the length of its list, below \<open>2 ^ 31\<close>.

  The scaling functions that the drivers register are parameters: \<open>res k\<close> is what the \<open>k\<close>-th call
  returns; the calls are recorded in \<open>dm_log\<close>. Likewise for the messages to the power firmware.
\<close>

named_theorems dm \<open>definitions and facts of the DVFS manager\<close>

abbreviation (input) UINT_MAX :: u32 where "UINT_MAX \<equiv> 0xFFFFFFFF"

subsection \<open>State\<close>

datatype exynos_constraint_type = CONSTRAINT_MIN | CONSTRAINT_MAX | CONSTRAINT_END

record exynos_dm_freq =
  driver_freq :: u32
  constraint_freq :: u32

record exynos_dm_constraint =
  dm_driver :: int
  dm_constraint :: int
  guidance :: bool
  constraint_type :: exynos_constraint_type
  c_type_name :: string
  freq_table :: "exynos_dm_freq list option"
  const_freq :: u32
  gov_freq :: u32
  sub_constraint :: "nat option"

record exynos_dm_data =
  available :: bool
  policy_use :: bool
  dm_type :: int
  dm_type_name :: string
  my_order :: int
  indegree :: int
  cur_freq :: u32
  next_target_freq :: u32
  governor_freq :: u32
  gov_min :: u32
  policy_min :: u32
  policy_max :: u32
  const_min :: u32
  const_max :: u32
  freq_scaler :: "nat option"
  min_constraints :: "nat list"
  max_constraints :: "nat list"
  min_drivers :: "nat list"
  max_drivers :: "nat list"
  cal_id :: u32
  devdata :: nat

record exynos_dm_device =
  domain_order :: "int list"
  constraint_domain_count :: nat
  dm_data :: "exynos_dm_data list"
  dm_cons :: "nat \<Rightarrow> exynos_dm_constraint"
  dm_log :: "(nat \<times> u32 \<times> nat) list"
  fvp_log :: "(u32 \<times> u32 \<times> u32) list"

definition idx_ok :: "exynos_dm_device \<Rightarrow> int \<Rightarrow> bool" where
  "idx_ok s i \<longleftrightarrow> 0 \<le> i \<and> nat i < length (dm_data s)"

definition usable :: "exynos_dm_device \<Rightarrow> int \<Rightarrow> bool" where
  "usable s i \<longleftrightarrow> idx_ok s i \<and> available (dm_data s ! nat i)"

definition upd_dom :: "nat \<Rightarrow> (exynos_dm_data \<Rightarrow> exynos_dm_data) \<Rightarrow> exynos_dm_device \<Rightarrow> exynos_dm_device" where
  "upd_dom i f s = s\<lparr>dm_data := (dm_data s)[i := f (dm_data s ! i)]\<rparr>"

definition upd_con :: "nat \<Rightarrow> (exynos_dm_constraint \<Rightarrow> exynos_dm_constraint) \<Rightarrow> exynos_dm_device \<Rightarrow> exynos_dm_device" where
  "upd_con p f s = s\<lparr>dm_cons := (dm_cons s)(p := f (dm_cons s p))\<rparr>"

text \<open>\<^verbatim>\<open>list_empty\<close> of a list of a domain; a head that was not initialised does not point to itself.\<close>

definition list_empty :: "exynos_dm_data \<Rightarrow> nat list \<Rightarrow> bool" where
  "list_empty d l \<longleftrightarrow> available d \<and> l = []"

text \<open>A loop over list entries or array positions, left at a fault.\<close>

fun visit_all :: "('i \<Rightarrow> 's \<Rightarrow> 's option) \<Rightarrow> 'i list \<Rightarrow> 's \<Rightarrow> 's option" where
  "visit_all f [] s = Some s"
| "visit_all f (x # xs) s = (case f x s of None \<Rightarrow> None | Some s1 \<Rightarrow> visit_all f xs s1)"

subsection \<open>Setting up\<close>

definition exynos_dm_index_validate :: "int \<Rightarrow> int" where
  "exynos_dm_index_validate i = (if i < 0 then - EINVAL else 0)"

text \<open>The properties of a node of the device tree, \<open>None\<close> when one cannot be read.\<close>

record dm_dt =
  dt_index :: "s32 option"
  dt_available :: "string option"
  dt_type_name :: "string option"
  dt_policy_use :: "string option"
  dt_cal_id :: "u32 option"

definition zero_data :: exynos_dm_data where
  "zero_data = \<lparr>available = False, policy_use = False, dm_type = 0, dm_type_name = [], my_order = 0, indegree = 0,
     cur_freq = 0, next_target_freq = 0, governor_freq = 0, gov_min = 0, policy_min = 0, policy_max = 0,
     const_min = 0, const_max = 0, freq_scaler = None, min_constraints = [], max_constraints = [],
     min_drivers = [], max_drivers = [], cal_id = 0, devdata = 0\<rparr>"

definition parse_child :: "dm_dt \<Rightarrow> exynos_dm_device \<Rightarrow> (int \<times> exynos_dm_device) option" where
  "parse_child np s =
     (case dt_index np of
        None \<Rightarrow> Some (- ENODEV, s)
      | Some w \<Rightarrow>
          (let i = sint w
           in if exynos_dm_index_validate i \<noteq> 0 then Some (exynos_dm_index_validate i, s)
              else
                (case dt_available np of
                   None \<Rightarrow> Some (- ENODEV, s)
                 | Some av \<Rightarrow>
                     if \<not> idx_ok s i then None
                     else
                       (let s1 = (if av = ''true'' then
                                    upd_dom (nat i) (\<lambda>d. d\<lparr>dm_type := i, available := True,
                                      dm_type_name := (case dt_type_name np of None \<Rightarrow> dm_type_name d | Some nm \<Rightarrow> take 16 nm),
                                      min_constraints := [], max_constraints := [], min_drivers := [], max_drivers := []\<rparr>) s
                                  else upd_dom (nat i) (\<lambda>d. d\<lparr>available := False\<rparr>) s);
                            s2 = (if dt_policy_use np = Some ''true'' then upd_dom (nat i) (\<lambda>d. d\<lparr>policy_use := True\<rparr>) s1 else s1)
                        in case dt_cal_id np of
                             None \<Rightarrow> Some (- ENODEV, s2)
                           | Some c \<Rightarrow> Some (0, upd_dom (nat i) (\<lambda>d. d\<lparr>cal_id := c\<rparr>) s2)))))"

fun parse_children :: "dm_dt list \<Rightarrow> exynos_dm_device \<Rightarrow> (int \<times> exynos_dm_device) option" where
  "parse_children [] s = Some (0, s)"
| "parse_children (np # nps) s =
     (case parse_child np s of
        None \<Rightarrow> None
      | Some (ret, s1) \<Rightarrow> if ret \<noteq> 0 then Some (ret, s1) else parse_children nps s1)"

text \<open>\<open>None\<close> stands for a missing node; \<open>mem\<close> tells for the two arrays whether they can be allocated.\<close>

definition exynos_dm_parse_dt :: "bool \<times> bool \<Rightarrow> dm_dt list option \<Rightarrow> exynos_dm_device \<Rightarrow> (int \<times> exynos_dm_device) option" where
  "exynos_dm_parse_dt mem node s =
     (case node of
        None \<Rightarrow> Some (- ENODEV, s)
      | Some nps \<Rightarrow>
          if nps = [] then Some (- ENODEV, s)
          else if \<not> fst mem then Some (- ENOMEM, s)
          else
            (let s1 = s\<lparr>dm_data := replicate (length nps) zero_data\<rparr>
             in if \<not> snd mem then Some (- ENOMEM, s1)
                else parse_children nps (s1\<lparr>domain_order := replicate (length nps) 0\<rparr>)))"

definition zero_con :: exynos_dm_constraint where
  "zero_con = \<lparr>dm_driver = 0, dm_constraint = 0, guidance = False, constraint_type = CONSTRAINT_MIN, c_type_name = [],
     freq_table = None, const_freq = 0, gov_freq = 0, sub_constraint = None\<rparr>"

text \<open>The structure itself is allocated first; a failure to create an attribute is only reported.\<close>

definition exynos_dm_probe :: "bool \<Rightarrow> bool \<times> bool \<Rightarrow> dm_dt list option \<Rightarrow> (int \<times> exynos_dm_device option) option" where
  "exynos_dm_probe kz mem node =
     (if \<not> kz then Some (- ENOMEM, None)
      else
        (case exynos_dm_parse_dt mem node \<lparr>domain_order = [], constraint_domain_count = 0, dm_data = [], dm_cons = \<lambda>_. zero_con, dm_log = [], fvp_log = []\<rparr> of
           None \<Rightarrow> None
         | Some (ret, s) \<Rightarrow> Some (if ret \<noteq> 0 then (ret, None) else (0, Some s))))"

definition exynos_dm_data_init :: "int \<Rightarrow> nat \<Rightarrow> u32 \<Rightarrow> u32 \<Rightarrow> u32 \<Rightarrow> exynos_dm_device \<Rightarrow> (int \<times> exynos_dm_device) option" where
  "exynos_dm_data_init i data min_freq max_freq cur s =
     (if exynos_dm_index_validate i \<noteq> 0 then Some (exynos_dm_index_validate i, s)
      else if \<not> idx_ok s i then None
      else if \<not> available (dm_data s ! nat i) then Some (- ENODEV, s)
      else Some (0, upd_dom (nat i) (\<lambda>d. d\<lparr>policy_max := max_freq, const_max := max_freq, const_min := min_freq,
             policy_min := min_freq, gov_min := min_freq, cur_freq := cur, governor_freq := cur, devdata := data\<rparr>) s))"

text \<open>Both calls return 0 also when the domain is not available.\<close>

definition register_exynos_dm_freq_scaler :: "int \<Rightarrow> nat option \<Rightarrow> exynos_dm_device \<Rightarrow> (int \<times> exynos_dm_device) option" where
  "register_exynos_dm_freq_scaler i scaler_func s =
     (if exynos_dm_index_validate i \<noteq> 0 then Some (exynos_dm_index_validate i, s)
      else if scaler_func = None then Some (- EINVAL, s)
      else if \<not> idx_ok s i then None
      else if \<not> available (dm_data s ! nat i) then Some (0, s)
      else if freq_scaler (dm_data s ! nat i) = None then Some (0, upd_dom (nat i) (\<lambda>d. d\<lparr>freq_scaler := scaler_func\<rparr>) s)
      else Some (0, s))"

definition unregister_exynos_dm_freq_scaler :: "int \<Rightarrow> exynos_dm_device \<Rightarrow> (int \<times> exynos_dm_device) option" where
  "unregister_exynos_dm_freq_scaler i s =
     (if exynos_dm_index_validate i \<noteq> 0 then Some (exynos_dm_index_validate i, s)
      else if \<not> idx_ok s i then None
      else if \<not> available (dm_data s ! nat i) then Some (0, s)
      else Some (0, upd_dom (nat i) (\<lambda>d. d\<lparr>freq_scaler := None\<rparr>) s))"

subsection \<open>The order of the domains\<close>

text \<open>
  \<^verbatim>\<open>exynos_dm_topological_sort\<close>. The array of indegrees is allocated without being cleared: an entry that
  was not written is \<open>None\<close>, and reading it is a fault. \<open>sq\<close> is the part of \<^verbatim>\<open>search_queue\<close> that was written,
  so \<^verbatim>\<open>s_head\<close> is its length. Both arrays are taken to be available; their allocation is not checked.
\<close>

definition topo_skip :: "exynos_dm_data \<Rightarrow> bool" where
  "topo_skip d \<longleftrightarrow> \<not> available d \<or>
     list_empty d (min_constraints d) \<and> list_empty d (max_constraints d) \<and> list_empty d (min_drivers d) \<and> list_empty d (max_drivers d)"

definition topo_indegree :: "exynos_dm_device \<Rightarrow> int option list" where
  "topo_indegree s = map (\<lambda>d. if topo_skip d then None else Some (indegree d)) (dm_data s)"

definition topo_start :: "exynos_dm_device \<Rightarrow> int list" where
  "topo_start s = map int (filter (\<lambda>i. topo_indegree s ! i = Some 0) [0..<length (dm_data s)])"

fun topo_dec :: "(nat \<Rightarrow> exynos_dm_constraint) \<Rightarrow> nat list \<Rightarrow> int option list \<Rightarrow> int list \<Rightarrow> (int option list \<times> int list) option" where
  "topo_dec cons [] ind sq = Some (ind, sq)"
| "topo_dec cons (t # ts) ind sq =
     (let c = dm_constraint (cons t)
      in if \<not> (0 \<le> c \<and> nat c < length ind) then None
         else
           (case ind ! nat c of
              None \<Rightarrow> None
            | Some k \<Rightarrow>
                if k - 1 = 0 then
                  (if \<not> length sq < length ind then None else topo_dec cons ts (ind[nat c := Some (k - 1)]) (sq @ [c]))
                else topo_dec cons ts (ind[nat c := Some (k - 1)]) sq))"

lemma topo_dec_length:
  "topo_dec cons ts ind sq = Some (ind', sq') \<Longrightarrow> length ind' = length ind \<and> length sq \<le> length sq' \<and> length sq' \<le> max (length sq) (length ind)"
  by (induction ts arbitrary: ind sq) (fastforce simp: Let_def split: if_splits option.splits)+

function topo_loop :: "int option list \<Rightarrow> int list \<Rightarrow> nat \<Rightarrow> nat \<Rightarrow> exynos_dm_device \<Rightarrow> exynos_dm_device option" where
  "topo_loop ind sq s_rear r_head s =
     (if length sq = s_rear then Some (s\<lparr>constraint_domain_count := r_head\<rparr>)
      else if \<not> s_rear < length sq then None
      else
        (let poll = sq ! s_rear
         in if \<not> usable s poll \<or> \<not> r_head < length (domain_order s) then None
            else
              (let s1 = upd_dom (nat poll) (\<lambda>d. d\<lparr>my_order := int r_head\<rparr>) (s\<lparr>domain_order := (domain_order s)[r_head := poll]\<rparr>)
               in case topo_dec (dm_cons s1) (min_constraints (dm_data s1 ! nat poll)) ind sq of
                    None \<Rightarrow> None
                  | Some (ind1, sq1) \<Rightarrow> topo_loop ind1 sq1 (s_rear + 1) (r_head + 1) s1)))"
  by pat_completeness auto
termination
  by (relation "measure (\<lambda>(ind, sq, s_rear, _). max (length ind) (length sq) - s_rear)")
    (auto dest!: topo_dec_length)

definition exynos_dm_topological_sort :: "exynos_dm_device \<Rightarrow> exynos_dm_device option" where
  "exynos_dm_topological_sort s = topo_loop (topo_indegree s) (topo_start s) 0 0 s"

subsection \<open>Constraints\<close>

text \<open>\<^verbatim>\<open>list_del\<close> of the two links of a constraint; one that is not linked is a fault.\<close>

definition unlink_driver :: "nat \<Rightarrow> exynos_dm_device \<Rightarrow> exynos_dm_device option" where
  "unlink_driver p s =
     (if list_ex (\<lambda>d. p \<in> set (min_constraints d) \<union> set (max_constraints d)) (dm_data s)
      then Some (s\<lparr>dm_data := map (\<lambda>d. d\<lparr>min_constraints := remove1 p (min_constraints d), max_constraints := remove1 p (max_constraints d)\<rparr>) (dm_data s)\<rparr>)
      else None)"

definition unlink_constraint :: "nat \<Rightarrow> exynos_dm_device \<Rightarrow> exynos_dm_device option" where
  "unlink_constraint p s =
     (if list_ex (\<lambda>d. p \<in> set (min_drivers d) \<union> set (max_drivers d)) (dm_data s)
      then Some (s\<lparr>dm_data := map (\<lambda>d. d\<lparr>min_drivers := remove1 p (min_drivers d), max_drivers := remove1 p (max_drivers d)\<rparr>) (dm_data s)\<rparr>)
      else None)"

definition unlink_both :: "nat \<Rightarrow> exynos_dm_device \<Rightarrow> exynos_dm_device option" where
  "unlink_both p s = (case unlink_driver p s of None \<Rightarrow> None | Some s1 \<Rightarrow> unlink_constraint p s1)"

definition linked :: "nat \<Rightarrow> exynos_dm_device \<Rightarrow> bool" where
  "linked p s \<longleftrightarrow> list_ex (\<lambda>d. p \<in> set (min_constraints d) \<union> set (max_constraints d) \<union> set (min_drivers d) \<union> set (max_drivers d)) (dm_data s)"

text \<open>The table of the opposite constraint: the columns are exchanged.\<close>

definition swap_freq :: "exynos_dm_freq \<Rightarrow> exynos_dm_freq" where
  "swap_freq f = \<lparr>driver_freq = constraint_freq f, constraint_freq = driver_freq f\<rparr>"

definition link_min :: "nat \<Rightarrow> nat \<Rightarrow> nat \<Rightarrow> exynos_dm_device \<Rightarrow> exynos_dm_device" where
  "link_min p d c s =
     upd_dom c (\<lambda>x. x\<lparr>min_drivers := p # min_drivers x, indegree := indegree x + 1\<rparr>)
       (upd_dom d (\<lambda>x. x\<lparr>min_constraints := p # min_constraints x\<rparr>) s)"

definition link_max :: "nat \<Rightarrow> nat \<Rightarrow> nat \<Rightarrow> exynos_dm_device \<Rightarrow> exynos_dm_device" where
  "link_max p d c s =
     upd_dom c (\<lambda>x. x\<lparr>max_drivers := p # max_drivers x\<rparr>) (upd_dom d (\<lambda>x. x\<lparr>max_constraints := p # max_constraints x\<rparr>) s)"

text \<open>
  \<open>sub\<close> is the address of the memory for the opposite constraint, \<open>None\<close> when it cannot be allocated, and \<open>tab\<close>
  tells whether its table can be. The constraint is read before its address is compared with NULL. A
  constraint that is linked already would tear the lists apart.
\<close>

definition register_exynos_dm_constraint_table ::
    "nat option \<Rightarrow> bool \<Rightarrow> int \<Rightarrow> nat option \<Rightarrow> exynos_dm_device \<Rightarrow> (int \<times> exynos_dm_device) option" where
  "register_exynos_dm_constraint_table sub tab i cl s =
     (case cl of
        None \<Rightarrow> None
      | Some p \<Rightarrow>
          (let t = dm_cons s p; c = dm_constraint t
           in if exynos_dm_index_validate i \<noteq> 0 then Some (exynos_dm_index_validate i, s)
              else if constraint_type t = CONSTRAINT_END then Some (- EINVAL, s)
              else if exynos_dm_index_validate c \<noteq> 0 then Some (exynos_dm_index_validate c, s)
              else
                (case freq_table t of
                   None \<Rightarrow> Some (- EINVAL, s)
                 | Some tb \<Rightarrow>
                     if \<not> usable s i \<or> \<not> usable s c \<or> linked p s then None
                     else
                       (let s1 = upd_con p (\<lambda>x. x\<lparr>c_type_name := take 16 (dm_type_name (dm_data s ! nat c)), const_freq := 0, gov_freq := 0, dm_driver := i\<rparr>) s;
                            s2 = (if constraint_type t = CONSTRAINT_MIN then link_min p (nat i) (nat c) s1 else link_max p (nat i) (nat c) s1)
                        in if guidance t \<and> constraint_type t = CONSTRAINT_MIN then
                             (case sub of
                                None \<Rightarrow> map_option (\<lambda>s3. (- ENOMEM, s3)) (unlink_both p s2)
                              | Some q \<Rightarrow>
                                  if \<not> tab then map_option (\<lambda>s3. (- ENOMEM, s3)) (unlink_both p s2)
                                  else
                                    (let s3 = upd_con q (\<lambda>_. \<lparr>dm_driver = c, dm_constraint = i, guidance = True, constraint_type = CONSTRAINT_MAX,
                                              c_type_name = take 16 (dm_type_name (dm_data s2 ! nat i)), freq_table = Some (map swap_freq tb),
                                              const_freq = UINT_MAX, gov_freq = UINT_MAX, sub_constraint = None\<rparr>) s2;
                                         s4 = upd_con p (\<lambda>x. x\<lparr>sub_constraint := Some q\<rparr>) (link_max q (nat c) (nat i) s3)
                                     in map_option (\<lambda>s5. (0, s5)) (exynos_dm_topological_sort s4)))
                           else map_option (\<lambda>s3. (0, s3)) (exynos_dm_topological_sort s2)))))"

definition unregister_exynos_dm_constraint_table :: "int \<Rightarrow> nat option \<Rightarrow> exynos_dm_device \<Rightarrow> (int \<times> exynos_dm_device) option" where
  "unregister_exynos_dm_constraint_table i cl s =
     (if exynos_dm_index_validate i \<noteq> 0 then Some (exynos_dm_index_validate i, s)
      else
        (case cl of
           None \<Rightarrow> Some (- EINVAL, s)
         | Some p \<Rightarrow>
             (case (case sub_constraint (dm_cons s p) of None \<Rightarrow> Some s | Some q \<Rightarrow> unlink_both q s) of
                None \<Rightarrow> None
              | Some s1 \<Rightarrow> map_option (\<lambda>s2. (0, s2)) (unlink_both p s1))))"

subsection \<open>Tables\<close>

text \<open>
  The two searches. Tables are in falling order: the first finds the last row that covers the frequency
  of the driver, the first row when none does; the second finds the first row not above it, the last
  row when all are.
\<close>

fun scan_down :: "exynos_dm_freq list \<Rightarrow> u32 \<Rightarrow> nat \<Rightarrow> nat option" where
  "scan_down tb f 0 = None"
| "scan_down tb f (Suc i) = (if driver_freq (tb ! i) \<ge> f then Some i else scan_down tb f i)"

definition min_row :: "exynos_dm_freq list \<Rightarrow> u32 \<Rightarrow> nat" where
  "min_row tb f = (case scan_down tb f (length tb) of None \<Rightarrow> 0 | Some i \<Rightarrow> i)"

definition min_lookup :: "exynos_dm_freq list \<Rightarrow> u32 \<Rightarrow> u32" where
  "min_lookup tb f = constraint_freq (tb ! min_row tb f)"

fun scan_up :: "exynos_dm_freq list \<Rightarrow> u32 \<Rightarrow> nat \<Rightarrow> nat" where
  "scan_up [] f i = i"
| "scan_up (r # tb) f i = (if driver_freq r \<le> f then i else scan_up tb f (Suc i))"

definition max_row :: "exynos_dm_freq list \<Rightarrow> u32 \<Rightarrow> nat" where
  "max_row tb f = (let i = scan_up tb f 0 in if i = length tb then length tb - 1 else i)"

definition max_lookup :: "exynos_dm_freq list \<Rightarrow> u32 \<Rightarrow> u32" where
  "max_lookup tb f = constraint_freq (tb ! max_row tb f)"

text \<open>What the constraint \<open>p\<close> has as its table, and the domain it constrains, when an access to either is not a fault.\<close>

definition con_target :: "nat \<Rightarrow> exynos_dm_device \<Rightarrow> (exynos_dm_freq list \<times> nat) option" where
  "con_target p s =
     (case freq_table (dm_cons s p) of
        None \<Rightarrow> None
      | Some tb \<Rightarrow> if tb = [] \<or> \<not> usable s (dm_constraint (dm_cons s p)) then None else Some (tb, nat (dm_constraint (dm_cons s p))))"

definition max_const :: "exynos_dm_device \<Rightarrow> nat list \<Rightarrow> u32" where
  "max_const s ts = foldl (\<lambda>m t. max (const_freq (dm_cons s t)) m) 0 ts"

definition min_const :: "exynos_dm_device \<Rightarrow> nat list \<Rightarrow> u32" where
  "min_const s ts = foldl (\<lambda>m t. min (const_freq (dm_cons s t)) m) UINT_MAX ts"

definition max_gov :: "exynos_dm_device \<Rightarrow> nat list \<Rightarrow> u32" where
  "max_gov s ts = foldl (\<lambda>m t. max (gov_freq (dm_cons s t)) m) 0 ts"

definition update_constraint_min :: "u32 \<Rightarrow> nat \<Rightarrow> exynos_dm_device \<Rightarrow> exynos_dm_device option" where
  "update_constraint_min driver_min p s =
     (case con_target p s of
        None \<Rightarrow> None
      | Some (tb, c) \<Rightarrow>
          (let s1 = upd_con p (\<lambda>x. x\<lparr>const_freq := min_lookup tb driver_min\<rparr>) s
           in Some (upd_dom c (\<lambda>x. x\<lparr>const_min := max_const s1 (min_drivers x)\<rparr>) s1)))"

definition update_constraint_max :: "u32 \<Rightarrow> nat \<Rightarrow> exynos_dm_device \<Rightarrow> exynos_dm_device option" where
  "update_constraint_max driver_max p s =
     (case con_target p s of
        None \<Rightarrow> None
      | Some (tb, c) \<Rightarrow>
          (let s1 = upd_con p (\<lambda>x. x\<lparr>const_freq := max_lookup tb driver_max\<rparr>) s
           in Some (upd_dom c (\<lambda>x. x\<lparr>const_max := min_const s1 (max_drivers x)\<rparr>) s1)))"

definition update_gov_min :: "u32 \<Rightarrow> nat \<Rightarrow> exynos_dm_device \<Rightarrow> exynos_dm_device option" where
  "update_gov_min driver_f p s =
     (case con_target p s of
        None \<Rightarrow> None
      | Some (tb, c) \<Rightarrow>
          (let s1 = upd_con p (\<lambda>x. x\<lparr>gov_freq := min_lookup tb driver_f\<rparr>) s
           in Some (upd_dom c (\<lambda>x. x\<lparr>gov_min := max_gov s1 (min_drivers x)\<rparr>) s1)))"

subsection \<open>Policies\<close>

definition lim_min :: "exynos_dm_data \<Rightarrow> u32" where
  "lim_min d = max (policy_min d) (const_min d)"

definition lim_max :: "exynos_dm_data \<Rightarrow> u32" where
  "lim_max d = min (policy_max d) (const_max d)"

text \<open>In the loop for lower limits the two limits are compared as signed integers.\<close>

definition eff_min :: "exynos_dm_data \<Rightarrow> u32" where
  "eff_min d = (if sint (lim_max d) < sint (lim_min d) then lim_max d else lim_min d)"

definition min_visit :: "int \<Rightarrow> exynos_dm_device \<Rightarrow> exynos_dm_device option" where
  "min_visit i s =
     (if \<not> usable s i then None
      else visit_all (update_constraint_min (eff_min (dm_data s ! nat i))) (min_constraints (dm_data s ! nat i)) s)"

definition max_visit :: "int \<Rightarrow> exynos_dm_device \<Rightarrow> exynos_dm_device option" where
  "max_visit i s =
     (if \<not> usable s i then None
      else visit_all (update_constraint_max (lim_max (dm_data s ! nat i))) (max_constraints (dm_data s ! nat i)) s)"

text \<open>The positions of the order that the two loops go through, from \<^verbatim>\<open>my_order\<close> up and down.\<close>

definition order_from :: "int \<Rightarrow> exynos_dm_device \<Rightarrow> int list" where
  "order_from o1 s = drop (nat o1) (take (constraint_domain_count s) (domain_order s))"

definition order_downto :: "int \<Rightarrow> exynos_dm_device \<Rightarrow> int list" where
  "order_downto o1 s = rev (take (nat (o1 + 1)) (domain_order s))"

text \<open>The results of \<^verbatim>\<open>acpm_ipc_request_channel\<close> and \<^verbatim>\<open>acpm_ipc_send_data\<close> are \<open>fvp\<close>. The call returns 0 whatever happens.\<close>

definition policy_propagate :: "nat \<Rightarrow> u32 \<Rightarrow> u32 \<Rightarrow> exynos_dm_device \<Rightarrow> exynos_dm_device option" where
  "policy_propagate i prev_min prev_max s =
     (let d = dm_data s ! i; new_max = lim_max d; new_min = min (lim_min d) new_max
      in case (if new_min \<noteq> prev_min then visit_all min_visit (order_from (my_order d) s) s else Some s) of
           None \<Rightarrow> None
         | Some s1 \<Rightarrow> if new_max \<noteq> prev_max then visit_all max_visit (order_downto (my_order d) s1) s1 else Some s1)"

definition policy_update_call_to_DM :: "int \<times> int \<Rightarrow> int \<Rightarrow> u32 \<Rightarrow> u32 \<Rightarrow> exynos_dm_device \<Rightarrow> (int \<times> exynos_dm_device) option" where
  "policy_update_call_to_DM fvp i min_freq max_freq s =
     (if \<not> idx_ok s i then None
      else if max_freq = 0 \<and> min_freq = 0 then Some (0, s)
      else
        (let d = dm_data s ! nat i; prev_min = lim_min d; prev_max = lim_max d
         in if policy_max d = max_freq \<and> policy_min d = min_freq then Some (0, s)
            else
              (let mx = (if max_freq = 0 then policy_max d else max_freq); mn = (if min_freq = 0 then policy_min d else min_freq);
                   s1 = upd_dom (nat i) (\<lambda>x. x\<lparr>policy_max := mx, policy_min := mn\<rparr>) s;
                   s2 = (if policy_use d \<and> fst fvp = 0 then s1\<lparr>fvp_log := fvp_log s1 @ [(cal_id d AND 0xFFFF, mx, 4)]\<rparr> else s1)
               in if policy_use d \<and> (fst fvp \<noteq> 0 \<or> snd fvp \<noteq> 0) then Some (0, s2)
                  else if list_empty d (min_constraints d) \<and> list_empty d (max_constraints d) then Some (0, s2)
                  else map_option (\<lambda>s3. (0, s3)) (policy_propagate (nat i) prev_min prev_max s2))))"

subsection \<open>Scaling\<close>

definition next_target :: "exynos_dm_data \<Rightarrow> u32" where
  "next_target d = min (max (max (max (policy_min d) (const_min d)) (gov_min d)) (governor_freq d)) (lim_max d)"

definition update_new_target :: "nat \<Rightarrow> exynos_dm_device \<Rightarrow> exynos_dm_device" where
  "update_new_target i s = upd_dom i (\<lambda>d. d\<lparr>next_target_freq := next_target d\<rparr>) s"

text \<open>A call of the scaling function of domain \<open>i\<close>, with what follows it; the second component is \<^verbatim>\<open>ret\<close>.\<close>

definition scale :: "(nat \<Rightarrow> int) \<Rightarrow> nat \<Rightarrow> nat \<Rightarrow> exynos_dm_device \<Rightarrow> exynos_dm_device \<times> int" where
  "scale res relation i s =
     (let r = res (length (dm_log s)); s1 = s\<lparr>dm_log := dm_log s @ [(i, next_target_freq (dm_data s ! i), relation)]\<rparr>
      in (if r = 0 then upd_dom i (\<lambda>d. d\<lparr>cur_freq := next_target_freq d\<rparr>) s1 else s1, r))"

definition down_visit :: "(nat \<Rightarrow> int) \<Rightarrow> nat \<Rightarrow> int \<Rightarrow> exynos_dm_device \<times> int \<Rightarrow> (exynos_dm_device \<times> int) option" where
  "down_visit res relation i st =
     (let s = fst st
      in if \<not> usable s i then None
         else
           (let s1 = update_new_target (nat (dm_type (dm_data s ! nat i))) s; d = dm_data s1 ! nat i
            in case visit_all (update_gov_min (next_target_freq d)) (min_constraints d) s1 of
                 None \<Rightarrow> None
               | Some s2 \<Rightarrow>
                   Some (if cur_freq (dm_data s2 ! nat i) > next_target_freq (dm_data s2 ! nat i) \<and> freq_scaler (dm_data s2 ! nat i) \<noteq> None
                         then scale res relation (nat i) s2 else (s2, snd st))))"

definition up_visit :: "(nat \<Rightarrow> int) \<Rightarrow> nat \<Rightarrow> int \<Rightarrow> exynos_dm_device \<times> int \<Rightarrow> (exynos_dm_device \<times> int) option" where
  "up_visit res relation i st =
     (let s = fst st
      in if \<not> usable s i then None
         else Some (if cur_freq (dm_data s ! nat i) < next_target_freq (dm_data s ! nat i) \<and> freq_scaler (dm_data s ! nat i) \<noteq> None
                    then scale res relation (nat i) s else st))"

definition all_order :: "exynos_dm_device \<Rightarrow> int list" where
  "all_order s = take (constraint_domain_count s) (domain_order s)"

definition dm_propagate :: "(nat \<Rightarrow> int) \<Rightarrow> nat \<Rightarrow> exynos_dm_device \<Rightarrow> (exynos_dm_device \<times> int) option" where
  "dm_propagate res relation s =
     (case visit_all (down_visit res relation) (all_order s) (s, 0) of
        None \<Rightarrow> None
      | Some st \<Rightarrow> visit_all (up_visit res relation) (rev (all_order (fst st))) st)"

text \<open>The result has the return value and the new \<^verbatim>\<open>*target_freq\<close>.\<close>

definition DM_CALL :: "(nat \<Rightarrow> int) \<Rightarrow> int \<Rightarrow> u64 \<Rightarrow> exynos_dm_device \<Rightarrow> (int \<times> u64 \<times> exynos_dm_device) option" where
  "DM_CALL res i target s0 =
     (if \<not> idx_ok s0 i then None
      else
        (let s = upd_dom (nat i) (\<lambda>d. d\<lparr>governor_freq := ucast target\<rparr>) s0; d = dm_data s ! nat i;
             max_freq = lim_max d; min_freq = lim_min d;
             t1 = (if target < ucast min_freq then ucast min_freq else target);
             t2 = (if t1 \<ge> ucast max_freq then ucast max_freq else t1);
             relation = (if t1 \<ge> ucast max_freq then 1 else 0)
         in case (if ucast (cur_freq d) = t2 then Some (s, 0)
                  else if list_empty d (max_constraints d) \<and> list_empty d (min_constraints d) \<and> freq_scaler d \<noteq> None
                       then Some (scale res relation (nat i) (update_new_target (nat (dm_type d)) s))
                  else dm_propagate res relation s) of
              None \<Rightarrow> None
            | Some (s1, ret) \<Rightarrow> Some (ret, ucast (cur_freq (dm_data s1 ! nat i)), s1)))"

end
