(* ===== verification/DmSort.thy ===== *)
theory DmSort
  imports Dm
begin

text \<open>
  The lists of the DVFS manager and its order of domains. \<open>links_ok\<close> says that the lists of domains and
  the fields of constraints describe one graph; it holds for the lists of lower and of upper limits.
  The sort is then correct: it ends without a fault, no domain precedes one that drives it, and when
  the graph has no cycle every domain that takes part in a constraint has its place.
\<close>

subsection \<open>The graph\<close>

abbreviation dat :: "exynos_dm_device \<Rightarrow> nat \<Rightarrow> exynos_dm_data" where "dat s i \<equiv> dm_data s ! i"
abbreviation src :: "exynos_dm_device \<Rightarrow> nat \<Rightarrow> nat" where "src s p \<equiv> nat (dm_driver (dm_cons s p))"
abbreviation dst :: "exynos_dm_device \<Rightarrow> nat \<Rightarrow> nat" where "dst s p \<equiv> nat (dm_constraint (dm_cons s p))"

definition link_rel :: "(exynos_dm_data \<Rightarrow> nat list) \<Rightarrow> (exynos_dm_data \<Rightarrow> nat list) \<Rightarrow> exynos_dm_device \<Rightarrow> bool" where
  "link_rel cs ds s \<longleftrightarrow>
     (\<forall>i < length (dm_data s). distinct (cs (dat s i)) \<and> distinct (ds (dat s i))
        \<and> (\<forall>p \<in> set (cs (dat s i)). dm_driver (dm_cons s p) = int i \<and> usable s (dm_constraint (dm_cons s p)) \<and> p \<in> set (ds (dat s (dst s p))))
        \<and> (\<forall>p \<in> set (ds (dat s i)). dm_constraint (dm_cons s p) = int i \<and> usable s (dm_driver (dm_cons s p)) \<and> p \<in> set (cs (dat s (src s p)))))"

definition links_ok :: "exynos_dm_device \<Rightarrow> bool" where
  "links_ok s \<longleftrightarrow> link_rel min_constraints min_drivers s \<and> link_rel max_constraints max_drivers s
     \<and> (\<forall>i < length (dm_data s). (available (dat s i) \<longrightarrow> dm_type (dat s i) = int i)
          \<and> (\<forall>p \<in> set (min_constraints (dat s i)). constraint_type (dm_cons s p) = CONSTRAINT_MIN)
          \<and> (\<forall>p \<in> set (max_constraints (dat s i)). constraint_type (dm_cons s p) = CONSTRAINT_MAX)
          \<and> (\<forall>p \<in> set (min_constraints (dat s i)) \<union> set (max_constraints (dat s i)). \<exists>tb. freq_table (dm_cons s p) = Some tb \<and> tb \<noteq> []))"

definition indegree_ok :: "exynos_dm_device \<Rightarrow> bool" where
  "indegree_ok s \<longleftrightarrow> (\<forall>i < length (dm_data s). indegree (dat s i) = int (length (min_drivers (dat s i))))"

text \<open>A constraint that is unregistered is not subtracted, so in general the counter is an upper bound.\<close>

definition indegree_ge :: "exynos_dm_device \<Rightarrow> bool" where
  "indegree_ge s \<longleftrightarrow> (\<forall>i < length (dm_data s). int (length (min_drivers (dat s i))) \<le> indegree (dat s i))"

definition min_edges :: "exynos_dm_device \<Rightarrow> (nat \<times> nat) set" where
  "min_edges s = {(src s p, i) | p i. i < length (dm_data s) \<and> p \<in> set (min_drivers (dat s i))}"

text \<open>The order: every place is right, and drivers come first.\<close>

definition ordered :: "exynos_dm_device \<Rightarrow> bool" where
  "ordered s \<longleftrightarrow> constraint_domain_count s \<le> length (domain_order s) \<and> distinct (all_order s)
     \<and> (\<forall>j < length (all_order s). usable s (all_order s ! j) \<and> my_order (dat s (nat (all_order s ! j))) = int j
          \<and> (\<forall>p \<in> set (min_drivers (dat s (nat (all_order s ! j)))). dm_driver (dm_cons s p) \<in> set (take j (all_order s))))"

definition complete_order :: "exynos_dm_device \<Rightarrow> bool" where
  "complete_order s \<longleftrightarrow> (\<forall>i < length (dm_data s). \<not> topo_skip (dat s i) \<longrightarrow> int i \<in> set (all_order s))"

lemma link_relD [dm]:
  assumes "link_rel cs ds s" and "i < length (dm_data s)"
  shows "distinct (cs (dat s i))" "distinct (ds (dat s i))"
    and "p \<in> set (cs (dat s i)) \<Longrightarrow> dm_driver (dm_cons s p) = int i" "p \<in> set (cs (dat s i)) \<Longrightarrow> usable s (dm_constraint (dm_cons s p))"
      "p \<in> set (cs (dat s i)) \<Longrightarrow> p \<in> set (ds (dat s (dst s p)))"
    and "p \<in> set (ds (dat s i)) \<Longrightarrow> dm_constraint (dm_cons s p) = int i" "p \<in> set (ds (dat s i)) \<Longrightarrow> usable s (dm_driver (dm_cons s p))"
      "p \<in> set (ds (dat s i)) \<Longrightarrow> p \<in> set (cs (dat s (src s p)))"
  using assms by (auto simp: link_rel_def)

lemma usable_nat: "usable s c \<Longrightarrow> nat c < length (dm_data s)" "usable s c \<Longrightarrow> 0 \<le> c" "usable s c \<Longrightarrow> available (dat s (nat c))"
  by (auto simp: usable_def idx_ok_def)

lemma usable_int [simp]: "usable s (int i) \<longleftrightarrow> i < length (dm_data s) \<and> available (dat s i)"
  by (simp add: usable_def idx_ok_def)

subsection \<open>Counting down\<close>

text \<open>\<open>D\<close> is the set of constraints that have been counted, \<open>to_count\<close> what the counter of a domain then is.\<close>

definition to_count :: "nat set \<Rightarrow> exynos_dm_data \<Rightarrow> int" where
  "to_count D d = indegree d - int (length (filter (\<lambda>p. p \<in> D) (min_drivers d)))"

definition kahn :: "exynos_dm_device \<Rightarrow> nat set \<Rightarrow> int option list \<Rightarrow> int list \<Rightarrow> bool" where
  "kahn s D ind sq \<longleftrightarrow> length ind = length (dm_data s) \<and> distinct sq
     \<and> (\<forall>x \<in> set sq. 0 \<le> x \<and> nat x < length (dm_data s) \<and> \<not> topo_skip (dat s (nat x)))
     \<and> (\<forall>c < length (dm_data s). ind ! c = (if topo_skip (dat s c) then None else Some (to_count D (dat s c))))
     \<and> (\<forall>c < length (dm_data s). \<not> topo_skip (dat s c) \<longrightarrow> (int c \<in> set sq \<longleftrightarrow> to_count D (dat s c) = 0))"

lemma filter_count_insert:
  "distinct xs \<Longrightarrow> t \<in> set xs \<Longrightarrow> t \<notin> D \<Longrightarrow> length (filter (\<lambda>p. p \<in> insert t D) xs) = Suc (length (filter (\<lambda>p. p \<in> D) xs))"
proof (induction xs)
  case (Cons x xs)
  show ?case
  proof (cases "x = t")
    case True
    then have "filter (\<lambda>p. p \<in> insert t D) xs = filter (\<lambda>p. p \<in> D) xs" using Cons.prems(1) by (intro filter_cong) auto
    with True Cons.prems show ?thesis by simp
  next
    case False
    with Cons show ?thesis by auto
  qed
qed simp

lemma to_count_insert: "distinct (min_drivers d) \<Longrightarrow> t \<in> set (min_drivers d) \<Longrightarrow> t \<notin> D \<Longrightarrow> to_count (insert t D) d = to_count D d - 1"
  using filter_count_insert [of "min_drivers d" t D] by (simp add: to_count_def)

lemma to_count_other: "t \<notin> set (min_drivers d) \<Longrightarrow> to_count (insert t D) d = to_count D d"
proof -
  assume "t \<notin> set (min_drivers d)"
  then have "filter (\<lambda>p. p \<in> insert t D) (min_drivers d) = filter (\<lambda>p. p \<in> D) (min_drivers d)" by (intro filter_cong) auto
  then show ?thesis by (simp add: to_count_def)
qed

lemma to_count_0:
  assumes "int (length (min_drivers d)) \<le> indegree d" and "to_count D d = 0"
  shows "set (min_drivers d) \<subseteq> D"
proof -
  have "length (filter (\<lambda>p. p \<in> D) (min_drivers d)) = length (min_drivers d)"
    using assms by (intro antisym length_filter_le) (simp add: to_count_def)
  then show ?thesis by (metis length_filter_less less_irrefl subsetI)
qed

lemma to_count_all:
  assumes "int (length (min_drivers d)) = indegree d" and "set (min_drivers d) \<subseteq> D"
  shows "to_count D d = 0"
proof -
  have "filter (\<lambda>p. p \<in> D) (min_drivers d) = min_drivers d" using assms(2) by (auto simp: filter_id_conv)
  then show ?thesis using assms(1) by (simp add: to_count_def)
qed

lemma int_list_length_less:
  fixes sq :: "int list"
  assumes "distinct sq" and "\<forall>x \<in> set sq. 0 \<le> x \<and> nat x < n" and "c < n" and "int c \<notin> set sq"
  shows "length sq < n"
proof -
  have "set (int c # sq) \<subseteq> int ` {..<n}"
  proof
    fix x
    assume "x \<in> set (int c # sq)"
    then have "0 \<le> x" "nat x < n" using assms(2,3) by auto
    then have "x = int (nat x)" "nat x \<in> {..<n}" by simp_all
    then show "x \<in> int ` {..<n}" by blast
  qed
  then have "card (set (int c # sq)) \<le> card (int ` {..<n})" by (rule card_mono [rotated]) simp
  moreover have "card (int ` {..<n}) = n" by (simp add: card_image)
  ultimately show ?thesis using assms(1,4) by (simp add: distinct_card)
qed

lemma kahn_step:
  assumes k: "kahn s D ind sq" and l: "link_rel min_constraints min_drivers s" and t: "t \<in> set (min_drivers (dat s c))" "t \<notin> D" "c < length (dm_data s)"
    and av: "available (dat s c)" and ge: "indegree_ge s"
  shows "\<exists>m. ind ! c = Some m
    \<and> (if m - 1 = 0 then length sq < length ind \<and> kahn s (insert t D) (ind[c := Some (m - 1)]) (sq @ [int c])
       else kahn s (insert t D) (ind[c := Some (m - 1)]) sq)"
proof -
  have ns: "\<not> topo_skip (dat s c)" using t(1) av by (auto simp: topo_skip_def list_empty_def)
  let ?m = "to_count D (dat s c)"
  have i: "ind ! c = Some ?m" and len: "length ind = length (dm_data s)"
    and ind: "\<And>e. e < length (dm_data s) \<Longrightarrow> ind ! e = (if topo_skip (dat s e) then None else Some (to_count D (dat s e)))"
    using k t(3) ns by (auto simp: kahn_def)
  have m1: "to_count (insert t D) (dat s c) = ?m - 1" by (rule to_count_insert [OF link_relD(2) [OF l t(3)] t(1,2)])
  have other: "e < length (dm_data s) \<Longrightarrow> e \<noteq> c \<Longrightarrow> to_count (insert t D) (dat s e) = to_count D (dat s e)" for e
    using link_relD(6) [OF l, of e t] link_relD(6) [OF l t(3,1)] by (intro to_count_other) auto
  have ind': "\<forall>e < length (dm_data s). ind[c := Some (?m - 1)] ! e = (if topo_skip (dat s e) then None else Some (to_count (insert t D) (dat s e)))"
    using ind other m1 ns t(3) len by (auto simp: nth_list_update)
  have sqD: "\<forall>e < length (dm_data s). \<not> topo_skip (dat s e) \<longrightarrow> (int e \<in> set sq \<longleftrightarrow> to_count D (dat s e) = 0)"
    using k by (simp add: kahn_def)
  have "?m \<noteq> 0" using to_count_0 [of "dat s c" D] ge t by (auto simp: indegree_ge_def)
  then have c0: "int c \<notin> set sq" using sqD t(3) ns by auto
  have base: "distinct sq" "\<forall>x \<in> set sq. 0 \<le> x \<and> nat x < length (dm_data s) \<and> \<not> topo_skip (dat s (nat x))"
    using k by (simp_all add: kahn_def)
  show ?thesis
  proof (cases "?m - 1 = 0")
    case True
    have "length sq < length (dm_data s)" using int_list_length_less [OF base(1) _ t(3) c0] base(2) by blast
    moreover have "kahn s (insert t D) (ind[c := Some (?m - 1)]) (sq @ [int c])"
      unfolding kahn_def
    proof (intro conjI)
      show "\<forall>e<length (dm_data s). \<not> topo_skip (dat s e) \<longrightarrow> (int e \<in> set (sq @ [int c])) = (to_count (insert t D) (dat s e) = 0)"
        using sqD other m1 True by (metis Un_iff list.set(1) empty_iff of_nat_eq_iff set_ConsD set_append list.set_intros(1))
    qed (use len base c0 t(3) ns ind' in auto)
    ultimately show ?thesis using i True len by auto
  next
    case False
    have "kahn s (insert t D) (ind[c := Some (?m - 1)]) sq"
      unfolding kahn_def
    proof (intro conjI)
      show "\<forall>e<length (dm_data s). \<not> topo_skip (dat s e) \<longrightarrow> (int e \<in> set sq) = (to_count (insert t D) (dat s e) = 0)"
        using sqD other m1 False c0 by metis
    qed (use len base ind' in auto)
    then show ?thesis using i False by auto
  qed
qed

lemma topo_dec_kahn:
  assumes "kahn s D ind sq" and "link_rel min_constraints min_drivers s" and "indegree_ge s" and "distinct ts" and "set ts \<inter> D = {}"
    and "\<forall>t \<in> set ts. usable s (dm_constraint (dm_cons s t)) \<and> t \<in> set (min_drivers (dat s (dst s t)))"
  shows "\<exists>ind' new. topo_dec (dm_cons s) ts ind sq = Some (ind', sq @ new) \<and> kahn s (D \<union> set ts) ind' (sq @ new)"
  using assms
proof (induction ts arbitrary: ind sq D)
  case Nil
  then show ?case by simp
next
  case (Cons t ts)
  let ?c = "dst s t"
  have u: "usable s (dm_constraint (dm_cons s t))" and tc: "t \<in> set (min_drivers (dat s ?c))" and tD: "t \<notin> D" using Cons.prems by auto
  have c: "0 \<le> dm_constraint (dm_cons s t)" "?c < length (dm_data s)" "available (dat s ?c)" "int ?c = dm_constraint (dm_cons s t)"
    using usable_nat [OF u] by simp_all
  obtain m where m: "ind ! ?c = Some m"
    "if m - 1 = 0 then length sq < length ind \<and> kahn s (insert t D) (ind[?c := Some (m - 1)]) (sq @ [int ?c])
       else kahn s (insert t D) (ind[?c := Some (m - 1)]) sq"
    using kahn_step [OF Cons.prems(1,2) tc tD c(2,3) Cons.prems(3)] by blast
  have len: "length ind = length (dm_data s)" using Cons.prems(1) by (simp add: kahn_def)
  have pre: "distinct ts" "set ts \<inter> insert t D = {}"
    "\<forall>t \<in> set ts. usable s (dm_constraint (dm_cons s t)) \<and> t \<in> set (min_drivers (dat s (dst s t)))"
    using Cons.prems by auto
  show ?case
  proof (cases "m - 1 = 0")
    case True
    with m have lt: "length sq < length ind" and "kahn s (insert t D) (ind[?c := Some (m - 1)]) (sq @ [int ?c])" by auto
    from Cons.IH [OF this(2) Cons.prems(2,3) pre] obtain ind' new where
      e: "topo_dec (dm_cons s) ts (ind[?c := Some (m - 1)]) ((sq @ [int ?c])) = Some (ind', (sq @ [int ?c]) @ new)"
      and k: "kahn s (insert t D \<union> set ts) ind' ((sq @ [int ?c]) @ new)" by blast
    have "topo_dec (dm_cons s) (t # ts) ind sq = Some (ind', sq @ (int ?c # new))" using e m(1) c(1,2) len True lt by (simp add: Let_def)
    moreover have "kahn s (D \<union> set (t # ts)) ind' (sq @ (int ?c # new))" using k by simp
    ultimately show ?thesis by blast
  next
    case False
    with m have "kahn s (insert t D) (ind[?c := Some (m - 1)]) sq" by auto
    from Cons.IH [OF this Cons.prems(2,3) pre] obtain ind' new where
      "topo_dec (dm_cons s) ts (ind[?c := Some (m - 1)]) sq = Some (ind', sq @ new)" "kahn s (insert t D \<union> set ts) ind' (sq @ new)" by blast
    then show ?thesis using m(1) c(1,2) len False by (simp add: Let_def)
  qed
qed

subsection \<open>The loop\<close>

text \<open>What the sort leaves alone.\<close>

definition unordered :: "exynos_dm_device \<Rightarrow> exynos_dm_device" where
  "unordered s = s\<lparr>domain_order := [], constraint_domain_count := 0, dm_data := map (\<lambda>d. d\<lparr>my_order := 0\<rparr>) (dm_data s)\<rparr>"

lemma unordered_field:
  assumes "unordered s' = unordered s" and "\<And>d. f (d\<lparr>my_order := 0\<rparr>) = f d"
  shows "map f (dm_data s') = map f (dm_data s)"
  using arg_cong [OF assms(1), where f = "\<lambda>x. map f (dm_data x)"] by (simp add: unordered_def assms(2) comp_def)

lemma unorderedD [dm]:
  assumes "unordered s' = unordered s"
  shows "length (dm_data s') = length (dm_data s)" "dm_cons s' = dm_cons s" "dm_log s' = dm_log s" "fvp_log s' = fvp_log s"
    and "i < length (dm_data s) \<Longrightarrow> (\<And>d. f (d\<lparr>my_order := 0\<rparr>) = f d) \<Longrightarrow> f (dat s' i) = f (dat s i)"
proof -
  show len: "length (dm_data s') = length (dm_data s)" using arg_cong [OF assms, where f = "\<lambda>x. length (dm_data x)"] by (simp add: unordered_def)
  show "dm_cons s' = dm_cons s" "dm_log s' = dm_log s" "fvp_log s' = fvp_log s"
    using arg_cong [OF assms, where f = dm_cons] arg_cong [OF assms, where f = dm_log] arg_cong [OF assms, where f = fvp_log]
    by (simp_all add: unordered_def)
  assume "i < length (dm_data s)" and "\<And>d. f (d\<lparr>my_order := 0\<rparr>) = f d"
  then show "f (dat s' i) = f (dat s i)" using unordered_field [OF assms, of f] len by (metis nth_map)
qed

lemma unordered_step:
  "i < length (dm_data s) \<Longrightarrow> unordered (upd_dom i (\<lambda>d. d\<lparr>my_order := v\<rparr>) (s\<lparr>domain_order := os\<rparr>)) = unordered s"
  "unordered (s\<lparr>constraint_domain_count := n\<rparr>) = unordered s"
  by (auto simp: unordered_def upd_dom_def map_update list_update_same_conv)

definition counted :: "exynos_dm_device \<Rightarrow> int list \<Rightarrow> nat set" where
  "counted s xs = {p. \<exists>x \<in> set xs. p \<in> set (min_constraints (dat s (nat x)))}"

definition sorting :: "exynos_dm_device \<Rightarrow> int option list \<Rightarrow> int list \<Rightarrow> nat \<Rightarrow> exynos_dm_device \<Rightarrow> bool" where
  "sorting s0 ind sq r s \<longleftrightarrow> unordered s = unordered s0 \<and> kahn s0 (counted s0 (take r sq)) ind sq \<and> r \<le> length sq
     \<and> length (domain_order s) = length (dm_data s0) \<and> take r (domain_order s) = take r sq
     \<and> (\<forall>j < r. my_order (dat s (nat (sq ! j))) = int j)
     \<and> (\<forall>j < length sq. \<forall>p \<in> set (min_drivers (dat s0 (nat (sq ! j)))). dm_driver (dm_cons s0 p) \<in> set (take j sq))"

lemma nth_notin_take:
  assumes "distinct xs" and "r < length xs"
  shows "xs ! r \<notin> set (take r xs)"
proof -
  have "distinct (take r xs @ [xs ! r])" using distinct_take [OF assms(1), of "Suc r"] by (simp only: take_Suc_conv_app_nth [OF assms(2)])
  then show ?thesis by simp
qed

text \<open>A domain that is queued has all its drivers among those already polled.\<close>

lemma drivers_first:
  assumes k: "kahn s (counted s (take n xs)) ind xs" and l: "link_rel min_constraints min_drivers s" and ge: "indegree_ge s"
    and j: "n \<le> j" "j < length xs" and p: "p \<in> set (min_drivers (dat s (nat (xs ! j))))"
  shows "dm_driver (dm_cons s p) \<in> set (take j xs)"
proof -
  let ?c = "nat (xs ! j)"
  have xs: "\<forall>x \<in> set xs. 0 \<le> x \<and> nat x < length (dm_data s) \<and> \<not> topo_skip (dat s (nat x))" using k by (simp add: kahn_def)
  have c: "xs ! j \<in> set xs" using j by simp
  then have c': "0 \<le> xs ! j" "?c < length (dm_data s)" "\<not> topo_skip (dat s ?c)" using xs by blast+
  then have "to_count (counted s (take n xs)) (dat s ?c) = 0" using k c unfolding kahn_def by (metis int_nat_eq)
  then have "p \<in> counted s (take n xs)" using to_count_0 [of "dat s ?c"] c'(2) ge p by (auto simp: indegree_ge_def)
  then obtain y where y: "y \<in> set (take n xs)" "p \<in> set (min_constraints (dat s (nat y)))" by (auto simp: counted_def)
  then have "dm_driver (dm_cons s p) = y" using link_relD(3) [OF l _ y(2)] xs in_set_takeD [OF y(1)] by (metis int_nat_eq)
  moreover have "set (take n xs) \<subseteq> set (take j xs)" by (rule set_take_subset_set_take [OF j(1)])
  ultimately show ?thesis using y(1) by blast
qed

lemma sorting_step:
  assumes so: "sorting s0 ind sq r s" and r: "r < length sq" and l: "link_rel min_constraints min_drivers s0" and ge: "indegree_ge s0"
  defines "s1 \<equiv> upd_dom (nat (sq ! r)) (\<lambda>d. d\<lparr>my_order := int r\<rparr>) (s\<lparr>domain_order := (domain_order s)[r := sq ! r]\<rparr>)"
  shows "usable s (sq ! r) \<and> r < length (domain_order s)
    \<and> (\<exists>ind' new. topo_dec (dm_cons s1) (min_constraints (dat s1 (nat (sq ! r)))) ind sq = Some (ind', sq @ new) \<and> sorting s0 ind' (sq @ new) (Suc r) s1)"
proof -
  let ?x = "sq ! r" and ?D = "counted s0 (take r sq)"
  have un: "unordered s = unordered s0" and k: "kahn s0 ?D ind sq" using so by (simp_all add: sorting_def)
  have dsq: "distinct sq" and xs: "\<forall>x \<in> set sq. 0 \<le> x \<and> nat x < length (dm_data s0) \<and> \<not> topo_skip (dat s0 (nat x))" using k by (simp_all add: kahn_def)
  have x: "0 \<le> ?x" "nat ?x < length (dm_data s0)" "\<not> topo_skip (dat s0 (nat ?x))" using xs r by simp_all
  have len: "length (dm_data s) = length (dm_data s0)" by (rule unorderedD(1) [OF un])
  have av: "available (dat s (nat ?x))" using unorderedD(5) [OF un x(2), of available] x(3) by (simp add: topo_skip_def)
  have u: "usable s ?x" using x len av by (simp add: usable_def idx_ok_def)
  have "length sq \<le> length (dm_data s0)"
  proof -
    have "int ` {..<length (dm_data s0)} \<supseteq> set sq" using xs by (metis image_eqI int_nat_eq lessThan_iff subsetI)
    then show ?thesis using card_mono [of "int ` {..<length (dm_data s0)}" "set sq"] by (simp add: card_image distinct_card [OF dsq])
  qed
  then have r': "r < length (domain_order s)" using r so by (simp add: sorting_def)
  have un1: "unordered s1 = unordered s0" unfolding s1_def using unordered_step(1) [of "nat ?x" s] x(2) len un by simp
  have mc: "min_constraints (dat s1 (nat ?x)) = min_constraints (dat s0 (nat ?x))" by (rule unorderedD(5) [OF un1 x(2)]) simp
  have cons: "dm_cons s1 = dm_cons s0" by (rule unorderedD(2) [OF un1])
  let ?ts = "min_constraints (dat s0 (nat ?x))"
  have new: "set ?ts \<inter> ?D = {}"
  proof -
    have False if "p \<in> set ?ts" "y \<in> set (take r sq)" "p \<in> set (min_constraints (dat s0 (nat y)))" for p y
    proof -
      have y: "y \<in> set sq" using that(2) in_set_takeD by metis
      then have "nat y = nat ?x" using link_relD(3) [OF l x(2) that(1)] link_relD(3) [OF l _ that(3)] xs by (metis of_nat_eq_iff)
      then have "y = ?x" using xs y x(1) by (metis eq_nat_nat_iff)
      then show False using that(2) nth_notin_take [OF dsq r] by simp
    qed
    then show ?thesis by (auto simp: counted_def)
  qed
  obtain ind' nw where d: "topo_dec (dm_cons s0) ?ts ind sq = Some (ind', sq @ nw)" and k': "kahn s0 (?D \<union> set ?ts) ind' (sq @ nw)"
    using topo_dec_kahn [OF k l ge link_relD(1) [OF l x(2)] new] link_relD(4,5) [OF l x(2)] by blast
  have tk: "take (Suc r) (sq @ nw) = take r sq @ [?x]" using r by (simp add: take_Suc_conv_app_nth)
  have D': "?D \<union> set ?ts = counted s0 (take (Suc r) (sq @ nw))" unfolding tk by (auto simp: counted_def)
  have fwd: "dm_driver (dm_cons s0 p) \<in> set (take j (sq @ nw))"
    if j: "j < length (sq @ nw)" and p: "p \<in> set (min_drivers (dat s0 (nat ((sq @ nw) ! j))))" for j p
  proof (cases "j < length sq")
    case True
    then show ?thesis using so p by (simp add: sorting_def nth_append)
  next
    case False
    then show ?thesis using drivers_first [OF k' [unfolded D'] l ge _ j p] r by simp
  qed
  have mo: "my_order (dat s1 (nat ((sq @ nw) ! j))) = int j" if "j < Suc r" for j
  proof (cases "j = r")
    case True
    then show ?thesis using r x(2) len by (simp add: s1_def upd_dom_def nth_append)
  next
    case False
    then have j: "j < r" using that by simp
    then have "sq ! j \<noteq> ?x" using dsq r by (simp add: nth_eq_iff_index_eq)
    then have "nat (sq ! j) \<noteq> nat ?x" using xs j r x(1) by (metis eq_nat_nat_iff less_trans nth_mem)
    then show ?thesis using so j r by (simp add: s1_def upd_dom_def nth_append sorting_def)
  qed
  have "take (Suc r) (domain_order s1) = take (Suc r) (sq @ nw)"
    using so r' tk by (simp add: s1_def upd_dom_def sorting_def take_Suc_conv_app_nth)
  then have "sorting s0 ind' (sq @ nw) (Suc r) s1"
    using so un1 k' D' r fwd mo by (simp add: sorting_def s1_def upd_dom_def)
  then show ?thesis using u r' d mc cons by auto
qed

lemma topo_loop_sorting:
  assumes "sorting s0 ind sq r s" and "link_rel min_constraints min_drivers s0" and "indegree_ge s0"
  shows "\<exists>s' ind' sq'. topo_loop ind sq r r s = Some (s'\<lparr>constraint_domain_count := length sq'\<rparr>) \<and> sorting s0 ind' sq' (length sq') s'"
  using assms
proof (induction "length (dm_data s0) - r" arbitrary: ind sq r s rule: less_induct)
  case less
  show ?case
  proof (cases "length sq = r")
    case True
    then show ?thesis using less.prems(1) by auto
  next
    case False
    then have r: "r < length sq" using less.prems(1) by (simp add: sorting_def)
    let ?s1 = "upd_dom (nat (sq ! r)) (\<lambda>d. d\<lparr>my_order := int r\<rparr>) (s\<lparr>domain_order := (domain_order s)[r := sq ! r]\<rparr>)"
    obtain ind' new where st: "usable s (sq ! r)" "r < length (domain_order s)"
      "topo_dec (dm_cons ?s1) (min_constraints (dat ?s1 (nat (sq ! r)))) ind sq = Some (ind', sq @ new)" "sorting s0 ind' (sq @ new) (Suc r) ?s1"
      using sorting_step [OF less.prems(1) r less.prems(2,3)] by blast
    have "length (dm_data s0) - Suc r < length (dm_data s0) - r" using st(2) less.prems(1) by (simp add: sorting_def)
    from less.hyps [OF this st(4) less.prems(2,3)] show ?thesis
      using r st(1-3) by (subst topo_loop.simps) (simp add: Let_def)
  qed
qed

lemma topo_start_kahn: "kahn s {} (topo_indegree s) (topo_start s)"
  unfolding kahn_def
proof (intro conjI)
  have i: "topo_indegree s ! c = (if topo_skip (dat s c) then None else Some (to_count {} (dat s c)))" if "c < length (dm_data s)" for c
    using that by (simp add: topo_indegree_def to_count_def)
  show "distinct (topo_start s)" by (simp add: topo_start_def distinct_map inj_on_def)
  show "\<forall>x\<in>set (topo_start s). 0 \<le> x \<and> nat x < length (dm_data s) \<and> \<not> topo_skip (dat s (nat x))"
    using i by (auto simp: topo_start_def split: if_splits)
  show "\<forall>c<length (dm_data s). \<not> topo_skip (dat s c) \<longrightarrow> (int c \<in> set (topo_start s)) = (to_count {} (dat s c) = 0)"
    using i by (auto simp: topo_start_def image_iff)
  show "\<forall>c<length (dm_data s). topo_indegree s ! c = (if topo_skip (dat s c) then None else Some (to_count {} (dat s c)))" using i by simp
qed (simp add: topo_indegree_def)

text \<open>The sort ends, and the order it leaves is right.\<close>

lemma min_edges_src:
  assumes "link_rel min_constraints min_drivers s" and "c < length (dm_data s)" and "p \<in> set (min_drivers (dat s c))"
  shows "(src s p, c) \<in> min_edges s" "src s p < length (dm_data s)" "\<not> topo_skip (dat s (src s p))" "p \<in> set (min_constraints (dat s (src s p)))"
  using assms usable_nat [OF link_relD(7) [OF assms]] link_relD(8) [OF assms] by (auto simp: min_edges_def topo_skip_def list_empty_def)

lemma finite_min_edges:
  assumes "link_rel min_constraints min_drivers s"
  shows "finite (min_edges s)"
proof (rule finite_subset)
  show "min_edges s \<subseteq> {..<length (dm_data s)} \<times> {..<length (dm_data s)}"
    using min_edges_src(2) [OF assms] by (auto simp: min_edges_def)
qed simp

lemma kahn_complete:
  assumes k: "kahn s (counted s sq) ind sq" and l: "link_rel min_constraints min_drivers s" and a: "acyclic (min_edges s)" and ok: "indegree_ok s"
    and c: "c < length (dm_data s)" "\<not> topo_skip (dat s c)"
  shows "int c \<in> set sq"
proof -
  have "wf (min_edges s)" by (rule finite_acyclic_wf [OF finite_min_edges [OF l] a])
  then show ?thesis using c
  proof (induction c rule: wf_induct_rule)
    case (less c)
    have "p \<in> counted s sq" if p: "p \<in> set (min_drivers (dat s c))" for p
    proof -
      note e = min_edges_src [OF l less.prems(1) p]
      have "int (src s p) \<in> set sq" by (rule less.IH [OF e(1,2,3)])
      then show ?thesis using e(4) by (auto simp: counted_def intro!: bexI [of _ "int (src s p)"])
    qed
    then have "to_count (counted s sq) (dat s c) = 0" using ok less.prems(1) by (intro to_count_all) (auto simp: indegree_ok_def)
    then show ?case using k less.prems unfolding kahn_def by blast
  qed
qed

lemma topo_sort_correct:
  assumes l: "link_rel min_constraints min_drivers s" and ge: "indegree_ge s" and "length (domain_order s) = length (dm_data s)"
  shows "\<exists>s'. exynos_dm_topological_sort s = Some s' \<and> unordered s' = unordered s \<and> length (domain_order s') = length (dm_data s)
    \<and> ordered s' \<and> (indegree_ok s \<longrightarrow> acyclic (min_edges s) \<longrightarrow> complete_order s')
    \<and> (\<forall>c < length (dm_data s). int c \<in> set (all_order s') \<longrightarrow> indegree (dat s c) = int (length (min_drivers (dat s c))))"
proof -
  have k: "kahn s {} (topo_indegree s) (topo_start s)" by (rule topo_start_kahn)
  have "sorting s (topo_indegree s) (topo_start s) 0 s"
    unfolding sorting_def
  proof (intro conjI allI impI ballI)
    fix j p
    assume j: "j < length (topo_start s)" and p: "p \<in> set (min_drivers (dat s (nat (topo_start s ! j))))"
    then have "topo_start s ! j \<in> set (topo_start s)" by simp
    then have x: "0 \<le> topo_start s ! j" "nat (topo_start s ! j) < length (dm_data s)" "to_count {} (dat s (nat (topo_start s ! j))) = 0"
      using k unfolding kahn_def by (metis int_nat_eq)+
    then have "set (min_drivers (dat s (nat (topo_start s ! j)))) \<subseteq> {}" using ge by (intro to_count_0) (simp_all add: indegree_ge_def)
    with p show "dm_driver (dm_cons s p) \<in> set (take j (topo_start s))" by simp
  qed (use k assms(3) in \<open>simp_all add: counted_def\<close>)
  from topo_loop_sorting [OF this l ge] obtain s' ind' sq' where
    e: "exynos_dm_topological_sort s = Some (s'\<lparr>constraint_domain_count := length sq'\<rparr>)" and so: "sorting s ind' sq' (length sq') s'"
    by (auto simp: exynos_dm_topological_sort_def)
  let ?s = "s'\<lparr>constraint_domain_count := length sq'\<rparr>"
  have un: "unordered ?s = unordered s" using so unordered_step(2) by (simp add: sorting_def)
  note un' = unorderedD [OF un]
  have k': "kahn s (counted s sq') ind' sq'" using so by (simp add: sorting_def)
  have all: "all_order ?s = sq'" using so by (simp add: all_order_def sorting_def)
  have sq: "0 \<le> x" "nat x < length (dm_data s)" "\<not> topo_skip (dat s (nat x))" if "x \<in> set sq'" for x
    using k' that unfolding kahn_def by blast+
  have tk: "take (length sq') (domain_order s') = sq'" using so by (simp add: sorting_def)
  have len: "length sq' \<le> length (domain_order s')" using arg_cong [OF tk, where f = length] by simp
  have "ordered ?s"
    unfolding ordered_def all
  proof (intro conjI allI impI ballI)
    fix j
    assume "j < length sq'"
    then have x: "sq' ! j \<in> set sq'" by simp
    have "available (dat ?s (nat (sq' ! j))) = available (dat s (nat (sq' ! j)))" by (rule un'(5) [OF sq(2) [OF x]]) simp
    then show "usable ?s (sq' ! j)" using sq [OF x] un'(1) by (simp add: usable_def idx_ok_def topo_skip_def)
    fix p
    assume "p \<in> set (min_drivers (dat ?s (nat (sq' ! j))))"
    then have "p \<in> set (min_drivers (dat s (nat (sq' ! j))))" using un'(5) [OF sq(2) [OF x], of min_drivers] by simp
    then show "dm_driver (dm_cons ?s p) \<in> set (take j sq')" using so \<open>j < length sq'\<close> un'(2) by (simp add: sorting_def)
  qed (use so len k' in \<open>simp_all add: sorting_def kahn_def\<close>)
  moreover have "complete_order ?s" if "indegree_ok s" "acyclic (min_edges s)"
    unfolding complete_order_def all
  proof (intro allI impI)
    fix i
    assume i: "i < length (dm_data ?s)" "\<not> topo_skip (dat ?s i)"
    then have il: "i < length (dm_data s)" using un'(1) by simp
    have "topo_skip (dat ?s i) = topo_skip (dat s i)" by (rule un'(5) [OF il]) (simp add: topo_skip_def list_empty_def)
    then show "int i \<in> set sq'" using kahn_complete [OF k' l that(2,1) il] i by simp
  qed
  moreover have "indegree (dat s c) = int (length (min_drivers (dat s c)))" if c: "c < length (dm_data s)" "int c \<in> set (all_order ?s)" for c
  proof -
    note c(2) [unfolded all]
    have t: "to_count (counted s sq') (dat s c) = 0" using k' c(1) sq(3) \<open>int c \<in> set sq'\<close> unfolding kahn_def by fastforce
    then have "set (min_drivers (dat s c)) \<subseteq> counted s sq'" using to_count_0 ge c(1) by (simp add: indegree_ge_def)
    then have "filter (\<lambda>p. p \<in> counted s sq') (min_drivers (dat s c)) = min_drivers (dat s c)" by (auto simp: filter_id_conv)
    then show ?thesis using t by (simp add: to_count_def)
  qed
  moreover have "length (domain_order ?s) = length (dm_data s)" using so by (simp add: sorting_def)
  ultimately show ?thesis using e un by blast
qed

end
