(* ===== verification/DmLinks.thy ===== *)
theory DmLinks
  imports DmSort
begin

text \<open>
  Registering and unregistering constraints keeps the lists of the DVFS manager one graph. The counters
  of incoming constraints stay exact as long as nothing is unregistered and no allocation fails;
  afterwards they are too large.
\<close>

subsection \<open>Changes of a link relation\<close>

lemma link_rel_add:
  assumes l: "link_rel cs ds s" and n: "length (dm_data s') = length (dm_data s)" and d: "usable s (int d)" and c: "usable s (int c)"
    and cs: "\<And>i. i < length (dm_data s) \<Longrightarrow> cs (dat s' i) = (if i = d then p # cs (dat s i) else cs (dat s i))"
    and ds: "\<And>i. i < length (dm_data s) \<Longrightarrow> ds (dat s' i) = (if i = c then p # ds (dat s i) else ds (dat s i))"
    and av: "\<And>i. i < length (dm_data s) \<Longrightarrow> available (dat s' i) = available (dat s i)"
    and p: "dm_driver (dm_cons s' p) = int d" "dm_constraint (dm_cons s' p) = int c"
    and q: "\<And>q i. i < length (dm_data s) \<Longrightarrow> q \<in> set (cs (dat s i)) \<union> set (ds (dat s i)) \<Longrightarrow> dm_driver (dm_cons s' q) = dm_driver (dm_cons s q) \<and> dm_constraint (dm_cons s' q) = dm_constraint (dm_cons s q)"
    and fresh: "\<And>i. i < length (dm_data s) \<Longrightarrow> p \<notin> set (cs (dat s i)) \<union> set (ds (dat s i))"
  shows "link_rel cs ds s'"
proof -
  have us: "usable s' x = usable s x" for x using n av by (auto simp: usable_def idx_ok_def)
  have q1: "dm_driver (dm_cons s' x) = int i" "usable s' (dm_constraint (dm_cons s' x))" "x \<in> set (ds (dat s' (dst s' x)))"
    if "i < length (dm_data s)" "x \<in> set (cs (dat s i))" for i x
    using link_relD(3-5) [OF l that] that fresh [OF that(1)] q [OF that(1) UnI1 [OF that(2)]] usable_nat(1) [of s "dm_constraint (dm_cons s x)"] ds by (auto simp: us)
  have q2: "dm_constraint (dm_cons s' x) = int i" "usable s' (dm_driver (dm_cons s' x))" "x \<in> set (cs (dat s' (src s' x)))"
    if "i < length (dm_data s)" "x \<in> set (ds (dat s i))" for i x
    using link_relD(6-8) [OF l that] that fresh [OF that(1)] q [OF that(1) UnI2 [OF that(2)]] usable_nat(1) [of s "dm_driver (dm_cons s x)"] cs by (auto simp: us)
  have p1: "usable s' (int d)" "usable s' (int c)" "p \<in> set (ds (dat s' c))" "p \<in> set (cs (dat s' d))" using d c ds cs n av by auto
  show ?thesis
    unfolding link_rel_def n
  proof (intro allI impI conjI ballI)
    fix i
    assume i: "i < length (dm_data s)"
    show "distinct (cs (dat s' i))" "distinct (ds (dat s' i))" using link_relD(1,2) [OF l i] fresh [OF i] cs [OF i] ds [OF i] by auto
    fix x
    {
      assume "x \<in> set (cs (dat s' i))"
      then show "dm_driver (dm_cons s' x) = int i" "usable s' (dm_constraint (dm_cons s' x))" "x \<in> set (ds (dat s' (dst s' x)))"
        using q1 [OF i, of x] p p1 cs [OF i] by (auto split: if_splits)
    }
    assume "x \<in> set (ds (dat s' i))"
    then show "dm_constraint (dm_cons s' x) = int i" "usable s' (dm_driver (dm_cons s' x))" "x \<in> set (cs (dat s' (src s' x)))"
      using q2 [OF i, of x] p p1 ds [OF i] by (auto split: if_splits)
  qed
qed

lemma link_rel_del:
  assumes l: "link_rel cs ds s" and n: "length (dm_data s') = length (dm_data s)"
    and cs: "\<And>i. i < length (dm_data s) \<Longrightarrow> cs (dat s' i) = remove1 p (cs (dat s i))"
    and ds: "\<And>i. i < length (dm_data s) \<Longrightarrow> ds (dat s' i) = remove1 p (ds (dat s i))"
    and av: "\<And>i. i < length (dm_data s) \<Longrightarrow> available (dat s' i) = available (dat s i)"
    and cons: "dm_cons s' = dm_cons s"
  shows "link_rel cs ds s'"
proof -
  have us: "usable s' x = usable s x" for x using n av by (auto simp: usable_def idx_ok_def)
  have r: "x \<in> set (cs (dat s' i)) \<longleftrightarrow> x \<in> set (cs (dat s i)) \<and> x \<noteq> p" "x \<in> set (ds (dat s' i)) \<longleftrightarrow> x \<in> set (ds (dat s i)) \<and> x \<noteq> p"
    if "i < length (dm_data s)" for i x
    using cs [OF that] ds [OF that] link_relD(1,2) [OF l that] by simp_all
  show ?thesis
    unfolding link_rel_def n cons us
    using r link_relD [OF l] cs ds usable_nat(1) by (simp add: distinct_remove1)
qed

lemma link_rel_same:
  assumes l: "link_rel cs ds s" and n: "length (dm_data s') = length (dm_data s)"
    and cs: "\<And>i. i < length (dm_data s) \<Longrightarrow> cs (dat s' i) = cs (dat s i) \<and> ds (dat s' i) = ds (dat s i) \<and> available (dat s' i) = available (dat s i)"
    and q: "\<And>q i. i < length (dm_data s) \<Longrightarrow> q \<in> set (cs (dat s i)) \<union> set (ds (dat s i)) \<Longrightarrow> dm_driver (dm_cons s' q) = dm_driver (dm_cons s q) \<and> dm_constraint (dm_cons s' q) = dm_constraint (dm_cons s q)"
  shows "link_rel cs ds s'"
proof -
  have us: "usable s' x = usable s x" for x using n cs by (auto simp: usable_def idx_ok_def)
  show ?thesis
    unfolding link_rel_def n us
  proof (intro allI impI conjI ballI)
    fix i
    assume i: "i < length (dm_data s)"
    show "distinct (cs (dat s' i))" "distinct (ds (dat s' i))" using link_relD(1,2) [OF l i] cs [OF i] by simp_all
    fix x
    {
      assume x: "x \<in> set (cs (dat s' i))"
      then have x': "x \<in> set (cs (dat s i))" using cs [OF i] by simp
      then show "dm_driver (dm_cons s' x) = int i" "usable s (dm_constraint (dm_cons s' x))" "x \<in> set (ds (dat s' (dst s' x)))"
        using link_relD(3-5) [OF l i x'] q [OF i, of x] usable_nat(1) [of s "dm_constraint (dm_cons s x)"] cs by simp_all
    }
    assume x: "x \<in> set (ds (dat s' i))"
    then have x': "x \<in> set (ds (dat s i))" using cs [OF i] by simp
    then show "dm_constraint (dm_cons s' x) = int i" "usable s (dm_driver (dm_cons s' x))" "x \<in> set (cs (dat s' (src s' x)))"
      using link_relD(6-8) [OF l i x'] q [OF i, of x] usable_nat(1) [of s "dm_driver (dm_cons s x)"] cs by simp_all
  qed
qed

subsection \<open>What a registered constraint looks like\<close>

definition con_ok :: "exynos_dm_device \<Rightarrow> bool" where
  "con_ok s \<longleftrightarrow>
     (\<forall>i < length (dm_data s). (available (dat s i) \<longrightarrow> dm_type (dat s i) = int i)
          \<and> (\<forall>p \<in> set (min_constraints (dat s i)). constraint_type (dm_cons s p) = CONSTRAINT_MIN)
          \<and> (\<forall>p \<in> set (max_constraints (dat s i)). constraint_type (dm_cons s p) = CONSTRAINT_MAX)
          \<and> (\<forall>p \<in> set (min_constraints (dat s i)) \<union> set (max_constraints (dat s i)). \<exists>tb. freq_table (dm_cons s p) = Some tb \<and> tb \<noteq> []))"

lemma links_ok_alt: "links_ok s \<longleftrightarrow> link_rel min_constraints min_drivers s \<and> link_rel max_constraints max_drivers s \<and> con_ok s"
  by (simp add: links_ok_def con_ok_def)

definition dm_ok :: "exynos_dm_device \<Rightarrow> bool" where
  "dm_ok s \<longleftrightarrow> links_ok s \<and> indegree_ge s \<and> length (domain_order s) = length (dm_data s)"

text \<open>By how much the counter of a domain is too large.\<close>

definition excess :: "exynos_dm_device \<Rightarrow> nat \<Rightarrow> int" where
  "excess s c = indegree (dat s c) - int (length (min_drivers (dat s c)))"

lemma not_linked: "\<not> linked p s \<longleftrightarrow> (\<forall>i < length (dm_data s). p \<notin> set (min_constraints (dat s i)) \<union> set (max_constraints (dat s i)) \<union> set (min_drivers (dat s i)) \<union> set (max_drivers (dat s i)))"
  by (auto simp: linked_def list_ex_length)

lemma dom_simps [simp]:
  "length (dm_data (upd_dom i f s)) = length (dm_data s)" "dm_cons (upd_dom i f s) = dm_cons s" "domain_order (upd_dom i f s) = domain_order s"
  "constraint_domain_count (upd_dom i f s) = constraint_domain_count s" "dm_log (upd_dom i f s) = dm_log s"
  "dm_data (upd_con p g s) = dm_data s" "domain_order (upd_con p g s) = domain_order s" "dm_log (upd_con p g s) = dm_log s"
  "constraint_domain_count (upd_con p g s) = constraint_domain_count s" "dm_cons (upd_con p g s) = (dm_cons s)(p := g (dm_cons s p))"
  by (simp_all add: upd_dom_def upd_con_def)

lemma dat_upd_dom [simp]: "i < length (dm_data s) \<Longrightarrow> dat (upd_dom j f s) i = (if i = j then f (dat s i) else dat s i)"
  by (simp add: upd_dom_def)

text \<open>A constraint outside the lists may be written.\<close>

lemma links_ok_upd_con:
  assumes "links_ok s" and "\<not> linked p s"
  shows "links_ok (upd_con p g s)"
  unfolding links_ok_alt
proof (intro conjI)
  show "link_rel min_constraints min_drivers (upd_con p g s)"
    by (rule link_rel_same [of _ _ s]) (use assms not_linked in \<open>auto simp: links_ok_alt\<close>)
  show "link_rel max_constraints max_drivers (upd_con p g s)"
    by (rule link_rel_same [of _ _ s]) (use assms not_linked in \<open>auto simp: links_ok_alt\<close>)
  show "con_ok (upd_con p g s)" using assms not_linked by (auto simp: links_ok_alt con_ok_def)
qed

lemma links_ok_link_min:
  assumes ok: "links_ok s" and p: "\<not> linked p s" "dm_driver (dm_cons s p) = int d" "dm_constraint (dm_cons s p) = int c"
    "constraint_type (dm_cons s p) = CONSTRAINT_MIN" "\<exists>tb. freq_table (dm_cons s p) = Some tb \<and> tb \<noteq> []"
    and us: "usable s (int d)" "usable s (int c)"
  shows "links_ok (link_min p d c s)"
  unfolding links_ok_alt
proof (intro conjI)
  show "link_rel min_constraints min_drivers (link_min p d c s)"
    by (rule link_rel_add [of _ _ s _ d c p]) (use assms not_linked in \<open>auto simp: links_ok_alt link_min_def\<close>)
  show "link_rel max_constraints max_drivers (link_min p d c s)"
    by (rule link_rel_same [of _ _ s]) (use assms in \<open>auto simp: links_ok_alt link_min_def\<close>)
  show "con_ok (link_min p d c s)" using assms by (auto simp: links_ok_alt con_ok_def link_min_def)
qed

lemma links_ok_link_max:
  assumes ok: "links_ok s" and p: "\<not> linked p s" "dm_driver (dm_cons s p) = int d" "dm_constraint (dm_cons s p) = int c"
    "constraint_type (dm_cons s p) = CONSTRAINT_MAX" "\<exists>tb. freq_table (dm_cons s p) = Some tb \<and> tb \<noteq> []"
    and us: "usable s (int d)" "usable s (int c)"
  shows "links_ok (link_max p d c s)"
  unfolding links_ok_alt
proof (intro conjI)
  show "link_rel max_constraints max_drivers (link_max p d c s)"
    by (rule link_rel_add [of _ _ s _ d c p]) (use assms not_linked in \<open>auto simp: links_ok_alt link_max_def\<close>)
  show "link_rel min_constraints min_drivers (link_max p d c s)"
    by (rule link_rel_same [of _ _ s]) (use assms in \<open>auto simp: links_ok_alt link_max_def\<close>)
  show "con_ok (link_max p d c s)" using assms by (auto simp: links_ok_alt con_ok_def link_max_def)
qed

lemma links_ok_upd_con_keep:
  assumes "links_ok s" and "\<And>x. dm_driver (g x) = dm_driver x \<and> dm_constraint (g x) = dm_constraint x \<and> constraint_type (g x) = constraint_type x \<and> freq_table (g x) = freq_table x"
  shows "links_ok (upd_con p g s)"
  unfolding links_ok_alt
proof (intro conjI)
  show "link_rel min_constraints min_drivers (upd_con p g s)"
    by (rule link_rel_same [of _ _ s]) (use assms in \<open>auto simp: links_ok_alt\<close>)
  show "link_rel max_constraints max_drivers (upd_con p g s)"
    by (rule link_rel_same [of _ _ s]) (use assms in \<open>auto simp: links_ok_alt\<close>)
  show "con_ok (upd_con p g s)" using assms by (auto simp: links_ok_alt con_ok_def)
qed

lemma link_fields [simp]:
  "length (dm_data (link_min p d c s)) = length (dm_data s)" "dm_cons (link_min p d c s) = dm_cons s" "domain_order (link_min p d c s) = domain_order s"
  "length (dm_data (link_max p d c s)) = length (dm_data s)" "dm_cons (link_max p d c s) = dm_cons s" "domain_order (link_max p d c s) = domain_order s"
  by (simp_all add: link_min_def link_max_def)

lemma link_lists [simp]:
  assumes "i < length (dm_data s)"
  shows "min_constraints (dat (link_min p d c s) i) = (if i = d then p # min_constraints (dat s i) else min_constraints (dat s i))"
    "min_drivers (dat (link_min p d c s) i) = (if i = c then p # min_drivers (dat s i) else min_drivers (dat s i))"
    "max_constraints (dat (link_min p d c s) i) = max_constraints (dat s i)" "max_drivers (dat (link_min p d c s) i) = max_drivers (dat s i)"
    "max_constraints (dat (link_max p d c s) i) = (if i = d then p # max_constraints (dat s i) else max_constraints (dat s i))"
    "max_drivers (dat (link_max p d c s) i) = (if i = c then p # max_drivers (dat s i) else max_drivers (dat s i))"
    "min_constraints (dat (link_max p d c s) i) = min_constraints (dat s i)" "min_drivers (dat (link_max p d c s) i) = min_drivers (dat s i)"
    "available (dat (link_min p d c s) i) = available (dat s i)" "available (dat (link_max p d c s) i) = available (dat s i)"
    "indegree (dat (link_min p d c s) i) = (if i = c then indegree (dat s i) + 1 else indegree (dat s i))" "indegree (dat (link_max p d c s) i) = indegree (dat s i)"
    "dm_type_name (dat (link_min p d c s) i) = dm_type_name (dat s i)"
  using assms by (simp_all add: link_min_def link_max_def)

lemma usable_upd [simp]:
  "usable (upd_con p g s) x = usable s x" "usable (link_min p d c s) x = usable s x" "usable (link_max p d c s) x = usable s x"
  by (auto simp: usable_def idx_ok_def)

lemma linked_upd_con [simp]: "linked q (upd_con p g s) \<longleftrightarrow> linked q s"
  by (simp add: linked_def)

lemma linked_link_min:
  assumes "q \<noteq> p"
  shows "linked q (link_min p d c s) \<longleftrightarrow> linked q s"
proof -
  have "\<not> linked q (link_min p d c s) \<longleftrightarrow> \<not> linked q s" unfolding not_linked link_fields using assms by (intro all_cong) auto
  then show ?thesis by simp
qed

lemma excess_link [simp]:
  assumes "e < length (dm_data s)"
  shows "excess (link_min p d c s) e = excess s e" "excess (link_max p d c s) e = excess s e" "excess (upd_con p g s) e = excess s e"
  using assms by (simp_all add: excess_def)

lemma indegree_link:
  "c < length (dm_data s) \<Longrightarrow> indegree_ge s \<Longrightarrow> indegree_ge (link_min p d c s)" "c < length (dm_data s) \<Longrightarrow> indegree_ok s \<Longrightarrow> indegree_ok (link_min p d c s)"
  "indegree_ge s \<Longrightarrow> indegree_ge (link_max p d c s)" "indegree_ok s \<Longrightarrow> indegree_ok (link_max p d c s)"
  "indegree_ge (upd_con p g s) = indegree_ge s" "indegree_ok (upd_con p g s) = indegree_ok s"
  by (auto simp: indegree_ge_def indegree_ok_def)

lemma unordered_ok:
  assumes un: "unordered s' = unordered s"
  shows "links_ok s \<Longrightarrow> links_ok s'" "indegree_ge s \<Longrightarrow> indegree_ge s'" "indegree_ok s \<Longrightarrow> indegree_ok s'" "min_edges s' = min_edges s"
    "usable s' x = usable s x" "linked p s' = linked p s"
proof -
  note u = unorderedD [OF un]
  have f: "min_constraints (dat s' i) = min_constraints (dat s i)" "max_constraints (dat s' i) = max_constraints (dat s i)"
    "min_drivers (dat s' i) = min_drivers (dat s i)" "max_drivers (dat s' i) = max_drivers (dat s i)"
    "available (dat s' i) = available (dat s i)" "dm_type (dat s' i) = dm_type (dat s i)" "indegree (dat s' i) = indegree (dat s i)"
    if "i < length (dm_data s)" for i
    using that by (auto intro!: u(5))
  show "links_ok s \<Longrightarrow> links_ok s'"
    unfolding links_ok_alt
  proof (elim conjE, intro conjI)
    show "link_rel min_constraints min_drivers s \<Longrightarrow> link_rel min_constraints min_drivers s'"
      by (rule link_rel_same [of _ _ s]) (use f u(1,2) in auto)
    show "link_rel max_constraints max_drivers s \<Longrightarrow> link_rel max_constraints max_drivers s'"
      by (rule link_rel_same [of _ _ s]) (use f u(1,2) in auto)
    show "con_ok s \<Longrightarrow> con_ok s'" using f u(1,2) by (simp add: con_ok_def)
  qed
  show "indegree_ge s \<Longrightarrow> indegree_ge s'" "indegree_ok s \<Longrightarrow> indegree_ok s'" using f u(1) by (simp_all add: indegree_ge_def indegree_ok_def)
  show "min_edges s' = min_edges s" using f(3) u(1,2) unfolding min_edges_def by (metis (no_types, lifting))
  show "usable s' x = usable s x" using f(5) u(1) by (auto simp: usable_def idx_ok_def)
  have "\<not> linked p s' \<longleftrightarrow> \<not> linked p s" unfolding not_linked u(1) using f(1-4) by simp
  then show "linked p s' = linked p s" by simp
qed

lemma sort_ok:
  assumes "dm_ok s"
  shows "\<exists>s'. exynos_dm_topological_sort s = Some s' \<and> unordered s' = unordered s \<and> dm_ok s' \<and> ordered s'
    \<and> (indegree_ok s \<longrightarrow> indegree_ok s' \<and> (acyclic (min_edges s') \<longrightarrow> complete_order s'))
    \<and> (\<forall>c < length (dm_data s). excess s' c = excess s c \<and> (int c \<in> set (all_order s') \<longrightarrow> excess s c = 0))"
proof -
  have "link_rel min_constraints min_drivers s" "indegree_ge s" "length (domain_order s) = length (dm_data s)"
    using assms by (simp_all add: dm_ok_def links_ok_alt)
  from topo_sort_correct [OF this] obtain s' where s': "exynos_dm_topological_sort s = Some s'" "unordered s' = unordered s"
    "length (domain_order s') = length (dm_data s)" "ordered s'" "indegree_ok s \<longrightarrow> acyclic (min_edges s) \<longrightarrow> complete_order s'"
    "\<forall>c < length (dm_data s). int c \<in> set (all_order s') \<longrightarrow> indegree (dat s c) = int (length (min_drivers (dat s c)))" by blast
  note u = unordered_ok [OF s'(2)]
  have "dm_ok s'" using assms u(1,2) s'(3) unorderedD(1) [OF s'(2)] by (simp add: dm_ok_def)
  moreover have "excess s' c = excess s c" if "c < length (dm_data s)" for c
    using unorderedD(5) [OF s'(2) that, of indegree] unorderedD(5) [OF s'(2) that, of min_drivers] by (simp add: excess_def)
  ultimately show ?thesis using s' u(3,4) by (auto simp: excess_def)
qed

subsection \<open>Registering\<close>

text \<open>The constraint \<open>p\<close> can be registered for driver \<open>i\<close>, with memory for the opposite constraint where one is made.\<close>

definition can_register :: "nat option \<Rightarrow> bool \<Rightarrow> int \<Rightarrow> nat \<Rightarrow> exynos_dm_device \<Rightarrow> bool" where
  "can_register sub tab i p s \<longleftrightarrow> usable s i \<and> usable s (dm_constraint (dm_cons s p)) \<and> \<not> linked p s \<and> constraint_type (dm_cons s p) \<noteq> CONSTRAINT_END
     \<and> (case freq_table (dm_cons s p) of None \<Rightarrow> False | Some tb \<Rightarrow> tb \<noteq> [])
     \<and> (guidance (dm_cons s p) \<and> constraint_type (dm_cons s p) = CONSTRAINT_MIN \<longrightarrow> tab \<and> (case sub of None \<Rightarrow> False | Some q \<Rightarrow> q \<noteq> p \<and> \<not> linked q s))"

lemma min_edges_same:
  assumes "length (dm_data s') = length (dm_data s)" and "\<And>i. i < length (dm_data s) \<Longrightarrow> min_drivers (dat s' i) = min_drivers (dat s i)"
    and "\<And>i p. i < length (dm_data s) \<Longrightarrow> p \<in> set (min_drivers (dat s i)) \<Longrightarrow> dm_driver (dm_cons s' p) = dm_driver (dm_cons s p)"
  shows "min_edges s' = min_edges s"
  using assms unfolding min_edges_def by (metis (no_types, lifting))

lemma min_edges_link_min:
  assumes "c < length (dm_data s)" and "dm_driver (dm_cons s p) = int d"
  shows "min_edges (link_min p d c s) = insert (d, c) (min_edges s)"
proof (rule set_eqI)
  fix e
  have "e \<in> min_edges (link_min p d c s) \<longleftrightarrow> (\<exists>q i. e = (src s q, i) \<and> i < length (dm_data s) \<and> q \<in> set (if i = c then p # min_drivers (dat s i) else min_drivers (dat s i)))"
    unfolding min_edges_def mem_Collect_eq link_fields by (intro ex_cong1 conj_cong refl) simp
  also have "\<dots> \<longleftrightarrow> e = (src s p, c) \<or> (\<exists>q i. e = (src s q, i) \<and> i < length (dm_data s) \<and> q \<in> set (min_drivers (dat s i)))"
    using assms(1) by (auto split: if_splits)
  finally show "e \<in> min_edges (link_min p d c s) \<longleftrightarrow> e \<in> insert (d, c) (min_edges s)"
    using assms(2) by (auto simp: min_edges_def)
qed

lemma link_step_ok:
  assumes ok: "dm_ok s" and can: "can_register sub tab i p s"
  defines "c \<equiv> dst s p"
    and "s1 \<equiv> upd_con p (\<lambda>x. x\<lparr>c_type_name := take 16 (dm_type_name (dat s (dst s p))), const_freq := 0, gov_freq := 0, dm_driver := i\<rparr>) s"
  defines "s2 \<equiv> (if constraint_type (dm_cons s p) = CONSTRAINT_MIN then link_min p (nat i) c s1 else link_max p (nat i) c s1)"
  shows "dm_ok s2 \<and> (indegree_ok s \<longrightarrow> indegree_ok s2) \<and> usable s2 x = usable s x \<and> (\<forall>q. q \<noteq> p \<longrightarrow> constraint_type (dm_cons s p) = CONSTRAINT_MIN \<longrightarrow> linked q s2 = linked q s)
    \<and> (\<forall>e < length (dm_data s). excess s2 e = excess s e) \<and> length (dm_data s2) = length (dm_data s)
    \<and> min_edges s2 = (if constraint_type (dm_cons s p) = CONSTRAINT_MIN then insert (nat i, c) (min_edges s) else min_edges s)"
proof -
  have lk: "links_ok s" "indegree_ge s" and nl: "\<not> linked p s" using ok can by (simp_all add: dm_ok_def can_register_def)
  have us: "usable s i" "usable s (dm_constraint (dm_cons s p))" using can by (simp_all add: can_register_def)
  note i = usable_nat [OF us(1)] and cc = usable_nat [OF us(2)]
  have l1: "links_ok s1" unfolding s1_def by (rule links_ok_upd_con [OF lk(1) nl])
  have p1: "\<not> linked p s1" "dm_driver (dm_cons s1 p) = int (nat i)" "dm_constraint (dm_cons s1 p) = int c" "\<exists>tb. freq_table (dm_cons s1 p) = Some tb \<and> tb \<noteq> []"
    "usable s1 (int (nat i))" "usable s1 (int c)" "constraint_type (dm_cons s1 p) = constraint_type (dm_cons s p)"
    using nl i cc us can by (auto simp: s1_def c_def can_register_def split: option.splits)
  have c: "c < length (dm_data s1)" using cc by (simp add: c_def s1_def)
  have e1: "min_edges s1 = min_edges s"
    by (rule min_edges_same) (use nl not_linked [of p s] in \<open>auto simp: s1_def\<close>)
  show ?thesis
  proof (cases "constraint_type (dm_cons s p) = CONSTRAINT_MIN")
    case True
    then have s2: "s2 = link_min p (nat i) c s1" by (simp add: s2_def)
    have "links_ok s2" unfolding s2 using links_ok_link_min [OF l1 p1(1-3) _ p1(4-6)] p1(7) True by simp
    moreover have "indegree_ge s2" "indegree_ok s \<longrightarrow> indegree_ok s2" unfolding s2 using indegree_link(1,2) [OF c] lk(2) by (simp_all add: s1_def indegree_link)
    ultimately show ?thesis
      using True ok linked_link_min min_edges_link_min [OF c p1(2)] e1 by (auto simp: dm_ok_def s2 s1_def)
  next
    case False
    then have s2: "s2 = link_max p (nat i) c s1" by (simp add: s2_def)
    have "constraint_type (dm_cons s1 p) = CONSTRAINT_MAX" using False p1(7) can by (cases "constraint_type (dm_cons s p)") (auto simp: can_register_def)
    then have "links_ok s2" unfolding s2 by (rule links_ok_link_max [OF l1 p1(1-3) _ p1(4-6)])
    moreover have "min_edges s2 = min_edges s1" unfolding s2 by (rule min_edges_same) auto
    ultimately show ?thesis
      using False ok e1 indegree_link(3,4) by (auto simp: dm_ok_def s2 s1_def indegree_link)
  qed
qed

lemma register_ok:
  assumes ok: "dm_ok s" and can: "can_register sub tab i p s"
  shows "\<exists>s'. register_exynos_dm_constraint_table sub tab i (Some p) s = Some (0, s') \<and> dm_ok s' \<and> ordered s'
    \<and> (indegree_ok s \<longrightarrow> indegree_ok s' \<and> (acyclic (min_edges s') \<longrightarrow> complete_order s'))
    \<and> min_edges s' = (if constraint_type (dm_cons s p) = CONSTRAINT_MIN then insert (nat i, dst s p) (min_edges s) else min_edges s)
    \<and> (\<forall>c < length (dm_data s). excess s' c = excess s c \<and> (int c \<in> set (all_order s') \<longrightarrow> excess s c = 0))"
proof -
  let ?min = "constraint_type (dm_cons s p) = CONSTRAINT_MIN"
  define s1 where "s1 = upd_con p (\<lambda>x. x\<lparr>c_type_name := take 16 (dm_type_name (dat s (dst s p))), const_freq := 0, gov_freq := 0, dm_driver := i\<rparr>) s"
  define s2 where "s2 = (if ?min then link_min p (nat i) (dst s p) s1 else link_max p (nat i) (dst s p) s1)"
  have st: "dm_ok s2" "indegree_ok s \<longrightarrow> indegree_ok s2" "usable s2 x = usable s x" "q \<noteq> p \<Longrightarrow> ?min \<Longrightarrow> linked q s2 = linked q s"
    "min_edges s2 = (if ?min then insert (nat i, dst s p) (min_edges s) else min_edges s)"
    "e < length (dm_data s) \<Longrightarrow> excess s2 e = excess s e" "length (dm_data s2) = length (dm_data s)" for x q e
    using link_step_ok [OF ok can, of x] unfolding s2_def s1_def by auto
  have us: "usable s i" "usable s (dm_constraint (dm_cons s p))" "\<not> linked p s" "constraint_type (dm_cons s p) \<noteq> CONSTRAINT_END" using can by (simp_all add: can_register_def)
  obtain tb where tb: "freq_table (dm_cons s p) = Some tb" "tb \<noteq> []" using can by (auto simp: can_register_def split: option.splits)
  note i = usable_nat [OF us(1)] usable_nat [OF us(2)]
  show ?thesis
  proof (cases "guidance (dm_cons s p) \<and> ?min")
    case False
    have "register_exynos_dm_constraint_table sub tab i (Some p) s = map_option (\<lambda>s3. (0, s3)) (exynos_dm_topological_sort s2)"
      using us tb i False by (auto simp: register_exynos_dm_constraint_table_def Let_def exynos_dm_index_validate_def s2_def s1_def)
    moreover obtain s' where s': "exynos_dm_topological_sort s2 = Some s'" "unordered s' = unordered s2" "dm_ok s'" "ordered s'"
      "indegree_ok s2 \<longrightarrow> indegree_ok s' \<and> (acyclic (min_edges s') \<longrightarrow> complete_order s')"
      "\<forall>c < length (dm_data s2). excess s' c = excess s2 c \<and> (int c \<in> set (all_order s') \<longrightarrow> excess s2 c = 0)"
      using sort_ok [OF st(1)] by blast
    ultimately show ?thesis using st(2,5-7) unordered_ok(4) [OF s'(2)] by (intro exI [of _ s']) simp
  next
    case True
    then obtain q where q: "sub = Some q" "q \<noteq> p" "\<not> linked q s" and tab: tab using can by (auto simp: can_register_def split: option.splits)
    define s3 where "s3 = upd_con q (\<lambda>_. \<lparr>dm_driver = dm_constraint (dm_cons s p), dm_constraint = i, guidance = True, constraint_type = CONSTRAINT_MAX,
        c_type_name = take 16 (dm_type_name (dat s2 (nat i))), freq_table = Some (map swap_freq tb), const_freq = UINT_MAX, gov_freq = UINT_MAX, sub_constraint = None\<rparr>) s2"
    define s4 where "s4 = upd_con p (\<lambda>x. x\<lparr>sub_constraint := Some q\<rparr>) (link_max q (dst s p) (nat i) s3)"
    have nl: "\<not> linked q s2" using st(4) [OF q(2)] q(3) True by simp
    have l3: "links_ok s3" unfolding s3_def using links_ok_upd_con [OF _ nl] st(1) by (simp add: dm_ok_def)
    have "links_ok (link_max q (dst s p) (nat i) s3)"
      by (rule links_ok_link_max [OF l3]) (use nl i tb(2) us st(3) in \<open>auto simp: s3_def\<close>)
    then have "links_ok s4" unfolding s4_def by (rule links_ok_upd_con_keep) simp
    then have ok4: "dm_ok s4" using st(1) indegree_link(3) by (simp add: dm_ok_def s4_def s3_def indegree_link)
    have in4: "indegree_ok s \<longrightarrow> indegree_ok s4" using st(2) indegree_link(4) by (simp add: s4_def s3_def indegree_link)
    have e4: "min_edges s4 = min_edges s2"
      by (rule min_edges_same) (use nl not_linked [of q s2] in \<open>auto simp: s4_def s3_def\<close>)
    have "register_exynos_dm_constraint_table sub tab i (Some p) s = map_option (\<lambda>s3. (0, s3)) (exynos_dm_topological_sort s4)"
      using us tb i True q(1) tab by (simp add: register_exynos_dm_constraint_table_def Let_def exynos_dm_index_validate_def s4_def s3_def s2_def s1_def)
    moreover obtain s' where s': "exynos_dm_topological_sort s4 = Some s'" "unordered s' = unordered s4" "dm_ok s'" "ordered s'"
      "indegree_ok s4 \<longrightarrow> indegree_ok s' \<and> (acyclic (min_edges s') \<longrightarrow> complete_order s')"
      "\<forall>c < length (dm_data s4). excess s' c = excess s4 c \<and> (int c \<in> set (all_order s') \<longrightarrow> excess s4 c = 0)"
      using sort_ok [OF ok4] by blast
    moreover have "length (dm_data s4) = length (dm_data s)" "\<forall>c < length (dm_data s). excess s4 c = excess s c"
      using st(6,7) by (simp_all add: s4_def s3_def)
    ultimately show ?thesis using in4 e4 st(5) unordered_ok(4) [OF s'(2)] by (intro exI [of _ s']) simp
  qed
qed

subsection \<open>Unregistering\<close>

lemma unlink_both_ok:
  assumes ok: "links_ok s" and i: "i < length (dm_data s)" "p \<in> set (min_constraints (dat s i)) \<union> set (max_constraints (dat s i))"
  shows "\<exists>s'. unlink_both p s = Some s' \<and> links_ok s' \<and> length (dm_data s') = length (dm_data s) \<and> domain_order s' = domain_order s \<and> dm_cons s' = dm_cons s
    \<and> (\<forall>j < length (dm_data s). min_constraints (dat s' j) = remove1 p (min_constraints (dat s j)) \<and> max_constraints (dat s' j) = remove1 p (max_constraints (dat s j))
         \<and> min_drivers (dat s' j) = remove1 p (min_drivers (dat s j)) \<and> indegree (dat s' j) = indegree (dat s j))"
proof -
  have l: "link_rel min_constraints min_drivers s" "link_rel max_constraints max_drivers s" "con_ok s" using ok by (simp_all add: links_ok_alt)
  define s1 where "s1 = s\<lparr>dm_data := map (\<lambda>d. d\<lparr>min_constraints := remove1 p (min_constraints d), max_constraints := remove1 p (max_constraints d)\<rparr>) (dm_data s)\<rparr>"
  define s2 where "s2 = s1\<lparr>dm_data := map (\<lambda>d. d\<lparr>min_drivers := remove1 p (min_drivers d), max_drivers := remove1 p (max_drivers d)\<rparr>) (dm_data s1)\<rparr>"
  have u1: "unlink_driver p s = Some s1" using i by (auto simp: unlink_driver_def s1_def list_ex_length)
  obtain c where c: "c < length (dm_data s)" "p \<in> set (min_drivers (dat s c)) \<union> set (max_drivers (dat s c))"
    using link_relD(4,5) [OF l(1) i(1)] link_relD(4,5) [OF l(2) i(1)] i(2) usable_nat(1) by blast
  have f1: "length (dm_data s1) = length (dm_data s)" "j < length (dm_data s) \<Longrightarrow> min_drivers (dat s1 j) = min_drivers (dat s j) \<and> max_drivers (dat s1 j) = max_drivers (dat s j)" for j
    by (simp_all add: s1_def)
  have "list_ex (\<lambda>d. p \<in> set (min_drivers d) \<union> set (max_drivers d)) (dm_data s1)" using c f1 by (auto simp: list_ex_length)
  then have u: "unlink_both p s = Some s2" using u1 by (simp add: unlink_both_def unlink_constraint_def s2_def)
  have n: "length (dm_data s2) = length (dm_data s)" by (simp add: s1_def s2_def)
  have f: "min_constraints (dat s2 j) = remove1 p (min_constraints (dat s j))" "max_constraints (dat s2 j) = remove1 p (max_constraints (dat s j))"
    "min_drivers (dat s2 j) = remove1 p (min_drivers (dat s j))" "max_drivers (dat s2 j) = remove1 p (max_drivers (dat s j))"
    "available (dat s2 j) = available (dat s j)" "dm_type (dat s2 j) = dm_type (dat s j)" "indegree (dat s2 j) = indegree (dat s j)"
    if "j < length (dm_data s)" for j using that by (simp_all add: s1_def s2_def)
  have cons: "dm_cons s2 = dm_cons s" by (simp add: s1_def s2_def)
  have "link_rel min_constraints min_drivers s2" "link_rel max_constraints max_drivers s2"
    by (auto intro!: link_rel_del [OF l(1) n, of p] link_rel_del [OF l(2) n, of p] simp: f cons)
  moreover have "con_ok s2" using l(3) unfolding con_ok_def n cons by (auto simp: f dest!: subsetD [OF set_remove1_subset])
  ultimately have "links_ok s2" by (simp add: links_ok_alt)
  then show ?thesis using u n f cons by (auto simp: s1_def s2_def)
qed

end
