(* ===== verification/DmPass.thy ===== *)
theory DmPass
  imports DmLinks
begin

text \<open>
  How limits spread along constraints. Lower limits by policy, upper limits by policy and lower limits
  by governors are handled by the same pattern: a constraint gets the frequency its table gives for its driver,
  and the constrained domain the largest or smallest of what its constraints ask for. The pattern is the locale
  \<open>limits\<close>, which the three update functions interpret; \<open>limit_pass\<close> adds the loops over the order.
\<close>

subsection \<open>What never changes\<close>

definition still :: "exynos_dm_data \<Rightarrow> exynos_dm_data" where
  "still d = d\<lparr>cur_freq := 0, next_target_freq := 0, governor_freq := 0, gov_min := 0, policy_min := 0, policy_max := 0, const_min := 0, const_max := 0\<rparr>"

definition static :: "exynos_dm_device \<Rightarrow> exynos_dm_device" where
  "static s = s\<lparr>dm_data := map still (dm_data s), dm_cons := \<lambda>p. (dm_cons s p)\<lparr>const_freq := 0, gov_freq := 0\<rparr>, dm_log := [], fvp_log := []\<rparr>"

lemma static_data:
  assumes "static s' = static s"
  shows "length (dm_data s') = length (dm_data s)"
    and "i < length (dm_data s) \<Longrightarrow> (\<And>d. f (still d) = f d) \<Longrightarrow> f (dat s' i) = f (dat s i)"
    and "(\<And>t. g (t\<lparr>const_freq := 0, gov_freq := 0\<rparr>) = g t) \<Longrightarrow> g (dm_cons s' p) = g (dm_cons s p)"
    and "domain_order s' = domain_order s" "constraint_domain_count s' = constraint_domain_count s"
proof -
  have m: "map still (dm_data s') = map still (dm_data s)" using arg_cong [OF assms, where f = dm_data] by (simp add: static_def)
  show len: "length (dm_data s') = length (dm_data s)" using arg_cong [OF m, where f = length] by simp
  show "domain_order s' = domain_order s" "constraint_domain_count s' = constraint_domain_count s"
    using arg_cong [OF assms, where f = domain_order] arg_cong [OF assms, where f = constraint_domain_count] by (simp_all add: static_def)
  {
    assume i: "i < length (dm_data s)" and f: "\<And>d. f (still d) = f d"
    have "still (dat s' i) = still (dat s i)" using m i len by (metis nth_map)
    then show "f (dat s' i) = f (dat s i)" using f by metis
  }
  assume g: "\<And>t. g (t\<lparr>const_freq := 0, gov_freq := 0\<rparr>) = g t"
  have "(dm_cons s' p)\<lparr>const_freq := 0, gov_freq := 0\<rparr> = (dm_cons s p)\<lparr>const_freq := 0, gov_freq := 0\<rparr>"
    using fun_cong [OF arg_cong [OF assms, where f = dm_cons], of p] by (simp add: static_def)
  then show "g (dm_cons s' p) = g (dm_cons s p)" using g by metis
qed

lemma static_fields:
  assumes "static s' = static s" and "i < length (dm_data s)"
  shows "min_constraints (dat s' i) = min_constraints (dat s i)" "max_constraints (dat s' i) = max_constraints (dat s i)"
    "min_drivers (dat s' i) = min_drivers (dat s i)" "max_drivers (dat s' i) = max_drivers (dat s i)" "available (dat s' i) = available (dat s i)"
    "my_order (dat s' i) = my_order (dat s i)" "freq_scaler (dat s' i) = freq_scaler (dat s i)" "dm_type (dat s' i) = dm_type (dat s i)"
  by (auto intro!: static_data(2) [OF assms] simp: still_def)

lemma static_cons:
  assumes "static s' = static s"
  shows "dm_driver (dm_cons s' p) = dm_driver (dm_cons s p)" "dm_constraint (dm_cons s' p) = dm_constraint (dm_cons s p)"
    "freq_table (dm_cons s' p) = freq_table (dm_cons s p)" "constraint_type (dm_cons s' p) = constraint_type (dm_cons s p)"
  by (auto intro!: static_data(3) [OF assms])

lemma static_usable [dm]:
  assumes "static s' = static s"
  shows "usable s' x = usable s x"
  using static_data(1) [OF assms] static_fields(5) [OF assms] by (auto simp: usable_def idx_ok_def)

lemma static_links:
  assumes st: "static s' = static s" and "links_ok s"
  shows "links_ok s'"
proof -
  note f = static_fields [OF st] and c = static_cons [OF st] and n = static_data(1) [OF st]
  show ?thesis
    unfolding links_ok_alt
  proof (intro conjI)
    show "link_rel min_constraints min_drivers s'"
      by (rule link_rel_same [of _ _ s]) (use assms(2) f c n in \<open>auto simp: links_ok_alt\<close>)
    show "link_rel max_constraints max_drivers s'"
      by (rule link_rel_same [of _ _ s]) (use assms(2) f c n in \<open>auto simp: links_ok_alt\<close>)
    show "con_ok s'" using assms(2) f c n by (simp add: links_ok_alt con_ok_def)
  qed
qed

lemma static_order:
  assumes "static s' = static s"
  shows "all_order s' = all_order s" "order_from o1 s' = order_from o1 s" "order_downto o1 s' = order_downto o1 s"
  using static_data(4,5) [OF assms] by (simp_all add: all_order_def order_from_def order_downto_def)

definition tab :: "exynos_dm_device \<Rightarrow> nat \<Rightarrow> exynos_dm_freq list" where
  "tab s p = the (freq_table (dm_cons s p))"

lemma con_target_ok:
  assumes "links_ok s" and "i < length (dm_data s)" and "p \<in> set (min_constraints (dat s i)) \<union> set (max_constraints (dat s i))"
  shows "con_target p s = Some (tab s p, dst s p)" "dst s p < length (dm_data s)" "tab s p \<noteq> []"
proof -
  have l: "link_rel min_constraints min_drivers s" "link_rel max_constraints max_drivers s" "con_ok s" using assms(1) by (simp_all add: links_ok_alt)
  obtain tb where "freq_table (dm_cons s p) = Some tb" "tb \<noteq> []" using l(3) assms(2,3) unfolding con_ok_def by blast
  moreover have u: "usable s (dm_constraint (dm_cons s p))" using link_relD(4) [OF l(1) assms(2)] link_relD(4) [OF l(2) assms(2)] assms(3) by auto
  ultimately show "con_target p s = Some (tab s p, dst s p)" "dst s p < length (dm_data s)" "tab s p \<noteq> []"
    using usable_nat(1) [OF u] by (simp_all add: con_target_def tab_def)
qed

subsection \<open>One domain\<close>

text \<open>
  \<open>upd f p\<close> updates the constraint \<open>p\<close> for frequency \<open>f\<close> of its driver; \<open>cf\<close> is the frequency a constraint asks for, \<open>lim\<close>
  the limit of a domain, \<open>cs\<close> and \<open>ds\<close> its lists, \<open>look\<close> the search in the table, \<open>agg\<close> what follows from a list of
  constraints, and \<open>frame\<close> the part of the state that is left alone.
\<close>

locale limits =
  fixes upd :: "u32 \<Rightarrow> nat \<Rightarrow> exynos_dm_device \<Rightarrow> exynos_dm_device option"
    and cf :: "exynos_dm_constraint \<Rightarrow> u32" and lim :: "exynos_dm_data \<Rightarrow> u32"
    and cs :: "exynos_dm_data \<Rightarrow> nat list" and ds :: "exynos_dm_data \<Rightarrow> nat list"
    and look :: "exynos_dm_freq list \<Rightarrow> u32 \<Rightarrow> u32" and agg :: "exynos_dm_device \<Rightarrow> nat list \<Rightarrow> u32"
    and frame :: "exynos_dm_device \<Rightarrow> exynos_dm_device"
  assumes upd_step: "links_ok s \<Longrightarrow> i < length (dm_data s) \<Longrightarrow> p \<in> set (cs (dat s i)) \<Longrightarrow>
      \<exists>s'. upd f p s = Some s' \<and> frame s' = frame s \<and> cf (dm_cons s' p) = look (tab s p) f \<and> (\<forall>q. q \<noteq> p \<longrightarrow> cf (dm_cons s' q) = cf (dm_cons s q))
        \<and> lim (dat s' (dst s p)) = agg s' (ds (dat s (dst s p))) \<and> (\<forall>c < length (dm_data s). c \<noteq> dst s p \<longrightarrow> lim (dat s' c) = lim (dat s c))"
    and frame_static: "frame s' = frame s \<Longrightarrow> static s' = static s"
    and lists_static: "static s' = static s \<Longrightarrow> i < length (dm_data s) \<Longrightarrow> cs (dat s' i) = cs (dat s i) \<and> ds (dat s' i) = ds (dat s i)"
    and agg_cong: "(\<And>p. p \<in> set ps \<Longrightarrow> cf (dm_cons s' p) = cf (dm_cons s p)) \<Longrightarrow> agg s' ps = agg s ps"
    and links: "links_ok s \<Longrightarrow> link_rel cs ds s"
begin

definition agg_ok :: "exynos_dm_device \<Rightarrow> nat \<Rightarrow> bool" where
  "agg_ok s c \<longleftrightarrow> lim (dat s c) = agg s (ds (dat s c))"

definition targets :: "exynos_dm_device \<Rightarrow> nat \<Rightarrow> nat set" where
  "targets s i = {dst s p | p. p \<in> set (cs (dat s i))}"

lemma step_agg:
  assumes ok: "links_ok s" and i: "i < length (dm_data s)" "p \<in> set (cs (dat s i))" and s': "frame s' = frame s" "\<forall>q. q \<noteq> p \<longrightarrow> cf (dm_cons s' q) = cf (dm_cons s q)"
    "\<forall>c < length (dm_data s). c \<noteq> dst s p \<longrightarrow> lim (dat s' c) = lim (dat s c)" and c: "c < length (dm_data s)" "c \<noteq> dst s p" "agg_ok s c"
  shows "agg_ok s' c"
proof -
  note l = links [OF ok] and st = frame_static [OF s'(1)]
  have "p \<notin> set (ds (dat s c))" using link_relD(6) [OF l c(1)] c(2) by auto
  then have "agg s' (ds (dat s c)) = agg s (ds (dat s c))" using s'(2) by (intro agg_cong) auto
  then show ?thesis using c s'(3) lists_static [OF st c(1)] by (simp add: agg_ok_def)
qed

lemma visit_list:
  assumes "links_ok s" and "i < length (dm_data s)" and "set ps \<subseteq> set (cs (dat s i))"
  shows "\<exists>s'. visit_all (upd f) ps s = Some s' \<and> frame s' = frame s \<and> (\<forall>p \<in> set ps. cf (dm_cons s' p) = look (tab s p) f)
    \<and> (\<forall>q. q \<notin> set ps \<longrightarrow> cf (dm_cons s' q) = cf (dm_cons s q)) \<and> (\<forall>p \<in> set ps. agg_ok s' (dst s p))
    \<and> (\<forall>c < length (dm_data s). c \<notin> dst s ` set ps \<longrightarrow> lim (dat s' c) = lim (dat s c)) \<and> (\<forall>c < length (dm_data s). agg_ok s c \<longrightarrow> agg_ok s' c)"
  using assms
proof (induction ps arbitrary: s)
  case Nil
  then show ?case by simp
next
  case (Cons p ps)
  have p: "p \<in> set (cs (dat s i))" using Cons.prems(3) by simp
  obtain s1 where s1: "upd f p s = Some s1" "frame s1 = frame s" "cf (dm_cons s1 p) = look (tab s p) f" "\<forall>q. q \<noteq> p \<longrightarrow> cf (dm_cons s1 q) = cf (dm_cons s q)"
    "lim (dat s1 (dst s p)) = agg s1 (ds (dat s (dst s p)))" "\<forall>c < length (dm_data s). c \<noteq> dst s p \<longrightarrow> lim (dat s1 c) = lim (dat s c)"
    using upd_step [OF Cons.prems(1,2) p] by blast
  note st = frame_static [OF s1(2)]
  have n: "length (dm_data s1) = length (dm_data s)" by (rule static_data(1) [OF st])
  have dp: "dst s p < length (dm_data s)" using link_relD(4) [OF links [OF Cons.prems(1)] Cons.prems(2) p] usable_nat(1) by blast
  have t: "tab s1 q = tab s q" "dst s1 q = dst s q" for q using static_cons [OF st] by (simp_all add: tab_def)
  have ag1: "agg_ok s1 (dst s p)" using s1(5) lists_static [OF st dp] by (simp add: agg_ok_def)
  have ag: "agg_ok s1 c" if "c < length (dm_data s)" "agg_ok s c" for c
    using step_agg [OF Cons.prems(1,2) p s1(2,4,6) that(1) _ that(2)] ag1 by blast
  have "set ps \<subseteq> set (cs (dat s1 i))" using Cons.prems(2,3) lists_static [OF st] by auto
  then obtain s' where s': "visit_all (upd f) ps s1 = Some s'" "frame s' = frame s1" "\<forall>q \<in> set ps. cf (dm_cons s' q) = look (tab s1 q) f"
    "\<forall>q. q \<notin> set ps \<longrightarrow> cf (dm_cons s' q) = cf (dm_cons s1 q)" "\<forall>q \<in> set ps. agg_ok s' (dst s1 q)"
    "\<forall>c < length (dm_data s1). c \<notin> dst s1 ` set ps \<longrightarrow> lim (dat s' c) = lim (dat s1 c)" "\<forall>c < length (dm_data s1). agg_ok s1 c \<longrightarrow> agg_ok s' c"
    using Cons.IH [OF static_links [OF st Cons.prems(1)]] Cons.prems(2) n by auto
  have "\<forall>q \<in> set (p # ps). cf (dm_cons s' q) = look (tab s q) f" using s'(3,4) s1(3) t by (metis set_ConsD)
  moreover have "\<forall>q. q \<notin> set (p # ps) \<longrightarrow> cf (dm_cons s' q) = cf (dm_cons s q)" using s'(4) s1(4) by simp
  moreover have "\<forall>q \<in> set (p # ps). agg_ok s' (dst s q)" using s'(5,7) ag1 dp n t by auto
  moreover have "\<forall>c < length (dm_data s). c \<notin> dst s ` set (p # ps) \<longrightarrow> lim (dat s' c) = lim (dat s c)" using s'(6) s1(6) n t by simp
  moreover have "\<forall>c < length (dm_data s). agg_ok s c \<longrightarrow> agg_ok s' c" using ag s'(7) n by simp
  ultimately show ?case using s1(1,2) s'(1,2) by simp
qed

end

subsection \<open>A loop over the order\<close>

text \<open>\<open>key\<close> is the frequency of a domain for which its constraints are looked up.\<close>

locale limit_pass = limits +
  fixes key :: "exynos_dm_data \<Rightarrow> u32" and visit :: "int \<Rightarrow> exynos_dm_device \<Rightarrow> exynos_dm_device option"
  assumes visit_unfold: "usable s x \<Longrightarrow> visit x s = visit_all (upd (key (dat s (nat x)))) (cs (dat s (nat x))) s"
    and key_frame: "frame s' = frame s \<Longrightarrow> i < length (dm_data s) \<Longrightarrow> lim (dat s' i) = lim (dat s i) \<Longrightarrow> key (dat s' i) = key (dat s i)"
begin

definition up_to_date :: "exynos_dm_device \<Rightarrow> nat \<Rightarrow> bool" where
  "up_to_date s i \<longleftrightarrow> (\<forall>p \<in> set (cs (dat s i)). cf (dm_cons s p) = look (tab s p) (key (dat s i)) \<and> agg_ok s (dst s p))"

lemma visit_up_to_date:
  assumes ok: "links_ok s" and x: "usable s x" "nat x \<notin> targets s (nat x)"
  shows "\<exists>s'. visit x s = Some s' \<and> frame s' = frame s \<and> up_to_date s' (nat x)
    \<and> (\<forall>e < length (dm_data s). e \<noteq> nat x \<longrightarrow> e \<notin> targets s (nat x) \<longrightarrow> up_to_date s e \<longrightarrow> up_to_date s' e)
    \<and> (\<forall>e < length (dm_data s). e \<notin> targets s (nat x) \<longrightarrow> lim (dat s' e) = lim (dat s e))
    \<and> (\<forall>q. q \<notin> set (cs (dat s (nat x))) \<longrightarrow> cf (dm_cons s' q) = cf (dm_cons s q))"
proof -
  let ?i = "nat x"
  note i = usable_nat(1) [OF x(1)] and l = links [OF ok]
  obtain s' where s': "visit_all (upd (key (dat s ?i))) (cs (dat s ?i)) s = Some s'" "frame s' = frame s"
    "\<forall>p \<in> set (cs (dat s ?i)). cf (dm_cons s' p) = look (tab s p) (key (dat s ?i))"
    "\<forall>q. q \<notin> set (cs (dat s ?i)) \<longrightarrow> cf (dm_cons s' q) = cf (dm_cons s q)" "\<forall>p \<in> set (cs (dat s ?i)). agg_ok s' (dst s p)"
    "\<forall>c < length (dm_data s). c \<notin> dst s ` set (cs (dat s ?i)) \<longrightarrow> lim (dat s' c) = lim (dat s c)" "\<forall>c < length (dm_data s). agg_ok s c \<longrightarrow> agg_ok s' c"
    using visit_list [OF ok i order_refl] by blast
  note st = frame_static [OF s'(2)]
  have c: "tab s' q = tab s q" "dst s' q = dst s q" for q using static_cons [OF st] by (simp_all add: tab_def)
  have tg: "targets s ?i = dst s ` set (cs (dat s ?i))" by (auto simp: targets_def)
  have lim: "lim (dat s' e) = lim (dat s e)" if "e < length (dm_data s)" "e \<notin> targets s ?i" for e using s'(6) that tg by simp
  have k: "key (dat s' ?i) = key (dat s ?i)" by (rule key_frame [OF s'(2) i lim [OF i x(2)]])
  have "up_to_date s' ?i" using s'(3,5) k c lists_static [OF st i] by (simp add: up_to_date_def)
  moreover have "up_to_date s' e" if e: "e < length (dm_data s)" "e \<noteq> ?i" "e \<notin> targets s ?i" "up_to_date s e" for e
    unfolding up_to_date_def
  proof (intro ballI conjI)
    fix p
    assume p': "p \<in> set (cs (dat s' e))"
    then have p: "p \<in> set (cs (dat s e))" using lists_static [OF st e(1)] by simp
    then have "p \<notin> set (cs (dat s ?i))" using link_relD(3) [OF l e(1) p] link_relD(3) [OF l i, of p] e(2) by (metis of_nat_eq_iff)
    then show "cf (dm_cons s' p) = look (tab s' p) (key (dat s' e))"
      using s'(4) e(4) p c key_frame [OF s'(2) e(1) lim [OF e(1,3)]] by (simp add: up_to_date_def)
    have "dst s p < length (dm_data s)" using link_relD(4) [OF l e(1) p] usable_nat(1) by blast
    then show "agg_ok s' (dst s' p)" using s'(7) e(4) p c by (simp add: up_to_date_def)
  qed
  ultimately show ?thesis using s' lim visit_unfold [OF x(1)] by auto
qed

lemma targets_static:
  assumes "static s' = static s" and "i < length (dm_data s)"
  shows "targets s' i = targets s i"
  using lists_static [OF assms] static_cons(2) [OF assms(1)] by (simp add: targets_def)

lemma pass_up_to_date:
  assumes "links_ok s" and "\<forall>x \<in> set xs. usable s x \<and> nat x \<notin> targets s (nat x)" and "sorted_wrt (\<lambda>x y. nat x \<noteq> nat y \<and> nat x \<notin> targets s (nat y)) xs"
  shows "\<exists>s'. visit_all visit xs s = Some s' \<and> frame s' = frame s \<and> (\<forall>x \<in> set xs. up_to_date s' (nat x))
    \<and> (\<forall>e < length (dm_data s). (\<forall>x \<in> set xs. e \<notin> targets s (nat x)) \<longrightarrow> up_to_date s e \<longrightarrow> up_to_date s' e)
    \<and> (\<forall>e < length (dm_data s). (\<forall>x \<in> set xs. e \<notin> targets s (nat x)) \<longrightarrow> lim (dat s' e) = lim (dat s e))
    \<and> (\<forall>q. (\<forall>x \<in> set xs. q \<notin> set (cs (dat s (nat x)))) \<longrightarrow> cf (dm_cons s' q) = cf (dm_cons s q))"
  using assms
proof (induction xs arbitrary: s)
  case Nil
  then show ?case by simp
next
  case (Cons x xs)
  have x: "usable s x" "nat x \<notin> targets s (nat x)" using Cons.prems(2) by simp_all
  obtain s1 where s1: "visit x s = Some s1" "frame s1 = frame s" "up_to_date s1 (nat x)"
    "\<forall>e < length (dm_data s). e \<noteq> nat x \<longrightarrow> e \<notin> targets s (nat x) \<longrightarrow> up_to_date s e \<longrightarrow> up_to_date s1 e"
    "\<forall>e < length (dm_data s). e \<notin> targets s (nat x) \<longrightarrow> lim (dat s1 e) = lim (dat s e)"
    "\<forall>q. q \<notin> set (cs (dat s (nat x))) \<longrightarrow> cf (dm_cons s1 q) = cf (dm_cons s q)"
    using visit_up_to_date [OF Cons.prems(1) x] by blast
  note st = frame_static [OF s1(2)]
  have n: "length (dm_data s1) = length (dm_data s)" by (rule static_data(1) [OF st])
  have in_xs: "nat y < length (dm_data s)" if "y \<in> set (x # xs)" for y using Cons.prems(2) that usable_nat(1) by blast
  have tg: "targets s1 (nat y) = targets s (nat y)" "cs (dat s1 (nat y)) = cs (dat s (nat y))" if "y \<in> set (x # xs)" for y
    using targets_static [OF st in_xs [OF that]] lists_static [OF st in_xs [OF that]] by simp_all
  have "\<forall>y \<in> set xs. usable s1 y \<and> nat y \<notin> targets s1 (nat y)" using Cons.prems(2) tg static_usable [OF st] by simp
  moreover have "sorted_wrt (\<lambda>x y. nat x \<noteq> nat y \<and> nat x \<notin> targets s1 (nat y)) xs"
    by (rule sorted_wrt_mono_rel [of xs "\<lambda>x y. nat x \<noteq> nat y \<and> nat x \<notin> targets s (nat y)"]) (use Cons.prems(3) tg in auto)
  ultimately obtain s' where s': "visit_all visit xs s1 = Some s'" "frame s' = frame s1" "\<forall>y \<in> set xs. up_to_date s' (nat y)"
    "\<forall>e < length (dm_data s1). (\<forall>y \<in> set xs. e \<notin> targets s1 (nat y)) \<longrightarrow> up_to_date s1 e \<longrightarrow> up_to_date s' e"
    "\<forall>e < length (dm_data s1). (\<forall>y \<in> set xs. e \<notin> targets s1 (nat y)) \<longrightarrow> lim (dat s' e) = lim (dat s1 e)"
    "\<forall>q. (\<forall>y \<in> set xs. q \<notin> set (cs (dat s1 (nat y)))) \<longrightarrow> cf (dm_cons s' q) = cf (dm_cons s1 q)"
    using Cons.IH [OF static_links [OF st Cons.prems(1)]] by blast
  have x_ok: "up_to_date s' (nat x)" using s'(4) s1(3) Cons.prems(3) tg n in_xs [of x] by simp
  have "\<forall>e < length (dm_data s). (\<forall>y \<in> set (x # xs). e \<notin> targets s (nat y)) \<longrightarrow> up_to_date s e \<longrightarrow> up_to_date s' e"
    using s'(4) s1(4) x_ok tg n by auto
  moreover have "\<forall>e < length (dm_data s). (\<forall>y \<in> set (x # xs). e \<notin> targets s (nat y)) \<longrightarrow> lim (dat s' e) = lim (dat s e)"
    using s'(5) s1(5) tg n by simp
  moreover have "\<forall>q. (\<forall>y \<in> set (x # xs). q \<notin> set (cs (dat s (nat y)))) \<longrightarrow> cf (dm_cons s' q) = cf (dm_cons s q)"
    using s'(6) s1(6) tg by simp
  ultimately show ?case using s1(1,2) s'(1-3) x_ok by simp
qed

end

subsection \<open>The three kinds of limits\<close>

lemma agg_fold_cong: "(\<And>p. p \<in> set ps \<Longrightarrow> g p = h p) \<Longrightarrow> foldl (\<lambda>m p. f (g p) m) a ps = foldl (\<lambda>m p. f (h p) m) a ps"
  by (induction ps arbitrary: a) auto

definition frame_min :: "exynos_dm_device \<Rightarrow> exynos_dm_device" where
  "frame_min s = s\<lparr>dm_data := map (\<lambda>d. d\<lparr>const_min := 0\<rparr>) (dm_data s), dm_cons := \<lambda>p. (dm_cons s p)\<lparr>const_freq := 0\<rparr>\<rparr>"

definition frame_max :: "exynos_dm_device \<Rightarrow> exynos_dm_device" where
  "frame_max s = s\<lparr>dm_data := map (\<lambda>d. d\<lparr>const_max := 0\<rparr>) (dm_data s), dm_cons := \<lambda>p. (dm_cons s p)\<lparr>const_freq := 0\<rparr>\<rparr>"

definition frame_gov :: "exynos_dm_device \<Rightarrow> exynos_dm_device" where
  "frame_gov s = s\<lparr>dm_data := map (\<lambda>d. d\<lparr>gov_min := 0\<rparr>) (dm_data s), dm_cons := \<lambda>p. (dm_cons s p)\<lparr>gov_freq := 0\<rparr>\<rparr>"

lemma static_frame: "static (frame_min s) = static s" "static (frame_max s) = static s" "static (frame_gov s) = static s"
  by (simp_all add: static_def frame_min_def frame_max_def frame_gov_def still_def comp_def)

lemma frame_static: "frame_min s' = frame_min s \<Longrightarrow> static s' = static s" "frame_max s' = frame_max s \<Longrightarrow> static s' = static s"
  "frame_gov s' = frame_gov s \<Longrightarrow> static s' = static s"
  using static_frame by metis+

lemma map_eq_nth: "map f xs = map f ys \<Longrightarrow> i < length ys \<Longrightarrow> f (xs ! i) = f (ys ! i)"
  by (metis length_map nth_map)

lemma map_update_absorb:
  assumes "\<And>d. h (f d) = h d"
  shows "map h (xs[c := f (xs ! c)]) = map h xs"
proof (cases "c < length xs")
  case True
  then show ?thesis by (simp add: map_update assms list_update_same_conv)
qed (simp add: list_update_beyond)

lemma fun_upd_absorb: "(\<And>x. k (g x) = k x) \<Longrightarrow> (\<lambda>q. k ((m(p := g (m p))) q)) = (\<lambda>q. k (m q))"
  by auto

lemma frame_upd:
  "frame_min (upd_dom c (\<lambda>x. x\<lparr>const_min := v x\<rparr>) (upd_con p (\<lambda>x. x\<lparr>const_freq := w\<rparr>) s)) = frame_min s"
  "frame_max (upd_dom c (\<lambda>x. x\<lparr>const_max := v x\<rparr>) (upd_con p (\<lambda>x. x\<lparr>const_freq := w\<rparr>) s)) = frame_max s"
  "frame_gov (upd_dom c (\<lambda>x. x\<lparr>gov_min := v x\<rparr>) (upd_con p (\<lambda>x. x\<lparr>gov_freq := w\<rparr>) s)) = frame_gov s"
proof -
  show "frame_min (upd_dom c (\<lambda>x. x\<lparr>const_min := v x\<rparr>) (upd_con p (\<lambda>x. x\<lparr>const_freq := w\<rparr>) s)) = frame_min s"
    using map_update_absorb [of "\<lambda>d. d\<lparr>const_min := 0\<rparr>" "\<lambda>x. x\<lparr>const_min := v x\<rparr>" "dm_data s" c]
      fun_upd_absorb [of "\<lambda>x. x\<lparr>const_freq := 0\<rparr>" "\<lambda>x. x\<lparr>const_freq := w\<rparr>" "dm_cons s" p]
    by (simp add: frame_min_def upd_dom_def upd_con_def)
  show "frame_max (upd_dom c (\<lambda>x. x\<lparr>const_max := v x\<rparr>) (upd_con p (\<lambda>x. x\<lparr>const_freq := w\<rparr>) s)) = frame_max s"
    using map_update_absorb [of "\<lambda>d. d\<lparr>const_max := 0\<rparr>" "\<lambda>x. x\<lparr>const_max := v x\<rparr>" "dm_data s" c]
      fun_upd_absorb [of "\<lambda>x. x\<lparr>const_freq := 0\<rparr>" "\<lambda>x. x\<lparr>const_freq := w\<rparr>" "dm_cons s" p]
    by (simp add: frame_max_def upd_dom_def upd_con_def)
  show "frame_gov (upd_dom c (\<lambda>x. x\<lparr>gov_min := v x\<rparr>) (upd_con p (\<lambda>x. x\<lparr>gov_freq := w\<rparr>) s)) = frame_gov s"
    using map_update_absorb [of "\<lambda>d. d\<lparr>gov_min := 0\<rparr>" "\<lambda>x. x\<lparr>gov_min := v x\<rparr>" "dm_data s" c]
      fun_upd_absorb [of "\<lambda>x. x\<lparr>gov_freq := 0\<rparr>" "\<lambda>x. x\<lparr>gov_freq := w\<rparr>" "dm_cons s" p]
    by (simp add: frame_gov_def upd_dom_def upd_con_def)
qed

text \<open>What the laws of \<open>limits\<close> need of the lists.\<close>

lemma links_min_max: "links_ok s \<Longrightarrow> link_rel min_constraints min_drivers s" "links_ok s \<Longrightarrow> link_rel max_constraints max_drivers s"
  by (simp_all add: links_ok_alt)

lemma frame_lim:
  "frame_min s' = frame_min s \<Longrightarrow> i < length (dm_data s) \<Longrightarrow> (dat s' i)\<lparr>const_min := 0\<rparr> = (dat s i)\<lparr>const_min := 0\<rparr>"
  "frame_max s' = frame_max s \<Longrightarrow> i < length (dm_data s) \<Longrightarrow> (dat s' i)\<lparr>const_max := 0\<rparr> = (dat s i)\<lparr>const_max := 0\<rparr>"
  "frame_gov s' = frame_gov s \<Longrightarrow> i < length (dm_data s) \<Longrightarrow> (dat s' i)\<lparr>gov_min := 0\<rparr> = (dat s i)\<lparr>gov_min := 0\<rparr>"
proof -
  show "frame_min s' = frame_min s \<Longrightarrow> i < length (dm_data s) \<Longrightarrow> (dat s' i)\<lparr>const_min := 0\<rparr> = (dat s i)\<lparr>const_min := 0\<rparr>"
    by (rule map_eq_nth) (auto dest: arg_cong [where f = dm_data] simp: frame_min_def)
  show "frame_max s' = frame_max s \<Longrightarrow> i < length (dm_data s) \<Longrightarrow> (dat s' i)\<lparr>const_max := 0\<rparr> = (dat s i)\<lparr>const_max := 0\<rparr>"
    by (rule map_eq_nth) (auto dest: arg_cong [where f = dm_data] simp: frame_max_def)
  show "frame_gov s' = frame_gov s \<Longrightarrow> i < length (dm_data s) \<Longrightarrow> (dat s' i)\<lparr>gov_min := 0\<rparr> = (dat s i)\<lparr>gov_min := 0\<rparr>"
    by (rule map_eq_nth) (auto dest: arg_cong [where f = dm_data] simp: frame_gov_def)
qed

lemma frame_field:
  "frame_min s' = frame_min s \<Longrightarrow> i < length (dm_data s) \<Longrightarrow> (\<And>d. f (d\<lparr>const_min := 0\<rparr>) = f d) \<Longrightarrow> f (dat s' i) = f (dat s i)"
  "frame_max s' = frame_max s \<Longrightarrow> i < length (dm_data s) \<Longrightarrow> (\<And>d. f (d\<lparr>const_max := 0\<rparr>) = f d) \<Longrightarrow> f (dat s' i) = f (dat s i)"
  "frame_gov s' = frame_gov s \<Longrightarrow> i < length (dm_data s) \<Longrightarrow> (\<And>d. f (d\<lparr>gov_min := 0\<rparr>) = f d) \<Longrightarrow> f (dat s' i) = f (dat s i)"
  using frame_lim by metis+

lemma static_lists:
  assumes "static s' = static s" and "i < length (dm_data s)"
  shows "min_constraints (dat s' i) = min_constraints (dat s i) \<and> min_drivers (dat s' i) = min_drivers (dat s i)"
    "max_constraints (dat s' i) = max_constraints (dat s i) \<and> max_drivers (dat s' i) = max_drivers (dat s i)"
  using static_fields [OF assms] by simp_all

lemma agg_congs:
  "(\<And>p. p \<in> set ps \<Longrightarrow> const_freq (dm_cons s' p) = const_freq (dm_cons s p)) \<Longrightarrow> max_const s' ps = max_const s ps"
  "(\<And>p. p \<in> set ps \<Longrightarrow> const_freq (dm_cons s' p) = const_freq (dm_cons s p)) \<Longrightarrow> min_const s' ps = min_const s ps"
  "(\<And>p. p \<in> set ps \<Longrightarrow> gov_freq (dm_cons s' p) = gov_freq (dm_cons s p)) \<Longrightarrow> max_gov s' ps = max_gov s ps"
  unfolding max_const_def min_const_def max_gov_def by (rule agg_fold_cong, simp)+

lemma visit_unfolds:
  "usable s x \<Longrightarrow> min_visit x s = visit_all (update_constraint_min (eff_min (dat s (nat x)))) (min_constraints (dat s (nat x))) s"
  "usable s x \<Longrightarrow> max_visit x s = visit_all (update_constraint_max (lim_max (dat s (nat x)))) (max_constraints (dat s (nat x))) s"
  by (simp_all add: min_visit_def max_visit_def)

lemmas limit_laws = frame_static static_lists agg_congs links_min_max visit_unfolds

interpretation lmin: limit_pass update_constraint_min const_freq const_min min_constraints min_drivers min_lookup max_const frame_min eff_min min_visit
proof
  fix s i p f
  assume a: "links_ok s" "i < length (dm_data s)" "p \<in> set (min_constraints (dat s i))"
  then show "\<exists>s'. update_constraint_min f p s = Some s' \<and> frame_min s' = frame_min s \<and> const_freq (dm_cons s' p) = min_lookup (tab s p) f
      \<and> (\<forall>q. q \<noteq> p \<longrightarrow> const_freq (dm_cons s' q) = const_freq (dm_cons s q)) \<and> const_min (dat s' (dst s p)) = max_const s' (min_drivers (dat s (dst s p)))
      \<and> (\<forall>c < length (dm_data s). c \<noteq> dst s p \<longrightarrow> const_min (dat s' c) = const_min (dat s c))"
    using con_target_ok [OF a(1,2)] by (simp add: update_constraint_min_def frame_upd max_const_def)
next
  fix s' s i
  assume a: "frame_min s' = frame_min s" "i < length (dm_data s)" "const_min (dat s' i) = const_min (dat s i)"
  note f = frame_field(1) [OF a(1,2)]
  show "eff_min (dat s' i) = eff_min (dat s i)"
    using a(3) f [of policy_min] f [of policy_max] f [of const_max] by (simp add: eff_min_def lim_min_def lim_max_def)
qed (fact limit_laws)+

interpretation lmax: limit_pass update_constraint_max const_freq const_max max_constraints max_drivers max_lookup min_const frame_max lim_max max_visit
proof
  fix s i p f
  assume a: "links_ok s" "i < length (dm_data s)" "p \<in> set (max_constraints (dat s i))"
  then show "\<exists>s'. update_constraint_max f p s = Some s' \<and> frame_max s' = frame_max s \<and> const_freq (dm_cons s' p) = max_lookup (tab s p) f
      \<and> (\<forall>q. q \<noteq> p \<longrightarrow> const_freq (dm_cons s' q) = const_freq (dm_cons s q)) \<and> const_max (dat s' (dst s p)) = min_const s' (max_drivers (dat s (dst s p)))
      \<and> (\<forall>c < length (dm_data s). c \<noteq> dst s p \<longrightarrow> const_max (dat s' c) = const_max (dat s c))"
    using con_target_ok [OF a(1,2)] by (simp add: update_constraint_max_def frame_upd min_const_def)
next
  fix s' s i
  assume a: "frame_max s' = frame_max s" "i < length (dm_data s)" "const_max (dat s' i) = const_max (dat s i)"
  then show "lim_max (dat s' i) = lim_max (dat s i)"
    using frame_field(2) [OF a(1,2), of policy_max] by (simp add: lim_max_def)
qed (fact limit_laws)+

interpretation lgov: limits update_gov_min gov_freq gov_min min_constraints min_drivers min_lookup max_gov frame_gov
proof
  fix s i p f
  assume a: "links_ok s" "i < length (dm_data s)" "p \<in> set (min_constraints (dat s i))"
  then show "\<exists>s'. update_gov_min f p s = Some s' \<and> frame_gov s' = frame_gov s \<and> gov_freq (dm_cons s' p) = min_lookup (tab s p) f
      \<and> (\<forall>q. q \<noteq> p \<longrightarrow> gov_freq (dm_cons s' q) = gov_freq (dm_cons s q)) \<and> gov_min (dat s' (dst s p)) = max_gov s' (min_drivers (dat s (dst s p)))
      \<and> (\<forall>c < length (dm_data s). c \<noteq> dst s p \<longrightarrow> gov_min (dat s' c) = gov_min (dat s c))"
    using con_target_ok [OF a(1,2)] by (simp add: update_gov_min_def frame_upd max_gov_def)
qed (fact limit_laws)+

end
