(* ===== verification/DmPolicy.thy ===== *)
theory DmPolicy
  imports DmPass
begin

text \<open>
  Policies. \<open>min_ok\<close> and \<open>max_ok\<close> say of a domain that what its constraints ask for is what their tables
  give for its limits, and that the constrained domains follow. A change of policy keeps both for
  every domain of the order; for lower limits provided that no domain has a lower limit above its upper one.
\<close>

definition min_ok :: "exynos_dm_device \<Rightarrow> nat \<Rightarrow> bool" where
  "min_ok s e \<longleftrightarrow> (\<forall>p \<in> set (min_constraints (dat s e)). const_freq (dm_cons s p) = min_lookup (tab s p) (eff_min (dat s e))
     \<and> const_min (dat s (dst s p)) = max_const s (min_drivers (dat s (dst s p))))"

definition max_ok :: "exynos_dm_device \<Rightarrow> nat \<Rightarrow> bool" where
  "max_ok s e \<longleftrightarrow> (\<forall>p \<in> set (max_constraints (dat s e)). const_freq (dm_cons s p) = max_lookup (tab s p) (lim_max (dat s e))
     \<and> const_max (dat s (dst s p)) = min_const s (max_drivers (dat s (dst s p))))"

lemma min_ok_alt: "lmin.up_to_date s e = min_ok s e"
  by (simp add: lmin.up_to_date_def lmin.agg_ok_def min_ok_def)

lemma max_ok_alt: "lmax.up_to_date s e = max_ok s e"
  by (simp add: lmax.up_to_date_def lmax.agg_ok_def max_ok_def)

text \<open>Upper limits come from the opposites of constraints for lower limits.\<close>

definition max_mirror :: "exynos_dm_device \<Rightarrow> bool" where
  "max_mirror s \<longleftrightarrow> (\<forall>i < length (dm_data s). \<forall>p \<in> set (max_constraints (dat s i)). (dst s p, i) \<in> min_edges s)"

lemma links_typeD:
  assumes "links_ok s" and "i < length (dm_data s)"
  shows "p \<in> set (min_constraints (dat s i)) \<Longrightarrow> constraint_type (dm_cons s p) = CONSTRAINT_MIN"
    "p \<in> set (max_constraints (dat s i)) \<Longrightarrow> constraint_type (dm_cons s p) = CONSTRAINT_MAX"
    "p \<in> set (min_drivers (dat s i)) \<Longrightarrow> constraint_type (dm_cons s p) = CONSTRAINT_MIN"
    "p \<in> set (max_drivers (dat s i)) \<Longrightarrow> constraint_type (dm_cons s p) = CONSTRAINT_MAX"
proof -
  have t: "k < length (dm_data s) \<Longrightarrow> p \<in> set (min_constraints (dat s k)) \<Longrightarrow> constraint_type (dm_cons s p) = CONSTRAINT_MIN"
    "k < length (dm_data s) \<Longrightarrow> p \<in> set (max_constraints (dat s k)) \<Longrightarrow> constraint_type (dm_cons s p) = CONSTRAINT_MAX" for k
    using assms(1) by (simp_all add: links_ok_def)
  show "p \<in> set (min_constraints (dat s i)) \<Longrightarrow> constraint_type (dm_cons s p) = CONSTRAINT_MIN"
    "p \<in> set (max_constraints (dat s i)) \<Longrightarrow> constraint_type (dm_cons s p) = CONSTRAINT_MAX" using t assms(2) by blast+
  note l = links_min_max [OF assms(1)]
  show "p \<in> set (min_drivers (dat s i)) \<Longrightarrow> constraint_type (dm_cons s p) = CONSTRAINT_MIN"
    using t(1) usable_nat(1) [OF link_relD(7) [OF l(1) assms(2)]] link_relD(8) [OF l(1) assms(2)] by blast
  show "p \<in> set (max_drivers (dat s i)) \<Longrightarrow> constraint_type (dm_cons s p) = CONSTRAINT_MAX"
    using t(2) usable_nat(1) [OF link_relD(7) [OF l(2) assms(2)]] link_relD(8) [OF l(2) assms(2)] by blast
qed

abbreviation ord :: "exynos_dm_device \<Rightarrow> nat \<Rightarrow> nat" where "ord s k \<equiv> nat (all_order s ! k)"

lemma orderedD:
  assumes "ordered s" and "k < length (all_order s)"
  shows "usable s (all_order s ! k)" "ord s k < length (dm_data s)" "int (ord s k) = all_order s ! k" "my_order (dat s (ord s k)) = int k"
    "p \<in> set (min_drivers (dat s (ord s k))) \<Longrightarrow> dm_driver (dm_cons s p) \<in> set (take k (all_order s))"
proof -
  show u: "usable s (all_order s ! k)" using assms by (simp add: ordered_def)
  then show "ord s k < length (dm_data s)" "int (ord s k) = all_order s ! k" using usable_nat [OF u] by simp_all
qed (use assms in \<open>simp_all add: ordered_def\<close>)

lemma ord_inj:
  assumes "ordered s" and "k < length (all_order s)" and "j < length (all_order s)" and "ord s k = ord s j"
  shows "k = j"
proof -
  have "all_order s ! k = all_order s ! j" using orderedD(3) [OF assms(1,2)] orderedD(3) [OF assms(1,3)] assms(4) by metis
  moreover have "distinct (all_order s)" using assms(1) by (simp add: ordered_def)
  ultimately show ?thesis using assms(2,3) nth_eq_iff_index_eq by blast
qed

lemma nth_notin_take_le: "distinct xs \<Longrightarrow> j \<le> k \<Longrightarrow> k < length xs \<Longrightarrow> xs ! k \<notin> set (take j xs)"
  by (auto simp: in_set_conv_nth nth_eq_iff_index_eq)

lemma min_targets:
  assumes ok: "links_ok s" "ordered s" and j: "j \<le> k" "k < length (all_order s)"
  shows "ord s j \<notin> lmin.targets s (ord s k)"
proof
  assume "ord s j \<in> lmin.targets s (ord s k)"
  then obtain p where p: "p \<in> set (min_constraints (dat s (ord s k)))" "dst s p = ord s j" by (auto simp: lmin.targets_def)
  note l = links_min_max(1) [OF ok(1)]
  have "p \<in> set (min_drivers (dat s (ord s j)))" using link_relD(5) [OF l orderedD(2) [OF ok(2) j(2)] p(1)] p(2) by simp
  moreover have "dm_driver (dm_cons s p) = all_order s ! k"
    using link_relD(3) [OF l orderedD(2) [OF ok(2) j(2)] p(1)] orderedD(3) [OF ok(2) j(2)] by simp
  ultimately have "all_order s ! k \<in> set (take j (all_order s))" using orderedD(5) [OF ok(2), of j p] j by simp
  then show False using nth_notin_take_le [OF _ j] ok(2) by (simp add: ordered_def)
qed

lemma max_targets:
  assumes ok: "max_mirror s" "ordered s" and k: "k \<le> j" "j < length (all_order s)"
  shows "ord s j \<notin> lmax.targets s (ord s k)"
proof
  assume "ord s j \<in> lmax.targets s (ord s k)"
  then obtain p where p: "p \<in> set (max_constraints (dat s (ord s k)))" "dst s p = ord s j" by (auto simp: lmax.targets_def)
  have k': "k < length (all_order s)" using k by simp
  note kk = orderedD [OF ok(2) k'] and jj = orderedD [OF ok(2) k(2)]
  have "(ord s j, ord s k) \<in> min_edges s" using ok(1) p kk(2) unfolding max_mirror_def by metis
  then obtain q where q: "q \<in> set (min_drivers (dat s (ord s k)))" "src s q = ord s j" by (auto simp: min_edges_def)
  have d: "dm_driver (dm_cons s q) \<in> set (take k (all_order s))" by (rule kk(5) [OF q(1)])
  then obtain m where m: "m < k" "dm_driver (dm_cons s q) = all_order s ! m" using k' by (auto simp: in_set_conv_nth)
  then have "ord s m = ord s j" using q(2) by simp
  then have "m = j" using ord_inj [OF ok(2) _ k(2), of m] m(1) k' by simp
  then show False using m(1) k(1) by simp
qed

lemma order_from_eq: "order_from (int j) s = drop j (all_order s)"
  by (simp add: order_from_def all_order_def)

lemma order_downto_eq:
  assumes "ordered s" and "j < length (all_order s)"
  shows "order_downto (int j) s = rev (take (Suc j) (all_order s))"
proof -
  have "nat (int j + 1) = Suc j" by simp
  moreover have "Suc j \<le> constraint_domain_count s" using assms(2) by (simp add: all_order_def)
  ultimately show ?thesis by (simp add: order_downto_def all_order_def min_absorb1)
qed

lemma set_drop_nth: "x \<in> set (drop j xs) \<longleftrightarrow> (\<exists>k. j \<le> k \<and> k < length xs \<and> x = xs ! k)"
proof
  assume "x \<in> set (drop j xs)"
  then obtain m where "m < length xs - j" "drop j xs ! m = x" by (metis in_set_conv_nth length_drop)
  then have "j \<le> j + m" "j + m < length xs" "x = xs ! (j + m)" by (simp_all add: less_diff_conv2)
  then show "\<exists>k. j \<le> k \<and> k < length xs \<and> x = xs ! k" by blast
next
  assume "\<exists>k. j \<le> k \<and> k < length xs \<and> x = xs ! k"
  then obtain k where k: "j \<le> k" "k < length xs" "x = xs ! k" by blast
  then have "drop j xs ! (k - j) = x" "k - j < length (drop j xs)" by simp_all
  then show "x \<in> set (drop j xs)" using nth_mem by blast
qed

lemma min_pass:
  assumes ok: "links_ok s" "ordered s" and j: "j < length (all_order s)"
  shows "\<exists>s'. visit_all min_visit (order_from (int j) s) s = Some s' \<and> frame_min s' = frame_min s
    \<and> (\<forall>k < length (all_order s). j \<le> k \<or> min_ok s (ord s k) \<longrightarrow> min_ok s' (ord s k))
    \<and> (\<forall>k \<le> j. const_min (dat s' (ord s k)) = const_min (dat s (ord s k)))
    \<and> (\<forall>q. constraint_type (dm_cons s q) = CONSTRAINT_MAX \<longrightarrow> const_freq (dm_cons s' q) = const_freq (dm_cons s q))"
proof -
  let ?xs = "drop j (all_order s)"
  have nth: "\<exists>k. j \<le> k \<and> k < length (all_order s) \<and> x = all_order s ! k" if "x \<in> set ?xs" for x
    using that by (simp add: set_drop_nth)
  have a: "\<forall>x \<in> set ?xs. usable s x \<and> nat x \<notin> lmin.targets s (nat x)"
  proof
    fix x
    assume "x \<in> set ?xs"
    then obtain k where "k < length (all_order s)" "x = all_order s ! k" using nth by blast
    then show "usable s x \<and> nat x \<notin> lmin.targets s (nat x)" using orderedD(1) [OF ok(2)] min_targets [OF ok order_refl] by simp
  qed
  have b: "sorted_wrt (\<lambda>x y. nat x \<noteq> nat y \<and> nat x \<notin> lmin.targets s (nat y)) ?xs"
    unfolding sorted_wrt_iff_nth_less
  proof (intro allI impI)
    fix a b
    assume "a < b" "b < length ?xs"
    then have "j + a < j + b" "j + b < length (all_order s)" by auto
    then show "nat (?xs ! a) \<noteq> nat (?xs ! b) \<and> nat (?xs ! a) \<notin> lmin.targets s (nat (?xs ! b))"
      using ord_inj [OF ok(2), of "j + a" "j + b"] min_targets [OF ok, of "j + a" "j + b"] by auto
  qed
  obtain s' where s': "visit_all min_visit ?xs s = Some s'" "frame_min s' = frame_min s" "\<forall>x \<in> set ?xs. lmin.up_to_date s' (nat x)"
    "\<forall>e < length (dm_data s). (\<forall>x \<in> set ?xs. e \<notin> lmin.targets s (nat x)) \<longrightarrow> lmin.up_to_date s e \<longrightarrow> lmin.up_to_date s' e"
    "\<forall>e < length (dm_data s). (\<forall>x \<in> set ?xs. e \<notin> lmin.targets s (nat x)) \<longrightarrow> const_min (dat s' e) = const_min (dat s e)"
    "\<forall>q. (\<forall>x \<in> set ?xs. q \<notin> set (min_constraints (dat s (nat x)))) \<longrightarrow> const_freq (dm_cons s' q) = const_freq (dm_cons s q)"
    using lmin.pass_up_to_date [OF ok(1) a b] by blast
  have nt: "\<forall>x \<in> set ?xs. ord s k \<notin> lmin.targets s (nat x)" if "k \<le> j" for k
  proof
    fix x
    assume "x \<in> set ?xs"
    then obtain m where "j \<le> m" "m < length (all_order s)" "x = all_order s ! m" using nth by blast
    then show "ord s k \<notin> lmin.targets s (nat x)" using min_targets [OF ok, of k m] that by simp
  qed
  have "min_ok s' (ord s k)" if k: "k < length (all_order s)" "j \<le> k \<or> min_ok s (ord s k)" for k
  proof (cases "j \<le> k")
    case True
    then have "all_order s ! k \<in> set ?xs" using k(1) unfolding set_drop_nth by blast
    then show ?thesis using s'(3) min_ok_alt by blast
  next
    case False
    then have "lmin.up_to_date s (ord s k)" "k \<le> j" using k(2) min_ok_alt by simp_all
    then show ?thesis using s'(4) nt orderedD(2) [OF ok(2) k(1)] min_ok_alt by blast
  qed
  moreover have "const_freq (dm_cons s' q) = const_freq (dm_cons s q)" if "constraint_type (dm_cons s q) = CONSTRAINT_MAX" for q
  proof -
    have "\<forall>x \<in> set ?xs. q \<notin> set (min_constraints (dat s (nat x)))" using nth links_typeD [OF ok(1) orderedD(2) [OF ok(2)]] that by fastforce
    then show ?thesis using s'(6) by blast
  qed
  moreover have "const_min (dat s' (ord s k)) = const_min (dat s (ord s k))" if "k \<le> j" for k
    using s'(5) nt [OF that] orderedD(2) [OF ok(2), of k] that j by simp
  ultimately show ?thesis using s'(1,2) by (auto simp: order_from_eq)
qed

lemma set_take_nth: "x \<in> set (take j xs) \<longleftrightarrow> (\<exists>k < length xs. k < j \<and> x = xs ! k)"
  by (auto simp: in_set_conv_nth)

lemma max_pass:
  assumes ok: "links_ok s" "ordered s" "max_mirror s" and j: "j < length (all_order s)"
  shows "\<exists>s'. visit_all max_visit (order_downto (int j) s) s = Some s' \<and> frame_max s' = frame_max s
    \<and> (\<forall>k < length (all_order s). k \<le> j \<or> max_ok s (ord s k) \<longrightarrow> max_ok s' (ord s k))
    \<and> (\<forall>k < length (all_order s). j \<le> k \<longrightarrow> const_max (dat s' (ord s k)) = const_max (dat s (ord s k)))
    \<and> (\<forall>q. constraint_type (dm_cons s q) = CONSTRAINT_MIN \<longrightarrow> const_freq (dm_cons s' q) = const_freq (dm_cons s q))"
proof -
  let ?ts = "take (Suc j) (all_order s)"
  have nth: "\<exists>k < length (all_order s). k \<le> j \<and> x = all_order s ! k" if "x \<in> set (rev ?ts)" for x
    using that by (auto simp: set_take_nth less_Suc_eq_le)
  have a: "\<forall>x \<in> set (rev ?ts). usable s x \<and> nat x \<notin> lmax.targets s (nat x)"
  proof
    fix x
    assume "x \<in> set (rev ?ts)"
    then obtain k where "k < length (all_order s)" "x = all_order s ! k" using nth by blast
    then show "usable s x \<and> nat x \<notin> lmax.targets s (nat x)" using orderedD(1) [OF ok(2)] max_targets [OF ok(3,2) order_refl] by simp
  qed
  have "sorted_wrt (\<lambda>y x. nat x \<noteq> nat y \<and> nat x \<notin> lmax.targets s (nat y)) ?ts"
    unfolding sorted_wrt_iff_nth_less
  proof (intro allI impI)
    fix a b
    assume "a < b" "b < length ?ts"
    then have "a < b" "b < length (all_order s)" "b < Suc j" by auto
    then show "nat (?ts ! b) \<noteq> nat (?ts ! a) \<and> nat (?ts ! b) \<notin> lmax.targets s (nat (?ts ! a))"
      using ord_inj [OF ok(2), of a b] max_targets [OF ok(3,2), of a b] by auto
  qed
  then have b: "sorted_wrt (\<lambda>x y. nat x \<noteq> nat y \<and> nat x \<notin> lmax.targets s (nat y)) (rev ?ts)" by (simp add: sorted_wrt_rev)
  obtain s' where s': "visit_all max_visit (rev ?ts) s = Some s'" "frame_max s' = frame_max s" "\<forall>x \<in> set (rev ?ts). lmax.up_to_date s' (nat x)"
    "\<forall>e < length (dm_data s). (\<forall>x \<in> set (rev ?ts). e \<notin> lmax.targets s (nat x)) \<longrightarrow> lmax.up_to_date s e \<longrightarrow> lmax.up_to_date s' e"
    "\<forall>e < length (dm_data s). (\<forall>x \<in> set (rev ?ts). e \<notin> lmax.targets s (nat x)) \<longrightarrow> const_max (dat s' e) = const_max (dat s e)"
    "\<forall>q. (\<forall>x \<in> set (rev ?ts). q \<notin> set (max_constraints (dat s (nat x)))) \<longrightarrow> const_freq (dm_cons s' q) = const_freq (dm_cons s q)"
    using lmax.pass_up_to_date [OF ok(1) a b] by blast
  have nt: "\<forall>x \<in> set (rev ?ts). ord s k \<notin> lmax.targets s (nat x)" if "j \<le> k" "k < length (all_order s)" for k
    using nth max_targets [OF ok(3,2) _ that(2)] that(1) by (metis order_trans)
  have "max_ok s' (ord s k)" if k: "k < length (all_order s)" "k \<le> j \<or> max_ok s (ord s k)" for k
  proof (cases "k \<le> j")
    case True
    then have "all_order s ! k \<in> set (rev ?ts)" using k(1) by (auto simp: set_take_nth less_Suc_eq_le)
    then show ?thesis using s'(3) max_ok_alt by blast
  next
    case False
    then show ?thesis using s'(4) nt [of k] orderedD(2) [OF ok(2) k(1)] k max_ok_alt by simp
  qed
  moreover have "const_freq (dm_cons s' q) = const_freq (dm_cons s q)" if "constraint_type (dm_cons s q) = CONSTRAINT_MIN" for q
  proof -
    have "\<forall>x \<in> set (rev ?ts). q \<notin> set (max_constraints (dat s (nat x)))" using nth links_typeD [OF ok(1) orderedD(2) [OF ok(2)]] that by fastforce
    then show ?thesis using s'(6) by blast
  qed
  moreover have "const_max (dat s' (ord s k)) = const_max (dat s (ord s k))" if "j \<le> k" "k < length (all_order s)" for k
    using s'(5) nt [OF that] orderedD(2) [OF ok(2), of k] that by simp
  ultimately show ?thesis using s'(1,2) by (auto simp: order_downto_eq [OF ok(2) j])
qed

subsection \<open>What one loop leaves of the other kind\<close>

lemma max_ok_after_min:
  assumes ok: "links_ok s" and fr: "frame_min s' = frame_min s" and q: "\<forall>q. constraint_type (dm_cons s q) = CONSTRAINT_MAX \<longrightarrow> const_freq (dm_cons s' q) = const_freq (dm_cons s q)"
    and e: "e < length (dm_data s)" "max_ok s e"
  shows "max_ok s' e"
proof -
  note st = frame_static(1) [OF fr] and l = links_min_max(2) [OF ok]
  note f = frame_field(1) [OF fr]
  have "lim_max (dat s' e) = lim_max (dat s e)" using f [OF e(1), of policy_max] f [OF e(1), of const_max] by (simp add: lim_max_def)
  moreover have "min_const s' (max_drivers (dat s c)) = min_const s (max_drivers (dat s c))" if "c < length (dm_data s)" for c
    by (rule agg_congs(2)) (use q links_typeD(4) [OF ok that] in blast)
  moreover have "dst s p < length (dm_data s)" if "p \<in> set (max_constraints (dat s e))" for p
    using link_relD(4) [OF l e(1) that] usable_nat(1) by blast
  moreover have "constraint_type (dm_cons s p) = CONSTRAINT_MAX" if "p \<in> set (max_constraints (dat s e))" for p
    using links_typeD [OF ok e(1)] that by blast
  ultimately show ?thesis
    using e q static_cons [OF st] static_fields [OF st] f [where f = const_max] by (simp add: max_ok_def tab_def)
qed

lemma min_ok_after_max:
  assumes ok: "links_ok s" and fr: "frame_max s' = frame_max s" and q: "\<forall>q. constraint_type (dm_cons s q) = CONSTRAINT_MIN \<longrightarrow> const_freq (dm_cons s' q) = const_freq (dm_cons s q)"
    and e: "e < length (dm_data s)" "min_ok s e" "eff_min (dat s' e) = eff_min (dat s e)"
  shows "min_ok s' e"
proof -
  note st = frame_static(2) [OF fr] and l = links_min_max(1) [OF ok]
  note f = frame_field(2) [OF fr]
  have "max_const s' (min_drivers (dat s c)) = max_const s (min_drivers (dat s c))" if "c < length (dm_data s)" for c
    by (rule agg_congs(1)) (use q links_typeD(3) [OF ok that] in blast)
  moreover have "dst s p < length (dm_data s)" if "p \<in> set (min_constraints (dat s e))" for p
    using link_relD(4) [OF l e(1) that] usable_nat(1) by blast
  moreover have "constraint_type (dm_cons s p) = CONSTRAINT_MIN" if "p \<in> set (min_constraints (dat s e))" for p
    using links_typeD [OF ok e(1)] that by blast
  ultimately show ?thesis
    using e q static_cons [OF st] static_fields [OF st] f [where f = const_min] by (simp add: min_ok_def tab_def)
qed

subsection \<open>A change of policy\<close>

text \<open>No lower limit is above the upper one, and upper limits are positive as signed integers.\<close>

definition in_limits :: "exynos_dm_data \<Rightarrow> bool" where
  "in_limits d \<longleftrightarrow> lim_min d \<le> lim_max d \<and> lim_max d < 0x80000000"

definition unclipped :: "exynos_dm_device \<Rightarrow> bool" where
  "unclipped s \<longleftrightarrow> (\<forall>k < length (all_order s). in_limits (dat s (ord s k)))"

lemma sint_small_u32: "(x :: u32) < 0x80000000 \<Longrightarrow> sint x = uint x"
proof -
  assume "x < 0x80000000"
  then have "uint x < 2 ^ 31" by (simp add: word_less_def)
  moreover have "- (2 ^ 31) \<le> uint x" by (rule order_trans [of _ 0]) simp_all
  ultimately show ?thesis using signed_take_bit_int_eq_self [of 31 "uint x"] by (simp add: sint_uint)
qed

lemma eff_min_in_limits: "in_limits d \<Longrightarrow> eff_min d = lim_min d"
proof -
  assume a: "in_limits d"
  then have "lim_min d < 0x80000000" by (auto simp: in_limits_def)
  then show ?thesis using a by (simp add: in_limits_def eff_min_def sint_small_u32 word_le_def)
qed

lemma min_stage:
  assumes ok: "links_ok s" "ordered s" and j: "j < length (all_order s)"
  shows "\<exists>s'. (if b then visit_all min_visit (order_from (int j) s) s else Some s) = Some s' \<and> frame_min s' = frame_min s
    \<and> (\<forall>k < length (all_order s). b \<and> k = j \<or> min_ok s (ord s k) \<longrightarrow> min_ok s' (ord s k))
    \<and> (\<forall>k \<le> j. const_min (dat s' (ord s k)) = const_min (dat s (ord s k)))
    \<and> (\<forall>q. constraint_type (dm_cons s q) = CONSTRAINT_MAX \<longrightarrow> const_freq (dm_cons s' q) = const_freq (dm_cons s q))"
  using min_pass [OF assms] by (cases b) (simp, blast, simp)

lemma max_stage:
  assumes ok: "links_ok s" "ordered s" "max_mirror s" and j: "j < length (all_order s)"
  shows "\<exists>s'. (if b then visit_all max_visit (order_downto (int j) s) s else Some s) = Some s' \<and> frame_max s' = frame_max s
    \<and> (\<forall>k < length (all_order s). b \<and> k = j \<or> max_ok s (ord s k) \<longrightarrow> max_ok s' (ord s k))
    \<and> (\<forall>k < length (all_order s). j \<le> k \<longrightarrow> const_max (dat s' (ord s k)) = const_max (dat s (ord s k)))
    \<and> (\<forall>q. constraint_type (dm_cons s q) = CONSTRAINT_MIN \<longrightarrow> const_freq (dm_cons s' q) = const_freq (dm_cons s q))"
  using max_pass [OF assms] by (cases b) (simp, blast, simp)

lemma static_ordered:
  assumes "static s' = static s" and "links_ok s"
  shows "ordered s \<Longrightarrow> ordered s'" "max_mirror s \<Longrightarrow> max_mirror s'"
proof -
  note f = static_fields [OF assms(1)] and c = static_cons [OF assms(1)] and n = static_data(1) [OF assms(1)]
  show "ordered s \<Longrightarrow> ordered s'"
    unfolding ordered_def static_order [OF assms(1)] static_data(4,5) [OF assms(1)] static_usable [OF assms(1)]
    using f c usable_nat(1) by simp
  have "min_edges s' = min_edges s" by (rule min_edges_same) (use n f c in auto)
  then show "max_mirror s \<Longrightarrow> max_mirror s'" using f c n by (simp add: max_mirror_def)
qed

lemma policy_propagate_ok:
  assumes ok: "links_ok s" "ordered s" "max_mirror s" and j: "j < length (all_order s)"
  defines "i \<equiv> ord s j"
  shows "\<exists>s'. policy_propagate i pm px s = Some s' \<and> static s' = static s
    \<and> (\<forall>c < length (dm_data s). policy_min (dat s' c) = policy_min (dat s c) \<and> policy_max (dat s' c) = policy_max (dat s c) \<and> cur_freq (dat s' c) = cur_freq (dat s c))
    \<and> const_min (dat s' i) = const_min (dat s i) \<and> const_max (dat s' i) = const_max (dat s i)
    \<and> (\<forall>k < length (all_order s). k = j \<and> lim_max (dat s i) \<noteq> px \<or> max_ok s (ord s k) \<longrightarrow> max_ok s' (ord s k))
    \<and> ((\<forall>k < j. in_limits (dat s (ord s k))) \<longrightarrow> unclipped s' \<longrightarrow>
        (\<forall>k < length (all_order s). k = j \<and> min (lim_min (dat s i)) (lim_max (dat s i)) \<noteq> pm \<or> min_ok s (ord s k) \<longrightarrow> min_ok s' (ord s k)))"
proof -
  let ?b = "min (lim_min (dat s i)) (lim_max (dat s i)) \<noteq> pm" and ?c = "lim_max (dat s i) \<noteq> px"
  have my: "my_order (dat s i) = int j" using orderedD(4) [OF ok(2) j] by (simp add: i_def)
  obtain s1 where s1: "(if ?b then visit_all min_visit (order_from (int j) s) s else Some s) = Some s1" "frame_min s1 = frame_min s"
    "\<forall>k < length (all_order s). ?b \<and> k = j \<or> min_ok s (ord s k) \<longrightarrow> min_ok s1 (ord s k)"
    "\<forall>k \<le> j. const_min (dat s1 (ord s k)) = const_min (dat s (ord s k))"
    "\<forall>q. constraint_type (dm_cons s q) = CONSTRAINT_MAX \<longrightarrow> const_freq (dm_cons s1 q) = const_freq (dm_cons s q)"
    using min_stage [OF ok(1,2) j, of ?b] by blast
  note st1 = frame_static(1) [OF s1(2)]
  note o1 = static_order(1) [OF st1] and l1 = static_links [OF st1 ok(1)] and n1 = static_data(1) [OF st1]
  obtain s' where s': "(if ?c then visit_all max_visit (order_downto (int j) s1) s1 else Some s1) = Some s'" "frame_max s' = frame_max s1"
    "\<forall>k < length (all_order s). ?c \<and> k = j \<or> max_ok s1 (ord s k) \<longrightarrow> max_ok s' (ord s k)"
    "\<forall>k < length (all_order s). j \<le> k \<longrightarrow> const_max (dat s' (ord s k)) = const_max (dat s1 (ord s k))"
    "\<forall>q. constraint_type (dm_cons s1 q) = CONSTRAINT_MIN \<longrightarrow> const_freq (dm_cons s' q) = const_freq (dm_cons s1 q)"
    using max_stage [OF l1 static_ordered [OF st1 ok(1)], of j ?c] ok(2,3) j unfolding o1 by blast
  note st' = frame_static(2) [OF s'(2)]
  have f1: "policy_min (dat s1 c) = policy_min (dat s c)" "policy_max (dat s1 c) = policy_max (dat s c)" "const_max (dat s1 c) = const_max (dat s c)" "cur_freq (dat s1 c) = cur_freq (dat s c)"
    if "c < length (dm_data s)" for c by (auto intro!: frame_field(1) [OF s1(2) that])
  have f2: "policy_min (dat s' c) = policy_min (dat s1 c)" "policy_max (dat s' c) = policy_max (dat s1 c)" "const_min (dat s' c) = const_min (dat s1 c)" "cur_freq (dat s' c) = cur_freq (dat s1 c)"
    if "c < length (dm_data s)" for c using that n1 by (auto intro!: frame_field(2) [OF s'(2)])
  have ol: "ord s k < length (dm_data s)" if "k < length (all_order s)" for k by (rule orderedD(2) [OF ok(2) that])
  have mx: "max_ok s' (ord s k)" if k: "k < length (all_order s)" "k = j \<and> ?c \<or> max_ok s (ord s k)" for k
    using s'(3) k max_ok_after_min [OF ok(1) s1(2,5) ol [OF k(1)]] by blast
  have mn: "min_ok s' (ord s k)"
    if lims: "\<forall>k < j. in_limits (dat s (ord s k))" "unclipped s'" and k: "k < length (all_order s)" "k = j \<and> ?b \<or> min_ok s (ord s k)" for k
  proof -
    let ?e = "ord s k"
    have m1: "min_ok s1 ?e" using s1(3) k by blast
    have lm: "lim_min (dat s' ?e) = lim_min (dat s1 ?e)" using f2 [OF ol [OF k(1)]] by (simp add: lim_min_def)
    have "eff_min (dat s' ?e) = eff_min (dat s1 ?e)"
    proof (cases "j \<le> k")
      case True
      then show ?thesis using s'(4) k(1) f2 [OF ol [OF k(1)]] by (simp add: eff_min_def lim_min_def lim_max_def)
    next
      case False
      then have "in_limits (dat s ?e)" using lims(1) by simp
      then have "in_limits (dat s1 ?e)" using s1(4) False f1 [OF ol [OF k(1)]] by (simp add: in_limits_def lim_min_def lim_max_def)
      moreover have "in_limits (dat s' ?e)" using lims(2) k(1) static_order(1) [OF st'] o1 by (simp add: unclipped_def)
      ultimately show ?thesis using lm by (simp add: eff_min_in_limits)
    qed
    then show ?thesis using min_ok_after_max [OF l1 s'(2,5)] ol [OF k(1)] n1 m1 by simp
  qed
  have "policy_propagate i pm px s = Some s'" by (simp only: policy_propagate_def Let_def my s1(1) option.case s'(1))
  moreover have "const_min (dat s' i) = const_min (dat s i)" "const_max (dat s' i) = const_max (dat s i)"
    using s1(4) s'(4) f1 f2 ol [OF j] j by (simp_all add: i_def)
  ultimately show ?thesis using st1 st' f1 f2 mx mn by (intro exI [of _ s']) simp
qed

lemma static_policy: "static (upd_dom i (\<lambda>x. x\<lparr>policy_max := mx, policy_min := mn\<rparr>) s) = static s" "static (s\<lparr>fvp_log := l\<rparr>) = static s"
  using map_update_absorb [of still "\<lambda>x. x\<lparr>policy_max := mx, policy_min := mn\<rparr>" "dm_data s" i] by (simp_all add: static_def upd_dom_def still_def)

lemma policy_step_ok:
  assumes i: "i < length (dm_data s)" and s2: "s2 = (upd_dom i (\<lambda>x. x\<lparr>policy_max := mx, policy_min := mn\<rparr>) s)\<lparr>fvp_log := l\<rparr>" and e: "e < length (dm_data s)" and ok: "links_ok s"
  shows "e \<noteq> i \<or> lim_max (dat s2 i) = lim_max (dat s i) \<or> max_constraints (dat s i) = [] \<Longrightarrow> max_ok s e \<Longrightarrow> max_ok s2 e"
    "e \<noteq> i \<or> eff_min (dat s2 i) = eff_min (dat s i) \<or> min_constraints (dat s i) = [] \<Longrightarrow> min_ok s e \<Longrightarrow> min_ok s2 e"
proof -
  have d: "dat s2 c = (if c = i then (dat s i)\<lparr>policy_max := mx, policy_min := mn\<rparr> else dat s c)" if "c < length (dm_data s)" for c
    using that by (simp add: s2)
  have c: "dm_cons s2 = dm_cons s" by (simp add: s2)
  have t: "dst s p < length (dm_data s)" if "p \<in> set (min_constraints (dat s e)) \<union> set (max_constraints (dat s e))" for p
    using con_target_ok(2) [OF ok e that] .
  show "e \<noteq> i \<or> lim_max (dat s2 i) = lim_max (dat s i) \<or> max_constraints (dat s i) = [] \<Longrightarrow> max_ok s e \<Longrightarrow> max_ok s2 e"
    using d [OF e] d t by (cases "e = i") (auto simp: max_ok_def c tab_def min_const_def)
  show "e \<noteq> i \<or> eff_min (dat s2 i) = eff_min (dat s i) \<or> min_constraints (dat s i) = [] \<Longrightarrow> min_ok s e \<Longrightarrow> min_ok s2 e"
    using d [OF e] d t by (cases "e = i") (auto simp: min_ok_def c tab_def max_const_def)
qed

lemma policy_update_unfold:
  assumes i: "i < length (dm_data s)" and fvp: "policy_use (dat s i) \<longrightarrow> fvp = (0, 0)" and change: "mn \<noteq> 0 \<or> mx \<noteq> 0" "\<not> (policy_max (dat s i) = mx \<and> policy_min (dat s i) = mn)"
  defines "mn' \<equiv> if mn = 0 then policy_min (dat s i) else mn" and "mx' \<equiv> if mx = 0 then policy_max (dat s i) else mx"
  shows "\<exists>l s2. s2 = (upd_dom i (\<lambda>x. x\<lparr>policy_max := mx', policy_min := mn'\<rparr>) s)\<lparr>fvp_log := l\<rparr>
    \<and> policy_update_call_to_DM fvp (int i) mn mx s =
       (if list_empty (dat s i) (min_constraints (dat s i)) \<and> list_empty (dat s i) (max_constraints (dat s i)) then Some (0, s2)
        else map_option (\<lambda>s3. (0, s3)) (policy_propagate i (lim_min (dat s i)) (lim_max (dat s i)) s2))"
proof -
  let ?s1 = "upd_dom i (\<lambda>x. x\<lparr>policy_max := mx', policy_min := mn'\<rparr>) s"
  define l where "l = (if policy_use (dat s i) then fvp_log ?s1 @ [(cal_id (dat s i) AND 0xFFFF, mx', 4)] else fvp_log ?s1)"
  have c: "(if policy_use (dat s i) \<and> fst fvp = 0 then ?s1\<lparr>fvp_log := fvp_log ?s1 @ [(cal_id (dat s i) AND 0xFFFF, mx', 4)]\<rparr> else ?s1) = ?s1\<lparr>fvp_log := l\<rparr>"
    using fvp by (simp add: l_def)
  have ix: "idx_ok s (int i) = True" and a: "(mx = 0 \<and> mn = 0) = False" and b: "(policy_use (dat s i) \<and> (fst fvp \<noteq> 0 \<or> snd fvp \<noteq> 0)) = False"
    and d: "(policy_max (dat s i) = mx \<and> policy_min (dat s i) = mn) = False"
    using i fvp change by (auto simp: idx_ok_def)
  show ?thesis
    by (intro exI [of _ l] exI [of _ "?s1\<lparr>fvp_log := l\<rparr>"] conjI refl)
      (simp only: policy_update_call_to_DM_def Let_def nat_int ix a b d not_True_eq_False if_False mn'_def [symmetric] mx'_def [symmetric] c)
qed

lemma policy_change_ok:
  assumes ok: "links_ok s" "ordered s" "max_mirror s" and j: "j < length (all_order s)" and fvp: "policy_use (dat s (ord s j)) \<longrightarrow> fvp = (0, 0)"
    and change: "mn \<noteq> 0 \<or> mx \<noteq> 0" "\<not> (policy_max (dat s (ord s j)) = mx \<and> policy_min (dat s (ord s j)) = mn)"
  defines "i \<equiv> ord s j"
  shows "\<exists>s'. policy_update_call_to_DM fvp (int i) mn mx s = Some (0, s') \<and> static s' = static s
    \<and> (mn \<noteq> 0 \<or> mx \<noteq> 0 \<longrightarrow> policy_min (dat s' i) = (if mn = 0 then policy_min (dat s i) else mn) \<and> policy_max (dat s' i) = (if mx = 0 then policy_max (dat s i) else mx))
    \<and> (\<forall>k < length (all_order s). max_ok s (ord s k) \<longrightarrow> max_ok s' (ord s k))
    \<and> (unclipped s \<longrightarrow> unclipped s' \<longrightarrow> (\<forall>k < length (all_order s). min_ok s (ord s k) \<longrightarrow> min_ok s' (ord s k)))"
proof -
  have i: "i < length (dm_data s)" using orderedD(2) [OF ok(2) j] by (simp add: i_def)
  let ?mn = "if mn = 0 then policy_min (dat s i) else mn" and ?mx = "if mx = 0 then policy_max (dat s i) else mx"
  obtain l s2 where s2: "s2 = (upd_dom i (\<lambda>x. x\<lparr>policy_max := ?mx, policy_min := ?mn\<rparr>) s)\<lparr>fvp_log := l\<rparr>"
    and call: "policy_update_call_to_DM fvp (int i) mn mx s = (if list_empty (dat s i) (min_constraints (dat s i)) \<and> list_empty (dat s i) (max_constraints (dat s i)) then Some (0, s2)
      else map_option (\<lambda>s3. (0, s3)) (policy_propagate i (lim_min (dat s i)) (lim_max (dat s i)) s2))"
    using policy_update_unfold [OF i fvp [folded i_def] change(1) change(2) [folded i_def]] by blast
  have st: "static s2 = static s" unfolding s2 static_policy(2) by (rule static_policy(1))
  note so = static_ordered [OF st ok(1)] and o2 = static_order(1) [OF st]
  have d: "dat s2 i = (dat s i)\<lparr>policy_max := ?mx, policy_min := ?mn\<rparr>" "k \<noteq> i \<Longrightarrow> k < length (dm_data s) \<Longrightarrow> dat s2 k = dat s k" for k using i by (simp_all add: s2)
  have ol: "ord s k < length (dm_data s)" if "k < length (all_order s)" for k by (rule orderedD(2) [OF ok(2) that])
  have ne: "ord s k \<noteq> i" if "k < length (all_order s)" "k \<noteq> j" for k using ord_inj [OF ok(2) that(1) j] that(2) by (auto simp: i_def)
  note step = policy_step_ok [OF i s2 _ ok(1)]
  show ?thesis
  proof (cases "list_empty (dat s i) (min_constraints (dat s i)) \<and> list_empty (dat s i) (max_constraints (dat s i))")
    case True
    then have "max_constraints (dat s i) = []" "min_constraints (dat s i) = []" by (simp_all add: list_empty_def)
    then show ?thesis using call True st d step ol by auto
  next
    case nonempty: False
    obtain s' where s': "policy_propagate i (lim_min (dat s i)) (lim_max (dat s i)) s2 = Some s'" "static s' = static s2"
      "\<forall>c < length (dm_data s2). policy_min (dat s' c) = policy_min (dat s2 c) \<and> policy_max (dat s' c) = policy_max (dat s2 c) \<and> cur_freq (dat s' c) = cur_freq (dat s2 c)"
      "const_min (dat s' i) = const_min (dat s2 i)" "const_max (dat s' i) = const_max (dat s2 i)"
      "\<forall>k < length (all_order s). k = j \<and> lim_max (dat s2 i) \<noteq> lim_max (dat s i) \<or> max_ok s2 (ord s k) \<longrightarrow> max_ok s' (ord s k)"
      "(\<forall>k < j. in_limits (dat s2 (ord s k))) \<longrightarrow> unclipped s' \<longrightarrow>
        (\<forall>k < length (all_order s). k = j \<and> min (lim_min (dat s2 i)) (lim_max (dat s2 i)) \<noteq> lim_min (dat s i) \<or> min_ok s2 (ord s k) \<longrightarrow> min_ok s' (ord s k))"
      using policy_propagate_ok [OF static_links [OF st ok(1)] so(1) [OF ok(2)] so(2) [OF ok(3)], of j] j unfolding o2 i_def by blast
    have n2: "length (dm_data s2) = length (dm_data s)" by (rule static_data(1) [OF st])
    have "max_ok s' (ord s k)" if k: "k < length (all_order s)" "max_ok s (ord s k)" for k
      using s'(6) step(1) [OF ol [OF k(1)]] ne k by (metis i_def)
    moreover have "min_ok s' (ord s k)" if u: "unclipped s" "unclipped s'" and k: "k < length (all_order s)" "min_ok s (ord s k)" for k
    proof -
      have "\<forall>m < j. in_limits (dat s2 (ord s m))" using u(1) j ne d(2) ol by (simp add: unclipped_def)
      note m = s'(7) [rule_format, OF this [rule_format] u(2) k(1)]
      have "in_limits (dat s' i)" using u(2) j static_order(1) [OF s'(2)] o2 by (simp add: unclipped_def i_def)
      then have il: "in_limits (dat s2 i)" using s'(3-5) i n2 by (simp add: in_limits_def lim_min_def lim_max_def)
      have is0: "in_limits (dat s i)" using u(1) j by (simp add: unclipped_def i_def)
      show ?thesis
      proof (cases "k = j \<and> min (lim_min (dat s2 i)) (lim_max (dat s2 i)) \<noteq> lim_min (dat s i)")
        case True
        then show ?thesis using m by blast
      next
        case False
        then have "ord s k \<noteq> i \<or> eff_min (dat s2 i) = eff_min (dat s i)"
          using ne k(1) eff_min_in_limits [OF il] eff_min_in_limits [OF is0] il by (auto simp: in_limits_def min_def)
        then show ?thesis using m step(2) [OF ol [OF k(1)]] k(2) by blast
      qed
    qed
    moreover have "policy_update_call_to_DM fvp (int i) mn mx s = Some (0, s')" using call nonempty s'(1) by simp
    ultimately show ?thesis using st s'(2,3) i n2 d(1) by (intro exI [of _ s']) simp
  qed
qed

lemma policy_update_ok:
  assumes ok: "links_ok s" "ordered s" "max_mirror s" and j: "j < length (all_order s)" and fvp: "policy_use (dat s (ord s j)) \<longrightarrow> fvp = (0, 0)"
  defines "i \<equiv> ord s j"
  shows "\<exists>s'. policy_update_call_to_DM fvp (int i) mn mx s = Some (0, s') \<and> static s' = static s
    \<and> (mn \<noteq> 0 \<or> mx \<noteq> 0 \<longrightarrow> policy_min (dat s' i) = (if mn = 0 then policy_min (dat s i) else mn) \<and> policy_max (dat s' i) = (if mx = 0 then policy_max (dat s i) else mx))
    \<and> (\<forall>k < length (all_order s). max_ok s (ord s k) \<longrightarrow> max_ok s' (ord s k))
    \<and> (unclipped s \<longrightarrow> unclipped s' \<longrightarrow> (\<forall>k < length (all_order s). min_ok s (ord s k) \<longrightarrow> min_ok s' (ord s k)))"
proof (cases "(mn \<noteq> 0 \<or> mx \<noteq> 0) \<and> \<not> (policy_max (dat s i) = mx \<and> policy_min (dat s i) = mn)")
  case True
  then show ?thesis unfolding i_def by (intro policy_change_ok [OF ok j fvp]) blast+
next
  case False
  have "i < length (dm_data s)" using orderedD(2) [OF ok(2) j] by (simp add: i_def)
  then have "idx_ok s (int i)" unfolding idx_ok_def by simp
  then have "policy_update_call_to_DM fvp (int i) mn mx s = Some (0, s)" using False unfolding policy_update_call_to_DM_def Let_def by auto
  then show ?thesis using False by auto
qed

end
