(* ===== verification/DmCall.thy ===== *)
theory DmCall
  imports DmPolicy
begin

text \<open>
  Scaling. A call goes through the domains in order and lowers frequencies, then backwards and raises
  them. \<open>meets s c p\<close> says that the frequencies \<open>c\<close> satisfy the constraint \<open>p\<close>, as far as the upper limit of the
  constrained domain allows. When the tables fall and the scaling functions succeed, a constraint that was
  satisfied stays so after each single change of a frequency, and all are satisfied at the end.
\<close>

subsection \<open>Tables\<close>

definition falling :: "exynos_dm_freq list \<Rightarrow> bool" where
  "falling tb \<longleftrightarrow> sorted_wrt (\<lambda>a b. constraint_freq b \<le> constraint_freq a) tb"

lemma scan_down_Some: "scan_down tb f n = Some i \<Longrightarrow> i < n \<and> f \<le> driver_freq (tb ! i) \<and> (\<forall>k < n. i < k \<longrightarrow> driver_freq (tb ! k) < f)"
  by (induction n) (auto split: if_splits simp: less_Suc_eq not_le)

lemma scan_down_None: "scan_down tb f n = None \<Longrightarrow> k < n \<Longrightarrow> driver_freq (tb ! k) < f"
  by (induction n) (auto split: if_splits simp: less_Suc_eq not_le)

lemma min_row_less: "tb \<noteq> [] \<Longrightarrow> min_row tb f < length tb"
  by (auto simp: min_row_def split: option.splits dest!: scan_down_Some)

lemma min_row_mono:
  assumes "f \<le> g"
  shows "min_row tb g \<le> min_row tb f"
proof (cases "scan_down tb g (length tb)")
  case (Some i)
  note g = scan_down_Some [OF Some]
  obtain k where k: "scan_down tb f (length tb) = Some k" using g assms scan_down_None [of tb f "length tb" i] by (cases "scan_down tb f (length tb)") auto
  have "i \<le> k" using scan_down_Some [OF k] g assms by (meson leD leI order_trans)
  then show ?thesis using Some k by (simp add: min_row_def)
qed (simp add: min_row_def)

lemma min_lookup_mono:
  assumes "falling tb" and "tb \<noteq> []" and "f \<le> g"
  shows "min_lookup tb f \<le> min_lookup tb g"
proof (cases "min_row tb g = min_row tb f")
  case False
  then have "min_row tb g < min_row tb f" using min_row_mono [OF assms(3), of tb] by simp
  then show ?thesis using assms(1) min_row_less [OF assms(2), of f] sorted_wrt_nth_less unfolding falling_def min_lookup_def by fastforce
qed (simp add: min_lookup_def)

lemma foldl_max_ge: "(a :: u32) \<le> foldl (\<lambda>m t. max (g t) m) a ts"
  by (induction ts arbitrary: a) (auto intro: order_trans [OF max.cobounded2])

lemma max_gov_ge: "p \<in> set ts \<Longrightarrow> gov_freq (dm_cons s p) \<le> max_gov s ts"
  unfolding max_gov_def
proof (induction ts arbitrary: rule: rev_induct)
  case (snoc t ts)
  then show ?case by (auto simp: le_max_iff_disj)
qed simp

subsection \<open>Single visits\<close>

definition frame_call :: "exynos_dm_device \<Rightarrow> exynos_dm_device" where
  "frame_call s = s\<lparr>dm_data := map (\<lambda>d. d\<lparr>gov_min := 0, cur_freq := 0, next_target_freq := 0\<rparr>) (dm_data s), dm_cons := \<lambda>p. (dm_cons s p)\<lparr>gov_freq := 0\<rparr>, dm_log := []\<rparr>"

lemma frame_call_static: "frame_call s' = frame_call s \<Longrightarrow> static s' = static s"
proof -
  have "static (frame_call x) = static x" for x by (simp add: static_def frame_call_def still_def comp_def)
  then show "frame_call s' = frame_call s \<Longrightarrow> static s' = static s" by metis
qed

lemma frame_call_field:
  assumes "frame_call s' = frame_call s" and "i < length (dm_data s)" and "\<And>d. f (d\<lparr>gov_min := 0, cur_freq := 0, next_target_freq := 0\<rparr>) = f d"
  shows "f (dat s' i) = f (dat s i)"
proof -
  let ?h = "\<lambda>d. d\<lparr>gov_min := 0, cur_freq := 0, next_target_freq := 0\<rparr>"
  have "map ?h (dm_data s') = map ?h (dm_data s)" using arg_cong [OF assms(1), where f = dm_data] by (simp add: frame_call_def)
  from map_eq_nth [OF this assms(2)] show ?thesis using assms(3) by metis
qed

lemma frame_call_lim_max: "frame_call s' = frame_call s \<Longrightarrow> i < length (dm_data s) \<Longrightarrow> lim_max (dat s' i) = lim_max (dat s i)"
  by (rule frame_call_field) (simp_all add: lim_max_def)

lemma frame_call_upd:
  "frame_call (upd_dom i (\<lambda>d. d\<lparr>next_target_freq := v d\<rparr>) s) = frame_call s" "frame_call (upd_dom i (\<lambda>d. d\<lparr>cur_freq := v d\<rparr>) s) = frame_call s"
  "frame_call (s\<lparr>dm_log := l\<rparr>) = frame_call s"
proof -
  let ?h = "\<lambda>d. d\<lparr>gov_min := 0, cur_freq := 0, next_target_freq := 0\<rparr>"
  show "frame_call (upd_dom i (\<lambda>d. d\<lparr>next_target_freq := v d\<rparr>) s) = frame_call s"
    using map_update_absorb [of ?h "\<lambda>d. d\<lparr>next_target_freq := v d\<rparr>" "dm_data s" i] by (simp add: frame_call_def upd_dom_def)
  show "frame_call (upd_dom i (\<lambda>d. d\<lparr>cur_freq := v d\<rparr>) s) = frame_call s"
    using map_update_absorb [of ?h "\<lambda>d. d\<lparr>cur_freq := v d\<rparr>" "dm_data s" i] by (simp add: frame_call_def upd_dom_def)
qed (simp add: frame_call_def)

lemma frame_gov_call: "frame_gov s' = frame_gov s \<Longrightarrow> frame_call s' = frame_call s \<and> dm_log s' = dm_log s"
proof -
  assume a: "frame_gov s' = frame_gov s"
  have c: "frame_call (frame_gov x) = frame_call x" for x by (simp add: frame_call_def frame_gov_def comp_def)
  have "frame_call s' = frame_call s" using c [of s'] c [of s] a by simp
  moreover have "dm_log s' = dm_log s" using arg_cong [OF a, where f = dm_log] by (simp add: frame_gov_def)
  ultimately show ?thesis by simp
qed

lemma scale_ok:
  assumes "\<forall>k. res k = 0" and "i < length (dm_data s)"
  shows "\<exists>s'. scale res rel i s = (s', 0) \<and> frame_call s' = frame_call s \<and> dm_log s' = dm_log s @ [(i, next_target_freq (dat s i), rel)] \<and> dm_cons s' = dm_cons s
    \<and> (\<forall>c < length (dm_data s). dat s' c = (if c = i then (dat s c)\<lparr>cur_freq := next_target_freq (dat s c)\<rparr> else dat s c))"
  using assms by (simp add: scale_def Let_def frame_call_upd)

lemma down_visit_ok:
  assumes ok: "links_ok s" and x: "usable s x" and res: "\<forall>k. res k = 0" and sc: "freq_scaler (dat s (nat x)) \<noteq> None"
  defines "d \<equiv> nat x" and "nt \<equiv> next_target (dat s (nat x))"
  shows "\<exists>s'. down_visit res rel x (s, 0) = Some (s', 0) \<and> frame_call s' = frame_call s
    \<and> dm_log s' = dm_log s @ (if nt < cur_freq (dat s d) then [(d, nt, rel)] else [])
    \<and> (\<forall>c < length (dm_data s). next_target_freq (dat s' c) = (if c = d then nt else next_target_freq (dat s c))
         \<and> cur_freq (dat s' c) = (if c = d then min (cur_freq (dat s c)) nt else cur_freq (dat s c))
         \<and> (lgov.agg_ok s c \<longrightarrow> lgov.agg_ok s' c) \<and> (c \<notin> lgov.targets s d \<longrightarrow> gov_min (dat s' c) = gov_min (dat s c)))
    \<and> (\<forall>p \<in> set (min_constraints (dat s d)). gov_freq (dm_cons s' p) = min_lookup (tab s p) nt \<and> lgov.agg_ok s' (dst s p))
    \<and> (\<forall>q. q \<notin> set (min_constraints (dat s d)) \<longrightarrow> gov_freq (dm_cons s' q) = gov_freq (dm_cons s q))"
proof -
  have d: "d < length (dm_data s)" and dt: "nat (dm_type (dat s d)) = d" using usable_nat [OF x] ok by (simp_all add: d_def links_ok_def)
  define s1 where "s1 = update_new_target d s"
  have s1: "length (dm_data s1) = length (dm_data s)" "dm_cons s1 = dm_cons s" "dm_log s1 = dm_log s" "frame_call s1 = frame_call s"
    "c < length (dm_data s) \<Longrightarrow> dat s1 c = (if c = d then (dat s c)\<lparr>next_target_freq := nt\<rparr> else dat s c)" for c
    by (auto simp: s1_def update_new_target_def frame_call_upd nt_def d_def)
  note st1 = frame_call_static [OF s1(4)]
  have ag1: "lgov.agg_ok s1 c = lgov.agg_ok s c" if "c < length (dm_data s)" for c using s1(2,5) that by (simp add: lgov.agg_ok_def max_gov_def)
  have dd: "next_target_freq (dat s1 d) = nt" "min_constraints (dat s1 d) = min_constraints (dat s d)" "tab s1 p = tab s p" for p using s1(2,5) d by (simp_all add: tab_def)
  obtain s2 where s2: "visit_all (update_gov_min nt) (min_constraints (dat s d)) s1 = Some s2" "frame_gov s2 = frame_gov s1"
    "\<forall>p \<in> set (min_constraints (dat s d)). gov_freq (dm_cons s2 p) = min_lookup (tab s p) nt"
    "\<forall>q. q \<notin> set (min_constraints (dat s d)) \<longrightarrow> gov_freq (dm_cons s2 q) = gov_freq (dm_cons s q)" "\<forall>p \<in> set (min_constraints (dat s d)). lgov.agg_ok s2 (dst s p)"
    "\<forall>c < length (dm_data s). c \<notin> dst s ` set (min_constraints (dat s d)) \<longrightarrow> gov_min (dat s2 c) = gov_min (dat s1 c)"
    "\<forall>c < length (dm_data s). lgov.agg_ok s1 c \<longrightarrow> lgov.agg_ok s2 c"
    using lgov.visit_list [OF static_links [OF st1 ok], of d "min_constraints (dat s d)" nt] d dd s1(1,2) by auto
  note g = frame_gov_call [OF s2(2)] and n2 = static_data(1) [OF frame_static(3) [OF s2(2)]]
  have f2: "next_target_freq (dat s2 c) = next_target_freq (dat s1 c)" "cur_freq (dat s2 c) = cur_freq (dat s1 c)" "freq_scaler (dat s2 c) = freq_scaler (dat s1 c)"
    if "c < length (dm_data s)" for c using that s1(1) by (auto intro!: frame_field(3) [OF s2(2)])
  have gm: "c \<notin> lgov.targets s d \<Longrightarrow> c < length (dm_data s) \<Longrightarrow> gov_min (dat s2 c) = gov_min (dat s c)" for c
    using s2(6) s1(5) by (auto simp: lgov.targets_def)
  show ?thesis
  proof (cases "nt < cur_freq (dat s d)")
    case True
    have "d < length (dm_data s2)" using d n2 s1(1) by simp
    then obtain s3 where s3: "scale res rel d s2 = (s3, 0)" "frame_call s3 = frame_call s2" "dm_log s3 = dm_log s2 @ [(d, next_target_freq (dat s2 d), rel)]" "dm_cons s3 = dm_cons s2"
      "\<forall>c < length (dm_data s2). dat s3 c = (if c = d then (dat s2 c)\<lparr>cur_freq := next_target_freq (dat s2 c)\<rparr> else dat s2 c)"
      using scale_ok [OF res] by blast
    have "down_visit res rel x (s, 0) = Some (s3, 0)"
      using x dt s2(1) s3(1) dd f2 [OF d] s1(5) [OF d] True sc by (simp add: down_visit_def Let_def d_def s1_def)
    moreover have "lgov.agg_ok s3 c = lgov.agg_ok s2 c" if "c < length (dm_data s)" for c
      using s3(4,5) that n2 s1(1) by (simp add: lgov.agg_ok_def max_gov_def)
    ultimately show ?thesis
      using True s1 s2(3-7) s3(2-5) g ag1 f2 gm d n2 con_target_ok(2) [OF ok d] by (intro exI [of _ s3]) auto
  next
    case False
    have "down_visit res rel x (s, 0) = Some (s2, 0)"
      using x dt s2(1) dd f2 [OF d] s1(5) [OF d] False by (simp add: down_visit_def Let_def d_def s1_def)
    then show ?thesis
      using False s1 s2(3-7) g ag1 f2 gm d by (intro exI [of _ s2]) (auto simp: min_def)
  qed
qed

subsection \<open>Constraints and changes of frequencies\<close>

definition freqs :: "exynos_dm_device \<Rightarrow> u32 list" where
  "freqs s = map cur_freq (dm_data s)"

text \<open>The frequencies after a sequence of successful scaling calls.\<close>

definition apply_log :: "(nat \<times> u32 \<times> nat) list \<Rightarrow> u32 list \<Rightarrow> u32 list" where
  "apply_log log c = foldl (\<lambda>c (i, f, r). c[i := f]) c log"

lemma apply_log_simps [simp]: "apply_log [] c = c" "apply_log (log @ [(i, f, r)]) c = (apply_log log c)[i := f]" "length (apply_log log c) = length c"
proof -
  show "length (apply_log log c) = length c" unfolding apply_log_def by (induction log arbitrary: c) auto
qed (simp_all add: apply_log_def)

definition meets :: "exynos_dm_device \<Rightarrow> u32 list \<Rightarrow> nat \<Rightarrow> bool" where
  "meets s c p \<longleftrightarrow> min (min_lookup (tab s p) (c ! src s p)) (lim_max (dat s (dst s p))) \<le> c ! dst s p"

text \<open>\<open>stays_met s P log\<close>: the constraints of \<open>P\<close> are satisfied after every change that the log records.\<close>

definition stays_met :: "exynos_dm_device \<Rightarrow> nat set \<Rightarrow> (nat \<times> u32 \<times> nat) list \<Rightarrow> bool" where
  "stays_met s P log \<longleftrightarrow> (\<forall>p \<in> P. \<forall>k \<le> length log. meets s (apply_log (take k log) (freqs s)) p)"

lemma stays_met_end: "stays_met s P log \<Longrightarrow> p \<in> P \<Longrightarrow> meets s (apply_log log (freqs s)) p"
  unfolding stays_met_def by (metis order_refl take_all)

lemma stays_met_snoc:
  assumes "stays_met s P log" and "\<forall>p \<in> P. meets s ((apply_log log (freqs s))[i := f]) p"
  shows "stays_met s P (log @ [(i, f, r)])"
  unfolding stays_met_def
proof (intro ballI allI impI)
  fix p k
  assume "p \<in> P" "k \<le> length (log @ [(i, f, r)])"
  then show "meets s (apply_log (take k (log @ [(i, f, r)])) (freqs s)) p"
    using assms by (cases "k \<le> length log") (auto simp: stays_met_def le_Suc_eq)
qed

definition edges :: "exynos_dm_device \<Rightarrow> nat set" where
  "edges s = {p. \<exists>i < length (dm_data s). p \<in> set (min_constraints (dat s i))}"

definition call_ok :: "exynos_dm_device \<Rightarrow> bool" where
  "call_ok s \<longleftrightarrow> links_ok s \<and> ordered s \<and> complete_order s \<and> (\<forall>k < length (all_order s). freq_scaler (dat s (ord s k)) \<noteq> None) \<and> (\<forall>p \<in> edges s. falling (tab s p))"

lemma edge_pos:
  assumes ok: "call_ok s" and p: "p \<in> edges s"
  obtains j k where "j < k" "k < length (all_order s)" "src s p = ord s j" "dst s p = ord s k" "p \<in> set (min_constraints (dat s (ord s j)))" "p \<in> set (min_drivers (dat s (ord s k)))"
proof -
  have lk: "links_ok s" "ordered s" "complete_order s" using ok by (simp_all add: call_ok_def)
  note l = links_min_max(1) [OF lk(1)]
  obtain i where i: "i < length (dm_data s)" "p \<in> set (min_constraints (dat s i))" using p by (auto simp: edges_def)
  have c: "dst s p < length (dm_data s)" "available (dat s (dst s p))" "p \<in> set (min_drivers (dat s (dst s p)))"
    using usable_nat [OF link_relD(4) [OF l i]] link_relD(5) [OF l i] by blast+
  then have "\<not> topo_skip (dat s (dst s p))" by (auto simp: topo_skip_def list_empty_def)
  then have "int (dst s p) \<in> set (all_order s)" using lk(3) c(1) unfolding complete_order_def by blast
  then obtain k where k: "k < length (all_order s)" "all_order s ! k = int (dst s p)" by (metis in_set_conv_nth)
  then have kd: "dst s p = ord s k" by simp
  have "dm_driver (dm_cons s p) \<in> set (take k (all_order s))" using orderedD(5) [OF lk(2) k(1)] c(3) kd by simp
  then obtain j where j: "j < k" "dm_driver (dm_cons s p) = all_order s ! j" using k(1) by (auto simp: set_take_nth)
  have "i = ord s j" using link_relD(3) [OF l i] j(2) by (metis nat_int)
  then show ?thesis using that [of j k] j k(1) kd c(3) i(2) by simp
qed

lemma visit_all_index:
  assumes "\<And>m st. m < length xs \<Longrightarrow> I m st \<Longrightarrow> \<exists>st'. f (xs ! m) st = Some st' \<and> I (Suc m) st'" and "I 0 st"
  shows "\<exists>st'. visit_all f xs st = Some st' \<and> I (length xs) st'"
  using assms
proof (induction xs arbitrary: I st)
  case (Cons x xs)
  obtain st1 where s1: "f x st = Some st1" "I 1 st1" using Cons.prems(1) [of 0 st] Cons.prems(2) by auto
  have "\<exists>st'. visit_all f xs st1 = Some st' \<and> I (Suc (length xs)) st'"
    by (rule Cons.IH [of "\<lambda>m. I (Suc m)"]) (use Cons.prems(1) [of "Suc _"] s1(2) in auto)
  then show ?case using s1(1) by simp
qed simp

subsection \<open>Going down\<close>

definition going_down :: "exynos_dm_device \<Rightarrow> nat set \<Rightarrow> nat \<Rightarrow> (nat \<times> u32 \<times> nat) list \<Rightarrow> exynos_dm_device \<Rightarrow> bool" where
  "going_down s0 P m log s \<longleftrightarrow> frame_call s = frame_call s0 \<and> dm_log s = dm_log s0 @ log \<and> freqs s = apply_log log (freqs s0) \<and> stays_met s0 P log
     \<and> (\<forall>k < m. cur_freq (dat s (ord s0 k)) \<le> next_target_freq (dat s (ord s0 k)) \<and> next_target_freq (dat s (ord s0 k)) = next_target (dat s (ord s0 k))
          \<and> (\<forall>p \<in> set (min_constraints (dat s0 (ord s0 k))). gov_freq (dm_cons s p) = min_lookup (tab s0 p) (next_target_freq (dat s (ord s0 k))) \<and> lgov.agg_ok s (dst s0 p)))"

lemma going_downD:
  assumes "going_down s0 P m log s"
  shows "frame_call s = frame_call s0" "dm_log s = dm_log s0 @ log" "freqs s = apply_log log (freqs s0)" "stays_met s0 P log"
    and "k < m \<Longrightarrow> cur_freq (dat s (ord s0 k)) \<le> next_target_freq (dat s (ord s0 k))" "k < m \<Longrightarrow> next_target_freq (dat s (ord s0 k)) = next_target (dat s (ord s0 k))"
      "k < m \<Longrightarrow> p \<in> set (min_constraints (dat s0 (ord s0 k))) \<Longrightarrow> gov_freq (dm_cons s p) = min_lookup (tab s0 p) (next_target_freq (dat s (ord s0 k)))"
      "k < m \<Longrightarrow> p \<in> set (min_constraints (dat s0 (ord s0 k))) \<Longrightarrow> lgov.agg_ok s (dst s0 p)"
  using assms unfolding going_down_def by blast+

lemma min_le_next_target: "x \<le> gov_min d \<Longrightarrow> min x (lim_max d) \<le> next_target d"
  by (auto simp: next_target_def min_def max_def)

text \<open>The target of a domain satisfies the constraints of the domains before it.\<close>

lemma going_down_meets:
  assumes ok: "call_ok s0" and g: "going_down s0 P m log s" and k: "k \<le> m" "k < length (all_order s0)" and p: "p \<in> set (min_drivers (dat s0 (ord s0 k)))"
  shows "min (min_lookup (tab s0 p) (next_target_freq (dat s (src s0 p)))) (lim_max (dat s0 (ord s0 k))) \<le> next_target (dat s (ord s0 k))"
    "\<exists>j < k. src s0 p = ord s0 j"
proof -
  have lk: "links_ok s0" "ordered s0" using ok by (simp_all add: call_ok_def)
  note l = links_min_max(1) [OF lk(1)] and fr = frame_call_static and c = orderedD(2) [OF lk(2) k(2)]
  have gf: "frame_call s = frame_call s0" using g by (simp add: going_down_def)
  have "dm_driver (dm_cons s0 p) \<in> set (take k (all_order s0))" by (rule orderedD(5) [OF lk(2) k(2) p])
  then obtain j where j: "j < k" "dm_driver (dm_cons s0 p) = all_order s0 ! j" using k(2) by (auto simp: set_take_nth)
  then show src: "\<exists>j < k. src s0 p = ord s0 j" by auto
  have pc: "p \<in> set (min_constraints (dat s0 (ord s0 j)))" using link_relD(8) [OF l c p] j(2) by simp
  have "dst s0 p = ord s0 k" using link_relD(6) [OF l c p] by (metis nat_int)
  then have a: "gov_freq (dm_cons s p) = min_lookup (tab s0 p) (next_target_freq (dat s (ord s0 j)))" "lgov.agg_ok s (ord s0 k)"
    using going_downD(7,8) [OF g _ pc] j(1) k(1) by simp_all
  have "gov_freq (dm_cons s p) \<le> gov_min (dat s (ord s0 k))"
    using a(2) max_gov_ge [of p "min_drivers (dat s (ord s0 k))" s] p static_fields(3) [OF fr [OF gf] c] by (simp add: lgov.agg_ok_def)
  then show "min (min_lookup (tab s0 p) (next_target_freq (dat s (src s0 p)))) (lim_max (dat s0 (ord s0 k))) \<le> next_target (dat s (ord s0 k))"
    using min_le_next_target [of _ "dat s (ord s0 k)"] a(1) j(2) frame_call_lim_max [OF gf c] by simp
qed

lemma meets_down:
  assumes ok: "call_ok s0" and g: "going_down s0 P m log s" and m: "m < length (all_order s0)" and P: "p \<in> P" "P \<subseteq> edges s0"
    and nt: "next_target (dat s (ord s0 m)) < cur_freq (dat s (ord s0 m))"
  shows "meets s0 ((apply_log log (freqs s0))[ord s0 m := next_target (dat s (ord s0 m))]) p"
proof -
  have lk: "links_ok s0" "ordered s0" and fall: "falling (tab s0 p)" using ok P by (auto simp: call_ok_def)
  obtain j k where e: "j < k" "k < length (all_order s0)" "src s0 p = ord s0 j" "dst s0 p = ord s0 k" "p \<in> set (min_constraints (dat s0 (ord s0 j)))" "p \<in> set (min_drivers (dat s0 (ord s0 k)))"
    using edge_pos [OF ok, of p] P by blast
  have jl: "j < length (all_order s0)" using e(1,2) by simp
  have tb: "tab s0 p \<noteq> []" using con_target_ok(3) [OF lk(1) orderedD(2) [OF lk(2) jl]] e(5) by blast
  have st: "meets s0 (freqs s) p" using stays_met_end [OF going_downD(4) [OF g] P(1)] going_downD(3) [OF g] by simp
  have n: "length (dm_data s) = length (dm_data s0)" by (rule static_data(1) [OF frame_call_static [OF going_downD(1) [OF g]]])
  have f: "freqs s ! ord s0 x = cur_freq (dat s (ord s0 x))" "ord s0 x < length (freqs s)" if "x < length (all_order s0)" for x
    using orderedD(2) [OF lk(2) that] n by (simp_all add: freqs_def)
  have neq: "x \<noteq> y \<Longrightarrow> x < length (all_order s0) \<Longrightarrow> y < length (all_order s0) \<Longrightarrow> ord s0 x \<noteq> ord s0 y" for x y using ord_inj [OF lk(2)] by blast
  consider "m = j" | "m = k" | "m \<noteq> j" "m \<noteq> k" by blast
  then show ?thesis
  proof cases
    case 1
    then have "min_lookup (tab s0 p) (next_target (dat s (ord s0 m))) \<le> min_lookup (tab s0 p) (freqs s ! src s0 p)"
      using min_lookup_mono [OF fall tb] nt f(1) [OF jl] e(3) by simp
    then show ?thesis using st 1 e f(2) [OF jl] neq [of j k] jl unfolding going_downD(3) [OF g, symmetric] meets_def by (auto simp: min_le_iff_disj)
  next
    case 2
    have "min_lookup (tab s0 p) (freqs s ! src s0 p) \<le> min_lookup (tab s0 p) (next_target_freq (dat s (src s0 p)))"
      using min_lookup_mono [OF fall tb] going_downD(5) [OF g, of j] f(1) [OF jl] e(1,3) 2 by simp
    then show ?thesis
      using going_down_meets(1) [OF ok g _ e(2,6)] 2 e f(2) [OF e(2)] neq [of j k] jl unfolding going_downD(3) [OF g, symmetric] meets_def by (auto simp: min_le_iff_disj)
  next
    case 3
    then show ?thesis using st e neq [of m j] neq [of m k] m jl unfolding going_downD(3) [OF g, symmetric] meets_def by simp
  qed
qed

lemma going_down_step:
  assumes ok: "call_ok s0" and g: "going_down s0 P m log s" and m: "m < length (all_order s0)" and P: "P \<subseteq> edges s0" and res: "\<forall>k. res k = 0"
  shows "\<exists>s' log'. down_visit res rel (all_order s0 ! m) (s, 0) = Some (s', 0) \<and> going_down s0 P (Suc m) log' s'"
proof -
  let ?d = "ord s0 m" and ?nt = "next_target (dat s (ord s0 m))"
  have lk: "links_ok s0" "ordered s0" and sc: "freq_scaler (dat s0 ?d) \<noteq> None" using ok m by (auto simp: call_ok_def)
  note st = frame_call_static [OF going_downD(1) [OF g]]
  note n = static_data(1) [OF st] and d = orderedD(2) [OF lk(2) m]
  have neq: "k < m \<Longrightarrow> ord s0 k \<noteq> ?d" for k using ord_inj [OF lk(2) _ m, of k] m by auto
  have tg: "ord s0 k \<notin> lgov.targets s ?d" if "k \<le> m" for k
    using min_targets [OF lk that m] static_fields(1) [OF st d] static_cons(2) [OF st] by (simp add: lgov.targets_def)
  have us: "usable s (all_order s0 ! m)" using orderedD(1) [OF lk(2) m] static_usable [OF st] by simp
  have sc': "freq_scaler (dat s (nat (all_order s0 ! m))) \<noteq> None" using sc static_fields(7) [OF st d] by simp
  have mc: "min_constraints (dat s ?d) = min_constraints (dat s0 ?d)" "tab s p = tab s0 p" "dst s p = dst s0 p" for p using static_fields(1) [OF st d] static_cons [OF st] by (simp_all add: tab_def)
  obtain s' where s': "down_visit res rel (all_order s0 ! m) (s, 0) = Some (s', 0)" "frame_call s' = frame_call s"
    "dm_log s' = dm_log s @ (if ?nt < cur_freq (dat s ?d) then [(?d, ?nt, rel)] else [])"
    "\<forall>c < length (dm_data s0). next_target_freq (dat s' c) = (if c = ?d then ?nt else next_target_freq (dat s c))
         \<and> cur_freq (dat s' c) = (if c = ?d then min (cur_freq (dat s c)) ?nt else cur_freq (dat s c))
         \<and> (lgov.agg_ok s c \<longrightarrow> lgov.agg_ok s' c) \<and> (c \<notin> lgov.targets s ?d \<longrightarrow> gov_min (dat s' c) = gov_min (dat s c))"
    "\<forall>p \<in> set (min_constraints (dat s0 ?d)). gov_freq (dm_cons s' p) = min_lookup (tab s0 p) ?nt \<and> lgov.agg_ok s' (dst s0 p)"
    "\<forall>q. q \<notin> set (min_constraints (dat s0 ?d)) \<longrightarrow> gov_freq (dm_cons s' q) = gov_freq (dm_cons s q)"
    using down_visit_ok [OF static_links [OF st lk(1)] us res sc', of rel] unfolding mc n by blast
  let ?l = "log @ (if ?nt < cur_freq (dat s ?d) then [(?d, ?nt, rel)] else [])"
  have nt': "next_target (dat s' (ord s0 k)) = next_target (dat s (ord s0 k))" if "k \<le> m" for k
  proof -
    have o: "ord s0 k < length (dm_data s0)" using orderedD(2) [OF lk(2), of k] that m by simp
    note f = frame_call_field [OF s'(2), of "ord s0 k"]
    show ?thesis using s'(4) o tg [OF that] n f [of policy_min] f [of const_min] f [of governor_freq] f [of lim_max]
      by (simp add: next_target_def lim_max_def)
  qed
  have fr: "freqs s' = apply_log ?l (freqs s0)"
  proof (cases "?nt < cur_freq (dat s ?d)")
    case True
    have "freqs s' = (freqs s)[?d := ?nt]"
      by (rule nth_equalityI) (use s'(4) True n static_data(1) [OF frame_call_static [OF s'(2)]] in \<open>auto simp: freqs_def nth_list_update min_def\<close>)
    then show ?thesis using True going_downD(3) [OF g] by simp
  next
    case False
    have "freqs s' = freqs s"
      by (rule nth_equalityI) (use s'(4) False n static_data(1) [OF frame_call_static [OF s'(2)]] in \<open>auto simp: freqs_def min_def\<close>)
    then show ?thesis using False going_downD(3) [OF g] by simp
  qed
  have sm: "stays_met s0 P ?l"
    using stays_met_snoc [OF going_downD(4) [OF g]] meets_down [OF ok g m _ P] going_downD(4) [OF g] by auto
  have old: "gov_freq (dm_cons s' p) = min_lookup (tab s0 p) (next_target_freq (dat s' (ord s0 k))) \<and> lgov.agg_ok s' (dst s0 p)"
    if k: "k < Suc m" and p: "p \<in> set (min_constraints (dat s0 (ord s0 k)))" for k p
  proof (cases "k = m")
    case True
    then show ?thesis using s'(4,5) p d by simp
  next
    case False
    then have km: "k < m" using k by simp
    have kl: "ord s0 k < length (dm_data s0)" using orderedD(2) [OF lk(2), of k] km m by simp
    note l = links_min_max(1) [OF lk(1)]
    have "p \<notin> set (min_constraints (dat s0 ?d))" using link_relD(3) [OF l kl p] link_relD(3) [OF l d, of p] neq [OF km] by (metis of_nat_eq_iff)
    moreover have "dst s0 p < length (dm_data s0)" using con_target_ok(2) [OF lk(1) kl] p by blast
    ultimately show ?thesis using s'(4,6) going_downD(7,8) [OF g km p] kl neq [OF km] by simp
  qed
  have new: "cur_freq (dat s' (ord s0 k)) \<le> next_target_freq (dat s' (ord s0 k)) \<and> next_target_freq (dat s' (ord s0 k)) = next_target (dat s' (ord s0 k))" if "k < Suc m" for k
    using s'(4) nt' [of k] that neq [of k] going_downD(5,6) [OF g, of k] orderedD(2) [OF lk(2), of k] m d by (cases "k = m") auto
  have "frame_call s' = frame_call s0" "dm_log s' = dm_log s0 @ ?l" using s'(2,3) going_downD(1,2) [OF g] by simp_all
  then have "going_down s0 P (Suc m) ?l s'" unfolding going_down_def using fr sm old new by blast
  then show ?thesis using s'(1) by blast
qed

subsection \<open>Going up\<close>

definition going_up :: "exynos_dm_device \<Rightarrow> nat set \<Rightarrow> nat \<Rightarrow> (nat \<times> u32 \<times> nat) list \<Rightarrow> exynos_dm_device \<Rightarrow> bool" where
  "going_up s0 P m log s \<longleftrightarrow> frame_call s = frame_call s0 \<and> dm_log s = dm_log s0 @ log \<and> freqs s = apply_log log (freqs s0) \<and> stays_met s0 P log
     \<and> (\<forall>k < length (all_order s0). cur_freq (dat s (ord s0 k)) \<le> next_target_freq (dat s (ord s0 k))
          \<and> (length (all_order s0) \<le> k + m \<longrightarrow> cur_freq (dat s (ord s0 k)) = next_target_freq (dat s (ord s0 k)))
          \<and> next_target_freq (dat s (ord s0 k)) = next_target (dat s (ord s0 k))
          \<and> (\<forall>p \<in> set (min_drivers (dat s0 (ord s0 k))). min (min_lookup (tab s0 p) (next_target_freq (dat s (src s0 p)))) (lim_max (dat s0 (ord s0 k))) \<le> next_target_freq (dat s (ord s0 k)))
          \<and> (\<forall>p \<in> set (min_constraints (dat s0 (ord s0 k))). min_lookup (tab s0 p) (next_target_freq (dat s (ord s0 k))) \<le> gov_min (dat s (dst s0 p))))"

lemma going_upD:
  assumes "going_up s0 P m log s"
  shows "frame_call s = frame_call s0" "dm_log s = dm_log s0 @ log" "freqs s = apply_log log (freqs s0)" "stays_met s0 P log"
    and "k < length (all_order s0) \<Longrightarrow> cur_freq (dat s (ord s0 k)) \<le> next_target_freq (dat s (ord s0 k))"
      "k < length (all_order s0) \<Longrightarrow> length (all_order s0) \<le> k + m \<Longrightarrow> cur_freq (dat s (ord s0 k)) = next_target_freq (dat s (ord s0 k))"
      "k < length (all_order s0) \<Longrightarrow> next_target_freq (dat s (ord s0 k)) = next_target (dat s (ord s0 k))"
      "k < length (all_order s0) \<Longrightarrow> p \<in> set (min_drivers (dat s0 (ord s0 k))) \<Longrightarrow>
        min (min_lookup (tab s0 p) (next_target_freq (dat s (src s0 p)))) (lim_max (dat s0 (ord s0 k))) \<le> next_target_freq (dat s (ord s0 k))"
      "k < length (all_order s0) \<Longrightarrow> p \<in> set (min_constraints (dat s0 (ord s0 k))) \<Longrightarrow> min_lookup (tab s0 p) (next_target_freq (dat s (ord s0 k))) \<le> gov_min (dat s (dst s0 p))"
  using assms unfolding going_up_def by blast+

lemma going_up_start:
  assumes ok: "call_ok s0" and g: "going_down s0 P (length (all_order s0)) log s"
  shows "going_up s0 P 0 log s"
proof -
  have lk: "links_ok s0" "ordered s0" using ok by (simp_all add: call_ok_def)
  note st = frame_call_static [OF going_downD(1) [OF g]] and l = links_min_max(1) [OF lk(1)]
  have gv: "min_lookup (tab s0 p) (next_target_freq (dat s (ord s0 k))) \<le> gov_min (dat s (dst s0 p))"
    if k: "k < length (all_order s0)" and p: "p \<in> set (min_constraints (dat s0 (ord s0 k)))" for k p
  proof -
    note o = orderedD(2) [OF lk(2) k]
    have "p \<in> set (min_drivers (dat s0 (dst s0 p)))" "dst s0 p < length (dm_data s0)" using link_relD(5) [OF l o p] con_target_ok(2) [OF lk(1) o] p by blast+
    then have "gov_freq (dm_cons s p) \<le> gov_min (dat s (dst s0 p))"
      using going_downD(8) [OF g k p] max_gov_ge [of p _ s] static_fields(3) [OF st] by (simp add: lgov.agg_ok_def)
    then show ?thesis using going_downD(7) [OF g k p] by simp
  qed
  have dr: "min (min_lookup (tab s0 p) (next_target_freq (dat s (src s0 p)))) (lim_max (dat s0 (ord s0 k))) \<le> next_target_freq (dat s (ord s0 k))"
    if "k < length (all_order s0)" "p \<in> set (min_drivers (dat s0 (ord s0 k)))" for k p
    using going_down_meets(1) [OF ok g _ that] going_downD(6) [OF g that(1)] that(1) by simp
  show ?thesis unfolding going_up_def using going_downD(1-6) [OF g] gv dr by (metis add.right_neutral not_le)
qed

lemma meets_up:
  assumes ok: "call_ok s0" and g: "going_up s0 P m log s" and m: "Suc j + m = length (all_order s0)" and P: "p \<in> P" "P \<subseteq> edges s0"
    and less: "cur_freq (dat s (ord s0 j)) < next_target_freq (dat s (ord s0 j))"
  shows "meets s0 ((apply_log log (freqs s0))[ord s0 j := next_target_freq (dat s (ord s0 j))]) p"
proof -
  have lk: "links_ok s0" "ordered s0" using ok by (auto simp: call_ok_def)
  obtain a k where e: "a < k" "k < length (all_order s0)" "src s0 p = ord s0 a" "dst s0 p = ord s0 k" "p \<in> set (min_constraints (dat s0 (ord s0 a)))" "p \<in> set (min_drivers (dat s0 (ord s0 k)))"
    using edge_pos [OF ok, of p] P by blast
  have al: "a < length (all_order s0)" "j < length (all_order s0)" using e(1,2) m by simp_all
  have st: "meets s0 (freqs s) p" using stays_met_end [OF going_upD(4) [OF g] P(1)] going_upD(3) [OF g] by simp
  have n: "length (dm_data s) = length (dm_data s0)" by (rule static_data(1) [OF frame_call_static [OF going_upD(1) [OF g]]])
  have f: "freqs s ! ord s0 x = cur_freq (dat s (ord s0 x))" "ord s0 x < length (freqs s)" if "x < length (all_order s0)" for x
    using orderedD(2) [OF lk(2) that] n by (simp_all add: freqs_def)
  have neq: "x \<noteq> y \<Longrightarrow> x < length (all_order s0) \<Longrightarrow> y < length (all_order s0) \<Longrightarrow> ord s0 x \<noteq> ord s0 y" for x y using ord_inj [OF lk(2)] by blast
  consider "j = a" | "j = k" | "j \<noteq> a" "j \<noteq> k" by blast
  then show ?thesis
  proof cases
    case 1
    then have "cur_freq (dat s (ord s0 k)) = next_target_freq (dat s (ord s0 k))" using going_upD(6) [OF g e(2)] e(1) m by simp
    then show ?thesis
      using going_upD(8) [OF g e(2,6)] 1 e f [OF e(2)] f(2) [OF al(1)] neq [of a k] al unfolding going_upD(3) [OF g, symmetric] meets_def by simp
  next
    case 2
    then show ?thesis
      using st less e f [OF e(2)] neq [of a k] al unfolding going_upD(3) [OF g, symmetric] meets_def by (auto simp: min_le_iff_disj)
  next
    case 3
    then show ?thesis using st e neq [of j a] neq [of j k] al unfolding going_upD(3) [OF g, symmetric] meets_def by simp
  qed
qed

lemma going_up_step:
  assumes ok: "call_ok s0" and g: "going_up s0 P m log s" and m: "m < length (all_order s0)" and P: "P \<subseteq> edges s0" and res: "\<forall>k. res k = 0"
  shows "\<exists>s' log'. up_visit res rel (rev (all_order s0) ! m) (s, 0) = Some (s', 0) \<and> going_up s0 P (Suc m) log' s'"
proof -
  define j where "j = length (all_order s0) - Suc m"
  have j: "Suc j + m = length (all_order s0)" "j < length (all_order s0)" and x: "rev (all_order s0) ! m = all_order s0 ! j" using m by (auto simp: j_def rev_nth)
  let ?d = "ord s0 j"
  have lk: "links_ok s0" "ordered s0" and sc: "freq_scaler (dat s0 ?d) \<noteq> None" using ok j(2) by (auto simp: call_ok_def)
  note st = frame_call_static [OF going_upD(1) [OF g]]
  note n = static_data(1) [OF st] and d = orderedD(2) [OF lk(2) j(2)]
  have us: "usable s (all_order s0 ! j)" using orderedD(1) [OF lk(2) j(2)] static_usable [OF st] by simp
  have sc': "freq_scaler (dat s ?d) \<noteq> None" using sc static_fields(7) [OF st d] by simp
  have neq: "k \<noteq> j \<Longrightarrow> k < length (all_order s0) \<Longrightarrow> ord s0 k \<noteq> ?d" for k using ord_inj [OF lk(2) _ j(2), of k] by auto
  show ?thesis
  proof (cases "cur_freq (dat s ?d) < next_target_freq (dat s ?d)")
    case False
    then have "cur_freq (dat s ?d) = next_target_freq (dat s ?d)" using going_upD(5) [OF g j(2)] by simp
    moreover have "length (all_order s0) \<le> k + Suc m \<Longrightarrow> k = j \<or> length (all_order s0) \<le> k + m" for k using j by auto
    ultimately have "going_up s0 P (Suc m) log s" using g unfolding going_up_def by metis
    then show ?thesis using us False by (auto simp: up_visit_def Let_def x)
  next
    case True
    obtain s' where s': "scale res rel ?d s = (s', 0)" "frame_call s' = frame_call s" "dm_log s' = dm_log s @ [(?d, next_target_freq (dat s ?d), rel)]" "dm_cons s' = dm_cons s"
      "\<forall>c < length (dm_data s0). dat s' c = (if c = ?d then (dat s c)\<lparr>cur_freq := next_target_freq (dat s c)\<rparr> else dat s c)"
      using scale_ok [OF res, of ?d s] d n by auto
    let ?l = "log @ [(?d, next_target_freq (dat s ?d), rel)]"
    have u: "up_visit res rel (rev (all_order s0) ! m) (s, 0) = Some (s', 0)" using us True sc' s'(1) by (simp add: up_visit_def Let_def x)
    have "freqs s' = (freqs s)[?d := next_target_freq (dat s ?d)]"
      by (rule nth_equalityI) (use s'(5) n static_data(1) [OF frame_call_static [OF s'(2)]] in \<open>auto simp: freqs_def nth_list_update\<close>)
    then have fr: "freqs s' = apply_log ?l (freqs s0)" using going_upD(3) [OF g] by simp
    have sm: "stays_met s0 P ?l" using stays_met_snoc [OF going_upD(4) [OF g]] meets_up [OF ok g j(1) _ P True] by blast
    have same: "next_target_freq (dat s' c) = next_target_freq (dat s c)" "gov_min (dat s' c) = gov_min (dat s c)" "next_target (dat s' c) = next_target (dat s c)"
      "cur_freq (dat s' c) = (if c = ?d then next_target_freq (dat s c) else cur_freq (dat s c))" if "c < length (dm_data s0)" for c
      using s'(5) that by (simp_all add: next_target_def lim_max_def)
    have sd: "src s0 p < length (dm_data s0)" if "k < length (all_order s0)" "p \<in> set (min_drivers (dat s0 (ord s0 k)))" for k p
      using usable_nat(1) [OF link_relD(7) [OF links_min_max(1) [OF lk(1)] orderedD(2) [OF lk(2) that(1)] that(2)]] .
    have dd: "dst s0 p < length (dm_data s0)" if "k < length (all_order s0)" "p \<in> set (min_constraints (dat s0 (ord s0 k)))" for k p
      using con_target_ok(2) [OF lk(1) orderedD(2) [OF lk(2) that(1)]] that(2) by blast
    have "going_up s0 P (Suc m) ?l s'"
      unfolding going_up_def
    proof (intro conjI allI impI ballI)
      fix k
      assume k: "k < length (all_order s0)"
      note o = orderedD(2) [OF lk(2) k]
      show "cur_freq (dat s' (ord s0 k)) \<le> next_target_freq (dat s' (ord s0 k))" using same(1,4) [OF o] going_upD(5) [OF g k] by simp
      show "next_target_freq (dat s' (ord s0 k)) = next_target (dat s' (ord s0 k))" using same(1,3) [OF o] going_upD(7) [OF g k] by simp
      show "cur_freq (dat s' (ord s0 k)) = next_target_freq (dat s' (ord s0 k))" if "length (all_order s0) \<le> k + Suc m"
        using same [OF o] going_upD(6) [OF g k] that j by (cases "k = j") auto
      show "min (min_lookup (tab s0 p) (next_target_freq (dat s' (src s0 p)))) (lim_max (dat s0 (ord s0 k))) \<le> next_target_freq (dat s' (ord s0 k))"
        if "p \<in> set (min_drivers (dat s0 (ord s0 k)))" for p
        using going_upD(8) [OF g k that] same(1) [OF o] same(1) [OF sd [OF k that]] by simp
      show "min_lookup (tab s0 p) (next_target_freq (dat s' (ord s0 k))) \<le> gov_min (dat s' (dst s0 p))" if "p \<in> set (min_constraints (dat s0 (ord s0 k)))" for p
        using going_upD(9) [OF g k that] same(1) [OF o] same(2) [OF dd [OF k that]] by simp
    qed (use s'(2,3) going_upD(1,2) [OF g] fr sm in simp_all)
    then show ?thesis using u by blast
  qed
qed

subsection \<open>A call\<close>

lemma dm_propagate_ok:
  assumes ok: "call_ok s0" and P: "P \<subseteq> edges s0" "\<forall>p \<in> P. meets s0 (freqs s0) p" and res: "\<forall>k. res k = 0"
  shows "\<exists>s' log. dm_propagate res rel s0 = Some (s', 0) \<and> going_up s0 P (length (all_order s0)) log s'"
proof -
  define I where "I m st \<longleftrightarrow> (\<exists>log. going_down s0 P m log (fst st)) \<and> snd st = 0" for m and st :: "exynos_dm_device \<times> int"
  have "\<exists>st'. visit_all (down_visit res rel) (all_order s0) (s0, 0) = Some st' \<and> I (length (all_order s0)) st'"
  proof (rule visit_all_index [of _ I])
    show "I 0 (s0, 0)" unfolding I_def fst_conv by (rule conjI, rule exI [of _ "[]"]) (use P(2) in \<open>simp_all add: going_down_def stays_met_def\<close>)
    fix m and st :: "exynos_dm_device \<times> int"
    assume m: "m < length (all_order s0)" and "I m st"
    then obtain s log where s: "st = (s, 0)" "going_down s0 P m log s" by (cases st) (auto simp: I_def)
    show "\<exists>st'. down_visit res rel (all_order s0 ! m) st = Some st' \<and> I (Suc m) st'"
      using going_down_step [OF ok s(2) m P(1) res, of rel] by (auto simp: s(1) I_def)
  qed
  then obtain s1 log where s1: "visit_all (down_visit res rel) (all_order s0) (s0, 0) = Some (s1, 0)" "going_down s0 P (length (all_order s0)) log s1"
    by (auto simp: I_def)
  have o: "all_order s1 = all_order s0" by (rule static_order(1) [OF frame_call_static [OF going_downD(1) [OF s1(2)]]])
  define J where "J m st \<longleftrightarrow> (\<exists>log. going_up s0 P m log (fst st)) \<and> snd st = 0" for m and st :: "exynos_dm_device \<times> int"
  have "\<exists>st'. visit_all (up_visit res rel) (rev (all_order s0)) (s1, 0) = Some st' \<and> J (length (rev (all_order s0))) st'"
  proof (rule visit_all_index [of _ J])
    show "J 0 (s1, 0)" using going_up_start [OF ok s1(2)] by (auto simp: J_def)
    fix m and st :: "exynos_dm_device \<times> int"
    assume m: "m < length (rev (all_order s0))" and "J m st"
    then obtain s log where s: "st = (s, 0)" "going_up s0 P m log s" by (cases st) (auto simp: J_def)
    show "\<exists>st'. up_visit res rel (rev (all_order s0) ! m) st = Some st' \<and> J (Suc m) st'"
      using going_up_step [OF ok s(2) _ P(1) res, of rel] m by (auto simp: s(1) J_def)
  qed
  then show ?thesis using s1(1) o by (auto simp: dm_propagate_def J_def)
qed

text \<open>\<open>gov_met\<close>: the lower limit from governors covers what the frequency of a driver asks for.\<close>

definition gov_met :: "exynos_dm_device \<Rightarrow> nat \<Rightarrow> bool" where
  "gov_met s p \<longleftrightarrow> min_lookup (tab s p) (cur_freq (dat s (src s p))) \<le> gov_min (dat s (dst s p))"

lemma propagate_final:
  assumes ok: "call_ok s0" and g: "going_up s0 P (length (all_order s0)) log s'" and p: "p \<in> edges s0"
  shows "meets s0 (freqs s') p" "gov_met s' p"
proof -
  have lk: "links_ok s0" "ordered s0" using ok by (auto simp: call_ok_def)
  obtain a k where e: "a < k" "k < length (all_order s0)" "src s0 p = ord s0 a" "dst s0 p = ord s0 k" "p \<in> set (min_constraints (dat s0 (ord s0 a)))" "p \<in> set (min_drivers (dat s0 (ord s0 k)))"
    using edge_pos [OF ok p] by blast
  have al: "a < length (all_order s0)" using e(1,2) by simp
  note st = frame_call_static [OF going_upD(1) [OF g]]
  note n = static_data(1) [OF st]
  have cur: "freqs s' ! ord s0 x = next_target_freq (dat s' (ord s0 x))" "cur_freq (dat s' (ord s0 x)) = next_target_freq (dat s' (ord s0 x))" if "x < length (all_order s0)" for x
    using going_upD(6) [OF g that] orderedD(2) [OF lk(2) that] n by (simp_all add: freqs_def)
  show "meets s0 (freqs s') p" using going_upD(8) [OF g e(2,6)] cur(1) [OF al] cur(1) [OF e(2)] e(3,4) by (simp add: meets_def)
  have "tab s' p = tab s0 p" "src s' p = src s0 p" "dst s' p = dst s0 p" using static_cons [OF st] by (simp_all add: tab_def)
  then show "gov_met s' p" using going_upD(9) [OF g al e(5)] cur(2) [OF al] e(3) by (simp add: gov_met_def)
qed

end
