(* ===== verification/DmProps.thy ===== *)
theory DmProps
  imports DmCall
begin

text \<open>The properties of the DVFS manager.\<close>

subsection \<open>Recording the request of a governor\<close>

definition request :: "nat \<Rightarrow> u64 \<Rightarrow> exynos_dm_device \<Rightarrow> exynos_dm_device" where
  "request i target s = upd_dom i (\<lambda>d. d\<lparr>governor_freq := ucast target\<rparr>) s"

text \<open>The frequency asked for, within the limits of the domain.\<close>

definition clamp_target :: "exynos_dm_data \<Rightarrow> u64 \<Rightarrow> u64" where
  "clamp_target d target = (let t = (if target < ucast (lim_min d) then ucast (lim_min d) else target) in if t \<ge> ucast (lim_max d) then ucast (lim_max d) else t)"

lemma request_static: "static (request i target s) = static s"
  using map_update_absorb [of still "\<lambda>d. d\<lparr>governor_freq := ucast target\<rparr>" "dm_data s" i] by (simp add: request_def static_def upd_dom_def still_def)

lemma request_dat: "c < length (dm_data s) \<Longrightarrow> dat (request i target s) c = (if c = i then (dat s c)\<lparr>governor_freq := ucast target\<rparr> else dat s c)"
  by (simp add: request_def)

lemma request_same:
  shows "length (dm_data (request i target s)) = length (dm_data s)" "dm_cons (request i target s) = dm_cons s" "dm_log (request i target s) = dm_log s"
    "freqs (request i target s) = freqs s"
  using map_update_absorb [of cur_freq "\<lambda>d. d\<lparr>governor_freq := ucast target\<rparr>" "dm_data s" i] by (simp_all add: request_def freqs_def upd_dom_def)

lemma static_call_ok:
  assumes "static s' = static s" and "call_ok s"
  shows "call_ok s'" "edges s' = edges s" "tab s' p = tab s p"
proof -
  have lk: "links_ok s" "ordered s" "complete_order s" using assms(2) by (simp_all add: call_ok_def)
  note f = static_fields [OF assms(1)] and n = static_data(1) [OF assms(1)] and o = static_order(1) [OF assms(1)]
  show t: "tab s' p = tab s p" for p using static_cons(3) [OF assms(1)] by (simp add: tab_def)
  show e: "edges s' = edges s" using f(1) n unfolding edges_def by (metis (no_types, lifting))
  have "topo_skip (dat s' i) = topo_skip (dat s i)" if "i < length (dm_data s)" for i using f(1-5) [OF that] by (simp add: topo_skip_def list_empty_def)
  then have "complete_order s'" using lk(3) n o by (simp add: complete_order_def)
  then show "call_ok s'"
    using assms(2) static_links [OF assms(1) lk(1)] static_ordered(1) [OF assms(1) lk(1,2)] e t o f(7) orderedD(2) [OF lk(2)] by (simp add: call_ok_def)
qed

lemma DM_CALL_unfold:
  assumes "links_ok s" and "i < length (dm_data s)" and "available (dat s i)"
  shows "\<exists>rel. DM_CALL res (int i) target s =
    (case (if ucast (cur_freq (dat s i)) = clamp_target (dat s i) target then Some (request i target s, 0)
           else if max_constraints (dat s i) = [] \<and> min_constraints (dat s i) = [] \<and> freq_scaler (dat s i) \<noteq> None
             then Some (scale res rel i (update_new_target i (request i target s)))
           else dm_propagate res rel (request i target s)) of
       None \<Rightarrow> None | Some (s1, ret) \<Rightarrow> Some (ret, ucast (cur_freq (dat s1 i)), s1))"
proof -
  define t where "t = (if target < ucast (lim_min (dat s i)) then ucast (lim_min (dat s i)) else target)"
  have r: "lim_max (dat (request i target s) i) = lim_max (dat s i)" "lim_min (dat (request i target s) i) = lim_min (dat s i)" "cur_freq (dat (request i target s) i) = cur_freq (dat s i)"
    "list_empty (dat (request i target s) i) (max_constraints (dat (request i target s) i)) = (max_constraints (dat s i) = [])"
    "list_empty (dat (request i target s) i) (min_constraints (dat (request i target s) i)) = (min_constraints (dat s i) = [])"
    "freq_scaler (dat (request i target s) i) = freq_scaler (dat s i)" "nat (dm_type (dat (request i target s) i)) = i"
    using request_dat [OF assms(2), of i target] assms by (simp_all add: lim_max_def lim_min_def list_empty_def links_ok_def)
  have ix: "idx_ok s (int i) = True" using assms(2) by (simp add: idx_ok_def)
  show ?thesis
    by (intro exI [of _ "if t \<ge> ucast (lim_max (dat s i)) then 1 else 0"])
      (simp only: DM_CALL_def Let_def clamp_target_def t_def ix not_True_eq_False if_False nat_int request_def [symmetric] r)
qed

lemma next_target_bounds: "next_target d \<le> lim_max d" "min (max (lim_min d) (governor_freq d)) (lim_max d) \<le> next_target d"
  unfolding next_target_def lim_min_def by (simp, rule min.mono) (auto simp: le_max_iff_disj)



text \<open>Two domains, the first of which asks for frequencies of the second; first without the constraint, then with it.\<close>

definition sample_table :: "exynos_dm_freq list" where
  "sample_table = [\<lparr>driver_freq = 2000, constraint_freq = 3000\<rparr>, \<lparr>driver_freq = 1000, constraint_freq = 1000\<rparr>]"

definition sample_data :: "nat \<Rightarrow> u32 \<Rightarrow> exynos_dm_data" where
  "sample_data i mx = zero_data\<lparr>available := True, dm_type := int i, cur_freq := 1000, governor_freq := 1000, gov_min := 1000, policy_min := 500, policy_max := mx,
     const_min := 500, const_max := mx, freq_scaler := Some i\<rparr>"

definition sample_cons :: "nat \<Rightarrow> exynos_dm_constraint" where
  "sample_cons = (\<lambda>_. zero_con)(7 := zero_con\<lparr>dm_constraint := 1, freq_table := Some sample_table\<rparr>)"

definition sample0 :: exynos_dm_device where
  "sample0 = \<lparr>domain_order = [0, 0], constraint_domain_count = 0, dm_data = [sample_data 0 2000, sample_data 1 3000], dm_cons = sample_cons, dm_log = [], fvp_log = []\<rparr>"

definition sample :: exynos_dm_device where
  "sample = \<lparr>domain_order = [0, 1], constraint_domain_count = 2,
     dm_data = [(sample_data 0 2000)\<lparr>min_constraints := [7]\<rparr>, (sample_data 1 3000)\<lparr>min_drivers := [7], indegree := 1, my_order := 1\<rparr>], dm_cons = sample_cons, dm_log = [], fvp_log = []\<rparr>"

lemmas sample_defs = sample_def sample0_def sample_data_def sample_cons_def sample_table_def zero_data_def zero_con_def

lemma all_less_2: "(\<forall>i < 2. P i) \<longleftrightarrow> P 0 \<and> P (1 :: nat)"
  by (auto simp: less_2_cases_iff)

lemma sample_order: "all_order sample = [0, 1]" "length (dm_data sample) = 2" "dat sample 0 = (sample_data 0 2000)\<lparr>min_constraints := [7]\<rparr>"
  "dat sample 1 = (sample_data 1 3000)\<lparr>min_drivers := [7], indegree := 1, my_order := 1\<rparr>"
  by (simp_all add: sample_def all_order_def)

lemma sample_links: "links_ok sample"
  unfolding links_ok_alt link_rel_def con_ok_def sample_order(2) all_less_2 usable_def idx_ok_def
  by (simp add: sample_defs)

lemma sample_ok: "call_ok sample"
proof -
  have "ordered sample"
    unfolding ordered_def sample_order(1) by (simp add: all_less_2 [simplified numeral_2_eq_2] less_Suc_eq sample_defs usable_def idx_ok_def)
  moreover have "complete_order sample" unfolding complete_order_def sample_order(1,2) all_less_2 by simp
  moreover have "edges sample = {7}"
  proof -
    have "edges sample = {p. \<not> (\<forall>i < 2. p \<notin> set (min_constraints (dat sample i)))}" unfolding edges_def sample_order(2) by auto
    also have "\<dots> = {7}" unfolding all_less_2 sample_order(3,4) by (auto simp: sample_defs)
    finally show ?thesis .
  qed
  moreover have "falling (tab sample 7)" by (simp add: falling_def tab_def sample_defs)
  moreover have "\<forall>k < length (all_order sample). freq_scaler (dat sample (ord sample k)) \<noteq> None"
    unfolding sample_order(1) by (simp add: less_Suc_eq sample_defs)
  ultimately show ?thesis using sample_links by (simp add: call_ok_def)
qed

lemma sample_edge: "7 \<in> edges sample" "meets sample (freqs sample) 7" "gov_met sample 7"
proof -
  show "7 \<in> edges sample" unfolding edges_def sample_order(2) mem_Collect_eq by (rule exI [of _ 0]) (simp add: sample_defs)
  show "meets sample (freqs sample) 7" "gov_met sample 7" by code_simp+
qed


text \<open>
  C31. Suppose the domain called is in the order and has a constraint of its own on another domain (a call for a domain
  without one scales only that domain), its frequency is not already the one asked for, all tables fall, the links are intact, the order is topological and contains
  every domain that takes part in a constraint, every domain of the order has a scaling function and every scaling function succeeds. Then the call returns 0 and
  brings every domain of the order to a frequency that is not above its upper limit, and below its lower limit or the request of its governor only
  as far as the upper limit demands; afterwards every constraint for a lower limit is satisfied, whatever was so before, and the
  frequency reported is the one the domain has.
\<close>

theorem dm_call_settles:
  assumes "call_ok s" and "j < length (all_order s)" and "\<forall>k. res k = 0" and "min_constraints (dat s (ord s j)) \<noteq> [] \<or> max_constraints (dat s (ord s j)) \<noteq> []"
    and "ucast (cur_freq (dat s (ord s j))) \<noteq> clamp_target (dat s (ord s j)) target"
  shows "\<exists>s'. DM_CALL res (int (ord s j)) target s = Some (0, ucast (cur_freq (dat s' (ord s j))), s') \<and> (\<forall>p \<in> edges s. meets s (freqs s') p)
    \<and> (\<forall>k < length (all_order s). cur_freq (dat s' (ord s k)) \<le> lim_max (dat s (ord s k))
         \<and> min (max (lim_min (dat s (ord s k))) (if k = j then ucast target else governor_freq (dat s (ord s k)))) (lim_max (dat s (ord s k))) \<le> cur_freq (dat s' (ord s k)))"
proof -
  let ?i = "ord s j"
  let ?r = "request ?i target s"
  have lk: "links_ok s" "ordered s" using assms(1) by (simp_all add: call_ok_def)
  note i = orderedD(2) [OF lk(2) assms(2)] and av = usable_nat(3) [OF orderedD(1) [OF lk(2) assms(2)]]
  note st = request_static [of ?i target s] and n = request_same [of ?i target s]
  note ok = static_call_ok [OF st assms(1)]
  obtain rel where call: "DM_CALL res (int ?i) target s = (case dm_propagate res rel ?r of None \<Rightarrow> None | Some (s1, ret) \<Rightarrow> Some (ret, ucast (cur_freq (dat s1 ?i)), s1))"
    using DM_CALL_unfold [OF lk(1) i av, of res target] assms(4,5) by auto
  obtain s' log where s': "dm_propagate res rel ?r = Some (s', 0)" "going_up ?r {} (length (all_order ?r)) log s'"
    using dm_propagate_ok [OF ok(1) _ _ assms(3), of "{}" rel] by auto
  note fr = going_upD(1) [OF s'(2)] and o = static_order(1) [OF st]
  have d: "lim_max (dat ?r c) = lim_max (dat s c)" "lim_min (dat ?r c) = lim_min (dat s c)" "governor_freq (dat ?r c) = (if c = ?i then ucast target else governor_freq (dat s c))"
    if "c < length (dm_data s)" for c
    using request_dat [OF that, of ?i target] by (simp_all add: lim_max_def lim_min_def)
  have "meets s (freqs s') p" if p: "p \<in> edges s" for p
  proof -
    obtain k where "k < length (all_order s)" "dst s p = ord s k" using edge_pos [OF assms(1) p] by blast
    then have "dst s p < length (dm_data s)" using orderedD(2) [OF lk(2)] by simp
    moreover have "meets ?r (freqs s') p" using propagate_final(1) [OF ok(1) s'(2)] p ok(2) by simp
    ultimately show ?thesis using ok(3) n(2) d(1) by (simp add: meets_def)
  qed
  moreover have "cur_freq (dat s' (ord s k)) \<le> lim_max (dat s (ord s k))
      \<and> min (max (lim_min (dat s (ord s k))) (if k = j then ucast target else governor_freq (dat s (ord s k)))) (lim_max (dat s (ord s k))) \<le> cur_freq (dat s' (ord s k))"
    if k: "k < length (all_order s)" for k
  proof -
    note c = orderedD(2) [OF lk(2) k]
    have c': "ord s k < length (dm_data ?r)" using c n(1) by simp
    have "cur_freq (dat s' (ord s k)) = next_target (dat s' (ord s k))" using going_upD(6,7) [OF s'(2)] k o by simp
    moreover have "lim_max (dat s' (ord s k)) = lim_max (dat s (ord s k))" using frame_call_lim_max [OF fr c'] d(1) [OF c] by simp
    moreover have "policy_min (dat s' (ord s k)) = policy_min (dat s (ord s k))" "const_min (dat s' (ord s k)) = const_min (dat s (ord s k))"
      using frame_call_field [OF fr c', of policy_min] frame_call_field [OF fr c', of const_min] request_dat [OF c, of ?i target] by simp_all
    moreover have "governor_freq (dat s' (ord s k)) = (if k = j then ucast target else governor_freq (dat s (ord s k)))"
      using frame_call_field [OF fr c', of governor_freq] d(3) [OF c] ord_inj [OF lk(2) k assms(2)] by auto
    ultimately show ?thesis using next_target_bounds [of "dat s' (ord s k)"] by (simp add: lim_min_def)
  qed
  ultimately show ?thesis using call s'(1) by auto
qed

theorem dm_call_settles_witness:
  "\<exists>s'. DM_CALL (\<lambda>_. 0) 0 2000 sample = Some (0, ucast (cur_freq (dat s' 0)), s') \<and> meets sample (freqs s') 7 \<and> cur_freq (dat s' 0) = 2000"
proof -
  have d: "clamp_target (dat sample 0) 2000 = 2000" "cur_freq (dat sample 0) = 1000" "lim_max (dat sample 0) = 2000" "lim_min (dat sample 0) = 500" by code_simp+
  have "min_constraints (dat sample 0) \<noteq> []" by code_simp
  then obtain s' where "DM_CALL (\<lambda>_. 0) 0 2000 sample = Some (0, ucast (cur_freq (dat s' 0)), s')" "meets sample (freqs s') 7"
    "cur_freq (dat s' 0) \<le> 2000" "min (max 500 (ucast (2000 :: u64))) 2000 \<le> cur_freq (dat s' 0)"
    using dm_call_settles [OF sample_ok, of 0 "\<lambda>_. 0" 2000] sample_edge(1) sample_order(1) d by auto
  then show ?thesis by (auto intro!: exI [of _ s'] antisym)
qed

text \<open>
  When the scaling function of a constrained domain fails to raise its frequency, the driver is raised all the same: the constraint
  is violated, and the call reports success, because the return value of the failed call is overwritten.
\<close>

theorem dm_scaling_failure_ignored:
  "map_option (\<lambda>(ret, f, s'). (ret, f, freqs s')) (DM_CALL (\<lambda>k. if k = 0 then - EINVAL else 0) 0 2000 sample) = Some (0, 2000, [2000, 1000])
    \<and> meets sample [1000, 1000] 7 \<and> \<not> meets sample [2000, 1000] 7"
  by code_simp

text \<open>
  C29. Registering a constraint succeeds and yields an order of domains in which every domain comes after the domains that
  drive its lower limit, at the place it has noted; when the counters of incoming constraints were exact they
  stay so, and when in addition the constraints for lower limits form no cycle, every domain that takes part in a
  constraint is in the order. The graph grows by exactly the new constraint.
\<close>

theorem dm_order_topological:
  assumes "dm_ok s" and "can_register sub tb i p s"
  shows "\<exists>s'. register_exynos_dm_constraint_table sub tb i (Some p) s = Some (0, s') \<and> links_ok s' \<and> ordered s'
    \<and> (indegree_ok s \<longrightarrow> indegree_ok s' \<and> (acyclic (min_edges s') \<longrightarrow> complete_order s'))
    \<and> min_edges s' = (if constraint_type (dm_cons s p) = CONSTRAINT_MIN then insert (nat i, dst s p) (min_edges s) else min_edges s)"
  using register_ok [OF assms] by (auto simp: dm_ok_def)

lemma sample0_ok: "dm_ok sample0" "indegree_ok sample0" "min_edges sample0 = {}"
proof -
  have n: "length (dm_data sample0) = 2" by (simp add: sample0_def)
  have l: "links_ok sample0" unfolding links_ok_alt link_rel_def con_ok_def n all_less_2 usable_def idx_ok_def by (simp add: sample_defs)
  show "indegree_ok sample0" unfolding indegree_ok_def n all_less_2 by (simp add: sample_defs)
  then have "indegree_ge sample0" by (simp add: indegree_ok_def indegree_ge_def)
  then show "dm_ok sample0" using l n by (simp add: dm_ok_def sample0_def)
  have "min_drivers (dat sample0 i) = []" if "i < 2" for i using that by (auto simp: less_2_cases_iff sample_defs)
  then show "min_edges sample0 = {}" unfolding min_edges_def n by auto
qed

lemma sample0_can: "can_register None False 0 7 sample0" "constraint_type (dm_cons sample0 7) = CONSTRAINT_MIN" "dst sample0 7 = 1"
  by (simp_all add: can_register_def usable_def idx_ok_def linked_def sample_defs)

theorem dm_order_topological_witness:
  "\<exists>s'. register_exynos_dm_constraint_table None False 0 (Some 7) sample0 = Some (0, s') \<and> ordered s' \<and> complete_order s' \<and> min_edges s' = {(0, 1)}"
proof -
  have "acyclic {(0 :: nat, 1 :: nat)}" by (simp add: acyclic_insert, simp add: acyclic_def)
  then show ?thesis
    using dm_order_topological [OF sample0_ok(1) sample0_can(1)] sample0_ok(2,3) sample0_can(2,3) by auto
qed

text \<open>
  C30. Suppose the links and the order are intact, every constraint for an upper limit runs against a constraint for a lower
  limit between the same two domains (\<open>max_mirror\<close>: so do those that the registration adds for constraints with \<^verbatim>\<open>guidance\<close>, while one that is registered directly
  with the type MAX need not), the domain is in the order, and the call of the firmware succeeds
  where the domain reports its policy to it. Then a change of policy is recorded and passed on: for every domain in the order, if the upper limits its constraints ask
  for were what their tables give, they are so afterwards; likewise the lower limits, if in addition no lower limit is
  above the upper limit of the same domain and every upper limit is below \<open>2 ^ 31\<close>, before and after the change.
\<close>

theorem dm_policy_consistent:
  assumes "links_ok s" and "ordered s" and "max_mirror s" and "j < length (all_order s)" and "policy_use (dat s (ord s j)) \<longrightarrow> fvp = (0, 0)"
  shows "\<exists>s'. policy_update_call_to_DM fvp (int (ord s j)) mn mx s = Some (0, s')
    \<and> (mn \<noteq> 0 \<or> mx \<noteq> 0 \<longrightarrow> policy_min (dat s' (ord s j)) = (if mn = 0 then policy_min (dat s (ord s j)) else mn)
         \<and> policy_max (dat s' (ord s j)) = (if mx = 0 then policy_max (dat s (ord s j)) else mx))
    \<and> (\<forall>k < length (all_order s). max_ok s (ord s k) \<longrightarrow> max_ok s' (ord s k))
    \<and> (unclipped s \<longrightarrow> unclipped s' \<longrightarrow> (\<forall>k < length (all_order s). min_ok s (ord s k) \<longrightarrow> min_ok s' (ord s k)))"
  using policy_update_ok [OF assms, of mn mx] by blast

lemma sample_mirror: "max_mirror sample"
  unfolding max_mirror_def sample_order(2) all_less_2 by (simp add: sample_defs)

theorem dm_policy_consistent_witness:
  "\<exists>s'. policy_update_call_to_DM (0, 0) 0 2000 0 sample = Some (0, s') \<and> policy_min (dat s' 0) = 2000 \<and> policy_max (dat s' 0) = 2000"
  using dm_policy_consistent [OF sample_links _ sample_mirror, of 0 "(0, 0)" 2000 0] sample_ok sample_order(1) by (auto simp: call_ok_def sample_defs)

text \<open>What unlinking one constraint does to the counters.\<close>

lemma unlink_excess:
  assumes ok: "dm_ok s" and i: "i < length (dm_data s)" "p \<in> set (min_constraints (dat s i)) \<union> set (max_constraints (dat s i))"
  shows "\<exists>s'. unlink_both p s = Some s' \<and> dm_ok s' \<and> dm_cons s' = dm_cons s \<and> length (dm_data s') = length (dm_data s)
    \<and> (\<forall>j < length (dm_data s). min_constraints (dat s' j) = remove1 p (min_constraints (dat s j)))
    \<and> (\<forall>c < length (dm_data s). excess s' c = (if p \<in> set (min_drivers (dat s c)) then excess s c + 1 else excess s c))"
proof -
  have lk: "links_ok s" "indegree_ge s" "length (domain_order s) = length (dm_data s)" using ok by (simp_all add: dm_ok_def)
  obtain s' where s': "unlink_both p s = Some s'" "links_ok s'" "length (dm_data s') = length (dm_data s)" "domain_order s' = domain_order s" "dm_cons s' = dm_cons s"
    "\<forall>j < length (dm_data s). min_constraints (dat s' j) = remove1 p (min_constraints (dat s j)) \<and> min_drivers (dat s' j) = remove1 p (min_drivers (dat s j)) \<and> indegree (dat s' j) = indegree (dat s j)"
    using unlink_both_ok [OF lk(1) i] by blast
  have r: "int (length (remove1 p xs)) = (if p \<in> set xs then int (length xs) - 1 else int (length xs))" for xs
    using length_pos_if_in_set [of p xs] by (simp add: length_remove1 of_nat_diff Suc_leI)
  have "indegree_ge s'" using lk(2) s'(3,6) by (auto simp: indegree_ge_def r)
  then have "dm_ok s'" using s'(2-4) lk(3) by (simp add: dm_ok_def)
  then show ?thesis using s' by (auto simp: excess_def r)
qed

text \<open>
  C32. Unregistering a constraint takes it out of the lists but not out of the counter of incoming constraints. So the
  domain it constrained is missing from the order after every later registration: policies and
  requests of other domains no longer reach it.
\<close>

theorem dm_unregister_loses_domain:
  assumes "dm_ok s" and "0 \<le> i" and "d < length (dm_data s)" and "p \<in> set (min_constraints (dat s d))"
    and "\<forall>q. sub_constraint (dm_cons s p) = Some q \<longrightarrow> (\<exists>e < length (dm_data s). q \<in> set (max_constraints (dat s e)))"
  shows "\<exists>s'. unregister_exynos_dm_constraint_table i (Some p) s = Some (0, s')
    \<and> (\<forall>sub tb k r. can_register sub tb k r s' \<longrightarrow>
         (\<exists>s''. register_exynos_dm_constraint_table sub tb k (Some r) s' = Some (0, s'') \<and> int (dst s p) \<notin> set (all_order s'')))"
proof -
  note l = assms(1) [unfolded dm_ok_def links_ok_alt]
  let ?c = "dst s p"
  have c: "?c < length (dm_data s)" "p \<in> set (min_drivers (dat s ?c))"
    using link_relD(4,5) [of min_constraints min_drivers s d p] usable_nat(1) l assms(3,4) by auto
  obtain s1 where s1: "(case sub_constraint (dm_cons s p) of None \<Rightarrow> Some s | Some q \<Rightarrow> unlink_both q s) = Some s1" "dm_ok s1" "dm_cons s1 = dm_cons s"
    "length (dm_data s1) = length (dm_data s)" "p \<in> set (min_constraints (dat s1 d))" "excess s ?c \<le> excess s1 ?c"
  proof (cases "sub_constraint (dm_cons s p)")
    case None
    then show ?thesis using that [of s] assms(1,4) by simp
  next
    case (Some q)
    then obtain e where e: "e < length (dm_data s)" "q \<in> set (max_constraints (dat s e))" using assms(5) by blast
    have lk: "links_ok s" using assms(1) by (simp add: dm_ok_def)
    have "q \<noteq> p" using links_typeD(1) [OF lk assms(3,4)] links_typeD(2) [OF lk e] by auto
    then show ?thesis using unlink_excess [OF assms(1) e(1), of q] e(2) Some assms(3,4) c(1) that by auto
  qed
  note l1 = s1(2) [unfolded dm_ok_def links_ok_alt]
  have p1: "p \<in> set (min_drivers (dat s1 ?c))" using link_relD(5) [of min_constraints min_drivers s1 d p] l1 s1(3-5) assms(3) by auto
  have "0 \<le> excess s1 ?c" using s1(2,4) c(1) by (simp add: dm_ok_def indegree_ge_def excess_def)
  then obtain s' where s': "unlink_both p s1 = Some s'" "dm_ok s'" "length (dm_data s') = length (dm_data s)" "0 < excess s' ?c"
    using unlink_excess [OF s1(2), of d p] s1(4,5) assms(3) c(1) p1 by auto
  have "unregister_exynos_dm_constraint_table i (Some p) s = Some (0, s')"
    using assms(2) s1(1) s'(1) by (simp add: unregister_exynos_dm_constraint_table_def exynos_dm_index_validate_def)
  moreover have "\<exists>s''. register_exynos_dm_constraint_table sub tb k (Some r) s' = Some (0, s'') \<and> int ?c \<notin> set (all_order s'')" if "can_register sub tb k r s'" for sub tb k r
    using register_ok [OF s'(2) that] s'(3,4) c(1) by fastforce
  ultimately show ?thesis by blast
qed

theorem dm_unregister_loses_domain_witness:
  "\<exists>s'. unregister_exynos_dm_constraint_table 0 (Some 7) sample = Some (0, s')
    \<and> (\<forall>sub tb k r. can_register sub tb k r s' \<longrightarrow> (\<exists>s''. register_exynos_dm_constraint_table sub tb k (Some r) s' = Some (0, s'') \<and> 1 \<notin> set (all_order s'')))"
proof -
  have "indegree_ge sample" unfolding indegree_ge_def sample_order(2) all_less_2 by (simp add: sample_defs)
  then have ok: "dm_ok sample" using sample_links by (simp add: dm_ok_def sample_def)
  have "7 \<in> set (min_constraints (dat sample 0))" "sub_constraint (dm_cons sample 7) = None" "dst sample 7 = 1" by (simp_all add: sample_defs)
  then show ?thesis using dm_unregister_loses_domain [OF ok, of 0 0 7] sample_order(2) by simp
qed

text \<open>
  C33. A domain was throttled, its upper limit below its lower one, and the upper limit is raised above the lower one again. Its constraints then
  stay as they were: the old lower limit, which is not cut off at the upper limit, is compared with the new one,
  which is, and they are equal. So what the constraints ask for is not what their tables give for the limit the
  domain has now, whenever the table tells the two limits apart.
\<close>

theorem dm_throttle_not_undone:
  assumes "links_ok s" and "ordered s" and "max_mirror s" and "j < length (all_order s)" and "policy_use (dat s (ord s j)) \<longrightarrow> fvp = (0, 0)"
    and "min_ok s (ord s j)" and "p \<in> set (min_constraints (dat s (ord s j)))" and "in_limits ((dat s (ord s j))\<lparr>policy_max := mx\<rparr>)" and "mx \<noteq> 0"
    and "lim_max (dat s (ord s j)) < lim_min (dat s (ord s j))"
  shows "\<exists>s'. policy_update_call_to_DM fvp (int (ord s j)) 0 mx s = Some (0, s') \<and> eff_min (dat s' (ord s j)) = lim_min (dat s (ord s j))
    \<and> const_freq (dm_cons s' p) = min_lookup (tab s p) (lim_max (dat s (ord s j)))"
proof -
  let ?i = "ord s j"
  note i = orderedD(2) [OF assms(2,4)]
  have lim: "lim_min (dat s ?i) \<le> lim_max ((dat s ?i)\<lparr>policy_max := mx\<rparr>)" "lim_max ((dat s ?i)\<lparr>policy_max := mx\<rparr>) < 0x80000000"
    using assms(8) unfolding in_limits_def by (simp_all add: lim_min_def)
  then have "lim_min (dat s ?i) < 0x80000000" by (rule le_less_trans)
  then have "lim_max (dat s ?i) < 0x80000000" "lim_min (dat s ?i) < 0x80000000" using assms(10) by (auto intro: less_trans)
  then have e0: "eff_min (dat s ?i) = lim_max (dat s ?i)" using assms(10) by (simp add: eff_min_def sint_small_u32 word_less_def)
  have ne: "policy_max (dat s ?i) \<noteq> mx"
  proof
    assume "policy_max (dat s ?i) = mx"
    then have "lim_max ((dat s ?i)\<lparr>policy_max := mx\<rparr>) = lim_max (dat s ?i)" by (simp add: lim_max_def)
    then show False using lim(1) assms(10) by simp
  qed
  have "(0 :: u32) \<noteq> 0 \<or> mx \<noteq> 0" "\<not> (policy_max (dat s ?i) = mx \<and> policy_min (dat s ?i) = 0)" using assms(9) ne by simp_all
  from policy_update_unfold [OF i assms(5) this] obtain l s2 where
    s2: "s2 = (upd_dom ?i (\<lambda>x. x\<lparr>policy_max := if mx = 0 then policy_max (dat s ?i) else mx, policy_min := if (0 :: u32) = 0 then policy_min (dat s ?i) else 0\<rparr>) s)\<lparr>fvp_log := l\<rparr>"
    and call: "policy_update_call_to_DM fvp (int ?i) 0 mx s = (if list_empty (dat s ?i) (min_constraints (dat s ?i)) \<and> list_empty (dat s ?i) (max_constraints (dat s ?i)) then Some (0, s2)
      else map_option (\<lambda>s3. (0, s3)) (policy_propagate ?i (lim_min (dat s ?i)) (lim_max (dat s ?i)) s2))" by blast
  have nonempty: "\<not> list_empty (dat s ?i) (min_constraints (dat s ?i))" using assms(7) by (auto simp: list_empty_def)
  have d: "lim_min (dat s2 ?i) = lim_min (dat s ?i)" "in_limits (dat s2 ?i)" "my_order (dat s2 ?i) = int j" "dm_cons s2 = dm_cons s"
    using i assms(8,9) orderedD(4) [OF assms(2,4)] by (simp_all add: s2 lim_min_def lim_max_def in_limits_def)
  have st: "static s2 = static s" unfolding s2 static_policy(2) by (rule static_policy(1))
  note so = static_ordered [OF st assms(1)] and o2 = static_order(1) [OF st] and n2 = static_data(1) [OF st]
  obtain s' where s': "(if lim_max (dat s2 ?i) \<noteq> lim_max (dat s ?i) then visit_all max_visit (order_downto (int j) s2) s2 else Some s2) = Some s'" "frame_max s' = frame_max s2"
    "const_max (dat s' ?i) = const_max (dat s2 ?i)" "\<forall>q. constraint_type (dm_cons s2 q) = CONSTRAINT_MIN \<longrightarrow> const_freq (dm_cons s' q) = const_freq (dm_cons s2 q)"
    using max_stage [OF static_links [OF st assms(1)] so(1) [OF assms(2)] so(2) [OF assms(3)], of j "lim_max (dat s2 ?i) \<noteq> lim_max (dat s ?i)"] assms(4) unfolding o2 by auto
  have "min (lim_min (dat s2 ?i)) (lim_max (dat s2 ?i)) = lim_min (dat s ?i)" using d(1,2) by (simp add: in_limits_def)
  then have "policy_propagate ?i (lim_min (dat s ?i)) (lim_max (dat s ?i)) s2 = Some s'" using s'(1) d(3) by (simp add: policy_propagate_def Let_def split: if_splits)
  then have "policy_update_call_to_DM fvp (int ?i) 0 mx s = Some (0, s')" using call nonempty by simp
  moreover have "policy_min (dat s' ?i) = policy_min (dat s2 ?i)" "policy_max (dat s' ?i) = policy_max (dat s2 ?i)" "const_min (dat s' ?i) = const_min (dat s2 ?i)"
    using i n2 by (auto intro!: frame_field(2) [OF s'(2)])
  then have "eff_min (dat s' ?i) = eff_min (dat s2 ?i)" using s'(3) by (simp add: eff_min_def lim_min_def lim_max_def)
  then have "eff_min (dat s' ?i) = lim_min (dat s ?i)" using d(1) eff_min_in_limits [OF d(2)] by simp
  moreover have "const_freq (dm_cons s' p) = min_lookup (tab s p) (lim_max (dat s ?i))"
    using s'(4) d(4) links_typeD(1) [OF assms(1) i assms(7)] assms(6,7) e0 by (simp add: min_ok_def)
  ultimately show ?thesis by blast
qed

text \<open>The driver of the sample, throttled to 1000 with a lower limit of 2000.\<close>

definition throttled :: exynos_dm_device where
  "throttled = upd_dom 0 (\<lambda>d. d\<lparr>policy_min := 2000, policy_max := 1000\<rparr>) (upd_dom 1 (\<lambda>d. d\<lparr>const_min := 1000\<rparr>) (upd_con 7 (\<lambda>x. x\<lparr>const_freq := 1000\<rparr>) sample))"

lemma throttled_static: "static throttled = static sample"
proof -
  have "map still (dm_data throttled) = map still (dm_data sample)" by (simp add: throttled_def upd_dom_def upd_con_def sample_defs still_def)
  then show ?thesis by (simp add: throttled_def static_def upd_dom_def upd_con_def fun_eq_iff)
qed

theorem dm_throttle_not_undone_witness:
  "\<exists>s'. policy_update_call_to_DM (0, 0) 0 0 2000 throttled = Some (0, s') \<and> eff_min (dat s' 0) = 2000 \<and> const_freq (dm_cons s' 7) = 1000"
proof -
  have st: "links_ok throttled" "ordered throttled" "max_mirror throttled" "all_order throttled = [0, 1]"
    using static_links [OF throttled_static sample_links] static_ordered [OF throttled_static sample_links] static_order(1) [OF throttled_static] sample_ok sample_mirror sample_order(1)
    by (simp_all add: call_ok_def)
  have d: "lim_max (dat throttled 0) = 1000" "lim_min (dat throttled 0) = 2000" "min_lookup (tab throttled 7) 1000 = 1000" "policy_use (dat throttled 0) = False" by code_simp+
  have m: "min_ok throttled 0" "7 \<in> set (min_constraints (dat throttled 0))" "in_limits ((dat throttled 0)\<lparr>policy_max := 2000\<rparr>)" by code_simp+
  show ?thesis using dm_throttle_not_undone [OF st(1-3), of 0 "(0, 0)" 7 2000] st(4) d m by simp
qed

end
