(* ===== verification/S2mpu.thy ===== *)
theory S2mpu
  imports Prelude
begin

text \<open>
  The stage 2 memory protection unit, \<^verbatim>\<open>drivers/soc/google/s2mpu\<close>. It decides which physical pages a device may
  read and write. Each gigabyte has an entry of level 1 with two access bits, or a table (SMPT)
  with two bits for each granule of 4 KB, 64 KB or 2 MB. The driver opens and closes windows, splits a
  gigabyte or a granule into smaller ones where needed, and restores the registers after power was lost.

  Registers are a function of their offset; writes are also recorded in order in \<open>wlog\<close>. Tables
  live in the region that was allocated for them. Each allocation has a number; \<open>mem n rs len\<close> is what allocation
  \<open>n\<close> of \<open>len\<close> bytes returns while the regions \<open>rs\<close> are in use, a kernel address and a bus address, or \<open>None\<close>.
  The functions call each other recursively without a bound; the model has the number of nested calls that
  the stack can hold, and \<open>Deep\<close> is the overflow of the stack.
\<close>

named_theorems s2mpu \<open>facts about the protection tables\<close>

subsection \<open>State\<close>

datatype s2_gran = S2_GRAN_INVALID | S2_GRAN_4KB | S2_GRAN_64KB | S2_GRAN_2MB | S2_GRAN_1GB

fun gran_value :: "s2_gran \<Rightarrow> int" where
  "gran_value S2_GRAN_INVALID = -1"
| "gran_value S2_GRAN_4KB = 0"
| "gran_value S2_GRAN_64KB = 1"
| "gran_value S2_GRAN_2MB = 2"
| "gran_value S2_GRAN_1GB = 3"

text \<open>Granularities are compared as the integers they are in C.\<close>

instantiation s2_gran :: linorder
begin

definition less_eq_s2_gran :: "s2_gran \<Rightarrow> s2_gran \<Rightarrow> bool" where
  "less_eq_s2_gran a b \<longleftrightarrow> gran_value a \<le> gran_value b"

definition less_s2_gran :: "s2_gran \<Rightarrow> s2_gran \<Rightarrow> bool" where
  "less_s2_gran a b \<longleftrightarrow> gran_value a < gran_value b"

lemma gran_value_inj: "gran_value a = gran_value b \<Longrightarrow> a = b"
  by (cases a; cases b) simp_all

instance
proof
  fix a b c :: s2_gran
  show "(a < b) = (a \<le> b \<and> \<not> b \<le> a)" "a \<le> a" "a \<le> b \<or> b \<le> a" "a \<le> b \<Longrightarrow> b \<le> c \<Longrightarrow> a \<le> c"
    by (auto simp: less_eq_s2_gran_def less_s2_gran_def)
  show "a \<le> b \<Longrightarrow> b \<le> a \<Longrightarrow> a = b" by (rule gran_value_inj) (simp add: less_eq_s2_gran_def)
qed

end

text \<open>The table is not read at the place of \<^verbatim>\<open>S2_GRAN_INVALID\<close>.\<close>

fun gran_shift :: "s2_gran \<Rightarrow> nat" where
  "gran_shift S2_GRAN_INVALID = 0"
| "gran_shift S2_GRAN_4KB = 12"
| "gran_shift S2_GRAN_64KB = 16"
| "gran_shift S2_GRAN_2MB = 21"
| "gran_shift S2_GRAN_1GB = 30"

datatype dma_data_direction = DMA_BIDIRECTIONAL | DMA_TO_DEVICE | DMA_FROM_DEVICE | DMA_NONE

text \<open>\<^verbatim>\<open>enum dir_mask\<close>.\<close>

fun dir_mask :: "dma_data_direction \<Rightarrow> nat" where
  "dir_mask DMA_BIDIRECTIONAL = 3"
| "dir_mask DMA_TO_DEVICE = 1"
| "dir_mask DMA_FROM_DEVICE = 2"
| "dir_mask DMA_NONE = 0"

record smpt_region =
  va :: nat
  pa :: u64
  smpt :: "u8 list"

record s2mpu_info =
  l1entry_attrs :: "u32 list"
  l2table_addrs :: "u32 list"
  smpt_regions :: "smpt_region list"
  sids :: "u32 list"
  vid :: u8
  hw :: "nat \<Rightarrow> u32"
  wlog :: "(nat \<times> u32) list"
  ssmt :: "nat \<Rightarrow> u32"
  allocs :: nat

type_synonym allocator = "nat \<Rightarrow> smpt_region list \<Rightarrow> nat \<Rightarrow> (nat \<times> u64) option"

datatype stop = Bug | Fault | Deep

abbreviation (input) WHI_PHY_ADDR_MASK :: u64 where "WHI_PHY_ADDR_MASK \<equiv> 0xFFFFFFFFF"
abbreviation (input) WHI_RESERVED_START :: u64 where "WHI_RESERVED_START \<equiv> 0x100000000"
abbreviation (input) WHI_RESERVED_END :: u64 where "WHI_RESERVED_END \<equiv> 0x87FFFFFFF"

subsection \<open>Registers\<close>

definition S2MPU_L1ENTRY_L2TABLE_ADDR :: "nat \<Rightarrow> nat \<Rightarrow> nat" where
  "S2MPU_L1ENTRY_L2TABLE_ADDR n m = 0x4000 + n * 0x200 + m * 8"

definition S2MPU_L1ENTRY_ATTR :: "nat \<Rightarrow> nat \<Rightarrow> nat" where
  "S2MPU_L1ENTRY_ATTR n m = 0x4004 + n * 0x200 + m * 8"

definition writel :: "nat \<Rightarrow> u32 \<Rightarrow> s2mpu_info \<Rightarrow> s2mpu_info" where
  "writel a v s = s\<lparr>hw := (hw s)(a := v), wlog := wlog s @ [(a, v)]\<rparr>"

definition writes :: "(nat \<times> u32) list \<Rightarrow> s2mpu_info \<Rightarrow> s2mpu_info" where
  "writes ws s = fold (\<lambda>(a, v). writel a v) ws s"

text \<open>\<^verbatim>\<open>S2MPU_L1ENTRY_ATTR_L2TABLE_EN_VALUE\<close> and the like.\<close>

definition l2table_en :: "u32 \<Rightarrow> u32" where "l2table_en reg = reg AND 1"
definition rd_access :: "u32 \<Rightarrow> u32" where "rd_access reg = drop_bit 1 (reg AND 2)"
definition wr_access :: "u32 \<Rightarrow> u32" where "wr_access reg = drop_bit 2 (reg AND 4)"
definition l2table_granule :: "u32 \<Rightarrow> u32" where "l2table_granule reg = drop_bit 4 (reg AND 0x30)"

definition mk_attr :: "u32 \<Rightarrow> u32 \<Rightarrow> u32 \<Rightarrow> u32 \<Rightarrow> u32" where
  "mk_attr en rd wr gran = en OR push_bit 1 rd OR push_bit 2 wr OR push_bit 4 gran"

text \<open>The gigabytes that exist; there is a gap in the physical address space.\<close>

definition gb_low :: "nat list" where "gb_low = [0..<4]"
definition gb_high :: "nat list" where "gb_high = [34..<64]"

subsection \<open>Regions\<close>

definition smpt_region_for_pa :: "s2mpu_info \<Rightarrow> u64 \<Rightarrow> smpt_region option" where
  "smpt_region_for_pa s p = find (\<lambda>r. pa r = p) (smpt_regions s)"

definition alloc_smpt :: "allocator \<Rightarrow> nat \<Rightarrow> s2mpu_info \<Rightarrow> smpt_region option \<times> s2mpu_info" where
  "alloc_smpt mem len s =
     (if len \<noteq> 128 \<and> len \<noteq> 4096 \<and> len \<noteq> 64 * 1024 then (None, s)
      else
        (case mem (allocs s) (smpt_regions s) len of
           None \<Rightarrow> (None, s\<lparr>allocs := allocs s + 1\<rparr>)
         | Some (v, p) \<Rightarrow>
             (let r = \<lparr>va = v, pa = p, smpt = replicate len 0\<rparr>
              in (Some r, s\<lparr>allocs := allocs s + 1, smpt_regions := r # smpt_regions s\<rparr>))))"

fun remove_va :: "nat \<Rightarrow> smpt_region list \<Rightarrow> smpt_region list" where
  "remove_va v [] = []"
| "remove_va v (r # rs) = (if va r = v then rs else r # remove_va v rs)"

definition free_smpt :: "nat \<Rightarrow> s2mpu_info \<Rightarrow> s2mpu_info" where
  "free_smpt v s = (if v = 0 then s else s\<lparr>smpt_regions := remove_va v (smpt_regions s)\<rparr>)"

text \<open>Writing the table at address \<open>v\<close>.\<close>

definition set_smpt :: "nat \<Rightarrow> u8 list \<Rightarrow> s2mpu_info \<Rightarrow> s2mpu_info" where
  "set_smpt v t s = s\<lparr>smpt_regions := map (\<lambda>r. if va r = v then r\<lparr>smpt := t\<rparr> else r) (smpt_regions s)\<rparr>"

definition get_smpt_region :: "s2mpu_info \<Rightarrow> nat \<Rightarrow> smpt_region option" where
  "get_smpt_region s gb = smpt_region_for_pa s (push_bit 4 (ucast (l2table_addrs s ! gb)))"

subsection \<open>Setting up\<close>

text \<open>The two registers of a stream, as offsets from the base of the stream table, in the arithmetic of unsigned integers.\<close>

definition SSMT_NS_READ_STREAM_VID :: "u32 \<Rightarrow> nat" where
  "SSMT_NS_READ_STREAM_VID sid = unat (0x1000 + 0x4 * sid)"

definition SSMT_NS_WRITE_STREAM_VID :: "u32 \<Rightarrow> nat" where
  "SSMT_NS_WRITE_STREAM_VID sid = unat (0x1200 + 0x4 * sid)"

definition ssmt_set_vid :: "s2mpu_info \<Rightarrow> s2mpu_info" where
  "ssmt_set_vid s =
     s\<lparr>ssmt := fold (\<lambda>i m. m(SSMT_NS_READ_STREAM_VID i := ucast (vid s), SSMT_NS_WRITE_STREAM_VID i := ucast (vid s))) (sids s) (ssmt s)\<rparr>"

definition attr_writes :: "nat \<Rightarrow> u32 \<Rightarrow> nat list \<Rightarrow> (nat \<times> u32) list" where
  "attr_writes n reg gbs = map (\<lambda>gb. (S2MPU_L1ENTRY_ATTR n gb, reg)) gbs"

definition open_vid0 :: "s2mpu_info \<Rightarrow> s2mpu_info" where
  "open_vid0 s = (if vid s = 1 then ssmt_set_vid (writes (attr_writes 0 (mk_attr 0 1 1 0) (gb_low @ gb_high)) s) else s)"

text \<open>
  \<open>None\<close> is the NULL pointer, \<open>Inl\<close> an error pointer. The structure is not cleared: \<open>a1\<close> and \<open>a2\<close> are what the
  arrays of the page table hold before.
\<close>

definition s2mpu_lib_init :: "bool \<Rightarrow> u32 list \<Rightarrow> u32 list \<Rightarrow> (nat \<Rightarrow> u32) \<Rightarrow> (nat \<Rightarrow> u32) \<Rightarrow> u8 \<Rightarrow> u32 list \<Rightarrow> (int + s2mpu_info) option" where
  "s2mpu_lib_init kmalloc a1 a2 regs ssmt_regs v sd =
     (if v > 1 then None
      else if \<not> kmalloc then Some (Inl (- ENOMEM))
      else
        (let reg = mk_attr 0 0 0 0;
             info = \<lparr>l1entry_attrs = a1, l2table_addrs = a2, smpt_regions = [], sids = sd, vid = v, hw = regs, wlog = [], ssmt = ssmt_regs, allocs = 0\<rparr>;
             s1 = writes [(0x0, 0), (0x4, 0), (0x10, 0), (0x14, 0), (0x18, 0), (0x20, 0xFF), (0x40, 0), (0x44, 0x00F200F1), (0x48, 0x00F200F1), (0x70, 0)] info;
             s2 = writes (concat (map (\<lambda>n. attr_writes n reg gb_low) [0..<8])) s1;
             s3 = s2\<lparr>l1entry_attrs := fold (\<lambda>gb l. l[gb := reg]) gb_low (l1entry_attrs s2)\<rparr>;
             s4 = writes (concat (map (\<lambda>n. attr_writes n reg gb_high) [0..<8])) s3;
             s5 = s4\<lparr>l1entry_attrs := fold (\<lambda>gb l. l[gb := reg]) gb_high (l1entry_attrs s4)\<rparr>
         in Some (Inr (writes [(0x2C, 0xFF), (0x0, 1 OR push_bit 1 1 OR push_bit 2 1), (0x1000, 1)] (open_vid0 s5)))))"

definition s2mpu_lib_deinit :: "s2mpu_info \<Rightarrow> s2mpu_info" where
  "s2mpu_lib_deinit s =
     (let s1 = writes (attr_writes (unat (vid s)) (mk_attr 0 0 0 0) (gb_low @ gb_high)) s;
          s2 = (if hw s1 0x0 AND 1 = 0 then writel 0x0 (hw s1 0x0 OR 1) s1 else s1)
      in (writel 0x1000 1 s2)\<lparr>smpt_regions := []\<rparr>)"

text \<open>The report of a fault: status, address, whether it was a write, type and the whole register.\<close>

definition s2mpu_lib_irq_handler :: "s2mpu_info \<Rightarrow> (u32 \<times> u64 \<times> bool \<times> u32 \<times> u32) \<times> s2mpu_info" where
  "s2mpu_lib_irq_handler s =
     (let n = unat (vid s); fault_status = hw s 0x2000; pa_low = hw s (0x2004 + n * 0x20); pa_high = hw s (0x2008 + n * 0x20) AND 0xF;
          fault_info = hw s (0x2010 + n * 0x20); fault_type = drop_bit 21 fault_info AND 3; full_pa = push_bit 32 (ucast pa_high) OR ucast pa_low
      in ((fault_status, full_pa, bit fault_info 20, fault_type, fault_info), writel 0x2C 0xFF s))"

subsection \<open>Tables\<close>

text \<open>\<open>None\<close> is the \<^verbatim>\<open>BUG_ON\<close>.\<close>

definition l1_existing_granularity :: "u32 \<Rightarrow> s2_gran option" where
  "l1_existing_granularity l1 =
     (if l2table_en l1 = 0 then Some S2_GRAN_1GB
      else if l2table_granule l1 = 0 then Some S2_GRAN_4KB
      else if l2table_granule l1 = 1 then Some S2_GRAN_64KB
      else if l2table_granule l1 = 2 then Some S2_GRAN_2MB
      else None)"

definition get_byte_offset :: "u64 \<Rightarrow> s2_gran \<Rightarrow> u64" where
  "get_byte_offset addr g = drop_bit 2 (drop_bit (gran_shift g) (addr AND 0x3FFFFFFF))"

definition get_bit_offset :: "u64 \<Rightarrow> s2_gran \<Rightarrow> u64" where
  "get_bit_offset addr g = push_bit 1 (drop_bit (gran_shift g) (addr AND 0x3FFFFFFF) AND 3)"

definition range_invalidate_mptc_vid_specific :: "u64 \<Rightarrow> s2_gran \<Rightarrow> s2mpu_info \<Rightarrow> s2mpu_info" where
  "range_invalidate_mptc_vid_specific start g s =
     (let msk = push_bit (gran_shift g) WHI_PHY_ADDR_MASK AND WHI_PHY_ADDR_MASK; a = start AND msk
      in writes [(0x1024, ucast (drop_bit 12 a)), (0x1028, ucast (drop_bit 12 (a + push_bit (gran_shift g) 1))),
           (0x1020, push_bit 16 (ucast (vid s)) OR push_bit 1 1 OR 1)] s)"

definition extend_to_byte :: "u8 \<Rightarrow> u8" where
  "extend_to_byte two_bits = push_bit 6 two_bits OR push_bit 4 two_bits OR push_bit 2 two_bits OR two_bits"

definition s2_table_size :: "nat \<Rightarrow> nat" where
  "s2_table_size gshift = 2 ^ 30 div 2 ^ gshift div 4"

text \<open>One byte of the old table becomes \<open>per\<close> bytes of the new one, from \<open>nidx\<close> on; \<open>j\<close> counts them.\<close>

definition expand_byte :: "nat \<Rightarrow> nat \<Rightarrow> u8 \<Rightarrow> u8 list \<Rightarrow> u8 list" where
  "expand_byte per nidx cb new =
     snd (foldl (\<lambda>(j, t) sh.
       (let limit = j + per div 4; b = extend_to_byte (drop_bit sh cb AND 3)
        in (limit, foldl (\<lambda>t k. t[nidx + k := b]) t [j..<limit]))) (0, new) [0, 2, 4, 6])"

text \<open>An access outside one of the tables is a fault.\<close>

definition copy_decompose :: "nat \<Rightarrow> u8 list \<Rightarrow> nat \<Rightarrow> u8 list \<Rightarrow> u8 list option" where
  "copy_decompose curr_gran_shift curr_smpt new_gran_shift new_smpt =
     (let new_per_curr = 2 ^ curr_gran_shift div 2 ^ new_gran_shift; curr_len = 2 ^ 30 div 2 ^ curr_gran_shift div 4
      in if length curr_smpt < curr_len \<or> length new_smpt < curr_len * new_per_curr then None
         else Some (foldl (\<lambda>t i. expand_byte new_per_curr (i * 4 * 2 ^ (curr_gran_shift - new_gran_shift) div 4) (curr_smpt ! i) t) new_smpt [0..<curr_len]))"

definition copy_decompose_gb :: "u8 \<Rightarrow> u8 list \<Rightarrow> nat \<Rightarrow> u8 list" where
  "copy_decompose_gb two_bits new_smpt len = foldl (\<lambda>t i. t[i := extend_to_byte (two_bits AND 3)]) new_smpt [0..<len]"

definition gran_code :: "s2_gran \<Rightarrow> u32" where
  "gran_code g = (if g = S2_GRAN_64KB then 1 else if g = S2_GRAN_2MB then 2 else if g = S2_GRAN_1GB then 3 else 0)"

text \<open>Entering a new table for a gigabyte, in the registers and in the copy of them that is kept.\<close>

definition enter_table :: "nat \<Rightarrow> s2_gran \<Rightarrow> u64 \<Rightarrow> s2mpu_info \<Rightarrow> s2mpu_info" where
  "enter_table gb new_gran p s =
     (let addr = ucast (drop_bit 4 p); new_l1 = mk_attr 1 0 0 (gran_code new_gran); n = unat (vid s);
          s1 = writel (S2MPU_L1ENTRY_ATTR n gb) new_l1 (writel (S2MPU_L1ENTRY_L2TABLE_ADDR n gb) addr s)
      in s1\<lparr>l2table_addrs := (l2table_addrs s1)[gb := addr], l1entry_attrs := (l1entry_attrs s1)[gb := new_l1]\<rparr>)"

definition decompose :: "allocator \<Rightarrow> nat \<Rightarrow> s2_gran \<Rightarrow> s2_gran \<Rightarrow> s2mpu_info \<Rightarrow> stop + s2mpu_info" where
  "decompose mem gb curr_gran new_gran s =
     (case alloc_smpt mem (s2_table_size (gran_shift new_gran)) s of
        (None, s1) \<Rightarrow> Inr s1
      | (Some r, s1) \<Rightarrow>
          if curr_gran \<noteq> S2_GRAN_1GB then
            (case get_smpt_region s1 gb of
               None \<Rightarrow> Inr s1
             | Some c \<Rightarrow>
                 (case copy_decompose (gran_shift curr_gran) (smpt c) (gran_shift new_gran) (smpt r) of
                    None \<Rightarrow> Inl Fault
                  | Some t \<Rightarrow> Inr (free_smpt (va c) (enter_table gb new_gran (pa r) (set_smpt (va r) t s1)))))
          else
            (let l1 = l1entry_attrs s1 ! gb; two_bits = ucast (push_bit 1 (wr_access l1) OR rd_access l1)
             in Inr (enter_table gb new_gran (pa r) (set_smpt (va r) (copy_decompose_gb two_bits (smpt r) (s2_table_size (gran_shift new_gran))) s1))))"

subsection \<open>Windows\<close>

text \<open>The two cases in which the granularity is the one that the gigabyte has.\<close>

definition set_gb :: "u64 \<Rightarrow> nat \<Rightarrow> bool \<Rightarrow> nat \<Rightarrow> s2mpu_info \<Rightarrow> s2mpu_info" where
  "set_gb start gb op dm s =
     (let l1 = l1entry_attrs s ! gb;
          l1' = (if op then l1 OR push_bit 1 (of_nat dm) else l1 AND NOT (push_bit 1 3));
          s1 = range_invalidate_mptc_vid_specific start S2_GRAN_1GB (writel (S2MPU_L1ENTRY_ATTR (unat (vid s)) gb) l1' s)
      in s1\<lparr>l1entry_attrs := (l1entry_attrs s1)[gb := l1']\<rparr>)"

definition set_entry :: "u64 \<Rightarrow> nat \<Rightarrow> s2_gran \<Rightarrow> bool \<Rightarrow> nat \<Rightarrow> s2mpu_info \<Rightarrow> stop + s2mpu_info" where
  "set_entry start gb eg op dm s =
     (case get_smpt_region s gb of
        None \<Rightarrow> Inr s
      | Some r \<Rightarrow>
          (let byte_offset = unat (get_byte_offset start eg); bit_offset = unat (get_bit_offset start eg)
           in if bit_offset \<ge> 8 \<or> odd bit_offset then Inr s
              else if byte_offset \<ge> length (smpt r) then Inl Fault
              else
                (let b = smpt r ! byte_offset;
                     b' = (if op then b OR push_bit bit_offset (of_nat dm) else b AND NOT (push_bit bit_offset 3))
                 in Inr (range_invalidate_mptc_vid_specific start eg (set_smpt (va r) ((smpt r)[byte_offset := b']) s)))))"

text \<open>The loop over granules, for a function that treats one.\<close>

fun open_close_granules :: "(u64 \<Rightarrow> s2mpu_info \<Rightarrow> stop + s2mpu_info) \<Rightarrow> s2_gran \<Rightarrow> nat \<Rightarrow> u64 \<Rightarrow> s2mpu_info \<Rightarrow> stop + s2mpu_info" where
  "open_close_granules visit g 0 start s = Inr s"
| "open_close_granules visit g (Suc k) start s =
     (case visit start s of
        Inl e \<Rightarrow> Inl e
      | Inr s1 \<Rightarrow> open_close_granules visit g k (start + push_bit (gran_shift g) 1) s1)"

primrec open_close_granule :: "nat \<Rightarrow> allocator \<Rightarrow> s2_gran \<Rightarrow> bool \<Rightarrow> dma_data_direction \<Rightarrow> u64 \<Rightarrow> s2mpu_info \<Rightarrow> stop + s2mpu_info" where
  "open_close_granule 0 = (\<lambda>mem g op dir start s. Inl Deep)"
| "open_close_granule (Suc n) = (\<lambda>mem g op dir start s.
     (let gb = unat (ucast (drop_bit (gran_shift S2_GRAN_1GB) start) :: u32); dm = dir_mask dir
      in if dir = DMA_NONE then Inr s
         else if gb \<ge> 64 then Inr s
         else
           (case l1_existing_granularity (l1entry_attrs s ! gb) of
              None \<Rightarrow> Inl Bug
            | Some eg \<Rightarrow>
                if eg = g then (if eg = S2_GRAN_1GB then Inr (set_gb start gb op dm s) else set_entry start gb eg op dm s)
                else if eg < g then
                  open_close_granules (open_close_granule n mem eg op dir) eg (2 ^ (gran_shift g - gran_shift eg)) start s
                else
                  (case decompose mem gb eg g s of
                     Inl e \<Rightarrow> Inl e
                   | Inr s1 \<Rightarrow> open_close_granule n mem g op dir start s1))))"

definition get_gran :: "u64 \<Rightarrow> s2_gran" where
  "get_gran num =
     (if num AND push_bit (gran_shift S2_GRAN_1GB) 0xFFFFFFFFFFFFFFFF = num then S2_GRAN_1GB
      else if num AND push_bit (gran_shift S2_GRAN_2MB) 0xFFFFFFFFFFFFFFFF = num then S2_GRAN_2MB
      else if num AND push_bit (gran_shift S2_GRAN_64KB) 0xFFFFFFFFFFFFFFFF = num then S2_GRAN_64KB
      else if num AND push_bit (gran_shift S2_GRAN_4KB) 0xFFFFFFFFFFFFFFFF = num then S2_GRAN_4KB
      else S2_GRAN_INVALID)"

text \<open>The macro tells, despite its name, whether a value is not aligned.\<close>

definition is_gran_aligned :: "u64 \<Rightarrow> s2_gran \<Rightarrow> bool" where
  "is_gran_aligned val g \<longleftrightarrow> val AND (push_bit (gran_shift g) WHI_PHY_ADDR_MASK AND WHI_PHY_ADDR_MASK) \<noteq> val"

definition validate :: "u64 \<Rightarrow> u64 \<Rightarrow> int" where
  "validate p len =
     (if p < WHI_RESERVED_START \<and> p + len > WHI_RESERVED_START then -1
      else if \<not> p < WHI_RESERVED_START \<and> p \<le> WHI_RESERVED_END then -1
      else if is_gran_aligned p S2_GRAN_4KB then -1
      else if is_gran_aligned len S2_GRAN_4KB then -1
      else 0)"

definition s2mpu_lib_open_close :: "nat \<Rightarrow> allocator \<Rightarrow> u64 \<Rightarrow> u64 \<Rightarrow> bool \<Rightarrow> dma_data_direction \<Rightarrow> s2mpu_info \<Rightarrow> stop + (int \<times> s2mpu_info)" where
  "s2mpu_lib_open_close stack mem start len op dir s =
     (let ret = validate start len; ag = get_gran start; lg = get_gran len; winnerg = (if ag < lg then ag else lg)
      in if ret \<noteq> 0 then Inr (ret, s)
         else if ag = S2_GRAN_INVALID \<or> lg = S2_GRAN_INVALID then Inr (- EINVAL, s)
         else
           (case open_close_granules (open_close_granule stack mem winnerg op dir) winnerg (unat (drop_bit (gran_shift winnerg) len)) start s of
              Inl e \<Rightarrow> Inl e
            | Inr s1 \<Rightarrow> Inr (ret, s1)))"

definition s2mpu_lib_restore :: "s2mpu_info \<Rightarrow> int \<times> s2mpu_info" where
  "s2mpu_lib_restore s =
     (let n = unat (vid s);
          s1 = writes (concat (map (\<lambda>gb. [(S2MPU_L1ENTRY_L2TABLE_ADDR n gb, l2table_addrs s ! gb), (S2MPU_L1ENTRY_ATTR n gb, l1entry_attrs s ! gb)]) (gb_low @ gb_high))) s
      in (0, writes [(0x0, 1 OR push_bit 1 1 OR push_bit 2 1), (0x1000, 1)] (open_vid0 s1)))"

subsection \<open>The driver\<close>

text \<open>\<^verbatim>\<open>s2mpu-core.c\<close>. \<open>None\<close> is a NULL pointer.\<close>

definition s2mpu_open :: "nat \<Rightarrow> allocator \<Rightarrow> s2mpu_info option \<Rightarrow> u64 \<Rightarrow> u64 \<Rightarrow> dma_data_direction \<Rightarrow> stop + (int \<times> s2mpu_info option)" where
  "s2mpu_open stack mem info start len dir =
     (case info of
        None \<Rightarrow> Inr (- EINVAL, None)
      | Some s \<Rightarrow> map_sum id (map_prod id Some) (s2mpu_lib_open_close stack mem start len True dir s))"

definition s2mpu_close :: "nat \<Rightarrow> allocator \<Rightarrow> s2mpu_info option \<Rightarrow> u64 \<Rightarrow> u64 \<Rightarrow> dma_data_direction \<Rightarrow> stop + (int \<times> s2mpu_info option)" where
  "s2mpu_close stack mem info start len dir =
     (case info of
        None \<Rightarrow> Inr (- EINVAL, None)
      | Some s \<Rightarrow> map_sum id (map_prod id Some) (s2mpu_lib_open_close stack mem start len False dir s))"

definition s2mpu_restore :: "s2mpu_info option \<Rightarrow> int \<times> s2mpu_info option" where
  "s2mpu_restore info =
     (case info of
        None \<Rightarrow> (- EINVAL, None)
      | Some s \<Rightarrow> map_prod id Some (s2mpu_lib_restore s))"

text \<open>
  The instances of the driver, in the order of \<^verbatim>\<open>info_list\<close>, with their firmware node. What the device tree and the
  kernel answer to \<^verbatim>\<open>s2mpu_probe\<close> is a record; the two mappings are 0 or an error.
\<close>

type_synonym info_list = "(nat \<times> s2mpu_info) list"

definition s2mpu_fwnode_to_info :: "nat \<Rightarrow> info_list \<Rightarrow> s2mpu_info option" where
  "s2mpu_fwnode_to_info node l = map_option snd (find (\<lambda>e. fst e = node) l)"

record probe_env =
  res_s2mpu :: bool
  map_s2mpu :: int
  res_ssmt :: bool
  map_ssmt :: int
  of_vid :: "int + u32"
  of_sid_count :: int
  mem_sids :: bool
  of_sids :: "int + u32 list"
  mem_info :: bool
  old_l1 :: "u32 list"
  old_l2 :: "u32 list"
  regs0 :: "nat \<Rightarrow> u32"
  ssmt0 :: "nat \<Rightarrow> u32"

text \<open>The result \<open>None\<close> is a fault: the NULL pointer of \<^verbatim>\<open>s2mpu_lib_init\<close> is not an error pointer. The request of the interrupt has no influence.\<close>

definition s2mpu_probe :: "probe_env \<Rightarrow> nat \<Rightarrow> info_list \<Rightarrow> (int \<times> info_list) option" where
  "s2mpu_probe e node l =
     (if \<not> res_s2mpu e then Some (- EINVAL, l)
      else if map_s2mpu e \<noteq> 0 then Some (map_s2mpu e, l)
      else if \<not> res_ssmt e then Some (- EINVAL, l)
      else if map_ssmt e \<noteq> 0 then Some (map_ssmt e, l)
      else
        (case of_vid e of
           Inl ret \<Rightarrow> Some (ret, l)
         | Inr v \<Rightarrow>
             if v \<ge> 8 then Some (- EINVAL, l)
             else if of_sid_count e < 0 then Some (- EINVAL, l)
             else if \<not> mem_sids e then Some (- ENOMEM, l)
             else
               (case of_sids e of
                  Inl ret \<Rightarrow> Some (ret, l)
                | Inr sd \<Rightarrow>
                    (case s2mpu_lib_init (mem_info e) (old_l1 e) (old_l2 e) (regs0 e) (ssmt0 e) (ucast v) sd of
                       None \<Rightarrow> None
                     | Some (Inl ret) \<Rightarrow> Some (ret, l)
                     | Some (Inr info) \<Rightarrow> Some (0, l @ [(node, info)])))))"

text \<open>The instance stays in \<^verbatim>\<open>info_list\<close>.\<close>

definition s2mpu_remove :: "nat \<Rightarrow> info_list \<Rightarrow> int \<times> info_list" where
  "s2mpu_remove node l = (0, map (\<lambda>(k, s). if k = node then (k, s2mpu_lib_deinit s) else (k, s)) l)"

end
