(* ===== verification/S2mpuTab.thy ===== *)
theory S2mpuTab
  imports S2mpu
begin

text \<open>
  The tables of the protection unit. \<open>entry t n\<close> is the two bits of granule \<open>n\<close>. Splitting a table gives every
  new granule the bits of the old one it is part of.
\<close>

subsection \<open>Entries\<close>

definition entry :: "u8 list \<Rightarrow> nat \<Rightarrow> u8" where
  "entry t n = drop_bit (2 * (n mod 4)) (t ! (n div 4)) AND 3"

lemma bit_3 [simp]: "bit (3 :: int) n \<longleftrightarrow> n < 2"
proof -
  have m: "(3 :: int) = mask 2" by (simp add: mask_eq_exp_minus_1)
  show ?thesis unfolding m by (simp only: bit_mask_iff possible_bit_int simp_thms)
qed

lemma and_3_less: "d AND 3 = d \<Longrightarrow> bit d n \<Longrightarrow> n < (2 :: nat)" for d :: "'a :: len word"
  by (metis bit_3 bit_and_iff bit_numeral_word_iff)

lemma less_4_cases: "(e :: nat) < 4 \<Longrightarrow> e = 0 \<or> e = 1 \<or> e = 2 \<or> e = 3"
  by arith

lemma and_3_cases:
  fixes x :: "'a :: len word"
  shows "x AND 3 = 0 \<or> x AND 3 = 1 \<or> x AND 3 = 2 \<or> x AND 3 = 3"
proof -
  have "x AND 3 = of_bool (bit x 0) + 2 * of_bool (bit x 1 \<and> 1 < LENGTH('a))"
    by (rule bit_word_eqI) (auto simp: bit_simps less_2_cases_iff le_Suc_eq)
  then show ?thesis by auto
qed

lemma extend_entry:
  assumes "e < 4"
  shows "drop_bit (2 * e) (extend_to_byte (x AND 3)) AND 3 = x AND 3"
  using less_4_cases [OF assms] and_3_cases [of x] by (elim disjE; simp add: extend_to_byte_def)

lemma entry_byte_or:
  assumes "e < 4" and "f < 4" and "d AND 3 = d"
  shows "drop_bit (2 * f) (b OR push_bit (2 * e) d) AND 3 = (if f = e then (drop_bit (2 * f) b AND 3) OR d else drop_bit (2 * f) b AND (3 :: u8))"
  using less_4_cases [OF assms(1)] less_4_cases [OF assms(2)] by (intro bit_word_eqI) (auto simp: bit_simps dest: and_3_less [OF assms(3)])

lemma entry_byte_clear:
  assumes "e < 4" and "f < 4"
  shows "drop_bit (2 * f) (b AND NOT (push_bit (2 * e) 3)) AND 3 = (if f = e then 0 else drop_bit (2 * f) b AND (3 :: u8))"
  using less_4_cases [OF assms(1)] less_4_cases [OF assms(2)] by (intro bit_word_eqI) (auto simp: bit_simps)

lemma entry_update:
  assumes "n div 4 < length t" and "\<And>f. f < 4 \<Longrightarrow> drop_bit (2 * f) b' AND 3 = (if f = n mod 4 then v (drop_bit (2 * f) (t ! (n div 4)) AND 3) else drop_bit (2 * f) (t ! (n div 4)) AND 3)"
  shows "entry (t[n div 4 := b']) m = (if m = n then v (entry t n) else entry t m)"
proof (cases "m div 4 = n div 4")
  case True
  then have "entry (t[n div 4 := b']) m = drop_bit (2 * (m mod 4)) b' AND 3" using assms(1) by (simp add: entry_def)
  also have "\<dots> = (if m mod 4 = n mod 4 then v (entry t m) else entry t m)" using assms(2) [of "m mod 4"] True by (simp add: entry_def)
  also have "m mod 4 = n mod 4 \<longleftrightarrow> m = n" using True by (metis div_mult_mod_eq)
  finally show ?thesis by auto
qed (auto simp: entry_def)

subsection \<open>Filling\<close>

lemma nth_upd: "i < length t \<Longrightarrow> t[k := b] ! i = (if k = i then b else t ! i)"
  by (cases "k = i") simp_all

lemma foldl_fill:
  assumes "j \<le> l"
  shows "length (foldl (\<lambda>t k. t[a + k := b]) t [j..<l]) = length t"
    "i < length t \<Longrightarrow> foldl (\<lambda>t k. t[a + k := b]) t [j..<l] ! i = (if a + j \<le> i \<and> i < a + l then b else t ! i)"
proof -
  have "length (foldl (\<lambda>t k. t[a + k := b]) t [j..<l]) = length t
    \<and> (\<forall>i < length t. foldl (\<lambda>t k. t[a + k := b]) t [j..<l] ! i = (if a + j \<le> i \<and> i < a + l then b else t ! i))"
    using assms by (induction l rule: dec_induct) (auto simp: nth_upd)
  then show "length (foldl (\<lambda>t k. t[a + k := b]) t [j..<l]) = length t"
    "i < length t \<Longrightarrow> foldl (\<lambda>t k. t[a + k := b]) t [j..<l] ! i = (if a + j \<le> i \<and> i < a + l then b else t ! i)" by blast+
qed

lemma expand_byte_ok:
  assumes "0 < q"
  shows "length (expand_byte (4 * q) a cb t) = length t"
    "i < length t \<Longrightarrow> expand_byte (4 * q) a cb t ! i =
      (if a \<le> i \<and> i < a + 4 * q then extend_to_byte (drop_bit (2 * ((i - a) div q)) cb AND 3) else t ! i)"
proof -
  define fill where "fill j l b t = foldl (\<lambda>t k. t[a + k := b]) t [j..<l]" for j l and b :: u8 and t
  have f: "j \<le> l \<Longrightarrow> length (fill j l b t) = length t" "j \<le> l \<Longrightarrow> i < length t \<Longrightarrow> fill j l b t ! i = (if a + j \<le> i \<and> i < a + l then b else t ! i)" for j l b t i
    using foldl_fill [where a = a and b = b and t = t and j = j and l = l] by (simp_all add: fill_def)
  let ?b = "\<lambda>e. extend_to_byte (drop_bit (2 * e) cb AND 3)"
  have e: "expand_byte (4 * q) a cb t = fill (q + q + q) (q + q + q + q) (?b 3) (fill (q + q) (q + q + q) (?b 2) (fill q (q + q) (?b 1) (fill 0 q (?b 0) t)))"
    by (simp add: expand_byte_def fill_def Let_def)
  show len: "length (expand_byte (4 * q) a cb t) = length t" by (simp add: e f(1))
  assume i: "i < length t"
  have q: "(i - a) div q = k" if "a + k * q \<le> i" "i < a + k * q + q" for k
    using that assms by (intro div_nat_eqI) (auto simp: mult.commute less_diff_conv2 le_diff_conv2)
  show "expand_byte (4 * q) a cb t ! i = (if a \<le> i \<and> i < a + 4 * q then ?b ((i - a) div q) else t ! i)"
    using i q [of 0] q [of 1] q [of 2] q [of 3] unfolding e by (simp add: f)
qed

lemma copy_decompose_ok:
  assumes ns: "n \<le> c" "c \<le> 28" "2 \<le> c - n" and len: "length curr_t = s2_table_size c" "length new_t = s2_table_size n"
  shows "\<exists>t. copy_decompose c curr_t n new_t = Some t \<and> length t = s2_table_size n \<and> (\<forall>k < 4 * s2_table_size n. entry t k = entry curr_t (k div 2 ^ (c - n)))"
proof -
  define q where "q = (2 :: nat) ^ (c - n - 2)"
  have q: "0 < q" "2 ^ (c - n) = 4 * q" using ns(3) power_add [of "2 :: nat" 2 "c - n - 2"] unfolding le_add_diff_inverse [OF ns(3)] q_def by simp_all
  have per: "2 ^ c div 2 ^ n = 4 * q" using power_diff [of "2 :: nat" n c] ns(1) q(2) by simp
  have p30: "(2 :: nat) ^ 30 div 2 ^ k div 4 = 2 ^ (28 - k)" if "k \<le> 28" for k
  proof -
    have "(2 :: nat) ^ 30 = 2 ^ (28 - k) * 4 * 2 ^ k" using that power_add [of "2 :: nat" "28 - k" k] by (simp add: mult.commute)
    then show ?thesis by (metis nonzero_mult_div_cancel_right power_eq_0_iff zero_neq_numeral)
  qed
  define L where "L = (2 :: nat) ^ (28 - c)"
  have sz: "s2_table_size c = L" "s2_table_size n = L * (4 * q)"
    using p30 [of c] p30 [of n] ns power_add [of "2 :: nat" "28 - c" "c - n"] by (simp_all add: s2_table_size_def L_def q(2))
  define step where "step = (\<lambda>t i. expand_byte (4 * q) (i * (4 * q)) (curr_t ! i) t)"
  have call: "copy_decompose c curr_t n new_t = Some (foldl step new_t [0..<L])"
  proof -
    have "i * 4 * 2 ^ (c - n) div 4 = i * (4 * q)" for i unfolding q(2) by simp
    then show ?thesis using len sz p30 [OF ns(2)] by (simp add: copy_decompose_def Let_def per L_def step_def q(2) sz) (simp only: mult.left_commute [of _ 4])
  qed
  have st: "length (step t i) = length t" "j < length t \<Longrightarrow> step t i ! j = (if i * (4 * q) \<le> j \<and> j < i * (4 * q) + 4 * q then extend_to_byte (drop_bit (2 * ((j - i * (4 * q)) div q)) (curr_t ! i) AND 3) else t ! j)" for t i j
    using expand_byte_ok [OF q(1), where a = "i * (4 * q)" and cb = "curr_t ! i" and t = t] by (simp_all add: step_def)
  have loop: "length (foldl step new_t [0..<m]) = length new_t \<and>
      (\<forall>j < length new_t. foldl step new_t [0..<m] ! j = (if j < m * (4 * q) then extend_to_byte (entry curr_t (j div q)) else new_t ! j))" for m
  proof (induction m)
    case (Suc m)
    have "extend_to_byte (drop_bit (2 * ((j - m * (4 * q)) div q)) (curr_t ! m) AND 3) = extend_to_byte (entry curr_t (j div q))"
      if "m * (4 * q) \<le> j" "j < m * (4 * q) + 4 * q" for j
    proof -
      define r where "r = j - m * (4 * q)"
      have j: "j = 4 * m * q + r" "r < 4 * q" using that by (simp_all add: r_def)
      have "j div q = 4 * m + r div q" using q(1) by (simp add: j(1) add.commute)
      moreover have "r div q < 4" using j(2) q(1) by (simp add: less_mult_imp_div_less)
      ultimately have "j div q div 4 = m" "j div q mod 4 = r div q" by simp_all
      then show ?thesis by (simp add: entry_def r_def)
    qed
    then show ?case using Suc st by (auto simp: not_le)
  qed simp
  let ?t = "foldl step new_t [0..<L]"
  have "entry ?t k = entry curr_t (k div 2 ^ (c - n))" if "k < 4 * s2_table_size n" for k
  proof -
    have "?t ! (k div 4) = extend_to_byte (entry curr_t (k div 4 div q))" using loop [of L] that sz len(2) by auto
    then have "entry ?t k = entry curr_t (k div 4 div q)" using extend_entry [of "k mod 4"] by (simp add: entry_def)
    then show ?thesis by (simp add: q(2) div_mult2_eq)
  qed
  then show ?thesis using call loop [of L] len(2) by auto
qed

lemma copy_decompose_gb_ok:
  assumes "length t = s2_table_size n"
  shows "length (copy_decompose_gb x t (s2_table_size n)) = s2_table_size n"
    "k < 4 * s2_table_size n \<Longrightarrow> entry (copy_decompose_gb x t (s2_table_size n)) k = x AND 3"
proof -
  note f = foldl_fill [where a = 0 and b = "extend_to_byte (x AND 3)" and t = t, OF le0 [of "s2_table_size n"], simplified]
  show "length (copy_decompose_gb x t (s2_table_size n)) = s2_table_size n" using f assms by (simp add: copy_decompose_gb_def)
  assume "k < 4 * s2_table_size n"
  then show "entry (copy_decompose_gb x t (s2_table_size n)) k = x AND 3"
    using f(2) [of "k div 4"] assms extend_entry [of "k mod 4" x] by (simp add: copy_decompose_gb_def entry_def less_mult_imp_div_less mult.commute)
qed

end
