(* ===== verification/S2mpuPerm.thy ===== *)
theory S2mpuPerm
  imports S2mpuTab
begin

text \<open>
  What the protection unit grants. \<open>granted s v p\<close> reads, for the stream identifier \<open>v\<close> and the page number \<open>p\<close>, the registers
  and tables in the way the unit does: bit 0 allows reading, bit 1 writing. \<open>s2_ok\<close> is the invariant: the
  registers agree with the copy that the driver keeps, every gigabyte that is split has a table of
  its own of the right size, and there are no other tables.
\<close>

subsection \<open>Addresses\<close>

definition page_index :: "s2_gran \<Rightarrow> nat \<Rightarrow> nat" where
  "page_index g p = p mod 2 ^ 18 div 2 ^ (gran_shift g - 12)"

lemma unat_and_mask: "unat (w AND mask n :: u64) = unat w mod 2 ^ n"
proof -
  have "unat (take_bit n w) = take_bit n (unat w)" by (simp only: unsigned_take_bit_eq)
  then show ?thesis unfolding take_bit_eq_mask [symmetric] by (simp add: take_bit_eq_mod [of n "unat w"])
qed

lemma unat_and_3: "unat (w AND 3 :: u64) = unat w mod 4"
  using unat_and_mask [of w 2] by (simp add: mask_eq_exp_minus_1)

lemma unat_and_gb: "unat (w AND 0x3FFFFFFF :: u64) = unat w mod 2 ^ 30"
  using unat_and_mask [of w 30] by (simp add: mask_eq_exp_minus_1)

lemma unat_shift [simp]: "unat (drop_bit n w) = unat w div 2 ^ n"
  by (simp only: unat_drop_bit_eq) (simp add: drop_bit_eq_div)

definition small :: "s2_gran \<Rightarrow> bool" where
  "small g \<longleftrightarrow> g = S2_GRAN_4KB \<or> g = S2_GRAN_64KB \<or> g = S2_GRAN_2MB"

lemma offsets:
  assumes "unat a = 4096 * p" and "small g"
  shows "unat (get_byte_offset a g) = page_index g p div 4" "unat (get_bit_offset a g) = 2 * (page_index g p mod 4)"
proof -
  have "4096 * p mod 2 ^ 30 = 4096 * (p mod 2 ^ 18)" by (simp add: mult_mod_right)
  moreover have "4096 * x div 2 ^ gran_shift g = x div 2 ^ (gran_shift g - 12)" for x :: nat
    using assms(2) div_mult2_eq [of "4096 * x" 4096 1] div_mult2_eq [of "4096 * x" 4096 16] div_mult2_eq [of "4096 * x" 4096 512] by (auto simp: small_def)
  ultimately have i: "unat (drop_bit (gran_shift g) (a AND 0x3FFFFFFF)) = page_index g p"
    unfolding unat_shift unat_and_gb assms(1) page_index_def by simp
  then show "unat (get_byte_offset a g) = page_index g p div 4" unfolding get_byte_offset_def unat_shift [of 2] by simp
  define w where "w = drop_bit (gran_shift g) (a AND 0x3FFFFFFF)"
  have "unat (push_bit 1 (w AND 3)) = 2 * unat (w AND 3)" using and_3_cases [of w] by (elim disjE) simp_all
  then show "unat (get_bit_offset a g) = 2 * (page_index g p mod 4)" using i unfolding get_bit_offset_def w_def unat_and_3 by simp
qed

lemma page_index_less: "small g \<Longrightarrow> page_index g p < 4 * s2_table_size (gran_shift g)"
  by (auto simp: small_def page_index_def s2_table_size_def less_mult_imp_div_less)

lemma page_index_split:
  assumes "small g" and "small h" and "h < g"
  shows "page_index h p div 2 ^ (gran_shift g - gran_shift h) = page_index g p"
proof -
  have "(h = S2_GRAN_4KB \<and> g = S2_GRAN_64KB) \<or> (h = S2_GRAN_4KB \<and> g = S2_GRAN_2MB) \<or> (h = S2_GRAN_64KB \<and> g = S2_GRAN_2MB)"
    using assms by (auto simp: small_def less_s2_gran_def)
  then show ?thesis using div_mult2_eq [of "p mod 262144" 16 32] by (auto simp: page_index_def)
qed

subsection \<open>Registers\<close>

lemma reg_alt: "S2MPU_L1ENTRY_ATTR n m = 8 * (2048 + 64 * n + m) + 4" "S2MPU_L1ENTRY_L2TABLE_ADDR n m = 8 * (2048 + 64 * n + m)"
  by (simp_all add: S2MPU_L1ENTRY_ATTR_def S2MPU_L1ENTRY_L2TABLE_ADDR_def)

lemma reg_kind: "S2MPU_L1ENTRY_ATTR n m mod 8 = 4" "S2MPU_L1ENTRY_L2TABLE_ADDR n m mod 8 = 0"
  unfolding reg_alt by (simp_all only: mod_mult_self4 mod_mult_self1_is_0) simp_all

lemma reg_distinct [simp]:
  "S2MPU_L1ENTRY_ATTR n m = S2MPU_L1ENTRY_ATTR n m' \<longleftrightarrow> m = m'" "S2MPU_L1ENTRY_L2TABLE_ADDR n m = S2MPU_L1ENTRY_L2TABLE_ADDR n m' \<longleftrightarrow> m = m'"
  "S2MPU_L1ENTRY_ATTR n m \<noteq> S2MPU_L1ENTRY_L2TABLE_ADDR n' m'" "S2MPU_L1ENTRY_L2TABLE_ADDR n' m' \<noteq> S2MPU_L1ENTRY_ATTR n m"
proof -
  show "S2MPU_L1ENTRY_ATTR n m = S2MPU_L1ENTRY_ATTR n m' \<longleftrightarrow> m = m'" "S2MPU_L1ENTRY_L2TABLE_ADDR n m = S2MPU_L1ENTRY_L2TABLE_ADDR n m' \<longleftrightarrow> m = m'"
    unfolding reg_alt by simp_all
  show "S2MPU_L1ENTRY_ATTR n m \<noteq> S2MPU_L1ENTRY_L2TABLE_ADDR n' m'" "S2MPU_L1ENTRY_L2TABLE_ADDR n' m' \<noteq> S2MPU_L1ENTRY_ATTR n m"
    using reg_kind(1) [of n m] reg_kind(2) [of n' m'] by auto
qed

lemma reg_low [simp]:
  "a < 0x4000 \<Longrightarrow> S2MPU_L1ENTRY_ATTR n m \<noteq> a" "a < 0x4000 \<Longrightarrow> S2MPU_L1ENTRY_L2TABLE_ADDR n m \<noteq> a"
  by (auto simp: reg_alt)

lemma attr_inj:
  assumes "m < 64" and "m' < 64"
  shows "S2MPU_L1ENTRY_ATTR n m = S2MPU_L1ENTRY_ATTR n' m' \<longleftrightarrow> n = n' \<and> m = m'"
proof
  assume "S2MPU_L1ENTRY_ATTR n m = S2MPU_L1ENTRY_ATTR n' m'"
  then have e: "64 * n + m = 64 * n' + m'" unfolding reg_alt by simp
  have "(64 * n + m) div 64 = n" "(64 * n' + m') div 64 = n'" using assms by simp_all
  then show "n = n' \<and> m = m'" using e by simp
qed simp

lemma writel_fields [simp]:
  "l1entry_attrs (writel a x s) = l1entry_attrs s" "l2table_addrs (writel a x s) = l2table_addrs s" "smpt_regions (writel a x s) = smpt_regions s"
  "sids (writel a x s) = sids s" "vid (writel a x s) = vid s" "hw (writel a x s) = (hw s)(a := x)" "ssmt (writel a x s) = ssmt s" "allocs (writel a x s) = allocs s"
  by (simp_all add: writel_def)

lemma writes_simps [simp]: "writes [] s = s" "writes ((a, x) # ws) s = writes ws (writel a x s)" "writes (xs @ ys) s = writes ys (writes xs s)"
  by (simp_all add: writes_def)

lemma writes_fields [simp]:
  "l1entry_attrs (writes ws s) = l1entry_attrs s" "l2table_addrs (writes ws s) = l2table_addrs s" "smpt_regions (writes ws s) = smpt_regions s"
  "sids (writes ws s) = sids s" "vid (writes ws s) = vid s" "ssmt (writes ws s) = ssmt s" "allocs (writes ws s) = allocs s"
  by (induction ws arbitrary: s) auto

lemma writes_hw: "a \<notin> fst ` set ws \<Longrightarrow> hw (writes ws s) a = hw s a"
  by (induction ws arbitrary: s) auto

subsection \<open>Regions\<close>

definition regions_ok :: "smpt_region list \<Rightarrow> bool" where
  "regions_ok rs \<longleftrightarrow> distinct (map va rs) \<and> distinct (map pa rs) \<and> 0 \<notin> va ` set rs"

definition tab_at :: "smpt_region list \<Rightarrow> u64 \<Rightarrow> u8 list option" where
  "tab_at rs p = map_option smpt (find (\<lambda>r. pa r = p) rs)"

lemma find_pa: "distinct (map pa rs) \<Longrightarrow> r \<in> set rs \<Longrightarrow> find (\<lambda>x. pa x = pa r) rs = Some r"
  by (induction rs) (auto dest: imageI)

lemma tab_at_Some: "tab_at rs p = Some t \<longleftrightarrow> (\<exists>r. find (\<lambda>r. pa r = p) rs = Some r \<and> smpt r = t)"
  by (auto simp: tab_at_def)

lemma find_paD: "find (\<lambda>r. pa r = p) rs = Some r \<Longrightarrow> r \<in> set rs \<and> pa r = p"
  by (induction rs) (auto split: if_splits)

lemma tab_at_None: "tab_at rs p = None \<longleftrightarrow> p \<notin> pa ` set rs"
  by (induction rs) (auto simp: tab_at_def)

lemma va_inj: "regions_ok rs \<Longrightarrow> r \<in> set rs \<Longrightarrow> r' \<in> set rs \<Longrightarrow> va r = va r' \<longleftrightarrow> r = r'"
  by (auto simp: regions_ok_def distinct_map inj_on_def)

lemma pa_inj: "regions_ok rs \<Longrightarrow> r \<in> set rs \<Longrightarrow> r' \<in> set rs \<Longrightarrow> pa r = pa r' \<longleftrightarrow> r = r'"
  by (auto simp: regions_ok_def distinct_map inj_on_def)

lemma set_smpt_regions:
  assumes "regions_ok (smpt_regions s)" and "r \<in> set (smpt_regions s)"
  shows "regions_ok (smpt_regions (set_smpt (va r) t s))" "tab_at (smpt_regions (set_smpt (va r) t s)) = (tab_at (smpt_regions s))(pa r \<mapsto> t)"
proof -
  define f where "f x = (if va x = va r then x\<lparr>smpt := t\<rparr> else x)" for x :: smpt_region
  have rs: "smpt_regions (set_smpt (va r) t s) = map f (smpt_regions s)" by (simp add: set_smpt_def f_def [abs_def])
  have f: "va (f x) = va x" "pa (f x) = pa x" for x by (simp_all add: f_def)
  have m: "map va (map f xs) = map va xs" "map pa (map f xs) = map pa xs" "va ` f ` X = va ` X" for xs X by (auto simp: f image_iff)
  show "regions_ok (smpt_regions (set_smpt (va r) t s))" using assms(1) unfolding rs regions_ok_def m set_map by simp
  have fd: "find (\<lambda>x. pa x = p) (map f xs) = map_option f (find (\<lambda>x. pa x = p) xs)" for p xs by (induction xs) (simp_all add: f)
  show "tab_at (smpt_regions (set_smpt (va r) t s)) = (tab_at (smpt_regions s))(pa r \<mapsto> t)"
  proof
    fix p
    show "tab_at (smpt_regions (set_smpt (va r) t s)) p = ((tab_at (smpt_regions s))(pa r \<mapsto> t)) p"
    proof (cases "p = pa r")
      case True
      have "find (\<lambda>x. pa x = p) (smpt_regions s) = Some r" using find_pa [OF _ assms(2)] assms(1) True by (simp add: regions_ok_def)
      then show ?thesis using True by (simp add: tab_at_def rs fd f_def)
    next
      case False
      have "smpt (f x) = smpt x" if "find (\<lambda>x. pa x = p) (smpt_regions s) = Some x" for x
        using find_paD [OF that] False va_inj [OF assms(1) _ assms(2), of x] by (auto simp: f_def)
      then show ?thesis using False by (cases "find (\<lambda>x. pa x = p) (smpt_regions s)") (simp_all add: tab_at_def rs fd)
    qed
  qed
qed

lemma remove_va_eq: "distinct (map va rs) \<Longrightarrow> remove_va v rs = filter (\<lambda>r. va r \<noteq> v) rs"
proof (induction rs)
  case (Cons r rs)
  then have "va r = v \<Longrightarrow> filter (\<lambda>r. va r \<noteq> v) rs = rs" by (intro filter_True) (auto simp: image_iff)
  with Cons show ?case by auto
qed simp

lemma free_smpt_regions:
  assumes "regions_ok (smpt_regions s)" and "r \<in> set (smpt_regions s)"
  shows "regions_ok (smpt_regions (free_smpt (va r) s))" "tab_at (smpt_regions (free_smpt (va r) s)) = (tab_at (smpt_regions s))(pa r := None)"
proof -
  have "va r \<noteq> 0" using assms by (auto simp: regions_ok_def image_iff)
  then have rs: "smpt_regions (free_smpt (va r) s) = filter (\<lambda>x. va x \<noteq> va r) (smpt_regions s)"
    using remove_va_eq [of "smpt_regions s"] assms(1) by (simp add: free_smpt_def regions_ok_def)
  show "regions_ok (smpt_regions (free_smpt (va r) s))" using assms(1) by (auto simp: rs regions_ok_def distinct_map_filter)
  have fd: "find (\<lambda>x. pa x = p) (filter (\<lambda>x. va x \<noteq> va r) xs) = (if p = pa r then None else find (\<lambda>x. pa x = p) xs)" if "set xs \<subseteq> set (smpt_regions s)" for p xs
    using that
  proof (induction xs)
    case (Cons x xs)
    have "va x = va r \<longleftrightarrow> x = r" "pa x = pa r \<longleftrightarrow> x = r" using Cons.prems va_inj [OF assms(1) _ assms(2)] pa_inj [OF assms(1) _ assms(2)] by auto
    with Cons show ?case by auto
  qed simp
  show "tab_at (smpt_regions (free_smpt (va r) s)) = (tab_at (smpt_regions s))(pa r := None)"
    by (rule ext) (simp add: tab_at_def rs fd [OF subset_refl])
qed

lemma cons_regions:
  "tab_at (r # rs) = (tab_at rs)(pa r \<mapsto> smpt r)"
  "regions_ok rs \<Longrightarrow> va r \<noteq> 0 \<Longrightarrow> va r \<notin> va ` set rs \<Longrightarrow> pa r \<notin> pa ` set rs \<Longrightarrow> regions_ok (r # rs)"
  by (auto simp: tab_at_def regions_ok_def)

end
