(* ===== verification/S2mpuInv.thy ===== *)
theory S2mpuInv
  imports S2mpuPerm
begin

text \<open>The invariant of the protection tables and what a change of one gigabyte does to it.\<close>

subsection \<open>The invariant\<close>

definition gb_ok :: "nat \<Rightarrow> bool" where
  "gb_ok gb \<longleftrightarrow> gb < 4 \<or> 34 \<le> gb \<and> gb < 64"

definition page_ok :: "nat \<Rightarrow> bool" where
  "page_ok p \<longleftrightarrow> gb_ok (p div 2 ^ 18)"

abbreviation attr :: "s2mpu_info \<Rightarrow> nat \<Rightarrow> u32" where "attr s gb \<equiv> l1entry_attrs s ! gb"
abbreviation tabs :: "s2mpu_info \<Rightarrow> u64 \<Rightarrow> u8 list option" where "tabs s \<equiv> tab_at (smpt_regions s)"

definition table_pa :: "u32 \<Rightarrow> u64" where
  "table_pa a = push_bit 4 (ucast a)"

abbreviation l2pa :: "s2mpu_info \<Rightarrow> nat \<Rightarrow> u64" where "l2pa s gb \<equiv> table_pa (l2table_addrs s ! gb)"

definition l1_bits :: "u32 \<Rightarrow> u8" where
  "l1_bits a = ucast (push_bit 1 (wr_access a) OR rd_access a)"

definition granted :: "s2mpu_info \<Rightarrow> nat \<Rightarrow> nat \<Rightarrow> u8" where
  "granted s v p =
     (let gb = p div 2 ^ 18; a = hw s (S2MPU_L1ENTRY_ATTR v gb)
      in if l2table_en a = 0 then l1_bits a
         else
           (case (l1_existing_granularity a, tabs s (table_pa (hw s (S2MPU_L1ENTRY_L2TABLE_ADDR v gb)))) of
              (Some g, Some t) \<Rightarrow> entry t (page_index g p)
            | _ \<Rightarrow> 0))"

abbreviation perm :: "s2mpu_info \<Rightarrow> nat \<Rightarrow> u8" where "perm s \<equiv> granted s (unat (vid s))"

definition has_table :: "s2mpu_info \<Rightarrow> nat \<Rightarrow> bool" where
  "has_table s gb \<longleftrightarrow> gb_ok gb \<and> l2table_en (attr s gb) \<noteq> 0"

definition gb_consistent :: "s2mpu_info \<Rightarrow> nat \<Rightarrow> bool" where
  "gb_consistent s gb \<longleftrightarrow> hw s (S2MPU_L1ENTRY_ATTR (unat (vid s)) gb) = attr s gb
     \<and> (has_table s gb \<longrightarrow> hw s (S2MPU_L1ENTRY_L2TABLE_ADDR (unat (vid s)) gb) = l2table_addrs s ! gb
          \<and> (\<exists>g t. l1_existing_granularity (attr s gb) = Some g \<and> tabs s (l2pa s gb) = Some t \<and> length t = s2_table_size (gran_shift g)))"

definition s2_ok :: "s2mpu_info \<Rightarrow> bool" where
  "s2_ok s \<longleftrightarrow> length (l1entry_attrs s) = 64 \<and> length (l2table_addrs s) = 64 \<and> vid s \<le> 1 \<and> regions_ok (smpt_regions s)
     \<and> (\<forall>gb. gb_ok gb \<longrightarrow> gb_consistent s gb)
     \<and> (\<forall>gb k. has_table s gb \<longrightarrow> has_table s k \<longrightarrow> l2pa s gb = l2pa s k \<longrightarrow> gb = k)
     \<and> (\<forall>q. tabs s q \<noteq> None \<longrightarrow> (\<exists>gb. has_table s gb \<and> q = l2pa s gb))"

lemma s2_okD:
  assumes "s2_ok s"
  shows "length (l1entry_attrs s) = 64" "length (l2table_addrs s) = 64" "vid s \<le> 1" "regions_ok (smpt_regions s)" "gb_ok gb \<Longrightarrow> gb_consistent s gb"
    "has_table s gb \<Longrightarrow> has_table s k \<Longrightarrow> l2pa s gb = l2pa s k \<Longrightarrow> gb = k" "tabs s q \<noteq> None \<Longrightarrow> \<exists>gb. has_table s gb \<and> q = l2pa s gb"
  using assms unfolding s2_ok_def by blast+

lemma gb_ok_less: "gb_ok gb \<Longrightarrow> gb < 64"
  by (auto simp: gb_ok_def)

lemma perm_plain: "s2_ok s \<Longrightarrow> page_ok p \<Longrightarrow> \<not> has_table s (p div 2 ^ 18) \<Longrightarrow> perm s p = l1_bits (attr s (p div 2 ^ 18))"
  using s2_okD(5) [of s "p div 2 ^ 18"] by (simp add: granted_def Let_def page_ok_def gb_consistent_def has_table_def)

lemma perm_table:
  assumes "s2_ok s" and "page_ok p" and "has_table s (p div 2 ^ 18)" and "l1_existing_granularity (attr s (p div 2 ^ 18)) = Some g" and "tabs s (l2pa s (p div 2 ^ 18)) = Some t"
  shows "perm s p = entry t (page_index g p)"
  using assms s2_okD(5) [of s "p div 2 ^ 18"] by (simp add: granted_def Let_def page_ok_def gb_consistent_def has_table_def)

text \<open>A change that concerns the gigabyte \<open>gb\<close> and its table only.\<close>

definition same_but :: "nat \<Rightarrow> s2mpu_info \<Rightarrow> s2mpu_info \<Rightarrow> bool" where
  "same_but gb s s' \<longleftrightarrow> vid s' = vid s \<and> length (l1entry_attrs s') = length (l1entry_attrs s) \<and> length (l2table_addrs s') = length (l2table_addrs s)
     \<and> (\<forall>k. k \<noteq> gb \<longrightarrow> attr s' k = attr s k \<and> l2table_addrs s' ! k = l2table_addrs s ! k
          \<and> hw s' (S2MPU_L1ENTRY_ATTR (unat (vid s)) k) = hw s (S2MPU_L1ENTRY_ATTR (unat (vid s)) k)
          \<and> hw s' (S2MPU_L1ENTRY_L2TABLE_ADDR (unat (vid s)) k) = hw s (S2MPU_L1ENTRY_L2TABLE_ADDR (unat (vid s)) k))
     \<and> (\<forall>q. (has_table s gb \<longrightarrow> q \<noteq> l2pa s gb) \<longrightarrow> (has_table s' gb \<longrightarrow> q \<noteq> l2pa s' gb) \<longrightarrow> tabs s' q = tabs s q)"

lemma change_gb:
  assumes ok: "s2_ok s" and gb: "gb_ok gb" and same: "same_but gb s s'" and rs: "regions_ok (smpt_regions s')" and con: "gb_consistent s' gb"
    and new: "has_table s' gb \<longrightarrow> (\<forall>k. k \<noteq> gb \<longrightarrow> has_table s k \<longrightarrow> l2pa s k \<noteq> l2pa s' gb)"
    and old: "has_table s gb \<longrightarrow> (has_table s' gb \<and> l2pa s' gb = l2pa s gb) \<or> tabs s' (l2pa s gb) = None"
  shows "s2_ok s'" "page_ok p \<Longrightarrow> p div 2 ^ 18 \<noteq> gb \<Longrightarrow> perm s' p = perm s p"
proof -
  note S = same [unfolded same_but_def]
  have o: "vid s' = vid s" "k \<noteq> gb \<Longrightarrow> attr s' k = attr s k" "k \<noteq> gb \<Longrightarrow> l2table_addrs s' ! k = l2table_addrs s ! k"
    "k \<noteq> gb \<Longrightarrow> hw s' (S2MPU_L1ENTRY_ATTR (unat (vid s)) k) = hw s (S2MPU_L1ENTRY_ATTR (unat (vid s)) k)"
    "k \<noteq> gb \<Longrightarrow> hw s' (S2MPU_L1ENTRY_L2TABLE_ADDR (unat (vid s)) k) = hw s (S2MPU_L1ENTRY_L2TABLE_ADDR (unat (vid s)) k)" for k using S by simp_all
  have ht: "has_table s' k = has_table s k" if "k \<noteq> gb" for k using o(2) [OF that] by (simp add: has_table_def)
  have tb: "tabs s' (l2pa s k) = tabs s (l2pa s k)" if "k \<noteq> gb" "has_table s k" for k
    using S s2_okD(6) [OF ok that(2), of gb] new that by metis
  have gc: "gb_consistent s' k" if "gb_ok k" for k
  proof (cases "k = gb")
    case False
    show ?thesis using s2_okD(5) [OF ok that] o(1) o(2-5) [OF False] ht [OF False] tb [OF False] by (simp add: gb_consistent_def)
  qed (use con in simp)
  have "has_table s' a \<Longrightarrow> has_table s' b \<Longrightarrow> l2pa s' a = l2pa s' b \<Longrightarrow> a = b" for a b
    using s2_okD(6) [OF ok, of a b] new ht o(3) by (metis (no_types, lifting))
  moreover have "\<exists>k. has_table s' k \<and> q = l2pa s' k" if "tabs s' q \<noteq> None" for q
  proof (cases "has_table s' gb \<and> q = l2pa s' gb")
    case False
    then have nq: "has_table s gb \<longrightarrow> q \<noteq> l2pa s gb" using old that by metis
    then have "tabs s q \<noteq> None" using S that False by metis
    then obtain k where k: "has_table s k" "q = l2pa s k" using s2_okD(7) [OF ok] by blast
    then have "k \<noteq> gb" using nq by blast
    then show ?thesis using k ht o(3) by metis
  qed blast
  moreover have "length (l1entry_attrs s') = 64" "length (l2table_addrs s') = 64" "vid s' \<le> 1" using S s2_okD(1-3) [OF ok] by simp_all
  ultimately show "s2_ok s'" using rs gc unfolding s2_ok_def by blast
  assume p: "page_ok p" "p div 2 ^ 18 \<noteq> gb"
  show "perm s' p = perm s p"
    using o(1) o(2-5) [OF p(2)] tb [OF p(2)] s2_okD(5) [OF ok, of "p div 2 ^ 18"] p(1)
    unfolding granted_def Let_def page_ok_def gb_consistent_def has_table_def by (auto simp: has_table_def)
qed

subsection \<open>Attributes\<close>

lemma bit_times_2 [simp]: "bit (x * 2 :: 'a :: len word) n \<longleftrightarrow> 0 < n \<and> n < LENGTH('a) \<and> bit x (n - 1)"
  using bit_double_iff [of x n] by (auto simp: mult.commute)

lemma attr_bits: "l1_bits a = ucast (drop_bit 1 a) AND 3"
  by (rule bit_word_eqI) (auto simp: l1_bits_def rd_access_def wr_access_def bit_simps less_2_cases_iff)

lemma attr_open:
  assumes "d AND 3 = (d :: u32)"
  shows "l2table_en (a OR push_bit 1 d) = l2table_en a" "l1_bits (a OR push_bit 1 d) = l1_bits a OR ucast d"
proof -
  show "l2table_en (a OR push_bit 1 d) = l2table_en a" by (rule bit_word_eqI) (auto simp: l2table_en_def bit_simps)
  show "l1_bits (a OR push_bit 1 d) = l1_bits a OR ucast d"
    unfolding attr_bits by (rule bit_word_eqI) (auto simp: bit_simps dest: and_3_less [OF assms])
qed

lemma attr_close:
  shows "l2table_en (a AND NOT (push_bit 1 3)) = l2table_en a" "l1_bits (a AND NOT (push_bit 1 3)) = 0"
proof -
  show "l2table_en (a AND NOT (push_bit 1 3)) = l2table_en a" by (rule bit_word_eqI) (auto simp: l2table_en_def bit_simps)
  have "l1_bits (a AND NOT (push_bit 1 t)) = 0" if "\<And>n. bit t n \<longleftrightarrow> n < 2" for t
    unfolding attr_bits by (rule bit_word_eqI) (auto simp: bit_simps that)
  then show "l1_bits (a AND NOT (push_bit 1 3)) = 0" by (rule meta_mp) auto
qed

lemma attr_table: "small g \<Longrightarrow> l2table_en (mk_attr 1 0 0 (gran_code g)) \<noteq> 0 \<and> l1_existing_granularity (mk_attr 1 0 0 (gran_code g)) = Some g"
  by (auto simp: small_def mk_attr_def gran_code_def l2table_en_def l1_existing_granularity_def l2table_granule_def)

lemma gran_small: "l2table_en a \<noteq> 0 \<Longrightarrow> l1_existing_granularity a = Some g \<Longrightarrow> small g"
  by (auto simp: l1_existing_granularity_def small_def split: if_splits)

lemma gran_plain: "l1_existing_granularity a = Some S2_GRAN_1GB \<longleftrightarrow> l2table_en a = 0"
  by (auto simp: l1_existing_granularity_def)

end
