(* ===== verification/S2mpuWin.thy ===== *)
theory S2mpuWin
  imports S2mpuInv
begin

text \<open>
  Opening and closing windows. Each step changes the rights of exactly the pages of one granule; splitting a
  gigabyte or a table changes none. The locale \<open>granule_visit\<close> is the contract of a step, and its client the loop over the
  granules of a window; it is interpreted for steps at the granularity that a gigabyte has, and for
  all steps.
\<close>

subsection \<open>Granules\<close>

definition pages :: "s2_gran \<Rightarrow> nat" where
  "pages g = 2 ^ (gran_shift g - 12)"

definition valid_gran :: "s2_gran \<Rightarrow> bool" where
  "valid_gran g \<longleftrightarrow> small g \<or> g = S2_GRAN_1GB"

lemma pages_simps [simp]: "pages S2_GRAN_4KB = 1" "pages S2_GRAN_64KB = 16" "pages S2_GRAN_2MB = 512" "pages S2_GRAN_1GB = 262144"
  by (simp_all add: pages_def)

lemma pages_pos [simp]: "0 < pages g"
  by (simp add: pages_def)

lemma valid_gran_shift: "valid_gran g \<Longrightarrow> 2 ^ gran_shift g = 4096 * pages g"
  by (auto simp: valid_gran_def small_def)

lemma pages_gb: "valid_gran g \<Longrightarrow> pages g dvd 262144"
  by (auto simp: valid_gran_def small_def)

lemma same_granule:
  assumes "valid_gran g" and "p div pages g = q div pages g"
  shows "p div 2 ^ 18 = q div 2 ^ 18"
proof -
  obtain k where k: "(262144 :: nat) = pages g * k" using pages_gb [OF assms(1)] by (rule dvdE)
  have "x div 2 ^ 18 = x div pages g div k" for x by (simp add: k div_mult2_eq)
  then show ?thesis using assms(2) by simp
qed

lemma index_granule:
  assumes "small g" and "p div 2 ^ 18 = q div 2 ^ 18"
  shows "page_index g p = page_index g q \<longleftrightarrow> p div pages g = q div pages g"
proof -
  obtain k where k: "(262144 :: nat) = pages g * k" using pages_gb [of g] assms(1) unfolding valid_gran_def by (blast elim: dvdE)
  have i: "x div pages g = k * (x div 2 ^ 18) + page_index g x" for x
  proof -
    have "x = pages g * (k * (x div 262144)) + x mod 262144" using k by (metis mult.assoc mult_div_mod_eq)
    then have "x div pages g = k * (x div 262144) + x mod 262144 div pages g" by (metis div_mult_self4 pages_pos less_not_refl)
    then show ?thesis by (simp add: page_index_def pages_def)
  qed
  then show ?thesis using i [of p] i [of q] assms(2) by simp
qed

lemma granule_range:
  assumes "pages g dvd P"
  shows "P \<le> p \<and> p < P + pages g \<longleftrightarrow> p div pages g = P div pages g"
proof -
  obtain m where m: "P = pages g * m" using assms by (rule dvdE)
  then have d: "P div pages g = m" by simp
  show ?thesis unfolding d
  proof
    assume "P \<le> p \<and> p < P + pages g"
    then show "p div pages g = m" by (intro div_nat_eqI) (simp_all add: m mult.commute)
  next
    assume "p div pages g = m"
    then show "P \<le> p \<and> p < P + pages g"
      using times_div_less_eq_dividend [of "pages g" p] dividend_less_times_div [of "pages g" p] by (simp add: m)
  qed
qed

subsection \<open>The new rights\<close>

definition new_right :: "bool \<Rightarrow> dma_data_direction \<Rightarrow> u8 \<Rightarrow> u8" where
  "new_right op dir x = (if op then x OR of_nat (dir_mask dir) else 0)"

lemma dir_mask_3: "of_nat (dir_mask dir) AND 3 = (of_nat (dir_mask dir) :: 'a :: len word)"
proof -
  have "1 AND 3 = (1 :: 'a word)" "2 AND 3 = (2 :: 'a word)" by (rule bit_word_eqI, auto simp: bit_simps)+
  then show ?thesis by (cases dir) simp_all
qed

lemma dir_mask_cast: "ucast (of_nat (dir_mask dir) :: u32) = (of_nat (dir_mask dir) :: u8)"
  by (cases dir) simp_all

lemma entry_byte_new:
  assumes "f < 4" and "e < 4"
  shows "drop_bit (2 * f) (if op then b OR push_bit (2 * e) (of_nat (dir_mask dir)) else b AND NOT (push_bit (2 * e) 3)) AND 3
    = (if f = e then new_right op dir (drop_bit (2 * f) b AND 3) else drop_bit (2 * f) b AND 3)"
  using entry_byte_or [OF assms(2,1) dir_mask_3, of b dir] entry_byte_clear [OF assms(2,1), of b]
  by (cases op) (simp_all only: new_right_def if_True if_False)

abbreviation gran_at :: "s2mpu_info \<Rightarrow> nat \<Rightarrow> s2_gran option" where "gran_at s gb \<equiv> l1_existing_granularity (attr s gb)"

lemma range_invalidate_fields [simp]:
  "l1entry_attrs (range_invalidate_mptc_vid_specific a g s) = l1entry_attrs s" "l2table_addrs (range_invalidate_mptc_vid_specific a g s) = l2table_addrs s"
  "smpt_regions (range_invalidate_mptc_vid_specific a g s) = smpt_regions s" "vid (range_invalidate_mptc_vid_specific a g s) = vid s"
  "hw (range_invalidate_mptc_vid_specific a g s) (S2MPU_L1ENTRY_ATTR n m) = hw s (S2MPU_L1ENTRY_ATTR n m)"
  "hw (range_invalidate_mptc_vid_specific a g s) (S2MPU_L1ENTRY_L2TABLE_ADDR n m) = hw s (S2MPU_L1ENTRY_L2TABLE_ADDR n m)"
  by (simp_all add: range_invalidate_mptc_vid_specific_def Let_def)

subsection \<open>A step at the granularity of the gigabyte\<close>

lemma set_gb_ok:
  fixes start op dir
  assumes ok: "s2_ok s" and gb: "gb_ok gb" and nt: "\<not> has_table s gb"
  defines "s' \<equiv> set_gb start gb op (dir_mask dir) s"
  shows "s2_ok s' \<and> (\<forall>k. gran_at s' k = gran_at s k) \<and> (\<forall>p. page_ok p \<longrightarrow> perm s' p = (if p div 2 ^ 18 = gb then new_right op dir (perm s p) else perm s p))"
proof -
  let ?a = "if op then attr s gb OR push_bit 1 (of_nat (dir_mask dir)) else attr s gb AND NOT (push_bit 1 3)"
  note d = attr_open [OF dir_mask_3 [of dir], of "attr s gb"]
  have en: "l2table_en ?a = l2table_en (attr s gb)" "l1_bits ?a = new_right op dir (l1_bits (attr s gb))"
    using d attr_close [of "attr s gb"] by (simp_all add: new_right_def dir_mask_cast)
  have e0: "l2table_en (attr s gb) = 0" using nt gb by (simp add: has_table_def)
  have f: "vid s' = vid s" "l1entry_attrs s' = (l1entry_attrs s)[gb := ?a]" "l2table_addrs s' = l2table_addrs s" "smpt_regions s' = smpt_regions s"
    "hw s' (S2MPU_L1ENTRY_ATTR (unat (vid s)) k) = (if k = gb then ?a else hw s (S2MPU_L1ENTRY_ATTR (unat (vid s)) k))"
    "hw s' (S2MPU_L1ENTRY_L2TABLE_ADDR n k) = hw s (S2MPU_L1ENTRY_L2TABLE_ADDR n k)" for k n
    by (auto simp: s'_def set_gb_def Let_def)
  have l: "gb < length (l1entry_attrs s)" using gb_ok_less [OF gb] s2_okD(1) [OF ok] by simp
  have at: "attr s' k = (if k = gb then ?a else attr s k)" for k using l by (simp add: f(2))
  have nt': "\<not> has_table s' gb" using at e0 en(1) by (simp add: has_table_def)
  have "same_but gb s s'" using f at by (simp add: same_but_def)
  moreover have "gb_consistent s' gb" using f at nt' by (simp add: gb_consistent_def)
  ultimately have c: "s2_ok s'" "\<And>p. page_ok p \<Longrightarrow> p div 2 ^ 18 \<noteq> gb \<Longrightarrow> perm s' p = perm s p"
    using change_gb [OF ok gb, of s'] nt nt' f(4) s2_okD(4) [OF ok] by simp_all
  have "perm s' p = new_right op dir (perm s p)" if "page_ok p" "p div 2 ^ 18 = gb" for p
    using perm_plain [OF c(1) that(1)] perm_plain [OF ok that(1)] that(2) nt nt' at en(2) by simp
  moreover have "gran_at s' k = gran_at s k" for k using at e0 en(1) by (simp add: l1_existing_granularity_def)
  ultimately show ?thesis using c by simp
qed

lemma set_entry_ok:
  assumes ok: "s2_ok s" and gb: "gb_ok gb" and ht: "has_table s gb" and g: "gran_at s gb = Some g" and a: "unat start = 4096 * P" "P div 2 ^ 18 = gb"
  shows "\<exists>s'. set_entry start gb g op (dir_mask dir) s = Inr s' \<and> s2_ok s' \<and> (\<forall>k. gran_at s' k = gran_at s k)
    \<and> (\<forall>p. page_ok p \<longrightarrow> perm s' p = (if p div pages g = P div pages g then new_right op dir (perm s p) else perm s p))"
proof -
  have sm: "small g" using gran_small [OF _ g] ht by (simp add: has_table_def)
  obtain t where t: "tabs s (l2pa s gb) = Some t" "length t = s2_table_size (gran_shift g)"
    using s2_okD(5) [OF ok gb] ht g by (auto simp: gb_consistent_def)
  then obtain r where r: "get_smpt_region s gb = Some r" "smpt r = t" "r \<in> set (smpt_regions s)" "pa r = l2pa s gb"
    using find_paD by (auto simp: tab_at_Some get_smpt_region_def smpt_region_for_pa_def table_pa_def)
  let ?n = "page_index g P"
  note o = offsets [OF a(1) sm]
  have nl: "?n div 4 < length t" using page_index_less [OF sm, of P] t(2) by simp
  let ?b = "t ! (?n div 4)"
  let ?b' = "if op then ?b OR push_bit (2 * (?n mod 4)) (of_nat (dir_mask dir)) else ?b AND NOT (push_bit (2 * (?n mod 4)) 3)"
  define s1 where "s1 = set_smpt (va r) (t[?n div 4 := ?b']) s"
  define s' where "s' = range_invalidate_mptc_vid_specific start g s1"
  have call: "set_entry start gb g op (dir_mask dir) s = Inr s'"
    using r(1,2) nl by (simp add: set_entry_def o Let_def s'_def s1_def)
  note rs = set_smpt_regions [OF s2_okD(4) [OF ok] r(3), of "t[?n div 4 := ?b']"]
  have f: "vid s' = vid s" "l1entry_attrs s' = l1entry_attrs s" "l2table_addrs s' = l2table_addrs s" "smpt_regions s' = smpt_regions s1"
    "hw s' (S2MPU_L1ENTRY_ATTR n k) = hw s (S2MPU_L1ENTRY_ATTR n k)" "hw s' (S2MPU_L1ENTRY_L2TABLE_ADDR n k) = hw s (S2MPU_L1ENTRY_L2TABLE_ADDR n k)" for n k
    by (simp_all add: s'_def s1_def set_smpt_def)
  have tb: "tabs s' = (tabs s)(l2pa s gb \<mapsto> t[?n div 4 := ?b'])" using rs(2) r(4) by (simp add: f(4) s1_def)
  have h: "has_table s' k = has_table s k" for k by (simp add: has_table_def f)
  have "same_but gb s s'" using f tb ht by (simp add: same_but_def h)
  moreover have "gb_consistent s' gb" using s2_okD(5) [OF ok gb] f tb t(2) g by (auto simp: gb_consistent_def h)
  moreover have "\<forall>k. k \<noteq> gb \<longrightarrow> has_table s k \<longrightarrow> l2pa s k \<noteq> l2pa s' gb" using s2_okD(6) [OF ok _ ht] f(3) by metis
  ultimately have c: "s2_ok s'" "\<And>p. page_ok p \<Longrightarrow> p div 2 ^ 18 \<noteq> gb \<Longrightarrow> perm s' p = perm s p"
    using change_gb [OF ok gb, of s'] ht h f(3) rs(1) by (simp_all add: f(4) s1_def)
  have e: "entry (t[?n div 4 := ?b']) m = (if m = ?n then new_right op dir (entry t ?n) else entry t m)" for m
    by (rule entry_update [OF nl]) (rule entry_byte_new, simp_all)
  have "perm s' p = (if p div pages g = P div pages g then new_right op dir (perm s p) else perm s p)" if p: "page_ok p" for p
  proof (cases "p div 2 ^ 18 = gb")
    case True
    have "perm s p = entry t (page_index g p)" "perm s' p = entry (t[?n div 4 := ?b']) (page_index g p)"
      using perm_table [OF ok p] perm_table [OF c(1) p] True ht h g t(1) f tb by simp_all
    then show ?thesis using e [of "page_index g p"] index_granule [OF sm, of p P] True a(2) by auto
  next
    case False
    then have "p div pages g \<noteq> P div pages g" using same_granule [of g p P] sm a(2) by (auto simp: valid_gran_def)
    then show ?thesis using c(2) [OF p False] by simp
  qed
  then show ?thesis using call c(1) f(2) by (intro exI [of _ s']) simp
qed

subsection \<open>Splitting\<close>

text \<open>The memory allocator returns memory that is not in use, aligned, below the 64 GB that the DMA mask allows, and not at address 0.\<close>

definition good_mem :: "allocator \<Rightarrow> bool" where
  "good_mem mem \<longleftrightarrow> (\<forall>n rs len. length rs < 64 \<longrightarrow>
     (\<exists>v p. mem n rs len = Some (v, p) \<and> v \<noteq> 0 \<and> v \<notin> va ` set rs \<and> p \<notin> pa ` set rs \<and> unat p < 2 ^ 36 \<and> 16 dvd unat p))"

lemma few_regions:
  assumes "s2_ok s"
  shows "length (smpt_regions s) < 64"
proof -
  have "pa ` set (smpt_regions s) \<subseteq> l2pa s ` ({..<64} - {4})"
  proof
    fix q
    assume "q \<in> pa ` set (smpt_regions s)"
    then have "tabs s q \<noteq> None" using tab_at_None by blast
    then obtain gb where "has_table s gb" "q = l2pa s gb" using s2_okD(7) [OF assms] by blast
    then show "q \<in> l2pa s ` ({..<64} - {4})" by (auto simp: has_table_def gb_ok_def)
  qed
  then have "card (pa ` set (smpt_regions s)) \<le> card (l2pa s ` ({..<64} - {4}))" by (rule card_mono [rotated]) simp
  also have "\<dots> \<le> card ({..<64} - {4 :: nat})" by (rule card_image_le) simp
  finally have "card (set (map pa (smpt_regions s))) < 64" by simp
  moreover have "distinct (map pa (smpt_regions s))" using s2_okD(4) [OF assms] by (simp add: regions_ok_def)
  ultimately show ?thesis by (metis distinct_card length_map)
qed

lemma table_pa_enter:
  assumes "unat p < 2 ^ 36" and "16 dvd unat p"
  shows "table_pa (ucast (drop_bit 4 p)) = p"
proof -
  have m: "unat (take_bit n p) = unat p mod 2 ^ n" for n using unat_and_mask [of p n] by (simp only: take_bit_eq_mask)
  have "take_bit 36 p = p" "take_bit 4 p = 0" using m [of 36] m [of 4] assms by (simp_all add: word_eq_iff_unsigned [where 'a = nat])
  then have "4 \<le> n \<and> n < 36" if "bit p n" for n using that by (metis bit_0_eq bit_take_bit_iff bot_apply bot_bool_def not_le)
  then have "bit p n \<Longrightarrow> 4 \<le> n \<and> n - 4 < 32" for n by fastforce
  then show ?thesis unfolding table_pa_def by (intro bit_word_eqI) (auto simp: bit_simps)
qed

text \<open>What \<^verbatim>\<open>decompose\<close> does with the table \<open>t\<close> in new memory, where \<open>c\<close> is the old table when there is one.\<close>

lemma enter_ok:
  assumes ok: "s2_ok s" and gb: "gb_ok gb" and g: "small g"
    and p: "unat p < 2 ^ 36" "16 dvd unat p" "tabs s p = None"
    and rs: "regions_ok (smpt_regions s')" "tabs s' = (\<lambda>q. if has_table s gb \<and> q = l2pa s gb then None else ((tabs s)(p \<mapsto> t)) q)"
    and t: "length t = s2_table_size (gran_shift g)"
    and f: "vid s' = vid s" "l1entry_attrs s' = (l1entry_attrs s)[gb := mk_attr 1 0 0 (gran_code g)]" "l2table_addrs s' = (l2table_addrs s)[gb := ucast (drop_bit 4 p)]"
      "hw s' = (hw s)(S2MPU_L1ENTRY_L2TABLE_ADDR (unat (vid s)) gb := ucast (drop_bit 4 p), S2MPU_L1ENTRY_ATTR (unat (vid s)) gb := mk_attr 1 0 0 (gran_code g))"
    and e: "\<And>x. page_ok x \<Longrightarrow> x div 2 ^ 18 = gb \<Longrightarrow> entry t (page_index g x) = perm s x"
  shows "s2_ok s' \<and> gran_at s' gb = Some g \<and> (\<forall>x. page_ok x \<longrightarrow> perm s' x = perm s x)"
proof -
  note lt = gb_ok_less [OF gb]
  have at: "attr s' k = (if k = gb then mk_attr 1 0 0 (gran_code g) else attr s k)" "l2table_addrs s' ! k = (if k = gb then ucast (drop_bit 4 p) else l2table_addrs s ! k)" for k
    using lt s2_okD(1,2) [OF ok] by (simp_all add: f)
  have np: "l2pa s' gb = p" using table_pa_enter [OF p(1,2)] at(2) by simp
  have ht: "has_table s' gb" "gran_at s' gb = Some g" using attr_table [OF g] at(1) gb by (simp_all add: has_table_def)
  have own: "l2pa s k \<noteq> p" if "has_table s k" for k
    using s2_okD(5) [OF ok, of k] that p(3) by (auto simp: gb_consistent_def has_table_def)
  have tp: "tabs s' p = Some t" using rs(2) own by auto
  have "same_but gb s s'" unfolding same_but_def using f at rs(2) np ht(1) by auto
  moreover have "gb_consistent s' gb" using ht np tp t at f by (auto simp: gb_consistent_def)
  moreover have "has_table s gb \<longrightarrow> tabs s' (l2pa s gb) = None" by (simp add: rs(2))
  ultimately have c: "s2_ok s'" "\<And>x. page_ok x \<Longrightarrow> x div 2 ^ 18 \<noteq> gb \<Longrightarrow> perm s' x = perm s x"
    using change_gb [OF ok gb, of s'] rs(1) own np by simp_all
  have "perm s' x = perm s x" if x: "page_ok x" for x
  proof (cases "x div 2 ^ 18 = gb")
    case True
    then have "perm s' x = entry t (page_index g x)" using perm_table [OF c(1) x] ht np tp by simp
    then show ?thesis using e [OF x True] by simp
  qed (use c(2) [OF x] in simp)
  then show ?thesis using c(1) ht(2) by simp
qed

lemma small_less: "small g \<Longrightarrow> small h \<Longrightarrow> g < h \<Longrightarrow> gran_shift g \<le> gran_shift h \<and> gran_shift h \<le> 28 \<and> 2 \<le> gran_shift h - gran_shift g"
  by (auto simp: small_def less_s2_gran_def)

lemma table_sizes: "small g \<Longrightarrow> s2_table_size (gran_shift g) = 128 \<or> s2_table_size (gran_shift g) = 4096 \<or> s2_table_size (gran_shift g) = 64 * 1024"
  by (auto simp: small_def s2_table_size_def)

lemma decompose_ok:
  assumes ok: "s2_ok s" and mem: "good_mem mem" and gb: "gb_ok gb" and eg: "gran_at s gb = Some eg" and g: "small g" "g < eg"
  shows "\<exists>s'. decompose mem gb eg g s = Inr s' \<and> s2_ok s' \<and> gran_at s' gb = Some g \<and> (\<forall>x. page_ok x \<longrightarrow> perm s' x = perm s x)"
proof -
  let ?len = "s2_table_size (gran_shift g)"
  obtain v p where m: "mem (allocs s) (smpt_regions s) ?len = Some (v, p)" "v \<noteq> 0" "v \<notin> va ` set (smpt_regions s)" "p \<notin> pa ` set (smpt_regions s)" "unat p < 2 ^ 36" "16 dvd unat p"
    using mem few_regions [OF ok] unfolding good_mem_def by metis
  define r where "r = \<lparr>va = v, pa = p, smpt = replicate ?len (0 :: u8)\<rparr>"
  define s1 where "s1 = s\<lparr>allocs := allocs s + 1, smpt_regions := r # smpt_regions s\<rparr>"
  have al: "alloc_smpt mem ?len s = (Some r, s1)" using m(1) table_sizes [OF g(1)] by (auto simp: alloc_smpt_def r_def s1_def Let_def)
  have rp: "va r = v" "pa r = p" "length (smpt r) = ?len" by (simp_all add: r_def)
  have ro: "regions_ok (smpt_regions s1)" "tabs s1 = (tabs s)(p \<mapsto> smpt r)"
    using cons_regions [where r = r and rs = "smpt_regions s"] s2_okD(4) [OF ok] m(2-4) rp by (simp_all add: s1_def)
  have rin: "r \<in> set (smpt_regions s1)" by (simp add: s1_def)
  note st = set_smpt_regions [OF ro(1) rin]
  have none: "tabs s p = None" using tab_at_None m(4) by blast
  have fr: "vid (enter_table gb g p (set_smpt v t s1)) = vid s"
    "l1entry_attrs (enter_table gb g p (set_smpt v t s1)) = (l1entry_attrs s)[gb := mk_attr 1 0 0 (gran_code g)]"
    "l2table_addrs (enter_table gb g p (set_smpt v t s1)) = (l2table_addrs s)[gb := ucast (drop_bit 4 p)]"
    "hw (enter_table gb g p (set_smpt v t s1)) = (hw s)(S2MPU_L1ENTRY_L2TABLE_ADDR (unat (vid s)) gb := ucast (drop_bit 4 p), S2MPU_L1ENTRY_ATTR (unat (vid s)) gb := mk_attr 1 0 0 (gran_code g))"
    "smpt_regions (enter_table gb g p (set_smpt v t s1)) = smpt_regions (set_smpt v t s1)" for t
    by (simp_all add: enter_table_def Let_def set_smpt_def s1_def)
  show ?thesis
  proof (cases "eg = S2_GRAN_1GB")
    case True
    then have nt: "\<not> has_table s gb" using eg gran_plain by (simp add: has_table_def)
    let ?t = "copy_decompose_gb (l1_bits (attr s gb)) (smpt r) ?len"
    let ?s = "enter_table gb g p (set_smpt v ?t s1)"
    have "decompose mem gb eg g s = Inr ?s" using al True rp by (simp add: decompose_def Let_def l1_bits_def s1_def)
    moreover have "entry ?t (page_index g x) = perm s x" if x: "page_ok x" "x div 2 ^ 18 = gb" for x
    proof -
      have "l1_bits (attr s gb) AND 3 = l1_bits (attr s gb)" by (simp add: attr_bits and.assoc)
      then show ?thesis using copy_decompose_gb_ok(2) [OF rp(3) page_index_less [OF g(1)]] perm_plain [OF ok x(1)] x(2) nt by simp
    qed
    moreover have "tabs ?s = (\<lambda>q. if has_table s gb \<and> q = l2pa s gb then None else ((tabs s)(p \<mapsto> ?t)) q)"
      using st(2) [of ?t] ro(2) rp nt by (simp add: fr(5) fun_eq_iff)
    moreover have "regions_ok (smpt_regions ?s)" using st(1) [of ?t] rp by (simp add: fr(5))
    ultimately show ?thesis
      using enter_ok [OF ok gb g(1) m(5,6) none, of ?s ?t] copy_decompose_gb_ok(1) [OF rp(3)] fr(1-4) by (intro exI [of _ ?s]) simp
  next
    case False
    then have ht: "has_table s gb" using eg gb gran_plain [of "attr s gb"] by (auto simp: has_table_def)
    have sm: "small eg" using gran_small [OF _ eg] ht by (simp add: has_table_def)
    obtain tc where tc: "tabs s (l2pa s gb) = Some tc" "length tc = s2_table_size (gran_shift eg)"
      using s2_okD(5) [OF ok gb] ht eg by (auto simp: gb_consistent_def)
    have ne: "l2pa s gb \<noteq> p" using tc(1) none by auto
    have "tabs s1 (l2pa s gb) = Some tc" using tc(1) ne by (simp add: ro(2))
    then obtain c where c: "find (\<lambda>r. pa r = l2pa s gb) (smpt_regions s1) = Some c" "smpt c = tc" using tab_at_Some by blast
    have c': "get_smpt_region s1 gb = Some c" "c \<in> set (smpt_regions s1)" "pa c = l2pa s gb"
      using c(1) find_paD [OF c(1)] by (simp_all add: get_smpt_region_def smpt_region_for_pa_def table_pa_def s1_def)
    obtain t where t: "copy_decompose (gran_shift eg) tc (gran_shift g) (smpt r) = Some t" "length t = ?len"
      "\<forall>k < 4 * ?len. entry t k = entry tc (k div 2 ^ (gran_shift eg - gran_shift g))"
      using copy_decompose_ok [OF _ _ _ tc(2) rp(3)] small_less [OF g(1) sm g(2)] by blast
    let ?s2 = "enter_table gb g p (set_smpt v t s1)"
    let ?s = "free_smpt (va c) ?s2"
    have call: "decompose mem gb eg g s = Inr ?s" using al False rp c(2) c'(1) t(1) by (simp add: decompose_def)
    have "va c \<noteq> v" using va_inj [OF ro(1) c'(2) rin] c'(3) rp ne by auto
    then have "c \<in> (\<lambda>x. if va x = v then x\<lparr>smpt := t\<rparr> else x) ` set (smpt_regions s1)" by (intro image_eqI [OF _ c'(2)]) simp
    then have cin: "c \<in> set (smpt_regions ?s2)" unfolding fr(5) by (simp add: set_smpt_def)
    have r2: "regions_ok (smpt_regions ?s2)" "tabs ?s2 = (tabs s)(p \<mapsto> t)" using st [of t] ro(2) rp by (simp_all add: fr(5))
    note fs = free_smpt_regions [OF r2(1) cin]
    have ff: "vid ?s = vid ?s2" "l1entry_attrs ?s = l1entry_attrs ?s2" "l2table_addrs ?s = l2table_addrs ?s2" "hw ?s = hw ?s2" by (simp_all add: free_smpt_def)
    have "tabs ?s = (\<lambda>q. if has_table s gb \<and> q = l2pa s gb then None else ((tabs s)(p \<mapsto> t)) q)"
      using fs(2) r2(2) c'(3) ht by (simp add: fun_eq_iff)
    moreover have "entry t (page_index g x) = perm s x" if x: "page_ok x" "x div 2 ^ 18 = gb" for x
      using t(3) page_index_less [OF g(1), of x] page_index_split [OF sm g(1,2)] perm_table [OF ok x(1)] x(2) ht eg tc(1) by simp
    ultimately show ?thesis
      using call enter_ok [OF ok gb g(1) m(5,6) none fs(1) _ t(2)] fr(1-4) ff by (intro exI [of _ ?s]) simp
  qed
qed

end
