(* ===== verification/S2mpuLoop.thy ===== *)
theory S2mpuLoop
  imports S2mpuWin
begin

text \<open>
  The loop over the granules of a window. \<open>granule_visit\<close> is the contract of a function that treats one granule: where
  \<open>inv\<close> holds and the address is in its domain, it returns and changes the rights of exactly the pages of the granule.
\<close>

subsection \<open>The contract\<close>

definition addr_ok :: "s2_gran \<Rightarrow> u64 \<Rightarrow> bool" where
  "addr_ok g a \<longleftrightarrow> 2 ^ gran_shift g dvd unat a"

locale granule_visit =
  fixes inv :: "s2mpu_info \<Rightarrow> bool" and place :: "nat \<Rightarrow> bool" and g :: s2_gran and visit :: "u64 \<Rightarrow> s2mpu_info \<Rightarrow> stop + s2mpu_info" and change :: "u8 \<Rightarrow> u8"
  assumes visit: "inv s \<Longrightarrow> valid_gran g \<Longrightarrow> addr_ok g a \<Longrightarrow> place (unat a) \<Longrightarrow>
    \<exists>s'. visit a s = Inr s' \<and> inv s' \<and> (\<forall>p. page_ok p \<longrightarrow> perm s' p = (if p div pages g = unat a div 4096 div pages g then change (perm s p) else perm s p))"
begin

lemma loop:
  assumes "inv s" and "valid_gran g" and "addr_ok g a" and "unat a + k * 2 ^ gran_shift g < 2 ^ 64" and "\<forall>i < k. place (unat a + i * 2 ^ gran_shift g)"
  shows "\<exists>s'. open_close_granules visit g k a s = Inr s' \<and> inv s'
    \<and> (\<forall>p. page_ok p \<longrightarrow> perm s' p = (if unat a div 4096 \<le> p \<and> p < unat a div 4096 + k * pages g then change (perm s p) else perm s p))"
  using assms
proof (induction k arbitrary: a s)
  case (Suc k)
  let ?n = "2 ^ gran_shift g" and ?P = "unat a div 4096"
  have pg: "?n = 4096 * pages g" by (rule valid_gran_shift [OF Suc.prems(2)])
  have dv: "pages g dvd ?P" using Suc.prems(3) pg by (auto simp: addr_ok_def)
  obtain s1 where s1: "visit a s = Inr s1" "inv s1" "\<forall>p. page_ok p \<longrightarrow> perm s1 p = (if p div pages g = ?P div pages g then change (perm s p) else perm s p)"
    using visit [OF Suc.prems(1-3)] Suc.prems(5) by fastforce
  have "unat (push_bit (gran_shift g) 1 :: u64) = ?n" using Suc.prems(2) by (auto simp: valid_gran_def small_def)
  then have a': "unat (a + push_bit (gran_shift g) 1) = unat a + ?n" using Suc.prems(4) by (simp add: unat_word_ariths)
  have P': "(unat a + ?n) div 4096 = ?P + pages g" by (simp add: pg)
  have "\<forall>i < k. place (unat a + ?n + i * ?n)"
  proof (intro allI impI)
    fix i
    assume "i < k"
    then have "place (unat a + Suc i * ?n)" using Suc.prems(5) by blast
    then show "place (unat a + ?n + i * ?n)" by (simp add: add.assoc)
  qed
  moreover have "addr_ok g (a + push_bit (gran_shift g) 1)" using Suc.prems(3) a' by (simp add: addr_ok_def)
  ultimately obtain s' where s': "open_close_granules visit g k (a + push_bit (gran_shift g) 1) s1 = Inr s'" "inv s'"
    "\<forall>p. page_ok p \<longrightarrow> perm s' p = (if ?P + pages g \<le> p \<and> p < ?P + pages g + k * pages g then change (perm s1 p) else perm s1 p)"
    using Suc.IH [OF s1(2) Suc.prems(2), of "a + push_bit (gran_shift g) 1"] Suc.prems(4) a' P' by (auto simp: algebra_simps)
  have "perm s' p = (if ?P \<le> p \<and> p < ?P + Suc k * pages g then change (perm s p) else perm s p)" if "page_ok p" for p
    using s1(3) s'(3) that granule_range [OF dv, of p] by auto
  then show ?case using s1(1) s'(1,2) by (intro exI [of _ s']) simp
qed auto

end

subsection \<open>Steps at the granularity of the gigabyte\<close>

lemma gb_of_addr: "unat (ucast (drop_bit (gran_shift S2_GRAN_1GB) a) :: u32) = unat a div 2 ^ 30" if "unat a < 2 ^ 62" for a :: u64
proof -
  have "unat a div 2 ^ 30 < 2 ^ 32" using that by (simp add: less_mult_imp_div_less)
  then show ?thesis by (simp add: unsigned_ucast_eq take_bit_nat_eq_self)
qed

lemma granule_unfold:
  assumes "unat a div 2 ^ 30 = gb" and "gb < 64" and "dir \<noteq> DMA_NONE" and "gran_at s gb = Some eg"
  shows "open_close_granule (Suc n) mem g op dir a s =
    (if eg = g then (if eg = S2_GRAN_1GB then Inr (set_gb a gb op (dir_mask dir) s) else set_entry a gb eg op (dir_mask dir) s)
     else if eg < g then open_close_granules (open_close_granule n mem eg op dir) eg (2 ^ (gran_shift g - gran_shift eg)) a s
     else (case decompose mem gb eg g s of Inl e \<Rightarrow> Inl e | Inr s1 \<Rightarrow> open_close_granule n mem g op dir a s1))"
proof -
  have "unat a < 2 ^ 62" using assms(1,2) by (auto simp: div_less_iff_less_mult)
  from gb_of_addr [OF this] show ?thesis using assms by (simp add: Let_def)
qed

lemma direct_step:
  assumes ok: "s2_ok s" and dir: "dir \<noteq> DMA_NONE" and gb: "gb_ok gb" "unat a div 2 ^ 30 = gb" and g: "gran_at s gb = Some g" and al: "addr_ok g a" "valid_gran g"
  shows "\<exists>s'. open_close_granule (Suc n) mem g op dir a s = Inr s' \<and> s2_ok s' \<and> (\<forall>k. gran_at s' k = gran_at s k)
    \<and> (\<forall>p. page_ok p \<longrightarrow> perm s' p = (if p div pages g = unat a div 4096 div pages g then new_right op dir (perm s p) else perm s p))"
proof -
  note u = granule_unfold [OF gb(2) gb_ok_less [OF gb(1)] dir g, of n mem g op]
  have "4096 dvd unat a" using al valid_gran_shift [OF al(2)] by (auto simp: addr_ok_def elim: dvd_mult_left)
  then have P: "unat a = 4096 * (unat a div 4096)" by simp
  have Pg: "unat a div 4096 div 2 ^ 18 = gb" using gb(2) by (simp flip: div_mult2_eq)
  show ?thesis
  proof (cases "g = S2_GRAN_1GB")
    case True
    then have "\<not> has_table s gb" using g gran_plain [of "attr s gb"] by (simp add: has_table_def)
    from set_gb_ok [OF ok gb(1) this] show ?thesis using True Pg unfolding u by simp
  next
    case False
    then have "has_table s gb" using g gb(1) gran_plain [of "attr s gb"] by (auto simp: has_table_def)
    from set_entry_ok [OF ok gb(1) this g P Pg] show ?thesis using False unfolding u by simp
  qed
qed

interpretation direct: granule_visit "\<lambda>s. s2_ok s \<and> gran_at s gb = Some g \<and> gb_ok gb \<and> dir \<noteq> DMA_NONE" "\<lambda>a. a div 2 ^ 30 = gb" g
    "open_close_granule (Suc n) mem g op dir" "new_right op dir" for gb g dir n mem op
proof
  fix s a
  assume i: "s2_ok s \<and> gran_at s gb = Some g \<and> gb_ok gb \<and> dir \<noteq> DMA_NONE" and v: "valid_gran g" "addr_ok g a" "unat a div 2 ^ 30 = gb"
  from i obtain s' where "open_close_granule (Suc n) mem g op dir a s = Inr s'" "s2_ok s'" "\<forall>k. gran_at s' k = gran_at s k"
    "\<forall>p. page_ok p \<longrightarrow> perm s' p = (if p div pages g = unat a div 4096 div pages g then new_right op dir (perm s p) else perm s p)"
    using direct_step [OF _ _ _ v(3) _ v(2,1), of s dir n mem op] by blast
  then show "\<exists>s'. open_close_granule (Suc n) mem g op dir a s = Inr s' \<and> (s2_ok s' \<and> gran_at s' gb = Some g \<and> gb_ok gb \<and> dir \<noteq> DMA_NONE)
      \<and> (\<forall>p. page_ok p \<longrightarrow> perm s' p = (if p div pages g = unat a div 4096 div pages g then new_right op dir (perm s p) else perm s p))"
    using i by auto
qed

subsection \<open>All steps\<close>

lemma gran_at_valid:
  assumes "s2_ok s" and "gb_ok gb"
  shows "\<exists>g. gran_at s gb = Some g \<and> valid_gran g"
proof (cases "has_table s gb")
  case True
  then obtain g where "gran_at s gb = Some g" using s2_okD(5) [OF assms] by (auto simp: gb_consistent_def)
  then show ?thesis using gran_small True by (auto simp: has_table_def valid_gran_def)
next
  case False
  then have "gran_at s gb = Some S2_GRAN_1GB" using gran_plain assms(2) by (simp add: has_table_def)
  then show ?thesis by (simp add: valid_gran_def)
qed

lemma gran_parts: "valid_gran g \<Longrightarrow> valid_gran h \<Longrightarrow> h < g \<Longrightarrow> pages g = 2 ^ (gran_shift g - gran_shift h) * pages h \<and> 2 ^ gran_shift g = (2 :: nat) ^ (gran_shift g - gran_shift h) * 2 ^ gran_shift h"
  by (auto simp: valid_gran_def small_def less_s2_gran_def)

lemma inside_gb:
  assumes "valid_gran g" and "2 ^ gran_shift g dvd a" and "x < 2 ^ gran_shift g"
  shows "(a + x) div 2 ^ 30 = a div (2 :: nat) ^ 30"
proof -
  define n where "n = (2 :: nat) ^ gran_shift g"
  have n: "0 < n" by (simp add: n_def)
  have "n dvd 2 ^ 30" unfolding n_def using assms(1) by (auto simp: valid_gran_def small_def intro: le_imp_power_dvd)
  then obtain k where k: "(2 :: nat) ^ 30 = n * k" by (rule dvdE)
  obtain m where m: "a = n * m" using assms(2) unfolding n_def by (rule dvdE)
  have "(a + x) div n = m" using assms(3) n by (simp add: m n_def [symmetric] div_mult_self2)
  then show ?thesis unfolding k div_mult2_eq using n by (simp add: m)
qed

lemma any_step:
  assumes ok: "s2_ok s" and dir: "dir \<noteq> DMA_NONE" and mem: "good_mem mem" and a: "gb_ok (unat a div 2 ^ 30)" and al: "addr_ok g a" "valid_gran g"
  shows "\<exists>s'. open_close_granule (Suc (Suc n)) mem g op dir a s = Inr s' \<and> s2_ok s'
    \<and> (\<forall>p. page_ok p \<longrightarrow> perm s' p = (if p div pages g = unat a div 4096 div pages g then new_right op dir (perm s p) else perm s p))"
proof -
  define gb where "gb = unat a div 2 ^ 30"
  have lt: "unat a < 2 ^ 62" using a gb_ok_less by (fastforce simp: div_less_iff_less_mult)
  obtain eg where eg: "gran_at s gb = Some eg" "valid_gran eg" using gran_at_valid [OF ok] a by (auto simp: gb_def)
  note u = granule_unfold [OF gb_def [symmetric] gb_ok_less [OF a [folded gb_def]] dir eg(1), of "Suc n" mem g op]
  consider "eg = g" | "eg < g" | "g < eg" by (metis less_linear)
  then show ?thesis
  proof cases
    case 1
    then show ?thesis using direct_step [OF ok dir a refl, of g "Suc n" mem op] eg al by (auto simp: gb_def)
  next
    case 2
    let ?k = "2 ^ (gran_shift g - gran_shift eg)"
    note gp = gran_parts [OF al(2) eg(2) 2]
    have ae: "addr_ok eg a" using al(1) gp unfolding addr_ok_def by (metis dvd_mult_right)
    have k: "unat a + ?k * 2 ^ gran_shift eg < 2 ^ 64" using lt gp al(2) by (auto simp: valid_gran_def small_def simp flip: gp)
    have "\<forall>i < ?k. (unat a + i * 2 ^ gran_shift eg) div 2 ^ 30 = gb"
    proof (intro allI impI)
      fix i :: nat
      assume "i < ?k"
      then have "i * 2 ^ gran_shift eg < 2 ^ gran_shift g" using gp by simp
      then show "(unat a + i * 2 ^ gran_shift eg) div 2 ^ 30 = gb" using inside_gb [OF al(2)] al(1) by (simp add: addr_ok_def gb_def)
    qed
    then obtain s' where s': "open_close_granules (open_close_granule (Suc n) mem eg op dir) eg ?k a s = Inr s'" "s2_ok s'"
      "\<forall>p. page_ok p \<longrightarrow> perm s' p = (if unat a div 4096 \<le> p \<and> p < unat a div 4096 + ?k * pages eg then new_right op dir (perm s p) else perm s p)"
      using direct.loop [OF _ eg(2) ae k, of s gb dir n mem op] ok eg(1) a dir by (auto simp: gb_def)
    have dv: "pages g dvd unat a div 4096" using al valid_gran_shift [OF al(2)] by (auto simp: addr_ok_def)
    have "open_close_granule (Suc (Suc n)) mem g op dir a s = Inr s'" unfolding u using s'(1) 2 less_imp_neq [OF 2] by (simp del: open_close_granule.simps)
    then show ?thesis using s'(2,3) granule_range [OF dv] gp by simp
  next
    case 3
    have sm: "small g" using al(2) 3 by (auto simp: valid_gran_def less_s2_gran_def) (cases eg; simp)
    obtain s1 where s1: "decompose mem gb eg g s = Inr s1" "s2_ok s1" "gran_at s1 gb = Some g" "\<forall>x. page_ok x \<longrightarrow> perm s1 x = perm s x"
      using decompose_ok [OF ok mem _ eg(1) sm 3] a by (auto simp: gb_def)
    obtain s' where "open_close_granule (Suc n) mem g op dir a s1 = Inr s'" "s2_ok s'"
      "\<forall>p. page_ok p \<longrightarrow> perm s' p = (if p div pages g = unat a div 4096 div pages g then new_right op dir (perm s1 p) else perm s1 p)"
      using direct_step [OF s1(2) dir a refl _ al, of n mem op] s1(3) by (auto simp: gb_def)
    moreover from this have "open_close_granule (Suc (Suc n)) mem g op dir a s = Inr s'" unfolding u using s1(1) less_imp_neq [OF 3] less_not_sym [OF 3] by (simp del: open_close_granule.simps)
    ultimately show ?thesis using s1(4) by (intro exI [of _ s']) simp
  qed
qed

text \<open>Beyond 64 GB a step does nothing.\<close>

lemma beyond_step:
  assumes "2 ^ 36 \<le> unat a" and "unat a < 2 ^ 62" and "dir \<noteq> DMA_NONE"
  shows "open_close_granule (Suc n) mem g op dir a s = Inr s"
proof -
  have "64 \<le> unat a div 2 ^ 30" using assms(1) div_le_mono [of "2 ^ 36" "unat a" "2 ^ 30"] by simp
  then show ?thesis using gb_of_addr [OF assms(2)] assms(3) by simp
qed

interpretation steps: granule_visit "\<lambda>s. s2_ok s \<and> dir \<noteq> DMA_NONE \<and> good_mem mem" "\<lambda>a. gb_ok (a div 2 ^ 30) \<or> 2 ^ 36 \<le> a \<and> a < 2 ^ 62" g
    "open_close_granule (Suc (Suc n)) mem g op dir" "new_right op dir" for g dir n mem op
proof
  fix s a
  assume i: "s2_ok s \<and> dir \<noteq> DMA_NONE \<and> good_mem mem" and v: "valid_gran g" "addr_ok g a" "gb_ok (unat a div 2 ^ 30) \<or> 2 ^ 36 \<le> unat a \<and> unat a < 2 ^ 62"
  show "\<exists>s'. open_close_granule (Suc (Suc n)) mem g op dir a s = Inr s' \<and> (s2_ok s' \<and> dir \<noteq> DMA_NONE \<and> good_mem mem)
      \<and> (\<forall>p. page_ok p \<longrightarrow> perm s' p = (if p div pages g = unat a div 4096 div pages g then new_right op dir (perm s p) else perm s p))"
  proof (cases "gb_ok (unat a div 2 ^ 30)")
    case True
    then show ?thesis using any_step [of s dir mem a g n op] i v by blast
  next
    case False
    then have b: "2 ^ 36 \<le> unat a" "unat a < 2 ^ 62" using v(3) by simp_all
    have "p div pages g \<noteq> unat a div 4096 div pages g" if "page_ok p" for p
    proof
      assume "p div pages g = unat a div 4096 div pages g"
      then have "p div 2 ^ 18 = unat a div 4096 div 2 ^ 18" by (rule same_granule [OF v(1)])
      moreover have "64 \<le> unat a div 4096 div 2 ^ 18" using b(1) div_le_mono [of "2 ^ 36" "unat a" "2 ^ 30"] by (simp flip: div_mult2_eq)
      ultimately show False using that gb_ok_less by (fastforce simp: page_ok_def)
    qed
    then show ?thesis using beyond_step [OF b] i by auto
  qed
qed

end
