(* ===== verification/S2mpuProps.thy ===== *)
theory S2mpuProps
  imports S2mpuLoop
begin

text \<open>The properties of the stage 2 protection unit.\<close>

subsection \<open>Windows that are accepted\<close>

lemma and_gran_mask: "w AND push_bit n 0xFFFFFFFFFFFFFFFF = w \<longleftrightarrow> 2 ^ n dvd unat (w :: u64)"
proof -
  have m: "(0xFFFFFFFFFFFFFFFF :: u64) = mask 64" by (simp add: mask_eq_exp_minus_1)
  have "w AND push_bit n 0xFFFFFFFFFFFFFFFF = w \<longleftrightarrow> (\<forall>k. bit w k \<longrightarrow> n \<le> k)"
    unfolding m using bit_imp_le_length [of w] by (auto simp: bit_eq_iff bit_simps intro: le_less_trans [OF diff_le_self])
  also have "\<dots> \<longleftrightarrow> take_bit n w = 0" using bit_imp_le_length [of w] by (fastforce simp: bit_eq_iff bit_simps not_le)
  also have "\<dots> \<longleftrightarrow> unat w mod 2 ^ n = 0" using unat_and_mask [of w n] by (simp add: word_eq_iff_unsigned [where 'a = nat] take_bit_eq_mask)
  finally show ?thesis by (simp add: dvd_eq_mod_eq_0)
qed

lemma aligned_4K:
  assumes "\<not> is_gran_aligned w S2_GRAN_4KB"
  shows "unat w < 2 ^ 36" "4096 dvd unat w"
proof -
  have e: "w AND 0xFFFFFF000 = w" using assms by (simp add: is_gran_aligned_def)
  have "w \<le> 0xFFFFFF000" using word_and_le1 [of w "0xFFFFFF000"] e by (simp add: and.commute)
  then show "unat w < 2 ^ 36" by (simp add: word_le_nat_alt)
  have c: "(0xFFFFFF000 :: u64) AND push_bit 12 0xFFFFFFFFFFFFFFFF = 0xFFFFFF000" by simp
  have "(w AND 0xFFFFFF000) AND push_bit 12 0xFFFFFFFFFFFFFFFF = w AND 0xFFFFFF000" unfolding and.assoc c ..
  then show "4096 dvd unat w" using and_gran_mask [of w 12] unfolding e by simp
qed

lemma validateD:
  assumes "validate a len = 0"
  shows "unat a < 2 ^ 36" "4096 dvd unat a" "unat len < 2 ^ 36" "4096 dvd unat len" "unat a + unat len \<le> 2 ^ 32 \<or> 34 * 2 ^ 30 \<le> unat a"
proof -
  have v: "\<not> is_gran_aligned a S2_GRAN_4KB" "\<not> is_gran_aligned len S2_GRAN_4KB" "a < 0x100000000 \<longrightarrow> \<not> a + len > 0x100000000" "\<not> a < 0x100000000 \<longrightarrow> \<not> a \<le> 0x87FFFFFFF"
    using assms by (auto simp: validate_def split: if_splits)
  show l: "unat a < 2 ^ 36" "4096 dvd unat a" "unat len < 2 ^ 36" "4096 dvd unat len" using aligned_4K [OF v(1)] aligned_4K [OF v(2)] by simp_all
  have "unat (a + len) = unat a + unat len" using l by (simp add: unat_word_ariths)
  then show "unat a + unat len \<le> 2 ^ 32 \<or> 34 * 2 ^ 30 \<le> unat a" using v(3,4) by (auto simp: word_less_nat_alt word_le_nat_alt not_less not_le)
qed

lemma get_granD:
  assumes "4096 dvd unat w"
  shows "valid_gran (get_gran w)" "get_gran w \<noteq> S2_GRAN_INVALID" "2 ^ gran_shift (get_gran w) dvd unat w"
  using assms unfolding get_gran_def and_gran_mask by (auto simp: valid_gran_def small_def)

lemma gran_dvd: "valid_gran g \<Longrightarrow> valid_gran h \<Longrightarrow> \<not> h < g \<Longrightarrow> (2 :: nat) ^ gran_shift g dvd 2 ^ gran_shift h"
  by (rule le_imp_power_dvd) (auto simp: valid_gran_def small_def less_s2_gran_def)

text \<open>The granularity that the code chooses, and the place of the granules.\<close>

lemma window_facts:
  assumes v: "validate a len = 0"
  defines "g \<equiv> (if get_gran a < get_gran len then get_gran a else get_gran len)"
  shows "valid_gran g" "addr_ok g a" "unat (drop_bit (gran_shift g) len) * 2 ^ gran_shift g = unat len"
    "i < unat (drop_bit (gran_shift g) len) \<Longrightarrow> gb_ok ((unat a + i * 2 ^ gran_shift g) div 2 ^ 30) \<or> 2 ^ 36 \<le> unat a + i * 2 ^ gran_shift g \<and> unat a + i * 2 ^ gran_shift g < 2 ^ 62"
proof -
  note d = validateD [OF v]
  note ga = get_granD [OF d(2)] and gl = get_granD [OF d(4)]
  show vg: "valid_gran g" using ga gl by (simp add: g_def)
  have dv: "2 ^ gran_shift g dvd unat a" "2 ^ gran_shift g dvd unat len"
    using ga gl gran_dvd [of "get_gran a" "get_gran len"] gran_dvd [of "get_gran len" "get_gran a"] unfolding g_def by (auto intro: dvd_trans)
  show "addr_ok g a" using dv(1) by (simp add: addr_ok_def)
  show k: "unat (drop_bit (gran_shift g) len) * 2 ^ gran_shift g = unat len" using dv(2) by simp
  assume i: "i < unat (drop_bit (gran_shift g) len)"
  define x where "x = unat a + i * 2 ^ gran_shift g"
  have "i * 2 ^ gran_shift g < unat (drop_bit (gran_shift g) len) * 2 ^ gran_shift g" using i by simp
  then have x: "unat a \<le> x" "x < unat a + unat len" unfolding k x_def by simp_all
  have "gb_ok (x div 2 ^ 30) \<or> 2 ^ 36 \<le> x \<and> x < 2 ^ 62"
  proof (cases "unat a + unat len \<le> 2 ^ 32")
    case True
    then have "x div 2 ^ 30 < 4" using x by (simp add: div_less_iff_less_mult)
    then show ?thesis by (simp add: gb_ok_def)
  next
    case False
    then have "34 \<le> x div 2 ^ 30" using d(5) x(1) by (simp add: less_eq_div_iff_mult_less_eq)
    moreover have "x div 2 ^ 30 < 64 \<or> 2 ^ 36 \<le> x" by (simp add: div_less_iff_less_mult) linarith
    moreover have "x < 2 ^ 62" using x(2) d(1,3) by simp
    ultimately show ?thesis by (auto simp: gb_ok_def)
  qed
  then show "gb_ok ((unat a + i * 2 ^ gran_shift g) div 2 ^ 30) \<or> 2 ^ 36 \<le> unat a + i * 2 ^ gran_shift g \<and> unat a + i * 2 ^ gran_shift g < 2 ^ 62"
    by (simp add: x_def)
qed

lemma call_unfold:
  assumes "validate a len = 0"
  defines "g \<equiv> (if get_gran a < get_gran len then get_gran a else get_gran len)"
  shows "s2mpu_lib_open_close stack mem a len op dir s = map_sum id (Pair 0) (open_close_granules (open_close_granule stack mem g op dir) g (unat (drop_bit (gran_shift g) len)) a s)"
proof -
  have "get_gran a \<noteq> S2_GRAN_INVALID" "get_gran len \<noteq> S2_GRAN_INVALID" using get_granD(2) validateD(2,4) [OF assms(1)] by blast+
  then show ?thesis using assms(1) by (simp add: s2mpu_lib_open_close_def Let_def g_def split: sum.splits)
qed

lemma window_ok:
  assumes ok: "s2_ok s" and mem: "good_mem mem" and dir: "dir \<noteq> DMA_NONE" and v: "validate a len = 0" and stack: "2 \<le> stack"
  shows "\<exists>s'. s2mpu_lib_open_close stack mem a len op dir s = Inr (0, s') \<and> s2_ok s'
    \<and> (\<forall>p. page_ok p \<longrightarrow> perm s' p = (if unat a \<le> 4096 * p \<and> 4096 * p < unat a + unat len then new_right op dir (perm s p) else perm s p))"
proof -
  define g where "g = (if get_gran a < get_gran len then get_gran a else get_gran len)"
  note w = window_facts [OF v, folded g_def] and d = validateD [OF v]
  obtain n where n: "stack = Suc (Suc n)" using stack by (metis Suc_le_D numeral_2_eq_2 Suc_le_mono)
  have "unat a + unat (drop_bit (gran_shift g) len) * 2 ^ gran_shift g < 2 ^ 64" unfolding w(3) using d(1,3) by simp
  then obtain s' where s': "open_close_granules (open_close_granule stack mem g op dir) g (unat (drop_bit (gran_shift g) len)) a s = Inr s'" "s2_ok s'"
    "\<forall>p. page_ok p \<longrightarrow> perm s' p = (if unat a div 4096 \<le> p \<and> p < unat a div 4096 + unat (drop_bit (gran_shift g) len) * pages g then new_right op dir (perm s p) else perm s p)"
    using steps.loop [of s dir mem g a _ n op] w ok dir mem unfolding n by blast
  have "4096 * (unat (drop_bit (gran_shift g) len) * pages g) = unat len" using w(3) valid_gran_shift [OF w(1)] by simp
  moreover obtain m where "unat a = 4096 * m" using d(2) by (rule dvdE)
  ultimately have "unat a div 4096 \<le> p \<and> p < unat a div 4096 + unat (drop_bit (gran_shift g) len) * pages g \<longleftrightarrow> unat a \<le> 4096 * p \<and> 4096 * p < unat a + unat len" for p
    by auto
  then show ?thesis using s' call_unfold [OF v, folded g_def] by simp
qed

subsection \<open>Setting up\<close>

lemma attr_writes_hw:
  assumes "m < 64" and "set gbs \<subseteq> {..<64}"
  shows "hw (writes (attr_writes n reg gbs) s) (S2MPU_L1ENTRY_ATTR n' m) = (if n = n' \<and> m \<in> set gbs then reg else hw s (S2MPU_L1ENTRY_ATTR n' m))"
  using assms by (induction gbs arbitrary: s) (auto simp: attr_writes_def attr_inj)

lemma attr_writes_all:
  assumes "m < 64" and "set gbs \<subseteq> {..<64}"
  shows "hw (writes (concat (map (\<lambda>n. attr_writes n reg gbs) ns)) s) (S2MPU_L1ENTRY_ATTR n' m) = (if n' \<in> set ns \<and> m \<in> set gbs then reg else hw s (S2MPU_L1ENTRY_ATTR n' m))"
  by (induction ns arbitrary: s) (auto simp: attr_writes_hw [OF assms])

lemma attr_writes_addr: "hw (writes (attr_writes n reg gbs) s) (S2MPU_L1ENTRY_L2TABLE_ADDR n' m) = hw s (S2MPU_L1ENTRY_L2TABLE_ADDR n' m)"
  by (induction gbs arbitrary: s) (auto simp: attr_writes_def)

lemma gb_sets: "set gb_low = {..<4}" "set gb_high = {34..<64}" "set (gb_low @ gb_high) = {gb. gb_ok gb}" "set gb_low \<subseteq> {..<64}" "set gb_high \<subseteq> {..<64}" "set (gb_low @ gb_high) \<subseteq> {..<64}"
  by (auto simp: gb_low_def gb_high_def gb_ok_def simp del: upt_rec_numeral)

lemma open_vid0_hw:
  assumes "m < 64"
  shows "hw (open_vid0 s) (S2MPU_L1ENTRY_ATTR n m) = (if vid s = 1 \<and> n = 0 \<and> gb_ok m then mk_attr 0 1 1 0 else hw s (S2MPU_L1ENTRY_ATTR n m))"
    "hw (open_vid0 s) (S2MPU_L1ENTRY_L2TABLE_ADDR n m) = hw s (S2MPU_L1ENTRY_L2TABLE_ADDR n m)"
  using attr_writes_hw [OF assms gb_sets(6)] attr_writes_addr gb_sets(3) by (auto simp: open_vid0_def ssmt_set_vid_def)

text \<open>The identifier that the stream table gives to all the streams of the unit.\<close>

definition streams_carry :: "u32 \<Rightarrow> s2mpu_info \<Rightarrow> bool" where
  "streams_carry v s \<longleftrightarrow> (\<forall>i \<in> set (sids s). ssmt s (SSMT_NS_READ_STREAM_VID i) = v \<and> ssmt s (SSMT_NS_WRITE_STREAM_VID i) = v)"

lemma fold_upd_same: "fold (\<lambda>i m. m(f i := x, g i := x)) is m a = (if a \<in> f ` set is \<union> g ` set is then x else m a)"
  by (induction "is" arbitrary: m) auto

lemma open_vid0_streams: "vid s = 1 \<Longrightarrow> streams_carry 1 (open_vid0 s)" "vid s \<noteq> 1 \<Longrightarrow> ssmt (open_vid0 s) = ssmt s" "sids (open_vid0 s) = sids s"
  by (simp_all add: streams_carry_def open_vid0_def ssmt_set_vid_def fold_upd_same)

lemma writes_streams [simp]: "streams_carry v (writel a x s) = streams_carry v s" "streams_carry v (writes ws s) = streams_carry v s"
  by (simp_all add: streams_carry_def)

lemma open_vid0_fields [simp]:
  "l1entry_attrs (open_vid0 s) = l1entry_attrs s" "l2table_addrs (open_vid0 s) = l2table_addrs s" "smpt_regions (open_vid0 s) = smpt_regions s" "vid (open_vid0 s) = vid s"
  by (simp_all add: open_vid0_def ssmt_set_vid_def)

lemma open_attr: "l2table_en (mk_attr 0 1 1 0) = 0" "l1_bits (mk_attr 0 1 1 0) = 3" "l2table_en (mk_attr 0 0 0 0) = 0" "l1_bits (mk_attr 0 0 0 0) = 0"
  by (simp_all add: mk_attr_def l2table_en_def l1_bits_def rd_access_def wr_access_def)

lemma fold_set: "set gbs \<subseteq> {..<length l} \<Longrightarrow> length (fold (\<lambda>gb l. l[gb := x]) gbs l) = length l \<and> (\<forall>i < length l. fold (\<lambda>gb l. l[gb := x]) gbs l ! i = (if i \<in> set gbs then x else l ! i))"
  by (induction gbs arbitrary: l) (auto simp: nth_upd)

lemma init_ok:
  assumes "v \<le> 1" and "length a1 = 64" and "length a2 = 64"
  shows "\<exists>s. s2mpu_lib_init True a1 a2 regs ssmt_regs v sd = Some (Inr s) \<and> s2_ok s \<and> (\<forall>gb. \<not> has_table s gb) \<and> vid s = v \<and> hw s 0 = 7
    \<and> sids s = sd \<and> (v = 1 \<longrightarrow> streams_carry 1 s) \<and> (v = 0 \<longrightarrow> ssmt s = ssmt_regs)
    \<and> (\<forall>p. page_ok p \<longrightarrow> perm s p = 0 \<and> (\<forall>n < 8. granted s n p = (if v = 1 \<and> n = 0 then 3 else 0)))"
proof -
  let ?reg = "mk_attr 0 0 0 0"
  let ?fill = "\<lambda>gbs. fold (\<lambda>gb l. l[gb := ?reg]) gbs"
  define s1 where "s1 = writes [(0x0, 0), (0x4, 0), (0x10, 0), (0x14, 0), (0x18, 0), (0x20, 0xFF), (0x40, 0), (0x44, 0x00F200F1), (0x48, 0x00F200F1), (0x70, 0)]
    \<lparr>l1entry_attrs = a1, l2table_addrs = a2, smpt_regions = [], sids = sd, vid = v, hw = regs, wlog = [], ssmt = ssmt_regs, allocs = 0\<rparr>"
  define s2 where "s2 = writes (concat (map (\<lambda>n. attr_writes n ?reg gb_low) [0..<8])) s1"
  define s3 where "s3 = s2\<lparr>l1entry_attrs := ?fill gb_low (l1entry_attrs s2)\<rparr>"
  define s4 where "s4 = writes (concat (map (\<lambda>n. attr_writes n ?reg gb_high) [0..<8])) s3"
  define s5 where "s5 = s4\<lparr>l1entry_attrs := ?fill gb_high (l1entry_attrs s4)\<rparr>"
  define s where "s = writes [(0x2C, 0xFF), (0x0, 1 OR push_bit 1 1 OR push_bit 2 1), (0x1000, 1)] (open_vid0 s5)"
  have v1: "(1 < v) = False" using assms(1) by (simp add: not_less)
  have call: "s2mpu_lib_init True a1 a2 regs ssmt_regs v sd = Some (Inr s)"
    unfolding s2mpu_lib_init_def Let_def v1 s_def s5_def s4_def s3_def s2_def s1_def by (simp only: if_False not_True_eq_False)
  have v8: "unat v < 8" using assms(1) by (simp add: word_le_nat_alt)
  have f: "vid s1 = v" "smpt_regions s1 = []" "l1entry_attrs s1 = a1" "l2table_addrs s1 = a2" by (simp_all add: s1_def)
  have s: "vid s = v" "smpt_regions s = []" "hw s 0 = 7" "l1entry_attrs s = ?fill gb_high (?fill gb_low a1)" "l2table_addrs s = a2"
    by (simp_all add: s_def s5_def s4_def s3_def s2_def f del: upt_rec_numeral)
  have "hw s4 (S2MPU_L1ENTRY_ATTR n m) = ?reg" if "gb_ok m" "n < 8" for m n
    using that attr_writes_all [OF gb_ok_less [OF that(1)] gb_sets(4), of ?reg "[0..<8]" s1 n] attr_writes_all [OF gb_ok_less [OF that(1)] gb_sets(5), of ?reg "[0..<8]" s3 n]
    unfolding s4_def [symmetric] s2_def [symmetric] gb_sets(1,2) by (auto simp: s3_def gb_ok_def)
  then have s6: "hw s (S2MPU_L1ENTRY_ATTR n m) = (if v = 1 \<and> n = 0 then mk_attr 0 1 1 0 else ?reg)" if "gb_ok m" "n < 8" for m n
    using that gb_ok_less [OF that(1)] s(1) by (simp add: s_def open_vid0_hw s5_def)
  have lo: "length (?fill gb_low a1) = 64" "\<forall>i < 64. ?fill gb_low a1 ! i = (if i \<in> set gb_low then ?reg else a1 ! i)" using fold_set [of gb_low a1] gb_sets(4) assms(2) by simp_all
  have hi: "length (?fill gb_high (?fill gb_low a1)) = 64" "\<forall>i < 64. ?fill gb_high (?fill gb_low a1) ! i = (if i \<in> set gb_high then ?reg else ?fill gb_low a1 ! i)"
    using fold_set [of gb_high "?fill gb_low a1"] gb_sets(5) unfolding lo(1) by simp_all
  have l1: "length (l1entry_attrs s) = 64" using hi(1) s(4) by simp
  have at: "attr s gb = ?reg" if "gb_ok gb" for gb using that gb_ok_less [OF that] lo(2) hi(2) gb_sets(1,2) by (auto simp: s(4) gb_ok_def)
  have nt: "\<not> has_table s gb" for gb using at open_attr by (auto simp: has_table_def)
  have own: "hw s (S2MPU_L1ENTRY_ATTR (unat v) m) = mk_attr 0 0 0 0" if "gb_ok m" for m using s6 [OF that v8] by auto
  have ok: "s2_ok s" using l1 s assms nt at own by (simp add: s2_ok_def regions_ok_def gb_consistent_def tab_at_def)
  have "perm s p = 0" "\<forall>n < 8. granted s n p = (if v = 1 \<and> n = 0 then 3 else 0)" if "page_ok p" for p
    using perm_plain [OF ok that nt] at that s6 [of "p div 2 ^ 18"] by (auto simp: page_ok_def open_attr granted_def Let_def)
  moreover have "vid s5 = v" "sids s5 = sd" "ssmt s5 = ssmt_regs" by (simp_all add: s5_def s4_def s3_def s2_def s1_def del: upt_rec_numeral)
  then have "sids s = sd" "v = 1 \<longrightarrow> streams_carry 1 s" "v = 0 \<longrightarrow> ssmt s = ssmt_regs" using open_vid0_streams [of s5] by (simp_all add: s_def)
  ultimately show ?thesis using call ok nt s(1,3) by blast
qed

text \<open>
  C37. After the initialisation the unit is enabled and the invariant of the tables holds. With identifier 1, the stream
  table gives identifier 1 to every stream that the unit restricts, for reading and for writing, no page is granted to it, and every page
  is granted to identifier 0, which the other devices have. With identifier 0 the stream table is left as it was, and no page is
  granted to any of the eight identifiers that a stream can have.
\<close>

theorem s2mpu_init_closed:
  assumes "v \<le> 1" and "length a1 = 64" and "length a2 = 64"
  shows "\<exists>s. s2mpu_lib_init True a1 a2 regs ssmt_regs v sd = Some (Inr s) \<and> s2_ok s \<and> vid s = v \<and> hw s 0 = 7
    \<and> (v = 1 \<longrightarrow> (\<forall>i \<in> set sd. ssmt s (SSMT_NS_READ_STREAM_VID i) = 1 \<and> ssmt s (SSMT_NS_WRITE_STREAM_VID i) = 1)) \<and> (v = 0 \<longrightarrow> ssmt s = ssmt_regs)
    \<and> (\<forall>p. page_ok p \<longrightarrow> perm s p = 0 \<and> (\<forall>n < 8. granted s n p = (if v = 1 \<and> n = 0 then 3 else 0)))"
  using init_ok [OF assms, of regs ssmt_regs sd] by (auto simp: streams_carry_def)

theorem s2mpu_init_closed_witness:
  "\<exists>s. s2mpu_lib_init True (replicate 64 7) (replicate 64 9) (\<lambda>_. 5) (\<lambda>_. 0) 1 [5] = Some (Inr s) \<and> perm s 3 = 0 \<and> granted s 1 3 = 0 \<and> granted s 0 3 = 3
    \<and> ssmt s (SSMT_NS_READ_STREAM_VID 5) = 1 \<and> ssmt s (SSMT_NS_WRITE_STREAM_VID 5) = 1"
proof -
  have "page_ok 3" by (simp add: page_ok_def gb_ok_def)
  then show ?thesis using s2mpu_init_closed [of 1 "replicate 64 7" "replicate 64 9" "\<lambda>_. 5" "\<lambda>_. 0" "[5]"] by fastforce
qed

subsection \<open>An allocator and a unit\<close>

text \<open>The first free of 127 places, and a unit that was just set up: the objects on which the properties are shown to apply.\<close>

definition page_mem :: allocator where
  "page_mem n rs len = map_option (\<lambda>k. (k, of_nat (65536 * k))) (find (\<lambda>k. k \<notin> set (map va rs) \<and> of_nat (65536 * k) \<notin> set (map pa rs)) [1..<128])"

definition unit0 :: s2mpu_info where
  "unit0 = projr (the (s2mpu_lib_init True (replicate 64 0) (replicate 64 0) (\<lambda>_. 0) (\<lambda>_. 0) 1 [5]))"

lemma place: "k < 128 \<Longrightarrow> unat (of_nat (65536 * k) :: u64) = 65536 * k"
  by (subst unat_of_nat) simp

lemma place_inj: "inj_on (\<lambda>k. of_nat (65536 * k) :: u64) {1..<128}"
proof (rule inj_onI)
  fix x y :: nat
  assume "x \<in> {1..<128}" "y \<in> {1..<128}" "(of_nat (65536 * x) :: u64) = of_nat (65536 * y)"
  then have "65536 * x = 65536 * y" using place [of x] place [of y] by (metis atLeastLessThan_iff)
  then show "x = y" by simp
qed

lemma find_first: "x \<in> set xs \<Longrightarrow> P x \<Longrightarrow> \<exists>k. find P xs = Some k \<and> k \<in> set xs \<and> P k"
  by (induction xs) auto

lemma page_mem_good: "good_mem page_mem"
proof -
  have "\<exists>v p. page_mem n rs len = Some (v, p) \<and> v \<noteq> 0 \<and> v \<notin> va ` set rs \<and> p \<notin> pa ` set rs \<and> unat p < 2 ^ 36 \<and> 16 dvd unat p" if l: "length rs < 64" for n rs len
  proof -
    let ?f = "\<lambda>k. of_nat (65536 * k) :: u64"
    have "card (?f -` (pa ` set rs) \<inter> {1..<128}) \<le> card (pa ` set rs)" by (rule card_vimage_inj_on_le [OF place_inj]) simp
    moreover have "card (va ` set rs) \<le> length rs" "card (pa ` set rs) \<le> length rs" by (metis card_length set_map length_map)+
    ultimately have "card (va ` set rs \<union> (?f -` (pa ` set rs) \<inter> {1..<128})) \<le> 126" using card_Un_le [of "va ` set rs" "?f -` (pa ` set rs) \<inter> {1..<128}"] l by linarith
    then have "\<not> {1..<128} \<subseteq> va ` set rs \<union> (?f -` (pa ` set rs) \<inter> {1..<128})" using card_mono [of "va ` set rs \<union> (?f -` (pa ` set rs) \<inter> {1..<128})" "{1..<128}"] by auto
    then obtain k where "k \<in> {1..<128}" "k \<notin> va ` set rs" "?f k \<notin> pa ` set rs" by blast
    then have "k \<in> set [1..<128]" "k \<notin> set (map va rs) \<and> ?f k \<notin> set (map pa rs)" by (simp_all only: set_upt set_map) simp_all
    from find_first [where P = "\<lambda>k. k \<notin> set (map va rs) \<and> ?f k \<notin> set (map pa rs)", OF this] obtain k where
      k: "find (\<lambda>k. k \<notin> set (map va rs) \<and> ?f k \<notin> set (map pa rs)) [1..<128] = Some k" "k \<in> {1..<128}" "k \<notin> va ` set rs" "?f k \<notin> pa ` set rs" by (auto simp del: upt_rec_numeral)
    have "page_mem n rs len = Some (k, ?f k)" unfolding page_mem_def k(1) by simp
    moreover have "unat (?f k) < 2 ^ 36" "16 dvd unat (?f k)" using place [of k] k(2) by simp_all
    ultimately show ?thesis using k(2-4) by auto
  qed
  then show ?thesis by (auto simp: good_mem_def)
qed

lemma unit0_facts: "s2_ok unit0" "vid unit0 = 1" "page_ok p \<Longrightarrow> perm unit0 p = 0" "\<not> has_table unit0 gb" "sids unit0 = [5]"
proof -
  obtain s where "s2mpu_lib_init True (replicate 64 0) (replicate 64 0) (\<lambda>_. 0) (\<lambda>_. 0) 1 [5] = Some (Inr s)" "s2_ok s" "vid s = 1" "\<forall>p. page_ok p \<longrightarrow> perm s p = 0" "\<forall>gb. \<not> has_table s gb" "sids s = [5]"
    using init_ok [of 1 "replicate 64 0" "replicate 64 0" "\<lambda>_. 0" "\<lambda>_. 0" "[5]"] by auto
  then show "s2_ok unit0" "vid unit0 = 1" "page_ok p \<Longrightarrow> perm unit0 p = 0" "\<not> has_table unit0 gb" "sids unit0 = [5]" by (simp_all add: unit0_def)
qed

subsection \<open>Windows\<close>

text \<open>
  C34. Suppose memory for the tables can be allocated and the direction is not \<^verbatim>\<open>DMA_NONE\<close>. A window that passes the checks is opened or closed exactly: the call returns 0, and for every page of the
  physical address space the rights change if the page lies in the window and stay as they were otherwise,
  whatever the granularities of the gigabytes are. Opening adds the right of the direction; closing removes both.
\<close>

theorem s2mpu_window_exact:
  assumes "s2_ok s" and "good_mem mem" and "dir \<noteq> DMA_NONE" and "validate start len = 0" and "2 \<le> stack"
  shows "\<exists>s'. s2mpu_lib_open_close stack mem start len op dir s = Inr (0, s') \<and> s2_ok s'
    \<and> (\<forall>p. page_ok p \<longrightarrow> perm s' p =
         (if unat start \<le> 4096 * p \<and> 4096 * p < unat start + unat len then (if op then perm s p OR of_nat (dir_mask dir) else 0) else perm s p))"
  using window_ok [OF assms, of op] unfolding new_right_def .

theorem s2mpu_window_exact_witness:
  "\<exists>s'. s2mpu_lib_open_close 2 page_mem 0x880003000 0x5000 True DMA_TO_DEVICE unit0 = Inr (0, s') \<and> s2_ok s' \<and> perm s' 0x880003 = 1 \<and> perm s' 0x880008 = 0"
proof -
  have p: "page_ok 0x880003" "page_ok 0x880008" by (simp_all add: page_ok_def gb_ok_def)
  have v: "validate 0x880003000 0x5000 = 0" by (simp add: validate_def is_gran_aligned_def)
  obtain s' where s': "s2mpu_lib_open_close 2 page_mem 0x880003000 0x5000 True DMA_TO_DEVICE unit0 = Inr (0, s')" "s2_ok s'"
    "\<And>p. page_ok p \<Longrightarrow> perm s' p = (if unat (0x880003000 :: u64) \<le> 4096 * p \<and> 4096 * p < unat (0x880003000 :: u64) + unat (0x5000 :: u64) then perm unit0 p OR 1 else perm unit0 p)"
    using s2mpu_window_exact [OF unit0_facts(1) page_mem_good _ v order_refl, of DMA_TO_DEVICE True] by auto
  then show ?thesis using s'(3) [OF p(1)] s'(3) [OF p(2)] unit0_facts(3) p by simp
qed

end
