(* ===== verification/S2mpuRuns.thy ===== *)
theory S2mpuRuns
  imports S2mpuProps
begin

text \<open>
  Losing the registers and restoring them, taking the unit down, sequences of calls against the abstract
  map from pages to rights, and what happens when there is no memory for a table.
\<close>

subsection \<open>Restoring\<close>

lemma restore_hw:
  assumes "m < 64" and "set gbs \<subseteq> {..<64}"
  shows "hw (writes (concat (map (\<lambda>gb. [(S2MPU_L1ENTRY_L2TABLE_ADDR n gb, f gb), (S2MPU_L1ENTRY_ATTR n gb, h gb)]) gbs)) s) (S2MPU_L1ENTRY_ATTR n m) = (if m \<in> set gbs then h m else hw s (S2MPU_L1ENTRY_ATTR n m))"
    "hw (writes (concat (map (\<lambda>gb. [(S2MPU_L1ENTRY_L2TABLE_ADDR n gb, f gb), (S2MPU_L1ENTRY_ATTR n gb, h gb)]) gbs)) s) (S2MPU_L1ENTRY_L2TABLE_ADDR n m) = (if m \<in> set gbs then f m else hw s (S2MPU_L1ENTRY_L2TABLE_ADDR n m))"
  using assms by (induction gbs arbitrary: s) auto

lemma same_tables:
  assumes ok: "s2_ok s" and f: "l1entry_attrs s' = l1entry_attrs s" "l2table_addrs s' = l2table_addrs s" "smpt_regions s' = smpt_regions s" "vid s' = vid s"
    and h: "\<And>gb. gb_ok gb \<Longrightarrow> hw s' (S2MPU_L1ENTRY_ATTR (unat (vid s)) gb) = attr s gb \<and> hw s' (S2MPU_L1ENTRY_L2TABLE_ADDR (unat (vid s)) gb) = l2table_addrs s ! gb"
  shows "s2_ok s'" "page_ok p \<Longrightarrow> perm s' p = perm s p"
proof -
  have t: "has_table s' gb \<longleftrightarrow> has_table s gb" for gb by (simp add: has_table_def f)
  show ok': "s2_ok s'" using ok h unfolding s2_ok_def gb_consistent_def t f by auto
  assume p: "page_ok p"
  let ?gb = "p div 2 ^ 18"
  show "perm s' p = perm s p"
  proof (cases "has_table s ?gb")
    case True
    then obtain g t where gt: "gran_at s ?gb = Some g" "tabs s (l2pa s ?gb) = Some t" using s2_okD(5) [OF ok, of ?gb] p by (auto simp: page_ok_def gb_consistent_def)
    then show ?thesis using perm_table [OF ok p True gt] perm_table [OF ok' p, of g t] True t f by simp
  next
    case False
    then show ?thesis using perm_plain [OF ok p] perm_plain [OF ok' p] t f by simp
  qed
qed

lemma restore_ok:
  assumes ok: "s2_ok s"
  shows "\<exists>s'. s2mpu_lib_restore (s\<lparr>hw := regs, ssmt := table\<rparr>) = (0, s') \<and> s2_ok s' \<and> vid s' = vid s \<and> hw s' 0 = 7 \<and> hw s' 0x1000 = 1 \<and> sids s' = sids s \<and> (vid s = 1 \<longrightarrow> streams_carry 1 s')
    \<and> (\<forall>p. page_ok p \<longrightarrow> perm s' p = perm s p \<and> (vid s = 1 \<longrightarrow> granted s' 0 p = 3))"
proof -
  let ?n = "unat (vid s)"
  define s0 where "s0 = s\<lparr>hw := regs, ssmt := table\<rparr>"
  define s1 where "s1 = writes (concat (map (\<lambda>gb. [(S2MPU_L1ENTRY_L2TABLE_ADDR ?n gb, l2table_addrs s ! gb), (S2MPU_L1ENTRY_ATTR ?n gb, attr s gb)]) (gb_low @ gb_high))) s0"
  define s' where "s' = writes [(0x0, 1 OR push_bit 1 1 OR push_bit 2 1), (0x1000, 1)] (open_vid0 s1)"
  have call: "s2mpu_lib_restore (s\<lparr>hw := regs, ssmt := table\<rparr>) = (0, s')" by (simp only: s2mpu_lib_restore_def Let_def s'_def s1_def s0_def) simp
  have f: "l1entry_attrs s' = l1entry_attrs s" "l2table_addrs s' = l2table_addrs s" "smpt_regions s' = smpt_regions s" "vid s' = vid s" "hw s' 0 = 7" "hw s' 0x1000 = 1" "vid s1 = vid s"
    by (simp_all add: s'_def s1_def s0_def)
  have in_gb: "gb \<in> set (gb_low @ gb_high)" "gb < 64" if "gb_ok gb" for gb using that gb_sets(3) gb_ok_less by auto
  have h1: "hw s1 (S2MPU_L1ENTRY_ATTR ?n gb) = attr s gb" "hw s1 (S2MPU_L1ENTRY_L2TABLE_ADDR ?n gb) = l2table_addrs s ! gb" if "gb_ok gb" for gb
    using restore_hw [OF in_gb(2) [OF that] gb_sets(6), of ?n] in_gb(1) [OF that] unfolding s1_def by simp_all
  have "hw s' (S2MPU_L1ENTRY_ATTR ?n gb) = attr s gb" "hw s' (S2MPU_L1ENTRY_L2TABLE_ADDR ?n gb) = l2table_addrs s ! gb" if "gb_ok gb" for gb
    using h1 [OF that] open_vid0_hw [OF in_gb(2) [OF that]] f(7) by (auto simp: s'_def)
  note same = same_tables [OF ok f(1-4) conjI [OF this]]
  have "granted s' 0 p = 3" if "vid s = 1" "page_ok p" for p
    using that open_vid0_hw [OF in_gb(2)] f(7) by (simp add: s'_def granted_def Let_def page_ok_def open_attr)
  moreover have "sids s' = sids s" "vid s = 1 \<longrightarrow> streams_carry 1 s'" using open_vid0_streams [of s1] f(7) by (simp_all add: s'_def) (simp add: s1_def s0_def)
  ultimately show ?thesis using call same f(4-6) by blast
qed

text \<open>
  C36. The registers of the unit and of the stream table may hold anything after the power was off: restoring them from the copy
  that the driver keeps gives back the rights of every page, enables the unit and invalidates its cache; when the restricted streams have identifier 1,
  the stream table gives it to all of them again, for reading and for writing, and everything is open again for identifier 0.
\<close>

theorem s2mpu_restore_keeps:
  assumes "s2_ok s"
  shows "\<exists>s'. s2mpu_lib_restore (s\<lparr>hw := regs, ssmt := table\<rparr>) = (0, s') \<and> s2_ok s' \<and> hw s' 0 = 7 \<and> hw s' 0x1000 = 1
    \<and> (vid s = 1 \<longrightarrow> (\<forall>i \<in> set (sids s). ssmt s' (SSMT_NS_READ_STREAM_VID i) = 1 \<and> ssmt s' (SSMT_NS_WRITE_STREAM_VID i) = 1))
    \<and> (\<forall>p. page_ok p \<longrightarrow> perm s' p = perm s p \<and> (vid s = 1 \<longrightarrow> granted s' 0 p = 3))"
  using restore_ok [OF assms, where regs = regs and table = "table"] by (auto simp: streams_carry_def)

theorem s2mpu_restore_keeps_witness:
  "\<exists>s'. s2mpu_lib_restore (unit0\<lparr>hw := \<lambda>_. 0xFFFFFFFF, ssmt := \<lambda>_. 0\<rparr>) = (0, s') \<and> s2_ok s' \<and> perm s' 3 = 0 \<and> granted s' 0 3 = 3
    \<and> ssmt s' (SSMT_NS_READ_STREAM_VID 5) = 1"
proof -
  have "page_ok 3" by (simp add: page_ok_def gb_ok_def)
  then show ?thesis using s2mpu_restore_keeps [of unit0 "\<lambda>_. 0" "\<lambda>_. 0xFFFFFFFF"] unit0_facts by auto
qed

subsection \<open>Taking the unit down\<close>

text \<open>
  C38. After the unit was taken down it is enabled and grants no page to the streams it restricts, whatever was open
  and whatever state it was in; its tables are freed.
\<close>

theorem s2mpu_deinit_blocks:
  assumes "page_ok p"
  shows "granted (s2mpu_lib_deinit s) (unat (vid s)) p = 0 \<and> hw (s2mpu_lib_deinit s) 0 AND 1 = 1 \<and> smpt_regions (s2mpu_lib_deinit s) = []"
proof -
  define s1 where "s1 = writes (attr_writes (unat (vid s)) (mk_attr 0 0 0 0) (gb_low @ gb_high)) s"
  define s2 where "s2 = (if hw s1 0x0 AND 1 = 0 then writel 0x0 (hw s1 0x0 OR 1) s1 else s1)"
  have d: "s2mpu_lib_deinit s = (writel 0x1000 1 s2)\<lparr>smpt_regions := []\<rparr>" by (simp only: s2mpu_lib_deinit_def Let_def s2_def s1_def)
  have gb: "gb_ok (p div 2 ^ 18)" using assms by (simp add: page_ok_def)
  have "hw s1 (S2MPU_L1ENTRY_ATTR (unat (vid s)) (p div 2 ^ 18)) = mk_attr 0 0 0 0"
    unfolding s1_def attr_writes_hw [OF gb_ok_less [OF gb] gb_sets(6)] using gb gb_sets(3) by auto
  then have "hw s2 (S2MPU_L1ENTRY_ATTR (unat (vid s)) (p div 2 ^ 18)) = mk_attr 0 0 0 0" by (simp add: s2_def)
  moreover have "x AND 1 = 0 \<or> x AND 1 = (1 :: u32)" for x by (metis and_one_eq bit_iff_odd mod2_eq_if)
  then have "hw s2 0 AND 1 = 1" by (auto simp: s2_def bit.conj_disj_distrib2)
  ultimately show ?thesis by (simp add: d granted_def Let_def open_attr)
qed

theorem s2mpu_deinit_blocks_witness:
  "page_ok 0x880003 \<and> granted (s2mpu_lib_deinit unit0) (unat (vid unit0)) 0x880003 = 0"
proof -
  have "page_ok 0x880003" by (simp add: page_ok_def gb_ok_def)
  then show ?thesis using s2mpu_deinit_blocks [of "0x880003" unit0] by blast
qed

subsection \<open>Sequences of calls\<close>

text \<open>
  The abstract unit is a map from pages to rights. A window is accepted when it is aligned to pages, lies within
  36 bits and does not reach into the gap of the address space.
\<close>

definition window_accepted :: "u64 \<Rightarrow> u64 \<Rightarrow> bool" where
  "window_accepted a len \<longleftrightarrow> 4096 dvd unat a \<and> 4096 dvd unat len \<and> unat a < 2 ^ 36 \<and> unat len < 2 ^ 36
     \<and> (unat a < 2 ^ 32 \<and> unat a + unat len \<le> 2 ^ 32 \<or> 34 * 2 ^ 30 \<le> unat a)"

datatype s2_call = Window bool u64 u64 dma_data_direction | Resume "nat \<Rightarrow> u32" "nat \<Rightarrow> u32"

fun rights_call :: "s2_call \<Rightarrow> (nat \<Rightarrow> u8) \<Rightarrow> int \<times> (nat \<Rightarrow> u8)" where
  "rights_call (Resume regs table) m = (0, m)"
| "rights_call (Window op a len dir) m =
     (if \<not> window_accepted a len then (-1, m)
      else (0, \<lambda>p. if dir \<noteq> DMA_NONE \<and> unat a \<le> 4096 * p \<and> 4096 * p < unat a + unat len then (if op then m p OR of_nat (dir_mask dir) else 0) else m p))"

fun rights_calls :: "s2_call list \<Rightarrow> (nat \<Rightarrow> u8) \<Rightarrow> int list \<times> (nat \<Rightarrow> u8)" where
  "rights_calls [] m = ([], m)"
| "rights_calls (c # cs) m = (let (r, m1) = rights_call c m; (rs, m2) = rights_calls cs m1 in (r # rs, m2))"

fun run_call :: "nat \<Rightarrow> allocator \<Rightarrow> s2_call \<Rightarrow> s2mpu_info \<Rightarrow> stop + (int \<times> s2mpu_info)" where
  "run_call stack mem (Resume regs table) s = Inr (s2mpu_lib_restore (s\<lparr>hw := regs, ssmt := table\<rparr>))"
| "run_call stack mem (Window op a len dir) s = s2mpu_lib_open_close stack mem a len op dir s"

fun run_calls :: "nat \<Rightarrow> allocator \<Rightarrow> s2_call list \<Rightarrow> s2mpu_info \<Rightarrow> stop + (int list \<times> s2mpu_info)" where
  "run_calls stack mem [] s = Inr ([], s)"
| "run_calls stack mem (c # cs) s =
     (case run_call stack mem c s of
        Inl e \<Rightarrow> Inl e
      | Inr (r, s1) \<Rightarrow> map_sum id (map_prod (Cons r) id) (run_calls stack mem cs s1))"

lemma aligned_4K_iff: "\<not> is_gran_aligned w S2_GRAN_4KB \<longleftrightarrow> unat w < 2 ^ 36 \<and> 4096 dvd unat w"
proof
  assume a: "unat w < 2 ^ 36 \<and> 4096 dvd unat w"
  have m: "unat (take_bit n w) = unat w mod 2 ^ n" for n using unat_and_mask [of w n] by (simp only: take_bit_eq_mask)
  have t: "take_bit 36 w = w" "take_bit 12 w = 0" using m [of 36] m [of 12] a by (simp_all add: word_eq_iff_unsigned [where 'a = nat] dvd_eq_mod_eq_0)
  have b: "12 \<le> n \<and> n < 36" if "bit w n" for n using that t by (metis bit_0_eq bit_take_bit_iff bot_apply bot_bool_def not_le)
  have c: "(push_bit 12 0xFFFFFFFFF AND 0xFFFFFFFFF :: u64) = push_bit 12 (mask 24)" by (simp add: mask_eq_exp_minus_1)
  have "w AND push_bit 12 (mask 24) = w" by (rule bit_word_eqI) (auto simp: bit_simps dest: b)
  then show "\<not> is_gran_aligned w S2_GRAN_4KB" unfolding is_gran_aligned_def by (simp only: gran_shift.simps c not_not)
qed (use aligned_4K in blast)

lemma validate_eq: "validate a len = (if window_accepted a len then 0 else -1)"
proof (cases "is_gran_aligned a S2_GRAN_4KB \<or> is_gran_aligned len S2_GRAN_4KB")
  case True
  then show ?thesis using aligned_4K_iff [of a] aligned_4K_iff [of len] by (auto simp: validate_def window_accepted_def)
next
  case False
  then have l: "unat a < 2 ^ 36" "4096 dvd unat a" "unat len < 2 ^ 36" "4096 dvd unat len" using aligned_4K_iff by blast+
  have "unat (a + len) = unat a + unat len" using l by (simp add: unat_word_ariths)
  then show ?thesis using False l by (auto simp: validate_def window_accepted_def word_less_nat_alt word_le_nat_alt)
qed

lemma no_direction: "open_close_granules (open_close_granule (Suc n) mem g op DMA_NONE) h k a s = Inr s"
  by (induction k arbitrary: a) simp_all

lemma call_simulates:
  assumes ok: "s2_ok s" and mem: "good_mem mem" and stack: "2 \<le> stack"
  shows "\<exists>s'. run_call stack mem c s = Inr (fst (rights_call c m), s') \<and> s2_ok s' \<and> (\<forall>p. page_ok p \<longrightarrow> perm s p = m p \<longrightarrow> perm s' p = snd (rights_call c m) p)"
proof (cases c)
  case (Resume regs "table")
  then show ?thesis using restore_ok [OF ok, where regs = regs and table = "table"] by auto
next
  case (Window op a len dir)
  consider "\<not> window_accepted a len" | "window_accepted a len" "dir = DMA_NONE" | "window_accepted a len" "dir \<noteq> DMA_NONE" by blast
  then show ?thesis
  proof cases
    case 1
    then show ?thesis using Window validate_eq [of a len] ok by (simp add: s2mpu_lib_open_close_def)
  next
    case 2
    obtain n where "stack = Suc n" using stack by (cases stack) simp_all
    then show ?thesis using 2 Window call_unfold [of a len stack mem op DMA_NONE s] validate_eq [of a len] ok by (simp add: no_direction del: open_close_granule.simps)
  next
    case 3
    then have "validate a len = 0" by (simp add: validate_eq)
    from window_ok [OF ok mem 3(2) this stack, of op] show ?thesis using 3 Window by (auto simp: new_right_def)
  qed
qed

lemma calls_simulate:
  assumes "s2_ok s" and mem: "good_mem mem" and stack: "2 \<le> stack" and "\<forall>p. page_ok p \<longrightarrow> perm s p = m p"
  shows "\<exists>s'. run_calls stack mem cs s = Inr (fst (rights_calls cs m), s') \<and> s2_ok s' \<and> (\<forall>p. page_ok p \<longrightarrow> perm s' p = snd (rights_calls cs m) p)"
  using assms(1,4)
proof (induction cs arbitrary: s m)
  case (Cons c cs)
  obtain s1 where s1: "run_call stack mem c s = Inr (fst (rights_call c m), s1)" "s2_ok s1" "\<forall>p. page_ok p \<longrightarrow> perm s1 p = snd (rights_call c m) p"
    using call_simulates [OF Cons.prems(1) mem stack, of c m] Cons.prems(2) by blast
  from Cons.IH [OF s1(2,3)] show ?case using s1(1) by (auto simp: case_prod_beta Let_def)
qed simp

text \<open>
  C35. As long as memory for the tables can be allocated, the driver implements the abstract map from pages to rights. Any sequence of windows to open and close, accepted
  or rejected, of any alignment and direction, with losses of power and restores in between, returns the codes that
  the map gives, and ends with the rights that the map has.
\<close>

theorem s2mpu_refines_rights:
  assumes "s2_ok s" and "good_mem mem" and "2 \<le> stack"
  shows "\<exists>s'. run_calls stack mem cs s = Inr (fst (rights_calls cs (perm s)), s') \<and> s2_ok s' \<and> (\<forall>p. page_ok p \<longrightarrow> perm s' p = snd (rights_calls cs (perm s)) p)"
  using calls_simulate [OF assms, of "perm s" cs] by blast

theorem s2mpu_refines_rights_witness:
  "\<exists>s'. run_calls 2 page_mem [Window True 0x3000 0x2000 DMA_FROM_DEVICE, Window True 0x3001 0x2000 DMA_FROM_DEVICE, Resume (\<lambda>_. 0) (\<lambda>_. 7), Window False 0x4000 0x1000 DMA_TO_DEVICE] unit0 = Inr ([0, -1, 0, 0], s')
     \<and> perm s' 3 = 2 \<and> perm s' 4 = 0"
proof -
  have p: "page_ok 3" "page_ok 4" by (simp_all add: page_ok_def gb_ok_def)
  have w: "window_accepted 0x3000 0x2000" "\<not> window_accepted 0x3001 0x2000" "window_accepted 0x4000 0x1000" by (simp_all add: window_accepted_def)
  have c: "fst (rights_calls [Window True 0x3000 0x2000 DMA_FROM_DEVICE, Window True 0x3001 0x2000 DMA_FROM_DEVICE, Resume (\<lambda>_. 0) (\<lambda>_. 7), Window False 0x4000 0x1000 DMA_TO_DEVICE] (perm unit0)) = [0, -1, 0, 0]"
    "snd (rights_calls [Window True 0x3000 0x2000 DMA_FROM_DEVICE, Window True 0x3001 0x2000 DMA_FROM_DEVICE, Resume (\<lambda>_. 0) (\<lambda>_. 7), Window False 0x4000 0x1000 DMA_TO_DEVICE] (perm unit0)) 3 = 2"
    "snd (rights_calls [Window True 0x3000 0x2000 DMA_FROM_DEVICE, Window True 0x3001 0x2000 DMA_FROM_DEVICE, Resume (\<lambda>_. 0) (\<lambda>_. 7), Window False 0x4000 0x1000 DMA_TO_DEVICE] (perm unit0)) 4 = 0"
    using w unit0_facts(3) [OF p(1)] by (simp_all add: Let_def)
  show ?thesis
    using s2mpu_refines_rights [OF unit0_facts(1) page_mem_good order_refl, of "[Window True 0x3000 0x2000 DMA_FROM_DEVICE, Window True 0x3001 0x2000 DMA_FROM_DEVICE, Resume (\<lambda>_. 0) (\<lambda>_. 7), Window False 0x4000 0x1000 DMA_TO_DEVICE]"]
    unfolding c(1) using c(2,3) p by metis
qed

subsection \<open>No memory\<close>

lemma granule_overflows:
  assumes "\<And>n rs len. mem n rs len = None" and "dir \<noteq> DMA_NONE" and "unat a div 2 ^ 30 = gb" and "gb < 64" and "l2table_en (attr s gb) = 0" and "small g"
  shows "open_close_granule n mem g op dir a s = Inl Deep"
  using assms(5)
proof (induction n arbitrary: s)
  case (Suc n)
  have e: "gran_at s gb = Some S2_GRAN_1GB" using Suc.prems by (simp add: gran_plain)
  have g: "S2_GRAN_1GB \<noteq> g" "\<not> S2_GRAN_1GB < g" using assms(6) by (auto simp: small_def less_s2_gran_def)
  have "decompose mem gb S2_GRAN_1GB g s = Inr (s\<lparr>allocs := allocs s + 1\<rparr>)" using table_sizes [OF assms(6)] by (auto simp: decompose_def alloc_smpt_def assms(1))
  then show ?case using granule_unfold [OF assms(3,4,2) e, of n mem g op] g Suc.IH [of "s\<lparr>allocs := allocs s + 1\<rparr>"] Suc.prems by (simp del: open_close_granule.simps)
qed simp

text \<open>
  C39. When no memory can be had for the table of a gigabyte that has to be split, the function calls itself with the
  same arguments for ever: the stack overflows, however large it is.
\<close>

theorem s2mpu_alloc_failure_overflows:
  assumes "\<forall>n rs l. mem n rs l = None" and "dir \<noteq> DMA_NONE" and "validate start len = 0" and "len \<noteq> 0" and "\<not> has_table s (unat start div 2 ^ 30)"
    and "\<not> (2 ^ 30 dvd unat start \<and> 2 ^ 30 dvd unat len)"
  shows "s2mpu_lib_open_close stack mem start len op dir s = Inl Deep"
proof -
  define g where "g = (if get_gran start < get_gran len then get_gran start else get_gran len)"
  note w = window_facts [OF assms(3), folded g_def] and d = validateD [OF assms(3)]
  have "get_gran start \<noteq> S2_GRAN_1GB \<or> get_gran len \<noteq> S2_GRAN_1GB" using assms(6) get_granD(3) [OF d(2)] get_granD(3) [OF d(4)] by force
  then have "g \<noteq> S2_GRAN_1GB" using get_granD(1) [OF d(2)] get_granD(1) [OF d(4)] unfolding g_def by (auto simp: valid_gran_def small_def less_s2_gran_def split: if_splits)
  then have g: "small g" using w(1) by (simp add: valid_gran_def)
  have "0 < unat len" using assms(4) by (simp add: unat_gt_0)
  then have "0 < unat (drop_bit (gran_shift g) len)" using w(3) by (metis gr0I mult_0 less_irrefl)
  then obtain k where k: "unat (drop_bit (gran_shift g) len) = Suc k" using gr0_implies_Suc by blast
  have "gb_ok (unat start div 2 ^ 30)" using w(4) [of 0] k d(1) by simp
  then have "unat start div 2 ^ 30 < 64" "l2table_en (attr s (unat start div 2 ^ 30)) = 0" using assms(5) gb_ok_less by (auto simp: has_table_def)
  from granule_overflows [OF assms(1) [rule_format] assms(2) refl this g] show ?thesis
    using call_unfold [OF assms(3), folded g_def, of stack mem op dir s] k by simp
qed

theorem s2mpu_alloc_failure_overflows_witness:
  "s2mpu_lib_open_close 1000 (\<lambda>_ _ _. None) 0x3000 0x2000 True DMA_FROM_DEVICE unit0 = Inl Deep"
proof -
  have v: "validate 0x3000 0x2000 = 0" by (simp add: validate_def is_gran_aligned_def)
  show ?thesis by (rule s2mpu_alloc_failure_overflows [OF _ _ v]) (simp_all add: unit0_facts(4))
qed

subsection \<open>Probing\<close>

lemma vid_cast: "v < 8 \<Longrightarrow> 1 < (ucast v :: u8) \<longleftrightarrow> 1 < (v :: u32)"
proof -
  assume "v < 8"
  then have "unat v < 8" by (simp add: word_less_nat_alt)
  then have "unat (ucast v :: u8) = unat v" by (simp add: unsigned_ucast_eq take_bit_nat_eq_self)
  then show ?thesis by (simp add: word_less_nat_alt)
qed

text \<open>
  C40. The probe function dereferences a NULL pointer exactly when everything is in order but the identifier is between 2
  and 7: it accepts such identifiers, and the library answers with NULL, which is not an error pointer.
\<close>

theorem s2mpu_probe_faults:
  "s2mpu_probe e node l = None \<longleftrightarrow>
     res_s2mpu e \<and> map_s2mpu e = 0 \<and> res_ssmt e \<and> map_ssmt e = 0 \<and> 0 \<le> of_sid_count e \<and> mem_sids e
     \<and> (\<exists>v sd. of_vid e = Inr v \<and> 1 < v \<and> v < 8 \<and> of_sids e = Inr sd)"
proof -
  have n: "s2mpu_lib_init k a1 a2 r r' v sd = None \<longleftrightarrow> 1 < v" for k a1 a2 r r' v sd by (simp add: s2mpu_lib_init_def Let_def)
  have c: "(case x of None \<Rightarrow> None | Some (Inl ret) \<Rightarrow> Some (f ret) | Some (Inr i) \<Rightarrow> Some (h i)) = None \<longleftrightarrow> x = None" for x :: "(int + s2mpu_info) option" and f h
    by (auto split: option.splits sum.splits)
  show ?thesis by (auto simp: s2mpu_probe_def c n not_le not_less vid_cast split: sum.splits)
qed

end
