(* ===== verification/Spec2Isabelle.thy ===== *)
theory Spec2Isabelle
  imports PmQosNotify GVotableSafety MfcDpbProps SysmmuPages BtsProps ModemProps ModemQueueProps DmProps S2mpuRuns
begin

text \<open>
  Verification library for the Pixel 6 (gs101) device kernel modules.

  \<^bold>\<open>The program.\<close> The repository holds the drivers of a system on chip that live outside the common
  kernel. Most of them program hardware; the parts with logic of their own, which this library
  models, are the arbiters between many clients and the bookkeeping of shared resources:
  \<^item> \<^emph>\<open>PM QoS\<close> (\<^verbatim>\<open>drivers/soc/google/exynos_pm_qos.c\<close>): drivers put requests for frequencies into classes,
    and each class settles on the largest or smallest one and tells its watchers;
  \<^item> \<^emph>\<open>GVotable\<close> (\<^verbatim>\<open>drivers/misc/gvotable.c\<close>): named elections, in which the charging and battery drivers vote
    under a reason and a comparator ranks the votes;
  \<^item> \<^emph>\<open>MFC queues\<close> (\<^verbatim>\<open>drivers/media/platform/exynos/mfc/mfc_queue.c\<close>, \<^verbatim>\<open>mfc_mem.c\<close>): the queues of video
    buffers and the table of decoded picture buffers with its mappings;
  \<^item> \<^emph>\<open>System MMU\<close> (\<^verbatim>\<open>drivers/iommu/samsung-iommu.c\<close>): two-level page tables of device address spaces;
  \<^item> \<^emph>\<open>Bus traffic shaper\<close> (\<^verbatim>\<open>drivers/bts\<close>): bandwidth votes, which become PM QoS requests, and
    scenarios, which choose the settings of the bus blocks;
  \<^item> \<^emph>\<open>Modem interface\<close> (\<^verbatim>\<open>drivers/soc/google/cpif\<close>): byte queues and rings of packets in memory shared with
    the modem, and the flow control that stops and wakes the network interfaces;
  \<^item> \<^emph>\<open>DVFS manager\<close> (\<^verbatim>\<open>drivers/soc/google/exynos-dm.c\<close>): frequencies of clock domains that constrain each other;
  \<^item> \<^emph>\<open>Stage 2 protection unit\<close> (\<^verbatim>\<open>drivers/soc/google/s2mpu\<close>): tables of the physical pages a device may read and write.
  The shaper is a client of PM QoS; the library follows that call chain. The flow control of the modem
  interface works on the queues and rings that the same part models.

  \<^bold>\<open>Theories.\<close> \<open>Prelude\<close> has the integer types, the kernel's error numbers, kernel lists and lemmas the
  components share.
  \<^item> PM QoS: \<open>Plist\<close> models the priority-sorted list with its ring of first nodes (\<^verbatim>\<open>exynos_plist_add\<close>,
    \<^verbatim>\<open>exynos_plist_del\<close>), states its contract as the locale \<open>prio_list\<close> and interprets it; \<open>PmQos\<close> has
    the classes, requests, timeouts, flags, notifiers and the debugfs report, with the runs
    \<open>qos_reachable\<close>; \<open>PmQosInv\<close> proves the invariant, \<open>PmQosProps\<close> the properties: targets are
    aggregates, no call faults, timeouts, round trips. The notifier chain is called after the lock of a class is
    released: \<open>PmQosNotify\<close> has runs in which these calls are steps of their own, and shows when watchers are up to date
    and how they can be left behind.
  \<^item> GVotable: \<open>GVotable\<close> (elections, ballots, locks, results), \<open>GVotableReg\<close> (creation, the registry of
    names, status text), \<open>GVotableOps\<close> (sequences of calls). \<open>GVotableInv\<close> has the locales \<open>ranking\<close> (what a
    comparator must be for the list order to mean something) and \<open>discipline\<close> (what an election needs
    of its votes), the first a sublocale of the second, interpreted for every comparator of the code
    and for bool elections. \<open>GVotableProps\<close> and \<open>GVotableSafety\<close> have the properties of single-threaded
    runs.
  \<^item> MFC: \<open>MfcQueue\<close>, \<open>MfcDpb\<close> model the sources; \<open>MfcProps\<close> has the locale \<open>transfer\<close>, interpreted for each
    way to move a buffer, and the properties of queues; \<open>MfcDpbProps\<close> those of the table. The dma-buf
    calls are parameters.
  \<^item> System MMU: \<open>Sysmmu\<close> (tables, map, unmap, runs of pages, translation), \<open>SysmmuTable\<close> (lemmas on entries),
    \<open>SysmmuProps\<close> (locale \<open>address_space\<close>, the abstract specification as a function from page addresses, its
    interpretation, refinement and round trip), \<open>SysmmuPages\<close> (ownership of tables, runs of pages).
  \<^item> Bus traffic shaper: \<open>BtsOps\<close> (registers, operation tables), \<open>Bts\<close> (votes, scenarios, power, resume), \<open>BtsIo\<close>
    (device tree, debugfs writes); \<open>BtsRegs\<close> has the locale \<open>hw_block\<close>, that a setter makes the getters
    read its setting and touches nothing else, interpreted for IP and SCI blocks; \<open>BtsInv\<close> the invariant
    of the blocks, \<open>BtsScen\<close> that of the scenarios against a multiset of users, \<open>BtsBw\<close> that of the votes with
    the locale \<open>qos_floor\<close> for what is needed of PM QoS, interpreted on the model of PM QoS; \<open>BtsRuns\<close> the
    runs and, in the locale \<open>scenario_runs\<close>, the invariant along them, interpreted for all runs, where the counters of users may
    wrap around, and for those in which they do not; \<open>BtsProps\<close> the properties.
  \<^item> Modem interface: \<open>ModemCirc\<close> (\<^verbatim>\<open>circ_queue.h\<close>), \<open>ModemLink\<close> (frame headers, the legacy link), \<open>ModemSbd\<close> (rings of
    buffer descriptors) and \<open>ModemFlow\<close> (flow control, transmit functions and timers) model the sources.
    \<open>ModemFifo\<close> states the contract of a bounded queue of messages as the locale \<open>msg_fifo\<close>; \<open>ModemQueue\<close>
    and \<open>ModemRing\<close> interpret it for byte queues and for rings. \<open>ModemFrames\<close>, \<open>ModemRx\<close> and \<open>ModemRxAny\<close>
    treat the receive loop, for well-formed frames and for arbitrary bytes; \<open>ModemFlowInv\<close>,
    \<open>ModemFlowSteps\<close> and \<open>ModemFlowProps\<close> the invariant of flow control along its handlers: \<open>flow_step\<close> has transmissions, timers,
    acknowledgements and suspensions, \<open>link_step\<close> also restarts of the modem and the closing of the link. The
    properties are in \<open>ModemQueueProps\<close> and \<open>ModemProps\<close>.
  \<^item> DVFS manager: \<open>Dm\<close> models the source; \<open>DmSort\<close> proves the topological sort, \<open>DmLinks\<close> that registration keeps
    lists and counters one graph; \<open>DmPass\<close> has the locales \<open>limits\<close> and \<open>limit_pass\<close> for one pass over the
    domains that brings limits up to date, interpreted for lower limits, upper limits and governor
    limits; \<open>DmPolicy\<close> treats changes of policy, \<open>DmCall\<close> the two passes of a scaling call; \<open>DmProps\<close> has
    the properties.
  \<^item> Stage 2 protection unit: \<open>S2mpu\<close> models the library, the stream table and the driver. \<open>S2mpuTab\<close> shows that splitting a table keeps
    its entries, \<open>S2mpuPerm\<close> has the arithmetic of pages, registers and regions, \<open>S2mpuInv\<close> what the unit grants and the
    invariant, \<open>S2mpuWin\<close> the steps on one granule, \<open>S2mpuLoop\<close> the locale \<open>granule_visit\<close> for the loop over granules, interpreted
    for granules of the size that a table has and of any size; \<open>S2mpuProps\<close> and \<open>S2mpuRuns\<close> have the properties, among them
    the refinement of the map from pages to rights.

  \<^bold>\<open>Conventions.\<close> Structures are records, enumerations datatypes; \<^verbatim>\<open>u32\<close>, \<^verbatim>\<open>s32\<close> and \<^verbatim>\<open>u64\<close> are words, so
  arithmetic wraps as in C and \<open>sint\<close> reads a signed value; a counter of type \<^verbatim>\<open>int\<close> or \<^verbatim>\<open>atomic_t\<close> that can grow without bound is an
  integer brought into the range of C by \<open>c_int\<close>, and theorems that need it not to wrap around say so. Memory that is shared by address, such as
  list nodes, requests and page tables, is a store. A result \<open>None\<close>, or \<open>Inl\<close> of a stop, is a fault: a NULL
  pointer, an access outside an array, a lock taken twice. Error returns are the negative numbers of
  the code. Loops are recursive functions with a termination proof or structural recursion; no fuel
  is used, and theorems that a call returns are theorems that its result is not a fault. The
  receive loop of the modem may run forever: there it is a partial function, not returning is an
  outer \<open>None\<close>, and that it returns is a theorem of its own. The functions of the protection unit call each other without
  a bound: there the model has the number of nested calls the stack holds, and overflow is a stop; two nested
  calls are shown to be enough whenever memory can be allocated. What comes from outside is a parameter or an
  argument: bytes and positions the modem writes, results of allocations, of scaling functions and of
  firmware calls, callbacks of clients. Handlers run one after the other. That the head of a receive queue, which the modem writes, lies inside the
  queue is a hypothesis of the theorems on receiving (\<open>rx_ready\<close>), since the driver does not check it.

  \<^bold>\<open>Findings.\<close> Some theorems show behaviour the code does not intend: the lock left held by
  \<^verbatim>\<open>gvotable_set_default\<close>, elections misordered by a withdrawal, watchers of PM QoS left with an old value, the zero target after
  the last removal, the stale scatter table in \<^verbatim>\<open>mfc_get_iovmm\<close>, the drifting counter of page runs, the read
  past the end in \<^verbatim>\<open>bts_get_bwindex\<close>, the SCI limits that overwrite each other, the frame of length zero that
  stops the receive loop, the head beyond the queue that makes it read outside, the modem restart that disables flow control, the domain lost from the order
  after a constraint is unregistered, the throttling that is not undone, scaling errors that are
  overwritten, the endless recursion when no protection table can be allocated, and the NULL pointer of a
  protection unit with an identifier above 1.

  \<^bold>\<open>Not modelled.\<close> In the components above: printing, tracing, debugfs and sysfs reports of the shaper, register
  and TLB programming of the MMU, and locks, except for GVotable, whose locks are part of the model:
  calls run one after the other (for PM QoS: what is done under a lock); of the modem interface the packet processor, zero copy, boot, dump, power
  control and the network devices, which start and stop their own queue when they are opened and closed; of the DVFS manager its sysfs reports; of the protection unit the code for its test mode. Outside them: drivers that only program registers or glue kernel
  interfaces together, generated tables (\<^verbatim>\<open>cal-if\<close>), vendored code (\<^verbatim>\<open>vl53l1\<close>), and hooks into kernel code that is
  not part of the repository.

  \<^bold>\<open>Plan.\<close> Next in order: the ACPM channel queues, the compression fifo (\<^verbatim>\<open>eh\<close>),
  the packet processor of the modem interface, zram's slots, and Trusty's call scheduling.
\<close>

end
